(* ===== verification/Py_Prelude.thy ===== *)
theory Py_Prelude
  imports Main "HOL-Library.AList" "HOL-Library.Char_ord" "HOL-Library.List_Lexorder"
begin

text \<open>
  The fragment of Python that the modelled code uses: JSON-like values, insertion-ordered
  dictionaries, string methods, integer parsing and printing, environment variables,
  datetimes and results that may be an exception.

  \<^item> A Python \<open>str\<close> is a list of code points below 256, so \<open>len\<close>, slicing and
    comparison are those of the list.
  \<^item> A Python \<open>int\<close> is an \<open>int\<close>. JSON numbers with a fractional part are not part of
    \<open>pyval\<close>.
  \<^item> A \<open>dict\<close> is an association list in insertion order; \<open>d[k] = v\<close> is
    \<open>AList.update\<close>, which keeps the position of an existing key as Python does.
  \<^item> An aware \<open>datetime\<close> is its instant in microseconds since 1970-01-01T00:00Z.
\<close>

named_theorems py_simps \<open>unfolding rules for the Python primitives\<close>

section \<open>Values\<close>

datatype pyval =
    PyNone
  | PyBool bool
  | PyInt int
  | PyStr string
  | PyList "pyval list"
  | PyDict "(string \<times> pyval) list"

type_synonym pydict = "(string \<times> pyval) list"

fun py_truthy :: "pyval \<Rightarrow> bool" where
  "py_truthy PyNone = False"
| "py_truthy (PyBool b) = b"
| "py_truthy (PyInt i) = (i \<noteq> 0)"
| "py_truthy (PyStr s) = (s \<noteq> [])"
| "py_truthy (PyList xs) = (xs \<noteq> [])"
| "py_truthy (PyDict d) = (d \<noteq> [])"

definition py_or :: "pyval \<Rightarrow> pyval \<Rightarrow> pyval" where
  "py_or a b = (if py_truthy a then a else b)"

fun is_dict :: "pyval \<Rightarrow> bool" where
  "is_dict (PyDict d) = True"
| "is_dict _ = False"

text \<open>\<open>d.get(k)\<close>: the value, or \<open>None\<close> when the key is missing.\<close>

definition dget :: "pydict \<Rightarrow> string \<Rightarrow> pyval" where
  "dget d k = (case map_of d k of None \<Rightarrow> PyNone | Some v \<Rightarrow> v)"

abbreviation dset :: "pydict \<Rightarrow> string \<Rightarrow> pyval \<Rightarrow> pydict" where
  "dset d k v \<equiv> AList.update k v d"

text \<open>\<open>d.update(p)\<close> and \<open>{**d, **p}\<close>.\<close>

definition dmerge :: "pydict \<Rightarrow> pydict \<Rightarrow> pydict" where
  "dmerge d p = fold (\<lambda>(k, v) acc. AList.update k v acc) p d"

text \<open>\<open>dict(v) if isinstance(v, dict) else {}\<close> and \<open>dict(v or {})\<close> for a JSON column.\<close>

fun as_mapping :: "pyval \<Rightarrow> pydict" where
  "as_mapping (PyDict d) = d"
| "as_mapping _ = []"

fun opt_str :: "string option \<Rightarrow> pyval" where
  "opt_str None = PyNone"
| "opt_str (Some s) = PyStr s"

fun opt_int :: "int option \<Rightarrow> pyval" where
  "opt_int None = PyNone"
| "opt_int (Some i) = PyInt i"

lemma map_of_update [simp]: "map_of (AList.update k v d) = (map_of d)(k \<mapsto> v)"
  by (simp add: update_conv')

lemma dget_dset [simp]: "dget (dset d k v) k' = (if k' = k then v else dget d k')"
  by (simp add: dget_def)

lemma dget_delete [simp]: "dget (AList.delete k d) k' = (if k' = k then PyNone else dget d k')"
  by (simp add: dget_def delete_conv' restrict_map_def)

lemma dget_Nil [simp]: "dget [] k = PyNone"
  by (simp add: dget_def)

lemma dget_Cons [simp]: "dget ((k, v) # d) k' = (if k' = k then v else dget d k')"
  by (simp add: dget_def)

lemma dmerge_Nil [simp]: "dmerge d [] = d"
  by (simp add: dmerge_def)

lemma dmerge_Cons [simp]: "dmerge d ((k, v) # p) = dmerge (dset d k v) p"
  by (simp add: dmerge_def)

lemma py_or_simps [simp]:
  "py_truthy a \<Longrightarrow> py_or a b = a"
  "\<not> py_truthy a \<Longrightarrow> py_or a b = b"
  by (simp_all add: py_or_def)

section \<open>Equality of values\<close>

text \<open>Python's \<open>==\<close>: booleans are the integers 0 and 1, the order of a dictionary does not count.\<close>

fun py_number :: "pyval \<Rightarrow> int option" where
  "py_number (PyBool b) = Some (if b then 1 else 0)"
| "py_number (PyInt i) = Some i"
| "py_number _ = None"

function py_eq :: "pyval \<Rightarrow> pyval \<Rightarrow> bool" where
  "py_eq a b = (case (a, b) of
       (PyNone, PyNone) \<Rightarrow> True
     | (PyStr s, PyStr t) \<Rightarrow> s = t
     | (PyList [], PyList []) \<Rightarrow> True
     | (PyList (x # xs), PyList (y # ys)) \<Rightarrow> py_eq x y \<and> py_eq (PyList xs) (PyList ys)
     | (PyDict d, PyDict e) \<Rightarrow> length d = length e
         \<and> list_all (\<lambda>(k, v). case map_of e k of None \<Rightarrow> False | Some w \<Rightarrow> py_eq v w) d
     | _ \<Rightarrow> py_number a \<noteq> None \<and> py_number a = py_number b)"
  by pat_completeness auto

lemma size_entry: "(k, v) \<in> set d \<Longrightarrow> size v < size (PyDict d)"
  by (induction d) auto

lemma size_map_of: "map_of d k = Some v \<Longrightarrow> size v < size (PyDict d)"
  by (rule size_entry) (rule map_of_SomeD)

termination py_eq
  by (relation "measure (\<lambda>(a, b). size a)") (auto dest: size_entry)

declare py_eq.simps [simp del]

section \<open>Strings\<close>

definition py_space :: "char \<Rightarrow> bool" where
  "py_space c = (let n = (of_char c :: nat)
     in (9 \<le> n \<and> n \<le> 13) \<or> (28 \<le> n \<and> n \<le> 32) \<or> n = 133 \<or> n = 160)"

definition py_strip :: "string \<Rightarrow> string" where
  "py_strip s = rev (dropWhile py_space (rev (dropWhile py_space s)))"

definition py_rstrip :: "string \<Rightarrow> string" where
  "py_rstrip s = rev (dropWhile py_space (rev s))"

definition py_lower_char :: "char \<Rightarrow> char" where
  "py_lower_char c = (let n = (of_char c :: nat)
     in if (65 \<le> n \<and> n \<le> 90) \<or> (192 \<le> n \<and> n \<le> 222 \<and> n \<noteq> 215)
        then char_of (n + 32) else c)"

definition py_lower :: "string \<Rightarrow> string" where
  "py_lower s = map py_lower_char s"

fun py_join :: "string \<Rightarrow> string list \<Rightarrow> string" where
  "py_join sep [] = []"
| "py_join sep [x] = x"
| "py_join sep (x # y # xs) = x @ sep @ py_join sep (y # xs)"

text \<open>\<open>s.split()\<close>: maximal runs of non-space characters.\<close>

function py_words :: "string \<Rightarrow> string list" where
  "py_words s = (case dropWhile py_space s of
       [] \<Rightarrow> []
     | c # cs \<Rightarrow> takeWhile (\<lambda>x. \<not> py_space x) (c # cs)
                  # py_words (dropWhile (\<lambda>x. \<not> py_space x) (c # cs)))"
  by pat_completeness auto
termination
proof (relation "measure length", simp)
  fix s :: string and c cs
  assume eq: "dropWhile py_space s = c # cs"
  have nsp: "\<not> py_space c"
    using eq hd_dropWhile [of py_space s] by (metis list.sel(1) list.simps(3))
  have "length (dropWhile (\<lambda>x. \<not> py_space x) cs) \<le> length cs"
    by (rule length_dropWhile_le)
  moreover have "length (c # cs) \<le> length s"
    by (metis eq length_dropWhile_le)
  ultimately show "(dropWhile (\<lambda>x. \<not> py_space x) (c # cs), s) \<in> measure length"
    using nsp by simp
qed

declare py_words.simps [simp del]

text \<open>\<open>s.split(sep)\<close> for a one-character separator: never empty.\<close>

fun py_split_on :: "char \<Rightarrow> string \<Rightarrow> string list" where
  "py_split_on c [] = [[]]"
| "py_split_on c (x # xs) =
     (if x = c then [] # py_split_on c xs
      else case py_split_on c xs of [] \<Rightarrow> [[x]] | w # ws \<Rightarrow> (x # w) # ws)"

definition py_startswith :: "string \<Rightarrow> string \<Rightarrow> bool" where
  "py_startswith s p = (take (length p) s = p)"

lemma py_strip_Nil [simp]: "py_strip [] = []"
  by (simp add: py_strip_def)

lemma py_lower_Nil [simp]: "py_lower [] = []"
  by (simp add: py_lower_def)

lemma set_py_strip: "set (py_strip s) \<subseteq> set s"
  unfolding py_strip_def by (auto dest!: set_dropWhileD)

lemma py_split_on_not_Nil [simp]: "py_split_on c s \<noteq> []"
  by (cases s) (auto split: list.splits)

text \<open>Splitting undoes joining, for a separator no part contains.\<close>

lemma split_append: "c \<notin> set w \<Longrightarrow> py_split_on c (w @ c # s) = w # py_split_on c s"
  by (induction w) auto

lemma split_single: "c \<notin> set w \<Longrightarrow> py_split_on c w = [w]"
  by (induction w) auto

lemma split_at: "py_split_on c (a @ c # b) = py_split_on c a @ py_split_on c b"
  by (induction a) (auto split: list.splits)

lemma split_no_separator: "w \<in> set (py_split_on c s) \<Longrightarrow> c \<notin> set w"
  by (induction s arbitrary: w) (auto split: if_splits list.splits)

lemma split_join: "p \<noteq> [] \<Longrightarrow> (\<And>w. w \<in> set p \<Longrightarrow> c \<notin> set w) \<Longrightarrow> py_split_on c (py_join [c] p) = p"
  by (induction "[c]" p rule: py_join.induct) (simp_all add: split_append split_single)

lemma py_join_append:
  "xs \<noteq> [] \<Longrightarrow> ys \<noteq> [] \<Longrightarrow> py_join sep (xs @ ys) = py_join sep xs @ sep @ py_join sep ys"
proof (induction sep xs rule: py_join.induct)
  case (2 sep x)
  then show ?case by (cases ys) simp_all
qed simp_all

lemma py_join_ends:
  "p \<noteq> [] \<Longrightarrow> [] \<notin> set p \<Longrightarrow> py_join s p \<noteq> [] \<and> hd (py_join s p) = hd (hd p) \<and> last (py_join s p) = last (last p)"
  by (induction s p rule: py_join.induct) auto

text \<open>Stripping is idempotent: neither end of a stripped string is a space.\<close>

lemma dropWhile_fixed: "xs = [] \<or> \<not> P (hd xs) \<Longrightarrow> dropWhile P xs = xs"
  by (cases xs) auto

lemma py_strip_ends:
  assumes "py_strip s \<noteq> []"
  shows "\<not> py_space (hd (py_strip s))" and "\<not> py_space (last (py_strip s))"
proof -
  let ?l = "dropWhile py_space s"
  let ?r = "dropWhile py_space (rev ?l)"
  have r: "?r \<noteq> []" using assms by (simp add: py_strip_def)
  then show "\<not> py_space (last (py_strip s))"
    by (simp add: py_strip_def last_rev hd_dropWhile)
  obtain pre where pre: "rev ?l = pre @ ?r"
    by (metis takeWhile_dropWhile_id)
  then have "?l = rev ?r @ rev pre" by (metis rev_append rev_rev_ident)
  then have "hd (rev ?r) = hd ?l" and "?l \<noteq> []"
    using r by (metis hd_append2 rev_is_Nil_conv, metis append_is_Nil_conv rev_is_Nil_conv)
  then show "\<not> py_space (hd (py_strip s))"
    by (simp add: py_strip_def hd_dropWhile)
qed

lemma py_strip_idem [simp]: "py_strip (py_strip s) = py_strip s"
proof (cases "py_strip s = []")
  case False
  note ends = py_strip_ends [OF False]
  have "dropWhile py_space (py_strip s) = py_strip s"
    using False ends(1) by (intro dropWhile_fixed) simp
  moreover have "dropWhile py_space (rev (py_strip s)) = rev (py_strip s)"
    using False ends(2) by (intro dropWhile_fixed) (simp add: hd_rev)
  ultimately show ?thesis by (subst py_strip_def) simp
qed simp

section \<open>Integers as text\<close>

definition digit_char :: "nat \<Rightarrow> char" where
  "digit_char n = char_of (48 + n)"

definition is_digit :: "char \<Rightarrow> bool" where
  "is_digit c = (let n = (of_char c :: nat) in 48 \<le> n \<and> n \<le> 57)"

definition digit_val :: "char \<Rightarrow> nat" where
  "digit_val c = of_char c - 48"

fun show_nat :: "nat \<Rightarrow> string" where
  "show_nat n = (if n < 10 then [digit_char n] else show_nat (n div 10) @ [digit_char (n mod 10)])"

declare show_nat.simps [simp del]

definition show_int :: "int \<Rightarrow> string" where
  "show_int i = (if i < 0 then ''-'' @ show_nat (nat (- i)) else show_nat (nat i))"

text \<open>
  \<open>int(s)\<close>: surrounding white space, an optional sign and at least one digit, with single
  underscores allowed between digits. \<open>parse_digits\<close> reads the rest after a digit.
\<close>

fun parse_digits :: "nat \<Rightarrow> string \<Rightarrow> nat option" where
  "parse_digits acc [] = Some acc"
| "parse_digits acc (c # cs) =
     (if is_digit c then parse_digits (10 * acc + digit_val c) cs
      else if c = CHR ''_'' then
        (case cs of d # ds \<Rightarrow> if is_digit d then parse_digits (10 * acc + digit_val d) ds else None
         | [] \<Rightarrow> None)
      else None)"

definition parse_nat :: "string \<Rightarrow> nat option" where
  "parse_nat s = (case s of [] \<Rightarrow> None
     | c # cs \<Rightarrow> if is_digit c then parse_digits (digit_val c) cs else None)"

definition py_int_of_str :: "string \<Rightarrow> int option" where
  "py_int_of_str s = (case py_strip s of
       [] \<Rightarrow> None
     | c # cs \<Rightarrow>
         if c = CHR ''-'' then map_option (\<lambda>n. - int n) (parse_nat cs)
         else if c = CHR ''+'' then map_option int (parse_nat cs)
         else map_option int (parse_nat (c # cs)))"

text \<open>\<open>int(v)\<close>; \<open>None\<close> stands for the \<open>TypeError\<close> or \<open>ValueError\<close> that it raises.\<close>

fun py_int :: "pyval \<Rightarrow> int option" where
  "py_int (PyBool b) = Some (if b then 1 else 0)"
| "py_int (PyInt i) = Some i"
| "py_int (PyStr s) = py_int_of_str s"
| "py_int _ = None"

lemma of_char_digit_char: "d < 10 \<Longrightarrow> of_char (digit_char d) = 48 + d"
  by (simp add: digit_char_def)

lemma digit_char_values [simp]:
  "digit_char 0 = CHR ''0''" "digit_char (Suc 0) = CHR ''1''" "digit_char 1 = CHR ''1''"
  "digit_char 2 = CHR ''2''" "digit_char 3 = CHR ''3''" "digit_char 4 = CHR ''4''"
  "digit_char 5 = CHR ''5''" "digit_char 6 = CHR ''6''" "digit_char 7 = CHR ''7''"
  "digit_char 8 = CHR ''8''" "digit_char 9 = CHR ''9''"
  by code_simp+

lemma is_digit_digit_char [simp]: "d < 10 \<Longrightarrow> is_digit (digit_char d)"
  by (simp add: is_digit_def of_char_digit_char)

lemma digit_val_digit_char [simp]: "d < 10 \<Longrightarrow> digit_val (digit_char d) = d"
  by (simp add: digit_val_def of_char_digit_char)

lemma digit_not_space: "is_digit c \<Longrightarrow> \<not> py_space c"
  by (auto simp: is_digit_def py_space_def Let_def)

lemma digit_not_sign: "is_digit c \<Longrightarrow> c \<noteq> CHR ''-'' \<and> c \<noteq> CHR ''+'' \<and> c \<noteq> CHR ''_''"
  by (auto simp: is_digit_def)

lemma show_nat_digits: "\<forall>c \<in> set (show_nat n). is_digit c"
proof (induction n rule: show_nat.induct)
  case (1 n)
  then show ?case by (cases "n < 10") (auto simp: show_nat.simps [of n])
qed

lemma show_nat_not_Nil [simp]: "show_nat n \<noteq> []"
  by (subst show_nat.simps) simp

lemma parse_digits_append:
  "\<forall>c \<in> set s. is_digit c \<Longrightarrow>
   parse_digits acc (s @ t) = (case parse_digits acc s of None \<Rightarrow> None | Some a \<Rightarrow> parse_digits a t)"
  by (induction s arbitrary: acc) auto

lemma parse_nat_append:
  assumes "s \<noteq> []" and "\<forall>c \<in> set s. is_digit c"
  shows "parse_nat (s @ t) = (case parse_nat s of None \<Rightarrow> None | Some a \<Rightarrow> parse_digits a t)"
  using assms by (cases s) (simp_all add: parse_nat_def parse_digits_append)

lemma parse_nat_show_nat: "parse_nat (show_nat n) = Some n"
proof (induction n rule: show_nat.induct)
  case (1 n)
  show ?case
  proof (cases "n < 10")
    case True
    then show ?thesis by (simp add: show_nat.simps [of n] parse_nat_def)
  next
    case False
    with 1 show ?thesis
      by (simp add: show_nat.simps [of n] parse_nat_append show_nat_digits)
  qed
qed

lemma py_strip_no_space:
  assumes "\<forall>c \<in> set s. \<not> py_space c"
  shows "py_strip s = s"
proof -
  have "dropWhile py_space u = u" if "set u = set s" for u
    using assms that by (cases u) auto
  then show ?thesis by (simp add: py_strip_def)
qed

text \<open>\<open>int(str(i)) == i\<close>.\<close>

lemma py_int_of_str_show_int [simp]: "py_int_of_str (show_int i) = Some i"
proof -
  have ns: "py_strip (show_int i) = show_int i"
    using show_nat_digits digit_not_space
    by (intro py_strip_no_space) (auto simp: show_int_def py_space_def Let_def split: if_splits)
  obtain c cs where cs: "show_nat (nat i) = c # cs"
    by (meson show_nat_not_Nil neq_Nil_conv)
  then have "is_digit c" using show_nat_digits [of "nat i"] by simp
  then have "c \<noteq> CHR ''-''" "c \<noteq> CHR ''+''" by (simp_all add: digit_not_sign)
  then show ?thesis
    using ns cs parse_nat_show_nat [of "nat i"] parse_nat_show_nat [of "nat (- i)"]
    by (auto simp: py_int_of_str_def show_int_def)
qed

section \<open>str and repr\<close>

definition hex_char :: "nat \<Rightarrow> char" where
  "hex_char n = (if n < 10 then char_of (48 + n) else char_of (87 + n))"

definition hex2 :: "nat \<Rightarrow> string" where
  "hex2 n = [hex_char (n div 16), hex_char (n mod 16)]"

definition repr_char :: "char \<Rightarrow> char \<Rightarrow> string" where
  "repr_char q c = (let n = (of_char c :: nat) in
     if c = q \<or> n = 92 then [char_of (92::nat), c]
     else if n = 10 then [char_of (92::nat), CHR ''n'']
     else if n = 13 then [char_of (92::nat), CHR ''r'']
     else if n = 9 then [char_of (92::nat), CHR ''t'']
     else if n < 32 \<or> (127 \<le> n \<and> n \<le> 160) \<or> n = 173 then [char_of (92::nat), CHR ''x''] @ hex2 n
     else [c])"

definition repr_str :: "string \<Rightarrow> string" where
  "repr_str s = (let q = (if char_of (39::nat) \<in> set s \<and> char_of (34::nat) \<notin> set s
                          then char_of (34::nat) else char_of (39::nat))
     in [q] @ concat (map (repr_char q) s) @ [q])"

fun py_repr :: "pyval \<Rightarrow> string" where
  "py_repr PyNone = ''None''"
| "py_repr (PyBool b) = (if b then ''True'' else ''False'')"
| "py_repr (PyInt i) = show_int i"
| "py_repr (PyStr s) = repr_str s"
| "py_repr (PyList xs) = ''['' @ py_join '', '' (map py_repr xs) @ '']''"
| "py_repr (PyDict d) =
     ''{'' @ py_join '', '' (map (\<lambda>(k, s). repr_str k @ '': '' @ s) (map (map_prod id py_repr) d)) @ ''}''"

definition py_str :: "pyval \<Rightarrow> string" where
  "py_str v = (case v of PyStr s \<Rightarrow> s | _ \<Rightarrow> py_repr v)"

text \<open>\<open>str(v or "").strip()\<close>, the normalisation used throughout the code.\<close>

definition clean_text :: "pyval \<Rightarrow> string" where
  "clean_text v = (if py_truthy v then py_strip (py_str v) else [])"

lemma py_str_PyStr [simp]: "py_str (PyStr s) = s"
  by (simp add: py_str_def)

lemma clean_text_PyStr [simp]: "clean_text (PyStr s) = py_strip s"
  by (simp add: clean_text_def)

lemma clean_text_PyNone [simp]: "clean_text PyNone = []"
  by (simp add: clean_text_def)

lemma clean_text_strip [simp]: "py_strip (clean_text v) = clean_text v"
  by (simp add: clean_text_def)

section \<open>JSON text\<close>

definition json_esc :: "char \<Rightarrow> string" where
  "json_esc c = (let n = (of_char c :: nat); bs = char_of (92::nat) in
     if n = 34 \<or> n = 92 then [bs, c]
     else if n = 10 then [bs, CHR ''n''] else if n = 13 then [bs, CHR ''r'']
     else if n = 9 then [bs, CHR ''t''] else if n = 8 then [bs, CHR ''b'']
     else if n = 12 then [bs, CHR ''f'']
     else if n < 32 \<or> 126 < n then [bs, CHR ''u'', CHR ''0'', CHR ''0''] @ hex2 n
     else [c])"

definition json_string :: "string \<Rightarrow> string" where
  "json_string s = [char_of (34::nat)] @ concat (map json_esc s) @ [char_of (34::nat)]"

text \<open>
  \<open>json.dumps(v, sort_keys=sk, separators=(isep, ksep))\<close> with the default
  \<open>ensure_ascii=True\<close>; the default separators are \<open>', '\<close> and \<open>': '\<close>.
\<close>

fun json_dumps :: "bool \<Rightarrow> string \<Rightarrow> string \<Rightarrow> pyval \<Rightarrow> string" where
  "json_dumps sk isep ksep PyNone = ''null''"
| "json_dumps sk isep ksep (PyBool b) = (if b then ''true'' else ''false'')"
| "json_dumps sk isep ksep (PyInt i) = show_int i"
| "json_dumps sk isep ksep (PyStr s) = json_string s"
| "json_dumps sk isep ksep (PyList xs) =
     ''['' @ py_join isep (map (json_dumps sk isep ksep) xs) @ '']''"
| "json_dumps sk isep ksep (PyDict d) =
     (let kvs = map (map_prod id (json_dumps sk isep ksep)) d;
          ord = (if sk then sort_key fst kvs else kvs)
      in ''{'' @ py_join isep (map (\<lambda>(k, s). json_string k @ ksep @ s) ord) @ ''}'')"

section \<open>Environment variables\<close>

type_synonym environ = "string \<rightharpoonup> string"

text \<open>
  \<open>int(os.getenv(name, str(default)))\<close> with the default on a \<open>TypeError\<close> or
  \<open>ValueError\<close>.
\<close>

definition getenv_int :: "environ \<Rightarrow> string \<Rightarrow> int \<Rightarrow> int" where
  "getenv_int env name dflt =
     (case env name of None \<Rightarrow> dflt
      | Some s \<Rightarrow> (case py_int_of_str s of None \<Rightarrow> dflt | Some i \<Rightarrow> i))"

section \<open>Exceptions\<close>

text \<open>The exceptions the modelled code raises and lets escape.\<close>

datatype py_error =
    ValueError string
  | LookupError int
  | RunTransitionError string string
  | ExecutionClaimLost int int
  | IntegrityError
  | RuntimeError string
  | KeyError string
  | TypeError
  | AttributeError
  | DBAPIError "string list"
  | TimeoutError string
  | OSError string
  | MappingExpressionError "string list"

type_synonym 'a result = "py_error + 'a"

definition rbind :: "'a result \<Rightarrow> ('a \<Rightarrow> 'b result) \<Rightarrow> 'b result" where
  "rbind m f = (case m of Inl e \<Rightarrow> Inl e | Inr x \<Rightarrow> f x)"

lemma rbind_simps [simp]: "rbind (Inl e) f = Inl e" "rbind (Inr x) f = f x"
  by (simp_all add: rbind_def)

lemma rbind_Inr_iff: "rbind m f = Inr y \<longleftrightarrow> (\<exists>x. m = Inr x \<and> f x = Inr y)"
  by (cases m) simp_all

lemma rbind_assoc: "rbind (rbind m f) g = rbind m (\<lambda>x. rbind (f x) g)"
  by (cases m) simp_all

text \<open>\<open>int(v)\<close>, with the exception as a value.\<close>

definition int_or_error :: "pyval \<Rightarrow> int result" where
  "int_or_error v = (case py_int v of
       Some i \<Rightarrow> Inr i
     | None \<Rightarrow> (case v of PyStr s \<Rightarrow> Inl (ValueError s) | _ \<Rightarrow> Inl TypeError))"

text \<open>
  \<open>dict(v or {})\<close>: a truthy value that is no dictionary is refused (a list of pairs, which Python
  also turns into a dictionary, is not a shape the payload has).
\<close>

definition dict_or_error :: "pyval \<Rightarrow> pydict result" where
  "dict_or_error v = (case v of
       PyDict d \<Rightarrow> Inr d
     | PyStr s \<Rightarrow> if s = [] then Inr [] else Inl (ValueError ''dict'')
     | PyList xs \<Rightarrow> if xs = [] then Inr [] else Inl (ValueError ''dict'')
     | _ \<Rightarrow> if py_truthy v then Inl TypeError else Inr [])"

fun rmap :: "('a \<Rightarrow> 'b result) \<Rightarrow> 'a list \<Rightarrow> 'b list result" where
  "rmap f [] = Inr []"
| "rmap f (x # xs) = rbind (f x) (\<lambda>y. rbind (rmap f xs) (\<lambda>ys. Inr (y # ys)))"

lemma rmap_Inr_iff: "rmap f xs = Inr ys \<longleftrightarrow> list_all2 (\<lambda>x y. f x = Inr y) xs ys"
proof (induction xs arbitrary: ys)
  case Nil
  then show ?case by auto
next
  case (Cons x xs)
  then show ?case by (cases ys) (auto simp: rbind_Inr_iff)
qed

section \<open>Datetimes\<close>

text \<open>
  A naive datetime carries wall-clock microseconds; the code reads it as UTC wherever it
  normalises (\<open>replace(tzinfo=timezone.utc)\<close>).
\<close>

type_synonym instant = int

datatype datetime = Naive int | Aware instant

fun assume_utc :: "datetime \<Rightarrow> instant" where
  "assume_utc (Naive t) = t"
| "assume_utc (Aware t) = t"

definition seconds :: "int \<Rightarrow> int" where
  "seconds n = n * 1000000"

lemma seconds_pos [simp]: "0 < seconds n \<longleftrightarrow> 0 < n"
  by (simp add: seconds_def)

lemma seconds_mono: "m \<le> n \<Longrightarrow> seconds m \<le> seconds n"
  by (simp add: seconds_def)

section \<open>Ledgers\<close>

text \<open>
  A state with an invariant and a preorder that says how it may grow; every step keeps the first
  and respects the second.
\<close>

locale ledger =
  fixes inv :: "'d \<Rightarrow> bool"
    and evolves :: "'d \<Rightarrow> 'd \<Rightarrow> bool"
    and step :: "'d \<Rightarrow> 'd \<Rightarrow> bool"
  assumes evolves_refl: "evolves d d"
    and evolves_trans: "evolves a b \<Longrightarrow> evolves b c \<Longrightarrow> evolves a c"
    and step_inv: "inv a \<Longrightarrow> step a b \<Longrightarrow> inv b"
    and step_evolves: "inv a \<Longrightarrow> step a b \<Longrightarrow> evolves a b"
begin

lemma reachable: "step\<^sup>*\<^sup>* a b \<Longrightarrow> inv a \<Longrightarrow> inv b \<and> evolves a b"
  by (induction rule: rtranclp_induct) (auto intro: evolves_refl evolves_trans step_inv step_evolves)

lemma reachable_inv: "step\<^sup>*\<^sup>* a b \<Longrightarrow> inv a \<Longrightarrow> inv b"
  using reachable by blast

lemma reachable_evolves: "step\<^sup>*\<^sup>* a b \<Longrightarrow> inv a \<Longrightarrow> evolves a b"
  using reachable by blast

end

end
