(* ===== verification/Statuses.thy ===== *)
theory Statuses
  imports Py_Prelude
begin

text \<open>
  The status contracts of \<open>brain/contracts/statuses.py\<close> and the run state machine of
  \<open>brain/systems/runs/status.py\<close>: the nine run statuses, their groups as the code lists
  them, the alias projection used for historical rows, the coercion of stored text and the
  transition guard \<open>ensure_run_transition\<close>. The step relation \<open>run_step\<close> is the guard read
  as a relation; its inversion rules and reachability facts are what the run store relies on.
\<close>

section \<open>Run statuses\<close>

datatype run_status =
  QUEUED | STARTING | RUNNING | PAUSED | VERIFYING | COMPLETED | FAILED | CANCELED | EXPIRED

fun rs_value :: "run_status \<Rightarrow> string" where
  "rs_value QUEUED = ''queued''"
| "rs_value STARTING = ''starting''"
| "rs_value RUNNING = ''running''"
| "rs_value PAUSED = ''paused''"
| "rs_value VERIFYING = ''verifying''"
| "rs_value COMPLETED = ''completed''"
| "rs_value FAILED = ''failed''"
| "rs_value CANCELED = ''canceled''"
| "rs_value EXPIRED = ''expired''"

definition RunStatus_members :: "run_status list" where
  "RunStatus_members =
     [QUEUED, STARTING, RUNNING, PAUSED, VERIFYING, COMPLETED, FAILED, CANCELED, EXPIRED]"

definition RUN_STATUS_VALUES :: "string list" where
  "RUN_STATUS_VALUES = map rs_value RunStatus_members"

definition ACTIVE_RUN_STATUS_VALUES :: "string list" where
  "ACTIVE_RUN_STATUS_VALUES =
     [rs_value STARTING, rs_value RUNNING, rs_value PAUSED, rs_value VERIFYING]"

definition OPEN_RUN_STATUS_VALUES :: "string list" where
  "OPEN_RUN_STATUS_VALUES = rs_value QUEUED # ACTIVE_RUN_STATUS_VALUES"

definition TERMINAL_RUN_STATUS_VALUES :: "string list" where
  "TERMINAL_RUN_STATUS_VALUES =
     [rs_value COMPLETED, rs_value FAILED, rs_value CANCELED, rs_value EXPIRED]"

definition PROCESSING_RUN_STATUS_VALUES :: "string list" where
  "PROCESSING_RUN_STATUS_VALUES = [rs_value STARTING, rs_value RUNNING, rs_value VERIFYING]"

definition LEGACY_AGENT_RUN_STATUS_VALUES :: "string list" where
  "LEGACY_AGENT_RUN_STATUS_VALUES = [''cancelled'', ''error'', ''blocked'']"

definition AGENT_RUN_DB_STATUS_VALUES :: "string list" where
  "AGENT_RUN_DB_STATUS_VALUES = RUN_STATUS_VALUES @ LEGACY_AGENT_RUN_STATUS_VALUES"

definition RUN_STATUS_ALIASES :: "(string \<times> string) list" where
  "RUN_STATUS_ALIASES =
     [(''cancelled'', rs_value CANCELED), (''superseded'', rs_value CANCELED),
      (''timeout'', rs_value FAILED), (''error'', rs_value FAILED),
      (''blocked'', rs_value FAILED)]"

definition PROJECTABLE_RUN_STATUS_VALUES :: "string list" where
  "PROJECTABLE_RUN_STATUS_VALUES = RUN_STATUS_VALUES @ map fst RUN_STATUS_ALIASES"

text \<open>\<open>str(status or fallback or "queued").strip().lower()\<close> and the alias lookup.\<close>

definition project_run_status_value :: "string option \<Rightarrow> string option \<Rightarrow> string" where
  "project_run_status_value status fallback =
     (let pick = (\<lambda>s rest. case s of None \<Rightarrow> rest | Some t \<Rightarrow> if t = [] then rest else t);
          raw = py_lower (py_strip (pick status (pick fallback (rs_value QUEUED))))
      in if raw \<in> set PROJECTABLE_RUN_STATUS_VALUES
         then (case map_of RUN_STATUS_ALIASES raw of None \<Rightarrow> raw | Some v \<Rightarrow> v)
         else raw)"

section \<open>Groups and transitions\<close>

definition TERMINAL_RUN_STATUSES :: "run_status list" where
  "TERMINAL_RUN_STATUSES = [COMPLETED, FAILED, CANCELED, EXPIRED]"

definition ACTIVE_RUN_STATUSES :: "run_status list" where
  "ACTIVE_RUN_STATUSES = [STARTING, RUNNING, PAUSED, VERIFYING]"

definition OPEN_RUN_STATUSES :: "run_status list" where
  "OPEN_RUN_STATUSES = QUEUED # ACTIVE_RUN_STATUSES"

definition PROCESSING_RUN_STATUSES :: "run_status list" where
  "PROCESSING_RUN_STATUSES = [STARTING, RUNNING, VERIFYING]"

fun ALLOWED_RUN_TRANSITIONS :: "run_status \<Rightarrow> run_status list" where
  "ALLOWED_RUN_TRANSITIONS QUEUED = [STARTING, CANCELED, EXPIRED, FAILED]"
| "ALLOWED_RUN_TRANSITIONS STARTING = [QUEUED, RUNNING, FAILED, CANCELED, EXPIRED]"
| "ALLOWED_RUN_TRANSITIONS RUNNING =
     [QUEUED, PAUSED, VERIFYING, COMPLETED, FAILED, CANCELED, EXPIRED]"
| "ALLOWED_RUN_TRANSITIONS PAUSED = [RUNNING, FAILED, CANCELED, EXPIRED]"
| "ALLOWED_RUN_TRANSITIONS VERIFYING =
     [QUEUED, RUNNING, COMPLETED, FAILED, CANCELED, EXPIRED]"
| "ALLOWED_RUN_TRANSITIONS _ = []"

text \<open>A status argument: the enum itself, or a \<open>str | None\<close>.\<close>

datatype status_arg = StatusEnum run_status | StatusText "string option"

definition find_status :: "string \<Rightarrow> run_status option" where
  "find_status candidate = find (\<lambda>s. candidate = rs_value s) RunStatus_members"

fun coerce_run_status :: "status_arg \<Rightarrow> run_status \<Rightarrow> run_status" where
  "coerce_run_status (StatusEnum s) dflt = s"
| "coerce_run_status (StatusText t) dflt =
     (let candidate = py_lower (py_strip (case t of None \<Rightarrow> [] | Some s \<Rightarrow> s))
      in case find_status candidate of None \<Rightarrow> dflt | Some s \<Rightarrow> s)"

definition ensure_run_transition ::
  "status_arg \<Rightarrow> status_arg \<Rightarrow> bool \<Rightarrow> (run_status \<times> run_status) result" where
  "ensure_run_transition from_status to_status allow_interrupted_requeue =
     (let current = coerce_run_status from_status QUEUED;
          target = coerce_run_status to_status QUEUED
      in if target = current then Inr (current, target)
         else if target \<notin> set (ALLOWED_RUN_TRANSITIONS current)
         then Inl (RunTransitionError (rs_value current) (rs_value target))
         else if current \<in> set PROCESSING_RUN_STATUSES \<and> target = QUEUED
                 \<and> \<not> allow_interrupted_requeue
         then Inl (RunTransitionError (rs_value current) (rs_value target))
         else Inr (current, target))"

lemmas run_status_groups =
  TERMINAL_RUN_STATUSES_def ACTIVE_RUN_STATUSES_def OPEN_RUN_STATUSES_def
  PROCESSING_RUN_STATUSES_def RunStatus_members_def

lemmas run_status_values =
  RUN_STATUS_VALUES_def ACTIVE_RUN_STATUS_VALUES_def OPEN_RUN_STATUS_VALUES_def
  TERMINAL_RUN_STATUS_VALUES_def PROCESSING_RUN_STATUS_VALUES_def

section \<open>Facts\<close>

lemma rs_value_inj [simp]: "rs_value a = rs_value b \<longleftrightarrow> a = b"
  by (cases a; cases b) simp_all

lemma RunStatus_members_all [simp]: "s \<in> set RunStatus_members"
  by (cases s) (simp_all add: RunStatus_members_def)

lemma find_status_value [simp]: "find_status (rs_value s) = Some s"
  by (cases s) (simp_all add: find_status_def RunStatus_members_def)

lemma find_status_SomeD: "find_status t = Some s \<Longrightarrow> t = rs_value s"
  by (auto simp: find_status_def find_Some_iff)

text \<open>Status text is already stripped and lower case.\<close>

lemma strip_rs_value [simp]: "py_strip (rs_value s) = rs_value s"
  by (cases s) (simp_all add: py_strip_def py_space_def)

lemma lower_rs_value [simp]: "py_lower (rs_value s) = rs_value s"
  by (cases s) (simp_all add: py_lower_def py_lower_char_def)

lemma coerce_rs_value [simp]: "coerce_run_status (StatusText (Some (rs_value s))) d = s"
  by simp

lemma rs_value_member [simp]:
  "rs_value s \<in> set OPEN_RUN_STATUS_VALUES \<longleftrightarrow> s \<in> set OPEN_RUN_STATUSES"
  "rs_value s \<in> set TERMINAL_RUN_STATUS_VALUES \<longleftrightarrow> s \<in> set TERMINAL_RUN_STATUSES"
  "rs_value s \<in> set ACTIVE_RUN_STATUS_VALUES \<longleftrightarrow> s \<in> set ACTIVE_RUN_STATUSES"
  "rs_value s \<in> set PROCESSING_RUN_STATUS_VALUES \<longleftrightarrow> s \<in> set PROCESSING_RUN_STATUSES"
  by (cases s; simp add: run_status_values run_status_groups)+

lemma terminal_iff_not_open:
  "s \<in> set TERMINAL_RUN_STATUSES \<longleftrightarrow> s \<notin> set OPEN_RUN_STATUSES"
  by (cases s) (simp_all add: run_status_groups)

lemma ensure_from_terminal:
  assumes "coerce_run_status f QUEUED \<in> set TERMINAL_RUN_STATUSES"
    and "ensure_run_transition f t allow = Inr (c, d)"
  shows "d = c"
  using assms by (auto simp: ensure_run_transition_def Let_def run_status_groups split: if_splits)

lemma ensure_run_transition_InrD:
  assumes "ensure_run_transition f t allow = Inr (c, d)"
  shows "c = coerce_run_status f QUEUED" and "d = coerce_run_status t QUEUED"
    and "c = d \<or> d \<in> set (ALLOWED_RUN_TRANSITIONS c)"
  using assms by (auto simp: ensure_run_transition_def Let_def split: if_splits)

section \<open>The transition guard as a step relation\<close>

text \<open>\<open>run_step requeue a b\<close>: the guard lets a run move from \<open>a\<close> to a different status \<open>b\<close>.\<close>

inductive run_step :: "bool \<Rightarrow> run_status \<Rightarrow> run_status \<Rightarrow> bool" where
  run_stepI: "ensure_run_transition (StatusEnum a) (StatusEnum b) requeue = Inr (a, b) \<Longrightarrow> a \<noteq> b
    \<Longrightarrow> run_step requeue a b"

inductive_simps run_step_iff: "run_step requeue a b"

lemma run_step_allowed:
  "run_step requeue a b \<longleftrightarrow>
     b \<in> set (ALLOWED_RUN_TRANSITIONS a) \<and> (b = QUEUED \<longrightarrow> requeue)"
  by (cases a; cases b)
     (auto simp: run_step_iff ensure_run_transition_def run_status_groups)

lemma run_step_terminal: "a \<in> set TERMINAL_RUN_STATUSES \<Longrightarrow> \<not> run_step requeue a b"
  by (auto simp: run_step_allowed run_status_groups)

lemma run_step_settles:
  "a \<in> set OPEN_RUN_STATUSES \<Longrightarrow> b \<in> {FAILED, CANCELED, EXPIRED} \<Longrightarrow> run_step requeue a b"
  by (auto simp: run_step_allowed run_status_groups)

lemma run_step_completed: "run_step requeue a COMPLETED \<longleftrightarrow> a = RUNNING \<or> a = VERIFYING"
  by (cases a) (simp_all add: run_step_allowed)

text \<open>The lower-case map is idempotent and does not create white space.\<close>

lemma py_lower_char_idem [simp]: "py_lower_char (py_lower_char c) = py_lower_char c"
  by (simp add: py_lower_char_def Let_def)

lemma py_space_lower_char [simp]: "py_space (py_lower_char c) = py_space c"
  by (auto simp: py_space_def py_lower_char_def Let_def)

lemma py_lower_idem [simp]: "py_lower (py_lower s) = py_lower s"
  by (simp add: py_lower_def)

lemma py_strip_lower: "py_strip (py_lower s) = py_lower (py_strip s)"
proof -
  have dw: "dropWhile py_space (map py_lower_char u) = map py_lower_char (dropWhile py_space u)" for u
    by (induction u) simp_all
  show ?thesis by (simp add: py_strip_def py_lower_def dw rev_map)
qed

definition run_status_alias :: "string \<Rightarrow> string" where
  "run_status_alias raw = (case map_of RUN_STATUS_ALIASES raw of None \<Rightarrow> raw | Some v \<Rightarrow> v)"

lemma project_alias:
  "(if raw \<in> set PROJECTABLE_RUN_STATUS_VALUES
    then (case map_of RUN_STATUS_ALIASES raw of None \<Rightarrow> raw | Some v \<Rightarrow> v) else raw)
   = run_status_alias raw"
proof (cases "raw \<in> set PROJECTABLE_RUN_STATUS_VALUES")
  case False
  then have "map_of RUN_STATUS_ALIASES raw = None"
    by (simp add: PROJECTABLE_RUN_STATUS_VALUES_def map_of_eq_None_iff)
  with False show ?thesis by (simp add: run_status_alias_def)
qed (simp add: run_status_alias_def)

lemma project_Some:
  "t \<noteq> [] \<Longrightarrow> project_run_status_value (Some t) fb = run_status_alias (py_lower (py_strip t))"
  by (simp add: project_run_status_value_def Let_def project_alias)

lemma project_cases:
  obtains t where "project_run_status_value status fb = run_status_alias (py_lower (py_strip t))"
  by (simp add: project_run_status_value_def Let_def project_alias)

lemma alias_value [simp]: "run_status_alias (rs_value s) = rs_value s"
  by (cases s) (simp_all add: run_status_alias_def RUN_STATUS_ALIASES_def)

lemma run_status_alias_cases:
  "run_status_alias raw = raw \<or> run_status_alias raw \<in> {rs_value CANCELED, rs_value FAILED}"
  by (auto simp: run_status_alias_def RUN_STATUS_ALIASES_def)

lemma alias_idem [simp]: "run_status_alias (run_status_alias raw) = run_status_alias raw"
  using run_status_alias_cases [of raw] alias_value by (metis insert_iff singletonD)

lemma alias_normal:
  assumes "py_lower raw = raw" and "py_strip raw = raw"
  shows "py_lower (py_strip (run_status_alias raw)) = run_status_alias raw"
  using run_status_alias_cases [of raw] assms
  by (metis insert_iff singletonD strip_rs_value lower_rs_value)

section \<open>Properties\<close>

text \<open>
  The run state machine: the guard admits a move exactly along the table, a return to the queue
  only when the caller may requeue; a terminal status has no successor, completion comes only from
  \<open>running\<close> or \<open>verifying\<close>, and every open status can be settled as failed, canceled or expired.
\<close>

theorem run_state_machine:
  "run_step requeue a b = (b \<in> set (ALLOWED_RUN_TRANSITIONS a) \<and> (if b = QUEUED then requeue else True))
   \<and> (if a \<in> set TERMINAL_RUN_STATUSES then {c. run_step requeue a c} = {}
      else {FAILED, CANCELED, EXPIRED} \<subseteq> {c. run_step requeue a c})
   \<and> run_step requeue a COMPLETED = (a \<in> {RUNNING, VERIFYING})"
  by (cases a) (auto simp: run_step_allowed run_status_groups)

text \<open>
  Stored status text reads back as the status it was written for, whatever the default, the
  read model projects it to itself, and the three legacy texts of the table's check constraint read
  as \<open>failed\<close>.
\<close>

theorem stored_status_round_trip:
  "coerce_run_status (StatusText (Some (rs_value s))) d = s
   \<and> project_run_status_value (Some (rs_value s)) fallback = rs_value s
   \<and> map (\<lambda>t. coerce_run_status (StatusText (Some t)) FAILED) LEGACY_AGENT_RUN_STATUS_VALUES = [FAILED, FAILED, FAILED]"
proof -
  have "map (\<lambda>t. coerce_run_status (StatusText (Some t)) FAILED) LEGACY_AGENT_RUN_STATUS_VALUES = [FAILED, FAILED, FAILED]"
    by code_simp
  moreover have "rs_value s \<noteq> []" by (cases s) simp_all
  ultimately show ?thesis by (simp add: project_Some)
qed

text \<open>
  The projection of status text for read models is idempotent: projecting a non-empty projected
  value again, with any fallback, changes nothing.
\<close>

theorem project_run_status_idempotent:
  assumes "project_run_status_value status fb \<noteq> []"
  shows "project_run_status_value (Some (project_run_status_value status fb)) fb' = project_run_status_value status fb"
proof -
  obtain t where t: "project_run_status_value status fb = run_status_alias (py_lower (py_strip t))"
    by (rule project_cases)
  have "py_strip (py_lower (py_strip t)) = py_lower (py_strip t)"
    by (simp add: py_strip_lower)
  then have "py_lower (py_strip (project_run_status_value status fb)) = project_run_status_value status fb"
    unfolding t by (intro alias_normal) simp_all
  then show ?thesis using assms by (simp add: project_Some t)
qed

lemma project_run_status_idempotent_witness:
  "project_run_status_value (Some (project_run_status_value (Some '' Timeout '') None)) None = ''failed''"
proof -
  have "project_run_status_value (Some '' Timeout '') None = ''failed''" by code_simp
  then show ?thesis using project_run_status_idempotent [of "Some '' Timeout ''" None None] by simp
qed

end
