(* ===== verification/Provider_Errors.thy ===== *)
theory Provider_Errors
  imports Statuses "HOL-Library.Sublist"
begin

text \<open>
  The provider-error taxonomy of \<open>brain/platform/integrations/provider_error_sentinel.py\<close>:
  classification of model text that is really a provider error, and the sentinel that is safe
  to persist. The regular expressions of that file are searches for fixed words between word
  boundaries; they are written here as boolean scans.
\<close>

section \<open>Word-boundary searches\<close>

text \<open>\<open>\\w\<close> for code points below 256: letters, digits, the underscore.\<close>

definition word_char :: "char \<Rightarrow> bool" where
  "word_char c = (let n = (of_char c :: nat) in
     (48 \<le> n \<and> n \<le> 57) \<or> (65 \<le> n \<and> n \<le> 90) \<or> n = 95 \<or> (97 \<le> n \<and> n \<le> 122)
     \<or> n \<in> {170, 178, 179, 181, 185, 186, 188, 189, 190}
     \<or> (192 \<le> n \<and> n \<noteq> 215 \<and> n \<noteq> 247))"

fun starts_word :: "string \<Rightarrow> bool" where
  "starts_word [] = False"
| "starts_word (c # cs) = word_char c"

text \<open>
  \<open>word_at b w s\<close>: \<open>w\<close> is a prefix of \<open>s\<close> and ends at a boundary; \<open>b\<close> says whether the
  character before \<open>s\<close> is a word character. For a word \<open>w\<close> (first and last character
  word characters) the match needs a boundary in front.
\<close>

definition word_at :: "bool \<Rightarrow> string \<Rightarrow> string \<Rightarrow> bool" where
  "word_at pre w s = (\<not> pre \<and> py_startswith s w \<and> \<not> starts_word (drop (length w) s))"

fun scan :: "(bool \<Rightarrow> string \<Rightarrow> bool) \<Rightarrow> bool \<Rightarrow> string \<Rightarrow> bool" where
  "scan p pre [] = p pre []"
| "scan p pre (c # cs) = (p pre (c # cs) \<or> scan p (word_char c) cs)"

definition search_word :: "string \<Rightarrow> string \<Rightarrow> bool" where
  "search_word w s = scan (\<lambda>b t. word_at b w t) False s"

definition search_any_word :: "string list \<Rightarrow> string \<Rightarrow> bool" where
  "search_any_word ws s = list_ex (\<lambda>w. search_word w s) ws"

definition contains_text :: "string \<Rightarrow> string \<Rightarrow> bool" where
  "contains_text s w = scan (\<lambda>b t. py_startswith t w) False s"

text \<open>
  The optional group in front of the status code: \<open>http\<close>, \<open>http status\<close>, \<open>status\<close> or
  \<open>status code\<close> and white space; \<open>after_group\<close> lists the remainders it can leave.
\<close>

definition after_prefix :: "string \<Rightarrow> string \<Rightarrow> string list" where
  "after_prefix w s = (if py_startswith s w then [drop (length w) s] else [])"

definition spaces1 :: "string \<Rightarrow> string list" where
  "spaces1 s = (case s of c # _ \<Rightarrow> if py_space c then [dropWhile py_space s] else [] | [] \<Rightarrow> [])"

definition after_group :: "string \<Rightarrow> string list" where
  "after_group s =
     (let h = after_prefix ''http'' s; st = after_prefix ''status'' s;
          hs = concat (map (after_prefix ''status'') (concat (map spaces1 h)));
          sc = concat (map (after_prefix ''code'') (concat (map spaces1 st)))
      in map (dropWhile py_space) (hs @ h @ sc @ st))"

definition status_code_at :: "string \<Rightarrow> bool" where
  "status_code_at s = list_ex (\<lambda>w. py_startswith s w \<and> \<not> starts_word (drop (length w) s))
     [''500'', ''502'', ''503'', ''504'', ''529'']"

definition transient_status_search :: "string \<Rightarrow> bool" where
  "transient_status_search s =
     scan (\<lambda>b t. b \<noteq> starts_word t \<and> (list_ex status_code_at (after_group t) \<or> status_code_at t)) False s"

section \<open>Classification\<close>

definition PROVIDER_ERROR_SENTINEL_PREFIX :: string where
  "PROVIDER_ERROR_SENTINEL_PREFIX = ''upstream_provider_error:''"

definition PROVIDER_ERROR_KINDS :: "string list" where
  "PROVIDER_ERROR_KINDS = [''server_error'', ''overloaded_error'', ''rate_limit_error'']"

definition PROVIDER_ERROR_KIND_VALUES :: "string list" where
  "PROVIDER_ERROR_KIND_VALUES = PROVIDER_ERROR_KINDS @ [''provider_error'']"

definition PROVIDER_ERROR_ALIASES :: "(string \<times> string) list" where
  "PROVIDER_ERROR_ALIASES =
     [(''server_is_overloaded'', ''overloaded_error''),
      (''service_unavailable_error'', ''server_error'')]"

definition PROVIDER_ERROR_CONTEXT :: "string list" where
  "PROVIDER_ERROR_CONTEXT = [''api'', ''error'', ''failed'', ''http'', ''provider'', ''server'',
     ''service'', ''unavailable'', ''upstream'']"

text \<open>\<open>normalized\<close> is lower case at every call, so \<open>re.IGNORECASE\<close> changes nothing.\<close>

definition classify_normalized_provider_error :: "string \<Rightarrow> string option" where
  "classify_normalized_provider_error normalized =
     (case find (\<lambda>(alias, kind). search_word alias normalized) PROVIDER_ERROR_ALIASES of
        Some (alias, kind) \<Rightarrow> Some kind
      | None \<Rightarrow>
         (case find (\<lambda>kind. search_word kind normalized) PROVIDER_ERROR_KINDS of
            Some kind \<Rightarrow> Some kind
          | None \<Rightarrow>
             if transient_status_search normalized
                \<and> search_any_word PROVIDER_ERROR_CONTEXT normalized
             then Some ''server_error'' else None))"

definition provider_error_kind :: "string \<Rightarrow> string option \<Rightarrow> string option" where
  "provider_error_kind candidate provider_exception =
     (let txt = py_strip candidate; normalized = py_lower txt in
      if py_startswith normalized ''cycle run degraded: mission_contract_failed.''
         \<and> \<not> contains_text normalized ''help.openai.com'' then None
      else if py_startswith normalized PROVIDER_ERROR_SENTINEL_PREFIX then
        (let k = py_strip (drop (length PROVIDER_ERROR_SENTINEL_PREFIX) normalized)
         in Some (if k \<in> set PROVIDER_ERROR_KIND_VALUES then k else ''provider_error''))
      else case classify_normalized_provider_error normalized of
        Some k \<Rightarrow> Some k
      | None \<Rightarrow>
         if contains_text normalized ''help.openai.com'' then Some ''provider_error''
         else if txt \<noteq> [] then None
         else case provider_exception of
            None \<Rightarrow> None
          | Some e \<Rightarrow>
             (let exception_text = py_lower (py_strip e) in
              if exception_text = [] then None
              else case classify_normalized_provider_error exception_text of
                 Some k \<Rightarrow> Some k | None \<Rightarrow> Some ''provider_error''))"

definition is_retryable_provider_error :: "string \<Rightarrow> string option \<Rightarrow> bool" where
  "is_retryable_provider_error candidate provider_exception =
     (case provider_error_kind candidate provider_exception of
        None \<Rightarrow> False | Some k \<Rightarrow> k \<in> set PROVIDER_ERROR_KINDS)"

definition safe_provider_error_sentinel :: "string option \<Rightarrow> string" where
  "safe_provider_error_sentinel kind =
     (let k0 = (case kind of None \<Rightarrow> ''provider_error''
                | Some k \<Rightarrow> if k = [] then ''provider_error'' else k);
          k1 = py_lower (py_strip k0);
          k2 = (if k1 \<in> set PROVIDER_ERROR_KIND_VALUES then k1 else ''provider_error'')
      in PROVIDER_ERROR_SENTINEL_PREFIX @ '' '' @ k2)"

section \<open>Facts\<close>

lemma classify_in_kinds:
  "classify_normalized_provider_error n = Some k \<Longrightarrow> k \<in> set PROVIDER_ERROR_KINDS"
  by (auto simp: classify_normalized_provider_error_def PROVIDER_ERROR_ALIASES_def
      PROVIDER_ERROR_KINDS_def find_Some_iff nth_Cons' split: option.splits if_splits)

lemma provider_error_kind_values:
  assumes "provider_error_kind c e = Some k"
  shows "k \<in> set PROVIDER_ERROR_KIND_VALUES"
  using assms
  by (auto simp: provider_error_kind_def Let_def PROVIDER_ERROR_KIND_VALUES_def
      dest: classify_in_kinds split: if_splits option.splits)

lemma sentinel_starts: "py_startswith (safe_provider_error_sentinel k) PROVIDER_ERROR_SENTINEL_PREFIX"
  by (simp add: safe_provider_error_sentinel_def py_startswith_def Let_def)

text \<open>The sentinel text is a fixed point of the classification: reading it back gives its kind.\<close>

lemma sentinel_kind_text:
  assumes "k \<in> set PROVIDER_ERROR_KIND_VALUES"
  shows "safe_provider_error_sentinel (Some k) = PROVIDER_ERROR_SENTINEL_PREFIX @ '' '' @ k"
  using assms
  by (auto simp: safe_provider_error_sentinel_def PROVIDER_ERROR_KIND_VALUES_def
      PROVIDER_ERROR_KINDS_def py_lower_def py_lower_char_def py_strip_def py_space_def)

lemma sentinel_round_trip:
  assumes "k \<in> set PROVIDER_ERROR_KIND_VALUES"
  shows "provider_error_kind (safe_provider_error_sentinel (Some k)) e = Some k"
  unfolding sentinel_kind_text [OF assms] using assms
  by (auto simp: provider_error_kind_def PROVIDER_ERROR_KIND_VALUES_def PROVIDER_ERROR_KINDS_def
      PROVIDER_ERROR_SENTINEL_PREFIX_def py_lower_def py_lower_char_def py_strip_def py_space_def
      py_startswith_def)

text \<open>
  Whatever kind of provider error is serialized, the sentinel is one of four fixed texts, so no
  detail of the request survives in it, and classifying the sentinel gives back the kind it names,
  even when an exception text is supplied beside it.
\<close>

theorem sentinel_reads_back:
  "list_ex (\<lambda>k. safe_provider_error_sentinel kind = PROVIDER_ERROR_SENTINEL_PREFIX @ '' '' @ k
      \<and> provider_error_kind (safe_provider_error_sentinel kind) e = Some k) PROVIDER_ERROR_KIND_VALUES"
proof -
  obtain k where k: "k \<in> set PROVIDER_ERROR_KIND_VALUES"
    "safe_provider_error_sentinel kind = PROVIDER_ERROR_SENTINEL_PREFIX @ '' '' @ k"
    using that [of "let k1 = py_lower (py_strip (case kind of None \<Rightarrow> ''provider_error''
        | Some k \<Rightarrow> if k = [] then ''provider_error'' else k))
      in if k1 \<in> set PROVIDER_ERROR_KIND_VALUES then k1 else ''provider_error''"]
    by (simp add: safe_provider_error_sentinel_def Let_def PROVIDER_ERROR_KIND_VALUES_def)
  then have "safe_provider_error_sentinel kind = safe_provider_error_sentinel (Some k)"
    by (simp add: sentinel_kind_text)
  with k sentinel_round_trip [OF k(1), of e] show ?thesis by (auto simp: list_ex_iff)
qed

end
