(* ===== verification/Run_Domain.thy ===== *)
theory Run_Domain
  imports Provider_Errors
begin

text \<open>
  The agent-run domain: \<open>runs/domain.py\<close> (requests, runs, events, artifacts), \<open>runs/events.py\<close>
  (event builders), \<open>runs/ids.py\<close>, \<open>runs/steering.py\<close>, the failure taxonomy of
  \<open>runs/failures.py\<close> and \<open>runs/failure_diagnostic.py\<close>, and the three tables of
  \<open>platform/db/models/agent_run.py\<close> with the database that holds them.

  The columns \<open>profile\<close> and \<open>recipe\<close> carry the enum values that \<open>create_run\<close> writes; the column
  \<open>status\<close> is text, because legacy rows hold values outside the enum. String literals with
  characters above code point 255 are given by their UTF-8 bytes.
\<close>

section \<open>Enumerations\<close>

datatype run_profile = PROFILE_FAST | PROFILE_DEEP
datatype run_recipe = RECIPE_FAST | RECIPE_DEEP | RECIPE_SCOUT | RECIPE_WORKER
datatype event_visibility = PUBLIC | INTERNAL_VIS | SECRET

fun profile_value :: "run_profile \<Rightarrow> string" where
  "profile_value PROFILE_FAST = ''fast''"
| "profile_value PROFILE_DEEP = ''deep''"

fun recipe_value :: "run_recipe \<Rightarrow> string" where
  "recipe_value RECIPE_FAST = ''fast''"
| "recipe_value RECIPE_DEEP = ''deep''"
| "recipe_value RECIPE_SCOUT = ''scout''"
| "recipe_value RECIPE_WORKER = ''worker''"

fun visibility_value :: "event_visibility \<Rightarrow> string" where
  "visibility_value PUBLIC = ''public''"
| "visibility_value INTERNAL_VIS = ''internal''"
| "visibility_value SECRET = ''secret''"

text \<open>\<open>_coerce_enum\<close> on a text value: the member whose value matches, else the default.\<close>

definition coerce_enum :: "'e list \<Rightarrow> ('e \<Rightarrow> string) \<Rightarrow> string option \<Rightarrow> 'e \<Rightarrow> 'e" where
  "coerce_enum members val v dflt =
     (let candidate = py_lower (py_strip (case v of None \<Rightarrow> [] | Some s \<Rightarrow> s))
      in case find (\<lambda>m. candidate = val m) members of None \<Rightarrow> dflt | Some m \<Rightarrow> m)"

section \<open>Requests\<close>

record agent_run_request =
  rq_thread_id :: string
  rq_message :: string
  rq_org_id :: string
  rq_user_id :: "string option"
  rq_profile :: "string option"
  rq_recipe :: "string option"
  rq_parent_run_id :: "int option"
  rq_root_run_id :: "int option"
  rq_target_ref :: pydict
  rq_workspace_ref :: pydict
  rq_model_policy :: pydict
  rq_metadata :: pydict
  rq_deadline_at :: "datetime option"

text \<open>\<open>AgentRunRequest.__post_init__\<close>: the workspace is required, a naive deadline is UTC.\<close>

definition make_request :: "agent_run_request \<Rightarrow> agent_run_request result" where
  "make_request rq =
     (let org = py_strip (rq_org_id rq) in
      if org = [] then Inl (ValueError ''AgentRun requires workspace org_id'')
      else Inr (rq\<lparr>rq_org_id := org,
                   rq_deadline_at := map_option (\<lambda>d. Aware (assume_utc d)) (rq_deadline_at rq)\<rparr>))"

definition normalized_profile :: "agent_run_request \<Rightarrow> run_profile" where
  "normalized_profile rq = coerce_enum [PROFILE_FAST, PROFILE_DEEP] profile_value (rq_profile rq) PROFILE_FAST"

definition normalized_recipe :: "agent_run_request \<Rightarrow> run_recipe" where
  "normalized_recipe rq =
     (case rq_recipe rq of
        Some r \<Rightarrow> coerce_enum [RECIPE_FAST, RECIPE_DEEP, RECIPE_SCOUT, RECIPE_WORKER] recipe_value
                   (Some r) RECIPE_FAST
      | None \<Rightarrow> RECIPE_FAST)"

section \<open>Rows and domain objects\<close>

text \<open>
  The columns that a row and its domain object share; \<open>agent_run_row\<close> adds the stored status
  text, the idempotency columns and the execution fence, \<open>agent_run\<close> the coerced status.
\<close>

record run_core =
  run_id :: int
  trace_id :: "string option"
  org_id :: "string option"
  user_id :: "string option"
  thread_id :: string
  parent_run_id :: "int option"
  root_run_id :: "int option"
  profile :: run_profile
  recipe :: run_recipe
  input_message :: string
  target_ref :: pydict
  workspace_ref :: pydict
  model_policy :: pydict
  context_summary :: "string option"
  metadata :: pydict
  created_at :: instant
  started_at :: "instant option"
  deadline_at :: "instant option"
  closeout_expires_at :: "instant option"
  expired_at :: "instant option"
  paused_at :: "instant option"
  completed_at :: "instant option"
  failed_at :: "instant option"
  canceled_at :: "instant option"
  updated_at :: instant

record agent_run_row = run_core +
  row_status :: string
  source_idempotency_scope :: "string option"
  source_idempotency_key :: "string option"
  parent_step_key_hash :: "string option"
  execution_token :: "string option"
  execution_attempt :: int

record agent_run = run_core +
  status :: run_status

definition trace_id_for_run_id :: "int \<Rightarrow> string" where
  "trace_id_for_run_id i = ''run:'' @ show_int i"

definition row_run_status :: "agent_run_row \<Rightarrow> run_status" where
  "row_run_status row = coerce_run_status (StatusText (Some (row_status row))) FAILED"

definition to_domain :: "agent_run_row \<Rightarrow> agent_run" where
  "to_domain row =
     run_core.extend
       ((run_core.truncate row)\<lparr>trace_id := Some (case trace_id row of
            None \<Rightarrow> trace_id_for_run_id (run_id row)
          | Some t \<Rightarrow> if t = [] then trace_id_for_run_id (run_id row) else t)\<rparr>)
       (agent_run.fields (row_run_status row))"

text \<open>\<open>x or d\<close> for an optional id.\<close>

definition or_id :: "int option \<Rightarrow> int \<Rightarrow> int" where
  "or_id x d = (case x of None \<Rightarrow> d | Some i \<Rightarrow> if i = 0 then d else i)"

section \<open>Events and artifacts\<close>

record run_event =
  ev_run_id :: int
  ev_type :: string
  ev_payload :: pydict
  ev_root_run_id :: "int option"
  ev_sequence_no :: "int option"
  ev_producer :: string
  ev_visibility :: event_visibility

definition mk_event :: "int \<Rightarrow> string \<Rightarrow> pydict \<Rightarrow> int option \<Rightarrow> string \<Rightarrow> event_visibility \<Rightarrow> run_event" where
  "mk_event rid etype payload root producer vis =
     \<lparr>ev_run_id = rid, ev_type = etype, ev_payload = payload, ev_root_run_id = root,
      ev_sequence_no = None, ev_producer = producer, ev_visibility = vis\<rparr>"

abbreviation run_ev :: "int \<Rightarrow> string \<Rightarrow> pydict \<Rightarrow> int option \<Rightarrow> run_event" where
  "run_ev rid etype payload root \<equiv> mk_event rid etype payload root ''agent_runtime'' PUBLIC"

definition status_changed_event ::
  "int \<Rightarrow> string \<Rightarrow> string \<Rightarrow> int option \<Rightarrow> string option \<Rightarrow> run_event" where
  "status_changed_event rid from_status to_status root reason =
     (let payload = [(''from_status'', PyStr from_status), (''to_status'', PyStr to_status)];
          payload' = (case reason of None \<Rightarrow> payload
             | Some r \<Rightarrow> if r = [] then payload else dset payload ''reason'' (PyStr r))
      in run_ev rid ''run.status_changed'' payload' root)"

record event_row =
  er_id :: int
  er_run_id :: int
  er_root_run_id :: int
  er_sequence_no :: int
  er_type :: string
  er_payload :: pydict
  er_producer :: string
  er_visibility :: string
  er_created_at :: instant

record run_artifact =
  ar_run_id :: int
  ar_type :: string
  ar_title :: "string option"
  ar_payload :: pydict
  ar_text :: "string option"
  ar_uri :: "string option"
  ar_root_run_id :: "int option"
  ar_visibility :: event_visibility

record artifact_row =
  aw_id :: int
  aw_run_id :: int
  aw_root_run_id :: int
  aw_type :: string
  aw_title :: "string option"
  aw_payload :: pydict
  aw_text :: "string option"
  aw_uri :: "string option"
  aw_visibility :: string
  aw_created_at :: instant

definition final_answer_artifact :: "int \<Rightarrow> string \<Rightarrow> int option \<Rightarrow> run_artifact" where
  "final_answer_artifact rid txt root =
     \<lparr>ar_run_id = rid, ar_type = ''final_answer'', ar_title = Some ''Final answer'', ar_payload = [],
      ar_text = Some txt, ar_uri = None, ar_root_run_id = root, ar_visibility = PUBLIC\<rparr>"

section \<open>Steering messages\<close>

record steering_message =
  sm_run_id :: int
  sm_content :: string
  sm_user_id :: "string option"
  sm_created_at :: "instant option"

text \<open>\<open>normalized\<close>: white space collapses to single blanks, a missing time is now.\<close>

definition steering_normalized :: "instant \<Rightarrow> steering_message \<Rightarrow> steering_message" where
  "steering_normalized now m =
     m\<lparr>sm_content := py_join '' '' (py_words (sm_content m)),
       sm_created_at := Some (case sm_created_at m of None \<Rightarrow> now | Some t \<Rightarrow> t)\<rparr>"

section \<open>Failures\<close>

datatype failure_category =
  CAT_INTERNAL | CAT_UPSTREAM | CAT_VERIFICATION | CAT_PRESERVATION_SETUP | CAT_CREDENTIAL_EXPIRED

fun category_value :: "failure_category \<Rightarrow> string" where
  "category_value CAT_INTERNAL = ''internal''"
| "category_value CAT_UPSTREAM = ''upstream''"
| "category_value CAT_VERIFICATION = ''verification''"
| "category_value CAT_PRESERVATION_SETUP = ''preservation_setup''"
| "category_value CAT_CREDENTIAL_EXPIRED = ''credential_expired''"

definition failure_categories :: "failure_category list" where
  "failure_categories =
     [CAT_INTERNAL, CAT_UPSTREAM, CAT_VERIFICATION, CAT_PRESERVATION_SETUP, CAT_CREDENTIAL_EXPIRED]"

definition coerce_failure_category :: "string option \<Rightarrow> failure_category" where
  "coerce_failure_category v = coerce_enum failure_categories category_value v CAT_INTERNAL"

datatype failure_stage =
  RUNNER_EXECUTION | PROJECT_CONTEXT_MATERIALIZATION | RECIPE_EXECUTION | AGENT_EXECUTION
| COMPLETION_VERIFICATION | RUNNER_SETTLEMENT | UNKNOWN_STAGE

fun stage_value :: "failure_stage \<Rightarrow> string" where
  "stage_value RUNNER_EXECUTION = ''runner_execution''"
| "stage_value PROJECT_CONTEXT_MATERIALIZATION = ''project_context_materialization''"
| "stage_value RECIPE_EXECUTION = ''recipe_execution''"
| "stage_value AGENT_EXECUTION = ''agent_execution''"
| "stage_value COMPLETION_VERIFICATION = ''completion_verification''"
| "stage_value RUNNER_SETTLEMENT = ''runner_settlement''"
| "stage_value UNKNOWN_STAGE = ''unknown''"

text \<open>
  An exception class as the diagnostics see it: its name, its module, and whether looking the
  name up in that module gives the class back (\<open>_module_level_exception_type\<close>).
\<close>

record exception_type =
  ex_name :: string
  ex_module :: string
  ex_module_level :: bool

definition failure_diagnostic_metadata :: "failure_stage \<Rightarrow> exception_type option \<Rightarrow> pydict result" where
  "failure_diagnostic_metadata stage ex =
     (if stage = UNKNOWN_STAGE then Inl (ValueError ''failure producers cannot write an unknown stage'')
      else Inr ([(''diagnostic_schema'', PyStr ''typed_v1''), (''stage'', PyStr (stage_value stage))]
        @ (case ex of
             None \<Rightarrow> []
           | Some e \<Rightarrow> if ex_module_level e
               then [(''exception_class'', PyStr (ex_name e)), (''exception_module'', PyStr (ex_module e))]
               else [(''exception_class_withheld'', PyBool True)])))"

definition run_failure_metadata ::
  "failure_category \<Rightarrow> failure_stage \<Rightarrow> exception_type option \<Rightarrow> pydict result" where
  "run_failure_metadata category stage ex =
     rbind (failure_diagnostic_metadata stage ex)
       (\<lambda>d. Inr ((''category'', PyStr (category_value category)) # d))"

definition PRE_TOOL_PRESERVATION_FAILURE_STAGES :: "failure_stage list" where
  "PRE_TOOL_PRESERVATION_FAILURE_STAGES =
     [RUNNER_EXECUTION, PROJECT_CONTEXT_MATERIALIZATION, RECIPE_EXECUTION, AGENT_EXECUTION]"

definition failure_category_for_run_context ::
  "failure_category \<Rightarrow> bool \<Rightarrow> bool \<Rightarrow> failure_stage \<Rightarrow> failure_category" where
  "failure_category_for_run_context category requires_preservation tool_started stage =
     (if category = CAT_INTERNAL \<and> requires_preservation \<and> \<not> tool_started
         \<and> stage \<in> set PRE_TOOL_PRESERVATION_FAILURE_STAGES
      then CAT_PRESERVATION_SETUP else category)"

definition utf8_dash :: string where
  "utf8_dash = [char_of (226::nat), char_of (128::nat), char_of (148::nat)]"

definition DEFAULT_FAILED_RUN_MESSAGE :: string where
  "DEFAULT_FAILED_RUN_MESSAGE =
     ''I failed on this and it is still open '' @ utf8_dash @ '' I will come back.''"

definition UPSTREAM_FAILED_RUN_MESSAGE :: string where
  "UPSTREAM_FAILED_RUN_MESSAGE =
     ''I hit a temporary upstream problem on this and it is still open '' @ utf8_dash
     @ '' I will come back.''"

definition VERIFICATION_FAILED_RUN_MESSAGE :: string where
  "VERIFICATION_FAILED_RUN_MESSAGE =
     ''I couldn'' @ [char_of (39::nat)] @ ''t safely verify this and it is still open '' @ utf8_dash
     @ '' I will come back.''"

definition PRESERVATION_SETUP_FAILED_RUN_MESSAGE :: string where
  "PRESERVATION_SETUP_FAILED_RUN_MESSAGE =
     ''Illo could not start the preservation workflow before a durable-storage tool ran. ''
     @ ''Resubmit this with a new idempotency key. If it fails again, check the ''
     @ ''run provider and preservation-tool configuration.''"

definition CANCELED_RUN_MESSAGE :: string where
  "CANCELED_RUN_MESSAGE =
     ''That run was canceled before it finished, but the ask is still open '' @ utf8_dash
     @ '' I will come back.''"

definition EXPIRED_RUN_MESSAGE :: string where
  "EXPIRED_RUN_MESSAGE =
     ''That run timed out before it finished, but the ask is still open '' @ utf8_dash
     @ '' I will come back.''"

definition CREDENTIAL_EXPIRED_MESSAGE :: string where
  "CREDENTIAL_EXPIRED_MESSAGE =
     ''credential_expired: OpenAI Codex / ChatGPT credentials expired or were revoked. ''
     @ ''Sign in again in Illo Settings.''"

fun safe_terminal_run_message :: "run_status \<Rightarrow> failure_category \<Rightarrow> string option" where
  "safe_terminal_run_message COMPLETED _ = None"
| "safe_terminal_run_message CANCELED _ = Some CANCELED_RUN_MESSAGE"
| "safe_terminal_run_message EXPIRED _ = Some EXPIRED_RUN_MESSAGE"
| "safe_terminal_run_message _ CAT_CREDENTIAL_EXPIRED = Some CREDENTIAL_EXPIRED_MESSAGE"
| "safe_terminal_run_message _ CAT_UPSTREAM = Some UPSTREAM_FAILED_RUN_MESSAGE"
| "safe_terminal_run_message _ CAT_VERIFICATION = Some VERIFICATION_FAILED_RUN_MESSAGE"
| "safe_terminal_run_message _ CAT_PRESERVATION_SETUP = Some PRESERVATION_SETUP_FAILED_RUN_MESSAGE"
| "safe_terminal_run_message _ CAT_INTERNAL = Some DEFAULT_FAILED_RUN_MESSAGE"

section \<open>Facts\<close>

lemma or_id_simps [simp]: "or_id None d = d" "i \<noteq> 0 \<Longrightarrow> or_id (Some i) d = i"
  by (simp_all add: or_id_def)

lemma coerce_enum_value [simp]:
  assumes "m \<in> set ms" and "inj_on val (set ms)"
    and "py_lower (py_strip (val m)) = val m"
  shows "coerce_enum ms val (Some (val m)) d = m"
proof -
  have "find (\<lambda>x. val m = val x) ms = Some m"
    using assms(1,2) by (induction ms) (auto simp: inj_on_def)
  then show ?thesis using assms(3) by (simp add: coerce_enum_def)
qed

lemma to_domain_simps [simp]:
  "run_id (to_domain r) = run_id r" "status (to_domain r) = row_run_status r"
  "metadata (to_domain r) = metadata r" "root_run_id (to_domain r) = root_run_id r"
  "thread_id (to_domain r) = thread_id r" "parent_run_id (to_domain r) = parent_run_id r"
  "started_at (to_domain r) = started_at r" "org_id (to_domain r) = org_id r"
  by (simp_all add: to_domain_def run_core.defs agent_run.defs)

lemma row_run_status_value: "row_status r = rs_value s \<Longrightarrow> row_run_status r = s"
  by (simp add: row_run_status_def)

text \<open>Every stored status text that is not an open status reads as terminal.\<close>

lemma legacy_status_failed:
  assumes "t \<in> set LEGACY_AGENT_RUN_STATUS_VALUES"
  shows "coerce_run_status (StatusText (Some t)) FAILED = FAILED"
proof -
  have "list_all (\<lambda>t. coerce_run_status (StatusText (Some t)) FAILED = FAILED)
      LEGACY_AGENT_RUN_STATUS_VALUES"
    by code_simp
  with assms show ?thesis by (simp add: list_all_iff)
qed

lemma row_run_status_cases:
  assumes "row_status r \<in> set AGENT_RUN_DB_STATUS_VALUES"
  shows "row_status r = rs_value (row_run_status r)
    \<or> (row_status r \<in> set LEGACY_AGENT_RUN_STATUS_VALUES \<and> row_run_status r = FAILED)"
proof -
  from assms consider s where "row_status r = rs_value s"
    | "row_status r \<in> set LEGACY_AGENT_RUN_STATUS_VALUES"
    by (auto simp: AGENT_RUN_DB_STATUS_VALUES_def RUN_STATUS_VALUES_def)
  then show ?thesis
  proof cases
    case 1
    then show ?thesis by (simp add: row_run_status_value)
  next
    case 2
    then have "row_run_status r = FAILED"
      unfolding row_run_status_def by (rule legacy_status_failed)
    with 2 show ?thesis by simp
  qed
qed

lemma status_changed_event_fields [simp]:
  "ev_type (status_changed_event rid f t root reason) = ''run.status_changed''"
  "ev_run_id (status_changed_event rid f t root reason) = rid"
  "ev_root_run_id (status_changed_event rid f t root reason) = root"
  "ev_sequence_no (status_changed_event rid f t root reason) = None"
  by (simp_all add: status_changed_event_def mk_event_def Let_def)

lemma status_changed_to_status [simp]:
  "dget (ev_payload (status_changed_event rid f t root reason)) ''to_status'' = PyStr t"
  by (simp add: status_changed_event_def mk_event_def Let_def split: option.split)

end
