(* ===== verification/Py_Time.thy ===== *)
theory Py_Time
  imports Py_Prelude
begin

text \<open>
  The proleptic Gregorian calendar of Python's \<open>datetime\<close>: ordinals, their civil date, the
  weekday, and \<open>isoformat()\<close> of an aware UTC datetime. Day 1 is 0001-01-01; the Unix epoch is
  day 719163. \<open>ord2ymd\<close> is CPython's \<open>_ord2ymd\<close> and \<open>ymd2ord\<close> its \<open>_ymd2ord\<close>.
\<close>

definition is_leap :: "int \<Rightarrow> bool" where
  "is_leap y = (y mod 4 = 0 \<and> (y mod 100 \<noteq> 0 \<or> y mod 400 = 0))"

definition days_before_year :: "int \<Rightarrow> int" where
  "days_before_year y = (let z = y - 1 in z * 365 + z div 4 - z div 100 + z div 400)"

definition days_before_month_table :: "int list" where
  "days_before_month_table = [0, 31, 59, 90, 120, 151, 181, 212, 243, 273, 304, 334]"

definition days_in_month_table :: "int list" where
  "days_in_month_table = [31, 28, 31, 30, 31, 30, 31, 31, 30, 31, 30, 31]"

definition days_before_month :: "int \<Rightarrow> int \<Rightarrow> int" where
  "days_before_month y m =
     days_before_month_table ! nat (m - 1) + (if 2 < m \<and> is_leap y then 1 else 0)"

definition days_in_month :: "int \<Rightarrow> int \<Rightarrow> int" where
  "days_in_month y m = (if m = 2 \<and> is_leap y then 29 else days_in_month_table ! nat (m - 1))"

definition ymd2ord :: "int \<Rightarrow> int \<Rightarrow> int \<Rightarrow> int" where
  "ymd2ord y m d = days_before_year y + days_before_month y m + d"

definition ord2ymd :: "int \<Rightarrow> int \<times> int \<times> int" where
  "ord2ymd ordinal =
     (let n = ordinal - 1; n400 = n div 146097; r400 = n mod 146097;
          n100 = r400 div 36524; r100 = r400 mod 36524;
          n4 = r100 div 1461; r4 = r100 mod 1461;
          n1 = r4 div 365; k = r4 mod 365;
          year = n400 * 400 + 1 + n100 * 100 + n4 * 4 + n1
      in if n1 = 4 \<or> n100 = 4 then (year - 1, 12, 31)
         else let leapyear = (n1 = 3 \<and> (n4 \<noteq> 24 \<or> n100 = 3));
                  month = (k + 50) div 32;
                  pre = days_before_month_table ! nat (month - 1) + (if 2 < month \<and> leapyear then 1 else 0)
              in if k < pre
                 then (let month' = month - 1;
                           pre' = pre - (days_in_month_table ! nat (month' - 1)
                                          + (if month' = 2 \<and> leapyear then 1 else 0))
                       in (year, month', k - pre' + 1))
                 else (year, month, k - pre + 1))"

definition epoch_ordinal :: int where "epoch_ordinal = 719163"

definition us_per_day :: int where "us_per_day = 86400000000"

record civil =
  c_year :: int
  c_month :: int
  c_day :: int
  c_hour :: int
  c_minute :: int
  c_second :: int
  c_us :: int
  c_weekday :: int

text \<open>The civil fields of an instant; \<open>weekday()\<close> is 0 on Monday.\<close>

definition civil_of :: "instant \<Rightarrow> civil" where
  "civil_of t =
     (let ordinal = epoch_ordinal + t div us_per_day; us = t mod us_per_day;
          (y, m, d) = ord2ymd ordinal; s = us div 1000000
      in \<lparr>c_year = y, c_month = m, c_day = d, c_hour = s div 3600, c_minute = s mod 3600 div 60,
          c_second = s mod 60, c_us = us mod 1000000, c_weekday = (ordinal + 6) mod 7\<rparr>)"

definition zpad :: "nat \<Rightarrow> int \<Rightarrow> string" where
  "zpad w n = (let s = show_nat (nat n) in replicate (w - length s) (CHR ''0'') @ s)"

definition isoformat :: "instant \<Rightarrow> string" where
  "isoformat t =
     (let c = civil_of t in
      zpad 4 (c_year c) @ ''-'' @ zpad 2 (c_month c) @ ''-'' @ zpad 2 (c_day c) @ ''T''
      @ zpad 2 (c_hour c) @ '':'' @ zpad 2 (c_minute c) @ '':'' @ zpad 2 (c_second c)
      @ (if c_us c = 0 then [] else ''.'' @ zpad 6 (c_us c)) @ ''+00:00'')"

section \<open>Facts\<close>

lemma civil_time_bounds:
  "0 \<le> c_hour (civil_of t) \<and> c_hour (civil_of t) < 24"
  "0 \<le> c_minute (civil_of t) \<and> c_minute (civil_of t) < 60"
  "0 \<le> c_second (civil_of t) \<and> c_second (civil_of t) < 60"
  "0 \<le> c_us (civil_of t) \<and> c_us (civil_of t) < 1000000"
  "0 \<le> c_weekday (civil_of t) \<and> c_weekday (civil_of t) < 7"
proof -
  have us: "0 \<le> t mod us_per_day" "t mod us_per_day < 86400000000"
    by (simp_all add: us_per_day_def)
  then have s: "0 \<le> t mod us_per_day div 1000000" "t mod us_per_day div 1000000 < 86400"
    by (simp_all add: pos_imp_zdiv_nonneg_iff div_less_iff_less_mult)
  show "0 \<le> c_hour (civil_of t) \<and> c_hour (civil_of t) < 24"
    using s by (simp add: civil_of_def Let_def split_def pos_imp_zdiv_nonneg_iff div_less_iff_less_mult)
  show "0 \<le> c_minute (civil_of t) \<and> c_minute (civil_of t) < 60"
    by (simp add: civil_of_def Let_def split_def pos_imp_zdiv_nonneg_iff div_less_iff_less_mult)
  show "0 \<le> c_second (civil_of t) \<and> c_second (civil_of t) < 60"
    by (simp add: civil_of_def Let_def split_def)
  show "0 \<le> c_us (civil_of t) \<and> c_us (civil_of t) < 1000000"
    by (simp add: civil_of_def Let_def split_def)
  show "0 \<le> c_weekday (civil_of t) \<and> c_weekday (civil_of t) < 7"
    by (simp add: civil_of_def Let_def split_def)
qed

lemmas iso_eval = isoformat_def civil_of_def Let_def ord2ymd_def days_before_month_table_def
  days_in_month_table_def zpad_def us_per_day_def epoch_ordinal_def show_nat.simps

lemma isoformat_epoch: "isoformat 0 = ''1970-01-01T00:00:00+00:00''"
  by (simp add: iso_eval)

lemma isoformat_leap_day: "isoformat 1709210096789012 = ''2024-02-29T12:34:56.789012+00:00''"
  by (simp add: iso_eval)

end
