(* ===== verification/Run_Db.thy ===== *)
theory Run_Db
  imports Run_Domain Py_Time
begin

text \<open>
  The three tables behind the run store, the constraints the models declare on them, the
  transaction a store session works in, and the calculus the store proofs use.

  A session holds the committed database and its own working copy; \<open>commit\<close> publishes the working
  copy, \<open>rollback\<close> discards it. A store operation is a function from a session to its result (or
  the exception it raises) and the session it leaves. The row and advisory locks of PostgreSQL make
  a store operation run alone on the rows it touches from its first lock to its commit, so the
  working copy of one session is the database the operation sees; operations of other workers
  come between operations, as the steps of \<open>Run_Steps\<close>.
\<close>

section \<open>Tables\<close>

record db =
  runs :: "agent_run_row list"
  events :: "event_row list"
  artifacts :: "artifact_row list"
  next_run_id :: int
  next_event_id :: int
  next_artifact_id :: int

definition find_run :: "db \<Rightarrow> int \<Rightarrow> agent_run_row option" where
  "find_run d i = find (\<lambda>r. run_id r = i) (runs d)"

definition run_ids :: "db \<Rightarrow> int list" where
  "run_ids d = map run_id (runs d)"

definition update_runs_where :: "(agent_run_row \<Rightarrow> bool) \<Rightarrow> (agent_run_row \<Rightarrow> agent_run_row) \<Rightarrow> db \<Rightarrow> db" where
  "update_runs_where p f d = d\<lparr>runs := map (\<lambda>r. if p r then f r else r) (runs d)\<rparr>"

definition run_events :: "db \<Rightarrow> int \<Rightarrow> event_row list" where
  "run_events d i = filter (\<lambda>e. er_run_id e = i) (events d)"

text \<open>\<open>COALESCE(MAX(sequence_no), 0)\<close> over one run's events.\<close>

definition max_sequence :: "db \<Rightarrow> int \<Rightarrow> int" where
  "max_sequence d i = foldr (\<lambda>e m. max (er_sequence_no e) m) (run_events d i) 0"

definition event_fk_ok :: "db \<Rightarrow> int \<Rightarrow> int option \<Rightarrow> bool" where
  "event_fk_ok d rid root = (rid \<in> set (run_ids d) \<and> or_id root rid \<in> set (run_ids d))"

definition insert_event :: "instant \<Rightarrow> run_event \<Rightarrow> int \<Rightarrow> db \<Rightarrow> db" where
  "insert_event now e n d =
     d\<lparr>events := events d @ [\<lparr>er_id = next_event_id d, er_run_id = ev_run_id e,
          er_root_run_id = or_id (ev_root_run_id e) (ev_run_id e), er_sequence_no = n,
          er_type = ev_type e, er_payload = ev_payload e, er_producer = ev_producer e,
          er_visibility = visibility_value (ev_visibility e), er_created_at = now\<rparr>],
       next_event_id := next_event_id d + 1\<rparr>"

section \<open>Sessions and programs\<close>

record execution_claim =
  cl_run_id :: int
  cl_token :: string
  cl_attempt :: int

record session =
  committed :: db
  work :: db
  auto_commit :: bool
  lost :: "execution_claim list"

type_synonym 'a prog = "session \<Rightarrow> 'a result \<times> session"

definition pret :: "'a \<Rightarrow> 'a prog" where
  "pret x s = (Inr x, s)"

definition praise :: "py_error \<Rightarrow> 'a prog" where
  "praise e s = (Inl e, s)"

definition pbind :: "'a prog \<Rightarrow> ('a \<Rightarrow> 'b prog) \<Rightarrow> 'b prog" where
  "pbind m f s = (case m s of (Inl e, s') \<Rightarrow> (Inl e, s') | (Inr x, s') \<Rightarrow> f x s')"

definition preturn_result :: "'a result \<Rightarrow> 'a prog" where
  "preturn_result r s = (r, s)"

definition pread :: "(db \<Rightarrow> 'a) \<Rightarrow> 'a prog" where
  "pread f s = (Inr (f (work s)), s)"

definition pwrite :: "(db \<Rightarrow> db) \<Rightarrow> unit prog" where
  "pwrite f s = (Inr (), s\<lparr>work := f (work s)\<rparr>)"

definition commit :: "unit prog" where
  "commit s = (Inr (), s\<lparr>committed := work s\<rparr>)"

definition rollback :: "unit prog" where
  "rollback s = (Inr (), s\<lparr>work := committed s\<rparr>)"

definition commit_if_auto :: "unit prog" where
  "commit_if_auto s = (if auto_commit s then commit s else (Inr (), s))"

definition set_auto_commit :: "bool \<Rightarrow> unit prog" where
  "set_auto_commit b s = (Inr (), s\<lparr>auto_commit := b\<rparr>)"

definition get_auto_commit :: "bool prog" where
  "get_auto_commit s = (Inr (auto_commit s), s)"

definition mark_lost :: "execution_claim \<Rightarrow> unit prog" where
  "mark_lost c s = (Inr (), s\<lparr>lost := c # lost s\<rparr>)"

definition is_lost :: "execution_claim \<Rightarrow> bool prog" where
  "is_lost c s = (Inr (c \<in> set (lost s)), s)"

fun pfor :: "('a \<Rightarrow> unit prog) \<Rightarrow> 'a list \<Rightarrow> unit prog" where
  "pfor f [] = pret ()"
| "pfor f (x # xs) = pbind (f x) (\<lambda>_. pfor f xs)"

text \<open>\<open>UPDATE agent_runs SET ... WHERE p RETURNING id\<close>: whether a row matched.\<close>

definition sql_update :: "(agent_run_row \<Rightarrow> bool) \<Rightarrow> (agent_run_row \<Rightarrow> agent_run_row) \<Rightarrow> bool prog" where
  "sql_update p f s =
     (Inr (list_ex p (runs (work s))), s\<lparr>work := update_runs_where p f (work s)\<rparr>)"

text \<open>Exceptions: \<open>ptry_finally\<close> runs the handler on either exit, \<open>pon_error\<close> on an exception only.\<close>

definition ptry_finally :: "'a prog \<Rightarrow> unit prog \<Rightarrow> 'a prog" where
  "ptry_finally m h s = (let (r, s') = m s in (r, snd (h s')))"

definition pon_error :: "'a prog \<Rightarrow> unit prog \<Rightarrow> 'a prog" where
  "pon_error m h s = (case m s of (Inl e, s') \<Rightarrow> (Inl e, snd (h s')) | (Inr x, s') \<Rightarrow> (Inr x, s'))"

lemmas prog_defs = pret_def praise_def pread_def pwrite_def commit_def rollback_def
  commit_if_auto_def set_auto_commit_def get_auto_commit_def mark_lost_def is_lost_def
  preturn_result_def sql_update_def

lemma pbind_simps [simp]:
  "pbind (pret x) f = f x" "pbind (praise e) f = praise e"
  by (simp_all add: fun_eq_iff pbind_def prog_defs)

lemma pbind_assoc: "pbind (pbind m f) g = pbind m (\<lambda>x. pbind (f x) g)"
  by (auto simp: fun_eq_iff pbind_def split: prod.split sum.split)

lemma pbind_InrD:
  assumes "pbind m f s = (Inr y, s')"
  obtains x t where "m s = (Inr x, t)" and "f x t = (Inr y, s')"
  using assms by (auto simp: pbind_def split: prod.splits sum.splits)

section \<open>Lookups\<close>

lemma find_run_SomeD: "find_run d i = Some r \<Longrightarrow> r \<in> set (runs d) \<and> run_id r = i"
  by (auto simp: find_run_def find_Some_iff)

lemma find_run_None: "find_run d i = None \<longleftrightarrow> i \<notin> set (run_ids d)"
  by (auto simp: find_run_def run_ids_def find_None_iff)

lemma find_distinct_key: "distinct (map k xs) \<Longrightarrow> x \<in> set xs \<Longrightarrow> find (\<lambda>y. k y = k x) xs = Some x"
  by (induction xs) auto

lemma foldr_max_bound: "e \<in> set es \<Longrightarrow> k e \<le> foldr (\<lambda>e m. max (k e) m) es (0::int)"
  by (induction es) (auto simp: max_def)

lemma find_run_unique:
  assumes "distinct (run_ids d)" and "r \<in> set (runs d)"
  shows "find_run d (run_id r) = Some r"
  using assms unfolding find_run_def run_ids_def by (rule find_distinct_key)

lemma find_map_pred:
  assumes "\<And>r. run_id (f r) = run_id r"
  shows "find (\<lambda>r. run_id r = i) (map f rs) = map_option f (find (\<lambda>r. run_id r = i) rs)"
  by (induction rs) (simp_all add: assms)

lemma find_run_update:
  assumes "\<And>r. run_id (f r) = run_id r"
  shows "find_run (update_runs_where p f d) i
    = map_option (\<lambda>r. if p r then f r else r) (find_run d i)"
  unfolding find_run_def update_runs_where_def
  by (simp add: find_map_pred assms)

lemma update_runs_where_simps [simp]:
  "events (update_runs_where p f d) = events d"
  "artifacts (update_runs_where p f d) = artifacts d"
  "next_run_id (update_runs_where p f d) = next_run_id d"
  "next_event_id (update_runs_where p f d) = next_event_id d"
  "runs (update_runs_where p f d) = map (\<lambda>r. if p r then f r else r) (runs d)"
  by (simp_all add: update_runs_where_def)

lemma run_events_update [simp]: "run_events (update_runs_where p f d) i = run_events d i"
  by (simp add: run_events_def)

lemma insert_event_simps [simp]:
  "runs (insert_event now e n d) = runs d"
  "artifacts (insert_event now e n d) = artifacts d"
  "next_run_id (insert_event now e n d) = next_run_id d"
  "find_run (insert_event now e n d) i = find_run d i"
  "run_ids (insert_event now e n d) = run_ids d"
  by (simp_all add: insert_event_def find_run_def run_ids_def)

lemma max_sequence_bound: "e \<in> set (run_events d i) \<Longrightarrow> er_sequence_no e \<le> max_sequence d i"
  unfolding max_sequence_def by (rule foldr_max_bound)

section \<open>The database invariant\<close>

text \<open>
  A row that carries an execution token is being executed: \<open>running\<close> or \<open>verifying\<close>.
\<close>

definition fence_ok :: "agent_run_row \<Rightarrow> bool" where
  "fence_ok r = (0 \<le> execution_attempt r
     \<and> (execution_token r \<noteq> None \<longrightarrow> row_status r = rs_value RUNNING \<or> row_status r = rs_value VERIFYING))"

text \<open>
  The unique keys: the source identity of a root run and the step identity of a child run; a row
  whose key has a \<open>NULL\<close> column is not constrained.
\<close>

definition source_key :: "agent_run_row \<Rightarrow> (string \<times> string \<times> string) option" where
  "source_key r = (case (org_id r, source_idempotency_scope r, source_idempotency_key r) of
     (Some org, Some scope, Some key) \<Rightarrow> Some (org, scope, key) | _ \<Rightarrow> None)"

definition step_key :: "agent_run_row \<Rightarrow> (int \<times> string) option" where
  "step_key r = (case (parent_run_id r, parent_step_key_hash r) of
     (Some p, Some h) \<Rightarrow> Some (p, h) | _ \<Rightarrow> None)"

definition keys_of :: "(agent_run_row \<Rightarrow> 'k option) \<Rightarrow> agent_run_row list \<Rightarrow> 'k list" where
  "keys_of k rs = List.map_filter k rs"

definition keys_ok :: "db \<Rightarrow> bool" where
  "keys_ok d = (distinct (keys_of source_key (runs d)) \<and> distinct (keys_of step_key (runs d)))"

definition row_ok :: "db \<Rightarrow> agent_run_row \<Rightarrow> bool" where
  "row_ok d r = (0 < run_id r \<and> run_id r < next_run_id d
     \<and> row_status r \<in> set AGENT_RUN_DB_STATUS_VALUES
     \<and> root_run_id r \<in> set (map Some (run_ids d))
     \<and> (parent_run_id r \<noteq> None \<longrightarrow> parent_step_key_hash r \<noteq> None)
     \<and> fence_ok r)"

definition events_ok :: "db \<Rightarrow> bool" where
  "events_ok d = (distinct (map (\<lambda>e. (er_run_id e, er_sequence_no e)) (events d))
     \<and> (\<forall>e \<in> set (events d). er_run_id e \<in> set (run_ids d) \<and> er_id e < next_event_id d)
     \<and> sorted_wrt (<) (map er_id (events d)))"

definition db_inv :: "db \<Rightarrow> bool" where
  "db_inv d = (0 < next_run_id d \<and> distinct (run_ids d) \<and> (\<forall>r \<in> set (runs d). row_ok d r) \<and> keys_ok d \<and> events_ok d)"

section \<open>How a database may evolve\<close>

text \<open>
  The identity of a run and its idempotency keys never change, a terminal status is final, the attempt counter only
  grows, and a token can only be installed together with a new attempt. The event table is
  append-only.
\<close>

definition row_evolves :: "agent_run_row \<Rightarrow> agent_run_row \<Rightarrow> bool" where
  "row_evolves r r' = (run_id r' = run_id r \<and> thread_id r' = thread_id r \<and> org_id r' = org_id r
     \<and> parent_run_id r' = parent_run_id r \<and> root_run_id r' = root_run_id r
     \<and> source_idempotency_scope r' = source_idempotency_scope r
     \<and> source_idempotency_key r' = source_idempotency_key r
     \<and> parent_step_key_hash r' = parent_step_key_hash r
     \<and> (row_run_status r \<in> set TERMINAL_RUN_STATUSES \<longrightarrow> row_status r' = row_status r)
     \<and> execution_attempt r \<le> execution_attempt r'
     \<and> (execution_attempt r' = execution_attempt r \<longrightarrow>
          execution_token r' = None \<or> execution_token r' = execution_token r))"

definition db_evolves :: "db \<Rightarrow> db \<Rightarrow> bool" where
  "db_evolves a b = ((\<exists>es. events b = events a @ es)
     \<and> (\<forall>i r. find_run a i = Some r \<longrightarrow> (\<exists>r'. find_run b i = Some r' \<and> row_evolves r r')))"

lemma row_evolves_refl [simp]: "row_evolves r r"
  by (simp add: row_evolves_def)

lemma row_evolves_trans:
  assumes ab: "row_evolves a b" and bc: "row_evolves b c"
  shows "row_evolves a c"
proof -
  have "row_status c = row_status a" if "row_run_status a \<in> set TERMINAL_RUN_STATUSES"
  proof -
    have "row_status b = row_status a" using that ab by (simp add: row_evolves_def)
    moreover from this have "row_run_status b \<in> set TERMINAL_RUN_STATUSES"
      using that by (simp add: row_run_status_def)
    ultimately show ?thesis using bc by (simp add: row_evolves_def)
  qed
  moreover have "execution_token c = None \<or> execution_token c = execution_token a"
    if "execution_attempt c = execution_attempt a"
  proof -
    have "execution_attempt b = execution_attempt a"
      using that ab bc unfolding row_evolves_def by linarith
    then show ?thesis using that ab bc by (auto simp: row_evolves_def)
  qed
  ultimately show ?thesis using ab bc by (simp add: row_evolves_def)
qed

lemma db_evolves_refl [simp]: "db_evolves d d"
  by (simp add: db_evolves_def)

lemma db_evolvesD:
  assumes "db_evolves a b" and "find_run a i = Some r"
  obtains r' where "find_run b i = Some r'" and "row_evolves r r'"
  using assms by (auto simp: db_evolves_def)

lemma db_evolves_trans:
  assumes ab: "db_evolves a b" and bc: "db_evolves b c"
  shows "db_evolves a c"
proof -
  from ab bc obtain e1 e2 where "events b = events a @ e1" "events c = events b @ e2"
    unfolding db_evolves_def by blast
  then have "\<exists>es. events c = events a @ es" by simp
  moreover have "\<exists>r'. find_run c i = Some r' \<and> row_evolves r r'" if "find_run a i = Some r" for i r
    using that by (rule db_evolvesD [OF ab]) (auto elim: db_evolvesD [OF bc] intro: row_evolves_trans)
  ultimately show ?thesis by (simp add: db_evolves_def)
qed

text \<open>The two together, for one write to the working copy.\<close>

definition good_write :: "(db \<Rightarrow> db) \<Rightarrow> db \<Rightarrow> bool" where
  "good_write f d = (db_inv d \<longrightarrow> db_inv (f d) \<and> db_evolves d (f d))"

lemma good_write_id [simp]: "good_write (\<lambda>d. d) d"
  by (simp add: good_write_def)

lemma insert_event_good:
  assumes "event_fk_ok d (ev_run_id e) (ev_root_run_id e)"
    and "(ev_run_id e, n) \<notin> set (map (\<lambda>x. (er_run_id x, er_sequence_no x)) (events d))"
  shows "good_write (insert_event now e n) d"
proof -
  have "db_evolves d (insert_event now e n d)"
    by (auto simp: db_evolves_def) (simp add: insert_event_def)
  moreover have "db_inv (insert_event now e n d)" if "db_inv d"
    using that assms
    by (auto simp: db_inv_def events_ok_def row_ok_def keys_ok_def insert_event_def event_fk_ok_def
        run_ids_def sorted_wrt_append cong: option.case_cong)
  ultimately show ?thesis by (simp add: good_write_def)
qed

lemma row_evolves_keys:
  assumes "row_evolves r r'"
  shows "source_key r' = source_key r" "step_key r' = step_key r"
  using assms by (simp_all add: row_evolves_def source_key_def step_key_def)

lemma keys_of_map:
  "(\<And>r. r \<in> set rs \<Longrightarrow> k (f r) = k r) \<Longrightarrow> keys_of k (map f rs) = keys_of k rs"
  by (induction rs) (simp_all add: keys_of_def List.map_filter_simps split: option.split)

lemma update_runs_good:
  assumes "\<And>r. p r \<Longrightarrow> r \<in> set (runs d) \<Longrightarrow> row_ok d r \<Longrightarrow>
      row_evolves r (f r) \<and> row_status (f r) \<in> set AGENT_RUN_DB_STATUS_VALUES \<and> fence_ok (f r)"
    and id: "\<And>r. run_id (f r) = run_id r"
  shows "good_write (update_runs_where p f) d"
  unfolding good_write_def
proof (intro impI conjI)
  assume inv: "db_inv d"
  have ids [simp]: "run_ids (update_runs_where p f d) = run_ids d"
    by (auto simp: run_ids_def id)
  have ev: "p r \<Longrightarrow> r \<in> set (runs d) \<Longrightarrow> row_evolves r (f r)" for r
    using assms(1) inv by (simp add: db_inv_def)
  have "row_ok (update_runs_where p f d) (f r)" if "p r" "r \<in> set (runs d)" for r
  proof -
    have ok: "row_ok d r" using inv that by (simp add: db_inv_def)
    moreover have "root_run_id (f r) = root_run_id r" "parent_run_id (f r) = parent_run_id r"
        "parent_step_key_hash (f r) = parent_step_key_hash r"
      using ev that by (simp_all add: row_evolves_def)
    ultimately show ?thesis
      using assms(1) [OF that(1,2) ok] id by (simp add: row_ok_def)
  qed
  moreover have "row_ok (update_runs_where p f d) r" if "r \<in> set (runs d)" for r
    using inv that by (simp add: db_inv_def row_ok_def)
  moreover have "keys_ok (update_runs_where p f d)"
    using inv ev by (auto simp: db_inv_def keys_ok_def keys_of_map row_evolves_keys)
  ultimately show "db_inv (update_runs_where p f d)"
    using inv by (auto simp: db_inv_def events_ok_def)
  show "db_evolves d (update_runs_where p f d)"
    using ev find_run_SomeD by (fastforce simp: db_evolves_def find_run_update id)
qed

section \<open>Preservation by programs\<close>

text \<open>
  \<open>sess_ok c s\<close>: both databases of the session satisfy the invariant, the committed one has
  evolved from \<open>c\<close> and the working copy from the committed one.
\<close>

definition sess_ok :: "db \<Rightarrow> session \<Rightarrow> bool" where
  "sess_ok c s = (db_inv (committed s) \<and> db_inv (work s)
     \<and> db_evolves c (committed s) \<and> db_evolves (committed s) (work s))"

definition safe :: "'a prog \<Rightarrow> bool" where
  "safe m = (\<forall>c s. sess_ok c s \<longrightarrow> sess_ok c (snd (m s)))"

named_theorems safe_intros \<open>rules that show a program keeps sess_ok\<close>

lemma safeD: "safe m \<Longrightarrow> sess_ok c s \<Longrightarrow> sess_ok c (snd (m s))"
  by (simp add: safe_def)

lemma safe_pret [safe_intros]: "safe (pret x)"
  by (simp add: safe_def prog_defs)

lemma safe_praise [safe_intros]: "safe (praise e)"
  by (simp add: safe_def prog_defs)

lemma safe_preturn_result [safe_intros]: "safe (preturn_result r)"
  by (simp add: safe_def prog_defs)

lemma safe_pread [safe_intros]: "safe (pread f)"
  by (simp add: safe_def prog_defs)

lemma safe_mark_lost [safe_intros]: "safe (mark_lost c)"
  by (simp add: safe_def prog_defs sess_ok_def)

lemma safe_is_lost [safe_intros]: "safe (is_lost c)"
  by (simp add: safe_def prog_defs)

lemma safe_auto_commit [safe_intros]: "safe (set_auto_commit b)" "safe get_auto_commit"
  by (simp_all add: safe_def prog_defs sess_ok_def)

lemma safe_commit [safe_intros]: "safe commit"
  by (auto simp: safe_def prog_defs sess_ok_def intro: db_evolves_trans)

lemma safe_rollback [safe_intros]: "safe rollback"
  by (auto simp: safe_def prog_defs sess_ok_def)

lemma safe_commit_if_auto [safe_intros]: "safe commit_if_auto"
  using safe_commit by (auto simp: safe_def commit_if_auto_def)

lemma safe_pwrite:
  assumes "\<And>d. good_write f d"
  shows "safe (pwrite f)"
  using assms by (auto simp: safe_def prog_defs sess_ok_def good_write_def intro: db_evolves_trans)

lemma safe_sql_update:
  assumes "\<And>d. good_write (update_runs_where p f) d"
  shows "safe (sql_update p f)"
  using assms by (auto simp: safe_def prog_defs sess_ok_def good_write_def intro: db_evolves_trans)

lemma safe_pbind [safe_intros]:
  assumes "safe m" and "\<And>x. safe (f x)"
  shows "safe (pbind m f)"
  using assms by (fastforce simp: safe_def pbind_def split: prod.splits sum.splits)

lemma safe_pfor [safe_intros]: "(\<And>x. safe (f x)) \<Longrightarrow> safe (pfor f xs)"
  by (induction xs) (auto intro: safe_intros)

lemma safe_if [safe_intros]: "(p \<Longrightarrow> safe a) \<Longrightarrow> (\<not> p \<Longrightarrow> safe b) \<Longrightarrow> safe (if p then a else b)"
  by simp

lemma safe_option [safe_intros]:
  "safe a \<Longrightarrow> (\<And>x. v = Some x \<Longrightarrow> safe (f x)) \<Longrightarrow> safe (case v of None \<Rightarrow> a | Some x \<Rightarrow> f x)"
  by (cases v) simp_all

lemma safe_sum [safe_intros]:
  "(\<And>e. safe (g e)) \<Longrightarrow> (\<And>x. v = Inr x \<Longrightarrow> safe (f x)) \<Longrightarrow> safe (case v of Inl e \<Rightarrow> g e | Inr x \<Rightarrow> f x)"
  by (cases v) simp_all

lemma safe_prod [safe_intros]: "(\<And>x y. safe (f x y)) \<Longrightarrow> safe (case v of (x, y) \<Rightarrow> f x y)"
  by (cases v) simp

lemma safe_list [safe_intros]:
  "safe a \<Longrightarrow> (\<And>x xs. v = x # xs \<Longrightarrow> safe (f x xs)) \<Longrightarrow> safe (case v of [] \<Rightarrow> a | x # xs \<Rightarrow> f x xs)"
  by (cases v) simp_all

lemma safe_let [safe_intros]: "(\<And>x. safe (f x)) \<Longrightarrow> safe (let x = v in f x)"
  by simp

lemma safe_ptry_finally [safe_intros]: "safe m \<Longrightarrow> safe h \<Longrightarrow> safe (ptry_finally m h)"
  by (fastforce simp: safe_def ptry_finally_def split: prod.splits)

lemma safe_pon_error [safe_intros]: "safe m \<Longrightarrow> safe h \<Longrightarrow> safe (pon_error m h)"
  by (fastforce simp: safe_def pon_error_def split: prod.splits sum.splits)

end
