(* ===== verification/Run_Store.thy ===== *)
theory Run_Store
  imports Run_Db
begin

text \<open>
  The write side of \<open>AsyncAgentRunStore\<close> (\<open>brain/systems/runs/store.py\<close>): reading a run, the
  append-only event stream, artifacts, the compare-and-set status transition on a locked row and
  the operations built on it (\<open>set_status_with_result\<close>, \<open>fail_run_with_result\<close>,
  \<open>interrupt_and_requeue\<close>). The clock is the argument \<open>now\<close>, the process environment the
  argument \<open>env\<close>; \<open>run_hook\<close> arguments are the services the store calls after a terminal
  transition (inbound reconciliation, chantier continuation).
\<close>

type_synonym run_hook = "agent_run_row \<Rightarrow> db \<Rightarrow> db"

section \<open>Reading runs\<close>

definition refresh_run :: "int \<Rightarrow> agent_run_row prog" where
  "refresh_run i = pbind (pread (\<lambda>d. find_run d i)) (\<lambda>r.
     case r of None \<Rightarrow> praise (LookupError i) | Some row \<Rightarrow> pret row)"

text \<open>
  \<open>_locked_run\<close>: the row after its root and itself have been locked; waiting for the locks is
  not a step of the model, a missing run raises.
\<close>

definition locked_run :: "int \<Rightarrow> agent_run_row prog" where
  "locked_run i = refresh_run i"

definition require_run :: "int \<Rightarrow> agent_run_row prog" where
  "require_run i = refresh_run i"

definition commit_event_boundary :: "int \<Rightarrow> unit prog" where
  "commit_event_boundary i = commit"

definition lock_terminal_boundary :: "int \<Rightarrow> agent_run_row prog" where
  "lock_terminal_boundary i = refresh_run i"

definition metadata_for_run :: "int \<Rightarrow> pydict prog" where
  "metadata_for_run i = pbind (require_run i) (\<lambda>row. pret (metadata row))"

text \<open>
  Assigning \<open>row.metadata_\<close> and flushing: the mapper writes the row only when the value changed,
  and the column's \<open>onupdate\<close> then stamps \<open>updated_at\<close>.
\<close>

definition flush_metadata :: "instant \<Rightarrow> int \<Rightarrow> pydict \<Rightarrow> unit prog" where
  "flush_metadata now i md =
     pbind (sql_update (\<lambda>r. run_id r = i \<and> metadata r \<noteq> md)
              (\<lambda>r. r\<lparr>metadata := md, updated_at := now\<rparr>)) (\<lambda>_. pret ())"

definition update_metadata :: "instant \<Rightarrow> int \<Rightarrow> pydict \<Rightarrow> pydict prog" where
  "update_metadata now i patch =
     pbind (locked_run i) (\<lambda>row.
       let md = dmerge (metadata row) patch in
       pbind (flush_metadata now i md) (\<lambda>_. pret md))"

section \<open>Events\<close>

definition append_event :: "instant \<Rightarrow> run_event \<Rightarrow> event_row prog" where
  "append_event now e s =
     (let d = work s; rid = ev_run_id e;
          n = (case ev_sequence_no e of Some k \<Rightarrow> k | None \<Rightarrow> max_sequence d rid + 1)
      in if \<not> event_fk_ok d rid (ev_root_run_id e)
            \<or> (rid, n) \<in> set (map (\<lambda>x. (er_run_id x, er_sequence_no x)) (events d))
         then (Inl IntegrityError, s)
         else pbind (pwrite (insert_event now e n)) (\<lambda>_.
                pbind commit_if_auto (\<lambda>_. pread (\<lambda>d'. last (events d')))) s)"

abbreviation emit :: "instant \<Rightarrow> run_event \<Rightarrow> unit prog" where
  "emit now e \<equiv> pbind (append_event now e) (\<lambda>_. pret ())"

definition has_event_type :: "int \<Rightarrow> string \<Rightarrow> bool prog" where
  "has_event_type i etype = pread (\<lambda>d. list_ex (\<lambda>e. er_type e = etype) (run_events d i))"

section \<open>Artifacts\<close>

definition safe_cycle_provider_error_text :: "int \<Rightarrow> string \<Rightarrow> string prog" where
  "safe_cycle_provider_error_text i txt =
     (if py_startswith txt PROVIDER_ERROR_SENTINEL_PREFIX then pret txt
      else case provider_error_kind txt None of
        None \<Rightarrow> pret txt
      | Some kind \<Rightarrow>
          pbind (pread (\<lambda>d. find_run d i)) (\<lambda>run.
            let md = (case run of None \<Rightarrow> [] | Some r \<Rightarrow> metadata r) in
            if dget md ''source'' \<noteq> PyStr ''cycle'' \<and> \<not> py_truthy (dget md ''cycle_run_id'')
            then pret txt
            else pret (safe_provider_error_sentinel (Some kind))))"

definition insert_artifact :: "instant \<Rightarrow> run_artifact \<Rightarrow> string option \<Rightarrow> db \<Rightarrow> db" where
  "insert_artifact now a txt d =
     d\<lparr>artifacts := artifacts d @ [\<lparr>aw_id = next_artifact_id d, aw_run_id = ar_run_id a,
          aw_root_run_id = or_id (ar_root_run_id a) (ar_run_id a), aw_type = ar_type a,
          aw_title = ar_title a, aw_payload = ar_payload a, aw_text = txt, aw_uri = ar_uri a,
          aw_visibility = visibility_value (ar_visibility a), aw_created_at = now\<rparr>],
       next_artifact_id := next_artifact_id d + 1\<rparr>"

text \<open>The flushed row, and its \<open>run.artifact_created\<close> event.\<close>

definition add_artifact_row :: "instant \<Rightarrow> run_artifact \<Rightarrow> string option \<Rightarrow> artifact_row prog" where
  "add_artifact_row now a txt =
     pbind (pwrite (insert_artifact now a txt)) (\<lambda>_. pread (\<lambda>d. last (artifacts d)))"

definition artifact_created_event :: "artifact_row \<Rightarrow> run_event" where
  "artifact_created_event row =
     run_ev (aw_run_id row) ''run.artifact_created''
       [(''artifact_id'', PyInt (aw_id row)), (''artifact_type'', PyStr (aw_type row)),
        (''title'', opt_str (aw_title row))] (Some (aw_root_run_id row))"

definition append_artifact :: "instant \<Rightarrow> run_artifact \<Rightarrow> artifact_row prog" where
  "append_artifact now a =
     pbind (case ar_text a of
              Some t \<Rightarrow> if ar_type a = ''final_answer''
                then pbind (safe_cycle_provider_error_text (ar_run_id a) t) (\<lambda>t'. pret (Some t'))
                else pret (Some t)
            | None \<Rightarrow> pret None) (\<lambda>txt.
     pbind (pread (\<lambda>d. event_fk_ok d (ar_run_id a) (ar_root_run_id a))) (\<lambda>ok.
       if \<not> ok then praise IntegrityError
       else pbind (add_artifact_row now a txt) (\<lambda>row.
         pbind (append_event now (artifact_created_event row)) (\<lambda>_. pret row))))"

definition append_final_answer_once :: "instant \<Rightarrow> int \<Rightarrow> string \<Rightarrow> int option \<Rightarrow> artifact_row option prog" where
  "append_final_answer_once now i txt root =
     (if txt = [] then pret None
      else pbind (safe_cycle_provider_error_text i txt) (\<lambda>safe_txt.
        pbind (pread (\<lambda>d. sort_key aw_id (filter (\<lambda>a. aw_run_id a = i \<and> aw_type a = ''final_answer''
                    \<and> aw_text a = Some safe_txt) (artifacts d)))) (\<lambda>existing.
          case existing of
            a # _ \<Rightarrow> pret (Some a)
          | [] \<Rightarrow> pbind (append_artifact now (final_answer_artifact i safe_txt root))
                    (\<lambda>row. pret (Some row)))))"

text \<open>Ordered by \<open>created_at\<close>, then \<open>id\<close>.\<close>

definition list_artifacts :: "int \<Rightarrow> artifact_row list prog" where
  "list_artifacts i = pread (\<lambda>d. sort_key aw_created_at (sort_key aw_id
     (filter (\<lambda>a. aw_run_id a = i) (artifacts d))))"

definition latest_artifact_text :: "int \<Rightarrow> string \<Rightarrow> string prog" where
  "latest_artifact_text i atype = pread (\<lambda>d.
     case rev (sort_key aw_created_at (sort_key aw_id
            (filter (\<lambda>a. aw_run_id a = i \<and> aw_type a = atype) (artifacts d)))) of
       [] \<Rightarrow> [] | a # _ \<Rightarrow> (case aw_text a of None \<Rightarrow> [] | Some t \<Rightarrow> t))"

section \<open>Status transitions\<close>

text \<open>
  The keyword arguments of \<open>_set_status_on_locked_run\<close>; an expectation that is \<open>None\<close> is the
  source's \<open>_UNSET\<close>, \<open>Some v\<close> compares the column with \<open>v\<close>.
\<close>

record status_opts =
  so_reason :: "string option"
  so_claim :: "execution_claim option"
  so_expected_updated_at :: "instant option"
  so_expected_token :: "string option option"
  so_expected_attempt :: "int option"
  so_rollback_on_conflict :: bool
  so_transitioned_at :: "datetime option"
  so_metadata :: "pydict option"
  so_allow_requeue :: bool
  so_before :: "run_event list"
  so_after :: "run_event list"

definition default_opts :: status_opts where
  "default_opts = \<lparr>so_reason = None, so_claim = None, so_expected_updated_at = None,
     so_expected_token = None, so_expected_attempt = None, so_rollback_on_conflict = True,
     so_transitioned_at = None, so_metadata = None, so_allow_requeue = False, so_before = [],
     so_after = []\<rparr>"

text \<open>The columns a transition writes: the \<open>values\<close> dictionary of the UPDATE.\<close>

definition transition_values ::
  "run_status \<Rightarrow> instant \<Rightarrow> pydict option \<Rightarrow> agent_run_row \<Rightarrow> agent_run_row \<Rightarrow> agent_run_row" where
  "transition_values target now md row r =
     (let r1 = r\<lparr>row_status := rs_value target, updated_at := now\<rparr>;
          r2 = (case target of
                  STARTING \<Rightarrow> r1\<lparr>started_at := Some (case started_at row of None \<Rightarrow> now | Some t \<Rightarrow> t)\<rparr>
                | PAUSED \<Rightarrow> r1\<lparr>paused_at := Some now\<rparr>
                | COMPLETED \<Rightarrow> r1\<lparr>completed_at := Some now\<rparr>
                | FAILED \<Rightarrow> r1\<lparr>failed_at := Some now\<rparr>
                | CANCELED \<Rightarrow> r1\<lparr>canceled_at := Some now\<rparr>
                | EXPIRED \<Rightarrow> r1\<lparr>expired_at := Some now\<rparr>
                | QUEUED \<Rightarrow> r1\<lparr>paused_at := None\<rparr>
                | _ \<Rightarrow> r1);
          r3 = (if target \<in> set TERMINAL_RUN_STATUSES \<or> target = PAUSED \<or> target = QUEUED
                then r2\<lparr>execution_token := None\<rparr> else r2)
      in case md of None \<Rightarrow> r3 | Some m \<Rightarrow> r3\<lparr>metadata := m\<rparr>)"

text \<open>The WHERE clause of the UPDATE.\<close>

definition transition_predicate :: "int \<Rightarrow> run_status \<Rightarrow> status_opts \<Rightarrow> agent_run_row \<Rightarrow> bool" where
  "transition_predicate i current opts r =
     (run_id r = i \<and> row_status r = rs_value current
      \<and> (case so_claim opts of None \<Rightarrow> True
         | Some c \<Rightarrow> execution_token r = Some (cl_token c) \<and> execution_attempt r = cl_attempt c)
      \<and> (case so_expected_updated_at opts of None \<Rightarrow> True | Some t \<Rightarrow> updated_at r = t)
      \<and> (case so_expected_token opts of None \<Rightarrow> True | Some t \<Rightarrow> execution_token r = t)
      \<and> (case so_expected_attempt opts of None \<Rightarrow> True | Some n \<Rightarrow> execution_attempt r = n))"

definition claim_matches :: "execution_claim \<Rightarrow> agent_run_row \<Rightarrow> bool" where
  "claim_matches c row =
     ((case execution_token row of None \<Rightarrow> [] | Some t \<Rightarrow> t) = cl_token c
      \<and> execution_attempt row = cl_attempt c)"

definition assert_execution_claim :: "execution_claim \<Rightarrow> agent_run_row prog" where
  "assert_execution_claim c =
     pbind (refresh_run (cl_run_id c)) (\<lambda>row. pbind (is_lost c) (\<lambda>gone.
       if gone \<or> \<not> claim_matches c row \<or> row_run_status row \<in> set TERMINAL_RUN_STATUSES
       then praise (ExecutionClaimLost (cl_run_id c) (cl_attempt c)) else pret row))"

text \<open>\<open>_reconcile_inbound_triage_run_if_needed\<close>: the service runs for inbound triage runs only.\<close>

definition reconcile_inbound_if_needed :: "run_hook \<Rightarrow> agent_run_row \<Rightarrow> unit prog" where
  "reconcile_inbound_if_needed hook row =
     (case dget (metadata row) ''inbound_event'' of
        PyDict ie \<Rightarrow> if py_truthy (dget ie ''event_id'') then pwrite (hook row) else pret ()
      | _ \<Rightarrow> pret ())"

definition raise_if_lost :: "int \<Rightarrow> execution_claim option \<Rightarrow> unit prog" where
  "raise_if_lost i claim = (case claim of None \<Rightarrow> pret ()
     | Some c \<Rightarrow> pbind (is_lost c) (\<lambda>gone.
         if gone then praise (ExecutionClaimLost i (cl_attempt c)) else pret ()))"

text \<open>After the UPDATE matched: the audit events in their order, the re-read, the hook.\<close>

definition record_transition ::
  "instant \<Rightarrow> run_hook \<Rightarrow> int \<Rightarrow> int option \<Rightarrow> run_status \<Rightarrow> run_status \<Rightarrow> status_opts \<Rightarrow> agent_run prog" where
  "record_transition now hook i root current target opts =
     pbind (pfor (emit now) (so_before opts)) (\<lambda>_.
     pbind (append_event now (status_changed_event i (rs_value current) (rs_value target) root
              (so_reason opts))) (\<lambda>_.
     pbind (pfor (emit now) (so_after opts)) (\<lambda>_.
     pbind (refresh_run i) (\<lambda>row.
     pbind (if target \<in> set TERMINAL_RUN_STATUSES then reconcile_inbound_if_needed hook row
            else pret ()) (\<lambda>_.
     pbind commit_if_auto (\<lambda>_. pret (to_domain row)))))))"

definition set_status_on_locked_run ::
  "instant \<Rightarrow> run_hook \<Rightarrow> agent_run_row \<Rightarrow> status_arg \<Rightarrow> status_opts \<Rightarrow> (agent_run \<times> bool) prog" where
  "set_status_on_locked_run now hook row status_a opts =
     (let i = run_id row; persisted = row_run_status row in
      pbind (raise_if_lost i (so_claim opts)) (\<lambda>_.
      pbind (case so_claim opts of None \<Rightarrow> pret ()
             | Some c \<Rightarrow> if \<not> claim_matches c row \<or> persisted \<in> set TERMINAL_RUN_STATUSES
                 then pbind (mark_lost c) (\<lambda>_. praise (ExecutionClaimLost i (cl_attempt c)))
                 else pret ()) (\<lambda>_.
      if persisted \<in> set TERMINAL_RUN_STATUSES then pret (to_domain row, False)
      else pbind (preturn_result (ensure_run_transition (StatusText (Some (row_status row))) status_a
                    (so_allow_requeue opts))) (\<lambda>(current, target).
        if current = target
        then pbind (case so_claim opts of None \<Rightarrow> pret ()
                    | Some c \<Rightarrow> pbind (assert_execution_claim c) (\<lambda>_. pret ())) (\<lambda>_.
               pret (to_domain row, False))
        else (let at = (case so_transitioned_at opts of None \<Rightarrow> now | Some t \<Rightarrow> assume_utc t) in
          pbind (sql_update (transition_predicate i current opts)
                   (transition_values target at (so_metadata opts) row)) (\<lambda>matched.
            if \<not> matched
            then pbind (if so_rollback_on_conflict opts then rollback else pret ()) (\<lambda>_.
                 case so_claim opts of
                   Some c \<Rightarrow> pbind (mark_lost c) (\<lambda>_. praise (ExecutionClaimLost i (cl_attempt c)))
                 | None \<Rightarrow> pbind (refresh_run i) (\<lambda>r. pret (to_domain r, False)))
            else pbind (record_transition now hook i (root_run_id row) current target opts)
                   (\<lambda>run. pret (run, True))))))))"

section \<open>Failing, setting and interrupting a run\<close>

definition fail_run_with_result ::
  "instant \<Rightarrow> run_hook \<Rightarrow> int \<Rightarrow> failure_category \<Rightarrow> failure_stage \<Rightarrow> exception_type option
   \<Rightarrow> status_opts \<Rightarrow> (agent_run \<times> bool) prog" where
  "fail_run_with_result now hook i category stage ex opts =
     pbind (raise_if_lost i (so_claim opts)) (\<lambda>_.
     pbind (locked_run i) (\<lambda>row.
       let envelope = (case run_failure_metadata category stage ex of
              Inr e \<Rightarrow> Inr e
            | Inl _ \<Rightarrow> run_failure_metadata CAT_INTERNAL RUNNER_SETTLEMENT None)
       in pbind (preturn_result envelope) (\<lambda>e.
          set_status_on_locked_run now hook row (StatusEnum FAILED)
            (opts\<lparr>so_metadata := Some (dset (metadata row) ''failure'' (PyDict e)),
                  so_allow_requeue := False\<rparr>))))"

definition fail_run ::
  "instant \<Rightarrow> run_hook \<Rightarrow> int \<Rightarrow> failure_category \<Rightarrow> failure_stage \<Rightarrow> exception_type option
   \<Rightarrow> string option \<Rightarrow> execution_claim option \<Rightarrow> agent_run prog" where
  "fail_run now hook i category stage ex reason claim =
     pbind (fail_run_with_result now hook i category stage ex
        (default_opts\<lparr>so_reason := reason, so_claim := claim\<rparr>)) (\<lambda>(run, changed). pret run)"

text \<open>A request for \<open>failed\<close> takes the typed path with the internal settlement envelope.\<close>

definition names_failed :: "status_arg \<Rightarrow> bool" where
  "names_failed a = (a = StatusEnum FAILED \<or> a = StatusText (Some (rs_value FAILED)))"

definition set_status_with_result ::
  "instant \<Rightarrow> run_hook \<Rightarrow> int \<Rightarrow> status_arg \<Rightarrow> status_opts \<Rightarrow> (agent_run \<times> bool) prog" where
  "set_status_with_result now hook i status_a opts =
     (if names_failed status_a
      then fail_run_with_result now hook i CAT_INTERNAL RUNNER_SETTLEMENT None
             (opts\<lparr>so_metadata := None, so_allow_requeue := False\<rparr>)
      else pbind (raise_if_lost i (so_claim opts)) (\<lambda>_.
           pbind (locked_run i) (\<lambda>row. set_status_on_locked_run now hook row status_a opts)))"

definition set_status ::
  "instant \<Rightarrow> run_hook \<Rightarrow> int \<Rightarrow> status_arg \<Rightarrow> string option \<Rightarrow> execution_claim option \<Rightarrow> agent_run prog" where
  "set_status now hook i status_a reason claim =
     pbind (set_status_with_result now hook i status_a
        (default_opts\<lparr>so_reason := reason, so_claim := claim\<rparr>)) (\<lambda>(run, changed). pret run)"

definition max_interruption_requeues :: "environ \<Rightarrow> int" where
  "max_interruption_requeues env = max 0 (getenv_int env ''AGENT_RUN_MAX_INTERRUPTION_REQUEUES'' 3)"

definition coerce_int :: "pyval \<Rightarrow> int \<Rightarrow> int" where
  "coerce_int v dflt = (case py_int v of None \<Rightarrow> dflt | Some i \<Rightarrow> i)"

definition interruption_count :: "agent_run_row \<Rightarrow> int" where
  "interruption_count row = coerce_int (dget (metadata row) ''interruption_count'') 0"

text \<open>The record of one interruption, and the metadata that carries it.\<close>

definition interruption_record ::
  "agent_run_row \<Rightarrow> run_status \<Rightarrow> string \<Rightarrow> instant \<Rightarrow> pydict \<Rightarrow> bool \<Rightarrow> pydict" where
  "interruption_record row current reason at details requeued =
     dmerge details
       [(''reason'', PyStr (if reason = [] then ''worker_shutdown'' else reason)),
        (''interrupted_at'', PyStr (isoformat at)), (''from_status'', PyStr (rs_value current)),
        (''execution_attempt'', PyInt (execution_attempt row)), (''requeued'', PyBool requeued)]"

definition interruption_metadata :: "agent_run_row \<Rightarrow> pydict \<Rightarrow> pydict" where
  "interruption_metadata row interruption =
     AList.delete ''failure''
       (dset (dset (metadata row) ''interruption'' (PyDict interruption)) ''interruption_count''
          (PyInt (interruption_count row + 1)))"

text \<open>The final output, the semantic event and the continuation of a run whose cap is exhausted.\<close>

definition settle_exhausted :: "instant \<Rightarrow> run_hook \<Rightarrow> agent_run_row \<Rightarrow> unit prog" where
  "settle_exhausted now continuation row =
     (let i = run_id row; root = root_run_id row;
          final_output = (case safe_terminal_run_message EXPIRED CAT_INTERNAL of None \<Rightarrow> [] | Some m \<Rightarrow> m)
      in pbind (if final_output = [] then pret ()
                else pbind (append_final_answer_once now i final_output root) (\<lambda>artifact.
                     let safe_output = (case artifact of None \<Rightarrow> final_output
                            | Some a \<Rightarrow> (case aw_text a of None \<Rightarrow> final_output
                                | Some t \<Rightarrow> if t = [] then final_output else t))
                     in pbind (has_event_type i ''run.text_delta'') (\<lambda>streamed.
                        if streamed then pret ()
                        else emit now (mk_event i ''run.text_completed'' [(''text'', PyStr safe_output)]
                               root ''worker_shutdown'' PUBLIC)))) (\<lambda>_.
         pbind (emit now (mk_event i ''run.expired''
                  [(''reason'', PyStr ''interruption_limit_exhausted''),
                   (''interruption_count'', PyInt (interruption_count row + 1))]
                  root ''worker_shutdown'' PUBLIC)) (\<lambda>_.
         pwrite (continuation row))))"

definition interrupt_time :: "instant \<Rightarrow> datetime option \<Rightarrow> instant" where
  "interrupt_time now at = (case at of None \<Rightarrow> now | Some t \<Rightarrow> assume_utc t)"

text \<open>The arguments of the guarded transition of an interruption.\<close>

definition interrupt_opts ::
  "agent_run_row \<Rightarrow> string \<Rightarrow> instant \<Rightarrow> pydict \<Rightarrow> bool \<Rightarrow> status_opts" where
  "interrupt_opts row reason at details requeue =
     (let interruption = interruption_record row (row_run_status row) reason at details requeue;
          event = (\<lambda>t. mk_event (run_id row) t interruption (root_run_id row) ''worker_shutdown'' PUBLIC)
      in default_opts\<lparr>
           so_reason := Some (if reason = [] then ''worker_shutdown'' else reason),
           so_transitioned_at := Some (Aware at),
           so_metadata := Some (interruption_metadata row interruption),
           so_allow_requeue := requeue,
           so_expected_token := Some (execution_token row),
           so_expected_attempt := Some (execution_attempt row),
           so_before := [event ''run.interrupted''],
           so_after := [event (if requeue then ''run.requeued'' else ''run.interruption_limit_exhausted'')]\<rparr>)"

text \<open>
  The transition and what follows it, in one transaction: \<open>auto_commit\<close> is off meanwhile and
  restored on every exit; an exception rolls the transaction back.
\<close>

definition interrupt_transaction ::
  "instant \<Rightarrow> run_hook \<Rightarrow> run_hook \<Rightarrow> agent_run_row \<Rightarrow> run_status \<Rightarrow> status_opts \<Rightarrow> (agent_run \<times> bool) prog" where
  "interrupt_transaction now hook continuation row target opts =
     pbind get_auto_commit (\<lambda>ac.
       ptry_finally
         (pon_error
            (pbind (set_auto_commit False) (\<lambda>_.
             pbind (set_status_on_locked_run now hook row (StatusEnum target) opts) (\<lambda>(run, changed).
             pbind (if changed \<and> \<not> so_allow_requeue opts then settle_exhausted now continuation row
                    else pret ()) (\<lambda>_.
             pbind (if ac then commit else pret ()) (\<lambda>_. pret (run, changed))))))
            (if ac then rollback else pret ()))
         (set_auto_commit ac))"

definition interrupt_and_requeue ::
  "instant \<Rightarrow> environ \<Rightarrow> run_hook \<Rightarrow> run_hook \<Rightarrow> int \<Rightarrow> string \<Rightarrow> datetime option \<Rightarrow> pydict
   \<Rightarrow> (agent_run \<times> bool) prog" where
  "interrupt_and_requeue now env hook continuation i reason interrupted_at details =
     (let cap = max_interruption_requeues env in
      pbind (require_run i) (\<lambda>snapshot.
      let terminal_interruption = (cap \<le> interruption_count snapshot) in
      pbind (if terminal_interruption
             then pbind (commit_event_boundary i) (\<lambda>_. lock_terminal_boundary i)
             else locked_run i) (\<lambda>row0.
      pbind (if \<not> interruption_count row0 < cap \<and> \<not> terminal_interruption
             then pbind (commit_event_boundary i) (\<lambda>_. lock_terminal_boundary i)
             else pret row0) (\<lambda>row.
      let requeue_allowed = (interruption_count row < cap);
          target_status = (if requeue_allowed then QUEUED else EXPIRED)
      in case ensure_run_transition (StatusEnum (row_run_status row)) (StatusEnum target_status)
                requeue_allowed of
           Inl _ \<Rightarrow> pret (to_domain row, False)
         | Inr (current, target) \<Rightarrow>
             if current = target then pret (to_domain row, False)
             else interrupt_transaction now hook continuation row target
                    (interrupt_opts row reason (interrupt_time now interrupted_at) details
                       requeue_allowed)))))"

section \<open>Every operation keeps the database invariant\<close>

text \<open>The services the store calls are assumed to be well-behaved writers themselves.\<close>

definition good_hook :: "run_hook \<Rightarrow> bool" where
  "good_hook h = (\<forall>r d. good_write (h r) d)"

lemma safe_refresh_run [safe_intros]: "safe (refresh_run i)"
  unfolding refresh_run_def by (intro safe_intros)

lemma safe_locked_run [safe_intros]:
  "safe (locked_run i)" "safe (require_run i)" "safe (lock_terminal_boundary i)"
  "safe (commit_event_boundary i)"
  by (simp_all add: locked_run_def require_run_def lock_terminal_boundary_def
      commit_event_boundary_def safe_intros)

lemma good_same_row:
  assumes "\<And>r. p r \<Longrightarrow> run_core.truncate (f r)\<lparr>metadata := [], updated_at := 0\<rparr>
        = run_core.truncate r\<lparr>metadata := [], updated_at := 0\<rparr>
      \<and> source_idempotency_scope (f r) = source_idempotency_scope r
      \<and> source_idempotency_key (f r) = source_idempotency_key r
      \<and> parent_step_key_hash (f r) = parent_step_key_hash r
      \<and> row_status (f r) = row_status r \<and> execution_token (f r) = execution_token r
      \<and> execution_attempt (f r) = execution_attempt r"
    and "\<And>r. run_id (f r) = run_id r"
  shows "good_write (update_runs_where p f) d"
  using assms(1)
  by (intro update_runs_good assms(2))
     (auto simp: row_evolves_def row_ok_def fence_ok_def run_core.defs dest!: assms(1))

lemma safe_flush_metadata [safe_intros]: "safe (flush_metadata now i md)"
  unfolding flush_metadata_def
  by (intro safe_intros safe_sql_update good_same_row) (simp_all add: run_core.defs)

lemma safe_update_metadata [safe_intros]: "safe (update_metadata now i patch)"
  unfolding update_metadata_def Let_def by (intro safe_intros)

lemma safe_append_event [safe_intros]: "safe (append_event now e)"
  unfolding safe_def
proof (intro allI impI)
  fix c s assume ok: "sess_ok c s"
  let ?n = "case ev_sequence_no e of Some k \<Rightarrow> k | None \<Rightarrow> max_sequence (work s) (ev_run_id e) + 1"
  let ?bad = "\<not> event_fk_ok (work s) (ev_run_id e) (ev_root_run_id e)
    \<or> (ev_run_id e, ?n) \<in> set (map (\<lambda>x. (er_run_id x, er_sequence_no x)) (events (work s)))"
  show "sess_ok c (snd (append_event now e s))"
  proof (cases ?bad)
    case True
    then show ?thesis using ok unfolding append_event_def Let_def by simp
  next
    case False
    let ?t = "s\<lparr>work := insert_event now e ?n (work s)\<rparr>"
    have "good_write (insert_event now e ?n) (work s)"
      using False by (intro insert_event_good) auto
    then have "sess_ok c ?t"
      using ok by (auto simp: sess_ok_def good_write_def intro: db_evolves_trans)
    moreover have "safe (pbind commit_if_auto (\<lambda>_. pread (\<lambda>d'. last (events d'))))"
      by (intro safe_intros)
    ultimately have "sess_ok c (snd (pbind commit_if_auto (\<lambda>_. pread (\<lambda>d'. last (events d'))) ?t))"
      using safeD by blast
    then show ?thesis
      using False unfolding append_event_def Let_def by (simp add: pbind_def [of "pwrite f" for f] pwrite_def)
  qed
qed

lemma safe_has_event_type [safe_intros]: "safe (has_event_type i t)"
  unfolding has_event_type_def by (intro safe_intros)

lemma good_artifacts: "good_write (insert_artifact now a txt) d"
  by (auto simp: good_write_def insert_artifact_def db_inv_def events_ok_def row_ok_def keys_ok_def run_ids_def
      db_evolves_def find_run_def)

lemma safe_cycle_text [safe_intros]: "safe (safe_cycle_provider_error_text i txt)"
  unfolding safe_cycle_provider_error_text_def Let_def by (intro safe_intros)

lemma safe_append_artifact [safe_intros]: "safe (append_artifact now a)"
  unfolding append_artifact_def add_artifact_row_def by (intro safe_intros safe_pwrite good_artifacts)

lemma safe_append_final_answer_once [safe_intros]: "safe (append_final_answer_once now i txt root)"
  unfolding append_final_answer_once_def by (intro safe_intros)

section \<open>The status transition\<close>

lemma transition_values_id [simp]:
  "run_id (transition_values target at md row r) = run_id r"
  "row_status (transition_values target at md row r) = rs_value target"
  "thread_id (transition_values target at md row r) = thread_id r"
  "org_id (transition_values target at md row r) = org_id r"
  "parent_run_id (transition_values target at md row r) = parent_run_id r"
  "root_run_id (transition_values target at md row r) = root_run_id r"
  "execution_attempt (transition_values target at md row r) = execution_attempt r"
  "source_idempotency_scope (transition_values target at md row r) = source_idempotency_scope r"
  "source_idempotency_key (transition_values target at md row r) = source_idempotency_key r"
  "parent_step_key_hash (transition_values target at md row r) = parent_step_key_hash r"
  "metadata (transition_values target at md row r) = (case md of None \<Rightarrow> metadata r | Some m \<Rightarrow> m)"
  "updated_at (transition_values target at md row r) = at"
  by (simp_all add: transition_values_def Let_def split: option.split run_status.split)

lemma transition_values_token [simp]:
  "execution_token (transition_values target at md row r)
   = (if target \<in> set TERMINAL_RUN_STATUSES \<or> target = PAUSED \<or> target = QUEUED then None
      else execution_token r)"
  by (simp add: transition_values_def Let_def split: option.split run_status.split)

text \<open>What the guard lets through keeps the fence: a row that holds a token is being executed.\<close>

lemma transition_fence:
  assumes "fence_ok r" and "row_status r = rs_value current"
    and "target \<in> set (ALLOWED_RUN_TRANSITIONS current)"
  shows "fence_ok (transition_values target at md row r)"
  using assms
  by (cases current; cases target) (auto simp: fence_ok_def run_status_groups)

lemma rs_value_db_status [simp]: "rs_value s \<in> set AGENT_RUN_DB_STATUS_VALUES"
  by (simp add: AGENT_RUN_DB_STATUS_VALUES_def RUN_STATUS_VALUES_def)

lemma transition_good:
  assumes "target \<in> set (ALLOWED_RUN_TRANSITIONS current)" and "\<And>r. p r \<Longrightarrow> row_status r = rs_value current"
  shows "good_write (update_runs_where p (transition_values target at md row)) d"
proof (rule update_runs_good)
  fix r assume r: "p r" "row_ok d r"
  then have st: "row_status r = rs_value current" using assms(2) by simp
  then have "row_run_status r = current" by (rule row_run_status_value)
  moreover have "current \<notin> set TERMINAL_RUN_STATUSES"
    using assms(1) by (cases current) (auto simp: TERMINAL_RUN_STATUSES_def)
  moreover have "fence_ok (transition_values target at md row r)"
    using r st assms(1) by (intro transition_fence) (auto simp: row_ok_def)
  ultimately show "row_evolves r (transition_values target at md row r)
      \<and> row_status (transition_values target at md row r) \<in> set AGENT_RUN_DB_STATUS_VALUES
      \<and> fence_ok (transition_values target at md row r)"
    by (simp add: row_evolves_def)
qed simp

lemma safe_assert_claim [safe_intros]: "safe (assert_execution_claim c)"
  unfolding assert_execution_claim_def by (intro safe_intros)

lemma safe_raise_if_lost [safe_intros]: "safe (raise_if_lost i c)"
  unfolding raise_if_lost_def by (intro safe_intros)

lemma safe_reconcile:
  "good_hook hook \<Longrightarrow> safe (reconcile_inbound_if_needed hook row)"
  unfolding reconcile_inbound_if_needed_def
  by (cases "dget (metadata row) ''inbound_event''")
     (auto simp: good_hook_def intro!: safe_intros safe_pwrite)

lemma safe_record_transition:
  "good_hook hook \<Longrightarrow> safe (record_transition now hook i root current target opts)"
  unfolding record_transition_def by (intro safe_intros safe_reconcile)

lemma safe_bind_result:
  "(\<And>a b. r = Inr (a, b) \<Longrightarrow> safe (f a b)) \<Longrightarrow> safe (pbind (preturn_result r) (\<lambda>(a, b). f a b))"
  by (cases r) (auto simp: safe_def pbind_def preturn_result_def)

lemma safe_transition_update:
  assumes "ensure_run_transition f g al = Inr (current, target)" and "current \<noteq> target"
  shows "safe (sql_update (transition_predicate i current opts) (transition_values target at md row))"
  using assms ensure_run_transition_InrD(3) [OF assms(1)]
  by (intro safe_sql_update transition_good [of target current]) (auto simp: transition_predicate_def)

lemma safe_set_status_on_locked_run:
  assumes "good_hook hook"
  shows "safe (set_status_on_locked_run now hook row a opts)"
  unfolding set_status_on_locked_run_def Let_def
  by (intro safe_bind_result safe_intros safe_record_transition [OF assms])
     (auto intro: safe_transition_update)

lemma safe_fail_run_with_result:
  "good_hook hook \<Longrightarrow> safe (fail_run_with_result now hook i category stage ex opts)"
  unfolding fail_run_with_result_def Let_def
  by (intro safe_intros safe_set_status_on_locked_run)

lemma safe_set_status_with_result:
  "good_hook hook \<Longrightarrow> safe (set_status_with_result now hook i a opts)"
  unfolding set_status_with_result_def
  by (intro safe_intros safe_set_status_on_locked_run safe_fail_run_with_result)

lemma safe_settle_exhausted:
  "good_hook continuation \<Longrightarrow> safe (settle_exhausted now continuation row)"
  unfolding settle_exhausted_def Let_def
  by (intro safe_intros safe_pwrite) (simp add: good_hook_def)

lemma safe_interrupt_transaction:
  assumes "good_hook hook" and "good_hook continuation"
  shows "safe (interrupt_transaction now hook continuation row target opts)"
  unfolding interrupt_transaction_def
  by (intro safe_intros safe_set_status_on_locked_run safe_settle_exhausted assms)

lemma safe_interrupt_and_requeue:
  assumes "good_hook hook" and "good_hook continuation"
  shows "safe (interrupt_and_requeue now env hook continuation i reason at details)"
  unfolding interrupt_and_requeue_def Let_def
  by (intro safe_intros safe_interrupt_transaction assms)

end
