(* ===== verification/Run_Examples.thy ===== *)
theory Run_Examples
  imports Run_Store
begin

text \<open>
  A small concrete database: a queued root run, a running child run that holds an execution token
  and a completed run, with their first events. The witnesses of the store properties evaluate
  the operations on it.
\<close>

definition ex_row :: "int \<Rightarrow> run_status \<Rightarrow> int option \<Rightarrow> int \<Rightarrow> string option \<Rightarrow> int \<Rightarrow> pydict \<Rightarrow> agent_run_row" where
  "ex_row i st parent root token attempt md =
     \<lparr>run_id = i, trace_id = None, org_id = Some ''org'', user_id = None, thread_id = ''t1'',
      parent_run_id = parent, root_run_id = Some root, profile = PROFILE_FAST, recipe = RECIPE_FAST,
      input_message = ''hello'', target_ref = [], workspace_ref = [], model_policy = [],
      context_summary = None, metadata = md, created_at = 10 * i, started_at = None,
      deadline_at = Some 1000, closeout_expires_at = None, expired_at = None, paused_at = None,
      completed_at = None, failed_at = None, canceled_at = None, updated_at = 10 * i,
      row_status = rs_value st, source_idempotency_scope = None, source_idempotency_key = None,
      parent_step_key_hash = (case parent of None \<Rightarrow> None | Some _ \<Rightarrow> Some ''h''),
      execution_token = token, execution_attempt = attempt\<rparr>"

definition ex_queued :: agent_run_row where
  "ex_queued = ex_row 1 QUEUED None 1 None 0 []"

definition ex_running :: agent_run_row where
  "ex_running = ex_row 2 RUNNING (Some 1) 1 (Some ''tok'') 1 [(''interruption_count'', PyInt 1)]"

definition ex_done :: agent_run_row where
  "ex_done = ex_row 3 COMPLETED None 3 None 1 []"

definition ex_created :: "int \<Rightarrow> int \<Rightarrow> event_row" where
  "ex_created i root = \<lparr>er_id = i, er_run_id = i, er_root_run_id = root, er_sequence_no = 1,
     er_type = ''run.created'', er_payload = [], er_producer = ''agent_runtime'',
     er_visibility = ''public'', er_created_at = 10 * i\<rparr>"

definition ex_db :: db where
  "ex_db = \<lparr>runs = [ex_queued, ex_running, ex_done],
     events = [ex_created 1 1, ex_created 2 1, ex_created 3 3], artifacts = [],
     next_run_id = 4, next_event_id = 4, next_artifact_id = 1\<rparr>"

definition ex_session :: session where
  "ex_session = \<lparr>committed = ex_db, work = ex_db, auto_commit = True, lost = []\<rparr>"

definition ex_claim :: execution_claim where
  "ex_claim = \<lparr>cl_run_id = 2, cl_token = ''tok'', cl_attempt = 1\<rparr>"

definition ex_stale_claim :: execution_claim where
  "ex_stale_claim = \<lparr>cl_run_id = 2, cl_token = ''old'', cl_attempt = 0\<rparr>"

text \<open>A service that records its visit in the metadata of the run it is called for.\<close>

definition ex_hook :: run_hook where
  "ex_hook row = update_runs_where (\<lambda>r. run_id r = run_id row)
     (\<lambda>r. r\<lparr>metadata := dset (metadata r) ''reconciled'' (PyBool True)\<rparr>)"

lemmas ex_row_defs = ex_queued_def ex_running_def ex_done_def ex_row_def

lemma ex_session_simps [simp]:
  "work ex_session = ex_db" "committed ex_session = ex_db" "lost ex_session = []"
  "auto_commit ex_session"
  by (simp_all add: ex_session_def)

lemma ex_run_status [simp]:
  "row_run_status ex_queued = QUEUED" "row_run_status ex_running = RUNNING"
  "row_run_status ex_done = COMPLETED"
  by (simp_all add: ex_row_defs row_run_status_def del: rs_value.simps)

lemma ex_find [simp]:
  "find_run ex_db 1 = Some ex_queued" "find_run ex_db 2 = Some ex_running"
  "find_run ex_db 3 = Some ex_done"
  by (simp_all add: find_run_def ex_db_def ex_row_defs)

lemma ex_db_inv [simp]: "db_inv ex_db"
proof -
  have "list_all (row_ok ex_db) (runs ex_db)"
    by (simp add: ex_db_def ex_row_defs row_ok_def run_ids_def fence_ok_def del: rs_value.simps)
  moreover have "events_ok ex_db"
    by (simp add: ex_db_def ex_row_defs run_ids_def events_ok_def ex_created_def)
  moreover have "keys_ok ex_db"
    by (simp add: ex_db_def ex_row_defs keys_ok_def keys_of_def source_key_def step_key_def
        List.map_filter_simps)
  ultimately show ?thesis
    by (simp add: db_inv_def list_all_iff) (simp add: ex_db_def ex_row_defs run_ids_def)
qed

lemma ex_claim_simps [simp]:
  "claim_matches ex_claim ex_running" "\<not> claim_matches ex_stale_claim ex_running"
  by (simp_all add: claim_matches_def ex_claim_def ex_stale_claim_def ex_row_defs)

lemma ex_hook_good [simp]: "good_hook ex_hook"
  unfolding good_hook_def ex_hook_def
  by (intro allI good_same_row) (simp_all add: run_core.defs)

end
