(* ===== verification/Run_Transitions.thy ===== *)
theory Run_Transitions
  imports Run_Store Run_Examples
begin

text \<open>
  What a status transition of the store does, as one function on the database:
  \<open>apply_transition\<close> replaces the row, appends the audit events in order and runs the terminal
  hook. The compare-and-set code of \<open>_set_status_on_locked_run\<close> is shown equal to it on every
  branch that succeeds, and to leave the session alone on every branch that does not.
\<close>

section \<open>Appending events\<close>

definition add_event :: "instant \<Rightarrow> run_event \<Rightarrow> db \<Rightarrow> db" where
  "add_event now e d = insert_event now e (max_sequence d (ev_run_id e) + 1) d"

definition add_events :: "instant \<Rightarrow> run_event list \<Rightarrow> db \<Rightarrow> db" where
  "add_events now es d = fold (add_event now) es d"

text \<open>What a write leaves of a session: with \<open>auto_commit\<close> the new state is committed too.\<close>

definition publish :: "session \<Rightarrow> db \<Rightarrow> session" where
  "publish s d = s\<lparr>work := d, committed := (if auto_commit s then d else committed s)\<rparr>"

definition fresh_event :: "db \<Rightarrow> run_event \<Rightarrow> bool" where
  "fresh_event d e = (ev_sequence_no e = None \<and> event_fk_ok d (ev_run_id e) (ev_root_run_id e))"

lemma publish_simps [simp]:
  "work (publish s d) = d" "auto_commit (publish s d) = auto_commit s" "lost (publish s d) = lost s"
  "publish (publish s d) d' = publish s d'"
  "publish (s\<lparr>work := d'\<rparr>) d = publish s d"
  by (simp_all add: publish_def)

lemma add_event_simps [simp]:
  "find_run (add_event now e d) i = find_run d i" "runs (add_event now e d) = runs d"
  "run_ids (add_event now e d) = run_ids d" "artifacts (add_event now e d) = artifacts d"
  by (simp_all add: add_event_def)

lemma add_events_simps [simp]:
  "add_events now [] d = d" "add_events now (e # es) d = add_events now es (add_event now e d)"
  "add_events now (es @ fs) d = add_events now fs (add_events now es d)"
  by (simp_all add: add_events_def)

lemma add_events_db [simp]:
  "find_run (add_events now es d) i = find_run d i" "runs (add_events now es d) = runs d"
  "run_ids (add_events now es d) = run_ids d"
  by (induction es arbitrary: d) simp_all

lemma fresh_event_cong [simp]:
  "fresh_event (add_event now e d) = fresh_event d"
  "fresh_event (add_events now es d) = fresh_event d"
  by (simp_all add: fun_eq_iff fresh_event_def event_fk_ok_def)

lemma next_sequence_free:
  "(rid, max_sequence d rid + 1) \<notin> set (map (\<lambda>x. (er_run_id x, er_sequence_no x)) (events d))"
proof
  assume "(rid, max_sequence d rid + 1) \<in> set (map (\<lambda>x. (er_run_id x, er_sequence_no x)) (events d))"
  then obtain x where "x \<in> set (run_events d rid)" and "er_sequence_no x = max_sequence d rid + 1"
    by (auto simp: run_events_def)
  then show False using max_sequence_bound by fastforce
qed

text \<open>An event without a sequence number never conflicts: it gets the next number of its run.\<close>

lemma append_event_fresh:
  assumes "fresh_event (work s) e"
  shows "append_event now e s = (Inr (last (events (add_event now e (work s)))), publish s (add_event now e (work s)))"
  using assms next_sequence_free [of "ev_run_id e" "work s"]
  by (simp add: append_event_def fresh_event_def add_event_def publish_def prog_defs pbind_def Let_def)

lemma emit_fresh:
  "fresh_event (work s) e \<Longrightarrow> emit now e s = (Inr (), publish s (add_event now e (work s)))"
  by (simp add: append_event_fresh pbind_def pret_def)

lemma pbind_eq: "pbind m f s = (case m s of (Inl e, s') \<Rightarrow> (Inl e, s') | (Inr x, s') \<Rightarrow> f x s')"
  by (simp add: pbind_def)

lemma pfor_emit_fresh:
  assumes "list_all (fresh_event (work s)) es"
  shows "pfor (emit now) es s
    = (Inr (), if es = [] then s else publish s (add_events now es (work s)))"
  using assms
proof (induction es arbitrary: s)
  case (Cons e es)
  from Cons.prems have e: "emit now e s = (Inr (), publish s (add_event now e (work s)))"
    by (intro emit_fresh) simp
  have "pfor (emit now) es (publish s (add_event now e (work s)))
      = (Inr (), publish s (add_events now (e # es) (work s)))"
    using Cons.prems Cons.IH [of "publish s (add_event now e (work s))"]
    by (cases "es = []") simp_all
  then show ?case by (simp add: pbind_eq [of "emit now e"] e)
qed (simp add: pret_def)

lemma add_event_good: "fresh_event d e \<Longrightarrow> good_write (add_event now e) d"
  unfolding add_event_def fresh_event_def
  by (metis (no_types, lifting) good_write_def insert_event_good next_sequence_free)

section \<open>The effect of a transition\<close>

definition inbound_triage :: "agent_run_row \<Rightarrow> bool" where
  "inbound_triage row = (case dget (metadata row) ''inbound_event'' of
      PyDict ie \<Rightarrow> py_truthy (dget ie ''event_id'') | _ \<Rightarrow> False)"

definition transition_events :: "agent_run_row \<Rightarrow> run_status \<Rightarrow> status_opts \<Rightarrow> run_event list" where
  "transition_events row target opts =
     so_before opts @ [status_changed_event (run_id row) (rs_value (row_run_status row))
        (rs_value target) (root_run_id row) (so_reason opts)] @ so_after opts"

definition transition_time :: "instant \<Rightarrow> status_opts \<Rightarrow> instant" where
  "transition_time now opts = (case so_transitioned_at opts of None \<Rightarrow> now | Some t \<Rightarrow> assume_utc t)"

definition moved_row :: "instant \<Rightarrow> agent_run_row \<Rightarrow> run_status \<Rightarrow> status_opts \<Rightarrow> agent_run_row" where
  "moved_row now row target opts =
     transition_values target (transition_time now opts) (so_metadata opts) row row"

definition replace_run :: "agent_run_row \<Rightarrow> db \<Rightarrow> db" where
  "replace_run row = update_runs_where (\<lambda>r. run_id r = run_id row) (\<lambda>_. row)"

definition apply_transition ::
  "instant \<Rightarrow> run_hook \<Rightarrow> agent_run_row \<Rightarrow> run_status \<Rightarrow> status_opts \<Rightarrow> db \<Rightarrow> db" where
  "apply_transition now hook row target opts d =
     (let row' = moved_row now row target opts;
          d' = add_events now (transition_events row target opts) (replace_run row' d)
      in if target \<in> set TERMINAL_RUN_STATUSES \<and> inbound_triage row' then hook row' d' else d')"

text \<open>A claim is held on a row: nobody lost it, and the row carries its token and attempt.\<close>

definition holds_claim :: "session \<Rightarrow> agent_run_row \<Rightarrow> execution_claim option \<Rightarrow> bool" where
  "holds_claim s row claim = (case claim of None \<Rightarrow> True
     | Some c \<Rightarrow> c \<notin> set (lost s) \<and> execution_token row = Some (cl_token c)
         \<and> execution_attempt row = cl_attempt c)"

definition expectations_met :: "agent_run_row \<Rightarrow> status_opts \<Rightarrow> bool" where
  "expectations_met row opts =
     ((case so_expected_updated_at opts of None \<Rightarrow> True | Some t \<Rightarrow> updated_at row = t)
      \<and> (case so_expected_token opts of None \<Rightarrow> True | Some t \<Rightarrow> execution_token row = t)
      \<and> (case so_expected_attempt opts of None \<Rightarrow> True | Some n \<Rightarrow> execution_attempt row = n))"

lemma moved_row_simps [simp]:
  "run_id (moved_row now row target opts) = run_id row"
  "row_status (moved_row now row target opts) = rs_value target"
  "row_run_status (moved_row now row target opts) = target"
  "thread_id (moved_row now row target opts) = thread_id row"
  "root_run_id (moved_row now row target opts) = root_run_id row"
  "execution_attempt (moved_row now row target opts) = execution_attempt row"
  by (simp_all add: moved_row_def row_run_status_def)

lemma replace_run_simps [simp]:
  "run_ids (replace_run row d) = run_ids d" "events (replace_run row d) = events d"
  "run_events (replace_run row d) i = run_events d i"
  "artifacts (replace_run row d) = artifacts d"
  by (auto simp: replace_run_def run_ids_def)

lemma find_replaced:
  "find (\<lambda>r. run_id r = run_id row) rs \<noteq> None \<Longrightarrow>
    find (\<lambda>r. run_id r = run_id row) (map (\<lambda>r. if run_id r = run_id row then row else r) rs) = Some row"
  by (induction rs) auto

lemma find_other:
  "i \<noteq> run_id row \<Longrightarrow>
    find (\<lambda>r. run_id r = i) (map (\<lambda>r. if run_id r = run_id row then row else r) rs)
    = find (\<lambda>r. run_id r = i) rs"
  by (induction rs) auto

lemma find_replace_run:
  "find_run d (run_id row) \<noteq> None \<Longrightarrow>
    find_run (replace_run row d) i = (if i = run_id row then Some row else find_run d i)"
  using find_replaced [of row "runs d"] find_other [of i row "runs d"]
  by (simp add: find_run_def replace_run_def update_runs_where_def)

lemma update_is_replace:
  assumes "distinct (run_ids d)" and "find_run d (run_id row) = Some row" and "p row"
    and "\<And>r. p r \<Longrightarrow> run_id r = run_id row" and "run_id (f row) = run_id row"
  shows "update_runs_where p f d = replace_run (f row) d"
    and "list_ex p (runs d)"
proof -
  have mem: "row \<in> set (runs d)" using assms(2) by (blast dest: find_run_SomeD)
  then show "list_ex p (runs d)" using assms(3) by (auto simp: list_ex_iff)
  have "(if p r then f r else r) = (if run_id r = run_id row then f row else r)"
    if "r \<in> set (runs d)" for r
  proof -
    have "run_id r = run_id row \<Longrightarrow> r = row"
      using find_run_unique [OF assms(1) that] assms(2) by (metis option.inject)
    then show ?thesis using assms(3) assms(4) [of r] by (cases "p r") auto
  qed
  then have "map (\<lambda>r. if p r then f r else r) (runs d)
      = map (\<lambda>r. if run_id r = run_id row then f row else r) (runs d)"
    by (rule list.map_cong0)
  then show "update_runs_where p f d = replace_run (f row) d"
    unfolding replace_run_def update_runs_where_def assms(5) by (rule arg_cong)
qed

lemma reconcile_eq:
  "reconcile_inbound_if_needed hook row s
   = (Inr (), if inbound_triage row then s\<lparr>work := hook row (work s)\<rparr> else s)"
  by (auto simp: reconcile_inbound_if_needed_def inbound_triage_def prog_defs split: pyval.split)

lemma commit_if_auto_eq: "commit_if_auto s = (Inr (), publish s (work s))"
  by (simp add: commit_if_auto_def commit_def publish_def)

lemma record_transition_eq:
  assumes "list_all (fresh_event (work s)) (so_before opts @ so_after opts)"
    and "event_fk_ok (work s) i root"
    and "find_run (work s) i = Some row'"
  shows "record_transition now hook i root current target opts s =
    (Inr (to_domain row'),
     publish s (let d = add_events now (so_before opts @ [status_changed_event i (rs_value current)
                   (rs_value target) root (so_reason opts)] @ so_after opts) (work s)
        in if target \<in> set TERMINAL_RUN_STATUSES \<and> inbound_triage row' then hook row' d else d))"
proof -
  let ?ev = "status_changed_event i (rs_value current) (rs_value target) root (so_reason opts)"
  let ?s1 = "if so_before opts = [] then s else publish s (add_events now (so_before opts) (work s))"
  let ?d1 = "add_events now (so_before opts) (work s)"
  let ?d2 = "add_event now ?ev ?d1"
  let ?d3 = "add_events now (so_after opts) ?d2"
  have w1: "work ?s1 = ?d1" by simp
  have p1: "publish ?s1 d = publish s d" for d by simp
  have before: "pfor (emit now) (so_before opts) s = (Inr (), ?s1)"
    using assms(1) by (intro pfor_emit_fresh) simp
  have fresh: "fresh_event (work ?s1) ?ev"
    using assms(2) by (simp add: fresh_event_def event_fk_ok_def)
  have change: "append_event now ?ev ?s1 = (Inr (last (events ?d2)), publish s ?d2)"
    using append_event_fresh [OF fresh] by (simp only: w1 p1)
  have "pfor (emit now) (so_after opts) (publish s ?d2) = (Inr (), publish s ?d3)"
    using pfor_emit_fresh [of "publish s ?d2" "so_after opts" now] assms(1)
    by (cases "so_after opts = []") simp_all
  moreover have "refresh_run i (publish s ?d3) = (Inr row', publish s ?d3)"
    using assms(3) by (simp add: refresh_run_def pbind_def prog_defs)
  ultimately show ?thesis
    unfolding record_transition_def
    by (simp add: pbind_def before change reconcile_eq commit_if_auto_eq pret_def Let_def
        del: pfor.simps)
qed

section \<open>Every branch of \<open>_set_status_on_locked_run\<close>\<close>

lemma open_status_text:
  "row_run_status row \<in> set OPEN_RUN_STATUSES \<Longrightarrow> row_status row \<in> set AGENT_RUN_DB_STATUS_VALUES \<Longrightarrow>
    row_status row = rs_value (row_run_status row)"
  using row_run_status_cases [of row] by (auto simp: run_status_groups)

lemma coerce_open:
  assumes "row_run_status row \<in> set OPEN_RUN_STATUSES"
  shows "coerce_run_status (StatusText (Some (row_status row))) d = row_run_status row"
  using assms by (auto simp: row_run_status_def run_status_groups split: option.splits)

lemma ensure_text:
  assumes "row_run_status row \<in> set OPEN_RUN_STATUSES"
  shows "ensure_run_transition (StatusText (Some (row_status row))) b rq
    = ensure_run_transition (StatusEnum (row_run_status row)) b rq"
  using coerce_open [OF assms] by (simp add: ensure_run_transition_def del: coerce_run_status.simps(2))

lemma row_facts:
  assumes "db_inv d" and "find_run d i = Some row"
  shows "run_id row = i" "row_status row \<in> set AGENT_RUN_DB_STATUS_VALUES" "distinct (run_ids d)"
    "event_fk_ok d i (root_run_id row)" "fence_ok row" "row \<in> set (runs d)" "0 < i"
proof -
  from find_run_SomeD [OF assms(2)] show row: "run_id row = i" "row \<in> set (runs d)" by simp_all
  with assms(1) have ok: "row_ok d row" by (simp add: db_inv_def)
  then obtain q where "root_run_id row = Some q" "q \<in> set (run_ids d)"
    by (auto simp: row_ok_def)
  moreover have "i \<in> set (run_ids d)" using row by (auto simp: run_ids_def)
  ultimately show "event_fk_ok d i (root_run_id row)"
    by (simp add: event_fk_ok_def or_id_def)
  show "row_status row \<in> set AGENT_RUN_DB_STATUS_VALUES" "fence_ok row" "0 < i"
    using ok row by (auto simp: row_ok_def)
  show "distinct (run_ids d)" using assms(1) by (simp add: db_inv_def)
qed

text \<open>The branch that moves the run.\<close>

lemma locked_transition_commits:
  assumes inv: "db_inv (work s)" and row: "find_run (work s) i = Some row"
    and step: "ensure_run_transition (StatusEnum (row_run_status row)) a (so_allow_requeue opts)
        = Inr (current, target)" "current \<noteq> target"
    and claim: "holds_claim s row (so_claim opts)" "expectations_met row opts"
    and fresh: "list_all (fresh_event (work s)) (so_before opts @ so_after opts)"
  shows "set_status_on_locked_run now hook row a opts s
    = (Inr (to_domain (moved_row now row target opts), True),
       publish s (apply_transition now hook row target opts (work s)))"
proof -
  note facts = row_facts [OF inv row]
  have cur: "current = row_run_status row" and allowed: "target \<in> set (ALLOWED_RUN_TRANSITIONS current)"
    using step ensure_run_transition_InrD [OF step(1)] by auto
  have opn: "row_run_status row \<notin> set TERMINAL_RUN_STATUSES" "row_run_status row \<in> set OPEN_RUN_STATUSES"
    using allowed cur by (cases "row_run_status row"; auto simp: run_status_groups)+
  have st: "row_status row = rs_value current"
    using open_status_text [OF opn(2) facts(2)] cur by simp
  have ens: "ensure_run_transition (StatusText (Some (row_status row))) a (so_allow_requeue opts)
      = Inr (current, target)"
    using step(1) ensure_text [OF opn(2)] by simp
  let ?p = "transition_predicate (run_id row) current opts"
  let ?f = "transition_values target (transition_time now opts) (so_metadata opts) row"
  have pred: "?p row"
    using claim st by (auto simp: transition_predicate_def holds_claim_def expectations_met_def
        split: option.splits)
  have find: "find_run (work s) (run_id row) = Some row" using row facts(1) by simp
  have upd: "sql_update ?p ?f s = (Inr True, s\<lparr>work := replace_run (moved_row now row target opts) (work s)\<rparr>)"
    using update_is_replace [where p = ?p and f = ?f, OF facts(3) find pred] 
    by (simp add: sql_update_def moved_row_def transition_predicate_def)
  let ?s = "s\<lparr>work := replace_run (moved_row now row target opts) (work s)\<rparr>"
  have rec: "record_transition now hook (run_id row) (root_run_id row) current target opts ?s
    = (Inr (to_domain (moved_row now row target opts)),
       publish s (apply_transition now hook row target opts (work s)))"
  proof -
    have "list_all (fresh_event (work ?s)) (so_before opts @ so_after opts)"
      using fresh by (simp add: fresh_event_def event_fk_ok_def list_all_iff)
    moreover have "event_fk_ok (work ?s) (run_id row) (root_run_id row)"
      using facts(1,4) by (simp add: event_fk_ok_def)
    moreover have "find_run (work ?s) (run_id row) = Some (moved_row now row target opts)"
      using find by (simp add: find_replace_run)
    ultimately show ?thesis
      by (subst record_transition_eq)
         (simp_all add: apply_transition_def transition_events_def cur Let_def)
  qed
  have c1: "raise_if_lost (run_id row) (so_claim opts) s = (Inr (), s)"
    using claim(1) by (auto simp: raise_if_lost_def holds_claim_def prog_defs pbind_eq split: option.splits)
  have c2: "(case so_claim opts of None \<Rightarrow> pret ()
      | Some c \<Rightarrow> if \<not> claim_matches c row \<or> row_run_status row \<in> set TERMINAL_RUN_STATUSES
          then pbind (mark_lost c) (\<lambda>_. praise (ExecutionClaimLost (run_id row) (cl_attempt c)))
          else pret ()) s = (Inr (), s)"
    using claim(1) opn(1) by (auto simp: holds_claim_def claim_matches_def pret_def split: option.splits)
  show ?thesis
    unfolding set_status_on_locked_run_def Let_def transition_time_def [symmetric]
    by (simp add: pbind_eq c1 c2 ens step(2) preturn_result_def opn(1) upd rec pret_def)
qed

text \<open>The branches that do not.\<close>

lemma raise_if_lost_eq:
  "raise_if_lost i claim s = (case claim of None \<Rightarrow> (Inr (), s)
     | Some c \<Rightarrow> if c \<in> set (lost s) then (Inl (ExecutionClaimLost i (cl_attempt c)), s) else (Inr (), s))"
  by (simp add: raise_if_lost_def prog_defs pbind_eq split: option.split)

lemma locked_transition_terminal:
  assumes "row_run_status row \<in> set TERMINAL_RUN_STATUSES" and "so_claim opts = None"
  shows "set_status_on_locked_run now hook row a opts s = (Inr (to_domain row, False), s)"
  unfolding set_status_on_locked_run_def Let_def
  using assms by (simp add: pbind_eq raise_if_lost_eq pret_def)

lemma locked_transition_fenced:
  assumes "so_claim opts = Some c"
    and "c \<in> set (lost s) \<or> \<not> claim_matches c row \<or> row_run_status row \<in> set TERMINAL_RUN_STATUSES"
  shows "set_status_on_locked_run now hook row a opts s
    = (Inl (ExecutionClaimLost (run_id row) (cl_attempt c)),
       if c \<in> set (lost s) then s else s\<lparr>lost := c # lost s\<rparr>)"
  unfolding set_status_on_locked_run_def Let_def
  using assms by (auto simp: pbind_eq raise_if_lost_eq pret_def mark_lost_def praise_def)

lemma locked_gates:
  assumes "holds_claim s row claim" and "row_run_status row \<notin> set TERMINAL_RUN_STATUSES"
  shows "raise_if_lost (run_id row) claim s = (Inr (), s)"
    and "(case claim of None \<Rightarrow> pret ()
      | Some c \<Rightarrow> if \<not> claim_matches c row \<or> row_run_status row \<in> set TERMINAL_RUN_STATUSES
          then pbind (mark_lost c) (\<lambda>_. praise (ExecutionClaimLost (run_id row) (cl_attempt c)))
          else pret ()) s = (Inr (), s)"
  using assms by (auto simp: raise_if_lost_eq holds_claim_def claim_matches_def pret_def split: option.splits)

lemma terminal_not_open: "s \<in> set OPEN_RUN_STATUSES \<Longrightarrow> s \<notin> set TERMINAL_RUN_STATUSES"
  by (simp add: terminal_iff_not_open)

lemma locked_transition_rejected:
  assumes opn: "row_run_status row \<in> set OPEN_RUN_STATUSES" and claim: "holds_claim s row (so_claim opts)"
    and "ensure_run_transition (StatusEnum (row_run_status row)) a (so_allow_requeue opts) = Inl e"
  shows "set_status_on_locked_run now hook row a opts s = (Inl e, s)"
proof -
  note nt = terminal_not_open [OF opn]
  show ?thesis
    unfolding set_status_on_locked_run_def Let_def
    using assms(3) by (simp add: pbind_eq locked_gates [OF claim nt] nt ensure_text [OF opn] preturn_result_def)
qed

lemma locked_transition_same:
  assumes opn: "row_run_status row \<in> set OPEN_RUN_STATUSES" and claim: "holds_claim s row (so_claim opts)"
    and row: "find_run (work s) (run_id row) = Some row"
    and own: "\<And>c. so_claim opts = Some c \<Longrightarrow> cl_run_id c = run_id row"
    and "ensure_run_transition (StatusEnum (row_run_status row)) a (so_allow_requeue opts) = Inr (x, x)"
  shows "set_status_on_locked_run now hook row a opts s = (Inr (to_domain row, False), s)"
proof -
  note nt = terminal_not_open [OF opn]
  have chk: "(case so_claim opts of None \<Rightarrow> pret ()
      | Some c \<Rightarrow> pbind (assert_execution_claim c) (\<lambda>_. pret ())) s = (Inr (), s)"
    using claim row own nt
    by (auto simp: assert_execution_claim_def refresh_run_def prog_defs pbind_eq holds_claim_def
        claim_matches_def split: option.splits)
  show ?thesis
    unfolding set_status_on_locked_run_def Let_def
    using assms(5)
    by (simp add: pbind_eq locked_gates [OF claim nt] nt ensure_text [OF opn] preturn_result_def chk pret_def)
qed

text \<open>The state a transition leaves: the invariant holds, and the run has moved.\<close>

lemma apply_transition_result:
  assumes inv: "db_inv d" and row: "find_run d i = Some row"
    and step: "run_step (so_allow_requeue opts) (row_run_status row) target"
    and claim: "so_claim opts = None" "expectations_met row opts"
    and fresh: "list_all (fresh_event d) (so_before opts @ so_after opts)"
    and hook: "good_hook hook"
  shows "db_inv (apply_transition now hook row target opts d)"
    and "db_evolves d (apply_transition now hook row target opts d)"
    and "\<exists>r. find_run (apply_transition now hook row target opts d) i = Some r
           \<and> row_evolves (moved_row now row target opts) r"
proof -
  let ?s = "\<lparr>committed = d, work = d, auto_commit = False, lost = []\<rparr>"
  have ens: "ensure_run_transition (StatusEnum (row_run_status row)) (StatusEnum target) (so_allow_requeue opts)
      = Inr (row_run_status row, target)" "row_run_status row \<noteq> target"
    using step by (auto simp: run_step_iff)
  have res: "set_status_on_locked_run now h row (StatusEnum target) opts ?s
    = (Inr (to_domain (moved_row now row target opts), True), publish ?s (apply_transition now h row target opts d))" for h
    using locked_transition_commits [of ?s i row "StatusEnum target" opts _ target] inv row ens claim fresh
    by (simp add: holds_claim_def)
  have "sess_ok d ?s" using inv by (simp add: sess_ok_def)
  then have ok: "sess_ok d (publish ?s (apply_transition now h row target opts d))" if "good_hook h" for h
    using safeD [OF safe_set_status_on_locked_run [OF that]] res by (metis snd_conv)
  then have good: "db_inv (apply_transition now h row target opts d)
      \<and> db_evolves d (apply_transition now h row target opts d)" if "good_hook h" for h
    using that by (fastforce simp: sess_ok_def publish_def)
  then show "db_inv (apply_transition now hook row target opts d)"
    "db_evolves d (apply_transition now hook row target opts d)" using hook by blast+
  let ?d' = "apply_transition now (\<lambda>_ d. d) row target opts d"
  let ?row = "moved_row now row target opts"
  have "db_inv ?d'" using good [of "\<lambda>_ d. d"] by (simp add: good_hook_def)
  have id: "run_id row = i" using find_run_SomeD [OF row] by simp
  then have at: "find_run ?d' i = Some ?row"
    using row by (simp add: apply_transition_def Let_def find_replace_run)
  have "apply_transition now hook row target opts d = ?d' \<or>
      apply_transition now hook row target opts d = hook ?row ?d'"
    by (simp add: apply_transition_def Let_def)
  then have "db_evolves ?d' (apply_transition now hook row target opts d)"
    using hook \<open>db_inv ?d'\<close> by (auto simp: good_hook_def good_write_def)
  from db_evolvesD [OF this at] show "\<exists>r. find_run (apply_transition now hook row target opts d) i = Some r
           \<and> row_evolves ?row r" by blast
qed

section \<open>The public operations\<close>

lemma locked_run_eq:
  "locked_run i s = (case find_run (work s) i of None \<Rightarrow> (Inl (LookupError i), s) | Some r \<Rightarrow> (Inr r, s))"
  "require_run i s = (case find_run (work s) i of None \<Rightarrow> (Inl (LookupError i), s) | Some r \<Rightarrow> (Inr r, s))"
  "refresh_run i s = (case find_run (work s) i of None \<Rightarrow> (Inl (LookupError i), s) | Some r \<Rightarrow> (Inr r, s))"
  by (simp_all add: locked_run_def require_run_def refresh_run_def pbind_eq prog_defs split: option.split)

abbreviation call_opts :: "string option \<Rightarrow> execution_claim option \<Rightarrow> status_opts" where
  "call_opts reason claim \<equiv> default_opts\<lparr>so_reason := reason, so_claim := claim\<rparr>"

lemma call_opts_simps [simp]:
  "so_claim (call_opts reason claim) = claim" "so_reason (call_opts reason claim) = reason"
  "so_before default_opts = []" "so_after default_opts = []" "so_metadata default_opts = None"
  "so_allow_requeue default_opts = False" "so_transitioned_at default_opts = None"
  "expectations_met row (default_opts\<lparr>so_reason := reason, so_claim := claim\<rparr>)"
  "expectations_met row (default_opts\<lparr>so_reason := reason, so_claim := claim, so_metadata := md, so_allow_requeue := b\<rparr>)"
  by (simp_all add: default_opts_def expectations_met_def)

lemma set_status_eq:
  assumes "find_run (work s) i = Some row" and "\<not> names_failed a"
    and "\<And>c. claim = Some c \<Longrightarrow> c \<notin> set (lost s)"
  shows "set_status now hook i a reason claim s
    = (case set_status_on_locked_run now hook row a (call_opts reason claim) s of
        (Inl e, s') \<Rightarrow> (Inl e, s') | (Inr (run, _), s') \<Rightarrow> (Inr run, s'))"
proof -
  have "raise_if_lost i claim s = (Inr (), s)"
    using assms(3) by (auto simp: raise_if_lost_eq split: option.split)
  then show ?thesis
    using assms(1,2)
    by (simp add: set_status_def set_status_with_result_def pbind_eq locked_run_eq pret_def
        split: prod.split sum.split)
qed

lemma names_failed_enum [simp]: "names_failed (StatusEnum t) = (t = FAILED)"
  by (simp add: names_failed_def)

lemma holds_claimD: "holds_claim s row claim \<Longrightarrow> claim = Some c \<Longrightarrow> c \<notin> set (lost s)"
  by (simp add: holds_claim_def)

lemma run_step_ensure:
  "run_step rq a b \<Longrightarrow> ensure_run_transition (StatusEnum a) (StatusEnum b) rq = Inr (a, b)"
  "run_step rq a b \<Longrightarrow> a \<noteq> b"
  by (auto simp: run_step_iff)

lemma not_run_step_ensure:
  "\<not> run_step rq a b \<Longrightarrow> ensure_run_transition (StatusEnum a) (StatusEnum b) rq
     = (if b = a then Inr (a, a) else Inl (RunTransitionError (rs_value a) (rs_value b)))"
  by (auto simp: run_step_iff ensure_run_transition_def Let_def split: if_splits)

text \<open>
  \<open>set_status\<close> on a run that may take the step, by a caller that holds the run's claim or
  gives none, moves the run: the row is replaced, one \<open>run.status_changed\<close> event is appended with
  the next sequence number, the terminal hook runs for inbound triage runs, and under
  \<open>auto_commit\<close> the whole is committed.
\<close>

theorem set_status_moves:
  assumes "db_inv (work s)" and "find_run (work s) i = Some row"
    and "run_step False (row_run_status row) target" and "target \<noteq> FAILED"
    and "holds_claim s row claim"
  shows "set_status now hook i (StatusEnum target) reason claim s
    = (Inr (to_domain (moved_row now row target (call_opts reason claim))),
       publish s (apply_transition now hook row target (call_opts reason claim) (work s)))"
proof -
  have "set_status_on_locked_run now hook row (StatusEnum target) (call_opts reason claim) s
    = (Inr (to_domain (moved_row now row target (call_opts reason claim)), True),
       publish s (apply_transition now hook row target (call_opts reason claim) (work s)))"
    by (rule locked_transition_commits [OF assms(1,2)])
       (use assms(3,5) run_step_ensure in simp_all)
  then show ?thesis
    using set_status_eq [OF assms(2), of "StatusEnum target" claim] assms(4) holds_claimD [OF assms(5)]
    by simp
qed

text \<open>
  \<open>set_status\<close> without a claim never writes when the transition guard has no step: on a
  terminal run and on a run already in the requested status it answers the stored run, otherwise
  it raises the transition error; the session is left as it was.
\<close>

theorem set_status_refused:
  assumes "find_run (work s) i = Some row" and "\<not> run_step False (row_run_status row) target"
    and "target \<noteq> FAILED"
  shows "set_status now hook i (StatusEnum target) reason None s
    = (if row_run_status row \<in> set TERMINAL_RUN_STATUSES \<or> target = row_run_status row
       then Inr (to_domain row)
       else Inl (RunTransitionError (rs_value (row_run_status row)) (rs_value target)), s)"
proof -
  have id: "run_id row = i" using find_run_SomeD [OF assms(1)] by simp
  have "set_status_on_locked_run now hook row (StatusEnum target) (call_opts reason None) s
    = (if row_run_status row \<in> set TERMINAL_RUN_STATUSES \<or> target = row_run_status row
       then Inr (to_domain row, False)
       else Inl (RunTransitionError (rs_value (row_run_status row)) (rs_value target)), s)"
  proof (cases "row_run_status row \<in> set TERMINAL_RUN_STATUSES")
    case False
    then have opn: "row_run_status row \<in> set OPEN_RUN_STATUSES" by (simp add: terminal_iff_not_open)
    have "holds_claim s row (so_claim (call_opts reason None))" by (simp add: holds_claim_def)
    note rej = locked_transition_rejected [OF opn this] and same = locked_transition_same [OF opn this]
    show ?thesis
    proof (cases "target = row_run_status row")
      case True
      have "set_status_on_locked_run now hook row (StatusEnum target) (call_opts reason None) s
          = (Inr (to_domain row, False), s)"
        by (rule same [where x = target])
           (use True assms(1) id not_run_step_ensure [OF assms(2)] in simp_all)
      then show ?thesis using True by simp
    next
      case neq: False
      then show ?thesis
        using False not_run_step_ensure [OF assms(2)] by (simp add: rej)
    qed
  qed (simp add: locked_transition_terminal)
  then show ?thesis
    using set_status_eq [OF assms(1), of "StatusEnum target" None] assms(3) by simp
qed

text \<open>Failing a run.\<close>

definition failure_envelope :: "failure_category \<Rightarrow> failure_stage \<Rightarrow> exception_type option \<Rightarrow> pydict" where
  "failure_envelope category stage ex =
     (case run_failure_metadata category stage ex of Inr e \<Rightarrow> e
      | Inl _ \<Rightarrow> [(''category'', PyStr (category_value CAT_INTERNAL)),
          (''diagnostic_schema'', PyStr ''typed_v1''), (''stage'', PyStr (stage_value RUNNER_SETTLEMENT))])"

definition fail_opts ::
  "agent_run_row \<Rightarrow> failure_category \<Rightarrow> failure_stage \<Rightarrow> exception_type option \<Rightarrow> status_opts \<Rightarrow> status_opts" where
  "fail_opts row category stage ex opts =
     opts\<lparr>so_metadata := Some (dset (metadata row) ''failure'' (PyDict (failure_envelope category stage ex))),
          so_allow_requeue := False\<rparr>"

lemma fail_run_with_result_eq:
  assumes "find_run (work s) i = Some row" and "\<And>c. so_claim opts = Some c \<Longrightarrow> c \<notin> set (lost s)"
  shows "fail_run_with_result now hook i category stage ex opts s
    = set_status_on_locked_run now hook row (StatusEnum FAILED) (fail_opts row category stage ex opts) s"
proof -
  have "raise_if_lost i (so_claim opts) s = (Inr (), s)"
    using assms(2) by (auto simp: raise_if_lost_eq split: option.split)
  moreover have "run_failure_metadata CAT_INTERNAL RUNNER_SETTLEMENT None
      = Inr (failure_envelope CAT_INTERNAL UNKNOWN_STAGE None)"
    by (simp add: failure_envelope_def run_failure_metadata_def failure_diagnostic_metadata_def rbind_def)
  ultimately show ?thesis
    using assms(1)
    by (auto simp: fail_run_with_result_def pbind_eq locked_run_eq preturn_result_def fail_opts_def
        failure_envelope_def run_failure_metadata_def failure_diagnostic_metadata_def rbind_def Let_def)
qed

lemma failed_with_result_fenced:
  assumes "find_run (work s) i = Some row" and "so_claim opts = Some c"
    and "c \<in> set (lost s) \<or> \<not> claim_matches c row \<or> row_run_status row \<in> set TERMINAL_RUN_STATUSES"
  shows "fail_run_with_result now hook i category stage ex opts s
    = (Inl (ExecutionClaimLost i (cl_attempt c)), if c \<in> set (lost s) then s else s\<lparr>lost := c # lost s\<rparr>)"
proof (cases "c \<in> set (lost s)")
  case True
  then show ?thesis using assms(2) by (simp add: fail_run_with_result_def pbind_eq raise_if_lost_eq)
next
  case False
  then have "fail_run_with_result now hook i category stage ex opts s
      = set_status_on_locked_run now hook row (StatusEnum FAILED) (fail_opts row category stage ex opts) s"
    using assms(2) by (intro fail_run_with_result_eq [OF assms(1)]) simp
  also have "\<dots> = (Inl (ExecutionClaimLost i (cl_attempt c)), if c \<in> set (lost s) then s else s\<lparr>lost := c # lost s\<rparr>)"
    using assms(2,3) find_run_SomeD [OF assms(1)]
    by (subst locked_transition_fenced [where c = c]) (auto simp: fail_opts_def)
  finally show ?thesis .
qed

lemma set_status_with_result_fenced:
  assumes "find_run (work s) i = Some row" and "so_claim opts = Some c"
    and "c \<in> set (lost s) \<or> \<not> claim_matches c row \<or> row_run_status row \<in> set TERMINAL_RUN_STATUSES"
  shows "set_status_with_result now hook i a opts s
    = (Inl (ExecutionClaimLost i (cl_attempt c)), if c \<in> set (lost s) then s else s\<lparr>lost := c # lost s\<rparr>)"
proof (cases "names_failed a")
  case True
  then show ?thesis
    using failed_with_result_fenced [OF assms(1), of "opts\<lparr>so_metadata := None, so_allow_requeue := False\<rparr>" c] assms(2,3)
    by (simp add: set_status_with_result_def)
next
  case False
  then show ?thesis
    using locked_transition_fenced [OF assms(2,3)] assms find_run_SomeD [OF assms(1)]
    by (auto simp: set_status_with_result_def pbind_eq raise_if_lost_eq locked_run_eq)
qed

text \<open>
  C4: a caller whose execution claim is no longer current (lost, another token or attempt on the
  row, or the run already settled) cannot move the run to any status, \<open>failed\<close> and stored text included, whatever
  else it passes: \<open>set_status\<close>, \<open>set_status_with_result\<close> and \<open>fail_run\<close> raise \<open>ExecutionClaimLost\<close>, the claim is
  marked as lost and neither database of the session changes.
\<close>

theorem set_status_fenced:
  assumes "find_run (work s) i = Some row" and "so_claim opts = Some c"
    and "c \<in> set (lost s) \<or> \<not> claim_matches c row \<or> row_run_status row \<in> set TERMINAL_RUN_STATUSES"
  shows "set_status now hook i a reason (Some c) s
      = (Inl (ExecutionClaimLost i (cl_attempt c)), if c \<in> set (lost s) then s else s\<lparr>lost := c # lost s\<rparr>)
    \<and> set_status_with_result now hook i a opts s
      = (Inl (ExecutionClaimLost i (cl_attempt c)), if c \<in> set (lost s) then s else s\<lparr>lost := c # lost s\<rparr>)
    \<and> fail_run now hook i category stage ex reason (Some c) s
      = (Inl (ExecutionClaimLost i (cl_attempt c)), if c \<in> set (lost s) then s else s\<lparr>lost := c # lost s\<rparr>)"
  using set_status_with_result_fenced [OF assms(1) _ assms(3)] failed_with_result_fenced [OF assms(1) _ assms(3)] assms(2)
  by (simp add: set_status_def fail_run_def pbind_eq)

lemma open_may_fail:
  "a \<in> set OPEN_RUN_STATUSES \<Longrightarrow> run_step False a FAILED"
  by (rule run_step_settles) simp_all

text \<open>
  \<open>fail_run\<close> settles every open run, whatever category, stage and exception it is given: the
  run becomes \<open>failed\<close>, its token is cleared and its metadata carries the failure envelope; a
  request with the stage \<open>unknown\<close>, which the diagnostics reject, is recorded as an internal
  settlement failure instead of being lost.
\<close>

theorem fail_run_settles:
  assumes "db_inv (work s)" and "find_run (work s) i = Some row"
    and "row_run_status row \<in> set OPEN_RUN_STATUSES" and "holds_claim s row claim"
    and opts: "opts = fail_opts row category stage ex (call_opts reason claim)"
  shows "fail_run now hook i category stage ex reason claim s
      = (Inr (to_domain (moved_row now row FAILED opts)),
         publish s (apply_transition now hook row FAILED opts (work s)))
    \<and> dget (metadata (moved_row now row FAILED opts)) ''failure''
      = PyDict (if stage = UNKNOWN_STAGE then failure_envelope CAT_INTERNAL RUNNER_SETTLEMENT None
                else failure_envelope category stage ex)
    \<and> execution_token (moved_row now row FAILED opts) = None"
proof (intro conjI)
  have o: "so_claim opts = claim" "expectations_met row opts" "so_before opts = []" "so_after opts = []"
    "so_allow_requeue opts = False"
    by (simp_all add: opts fail_opts_def expectations_met_def default_opts_def)
  have "set_status_on_locked_run now hook row (StatusEnum FAILED) opts s
    = (Inr (to_domain (moved_row now row FAILED opts), True),
       publish s (apply_transition now hook row FAILED opts (work s)))"
    by (rule locked_transition_commits [OF assms(1,2)])
       (use assms(4) o run_step_ensure [OF open_may_fail [OF assms(3)]] in simp_all)
  then show "fail_run now hook i category stage ex reason claim s
    = (Inr (to_domain (moved_row now row FAILED opts)), publish s (apply_transition now hook row FAILED opts (work s)))"
    using fail_run_with_result_eq [OF assms(2), of "call_opts reason claim"] holds_claimD [OF assms(4)]
    by (simp add: fail_run_def pbind_eq opts pret_def)
  show "dget (metadata (moved_row now row FAILED opts)) ''failure''
      = PyDict (if stage = UNKNOWN_STAGE then failure_envelope CAT_INTERNAL RUNNER_SETTLEMENT None
                else failure_envelope category stage ex)"
    by (simp add: moved_row_def opts fail_opts_def failure_envelope_def run_failure_metadata_def
        failure_diagnostic_metadata_def rbind_def)
  show "execution_token (moved_row now row FAILED opts) = None"
    by (simp add: moved_row_def TERMINAL_RUN_STATUSES_def)
qed

section \<open>Interrupting a run\<close>

lemma interrupt_opts_simps [simp]:
  "so_claim (interrupt_opts row reason at details rq) = None"
  "so_allow_requeue (interrupt_opts row reason at details rq) = rq"
  "so_transitioned_at (interrupt_opts row reason at details rq) = Some (Aware at)"
  "expectations_met row (interrupt_opts row reason at details rq)"
  "holds_claim s row' None"
  by (simp_all add: interrupt_opts_def Let_def default_opts_def expectations_met_def holds_claim_def)

lemma interrupt_events_fresh:
  assumes "event_fk_ok d (run_id row) (root_run_id row)"
  shows "list_all (fresh_event d) (so_before (interrupt_opts row reason at details rq)
     @ so_after (interrupt_opts row reason at details rq))"
  using assms by (simp add: interrupt_opts_def Let_def fresh_event_def mk_event_def)

lemma interrupted_row [simp]:
  "interruption_count (moved_row now row target (interrupt_opts row reason at details rq))
    = interruption_count row + 1"
  "target \<in> set TERMINAL_RUN_STATUSES \<or> target = QUEUED \<Longrightarrow>
    execution_token (moved_row now row target (interrupt_opts row reason at details rq)) = None"
  by (auto simp: interruption_count_def moved_row_def interrupt_opts_def Let_def interruption_metadata_def
      coerce_int_def)

text \<open>
  C5: an interrupted run whose interruption count is below the cap goes back to the queue: it is
  \<open>queued\<close>, its token is cleared so that the abandoned attempt is fenced off, the count grows by
  one, and \<open>run.interrupted\<close>, \<open>run.status_changed\<close> and \<open>run.requeued\<close> are appended in that order.
\<close>

theorem interrupt_requeues:
  assumes inv: "db_inv (work s)" and row: "find_run (work s) i = Some row"
    and proc: "row_run_status row \<in> set PROCESSING_RUN_STATUSES"
    and count: "interruption_count row < max_interruption_requeues env"
    and opts: "opts = interrupt_opts row reason (interrupt_time now at) details True"
  shows "interrupt_and_requeue now env hook continuation i reason at details s
      = (Inr (to_domain (moved_row now row QUEUED opts), True),
         publish s (apply_transition now hook row QUEUED opts (work s)))
    \<and> interruption_count (moved_row now row QUEUED opts) = interruption_count row + 1
    \<and> execution_token (moved_row now row QUEUED opts) = None"
proof (intro conjI)
  let ?s = "s\<lparr>auto_commit := False\<rparr>"
  note facts = row_facts [OF inv row]
  have step: "run_step True (row_run_status row) QUEUED"
    using proc by (auto simp: run_step_allowed PROCESSING_RUN_STATUSES_def)
  have inner: "set_status_on_locked_run now hook row (StatusEnum QUEUED) opts ?s
    = (Inr (to_domain (moved_row now row QUEUED opts), True),
       publish ?s (apply_transition now hook row QUEUED opts (work s)))"
    using locked_transition_commits [of ?s i row "StatusEnum QUEUED" opts] inv row
      run_step_ensure [OF step] interrupt_events_fresh facts(1,4)
    by (simp add: opts)
  show "interrupt_and_requeue now env hook continuation i reason at details s
      = (Inr (to_domain (moved_row now row QUEUED opts), True),
         publish s (apply_transition now hook row QUEUED opts (work s)))"
    using row count run_step_ensure [OF step] inner
    by (simp add: interrupt_and_requeue_def Let_def pbind_eq locked_run_eq pret_def opts
        interrupt_transaction_def prog_defs ptry_finally_def pon_error_def publish_def)
qed (simp_all add: opts)

section \<open>Programs that return\<close>

text \<open>
  \<open>steady F m\<close>: on a database with the invariant that holds the runs \<open>F\<close>, the program returns and
  only extends the working copy.
\<close>

definition steady :: "int set \<Rightarrow> 'a prog \<Rightarrow> bool" where
  "steady F m = (\<forall>s. db_inv (work s) \<and> F \<subseteq> set (run_ids (work s)) \<longrightarrow>
     (\<exists>x t. m s = (Inr x, t) \<and> db_inv (work t) \<and> db_evolves (work s) (work t)))"

named_theorems steady_intros \<open>rules that show a program returns\<close>

lemma steadyE:
  assumes "steady F m" and "db_inv (work s)" and "F \<subseteq> set (run_ids (work s))"
  obtains x t where "m s = (Inr x, t)" and "db_inv (work t)" and "db_evolves (work s) (work t)"
  using assms by (auto simp: steady_def)

lemma db_evolves_ids: "db_evolves a b \<Longrightarrow> set (run_ids a) \<subseteq> set (run_ids b)"
  by (metis db_evolves_def find_run_None option.exhaust option.simps(3) subsetI)

lemma steady_bind_val:
  assumes m: "steady F m" and val: "\<And>s x t. db_inv (work s) \<Longrightarrow> F \<subseteq> set (run_ids (work s)) \<Longrightarrow> m s = (Inr x, t) \<Longrightarrow> Q x"
    and f: "\<And>x. Q x \<Longrightarrow> steady F (f x)"
  shows "steady F (pbind m f)"
  unfolding steady_def
proof (intro allI impI, elim conjE)
  fix s :: session assume s: "db_inv (work s)" "F \<subseteq> set (run_ids (work s))"
  from m s obtain x t where t: "m s = (Inr x, t)" "db_inv (work t)" "db_evolves (work s) (work t)"
    by (rule steadyE)
  moreover have "F \<subseteq> set (run_ids (work t))" using s(2) db_evolves_ids [OF t(3)] by blast
  ultimately obtain y u where "f x t = (Inr y, u)" "db_inv (work u)" "db_evolves (work t) (work u)"
    using f [OF val [OF s t(1)]] by (auto elim: steadyE)
  then show "\<exists>y u. pbind m f s = (Inr y, u) \<and> db_inv (work u) \<and> db_evolves (work s) (work u)"
    using t by (auto simp: pbind_eq intro: db_evolves_trans)
qed

lemma steady_bind [steady_intros]: "steady F m \<Longrightarrow> (\<And>x. steady F (f x)) \<Longrightarrow> steady F (pbind m f)"
  by (rule steady_bind_val [where Q = "\<lambda>_. True"]) simp_all

lemma steady_basic [steady_intros]:
  "steady F (pret x)" "steady F (pread g)" "steady F (set_auto_commit b)" "steady F get_auto_commit"
  by (simp_all add: steady_def prog_defs)

lemma steady_commit [steady_intros]: "steady F commit" "steady F commit_if_auto"
  by (simp_all add: steady_def prog_defs)

lemma steady_pwrite: "(\<And>d. good_write f d) \<Longrightarrow> steady F (pwrite f)"
  by (auto simp: steady_def prog_defs good_write_def)

lemma steady_cases [steady_intros]:
  "(p \<Longrightarrow> steady F a) \<Longrightarrow> (\<not> p \<Longrightarrow> steady F b) \<Longrightarrow> steady F (if p then a else b)"
  "steady F a \<Longrightarrow> (\<And>x. o' = Some x \<Longrightarrow> steady F (f x)) \<Longrightarrow> steady F (case o' of None \<Rightarrow> a | Some x \<Rightarrow> f x)"
  "steady F a \<Longrightarrow> (\<And>x xs. l = x # xs \<Longrightarrow> steady F (g x xs)) \<Longrightarrow> steady F (case l of [] \<Rightarrow> a | x # xs \<Rightarrow> g x xs)"
  by (simp_all split: option.split list.split)

lemma steady_append_event:
  assumes "ev_sequence_no e = None" and "ev_run_id e \<in> F" and "or_id (ev_root_run_id e) (ev_run_id e) \<in> F"
  shows "steady F (append_event now e)"
  unfolding steady_def
proof (intro allI impI)
  fix s :: session assume s: "db_inv (work s) \<and> F \<subseteq> set (run_ids (work s))"
  then have fr: "fresh_event (work s) e"
    using assms by (auto simp: fresh_event_def event_fk_ok_def)
  from append_event_fresh [OF fr] add_event_good [OF fr] s
  show "\<exists>x t. append_event now e s = (Inr x, t) \<and> db_inv (work t) \<and> db_evolves (work s) (work t)"
    by (auto simp: good_write_def)
qed

lemma steady_cycle_text [steady_intros]: "steady F (safe_cycle_provider_error_text i t)"
  unfolding safe_cycle_provider_error_text_def Let_def by (intro steady_intros)

lemma steady_append_artifact:
  assumes "ar_run_id a \<in> F" and "or_id (ar_root_run_id a) (ar_run_id a) \<in> F"
  shows "steady F (append_artifact now a)"
proof -
  let ?root = "or_id (ar_root_run_id a) (ar_run_id a)"
  let ?Q = "\<lambda>row. aw_run_id row = ar_run_id a \<and> aw_root_run_id row = ?root"
  have event: "steady F (append_event now (artifact_created_event row))" if "?Q row" for row
    using that assms
    by (intro steady_append_event) (auto simp: artifact_created_event_def mk_event_def or_id_def)
  have row: "steady F (add_artifact_row now a v)" for v
    unfolding add_artifact_row_def by (intro steady_intros steady_pwrite good_artifacts)
  have val: "?Q x" if "add_artifact_row now a v s = (Inr x, t)" for x v s t
    using that by (auto simp: add_artifact_row_def pbind_eq prog_defs insert_artifact_def)
  have put: "steady F (pbind (add_artifact_row now a v) (\<lambda>row.
      pbind (append_event now (artifact_created_event row)) (\<lambda>_. pret row)))" for v
    by (rule steady_bind_val [where Q = ?Q, OF row]) (erule val, intro steady_intros event)
  show ?thesis
    unfolding append_artifact_def
  proof (rule steady_bind)
    fix v
    show "steady F (pbind (pread (\<lambda>d. event_fk_ok d (ar_run_id a) (ar_root_run_id a))) (\<lambda>ok.
       if \<not> ok then praise IntegrityError
       else pbind (add_artifact_row now a v) (\<lambda>row.
         pbind (append_event now (artifact_created_event row)) (\<lambda>_. pret row))))"
      using assms put
      by (intro steady_bind_val [where Q = "\<lambda>ok. ok"] steady_basic) (auto simp: prog_defs event_fk_ok_def)
  qed (intro steady_intros)
qed

lemma steady_append_final_answer_once:
  assumes "i \<in> F" and "or_id root i \<in> F"
  shows "steady F (append_final_answer_once now i txt root)"
  unfolding append_final_answer_once_def
  by (intro steady_intros steady_append_artifact) (simp_all add: assms final_answer_artifact_def)

lemma steady_settle_exhausted:
  assumes "good_hook continuation" and "run_id row \<in> F" and "or_id (root_run_id row) (run_id row) \<in> F"
  shows "steady F (settle_exhausted now continuation row)"
  unfolding settle_exhausted_def Let_def has_event_type_def
  by (intro steady_intros steady_append_final_answer_once steady_append_event steady_pwrite)
     (use assms in \<open>simp_all add: mk_event_def good_hook_def\<close>)

text \<open>
  When the interruption cap is exhausted the run is settled instead of requeued: from every
  open status it becomes \<open>expired\<close> with the count raised by one, the call returns, and in the
  database it leaves the run is \<open>expired\<close>, whatever the continuation service did.
\<close>

theorem interrupt_exhausted_expires:
  assumes inv: "db_inv (work s)" and row: "find_run (work s) i = Some row"
    and opn: "row_run_status row \<in> set OPEN_RUN_STATUSES"
    and count: "max_interruption_requeues env \<le> interruption_count row"
    and hooks: "good_hook hook" "good_hook continuation"
    and opts: "opts = interrupt_opts row reason (interrupt_time now at) details False"
  shows "\<exists>s' row'. interrupt_and_requeue now env hook continuation i reason at details s
      = (Inr (to_domain (moved_row now row EXPIRED opts), True), s')
    \<and> interruption_count (moved_row now row EXPIRED opts) = interruption_count row + 1
    \<and> find_run (work s') i = Some row' \<and> row_run_status row' = EXPIRED \<and> execution_token row' = None"
proof -
  note facts = row_facts [OF inv row]
  let ?s = "s\<lparr>committed := work s, auto_commit := False\<rparr>"
  let ?row = "moved_row now row EXPIRED opts"
  let ?d = "apply_transition now hook row EXPIRED opts (work s)"
  let ?t = "publish ?s ?d"
  have step: "run_step False (row_run_status row) EXPIRED"
    using opn by (intro run_step_settles) simp_all
  have fresh: "list_all (fresh_event (work s)) (so_before opts @ so_after opts)"
    using facts(1,4) unfolding opts by (intro interrupt_events_fresh) simp
  have inner: "set_status_on_locked_run now hook row (StatusEnum EXPIRED) opts ?s
    = (Inr (to_domain ?row, True), ?t)"
    using locked_transition_commits [of ?s i row "StatusEnum EXPIRED" opts] inv row
      run_step_ensure [OF step] fresh
    by (simp add: opts)
  have pre: "so_claim opts = None" "expectations_met row opts" "run_step (so_allow_requeue opts) (row_run_status row) EXPIRED"
    using step by (simp_all add: opts)
  note res = apply_transition_result [OF inv row pre(3,1,2) fresh hooks(1), of now]
  from res(3) obtain r where r: "find_run ?d i = Some r" "row_evolves ?row r" by blast
  have ids: "{run_id row, or_id (root_run_id row) (run_id row)} \<subseteq> set (run_ids ?d)"
    using facts(1,4) db_evolves_ids [OF res(2)] by (auto simp: event_fk_ok_def)
  obtain u where u: "settle_exhausted now continuation row ?t = (Inr (), u)" "db_inv (work u)"
      "db_evolves ?d (work u)"
    by (rule steadyE [OF steady_settle_exhausted [OF hooks(2), of row "{run_id row, or_id (root_run_id row) (run_id row)}"], of ?t])
       (use res(1) ids in simp_all)
  from db_evolvesD [OF u(3) r(1)] obtain r' where r': "find_run (work u) i = Some r'" "row_evolves r r'" .
  have "row_evolves ?row r'" using r(2) r'(2) by (rule row_evolves_trans)
  then have ex: "row_run_status r' = EXPIRED"
    by (auto simp: row_evolves_def TERMINAL_RUN_STATUSES_def intro: row_run_status_value)
  moreover have "fence_ok r'" using row_facts [OF u(2) r'(1)] by simp
  moreover have "row_status r' = rs_value EXPIRED"
    using \<open>row_evolves ?row r'\<close> by (simp add: row_evolves_def TERMINAL_RUN_STATUSES_def)
  ultimately have tok: "execution_token r' = None" by (auto simp: fence_ok_def)
  have "\<not> so_allow_requeue opts" by (simp add: opts)
  then have "\<exists>s'. interrupt_and_requeue now env hook continuation i reason at details s
      = (Inr (to_domain ?row, True), s') \<and> work s' = work u"
    using row count run_step_ensure [OF step] inner u(1)
    by (simp add: interrupt_and_requeue_def Let_def pbind_eq locked_run_eq pret_def opts [symmetric]
        commit_event_boundary_def lock_terminal_boundary_def
        interrupt_transaction_def prog_defs ptry_finally_def pon_error_def)
  then show ?thesis using r'(1) ex tok by (auto simp: opts)
qed

section \<open>The audit log as an abstract machine\<close>

text \<open>
  Abstractly a run is its status and the list of moves it has made. \<open>status_log\<close> reads the moves
  back from the stored \<open>run.status_changed\<close> events; a transition of the store is one abstract step
  on its run and none on any other.
\<close>

definition status_log :: "db \<Rightarrow> int \<Rightarrow> (pyval \<times> pyval) list" where
  "status_log d i =
     map (\<lambda>e. (dget (er_payload e) ''from_status'', dget (er_payload e) ''to_status''))
       (filter (\<lambda>e. er_type e = ''run.status_changed'') (run_events d i))"

definition abs_run :: "db \<Rightarrow> int \<Rightarrow> (run_status \<times> (pyval \<times> pyval) list) option" where
  "abs_run d i = map_option (\<lambda>r. (row_run_status r, status_log d i)) (find_run d i)"

definition status_move :: "run_status \<Rightarrow> run_status \<Rightarrow> pyval \<times> pyval" where
  "status_move a b = (PyStr (rs_value a), PyStr (rs_value b))"

definition no_status_event :: "run_event \<Rightarrow> bool" where
  "no_status_event e = (ev_type e \<noteq> ''run.status_changed'')"

lemma status_log_update [simp]:
  "status_log (replace_run row d) i = status_log d i"
  by (simp add: status_log_def)

lemma status_log_add_event:
  "status_log (add_event now e d) i = status_log d i
    @ (if ev_run_id e = i \<and> ev_type e = ''run.status_changed''
       then [(dget (ev_payload e) ''from_status'', dget (ev_payload e) ''to_status'')] else [])"
  by (simp add: status_log_def run_events_def add_event_def insert_event_def)

lemma status_log_add_events [simp]:
  "list_all no_status_event es \<Longrightarrow> status_log (add_events now es d) i = status_log d i"
  by (induction es arbitrary: d) (simp_all add: status_log_add_event no_status_event_def)

lemma status_changed_payload [simp]:
  "dget (ev_payload (status_changed_event rid f t root reason)) ''from_status'' = PyStr f"
  by (simp add: status_changed_event_def mk_event_def Let_def split: option.split)

lemma applied_transition_log:
  assumes "find_run d (run_id row) = Some row" and "list_all no_status_event (so_before opts @ so_after opts)"
    and "\<And>r d. abs_run (hook r d) = abs_run d"
  shows "abs_run (apply_transition now hook row target opts d)
    = (abs_run d)(run_id row \<mapsto> (target, status_log d (run_id row) @ [status_move (row_run_status row) target]))"
proof
  fix i
  show "abs_run (apply_transition now hook row target opts d) i = ((abs_run d)(run_id row \<mapsto>
        (target, status_log d (run_id row) @ [status_move (row_run_status row) target]))) i"
    using assms(1,2) by (simp add: apply_transition_def Let_def assms(3))
      (auto simp: abs_run_def find_replace_run transition_events_def status_log_add_event status_move_def)
qed

text \<open>The other way round: an UPDATE that matches shows that the claim and the expectations held.\<close>

lemma matched_predicate:
  assumes "distinct (run_ids d)" and "find_run d (run_id row) = Some row"
    and "list_ex (transition_predicate (run_id row) current opts) (runs d)"
  shows "transition_predicate (run_id row) current opts row"
proof -
  obtain r where "r \<in> set (runs d)" and r: "transition_predicate (run_id row) current opts r"
    using assms(3) by (auto simp: list_ex_iff)
  moreover have "run_id r = run_id row" using r by (simp add: transition_predicate_def)
  ultimately have "r = row" using find_run_unique [OF assms(1)] assms(2) by (metis option.inject)
  then show ?thesis using r by simp
qed

lemma update_nothing: "\<not> list_ex p (runs d) \<Longrightarrow> update_runs_where p f d = d"
  by (cases d) (auto simp: update_runs_where_def list_ex_iff intro: map_idI)

lemma locked_transition_other:
  assumes inv: "db_inv (work s)" and row: "find_run (work s) (run_id row) = Some row"
    and no: "\<And>current target. row_run_status row \<in> set OPEN_RUN_STATUSES \<Longrightarrow>
        ensure_run_transition (StatusText (Some (row_status row))) a (so_allow_requeue opts) = Inr (current, target) \<Longrightarrow>
        current \<noteq> target \<Longrightarrow> \<not> (holds_claim s row (so_claim opts) \<and> expectations_met row opts)"
  shows "(\<forall>run. fst (set_status_on_locked_run now hook row a opts s) \<noteq> Inr (run, True))
    \<and> work (snd (set_status_on_locked_run now hook row a opts s)) \<in> {work s, committed s}"
proof (cases "\<exists>current target. row_run_status row \<in> set OPEN_RUN_STATUSES \<and>
    ensure_run_transition (StatusText (Some (row_status row))) a (so_allow_requeue opts) = Inr (current, target) \<and> current \<noteq> target")
  case True
  then obtain current target where opn: "row_run_status row \<in> set OPEN_RUN_STATUSES" and
    ens: "ensure_run_transition (StatusText (Some (row_status row))) a (so_allow_requeue opts)
    = Inr (current, target)" "current \<noteq> target" by blast
  show ?thesis
  proof (cases "\<forall>c. so_claim opts = Some c \<longrightarrow> c \<notin> set (lost s)")
    case True
    have "\<not> list_ex (transition_predicate (run_id row) current opts) (runs (work s))"
    proof
      assume "list_ex (transition_predicate (run_id row) current opts) (runs (work s))"
      from matched_predicate [OF row_facts(3) [OF inv row] row this]
      have "holds_claim s row (so_claim opts)" and "expectations_met row opts"
        using True by (simp_all add: transition_predicate_def holds_claim_def expectations_met_def split: option.splits)
      then show False using no [OF opn ens] by blast
    qed
    then show ?thesis unfolding set_status_on_locked_run_def Let_def
      by (auto simp: update_nothing pbind_eq ens preturn_result_def sql_update_def rollback_def mark_lost_def prog_defs raise_if_lost_eq
          locked_run_eq split: option.splits)
  next
    case False
    then show ?thesis unfolding set_status_on_locked_run_def Let_def by (auto simp: pbind_eq raise_if_lost_eq)
  qed
next
  case False
  then show ?thesis unfolding set_status_on_locked_run_def Let_def
    by (auto simp: pbind_eq terminal_iff_not_open preturn_result_def mark_lost_def prog_defs raise_if_lost_eq assert_execution_claim_def
        locked_run_eq split: option.splits sum.splits)
qed


section \<open>Concrete runs\<close>

lemma ex_holds [simp]: "holds_claim ex_session ex_running (Some ex_claim)"
  by (simp add: holds_claim_def ex_claim_def ex_row_defs)

lemma ex_ids [simp]: "run_id ex_queued = 1" "run_id ex_running = 2" "run_id ex_done = 3"
  by (simp_all add: ex_row_defs)

lemma set_status_moves_witness:
  "set_status 500 ex_hook 2 (StatusEnum VERIFYING) (Some ''check'') (Some ex_claim) ex_session
    = (Inr (to_domain (moved_row 500 ex_running VERIFYING (call_opts (Some ''check'') (Some ex_claim)))),
       publish ex_session (apply_transition 500 ex_hook ex_running VERIFYING
         (call_opts (Some ''check'') (Some ex_claim)) ex_db))"
  using set_status_moves [of ex_session 2 ex_running VERIFYING "Some ex_claim" 500 ex_hook "Some ''check''"]
  by (simp add: run_step_allowed)

lemma set_status_refused_witness:
  "set_status 500 ex_hook 1 (StatusEnum COMPLETED) None None ex_session
    = (Inl (RunTransitionError ''queued'' ''completed''), ex_session)"
  using set_status_refused [of ex_session 1 ex_queued COMPLETED 500 ex_hook None]
  by (simp add: run_step_allowed TERMINAL_RUN_STATUSES_def)

lemma set_status_fenced_witness:
  "set_status 500 ex_hook 2 (StatusText (Some ''failed'')) None (Some ex_stale_claim) ex_session
      = (Inl (ExecutionClaimLost 2 0), ex_session\<lparr>lost := [ex_stale_claim]\<rparr>)
    \<and> fail_run 500 ex_hook 2 CAT_UPSTREAM AGENT_EXECUTION None None (Some ex_stale_claim) ex_session
      = (Inl (ExecutionClaimLost 2 0), ex_session\<lparr>lost := [ex_stale_claim]\<rparr>)"
  using set_status_fenced [of ex_session 2 ex_running "call_opts None (Some ex_stale_claim)" ex_stale_claim 500 ex_hook
      "StatusText (Some ''failed'')" None CAT_UPSTREAM AGENT_EXECUTION None]
  by (simp add: ex_stale_claim_def [THEN arg_cong, of cl_attempt])

lemma fail_run_settles_witness:
  "\<exists>opts. fail_run 500 ex_hook 2 CAT_UPSTREAM UNKNOWN_STAGE None None (Some ex_claim) ex_session
      = (Inr (to_domain (moved_row 500 ex_running FAILED opts)),
         publish ex_session (apply_transition 500 ex_hook ex_running FAILED opts ex_db))
    \<and> dget (metadata (moved_row 500 ex_running FAILED opts)) ''failure''
      = PyDict (failure_envelope CAT_INTERNAL RUNNER_SETTLEMENT None)"
  using fail_run_settles [of ex_session 2 ex_running "Some ex_claim" _ CAT_UPSTREAM UNKNOWN_STAGE None None 500 ex_hook,
      OF _ _ _ _ refl]
  by (auto simp: run_status_groups)

definition ex_env :: environ where
  "ex_env = (\<lambda>_. None)"

lemma ex_cap [simp]: "max_interruption_requeues ex_env = 3"
  by (simp add: max_interruption_requeues_def ex_env_def getenv_int_def)

lemma ex_count [simp]: "interruption_count ex_running = 1"
  by (simp add: interruption_count_def coerce_int_def ex_row_defs)

lemma interrupt_requeues_witness:
  "\<exists>opts. interrupt_and_requeue 500 ex_env ex_hook ex_hook 2 ''deploy'' None [] ex_session
      = (Inr (to_domain (moved_row 500 ex_running QUEUED opts), True),
         publish ex_session (apply_transition 500 ex_hook ex_running QUEUED opts ex_db))
    \<and> interruption_count (moved_row 500 ex_running QUEUED opts) = 2
    \<and> execution_token (moved_row 500 ex_running QUEUED opts) = None"
  using interrupt_requeues [of ex_session 2 ex_running ex_env _ "''deploy''" 500 None "[]" ex_hook ex_hook,
      OF _ _ _ _ refl]
  by (auto simp: run_status_groups)

lemma interrupt_exhausted_expires_witness:
  "\<exists>opts s' row'. interrupt_and_requeue 500 (ex_env(''AGENT_RUN_MAX_INTERRUPTION_REQUEUES'' := Some ''1''))
        ex_hook ex_hook 2 ''deploy'' None [] ex_session
      = (Inr (to_domain (moved_row 500 ex_running EXPIRED opts), True), s')
    \<and> find_run (work s') 2 = Some row' \<and> row_run_status row' = EXPIRED \<and> execution_token row' = None"
proof -
  have "max_interruption_requeues (ex_env(''AGENT_RUN_MAX_INTERRUPTION_REQUEUES'' := Some ''1'')) = 1"
    by code_simp
  then show ?thesis
    using interrupt_exhausted_expires [of ex_session 2 ex_running
        "ex_env(''AGENT_RUN_MAX_INTERRUPTION_REQUEUES'' := Some ''1'')" ex_hook ex_hook _ "''deploy''" 500 None "[]",
        OF _ _ _ _ _ _ refl]
    by (fastforce simp: run_status_groups)
qed

lemma ex_log [simp]: "status_log ex_db i = []"
  by (simp add: status_log_def run_events_def ex_db_def ex_created_def filter_empty_conv)

lemma ex_not_inbound [simp]: "\<not> inbound_triage (moved_row now ex_running target (call_opts reason claim))"
  by (simp add: inbound_triage_def moved_row_def ex_row_defs)

lemma ex_hook_neutral [simp]: "abs_run (ex_hook r d) = abs_run d"
proof
  fix i
  show "abs_run (ex_hook r d) i = abs_run d i"
    by (cases "find_run d i") (simp_all add: abs_run_def ex_hook_def status_log_def find_run_update row_run_status_def)
qed


section \<open>Provider errors in answers\<close>

text \<open>
  The text that a cycle run's final answer is stored with is never raw provider-error text: it
  is either the safe sentinel or a text that is not classified as a provider error.
\<close>

theorem cycle_answer_sanitised:
  assumes "find_run (work s) i = Some row"
    and "dget (metadata row) ''source'' = PyStr ''cycle'' \<or> py_truthy (dget (metadata row) ''cycle_run_id'')"
  shows "\<exists>t. safe_cycle_provider_error_text i answer s = (Inr t, s)
    \<and> (py_startswith t PROVIDER_ERROR_SENTINEL_PREFIX \<or> provider_error_kind t None = None)"
  using assms
  by (auto simp: safe_cycle_provider_error_text_def pbind_eq prog_defs Let_def sentinel_starts
      split: option.split)

definition ex_cycle_session :: session where
  "ex_cycle_session = ex_session\<lparr>work := ex_db\<lparr>runs := [ex_queued\<lparr>metadata := [(''source'', PyStr ''cycle'')]\<rparr>]\<rparr>\<rparr>"

lemma cycle_answer_sanitised_witness:
  "\<exists>t. safe_cycle_provider_error_text 1 ''HTTP 503 from provider, request 77'' ex_cycle_session = (Inr t, ex_cycle_session)
    \<and> (py_startswith t PROVIDER_ERROR_SENTINEL_PREFIX \<or> provider_error_kind t None = None)"
  by (rule cycle_answer_sanitised [where row = "ex_queued\<lparr>metadata := [(''source'', PyStr ''cycle'')]\<rparr>"])
     (simp_all add: ex_cycle_session_def find_run_def)

end
