(* ===== verification/Run_Creation.thy ===== *)
theory Run_Creation
  imports Run_Transitions
begin

text \<open>
  Admission of runs: \<open>create_run\<close> with its two idempotency keys, and \<open>create_child_run_with_result\<close>
  with the step lookup and the once-only \<open>run.child_created\<close> event of the parent. The argument
  \<open>other\<close> of an operation is what other sessions publish between its lookup and its insert: the
  rows that become visible to the unique indexes. The digest of a step key is the argument
  \<open>digest\<close> (SHA-256 in hexadecimal), a fresh creation token the argument \<open>token\<close>.
\<close>

section \<open>Keys and defaults\<close>

definition agent_run_deadline_seconds :: "environ \<Rightarrow> int" where
  "agent_run_deadline_seconds env = max 1 (getenv_int env ''AGENT_RUN_DEADLINE_SECONDS'' 900)"

definition creatable_run_statuses :: "run_status list" where
  "creatable_run_statuses = [QUEUED, STARTING]"

definition unsupported_status :: "string option \<Rightarrow> py_error" where
  "unsupported_status v = ValueError (''Unsupported initial run status: '' @ py_repr (opt_str v))"

definition creatable_run_status :: "status_arg \<Rightarrow> run_status result" where
  "creatable_run_status v =
     rbind (case v of
              StatusEnum s \<Rightarrow> Inr s
            | StatusText t \<Rightarrow>
                (case find_status (py_lower (py_strip (py_str (opt_str t)))) of
                   None \<Rightarrow> Inl (unsupported_status t) | Some s \<Rightarrow> Inr s))
       (\<lambda>s. if s \<notin> set creatable_run_statuses
             then Inl (ValueError (''Initial run status must be queued or starting, got '' @ repr_str (rs_value s)))
             else Inr s)"

definition nonempty :: "string \<Rightarrow> string option" where
  "nonempty s = (if s = [] then None else Some s)"

text \<open>\<open>_parent_step_key_hash\<close>.\<close>

definition hash_step_key :: "(string \<Rightarrow> string) \<Rightarrow> string option \<Rightarrow> string option" where
  "hash_step_key digest key =
     (let normalized = py_strip (case key of None \<Rightarrow> [] | Some k \<Rightarrow> k)
      in if normalized = [] then None else Some (digest normalized))"

text \<open>\<open>str(metadata.get(key) or "").strip()\<close>\<close>

definition md_text :: "pydict \<Rightarrow> string \<Rightarrow> string" where
  "md_text md key = py_strip (py_str (py_or (dget md key) (PyStr [])))"

definition SOURCE_IDEMPOTENCY_METADATA_KEYS :: "string list" where
  "SOURCE_IDEMPOTENCY_METADATA_KEYS = [''idempotency_key'', ''idempotencyKey'']"

definition SOURCE_KEY_PREFIXES :: "string list" where
  "SOURCE_KEY_PREFIXES = [''slack:'', ''chantier:'', ''worker:continuation:'', ''knowledge:'']"

definition source_name :: "pydict \<Rightarrow> string" where
  "source_name md =
     (let nested = (case dget md ''work_intake'' of PyDict w \<Rightarrow> md_text w ''source'' | _ \<Rightarrow> []);
          source = (if nested \<noteq> [] then nested else md_text md ''source'');
          bare = (if py_startswith source ''trigger:'' then py_strip (drop (length ''trigger:'') source)
                  else source)
      in take 80 (if bare = [] then ''unknown'' else bare))"

definition source_idempotency_parts :: "agent_run_request \<Rightarrow> (string \<times> string) option" where
  "source_idempotency_parts rq =
     (let md = rq_metadata rq;
          keys = map (md_text md) SOURCE_IDEMPOTENCY_METADATA_KEYS
      in case find (\<lambda>k. k \<noteq> []) keys of
           None \<Rightarrow> None
         | Some key \<Rightarrow>
             if \<not> list_ex (py_startswith key) SOURCE_KEY_PREFIXES then None
             else Some (source_name md, key))"

section \<open>Lookups\<close>

text \<open>\<open>ORDER BY id LIMIT 1\<close>.\<close>

definition first_by_id :: "(agent_run_row \<Rightarrow> bool) \<Rightarrow> db \<Rightarrow> agent_run_row option" where
  "first_by_id p d = (case sort_key run_id (filter p (runs d)) of [] \<Rightarrow> None | r # _ \<Rightarrow> Some r)"

definition run_for_source_idempotency ::
  "string \<Rightarrow> (string \<times> string) option \<Rightarrow> db \<Rightarrow> agent_run_row option" where
  "run_for_source_idempotency org parts d =
     (case parts of None \<Rightarrow> None
      | Some (scope, key) \<Rightarrow>
          if org = [] \<or> scope = [] \<or> key = [] then None
          else first_by_id (\<lambda>r. org_id r = Some org \<and> source_idempotency_scope r = Some scope
                 \<and> source_idempotency_key r = Some key) d)"

definition run_for_parent_step :: "int option \<Rightarrow> string option \<Rightarrow> db \<Rightarrow> agent_run_row option" where
  "run_for_parent_step parent hash d =
     (case (parent, hash) of
        (Some p, Some h) \<Rightarrow>
          if h = [] then None
          else first_by_id (\<lambda>r. parent_run_id r = Some p \<and> parent_step_key_hash r = Some h) d
      | _ \<Rightarrow> None)"

section \<open>Inserting a run\<close>

definition new_row ::
  "instant \<Rightarrow> environ \<Rightarrow> agent_run_request \<Rightarrow> run_status \<Rightarrow> (string \<times> string) option \<Rightarrow> string option
   \<Rightarrow> int \<Rightarrow> agent_run_row" where
  "new_row now env rq st parts hash i =
     \<lparr>run_id = i, trace_id = Some (trace_id_for_run_id i), org_id = Some (rq_org_id rq),
      user_id = rq_user_id rq, thread_id = rq_thread_id rq, parent_run_id = rq_parent_run_id rq,
      root_run_id = (case rq_root_run_id rq of None \<Rightarrow> Some i | Some root \<Rightarrow> Some root),
      profile = normalized_profile rq, recipe = normalized_recipe rq, input_message = rq_message rq,
      target_ref = rq_target_ref rq, workspace_ref = rq_workspace_ref rq,
      model_policy = rq_model_policy rq, context_summary = None, metadata = rq_metadata rq,
      created_at = now, started_at = (if st = STARTING then Some now else None),
      deadline_at = Some (case rq_deadline_at rq of Some t \<Rightarrow> assume_utc t
                          | None \<Rightarrow> now + seconds (agent_run_deadline_seconds env)),
      closeout_expires_at = None, expired_at = None, paused_at = None, completed_at = None,
      failed_at = None, canceled_at = None, updated_at = now, row_status = rs_value st,
      source_idempotency_scope = map_option fst parts, source_idempotency_key = map_option snd parts,
      parent_step_key_hash = hash, execution_token = None, execution_attempt = 0\<rparr>"

text \<open>The foreign keys, the check and the two unique constraints of \<open>agent_runs\<close>.\<close>

definition run_constraints_ok :: "agent_run_row \<Rightarrow> db \<Rightarrow> bool" where
  "run_constraints_ok row d =
     ((case parent_run_id row of None \<Rightarrow> True | Some p \<Rightarrow> p \<in> set (run_ids d))
      \<and> (case root_run_id row of None \<Rightarrow> True | Some q \<Rightarrow> q = run_id row \<or> q \<in> set (run_ids d))
      \<and> (parent_run_id row = None \<or> parent_step_key_hash row \<noteq> None)
      \<and> (case source_key row of None \<Rightarrow> True | Some k \<Rightarrow> k \<notin> set (keys_of source_key (runs d)))
      \<and> (case step_key row of None \<Rightarrow> True | Some k \<Rightarrow> k \<notin> set (keys_of step_key (runs d))))"

definition insert_run :: "agent_run_row \<Rightarrow> db \<Rightarrow> db" where
  "insert_run row d = d\<lparr>runs := runs d @ [row], next_run_id := next_run_id d + 1\<rparr>"

definition run_created_event :: "agent_run_row \<Rightarrow> run_status \<Rightarrow> run_event" where
  "run_created_event row st =
     run_ev (run_id row) ''run.created''
       [(''profile'', PyStr (profile_value (profile row))), (''recipe'', PyStr (recipe_value (recipe row))),
        (''status'', PyStr (rs_value st))] (root_run_id row)"

definition create_run ::
  "instant \<Rightarrow> environ \<Rightarrow> (db \<Rightarrow> db) \<Rightarrow> agent_run_request \<Rightarrow> status_arg \<Rightarrow> string option \<Rightarrow> agent_run prog" where
  "create_run now env other rq initial step_hash =
     pbind (preturn_result (creatable_run_status initial)) (\<lambda>st.
     let hash = nonempty (py_strip (case step_hash of None \<Rightarrow> [] | Some h \<Rightarrow> h));
         by_step = run_for_parent_step (rq_parent_run_id rq) hash;
         parts = (if rq_parent_run_id rq = None then source_idempotency_parts rq else None);
         by_source = run_for_source_idempotency (rq_org_id rq) parts
     in pbind (pread by_step) (\<lambda>existing. case existing of Some r \<Rightarrow> pret (to_domain r) | None \<Rightarrow>
        pbind (pread by_source) (\<lambda>existing. case existing of Some r \<Rightarrow> pret (to_domain r) | None \<Rightarrow>
        pbind (pwrite other) (\<lambda>_.
        pbind (pread (\<lambda>d. new_row now env rq st parts hash (next_run_id d))) (\<lambda>row.
        pbind (pread (run_constraints_ok row)) (\<lambda>ok.
          if \<not> ok
          then pbind (pread by_step) (\<lambda>existing. case existing of Some r \<Rightarrow> pret (to_domain r) | None \<Rightarrow>
               pbind (pread by_source) (\<lambda>existing. case existing of Some r \<Rightarrow> pret (to_domain r)
                 | None \<Rightarrow> praise IntegrityError))
          else pbind (pwrite (insert_run row)) (\<lambda>_.
               pbind (emit now (run_created_event row st)) (\<lambda>_. pret (to_domain row)))))))))"

section \<open>Inserting keeps the invariant\<close>

lemma keys_of_simps [simp]:
  "keys_of k [] = []"
  "keys_of k (r # rs) = (case k r of None \<Rightarrow> keys_of k rs | Some x \<Rightarrow> x # keys_of k rs)"
  by (simp_all add: keys_of_def List.map_filter_simps split: option.split)

lemma keys_of_append [simp]: "keys_of k (xs @ ys) = keys_of k xs @ keys_of k ys"
  by (induction xs) (simp_all split: option.split)

lemma in_keys_of: "x \<in> set (keys_of k rs) \<longleftrightarrow> (\<exists>r \<in> set rs. k r = Some x)"
  by (induction rs) (auto split: option.splits)

lemma keys_of_unique:
  assumes "distinct (keys_of k rs)" and "r \<in> set rs" and "q \<in> set rs"
    and "k r = Some x" and "k q = Some x"
  shows "r = q"
  using assms by (induction rs) (auto simp: in_keys_of split: option.splits)

lemma insert_run_simps [simp]:
  "run_ids (insert_run row d) = run_ids d @ [run_id row]" "runs (insert_run row d) = runs d @ [row]"
  "events (insert_run row d) = events d" "next_run_id (insert_run row d) = next_run_id d + 1"
  "next_event_id (insert_run row d) = next_event_id d"
  by (simp_all add: insert_run_def run_ids_def)

lemma find_insert_run:
  "find_run (insert_run row d) i = (case find_run d i of None \<Rightarrow> if run_id row = i then Some row else None
     | Some r \<Rightarrow> Some r)"
proof -
  have "find (\<lambda>r. run_id r = i) (rs @ [row]) = (case find (\<lambda>r. run_id r = i) rs of
      None \<Rightarrow> if run_id row = i then Some row else None | Some r \<Rightarrow> Some r)" for rs
    by (induction rs) auto
  then show ?thesis by (simp add: find_run_def)
qed

lemma new_row_simps [simp]:
  "run_id (new_row now env rq st parts hash i) = i"
  "row_status (new_row now env rq st parts hash i) = rs_value st"
  "parent_run_id (new_row now env rq st parts hash i) = rq_parent_run_id rq"
  "parent_step_key_hash (new_row now env rq st parts hash i) = hash"
  "execution_token (new_row now env rq st parts hash i) = None"
  "execution_attempt (new_row now env rq st parts hash i) = 0"
  "source_idempotency_scope (new_row now env rq st parts hash i) = map_option fst parts"
  "source_idempotency_key (new_row now env rq st parts hash i) = map_option snd parts"
  "org_id (new_row now env rq st parts hash i) = Some (rq_org_id rq)"
  "root_run_id (new_row now env rq st parts hash i) = (case rq_root_run_id rq of None \<Rightarrow> Some i | Some r \<Rightarrow> Some r)"
  "metadata (new_row now env rq st parts hash i) = rq_metadata rq"
  "row_run_status (new_row now env rq st parts hash i) = st"
  by (simp_all add: new_row_def row_run_status_def)

lemma row_ok_new:
  assumes "run_constraints_ok row d" and "row = new_row now env rq st parts hash (next_run_id d)"
    and "0 < next_run_id d"
  shows "row_ok (insert_run row d) row"
  using assms(1,3) unfolding assms(2)
  by (auto simp: row_ok_def run_constraints_ok_def fence_ok_def split: option.splits)

lemma row_ok_insert: "row_ok d r \<Longrightarrow> row_ok (insert_run row d) r"
  by (auto simp: row_ok_def)

lemma insert_run_good:
  assumes ok: "run_constraints_ok row d" and row: "row = new_row now env rq st parts hash (next_run_id d)"
  shows "good_write (insert_run row) d"
  unfolding good_write_def
proof (intro impI conjI)
  assume inv: "db_inv d"
  have id: "run_id row = next_run_id d" by (simp add: row)
  have fresh: "run_id row \<notin> set (run_ids d)"
    using inv by (auto simp: id db_inv_def row_ok_def run_ids_def)
  have "keys_ok (insert_run row d)"
    using ok inv by (auto simp: db_inv_def keys_ok_def run_constraints_ok_def split: option.splits)
  moreover have "row_ok (insert_run row d) r" if "r \<in> set (runs (insert_run row d))" for r
    using that inv row_ok_new [OF ok row] row_ok_insert by (auto simp: db_inv_def)
  moreover have "events_ok (insert_run row d)"
    using inv by (auto simp: db_inv_def events_ok_def)
  ultimately show "db_inv (insert_run row d)"
    using inv fresh by (simp add: db_inv_def)
  show "db_evolves d (insert_run row d)"
    by (auto simp: db_evolves_def find_insert_run)
qed

text \<open>A value read, a constraint checked and a write that is good under it, in one go.\<close>

lemma safe_checked_write:
  assumes "\<And>d. P (f d) d \<Longrightarrow> good_write (g (f d)) d" and "safe a" and "\<And>x. safe (k x)"
  shows "safe (pbind (pread f) (\<lambda>x. pbind (pread (P x)) (\<lambda>ok.
           if \<not> ok then a else pbind (pwrite (g x)) (\<lambda>_. k x))))"
  unfolding safe_def
proof (intro allI impI)
  fix c s assume s: "sess_ok c s"
  show "sess_ok c (snd (pbind (pread f) (\<lambda>x. pbind (pread (P x)) (\<lambda>ok.
           if \<not> ok then a else pbind (pwrite (g x)) (\<lambda>_. k x))) s))"
  proof (cases "P (f (work s)) (work s)")
    case True
    then have "sess_ok c (s\<lparr>work := g (f (work s)) (work s)\<rparr>)"
      using assms(1) s by (auto simp: sess_ok_def good_write_def intro: db_evolves_trans)
    from safeD [OF assms(3) this] True show ?thesis by (simp add: pbind_eq prog_defs)
  next
    case False
    with safeD [OF assms(2) s] show ?thesis by (simp add: pbind_eq prog_defs)
  qed
qed

lemma safe_create_run:
  assumes "\<And>d. good_write other d"
  shows "safe (create_run now env other rq initial step_hash)"
  unfolding create_run_def Let_def
  by (intro safe_checked_write safe_intros safe_pwrite assms insert_run_good) (assumption | rule refl)+

section \<open>What \<open>create_run\<close> answers\<close>

definition admission_hash :: "string option \<Rightarrow> string option" where
  "admission_hash step_hash = nonempty (py_strip (case step_hash of None \<Rightarrow> [] | Some h \<Rightarrow> h))"

definition admission_key :: "agent_run_request \<Rightarrow> (string \<times> string) option" where
  "admission_key rq = (if rq_parent_run_id rq = None then source_idempotency_parts rq else None)"

text \<open>The run an idempotency key of the request already names.\<close>

definition existing_run :: "agent_run_request \<Rightarrow> string option \<Rightarrow> db \<Rightarrow> agent_run_row option" where
  "existing_run rq step_hash d =
     (case run_for_parent_step (rq_parent_run_id rq) (admission_hash step_hash) d of
        Some r \<Rightarrow> Some r
      | None \<Rightarrow> run_for_source_idempotency (rq_org_id rq) (admission_key rq) d)"

definition admitted_row ::
  "instant \<Rightarrow> environ \<Rightarrow> agent_run_request \<Rightarrow> run_status \<Rightarrow> string option \<Rightarrow> db \<Rightarrow> agent_run_row" where
  "admitted_row now env rq st step_hash d =
     new_row now env rq st (admission_key rq) (admission_hash step_hash) (next_run_id d)"

definition admit :: "instant \<Rightarrow> agent_run_row \<Rightarrow> run_status \<Rightarrow> db \<Rightarrow> db" where
  "admit now row st d = add_event now (run_created_event row st) (insert_run row d)"

lemma created_event_fresh:
  assumes "run_constraints_ok row d"
  shows "fresh_event (insert_run row d) (run_created_event row st)"
  using assms
  by (auto simp: run_created_event_def fresh_event_def event_fk_ok_def mk_event_def run_constraints_ok_def
      or_id_def split: option.splits)

lemma create_run_eq:
  "create_run now env other rq initial step_hash s =
    (case creatable_run_status initial of Inl e \<Rightarrow> (Inl e, s)
     | Inr st \<Rightarrow>
       (case existing_run rq step_hash (work s) of Some r \<Rightarrow> (Inr (to_domain r), s)
        | None \<Rightarrow>
          (let d = other (work s); row = admitted_row now env rq st step_hash d
           in if run_constraints_ok row d then (Inr (to_domain row), publish s (admit now row st d))
              else (case existing_run rq step_hash d of
                      Some r \<Rightarrow> (Inr (to_domain r), s\<lparr>work := d\<rparr>)
                    | None \<Rightarrow> (Inl IntegrityError, s\<lparr>work := d\<rparr>)))))"
proof -
  have ev: "emit now (run_created_event row st) (s\<lparr>work := insert_run row d\<rparr>)
      = (Inr (), publish s (admit now row st d))" if "run_constraints_ok row d" for row st d
    using emit_fresh [of "s\<lparr>work := insert_run row d\<rparr>", OF _] created_event_fresh [OF that]
    by (simp add: admit_def)
  show ?thesis
    unfolding create_run_def Let_def admission_hash_def [symmetric] admission_key_def [symmetric]
      admitted_row_def [symmetric]
    by (simp add: pbind_eq [of "preturn_result r" for r] pbind_eq [of "pread f" for f]
        pbind_eq [of "pwrite f" for f] pbind_eq [of "emit now e" for e] prog_defs existing_run_def ev
        split: option.split sum.split)
qed

lemma first_by_id_SomeD:
  assumes "first_by_id p d = Some r" shows "r \<in> set (runs d) \<and> p r"
proof -
  from assms obtain rs where "sort_key run_id (filter p (runs d)) = r # rs"
    by (auto simp: first_by_id_def split: list.splits)
  then have "r \<in> set (sort_key run_id (filter p (runs d)))" by simp
  then show ?thesis by simp
qed

lemma first_by_id_None: "first_by_id p d = None \<longleftrightarrow> (\<forall>r \<in> set (runs d). \<not> p r)"
proof -
  have "first_by_id p d = None \<longleftrightarrow> set (sort_key run_id (filter p (runs d))) = {}"
    by (cases "sort_key run_id (filter p (runs d))") (simp_all add: first_by_id_def)
  then show ?thesis by auto
qed

section \<open>Idempotent admission\<close>

text \<open>
  The rows that carry the idempotency key of a request: its source key for a root request, its
  step key for a child request.
\<close>

definition keyed :: "agent_run_request \<Rightarrow> string option \<Rightarrow> agent_run_row \<Rightarrow> bool" where
  "keyed rq step_hash r =
     (case rq_parent_run_id rq of
        None \<Rightarrow> (case admission_key rq of None \<Rightarrow> False
                  | Some (scope, key) \<Rightarrow> source_key r = Some (rq_org_id rq, scope, key))
      | Some p \<Rightarrow> (case admission_hash step_hash of None \<Rightarrow> False
                  | Some h \<Rightarrow> step_key r = Some (p, h)))"

definition has_key :: "agent_run_request \<Rightarrow> string option \<Rightarrow> bool" where
  "has_key rq step_hash =
     (rq_org_id rq \<noteq> []
      \<and> (case rq_parent_run_id rq of None \<Rightarrow> source_idempotency_parts rq \<noteq> None
         | Some p \<Rightarrow> admission_hash step_hash \<noteq> None))"

lemma source_key_Some:
  "source_key r = Some (a, b, c) \<longleftrightarrow>
    org_id r = Some a \<and> source_idempotency_scope r = Some b \<and> source_idempotency_key r = Some c"
  by (auto simp: source_key_def split: option.splits)

lemma step_key_Some:
  "step_key r = Some (p, h) \<longleftrightarrow> parent_run_id r = Some p \<and> parent_step_key_hash r = Some h"
  by (auto simp: step_key_def split: option.splits)

lemma admission_key_nonempty: "admission_key rq = Some (scope, key) \<Longrightarrow> scope \<noteq> [] \<and> key \<noteq> []"
  by (auto simp: admission_key_def source_idempotency_parts_def source_name_def Let_def find_Some_iff
      split: if_splits option.splits)

lemma admission_hash_nonempty: "admission_hash h = Some x \<Longrightarrow> x \<noteq> []"
  by (auto simp: admission_hash_def nonempty_def split: if_splits)

lemma existing_run_SomeD:
  "existing_run rq h d = Some r \<Longrightarrow> r \<in> set (runs d) \<and> keyed rq h r"
  by (auto simp: existing_run_def run_for_parent_step_def run_for_source_idempotency_def keyed_def
      source_key_Some step_key_Some admission_key_def split: option.splits if_splits
      dest!: first_by_id_SomeD)

lemma existing_run_None:
  assumes "existing_run rq h d = None" and "rq_org_id rq \<noteq> []" and "r \<in> set (runs d)"
  shows "\<not> keyed rq h r"
proof (cases "rq_parent_run_id rq")
  case None
  show ?thesis
  proof (cases "admission_key rq")
    case (Some k)
    obtain scope key where k: "k = (scope, key)" by (cases k)
    with Some admission_key_nonempty have "scope \<noteq> []" "key \<noteq> []" by blast+
    with assms Some None k show ?thesis
      by (simp add: existing_run_def run_for_parent_step_def run_for_source_idempotency_def keyed_def
          source_key_Some first_by_id_None)
  qed (simp add: keyed_def None)
next
  case (Some p)
  with assms admission_hash_nonempty show ?thesis
    by (auto simp: existing_run_def run_for_parent_step_def keyed_def step_key_Some first_by_id_None
        split: option.splits)
qed

lemma keyed_unique:
  assumes "keys_ok d" and "r \<in> set (runs d)" and "q \<in> set (runs d)" and "keyed rq h r" and "keyed rq h q"
  shows "r = q"
  using assms by (auto simp: keyed_def keys_ok_def split: option.splits intro: keys_of_unique)

lemma keyed_admitted:
  "has_key rq h \<Longrightarrow> keyed rq h (admitted_row now env rq st h d)"
  by (auto simp: has_key_def keyed_def admitted_row_def source_key_Some step_key_Some admission_key_def
      split: option.splits)

lemma distinct_singleton_list: "distinct xs \<Longrightarrow> set xs = {x} \<Longrightarrow> xs = [x]"
proof (cases xs)
  case (Cons y ys)
  assume "distinct xs" "set xs = {x}"
  with Cons show ?thesis by (cases ys) auto
qed simp

lemma keyed_filter:
  assumes "keys_ok d" and "distinct (run_ids d)" and "r \<in> set (runs d)" and "keyed rq h r"
  shows "filter (keyed rq h) (runs d) = [r]"
proof -
  have "set (filter (keyed rq h) (runs d)) = {r}"
    using keyed_unique [OF assms(1)] assms(3,4) by auto
  moreover have "distinct (filter (keyed rq h) (runs d))"
    using assms(2) by (simp add: run_ids_def distinct_map)
  ultimately show ?thesis by (intro distinct_singleton_list)
qed

lemma admit_simps [simp]:
  "runs (admit now row st d) = runs d @ [row]"
  by (simp add: admit_def)

text \<open>Whenever \<open>create_run\<close> answers a run for a keyed request, that run owns the key.\<close>

lemma create_run_answer:
  assumes "create_run now env other rq initial h s = (Inr run, s')" and "has_key rq h"
  obtains r where "r \<in> set (runs (work s'))" and "keyed rq h r" and "run = to_domain r"
  using assms keyed_admitted [OF assms(2)]
  by (fastforce simp: create_run_eq Let_def dest: existing_run_SomeD split: sum.splits option.splits if_splits)

text \<open>
  C9: whatever other sessions publish between the lookup and the insert, an admission that
  answers a run for a keyed request leaves exactly one row that carries the key, and the answer is
  that row: a concurrent duplicate is found again after the unique index has refused the insert.
\<close>

theorem create_run_one_per_key:
  assumes "sess_ok c s" and "\<And>d. good_write other d" and "has_key rq h"
    and "create_run now env other rq initial h s = (Inr run, s')"
  shows "\<exists>r. filter (keyed rq h) (runs (work s')) = [r] \<and> run = to_domain r"
proof -
  have "sess_ok c s'"
    using safeD [OF safe_create_run [OF assms(2)] assms(1)] assms(4) by (metis snd_conv)
  then have "keys_ok (work s')" "distinct (run_ids (work s'))" by (simp_all add: sess_ok_def db_inv_def)
  moreover obtain r where "r \<in> set (runs (work s'))" "keyed rq h r" "run = to_domain r"
    by (rule create_run_answer [OF assms(4,3)])
  ultimately show ?thesis by (blast dest: keyed_filter)
qed

text \<open>
  Asking again is free: after an admission of a keyed request has answered, admitting the same
  request again answers the same run and leaves the session as it was.
\<close>

theorem create_run_repeat:
  assumes "sess_ok c s" and "\<And>d. good_write other d" and "has_key rq h"
    and "create_run now env other rq initial h s = (Inr run, s')"
    and "creatable_run_status initial' = Inr st'"
  shows "create_run now' env' other' rq initial' h s' = (Inr run, s')"
proof -
  have "sess_ok c s'"
    using safeD [OF safe_create_run [OF assms(2)] assms(1)] assms(4) by (metis snd_conv)
  then have keys: "keys_ok (work s')" by (simp add: sess_ok_def db_inv_def)
  obtain r where r: "r \<in> set (runs (work s'))" "keyed rq h r" "run = to_domain r"
    by (rule create_run_answer [OF assms(4,3)])
  then obtain q where q: "existing_run rq h (work s') = Some q"
    using existing_run_None [of rq h "work s'" r] assms(3)
    by (cases "existing_run rq h (work s')") (auto simp: has_key_def)
  have "q = r" using keyed_unique [OF keys] existing_run_SomeD [OF q] r by blast
  with q r assms(5) show ?thesis by (simp add: create_run_eq)
qed

section \<open>Child runs\<close>

record child_args =
  ca_recipe :: string
  ca_message :: string
  ca_step_key :: "string option"
  ca_thread_id :: "string option"
  ca_profile :: "string option"
  ca_target_ref :: "pydict option"
  ca_workspace_ref :: "pydict option"
  ca_model_policy :: "pydict option"
  ca_metadata :: pydict

definition or_text :: "string option \<Rightarrow> string \<Rightarrow> string" where
  "or_text v dflt = (case v of None \<Rightarrow> dflt | Some t \<Rightarrow> if t = [] then dflt else t)"

definition or_dict :: "pydict option \<Rightarrow> pydict \<Rightarrow> pydict" where
  "or_dict v dflt = (case v of None \<Rightarrow> dflt | Some d \<Rightarrow> d)"

definition child_run_for_step ::
  "(string \<Rightarrow> string) \<Rightarrow> int \<Rightarrow> string \<Rightarrow> db \<Rightarrow> agent_run_row option" where
  "child_run_for_step digest parent key d =
     (case run_for_parent_step (Some parent) (hash_step_key digest (Some key)) d of
        Some r \<Rightarrow> Some r
      | None \<Rightarrow> find (\<lambda>r. py_str (py_or (dget (metadata r) ''parent_step_key'') (PyStr [])) = key)
                  (sort_key run_id (filter (\<lambda>r. parent_run_id r = Some parent) (runs d))))"

text \<open>
  \<open>any(int(payload.get("child_run_id") or 0) == child.id ...)\<close>, left to right; a payload value that
  is no number raises.
\<close>

fun any_child_event :: "int \<Rightarrow> event_row list \<Rightarrow> bool result" where
  "any_child_event i [] = Inr False"
| "any_child_event i (e # es) =
     (case py_int (py_or (dget (er_payload e) ''child_run_id'') (PyInt 0)) of
        None \<Rightarrow> Inl (ValueError ''invalid literal for int()'')
      | Some k \<Rightarrow> if k = i then Inr True else any_child_event i es)"

definition append_child_created_once ::
  "instant \<Rightarrow> agent_run_row \<Rightarrow> agent_run \<Rightarrow> string option \<Rightarrow> bool prog" where
  "append_child_created_once now parent child key =
     pbind (pread (\<lambda>d. filter (\<lambda>e. er_type e = ''run.child_created'') (run_events d (run_id parent)))) (\<lambda>es.
     pbind (preturn_result (any_child_event (run_id child) es)) (\<lambda>present.
       if present then pret False
       else pbind (emit now (run_ev (run_id parent) ''run.child_created''
              [(''child_run_id'', PyInt (run_id child)), (''recipe'', PyStr (recipe_value (recipe child))),
               (''step_key'', opt_str key)]
              (Some (or_id (root_run_id parent) (run_id parent))))) (\<lambda>_. pret True)))"

definition child_request :: "agent_run_row \<Rightarrow> child_args \<Rightarrow> pydict \<Rightarrow> agent_run_request" where
  "child_request parent a md =
     \<lparr>rq_thread_id = or_text (ca_thread_id a) (thread_id parent), rq_message = ca_message a,
      rq_org_id = (case org_id parent of None \<Rightarrow> [] | Some org \<Rightarrow> org), rq_user_id = user_id parent,
      rq_profile = Some (or_text (ca_profile a) (profile_value (profile parent))),
      rq_recipe = Some (ca_recipe a), rq_parent_run_id = Some (run_id parent),
      rq_root_run_id = Some (or_id (root_run_id parent) (run_id parent)),
      rq_target_ref = or_dict (ca_target_ref a) (target_ref parent),
      rq_workspace_ref = or_dict (ca_workspace_ref a) (workspace_ref parent),
      rq_model_policy = or_dict (ca_model_policy a) (model_policy parent), rq_metadata = md,
      rq_deadline_at = map_option Aware (deadline_at parent)\<rparr>"

definition child_metadata :: "child_args \<Rightarrow> string \<Rightarrow> pydict" where
  "child_metadata a token =
     (case ca_step_key a of None \<Rightarrow> ca_metadata a
      | Some key \<Rightarrow> if key = [] then ca_metadata a
          else dset (dset (ca_metadata a) ''parent_step_key'' (PyStr key)) ''parent_step_creation_token'' (PyStr token))"

text \<open>The body of the \<open>try\<close>; \<open>finish\<close> is the commit at its end, when there is one.\<close>

definition keyless :: "string option \<Rightarrow> bool" where
  "keyless key = (key = None \<or> key = Some [])"

definition child_transaction ::
  "instant \<Rightarrow> environ \<Rightarrow> (string \<Rightarrow> string) \<Rightarrow> string \<Rightarrow> (db \<Rightarrow> db) \<Rightarrow> int \<Rightarrow> run_status \<Rightarrow> child_args
   \<Rightarrow> unit prog \<Rightarrow> (agent_run \<times> bool) prog" where
  "child_transaction now env digest token other parent_id st a finish =
     (let key = ca_step_key a in
      pbind (locked_run parent_id) (\<lambda>parent.
      pbind (pread (\<lambda>d. if keyless key then None
               else child_run_for_step digest parent_id (case key of None \<Rightarrow> [] | Some k \<Rightarrow> k) d)) (\<lambda>existing.
      case existing of
        Some row \<Rightarrow>
          pbind (append_child_created_once now parent (to_domain row) key) (\<lambda>_.
          pbind finish (\<lambda>_. pret (to_domain row, False)))
      | None \<Rightarrow>
          pbind (preturn_result (make_request (child_request parent a (child_metadata a token)))) (\<lambda>rq.
          pbind (create_run now env other rq (StatusEnum st) (hash_step_key digest key)) (\<lambda>child.
          let created_here = (keyless key \<or> dget (metadata child) ''parent_step_creation_token'' = PyStr token)
          in pbind (append_child_created_once now parent child key) (\<lambda>_.
             pbind finish (\<lambda>_. pret (child, created_here))))))))"

definition create_child_run_with_result ::
  "instant \<Rightarrow> environ \<Rightarrow> (string \<Rightarrow> string) \<Rightarrow> string \<Rightarrow> (db \<Rightarrow> db) \<Rightarrow> int \<Rightarrow> status_arg \<Rightarrow> child_args
   \<Rightarrow> (agent_run \<times> bool) prog" where
  "create_child_run_with_result now env digest token other parent_id initial a =
     pbind (preturn_result (creatable_run_status initial)) (\<lambda>st.
     pbind (require_run parent_id) (\<lambda>_.
     pbind get_auto_commit (\<lambda>ac.
       ptry_finally
         (pon_error
            (pbind (set_auto_commit False) (\<lambda>_.
               child_transaction now env digest token other parent_id st a
                 (if ac \<or> st = STARTING then commit else pret ())))
            rollback)
         (set_auto_commit ac))))"

definition create_child_run ::
  "instant \<Rightarrow> environ \<Rightarrow> (string \<Rightarrow> string) \<Rightarrow> string \<Rightarrow> (db \<Rightarrow> db) \<Rightarrow> int \<Rightarrow> status_arg \<Rightarrow> child_args
   \<Rightarrow> agent_run prog" where
  "create_child_run now env digest token other parent_id initial a =
     pbind (create_child_run_with_result now env digest token other parent_id initial a) (\<lambda>(child, _). pret child)"

lemma safe_append_child_created_once [safe_intros]: "safe (append_child_created_once now parent child key)"
  unfolding append_child_created_once_def by (intro safe_intros)

lemma safe_child_transaction:
  assumes "\<And>d. good_write other d" and "safe finish"
  shows "safe (child_transaction now env digest token other p st a finish)"
  unfolding child_transaction_def Let_def
  by (intro safe_intros safe_create_run assms)

lemma safe_create_child_run_with_result:
  assumes "\<And>d. good_write other d"
  shows "safe (create_child_run_with_result now env digest token other p initial a)"
  unfolding create_child_run_with_result_def
  by (intro safe_intros safe_child_transaction assms)

section \<open>One child per step\<close>

text \<open>A child without a step key has no hash, which the check constraint refuses.\<close>

lemma make_request_parent:
  "make_request rq = Inr rq' \<Longrightarrow> rq_parent_run_id rq' = rq_parent_run_id rq \<and> rq_org_id rq' \<noteq> []
    \<and> rq_root_run_id rq' = rq_root_run_id rq"
  by (auto simp: make_request_def Let_def split: if_splits)

lemma child_request_parent [simp]: "rq_parent_run_id (child_request parent a md) = Some (run_id parent)"
  by (simp add: child_request_def)

lemma unkeyed_child_refused:
  assumes "rq_parent_run_id rq = Some p" and "admission_hash h = None"
    and "creatable_run_status initial = Inr st"
  shows "create_run now env other rq initial h s = (Inl IntegrityError, s\<lparr>work := other (work s)\<rparr>)"
proof -
  have "existing_run rq h d = None" for d
    using assms by (simp add: existing_run_def run_for_parent_step_def run_for_source_idempotency_def
        admission_key_def)
  moreover have "\<not> run_constraints_ok (admitted_row now env rq st h d) d" for d
    using assms by (simp add: run_constraints_ok_def admitted_row_def)
  ultimately show ?thesis using assms(3) by (simp add: create_run_eq Let_def)
qed

lemma creatable_enum: "creatable_run_status a = Inr st \<Longrightarrow> creatable_run_status (StatusEnum st) = Inr st"
  by (auto simp: creatable_run_status_def rbind_def split: sum.splits if_splits)

text \<open>
  Although \<open>step_key\<close> is an optional argument of \<open>create_child_run\<close>, a child run can only be
  created with one: without it (or with an empty one) the new row has no step hash, the check
  constraint on child rows refuses it, and the call raises \<open>IntegrityError\<close> with everything
  rolled back.
\<close>

theorem child_without_step_key_rejected:
  assumes "find_run (work s) p = Some parent" and "make_request (child_request parent a (child_metadata a token)) = Inr rq"
    and "ca_step_key a = None \<or> ca_step_key a = Some []"
    and "creatable_run_status initial = Inr st"
  shows "create_child_run_with_result now env digest token other p initial a s
    = (Inl IntegrityError, s\<lparr>work := committed s\<rparr>)"
proof -
  let ?s = "s\<lparr>auto_commit := False\<rparr>"
  have id: "run_id parent = p" using find_run_SomeD [OF assms(1)] by simp
  have key: "keyless (ca_step_key a)" using assms(3) by (auto simp: keyless_def)
  have hash: "admission_hash (hash_step_key digest (ca_step_key a)) = None"
    using assms(3) by (auto simp: hash_step_key_def admission_hash_def nonempty_def py_strip_def)
  have "create_run now env other rq (StatusEnum st) (hash_step_key digest (ca_step_key a)) ?s
      = (Inl IntegrityError, ?s\<lparr>work := other (work ?s)\<rparr>)"
    by (rule unkeyed_child_refused [where p = p])
       (use make_request_parent [OF assms(2)] id hash creatable_enum [OF assms(4)] in simp_all)
  then show ?thesis
    using assms(1,2,4) key
    by (simp add: create_child_run_with_result_def child_transaction_def Let_def pbind_eq locked_run_eq
        prog_defs ptry_finally_def pon_error_def)
qed

lemma append_event_InrD:
  assumes "append_event now e s = (Inr x, s')" and "ev_sequence_no e = None"
  shows "s' = publish s (add_event now e (work s))"
proof -
  have "fresh_event (work s) e"
    using assms by (auto simp: append_event_def fresh_event_def Let_def split: if_splits)
  then show ?thesis using append_event_fresh assms(1) by simp
qed

definition child_events :: "db \<Rightarrow> int \<Rightarrow> event_row list" where
  "child_events d p = filter (\<lambda>e. er_type e = ''run.child_created'') (run_events d p)"

lemma any_child_event_append:
  "any_child_event i es = Inr False \<Longrightarrow> any_child_event i (es @ [e]) = any_child_event i [e]"
  by (induction es) (auto split: option.splits if_splits)

lemma append_child_created_once_InrD:
  assumes "append_child_created_once now parent child key s = (Inr b, s')"
  shows "any_child_event (run_id child) (child_events (work s') (run_id parent)) = Inr True"
    and "runs (work s') = runs (work s)"
proof -
  let ?e = "run_ev (run_id parent) ''run.child_created''
      [(''child_run_id'', PyInt (run_id child)), (''recipe'', PyStr (recipe_value (recipe child))),
       (''step_key'', opt_str key)] (Some (or_id (root_run_id parent) (run_id parent)))"
  let ?es = "child_events (work s) (run_id parent)"
  have seq: "ev_sequence_no ?e = None" by (simp add: mk_event_def)
  from assms consider "any_child_event (run_id child) ?es = Inr True" "s' = s"
    | x where "any_child_event (run_id child) ?es = Inr False" "append_event now ?e s = (Inr x, s')"
    unfolding append_child_created_once_def child_events_def
    by (auto simp: pbind_eq prog_defs split: sum.splits if_splits prod.splits)
  then have "any_child_event (run_id child) (child_events (work s') (run_id parent)) = Inr True
      \<and> runs (work s') = runs (work s)"
  proof cases
    case 2
    have "child_events (work s') (run_id parent) = ?es @ [last (events (add_event now ?e (work s)))]"
      unfolding append_event_InrD [OF 2(2) seq]
      by (simp add: child_events_def run_events_def add_event_def insert_event_def mk_event_def)
    moreover have "any_child_event (run_id child) [last (events (add_event now ?e (work s)))] = Inr True"
      by (simp add: add_event_def insert_event_def mk_event_def py_or_def)
    ultimately show ?thesis
      using 2(1) append_event_InrD [OF 2(2) seq] by (simp add: any_child_event_append)
  qed simp
  then show "any_child_event (run_id child) (child_events (work s') (run_id parent)) = Inr True"
    "runs (work s') = runs (work s)" by simp_all
qed

lemma child_run_for_step_runs:
  "runs d = runs d' \<Longrightarrow> child_run_for_step digest p key d = child_run_for_step digest p key d'"
  by (simp add: child_run_for_step_def run_for_parent_step_def first_by_id_def split: option.split)

text \<open>What is relied on of the digest: hexadecimal text, not empty and without blanks.\<close>

definition hex_digest :: "(string \<Rightarrow> string) \<Rightarrow> bool" where
  "hex_digest digest = (\<forall>x. digest x \<noteq> [] \<and> py_strip (digest x) = digest x)"

lemma admission_hash_step:
  assumes "hex_digest digest" and "py_strip key \<noteq> []"
  shows "admission_hash (hash_step_key digest (Some key)) = Some (digest (py_strip key))"
    and "hash_step_key digest (Some key) = Some (digest (py_strip key))"
  using assms by (simp_all add: admission_hash_def hash_step_key_def nonempty_def hex_digest_def)

lemma created_child_found:
  assumes "create_run now env other rq initial (hash_step_key digest (Some key)) s = (Inr child, s')"
    and "sess_ok c s'" and "rq_parent_run_id rq = Some p" and "rq_org_id rq \<noteq> []"
    and "hex_digest digest" and "py_strip key \<noteq> []"
  obtains r where "child_run_for_step digest p key (work s') = Some r" and "child = to_domain r"
proof -
  let ?h = "hash_step_key digest (Some key)"
  note hash = admission_hash_step [OF assms(5,6)]
  have hk: "has_key rq ?h" using assms(3,4) hash by (simp add: has_key_def)
  obtain r where r: "r \<in> set (runs (work s'))" "keyed rq ?h r" "child = to_domain r"
    by (rule create_run_answer [OF assms(1) hk])
  have keys: "keys_ok (work s')" using assms(2) by (simp add: sess_ok_def db_inv_def)
  obtain q where q: "existing_run rq ?h (work s') = Some q"
    using existing_run_None [OF _ assms(4) r(1)] r(2) by (cases "existing_run rq ?h (work s')") auto
  have "q = r" using keyed_unique [OF keys] existing_run_SomeD [OF q] r by blast
  moreover have "child_run_for_step digest p key (work s') = Some q"
    using q hash assms(3)
    by (auto simp: existing_run_def child_run_for_step_def run_for_source_idempotency_def admission_key_def
        split: option.splits)
  ultimately show thesis using that r(3) by simp
qed

text \<open>What a child creation that answered has established: the step names the child, the parent knows it.\<close>

definition step_settled :: "(string \<Rightarrow> string) \<Rightarrow> int \<Rightarrow> string \<Rightarrow> agent_run \<Rightarrow> db \<Rightarrow> bool" where
  "step_settled digest p key child d =
     (map_option to_domain (child_run_for_step digest p key d) = Some child
      \<and> any_child_event (run_id child) (child_events d p) = Inr True)"

lemma step_settled_parent:
  assumes "step_settled digest p key child d" and "db_inv d"
  shows "find_run d p \<noteq> None"
proof -
  from assms(1) obtain e where "e \<in> set (child_events d p)"
    by (cases "child_events d p") (auto simp: step_settled_def)
  then have "p \<in> set (run_ids d)"
    using assms(2) by (auto simp: child_events_def run_events_def db_inv_def events_ok_def)
  then show ?thesis by (simp add: find_run_None)
qed

lemma finish_work:
  "(if b then commit else pret ()) s = (Inr u, s') \<Longrightarrow> work s' = work s"
  by (auto simp: prog_defs split: if_splits)

lemma append_child_created_settles:
  assumes "append_child_created_once now parent child key s = (Inr b, s')"
    and "map_option to_domain (child_run_for_step digest (run_id parent) k (work s)) = Some child"
  shows "step_settled digest (run_id parent) k child (work s')"
  using append_child_created_once_InrD [OF assms(1)] assms(2)
    child_run_for_step_runs [of "work s'" "work s" digest "run_id parent" k]
  by (simp add: step_settled_def)

lemma child_transaction_InrD:
  assumes run: "child_transaction now env digest token other p st a (if fin then commit else pret ()) s = (Inr (child, b), s')"
    and ok: "sess_ok c s" and other: "\<And>d. good_write other d"
    and key: "ca_step_key a = Some key" "py_strip key \<noteq> []" and hex: "hex_digest digest"
  shows "step_settled digest p key child (work s')"
proof -
  have nk: "\<not> keyless (ca_step_key a)" using key by (auto simp: keyless_def py_strip_def)
  from run obtain parent where parent: "find_run (work s) p = Some parent"
    by (cases "find_run (work s) p") (simp_all add: child_transaction_def Let_def pbind_eq locked_run_eq)
  have pid: "run_id parent = p" using find_run_SomeD [OF parent] by simp
  show ?thesis
  proof (cases "child_run_for_step digest p key (work s)")
    case (Some row)
    with run parent nk key obtain t x where
      t: "append_child_created_once now parent (to_domain row) (Some key) s = (Inr x, t)"
         "work s' = work t" "child = to_domain row"
      by (auto simp: child_transaction_def Let_def pbind_eq locked_run_eq pread_def pret_def
          split: sum.splits prod.splits dest!: finish_work)
    from append_child_created_settles [OF t(1), of digest key] Some t pid show ?thesis by simp
  next
    case None
    with run parent nk key obtain rq t x u where
      rq: "make_request (child_request parent a (child_metadata a token)) = Inr rq" and
      t: "create_run now env other rq (StatusEnum st) (hash_step_key digest (Some key)) s = (Inr child, t)" and
      u: "append_child_created_once now parent child (Some key) t = (Inr x, u)" "work s' = work u"
      by (auto simp: child_transaction_def Let_def pbind_eq locked_run_eq pread_def pret_def preturn_result_def
          split: sum.splits prod.splits dest!: finish_work)
    have "sess_ok c t"
      using safeD [OF safe_create_run [OF other] ok] t by (metis snd_conv)
    then obtain r where "child_run_for_step digest p key (work t) = Some r" "child = to_domain r"
      using created_child_found [OF t _ _ _ hex key(2), of c p] make_request_parent [OF rq] pid by auto
    with append_child_created_settles [OF u(1), of digest key] u(2) pid show ?thesis by simp
  qed
qed

text \<open>
  One child per step: once \<open>create_child_run_with_result\<close> has answered a child for a step key,
  calling it again for that step (a retried tool call, a restarted parent) answers the same child,
  says that it was not created, and changes neither runs nor events.
\<close>

theorem create_child_repeat:
  assumes "sess_ok c s" and "\<And>d. good_write other d" and "hex_digest digest"
    and "ca_step_key a = Some key" and "py_strip key \<noteq> []"
    and "create_child_run_with_result now env digest token other p initial a s = (Inr (child, b), s')"
    and "ca_step_key a' = Some key" and "creatable_run_status initial' = Inr st'"
  shows "\<exists>s''. create_child_run_with_result now' env' digest token' other' p initial' a' s'
      = (Inr (child, False), s'') \<and> work s'' = work s'"
proof -
  from assms(6) obtain st t where t:
    "child_transaction now env digest token other p st a
       (if auto_commit s \<or> st = STARTING then commit else pret ()) (s\<lparr>auto_commit := False\<rparr>) = (Inr (child, b), t)"
    "work s' = work t"
    by (auto simp: create_child_run_with_result_def pbind_eq preturn_result_def locked_run_eq
        get_auto_commit_def set_auto_commit_def ptry_finally_def pon_error_def
        split: sum.splits prod.splits option.splits)
  have "sess_ok c (s\<lparr>auto_commit := False\<rparr>)" using assms(1) by (simp add: sess_ok_def)
  from child_transaction_InrD [OF t(1) this assms(2,4,5,3)]
  have settled: "step_settled digest p key child (work s')" by (simp add: t(2))
  have "sess_ok c s'"
    using safeD [OF safe_create_child_run_with_result [OF assms(2)] assms(1)] assms(6) by (metis snd_conv)
  with step_settled_parent [OF settled] obtain parent where parent: "find_run (work s') p = Some parent"
    by (auto simp: sess_ok_def)
  have nk: "\<not> keyless (Some key)" using assms(5) by (auto simp: keyless_def py_strip_def)
  from settled obtain row where row: "child_run_for_step digest p key (work s') = Some row" "child = to_domain row"
    and seen: "any_child_event (run_id row) (child_events (work s') p) = Inr True"
    by (auto simp: step_settled_def)
  show ?thesis
    using parent nk row seen assms(7,8) find_run_SomeD [OF parent]
    by (simp add: create_child_run_with_result_def child_transaction_def Let_def pbind_eq locked_run_eq
        append_child_created_once_def child_events_def prog_defs ptry_finally_def pon_error_def)
qed

section \<open>Concrete admissions\<close>

definition ex_request :: agent_run_request where
  "ex_request = \<lparr>rq_thread_id = ''t1'', rq_message = ''hi'', rq_org_id = ''org'', rq_user_id = None,
     rq_profile = Some ''fast'', rq_recipe = None, rq_parent_run_id = None, rq_root_run_id = None,
     rq_target_ref = [], rq_workspace_ref = [], rq_model_policy = [],
     rq_metadata = [(''idempotency_key'', PyStr ''slack:42''), (''source'', PyStr ''trigger:slack'')],
     rq_deadline_at = None\<rparr>"

text \<open>Another session that admits the same request first.\<close>

definition ex_rival :: "db \<Rightarrow> db" where
  "ex_rival d = (let row = admitted_row 400 ex_env ex_request QUEUED None d
     in if run_constraints_ok row d then insert_run row d else d)"

lemma ex_rival_good: "good_write ex_rival d"
proof (cases "run_constraints_ok (admitted_row 400 ex_env ex_request QUEUED None d) d")
  case True
  then show ?thesis
    using insert_run_good [OF True, of 400 ex_env ex_request QUEUED] 
    by (simp add: good_write_def ex_rival_def Let_def admitted_row_def)
qed (simp add: good_write_def ex_rival_def Let_def)

lemma ex_sess_ok [simp]: "sess_ok ex_db ex_session"
  by (simp add: sess_ok_def)

lemma ex_request_key: "has_key ex_request None" "admission_key ex_request = Some (''slack'', ''slack:42'')"
  by code_simp+

definition ex_admission :: "agent_run result \<times> session" where
  "ex_admission = create_run 500 ex_env ex_rival ex_request (StatusEnum QUEUED) None ex_session"

lemma ex_admission_value: "map_sum id run_id (fst ex_admission) = Inr 4"
  by code_simp

lemma ex_admission_run:
  obtains run s' where "create_run 500 ex_env ex_rival ex_request (StatusEnum QUEUED) None ex_session = (Inr run, s')"
    and "run_id run = 4"
proof -
  obtain a s' where e: "ex_admission = (a, s')" by (cases ex_admission)
  have "map_sum id run_id a = Inr 4" using ex_admission_value by (simp only: e fst_conv)
  then obtain run where "a = Inr run" "run_id run = 4" by (cases a) auto
  with e show thesis using that by (simp add: ex_admission_def)
qed

lemma create_run_one_per_key_witness:
  "\<exists>run s' r. create_run 500 ex_env ex_rival ex_request (StatusEnum QUEUED) None ex_session = (Inr run, s')
    \<and> run_id run = 4 \<and> filter (keyed ex_request None) (runs (work s')) = [r]"
proof -
  obtain run s' where r: "create_run 500 ex_env ex_rival ex_request (StatusEnum QUEUED) None ex_session = (Inr run, s')"
    "run_id run = 4" by (rule ex_admission_run)
  with create_run_one_per_key [OF ex_sess_ok ex_rival_good ex_request_key(1) r(1)] show ?thesis by blast
qed

lemma create_run_repeat_witness:
  "\<exists>run s'. create_run 500 ex_env ex_rival ex_request (StatusEnum QUEUED) None ex_session = (Inr run, s')
    \<and> create_run 600 ex_env id ex_request (StatusText (Some '' Starting'')) None s' = (Inr run, s')"
proof -
  obtain run s' where r: "create_run 500 ex_env ex_rival ex_request (StatusEnum QUEUED) None ex_session = (Inr run, s')"
    "run_id run = 4" by (rule ex_admission_run)
  have "creatable_run_status (StatusText (Some '' Starting'')) = Inr STARTING" by code_simp
  with create_run_repeat [OF ex_sess_ok ex_rival_good ex_request_key(1) r(1)] r(1) show ?thesis by blast
qed

definition ex_child :: "string option \<Rightarrow> child_args" where
  "ex_child key = \<lparr>ca_recipe = ''worker'', ca_message = ''sub task'', ca_step_key = key, ca_thread_id = None,
     ca_profile = None, ca_target_ref = None, ca_workspace_ref = None, ca_model_policy = None, ca_metadata = []\<rparr>"

lemma child_without_step_key_rejected_witness:
  "create_child_run_with_result 500 ex_env id ''nonce'' id 1 (StatusEnum QUEUED) (ex_child None) ex_session
    = (Inl IntegrityError, ex_session)"
proof -
  have "make_request (child_request ex_queued (ex_child None) (child_metadata (ex_child None) ''nonce''))
      = Inr (child_request ex_queued (ex_child None) (child_metadata (ex_child None) ''nonce''))"
    by (simp add: make_request_def child_request_def ex_row_defs py_strip_def py_space_def)
  moreover have "creatable_run_status (StatusEnum QUEUED) = Inr QUEUED" by code_simp
  ultimately show ?thesis
    using child_without_step_key_rejected [of ex_session 1 ex_queued "ex_child None" "''nonce''"]
    by (simp add: ex_child_def ex_session_def)
qed

text \<open>A digest for the example: the key itself, marked and with its blanks replaced.\<close>

definition ex_digest :: "string \<Rightarrow> string" where
  "ex_digest x = CHR ''h'' # map (\<lambda>c. if py_space c then CHR ''_'' else c) x"

lemma py_strip_id: "list_all (\<lambda>c. \<not> py_space c) s \<Longrightarrow> py_strip s = s"
proof -
  have dw: "list_all (\<lambda>c. \<not> py_space c) u \<Longrightarrow> dropWhile py_space u = u" for u
    by (cases u) simp_all
  show "list_all (\<lambda>c. \<not> py_space c) s \<Longrightarrow> py_strip s = s"
    using dw [of s] dw [of "rev s"] by (simp add: py_strip_def list_all_iff)
qed

lemma ex_hex_digest: "hex_digest ex_digest"
  unfolding hex_digest_def
proof (intro allI conjI)
  fix x
  have "\<not> py_space CHR ''_''" "\<not> py_space CHR ''h''" by code_simp+
  then have "list_all (\<lambda>c. \<not> py_space c) (ex_digest x)"
    by (auto simp: ex_digest_def list_all_iff)
  then show "py_strip (ex_digest x) = ex_digest x" by (rule py_strip_id)
qed (simp add: ex_digest_def)

definition ex_child_creation :: "(agent_run \<times> bool) result \<times> session" where
  "ex_child_creation = create_child_run_with_result 500 ex_env ex_digest ''nonce'' id 1 (StatusEnum QUEUED)
     (ex_child (Some ''step'')) ex_session"

lemma ex_child_creation_value: "map_sum id (map_prod run_id id) (fst ex_child_creation) = Inr (4, True)"
  by code_simp

lemma create_child_repeat_witness:
  "\<exists>child s' s''. create_child_run_with_result 500 ex_env ex_digest ''nonce'' id 1 (StatusEnum QUEUED)
        (ex_child (Some ''step'')) ex_session = (Inr (child, True), s')
    \<and> create_child_run_with_result 600 ex_env ex_digest ''other'' id 1 (StatusEnum STARTING)
        (ex_child (Some ''step'')) s' = (Inr (child, False), s'') \<and> work s'' = work s'"
proof -
  obtain a s' where e: "ex_child_creation = (a, s')" by (cases ex_child_creation)
  have "map_sum id (map_prod run_id id) a = Inr (4, True)"
    using ex_child_creation_value by (simp only: e fst_conv)
  then obtain child where "a = Inr (child, True)" by (cases a) auto
  with e have run: "create_child_run_with_result 500 ex_env ex_digest ''nonce'' id 1 (StatusEnum QUEUED)
      (ex_child (Some ''step'')) ex_session = (Inr (child, True), s')"
    by (simp add: ex_child_creation_def)
  have st: "creatable_run_status (StatusEnum STARTING) = Inr STARTING" by code_simp
  have key: "ca_step_key (ex_child (Some ''step'')) = Some ''step''" "py_strip ''step'' \<noteq> []"
    by (simp_all add: ex_child_def) code_simp
  have "good_write id d" for d by (simp add: good_write_def)
  from create_child_repeat [OF ex_sess_ok this ex_hex_digest key run key(1) st] run
  show ?thesis by blast
qed

end
