(* ===== verification/Run_Claims.thy ===== *)
theory Run_Claims
  imports Run_Creation
begin

text \<open>
  Claiming work: the fenced execution claim (acquire with deadlock retries, assert, release), the
  queue scan of \<open>claim_next\<close> with the deferral rule, and the steering inbox of a run. \<open>avail\<close> says
  which rows \<open>SKIP LOCKED\<close> could lock; \<open>faults n\<close> is the exception the database raises in the
  \<open>n\<close>-th attempt of a transaction, if any.
\<close>

section \<open>Execution claims\<close>

definition DEFERRED_RUN_ACTIVE_STATUS_VALUES :: "string list" where
  "DEFERRED_RUN_ACTIVE_STATUS_VALUES = map rs_value [QUEUED, STARTING, RUNNING, PAUSED, VERIFYING]"

definition claimable :: "agent_run_row \<Rightarrow> run_status \<Rightarrow> agent_run_row \<Rightarrow> bool" where
  "claimable row st r =
     (run_id r = run_id row \<and> row_status r = rs_value st
      \<and> execution_attempt r = execution_attempt row
      \<and> row_status r \<in> set DEFERRED_RUN_ACTIVE_STATUS_VALUES
      \<and> execution_token r = None)"

definition claimed_values :: "instant \<Rightarrow> string \<Rightarrow> agent_run_row \<Rightarrow> agent_run_row \<Rightarrow> agent_run_row" where
  "claimed_values now token row r =
     r\<lparr>row_status := rs_value RUNNING, execution_token := Some token,
       execution_attempt := execution_attempt row + 1,
       started_at := Some (case started_at row of None \<Rightarrow> now | Some t \<Rightarrow> t), updated_at := now\<rparr>"

definition claim_status_events :: "agent_run_row \<Rightarrow> run_status \<Rightarrow> run_event list" where
  "claim_status_events row st =
     (let root = Some (or_id (root_run_id row) (run_id row));
          change = (\<lambda>a b. status_changed_event (run_id row) (rs_value a) (rs_value b) root)
      in if st = QUEUED then [change QUEUED STARTING (Some ''claimed''), change STARTING RUNNING None]
         else if st \<noteq> RUNNING then [change st RUNNING None] else [])"

definition claim_lifecycle_event :: "agent_run_row \<Rightarrow> run_status \<Rightarrow> run_event" where
  "claim_lifecycle_event row st =
     run_ev (run_id row)
       (if st \<in> {RUNNING, PAUSED, VERIFYING} then ''run.resumed'' else ''run.started'')
       [(''from_status'', PyStr (rs_value st)), (''execution_attempt'', PyInt (execution_attempt row + 1))]
       (Some (or_id (root_run_id row) (run_id row)))"

definition try_acquire_transaction :: "instant \<Rightarrow> string \<Rightarrow> int \<Rightarrow> execution_claim option prog" where
  "try_acquire_transaction now token i =
     pbind (locked_run i) (\<lambda>row.
     let st = row_run_status row in
     if st \<in> set TERMINAL_RUN_STATUSES then pret None
     else pbind (sql_update (claimable row st) (claimed_values now token row)) (\<lambda>matched.
       if \<not> matched then pbind rollback (\<lambda>_. pret None)
       else pbind (pfor (emit now) (claim_status_events row st @ [claim_lifecycle_event row st])) (\<lambda>_.
            pbind commit (\<lambda>_. pret (Some \<lparr>cl_run_id = run_id row, cl_token = token,
                                            cl_attempt = execution_attempt row + 1\<rparr>)))))"

text \<open>\<open>_is_postgres_deadlock\<close>: some SQLSTATE in the chain of causes is \<open>40P01\<close>.\<close>

fun is_postgres_deadlock :: "py_error \<Rightarrow> bool" where
  "is_postgres_deadlock (DBAPIError states) = (''40P01'' \<in> set states)"
| "is_postgres_deadlock _ = False"

definition DEADLOCK_RETRY_ATTEMPTS :: nat where
  "DEADLOCK_RETRY_ATTEMPTS = 3"

text \<open>One attempt: the transaction, unless the database breaks it off.\<close>

definition attempt_transaction :: "(nat \<Rightarrow> py_error option) \<Rightarrow> nat \<Rightarrow> 'a prog \<Rightarrow> 'a prog" where
  "attempt_transaction faults n m = (case faults n of None \<Rightarrow> m | Some e \<Rightarrow> praise e)"

function acquire_attempts ::
  "instant \<Rightarrow> (nat \<Rightarrow> py_error option) \<Rightarrow> string \<Rightarrow> int \<Rightarrow> nat \<Rightarrow> execution_claim option prog" where
  "acquire_attempts now faults token i n s =
     (case attempt_transaction faults n (try_acquire_transaction now token i) s of
        (Inr claim, s') \<Rightarrow> (Inr claim, s')
      | (Inl e, s') \<Rightarrow>
          (let s'' = snd (rollback s') in
           if \<not> is_postgres_deadlock e \<or> DEADLOCK_RETRY_ATTEMPTS \<le> n then (Inl e, s'')
           else (case refresh_run i s'' of
                   (Inl e', s3) \<Rightarrow> (Inl e', s3)
                 | (Inr _, s3) \<Rightarrow> acquire_attempts now faults token i (n + 1) s3)))"
  by pat_completeness auto
termination
  by (relation "measure (\<lambda>(now, faults, token, i, n, s). DEADLOCK_RETRY_ATTEMPTS - n)") auto

definition try_acquire_execution_claim ::
  "instant \<Rightarrow> (nat \<Rightarrow> py_error option) \<Rightarrow> string \<Rightarrow> int \<Rightarrow> execution_claim option prog" where
  "try_acquire_execution_claim now faults token i =
     pbind get_auto_commit (\<lambda>ac.
       ptry_finally (pbind (set_auto_commit False) (\<lambda>_. acquire_attempts now faults token i 1))
         (set_auto_commit ac))"

definition release_execution_claim :: "instant \<Rightarrow> execution_claim \<Rightarrow> unit prog" where
  "release_execution_claim now c =
     pbind (sql_update (\<lambda>r. run_id r = cl_run_id c \<and> execution_token r = Some (cl_token c)
              \<and> execution_attempt r = cl_attempt c)
              (\<lambda>r. r\<lparr>execution_token := None, updated_at := now\<rparr>)) (\<lambda>_. commit)"

section \<open>The queue\<close>

definition DEFERRED_RUN_TARGET_METADATA_KEYS :: "string list" where
  "DEFERRED_RUN_TARGET_METADATA_KEYS = [''queued_after_run_id'', ''queue_after_run_id'']"

text \<open>\<open>_deferred_run_target_id\<close>: the first key that reads as a number decides.\<close>

fun deferred_target :: "agent_run_row \<Rightarrow> string list \<Rightarrow> int option" where
  "deferred_target row [] = None"
| "deferred_target row (k # ks) =
     (let raw = dget (metadata row) k in
      if raw = PyNone \<or> raw = PyStr [] then deferred_target row ks
      else case py_int_of_str (py_str raw) of
             None \<Rightarrow> deferred_target row ks
           | Some t \<Rightarrow> if t \<noteq> run_id row then Some t else None)"

definition deferred_run_target_id :: "agent_run_row \<Rightarrow> int option" where
  "deferred_run_target_id row = deferred_target row DEFERRED_RUN_TARGET_METADATA_KEYS"

definition deferred_run_dependency_active :: "db \<Rightarrow> agent_run_row \<Rightarrow> bool" where
  "deferred_run_dependency_active d row =
     (case deferred_run_target_id row of
        None \<Rightarrow> False
      | Some target \<Rightarrow>
          (case find_run d target of None \<Rightarrow> False
           | Some r \<Rightarrow> py_lower (row_status r) \<in> set DEFERRED_RUN_ACTIVE_STATUS_VALUES)
          \<or> (thread_id row \<noteq> []
             \<and> list_ex (\<lambda>r. thread_id r = thread_id row \<and> parent_run_id r = None \<and> run_id r < run_id row
                  \<and> row_status r \<in> set DEFERRED_RUN_ACTIVE_STATUS_VALUES) (runs d)))"

definition queued_runs :: "db \<Rightarrow> agent_run_row list" where
  "queued_runs d = sort_key created_at (sort_key run_id (filter (\<lambda>r. row_status r = rs_value QUEUED) (runs d)))"

definition claim_batch_size :: nat where
  "claim_batch_size = 25"

definition claim_batch :: "db \<Rightarrow> int list \<Rightarrow> agent_run_row list" where
  "claim_batch d seen = take claim_batch_size (filter (\<lambda>r. run_id r \<notin> set seen) (queued_runs d))"

definition claim_candidate :: "(int \<Rightarrow> bool) \<Rightarrow> db \<Rightarrow> agent_run_row \<Rightarrow> bool" where
  "claim_candidate avail d row =
     (avail (run_id row) \<and> row_status row = rs_value QUEUED \<and> \<not> deferred_run_dependency_active d row)"

lemma claim_batch_progress:
  assumes "claim_batch d seen \<noteq> []"
  shows "length (filter (\<lambda>r. run_id r \<notin> set (seen @ map run_id (claim_batch d seen))) (queued_runs d))
    < length (filter (\<lambda>r. run_id r \<notin> set seen) (queued_runs d))"
proof -
  let ?q = "filter (\<lambda>r. run_id r \<notin> set seen) (queued_runs d)"
  obtain x where x: "x \<in> set (claim_batch d seen)" using assms by (cases "claim_batch d seen") auto
  then have "x \<in> set ?q" unfolding claim_batch_def by (rule in_set_takeD)
  moreover have "filter (\<lambda>r. run_id r \<notin> set (seen @ map run_id (claim_batch d seen))) (queued_runs d)
      = filter (\<lambda>r. run_id r \<notin> run_id ` set (claim_batch d seen)) ?q"
    by (auto intro: filter_cong)
  ultimately show ?thesis
    using x length_filter_less [of x ?q "\<lambda>r. run_id r \<notin> run_id ` set (claim_batch d seen)"] by auto
qed

function claim_scan :: "(int \<Rightarrow> bool) \<Rightarrow> db \<Rightarrow> int list \<Rightarrow> agent_run_row option" where
  "claim_scan avail d seen =
     (let rows = claim_batch d seen in
      if rows = [] then None
      else case find (claim_candidate avail d) rows of
             Some row \<Rightarrow> Some row
           | None \<Rightarrow> claim_scan avail d (seen @ map run_id rows))"
  by pat_completeness auto
termination
  by (relation "measure (\<lambda>(avail, d, seen). length (filter (\<lambda>r. run_id r \<notin> set seen) (queued_runs d)))")
     (use claim_batch_progress in auto)

definition claim_next :: "instant \<Rightarrow> run_hook \<Rightarrow> (int \<Rightarrow> bool) \<Rightarrow> agent_run option prog" where
  "claim_next now hook avail =
     pbind (pread (\<lambda>d. claim_scan avail d [])) (\<lambda>found.
       case found of
         None \<Rightarrow> pret None
       | Some row \<Rightarrow> pbind (set_status_on_locked_run now hook row (StatusEnum STARTING)
             (default_opts\<lparr>so_reason := Some ''claimed''\<rparr>)) (\<lambda>(run, _). pret (Some run)))"

primrec claim_next_run_ids :: "instant \<Rightarrow> run_hook \<Rightarrow> (int \<Rightarrow> bool) \<Rightarrow> nat \<Rightarrow> int list prog" where
  "claim_next_run_ids now hook avail 0 = pret []"
| "claim_next_run_ids now hook avail (Suc n) =
     pbind (claim_next now hook avail) (\<lambda>claimed.
       case claimed of None \<Rightarrow> pret []
       | Some run \<Rightarrow> pbind (claim_next_run_ids now hook avail n) (\<lambda>ids. pret (run_id run # ids)))"

definition claim_run :: "instant \<Rightarrow> run_hook \<Rightarrow> int \<Rightarrow> agent_run option prog" where
  "claim_run now hook i =
     pbind (locked_run i) (\<lambda>row.
       if row_status row \<noteq> rs_value QUEUED then pret None
       else pbind (set_status_on_locked_run now hook row (StatusEnum STARTING)
              (default_opts\<lparr>so_reason := Some ''claimed''\<rparr>)) (\<lambda>(run, _). pret (Some run)))"

section \<open>Claims keep the invariant\<close>

lemma active_value_open:
  "rs_value st \<in> set DEFERRED_RUN_ACTIVE_STATUS_VALUES \<longleftrightarrow> st \<in> set OPEN_RUN_STATUSES"
  by (cases st) (simp_all add: DEFERRED_RUN_ACTIVE_STATUS_VALUES_def run_status_groups)

lemma claimed_values_simps [simp]:
  "run_id (claimed_values now token row r) = run_id r"
  "row_status (claimed_values now token row r) = rs_value RUNNING"
  "row_run_status (claimed_values now token row r) = RUNNING"
  "execution_token (claimed_values now token row r) = Some token"
  "execution_attempt (claimed_values now token row r) = execution_attempt row + 1"
  "root_run_id (claimed_values now token row r) = root_run_id r"
  by (simp_all add: claimed_values_def row_run_status_def del: rs_value.simps)

lemma claimable_open:
  assumes "claimable row st r"
  shows "row_status r = rs_value st" and "st \<in> set OPEN_RUN_STATUSES"
proof -
  show st: "row_status r = rs_value st" using assms by (simp add: claimable_def)
  have "rs_value st \<in> set DEFERRED_RUN_ACTIVE_STATUS_VALUES"
    using assms unfolding claimable_def st by simp
  then show "st \<in> set OPEN_RUN_STATUSES" by (simp only: active_value_open)
qed

lemma claim_good: "good_write (update_runs_where (claimable row st) (claimed_values now token row)) d"
proof (rule update_runs_good)
  fix r assume r: "claimable row st r" "row_ok d r"
  note st = claimable_open [OF r(1)]
  then have "row_run_status r \<notin> set TERMINAL_RUN_STATUSES"
    by (simp add: row_run_status_value terminal_iff_not_open)
  moreover have "execution_attempt r = execution_attempt row" "0 \<le> execution_attempt r"
    using r by (simp_all add: claimable_def row_ok_def fence_ok_def)
  ultimately show "row_evolves r (claimed_values now token row r)
      \<and> row_status (claimed_values now token row r) \<in> set AGENT_RUN_DB_STATUS_VALUES
      \<and> fence_ok (claimed_values now token row r)"
    by (simp add: row_evolves_def fence_ok_def claimed_values_def del: rs_value.simps)
qed simp

lemma release_good:
  "good_write (update_runs_where p (\<lambda>r. r\<lparr>execution_token := None, updated_at := now\<rparr>)) d"
  by (rule update_runs_good) (auto simp: row_evolves_def fence_ok_def row_ok_def)

lemma safe_try_acquire_transaction [safe_intros]: "safe (try_acquire_transaction now token i)"
  unfolding try_acquire_transaction_def Let_def by (intro safe_intros safe_sql_update claim_good)

lemma safe_acquire_attempts [safe_intros]: "safe (acquire_attempts now faults token i n)"
proof -
  have "sess_ok c (snd (acquire_attempts now faults token i n s))" if "sess_ok c s" for c s
    using that
  proof (induction now faults token i n s rule: acquire_attempts.induct)
    case (1 now faults token i n s)
    let ?m = "attempt_transaction faults n (try_acquire_transaction now token i)"
    have m: "safe ?m" unfolding attempt_transaction_def by (intro safe_intros)
    obtain r s' where r: "?m s = (r, s')" by (cases "?m s")
    have s': "sess_ok c s'" using safeD [OF m "1.prems"] r by simp
    have s2: "sess_ok c (snd (rollback s'))" using safeD [OF safe_rollback s'] .
    show ?case
    proof (cases r)
      case (Inl e)
      obtain x s3 where x: "refresh_run i (snd (rollback s')) = (x, s3)"
        by (cases "refresh_run i (snd (rollback s'))")
      have s3: "sess_ok c s3" using safeD [OF safe_refresh_run s2, of i] x by simp
      show ?thesis
        using "1.IH" [of "Inl e" s' e "snd (rollback s')" x s3] r Inl x s2 s3
        by (cases x) (auto simp: Let_def)
    next
      case (Inr claim)
      then show ?thesis using r s' by simp
    qed
  qed
  then show ?thesis by (simp add: safe_def)
qed

lemma safe_try_acquire [safe_intros]: "safe (try_acquire_execution_claim now faults token i)"
  unfolding try_acquire_execution_claim_def by (intro safe_intros)

lemma safe_release [safe_intros]: "safe (release_execution_claim now c)"
  unfolding release_execution_claim_def by (intro safe_intros safe_sql_update release_good)

lemma safe_claim_next: "good_hook hook \<Longrightarrow> safe (claim_next now hook avail)"
  unfolding claim_next_def by (intro safe_intros safe_set_status_on_locked_run)

lemma safe_claim_next_run_ids: "good_hook hook \<Longrightarrow> safe (claim_next_run_ids now hook avail n)"
  by (induction n) (auto intro!: safe_intros safe_claim_next)

lemma safe_claim_run: "good_hook hook \<Longrightarrow> safe (claim_run now hook i)"
  unfolding claim_run_def by (intro safe_intros safe_set_status_on_locked_run)

section \<open>The queue scan\<close>

lemma filter_not_taken:
  "distinct (map f q) \<Longrightarrow> filter (\<lambda>r. f r \<notin> f ` set (take n q)) q = drop n q"
proof (induction q arbitrary: n)
  case (Cons x q)
  show ?case
  proof (cases n)
    case (Suc m)
    have "filter (\<lambda>r. f r \<noteq> f x \<and> f r \<notin> f ` set (take m q)) q
        = filter (\<lambda>r. f r \<notin> f ` set (take m q)) q"
      using Cons.prems by (intro filter_cong) (auto simp: image_iff)
    then show ?thesis using Cons Suc by simp
  qed simp
qed simp

lemma find_append: "find p (xs @ ys) = (case find p xs of None \<Rightarrow> find p ys | Some x \<Rightarrow> Some x)"
  by (induction xs) simp_all

lemma queued_distinct: "distinct (run_ids d) \<Longrightarrow> distinct (map run_id (queued_runs d))"
  by (simp add: queued_runs_def run_ids_def distinct_map inj_on_def)

lemma claim_scan_find:
  assumes "distinct (run_ids d)"
  shows "claim_scan avail d seen = find (claim_candidate avail d) (filter (\<lambda>r. run_id r \<notin> set seen) (queued_runs d))"
  using assms
proof (induction avail d seen rule: claim_scan.induct)
  case (1 avail d seen)
  let ?q = "filter (\<lambda>r. run_id r \<notin> set seen) (queued_runs d)"
  let ?b = "claim_batch d seen"
  have b: "?b = take claim_batch_size ?q" by (simp add: claim_batch_def)
  have split: "find p ?q = (case find p ?b of None \<Rightarrow> find p (drop claim_batch_size ?q) | Some x \<Rightarrow> Some x)" for p
    unfolding b by (metis append_take_drop_id find_append)
  have dist: "distinct (map run_id ?q)"
    using queued_distinct [OF "1.prems"] by (simp add: distinct_map inj_on_def)
  have rest: "filter (\<lambda>r. run_id r \<notin> set (seen @ map run_id ?b)) (queued_runs d) = drop claim_batch_size ?q"
  proof -
    have "filter (\<lambda>r. run_id r \<notin> set (seen @ map run_id ?b)) (queued_runs d)
        = filter (\<lambda>r. run_id r \<notin> run_id ` set ?b) ?q"
      by (auto intro: filter_cong)
    then show ?thesis using filter_not_taken [OF dist] b by simp
  qed
  show ?case
  proof (cases "?b = []")
    case True
    then have "?q = []" by (simp add: b claim_batch_size_def)
    with True show ?thesis by (simp add: Let_def)
  next
    case False
    show ?thesis
    proof (cases "find (claim_candidate avail d) ?b")
      case None
      then have "claim_scan avail d seen = claim_scan avail d (seen @ map run_id ?b)"
        using False by (subst claim_scan.simps) (simp add: Let_def)
      also have "\<dots> = find (claim_candidate avail d) (drop claim_batch_size ?q)"
        using "1.IH" [OF refl False None "1.prems"] rest by simp
      finally show ?thesis using split None by simp
    next
      case (Some row)
      then show ?thesis using False split by (subst claim_scan.simps) (simp add: Let_def)
    qed
  qed
qed

text \<open>
  C10: \<open>claim_next\<close> is fair: although the queue is read in batches of 25 and skipped rows are
  remembered, the run it picks is the first one in (\<open>created_at\<close>, \<open>id\<close>) order, over the whole
  queue, that can be locked and is not waiting for another run; when there is none it answers none.
\<close>

theorem claim_scan_first:
  assumes "db_inv d"
  shows "claim_scan avail d [] = find (claim_candidate avail d) (queued_runs d)"
  using assms claim_scan_find [of d avail "[]"] by (simp add: db_inv_def)

text \<open>
  \<open>claim_next\<close> starts the run it picks: the queue's first claimable run becomes \<open>starting\<close>
  with the reason \<open>claimed\<close>, by the guarded transition, and is the answer.
\<close>

theorem claim_next_starts:
  assumes "db_inv (work s)" and "claim_scan avail (work s) [] = Some row"
  shows "claim_next now hook avail s
    = (Inr (Some (to_domain (moved_row now row STARTING (default_opts\<lparr>so_reason := Some ''claimed''\<rparr>)))),
       publish s (apply_transition now hook row STARTING (default_opts\<lparr>so_reason := Some ''claimed''\<rparr>) (work s)))"
proof -
  let ?o = "default_opts\<lparr>so_reason := Some ''claimed''\<rparr>"
  from assms have f: "find (claim_candidate avail (work s)) (queued_runs (work s)) = Some row"
    using claim_scan_find [of "work s" avail "[]"] by (simp add: db_inv_def)
  then have mem: "row \<in> set (queued_runs (work s))" and c: "claim_candidate avail (work s) row"
    by (auto simp: find_Some_iff in_set_conv_nth)
  then have "row \<in> set (runs (work s))" by (simp add: queued_runs_def)
  then have find: "find_run (work s) (run_id row) = Some row"
    using assms(1) find_run_unique by (simp add: db_inv_def)
  have st: "row_run_status row = QUEUED"
    using c row_run_status_value [of row QUEUED] by (simp add: claim_candidate_def)
  have step: "run_step False QUEUED STARTING" by (simp add: run_step_allowed)
  have "set_status_on_locked_run now hook row (StatusEnum STARTING) ?o s
    = (Inr (to_domain (moved_row now row STARTING ?o), True), publish s (apply_transition now hook row STARTING ?o (work s)))"
    by (rule locked_transition_commits [OF assms(1) find, where current = QUEUED])
       (use run_step_ensure [OF step] st in \<open>simp_all add: default_opts_def holds_claim_def expectations_met_def\<close>)
  then show ?thesis
    using assms(2) by (simp add: claim_next_def pbind_eq pread_def pret_def)
qed

section \<open>Acquiring a claim\<close>

definition acquired :: "instant \<Rightarrow> string \<Rightarrow> agent_run_row \<Rightarrow> db \<Rightarrow> db" where
  "acquired now token row d =
     add_events now (claim_status_events row (row_run_status row) @ [claim_lifecycle_event row (row_run_status row)])
       (replace_run (claimed_values now token row row) d)"

definition new_claim :: "string \<Rightarrow> agent_run_row \<Rightarrow> execution_claim" where
  "new_claim token row = \<lparr>cl_run_id = run_id row, cl_token = token, cl_attempt = execution_attempt row + 1\<rparr>"

lemma claim_events_fresh:
  assumes "event_fk_ok d (run_id row) (root_run_id row)" and "run_id row \<noteq> 0"
  shows "list_all (fresh_event d) (claim_status_events row st @ [claim_lifecycle_event row st])"
  using assms
  by (auto simp: claim_status_events_def claim_lifecycle_event_def fresh_event_def event_fk_ok_def
      mk_event_def Let_def or_id_def split: option.splits if_splits)

lemma acquire_transaction_eq:
  assumes "db_inv (work s)" and "find_run (work s) i = Some row"
    and "row_run_status row \<in> set OPEN_RUN_STATUSES" and "execution_token row = None"
  shows "try_acquire_transaction now token i s
    = (Inr (Some (new_claim token row)),
       s\<lparr>work := acquired now token row (work s), committed := acquired now token row (work s)\<rparr>)"
proof -
  note facts = row_facts [OF assms(1,2)]
  let ?st = "row_run_status row"
  let ?d = "replace_run (claimed_values now token row row) (work s)"
  have tx: "row_status row = rs_value ?st" by (rule open_status_text [OF assms(3) facts(2)])
  have pred: "claimable row ?st row"
    unfolding claimable_def using assms(3,4) tx active_value_open by simp
  have find: "find_run (work s) (run_id row) = Some row" using assms(2) facts(1) by simp
  have upd: "sql_update (claimable row ?st) (claimed_values now token row) s = (Inr True, s\<lparr>work := ?d\<rparr>)"
    using update_is_replace [where p = "claimable row ?st" and f = "claimed_values now token row", OF facts(3) find pred]
    by (simp add: sql_update_def claimable_def)
  have "list_all (fresh_event (work (s\<lparr>work := ?d\<rparr>))) (claim_status_events row ?st @ [claim_lifecycle_event row ?st])"
    using claim_events_fresh [of ?d row ?st] facts by (simp add: event_fk_ok_def)
  from pfor_emit_fresh [OF this, of now]
  have ev: "pfor (emit now) (claim_status_events row ?st @ [claim_lifecycle_event row ?st]) (s\<lparr>work := ?d\<rparr>)
      = (Inr (), publish s (acquired now token row (work s)))"
    by (simp add: acquired_def)
  show ?thesis
    using assms(2) terminal_not_open [OF assms(3)]
    by (simp add: try_acquire_transaction_def pbind_eq locked_run_eq upd ev Let_def commit_def pret_def
        new_claim_def publish_def)
qed

text \<open>
  Acquiring the execution claim of an open run that nobody holds succeeds: the run is
  \<open>running\<close> under the caller's token with the next attempt number, the audit events are appended
  and everything is committed, whatever open status the run had.
\<close>

theorem acquire_claims_run:
  assumes "db_inv (work s)" and "find_run (work s) i = Some row"
    and "row_run_status row \<in> set OPEN_RUN_STATUSES" and "execution_token row = None"
  shows "try_acquire_transaction now token i s
    = (Inr (Some (new_claim token row)),
       s\<lparr>work := acquired now token row (work s), committed := acquired now token row (work s)\<rparr>)"
  by (rule acquire_transaction_eq [OF assms])

text \<open>
  The claim is exclusive: while a row carries a token, and once it is settled, nobody else can
  acquire it; the attempt answers none, and of the session only uncommitted work is given up.
\<close>

theorem acquire_excluded:
  assumes "find_run (work s) i = Some row"
    and "execution_token row \<noteq> None \<or> row_run_status row \<in> set TERMINAL_RUN_STATUSES"
    and "distinct (run_ids (work s))"
  shows "try_acquire_transaction now token i s
    = (Inr None, if row_run_status row \<in> set TERMINAL_RUN_STATUSES then s else s\<lparr>work := committed s\<rparr>)"
proof (cases "row_run_status row \<in> set TERMINAL_RUN_STATUSES")
  case False
  have "\<not> claimable row (row_run_status row) r" if "r \<in> set (runs (work s))" for r
  proof
    assume c: "claimable row (row_run_status row) r"
    then have "run_id r = i" "execution_token r = None"
      using find_run_SomeD [OF assms(1)] by (simp_all add: claimable_def)
    with find_run_unique [OF assms(3) that] assms(1,2) False show False by simp
  qed
  then have "\<not> list_ex (claimable row (row_run_status row)) (runs (work s))"
    by (simp add: list_ex_iff)
  then show ?thesis
    using assms(1) False
    by (simp add: try_acquire_transaction_def pbind_eq locked_run_eq Let_def sql_update_def rollback_def pret_def)
qed (use assms(1) in \<open>simp add: try_acquire_transaction_def pbind_eq locked_run_eq Let_def pret_def\<close>)

text \<open>
  Deadlocks are survived: when the database breaks off the first \<open>k < 3\<close> attempts of the claim
  transaction with a deadlock, each is rolled back and the next attempt gives what a clean one
  would give on the committed state.
\<close>

theorem acquire_survives_deadlocks:
  assumes "\<And>n. 1 \<le> n \<Longrightarrow> n \<le> k \<Longrightarrow> \<exists>e. faults n = Some e \<and> is_postgres_deadlock e"
    and "k < DEADLOCK_RETRY_ATTEMPTS" and "faults (k + 1) = None"
    and "work s = committed s" and "find_run (committed s) i \<noteq> None"
    and "try_acquire_transaction now token i s = (Inr claim, s')"
  shows "acquire_attempts now faults token i 1 s = (Inr claim, s')"
proof -
  have "acquire_attempts now faults token i (k + 1 - m) s = (Inr claim, s')" if "m \<le> k" for m
    using that
  proof (induction m)
    case 0
    show ?case
      using assms(3,6) by (simp add: attempt_transaction_def)
  next
    case (Suc m)
    have "1 \<le> k - m" using Suc.prems by linarith
    from assms(1) [OF this] obtain e where e: "faults (k - m) = Some e" "is_postgres_deadlock e"
      by auto
    have "\<not> DEADLOCK_RETRY_ATTEMPTS \<le> k - m" using assms(2) by simp
    moreover have "s\<lparr>work := committed s\<rparr> = s" using assms(4) by simp
    ultimately show ?case
      using e Suc assms(5)
      by (subst acquire_attempts.simps)
         (auto simp: attempt_transaction_def praise_def rollback_def locked_run_eq Suc_diff_le)
  qed
  from this [of k] show ?thesis by simp
qed

text \<open>
  The retry is bounded: a third deadlock in a row is raised to the caller with the transaction
  rolled back, and so is any other database error at once.
\<close>

theorem acquire_gives_up:
  assumes "faults n = Some e" and "\<not> is_postgres_deadlock e \<or> n = DEADLOCK_RETRY_ATTEMPTS"
    and "1 \<le> n" and "n \<le> DEADLOCK_RETRY_ATTEMPTS"
    and "\<And>m. 1 \<le> m \<Longrightarrow> m < n \<Longrightarrow> \<exists>e. faults m = Some e \<and> is_postgres_deadlock e"
    and "find_run (committed s) i \<noteq> None"
  shows "acquire_attempts now faults token i 1 s = (Inl e, s\<lparr>work := committed s\<rparr>)"
proof -
  have "acquire_attempts now faults token i (n - m) t = (Inl e, t\<lparr>work := committed t\<rparr>)"
    if "m < n" "find_run (committed t) i \<noteq> None" for m t
    using that
  proof (induction m arbitrary: t)
    case 0
    show ?case
      using assms(1,2) by (subst acquire_attempts.simps) (auto simp: attempt_transaction_def praise_def rollback_def Let_def)
  next
    case (Suc m)
    have "1 \<le> n - Suc m" "n - Suc m < n" using Suc.prems by linarith+
    from assms(5) [OF this] obtain e' where e': "faults (n - Suc m) = Some e'" "is_postgres_deadlock e'"
      by auto
    have "\<not> DEADLOCK_RETRY_ATTEMPTS \<le> n - Suc m" using assms(3,4) Suc.prems by simp
    moreover have "Suc (n - Suc m) = n - m" using Suc.prems by simp
    ultimately show ?case
      using e' Suc.IH [of "t\<lparr>work := committed t\<rparr>"] Suc.prems
      by (subst acquire_attempts.simps)
         (auto simp: attempt_transaction_def praise_def rollback_def locked_run_eq Let_def)
  qed
  from this [of "n - 1" s] assms(3,6) show ?thesis by simp
qed

text \<open>
  Fencing is permanent: a claim that a row does not match, and whose attempt is not ahead of the
  row, never matches again in a state that has evolved from this one.
\<close>

lemma stale_claim_stays_stale:
  assumes "db_evolves a b" and "find_run a i = Some r" and "find_run b i = Some r'"
    and "\<not> claim_matches c r" and "cl_attempt c \<le> execution_attempt r" and "cl_token c \<noteq> []"
  shows "\<not> claim_matches c r'"
proof -
  from db_evolvesD [OF assms(1,2)] assms(3) have ev: "row_evolves r r'" by auto
  show ?thesis
  proof
    assume m: "claim_matches c r'"
    then have "execution_attempt r' = cl_attempt c" and tok: "execution_token r' = Some (cl_token c)"
      using assms(6) by (auto simp: claim_matches_def split: option.splits)
    moreover have "execution_attempt r \<le> execution_attempt r'" using ev by (simp add: row_evolves_def)
    ultimately have "execution_attempt r' = execution_attempt r" using assms(5) by simp
    then have "execution_token r = execution_token r'" using ev tok by (simp add: row_evolves_def)
    with m \<open>execution_attempt r' = execution_attempt r\<close> assms(4) show False by (simp add: claim_matches_def)
  qed
qed

section \<open>Concrete claims\<close>

lemma ex_scan: "claim_scan (\<lambda>_. True) ex_db [] = Some ex_queued"
proof -
  have "queued_runs ex_db = [ex_queued]"
    by (simp add: queued_runs_def ex_db_def ex_row_defs del: rs_value.simps)
  moreover have "claim_candidate (\<lambda>_. True) ex_db ex_queued"
    by (simp add: claim_candidate_def deferred_run_dependency_active_def deferred_run_target_id_def
        DEFERRED_RUN_TARGET_METADATA_KEYS_def ex_row_defs del: rs_value.simps)
  ultimately show ?thesis using claim_scan_find [of ex_db "\<lambda>_. True" "[]"] ex_db_inv by (simp add: db_inv_def)
qed

lemma claim_scan_first_witness:
  "find (claim_candidate (\<lambda>_. True) ex_db) (queued_runs ex_db) = Some ex_queued"
  using claim_scan_first [OF ex_db_inv, of "\<lambda>_. True"] ex_scan by simp

lemma claim_next_starts_witness:
  "claim_next 500 ex_hook (\<lambda>_. True) ex_session
    = (Inr (Some (to_domain (moved_row 500 ex_queued STARTING (default_opts\<lparr>so_reason := Some ''claimed''\<rparr>)))),
       publish ex_session (apply_transition 500 ex_hook ex_queued STARTING (default_opts\<lparr>so_reason := Some ''claimed''\<rparr>) ex_db))"
  using claim_next_starts [of ex_session "\<lambda>_. True" ex_queued 500 ex_hook] ex_scan by simp

lemma ex_queued_token [simp]: "execution_token ex_queued = None" "execution_token ex_running = Some ''tok''"
  by (simp_all add: ex_row_defs)

lemma ex_open [simp]: "QUEUED \<in> set OPEN_RUN_STATUSES" "RUNNING \<notin> set TERMINAL_RUN_STATUSES"
  by (simp_all add: run_status_groups)

lemma acquire_claims_run_witness:
  "try_acquire_transaction 500 ''tok2'' 1 ex_session
    = (Inr (Some (new_claim ''tok2'' ex_queued)),
       ex_session\<lparr>work := acquired 500 ''tok2'' ex_queued ex_db, committed := acquired 500 ''tok2'' ex_queued ex_db\<rparr>)"
  using acquire_claims_run [of ex_session 1 ex_queued 500 "''tok2''"] by simp

lemma acquire_excluded_witness:
  "try_acquire_transaction 500 ''tok2'' 2 ex_session = (Inr None, ex_session)"
  using acquire_excluded [of ex_session 2 ex_running 500 "''tok2''"] ex_db_inv
  by (simp add: db_inv_def ex_session_def)

definition ex_deadlock :: py_error where
  "ex_deadlock = DBAPIError [''23505'', ''40P01'']"

lemma ex_deadlock [simp]: "is_postgres_deadlock ex_deadlock"
  by (simp add: ex_deadlock_def)

lemma acquire_survives_deadlocks_witness:
  "acquire_attempts 500 (\<lambda>n. if n \<le> 2 then Some ex_deadlock else None) ''tok2'' 1 1 ex_session
    = (Inr (Some (new_claim ''tok2'' ex_queued)),
       ex_session\<lparr>work := acquired 500 ''tok2'' ex_queued ex_db, committed := acquired 500 ''tok2'' ex_queued ex_db\<rparr>)"
proof (rule acquire_survives_deadlocks [where k = 2])
  show "try_acquire_transaction 500 ''tok2'' 1 ex_session = (Inr (Some (new_claim ''tok2'' ex_queued)),
       ex_session\<lparr>work := acquired 500 ''tok2'' ex_queued ex_db, committed := acquired 500 ''tok2'' ex_queued ex_db\<rparr>)"
    using acquire_transaction_eq [of ex_session 1 ex_queued 500 "''tok2''"] by simp
qed (simp_all add: DEADLOCK_RETRY_ATTEMPTS_def)

lemma acquire_gives_up_witness:
  "acquire_attempts 500 (\<lambda>_. Some ex_deadlock) ''tok2'' 1 1 ex_session = (Inl ex_deadlock, ex_session)"
proof -
  have "acquire_attempts 500 (\<lambda>_. Some ex_deadlock) ''tok2'' 1 1 ex_session
      = (Inl ex_deadlock, ex_session\<lparr>work := committed ex_session\<rparr>)"
    by (rule acquire_gives_up [where n = 3]) (simp_all add: DEADLOCK_RETRY_ATTEMPTS_def)
  then show ?thesis by (simp add: ex_session_def)
qed

end
