(* ===== verification/Run_Steering.thy ===== *)
theory Run_Steering
  imports Run_Claims
begin

text \<open>
  The steering inbox of a run (\<open>append_steering\<close>, \<open>drain_steering\<close> of \<open>runs/store.py\<close>): messages are
  events of the run's stream, and a cursor in the run's metadata says how far they have been
  delivered. The argument \<open>other\<close> of a drain is what other sessions publish between its first read
  and its lock.
\<close>

definition STEERING_SUBMITTED_EVENT :: string where
  "STEERING_SUBMITTED_EVENT = ''run.steering_submitted''"

definition STEERING_CURSOR_METADATA_KEY :: string where
  "STEERING_CURSOR_METADATA_KEY = ''steering_cursor_sequence_no''"

definition append_steering ::
  "instant \<Rightarrow> int \<Rightarrow> string \<Rightarrow> string option \<Rightarrow> int option \<Rightarrow> event_row prog" where
  "append_steering now i content user message_id =
     pbind (require_run i) (\<lambda>run.
       let m = steering_normalized now \<lparr>sm_run_id = run_id run, sm_content = content, sm_user_id = user,
                 sm_created_at = None\<rparr>
       in if sm_content m = [] then praise (ValueError ''Steering content is required'')
          else append_event now (mk_event (run_id run) STEERING_SUBMITTED_EVENT
                 ([(''content'', PyStr (sm_content m)), (''user_id'', opt_str (sm_user_id m))]
                  @ (case message_id of None \<Rightarrow> [] | Some k \<Rightarrow> [(''thread_message_id'', PyInt k)]))
                 (root_run_id run) ''user'' PUBLIC))"

definition steering_cursor :: "pydict \<Rightarrow> int" where
  "steering_cursor md = coerce_int (dget md STEERING_CURSOR_METADATA_KEY) 0"

definition pending_steering :: "db \<Rightarrow> int \<Rightarrow> int \<Rightarrow> event_row list" where
  "pending_steering d i cursor =
     sort_key er_sequence_no (sort_key er_id
       (filter (\<lambda>e. er_type e = STEERING_SUBMITTED_EVENT \<and> cursor < er_sequence_no e) (run_events d i)))"

definition steering_of_event :: "instant \<Rightarrow> event_row \<Rightarrow> steering_message" where
  "steering_of_event now e =
     steering_normalized now
       \<lparr>sm_run_id = er_run_id e,
        sm_content = py_str (py_or (dget (er_payload e) ''content'') (PyStr [])),
        sm_user_id = (let u = dget (er_payload e) ''user_id'' in if py_truthy u then Some (py_str u) else None),
        sm_created_at = Some (er_created_at e)\<rparr>"

definition steering_messages :: "instant \<Rightarrow> event_row list \<Rightarrow> steering_message list" where
  "steering_messages now rows = filter (\<lambda>m. sm_content m \<noteq> []) (map (steering_of_event now) rows)"

definition drain_steering :: "instant \<Rightarrow> (db \<Rightarrow> db) \<Rightarrow> int \<Rightarrow> steering_message list prog" where
  "drain_steering now other i =
     pbind get_auto_commit (\<lambda>ac.
     let give_up = (if ac then rollback else pret ()) in
     pbind (require_run i) (\<lambda>run.
     pbind (pread (\<lambda>d. pending_steering d i (steering_cursor (metadata run)))) (\<lambda>rows.
     if rows = [] then pbind give_up (\<lambda>_. pret [])
     else pbind (pwrite other) (\<lambda>_.
       pbind (locked_run i) (\<lambda>locked.
       let md = metadata locked;
           fresh = filter (\<lambda>e. steering_cursor md < er_sequence_no e) rows
       in if fresh = [] then pbind give_up (\<lambda>_. pret [])
          else pbind (flush_metadata now i
                 (dset md STEERING_CURSOR_METADATA_KEY (PyInt (er_sequence_no (last fresh))))) (\<lambda>_.
               pbind commit_if_auto (\<lambda>_. pret (steering_messages now fresh))))))))"

section \<open>Steering keeps the invariant\<close>

lemma safe_append_steering [safe_intros]: "safe (append_steering now i content user k)"
  unfolding append_steering_def Let_def by (intro safe_intros)

lemma safe_drain_steering: "(\<And>d. good_write other d) \<Longrightarrow> safe (drain_steering now other i)"
  unfolding drain_steering_def Let_def by (intro safe_intros safe_pwrite)

section \<open>Delivery\<close>

lemma pending_set:
  "set (pending_steering d i cursor)
   = {e \<in> set (run_events d i). er_type e = STEERING_SUBMITTED_EVENT \<and> cursor < er_sequence_no e}"
  by (auto simp: pending_steering_def)

lemma pending_sorted: "sorted (map er_sequence_no (pending_steering d i cursor))"
  by (simp add: pending_steering_def)

lemma filter_sort_key: "filter p (sort_key f xs) = sort_key f (filter p xs)"
  by (rule filter_sort)

lemma pending_filter:
  "filter (\<lambda>e. m < er_sequence_no e) (pending_steering d i cursor) = pending_steering d i (max cursor m)"
  unfolding pending_steering_def filter_sort_key filter_filter
  by (intro arg_cong [where f = "sort_key er_sequence_no"] arg_cong [where f = "sort_key er_id"] filter_cong) auto

lemma sorted_last: "sorted (map f xs) \<Longrightarrow> x \<in> set xs \<Longrightarrow> f x \<le> (f (last xs) :: int)"
  by (induction xs) (auto simp: last_ConsR)

lemma find_flush:
  assumes "distinct (run_ids d)" and "find_run d i = Some row"
  shows "find_run (update_runs_where (\<lambda>r. run_id r = i \<and> metadata r \<noteq> md) (\<lambda>r. r\<lparr>metadata := md, updated_at := now\<rparr>) d) i
    = Some (if metadata row = md then row else row\<lparr>metadata := md, updated_at := now\<rparr>)"
  using find_run_SomeD [OF assms(2)] assms(2) by (simp add: find_run_update)

text \<open>
  A drain delivers exactly the undelivered messages: the submitted steering events beyond the
  cursor, in sequence order, blank ones dropped; afterwards the cursor stands at the last of them.
\<close>

theorem drain_delivers_pending:
  assumes "db_inv (work s)" and "find_run (work s) i = Some row"
    and "pending_steering (work s) i (steering_cursor (metadata row)) \<noteq> []"
  shows "\<exists>s' row'. drain_steering now id i s
      = (Inr (steering_messages now (pending_steering (work s) i (steering_cursor (metadata row)))), s')
    \<and> find_run (work s') i = Some row' \<and> events (work s') = events (work s)
    \<and> (\<forall>e \<in> set (pending_steering (work s) i (steering_cursor (metadata row))).
         er_sequence_no e \<le> steering_cursor (metadata row'))
    \<and> pending_steering (work s') i (steering_cursor (metadata row')) = []"
proof -
  let ?c = "steering_cursor (metadata row)"
  let ?p = "pending_steering (work s) i ?c"
  let ?md = "dset (metadata row) STEERING_CURSOR_METADATA_KEY (PyInt (er_sequence_no (last ?p)))"
  let ?d = "update_runs_where (\<lambda>r. run_id r = i \<and> metadata r \<noteq> ?md) (\<lambda>r. r\<lparr>metadata := ?md, updated_at := now\<rparr>) (work s)"
  let ?s = "publish s ?d"
  have fresh: "filter (\<lambda>e. ?c < er_sequence_no e) ?p = ?p"
    by (rule filter_True) (simp add: pending_set)
  have run: "drain_steering now id i s = (Inr (steering_messages now ?p), ?s)"
    using assms(2,3) fresh
    by (simp add: drain_steering_def pbind_eq get_auto_commit_def locked_run_eq pread_def pwrite_def
        flush_metadata_def sql_update_def commit_if_auto_eq pret_def Let_def)
  have dist: "distinct (run_ids (work s))" using assms(1) by (simp add: db_inv_def)
  obtain row' where row': "find_run ?d i = Some row'" "metadata row' = ?md"
    using find_flush [OF dist assms(2), of ?md now] by (cases "metadata row = ?md") auto
  then have cur: "steering_cursor (metadata row') = er_sequence_no (last ?p)"
    by (simp add: steering_cursor_def coerce_int_def)
  have le: "\<forall>e \<in> set ?p. er_sequence_no e \<le> er_sequence_no (last ?p)"
    using sorted_last [OF pending_sorted] by blast
  have "last ?p \<in> set ?p" using assms(3) by simp
  then have "?c < er_sequence_no (last ?p)" by (simp add: pending_set)
  then have "set (pending_steering (work s) i (er_sequence_no (last ?p))) = {}"
    using le by (auto simp: pending_set)
  then have "pending_steering ?d i (er_sequence_no (last ?p)) = []"
    by (simp add: pending_steering_def)
  with run row'(1) cur le show ?thesis by (intro exI [of _ ?s] exI [of _ row']) simp
qed

text \<open>
  No message is delivered twice by racing drains: when another session has moved the cursor to
  \<open>m\<close> before this drain got the lock, only messages beyond \<open>m\<close> are delivered here.
\<close>

theorem drain_respects_rival:
  assumes "find_run (work s) i = Some row"
    and "find_run (other (work s)) i = Some row'" and "steering_cursor (metadata row') = m"
    and "drain_steering now other i s = (Inr ms, s')"
  shows "ms = steering_messages now (pending_steering (work s) i (max (steering_cursor (metadata row)) m))"
proof (cases "pending_steering (work s) i (steering_cursor (metadata row)) = []")
  case True
  then have "pending_steering (work s) i (max (steering_cursor (metadata row)) m) = []"
    unfolding pending_filter [symmetric] by simp
  with True assms(1,4) show ?thesis
    by (auto simp: drain_steering_def pbind_eq get_auto_commit_def locked_run_eq pread_def pret_def
        steering_messages_def rollback_def Let_def split: if_splits)
next
  case False
  with assms show ?thesis
    by (auto simp: drain_steering_def pbind_eq get_auto_commit_def locked_run_eq pread_def pwrite_def
        flush_metadata_def sql_update_def commit_if_auto_eq pret_def Let_def pending_filter
        steering_messages_def rollback_def split: if_splits)
qed

section \<open>A concrete inbox\<close>

definition ex_steer :: "int \<Rightarrow> string \<Rightarrow> event_row" where
  "ex_steer k body = \<lparr>er_id = 3 + k, er_run_id = 2, er_root_run_id = 1, er_sequence_no = 1 + k,
     er_type = STEERING_SUBMITTED_EVENT, er_payload = [(''content'', PyStr body), (''user_id'', PyStr ''u'')],
     er_producer = ''user'', er_visibility = ''public'', er_created_at = 100 + k\<rparr>"

definition ex_inbox :: db where
  "ex_inbox = ex_db\<lparr>events := events ex_db @ [ex_steer 1 ''stop'', ex_steer 2 ''go  on''], next_event_id := 6\<rparr>"

definition ex_inbox_session :: session where
  "ex_inbox_session = \<lparr>committed = ex_inbox, work = ex_inbox, auto_commit = True, lost = []\<rparr>"

lemma ex_inbox_simps [simp]:
  "work ex_inbox_session = ex_inbox" "find_run ex_inbox i = find_run ex_db i"
  by (simp_all add: ex_inbox_session_def ex_inbox_def find_run_def)

lemma ex_inbox_inv [simp]: "db_inv ex_inbox"
proof -
  have "row_ok ex_inbox r" if "row_ok ex_db r" for r
    using that by (simp add: row_ok_def ex_inbox_def run_ids_def)
  moreover have "events_ok ex_inbox"
    by (simp add: ex_inbox_def ex_db_def ex_row_defs run_ids_def events_ok_def ex_created_def ex_steer_def)
  ultimately show ?thesis
    using ex_db_inv by (simp add: db_inv_def keys_ok_def ex_inbox_def run_ids_def)
qed

lemma ex_cursor [simp]: "steering_cursor (metadata ex_running) = 0"
  by (simp add: steering_cursor_def coerce_int_def ex_row_defs STEERING_CURSOR_METADATA_KEY_def)

lemma ex_pending [simp]: "pending_steering ex_inbox 2 0 = [ex_steer 1 ''stop'', ex_steer 2 ''go  on'']"
  by (simp add: pending_steering_def run_events_def ex_inbox_def ex_db_def ex_created_def ex_steer_def
      STEERING_SUBMITTED_EVENT_def)

lemma drain_delivers_pending_witness:
  "\<exists>s'. drain_steering 500 id 2 ex_inbox_session
      = (Inr (steering_messages 500 [ex_steer 1 ''stop'', ex_steer 2 ''go  on'']), s')
    \<and> events (work s') = events ex_inbox"
  using drain_delivers_pending [of ex_inbox_session 2 ex_running 500] by auto

text \<open>A rival drain that has moved the cursor past the first message.\<close>

definition ex_rival_drain :: "db \<Rightarrow> db" where
  "ex_rival_drain = update_runs_where (\<lambda>r. run_id r = 2)
     (\<lambda>r. r\<lparr>metadata := dset (metadata r) STEERING_CURSOR_METADATA_KEY (PyInt 2)\<rparr>)"

lemma drain_respects_rival_witness:
  "\<exists>s'. drain_steering 500 ex_rival_drain 2 ex_inbox_session
      = (Inr (steering_messages 500 [ex_steer 2 ''go  on'']), s')"
proof -
  obtain r s' where run: "drain_steering 500 ex_rival_drain 2 ex_inbox_session = (r, s')"
    by (cases "drain_steering 500 ex_rival_drain 2 ex_inbox_session")
  have rival: "find_run (ex_rival_drain ex_inbox) 2
      = Some (ex_running\<lparr>metadata := dset (metadata ex_running) STEERING_CURSOR_METADATA_KEY (PyInt 2)\<rparr>)"
    by (simp add: ex_rival_drain_def find_run_update ex_row_defs)
  have "isl r = False"
    using run rival by (auto simp: drain_steering_def pbind_eq get_auto_commit_def locked_run_eq pread_def pwrite_def
        flush_metadata_def sql_update_def commit_if_auto_eq pret_def rollback_def Let_def split: if_splits)
  then obtain ms where r: "r = Inr ms" by (cases r) auto
  have "steering_cursor (dset (metadata ex_running) STEERING_CURSOR_METADATA_KEY (PyInt 2)) = 2"
    by (simp add: steering_cursor_def coerce_int_def)
  moreover have "pending_steering ex_inbox 2 2 = [ex_steer 2 ''go  on'']"
    by (simp add: pending_steering_def run_events_def ex_inbox_def ex_db_def ex_created_def ex_steer_def
        STEERING_SUBMITTED_EVENT_def)
  ultimately show ?thesis
    using drain_respects_rival [of ex_inbox_session 2 ex_running ex_rival_drain _ 2 500 ms s'] rival run r
    by simp
qed

end
