(* ===== verification/Run_Watchdog.thy ===== *)
theory Run_Watchdog
  imports Run_Steering
begin

text \<open>
  What watches over executing runs: the heartbeat of a runner (\<open>heartbeat_run\<close> of \<open>runs/store.py\<close>), the time since
  its last state-changing tool call (\<open>runs/tool_event_read_model.py\<close>), and the deadline sweep of
  \<open>runs/deadlines.py\<close>, which first asks a run to close out and expires it when the grace window has elapsed.
  \<open>fromiso\<close> is \<open>datetime.fromisoformat\<close>; \<open>avail\<close> says whose locks a sweep obtains without waiting.
\<close>

section \<open>Heartbeats\<close>

definition RUNNER_HEARTBEAT_METADATA_KEY :: string where
  "RUNNER_HEARTBEAT_METADATA_KEY = ''runner_heartbeat''"

definition RUNNER_HEARTBEAT_STATUSES :: "run_status list" where
  "RUNNER_HEARTBEAT_STATUSES = [STARTING, RUNNING, VERIFYING]"

definition parse_datetime :: "(string \<Rightarrow> datetime option) \<Rightarrow> pyval \<Rightarrow> instant option" where
  "parse_datetime fromiso v = (case v of
       PyStr s \<Rightarrow> if py_strip s = [] then None
         else map_option assume_utc (fromiso (concat (map (\<lambda>c. if c = CHR ''Z'' then ''+00:00'' else [c]) s)))
     | _ \<Rightarrow> None)"

definition previous_heartbeat :: "agent_run_row \<Rightarrow> pydict" where
  "previous_heartbeat row = (case dget (metadata row) RUNNER_HEARTBEAT_METADATA_KEY of PyDict d \<Rightarrow> d | _ \<Rightarrow> [])"

text \<open>Intervals are in microseconds.\<close>

definition heartbeat_write_needed ::
  "(string \<Rightarrow> datetime option) \<Rightarrow> instant \<Rightarrow> int \<Rightarrow> agent_run_row \<Rightarrow> bool" where
  "heartbeat_write_needed fromiso now min_interval row =
     (row_run_status row \<in> set RUNNER_HEARTBEAT_STATUSES
      \<and> (min_interval \<le> 0
         \<or> (case parse_datetime fromiso (dget (previous_heartbeat row) ''at'') of
              None \<Rightarrow> True | Some t \<Rightarrow> min_interval \<le> now - t)))"

definition heartbeat_record :: "instant \<Rightarrow> string option \<Rightarrow> string option \<Rightarrow> agent_run_row \<Rightarrow> pydict" where
  "heartbeat_record now token reason row =
     (let previous = previous_heartbeat row in
      [(''at'', PyStr (isoformat now)),
       (''token'', py_or (opt_str token) (dget previous ''token'')),
       (''reason'', py_or (py_or (opt_str reason) (dget previous ''reason'')) (PyStr ''running''))])"

definition heartbeat_run ::
  "(string \<Rightarrow> datetime option) \<Rightarrow> instant \<Rightarrow> (db \<Rightarrow> db) \<Rightarrow> int \<Rightarrow> string option \<Rightarrow> string option \<Rightarrow> int \<Rightarrow> bool prog" where
  "heartbeat_run fromiso now other i token reason min_interval =
     pbind (refresh_run i) (\<lambda>snapshot.
     if \<not> heartbeat_write_needed fromiso now min_interval snapshot then pret False
     else pbind (pwrite other) (\<lambda>_.
       pbind (locked_run i) (\<lambda>row.
       if \<not> heartbeat_write_needed fromiso now min_interval row then pret False
       else pbind (flush_metadata now i (dset (metadata row) RUNNER_HEARTBEAT_METADATA_KEY
                     (PyDict (heartbeat_record now token reason row)))) (\<lambda>_. pret True))))"

section \<open>The last state-changing tool call\<close>

definition TOOL_RESULT_EVENT_TYPES :: "string list" where
  "TOOL_RESULT_EVENT_TYPES = [''run.tool_completed'', ''run.tool_failed'']"

definition KNOWN_SIDE_EFFECT_CLASSES :: "string list" where
  "KNOWN_SIDE_EFFECT_CLASSES =
     [''append_only'', ''browser_artifact'', ''browser_interaction'', ''browser_navigation'', ''browser_session'',
      ''cycle_management'', ''chat_message'', ''run_annotation'', ''domain_management'', ''inbound_configuration'',
      ''idea_management'', ''memory_curation'', ''deployment_management'', ''workspace_tool_management'',
      ''soul_management'', ''project_context_management'', ''file_edit'', ''file_write'', ''read_only'',
      ''read_only_external'', ''run_spawn'', ''runtime_configuration'', ''scratchpad'', ''scratchpad_lifecycle'',
      ''shell'', ''skill_write'', ''write'', ''workspace_app_management'',
      ''read'', ''command'', ''external'', ''unknown'']"

definition NON_WRITE_SIDE_EFFECT_CLASSES :: "string list" where
  "NON_WRITE_SIDE_EFFECT_CLASSES = [''read'', ''read_only'', ''read_only_external'']"

record tool_side_effect =
  ts_side_effect :: string
  ts_is_write :: bool

definition parse_persisted_tool_side_effect :: "pydict \<Rightarrow> tool_side_effect" where
  "parse_persisted_tool_side_effect payload =
     (let side_effect = (case dget payload ''side_effect'' of
            PyStr s \<Rightarrow> if s \<in> set KNOWN_SIDE_EFFECT_CLASSES then s else ''unknown'' | _ \<Rightarrow> ''unknown'')
      in \<lparr>ts_side_effect = side_effect,
          ts_is_write = (case dget payload ''is_write'' of
              PyBool b \<Rightarrow> b | _ \<Rightarrow> side_effect \<notin> set NON_WRITE_SIDE_EFFECT_CLASSES)\<rparr>)"

text \<open>The same decision as the SQL expression of the query, on the JSON column.\<close>

definition persisted_is_write :: "pydict \<Rightarrow> bool" where
  "persisted_is_write payload = (case dget payload ''is_write'' of
       PyBool b \<Rightarrow> b
     | _ \<Rightarrow> (case dget payload ''side_effect'' of PyStr s \<Rightarrow> s \<notin> set NON_WRITE_SIDE_EFFECT_CLASSES | _ \<Rightarrow> True))"

text \<open>\<open>ORDER BY created_at DESC, id DESC LIMIT 1\<close>.\<close>

definition last_write_event :: "db \<Rightarrow> int \<Rightarrow> event_row option" where
  "last_write_event d i =
     (case rev (sort_key er_created_at (sort_key er_id (filter (\<lambda>e. er_type e \<in> set TOOL_RESULT_EVENT_TYPES
             \<and> persisted_is_write (er_payload e)) (run_events d i)))) of
        [] \<Rightarrow> None | e # _ \<Rightarrow> Some e)"

definition seconds_since_last_write :: "db \<Rightarrow> int \<Rightarrow> instant \<Rightarrow> int option" where
  "seconds_since_last_write d i now = (case last_write_event d i of
       None \<Rightarrow> None
     | Some e \<Rightarrow> if ts_is_write (parse_persisted_tool_side_effect (er_payload e))
         then Some (max 0 ((now - er_created_at e) div 1000000)) else None)"

section \<open>The deadline sweep\<close>

definition OPEN_STATUS_VALUES :: "string list" where
  "OPEN_STATUS_VALUES = map rs_value OPEN_RUN_STATUSES"

definition deadline_closeout_grace_seconds :: "environ \<Rightarrow> int" where
  "deadline_closeout_grace_seconds env = max 1 (getenv_int env ''AGENT_RUN_DEADLINE_CLOSEOUT_SECONDS'' 90)"

definition elapsed_label :: "int option \<Rightarrow> string" where
  "elapsed_label elapsed = (case elapsed of
       None \<Rightarrow> ''No state-changing tool call has completed yet.''
     | Some n \<Rightarrow> (let s = max 0 n in
         if s < 60 then ''The last state-changing tool call completed '' @ show_int s @ '' seconds ago.''
         else let minutes = s div 60; unit = (if minutes = 1 then ''minute'' else ''minutes'') in
           ''The last state-changing tool call completed '' @ show_int minutes @ '' '' @ unit @ '' ago.''))"

definition deadline_due :: "instant \<Rightarrow> agent_run_row \<Rightarrow> bool" where
  "deadline_due now r = (row_status r \<in> set OPEN_STATUS_VALUES
      \<and> (case deadline_at r of None \<Rightarrow> False | Some t \<Rightarrow> t \<le> now))"

definition opt_iso :: "instant option \<Rightarrow> pyval" where
  "opt_iso t = (case t of None \<Rightarrow> PyNone | Some i \<Rightarrow> PyStr (isoformat i))"

definition closeout_content :: "int \<Rightarrow> int option \<Rightarrow> string" where
  "closeout_content grace elapsed =
     ''[SYSTEM DEADLINE] This run has reached its wall-clock deadline. ''
     @ ''Stop gathering new information now. Persist the best partial result you have ''
     @ ''and emit the required closing output. '' @ elapsed_label elapsed
     @ '' The close-out window ends in '' @ show_int grace @ '' seconds.''"

text \<open>The event of the request and the message it puts into the run's inbox.\<close>

definition closeout_events :: "instant \<Rightarrow> int \<Rightarrow> agent_run_row \<Rightarrow> int option \<Rightarrow> run_event list" where
  "closeout_events now grace row elapsed =
     (let i = run_id row; root = Some (or_id (root_run_id row) i) in
      [mk_event i ''run.deadline_closeout_requested''
         [(''deadline_at'', opt_iso (deadline_at row)),
          (''closeout_expires_at'', PyStr (isoformat (now + seconds grace))),
          (''grace_seconds'', PyInt grace), (''seconds_since_last_state_change'', opt_int elapsed)]
         root ''deadline_watchdog'' INTERNAL_VIS,
       mk_event i STEERING_SUBMITTED_EVENT
         [(''content'', PyStr (closeout_content grace elapsed)), (''user_id'', PyNone), (''system'', PyBool True)]
         root ''deadline_watchdog'' INTERNAL_VIS])"

definition request_closeout :: "instant \<Rightarrow> int \<Rightarrow> int \<Rightarrow> bool prog" where
  "request_closeout now grace i =
     pbind (sql_update (\<lambda>r. run_id r = i \<and> deadline_due now r \<and> closeout_expires_at r = None)
              (\<lambda>r. r\<lparr>closeout_expires_at := Some (now + seconds grace), updated_at := now\<rparr>)) (\<lambda>matched.
     if \<not> matched then pret False
     else pbind (pread (\<lambda>d. find_run d i)) (\<lambda>found. case found of
         None \<Rightarrow> pret False
       | Some row \<Rightarrow> pbind (pread (\<lambda>d. seconds_since_last_write d i now)) (\<lambda>elapsed.
           pbind (pfor (emit now) (closeout_events now grace row elapsed)) (\<lambda>_. pret True))))"

text \<open>The final output of an expired run, its terminal event and the continuation service.\<close>

definition announce_expiry :: "instant \<Rightarrow> run_hook \<Rightarrow> agent_run_row \<Rightarrow> instant \<Rightarrow> unit prog" where
  "announce_expiry now continuation row closeout =
     (let i = run_id row; root = Some (or_id (root_run_id row) i);
          final_output = (case safe_terminal_run_message EXPIRED CAT_INTERNAL of None \<Rightarrow> [] | Some m \<Rightarrow> m)
      in pbind (if final_output = [] then pret ()
                else pbind (append_final_answer_once now i final_output root) (\<lambda>artifact.
                     let safe_output = (case artifact of None \<Rightarrow> final_output
                            | Some a \<Rightarrow> (case aw_text a of None \<Rightarrow> final_output
                                | Some t \<Rightarrow> if t = [] then final_output else t))
                     in pbind (has_event_type i ''run.text_delta'') (\<lambda>streamed.
                        if streamed then pret ()
                        else emit now (mk_event i ''run.text_completed'' [(''text'', PyStr safe_output)]
                               root ''deadline_watchdog'' PUBLIC)))) (\<lambda>_.
         pbind (emit now (mk_event i ''run.expired''
                  [(''deadline_at'', opt_iso (deadline_at row)), (''closeout_expires_at'', PyStr (isoformat closeout)),
                   (''status'', PyStr (rs_value EXPIRED))]
                  root ''deadline_watchdog'' PUBLIC)) (\<lambda>_.
         pwrite (continuation row))))"

definition expiry_opts :: "instant \<Rightarrow> status_opts" where
  "expiry_opts now = default_opts\<lparr>so_reason := Some ''agent_run_deadline_closeout_elapsed'',
     so_transitioned_at := Some (Aware now)\<rparr>"

definition expire_after_closeout :: "instant \<Rightarrow> run_hook \<Rightarrow> run_hook \<Rightarrow> int \<Rightarrow> bool prog" where
  "expire_after_closeout now hook continuation i =
     pbind (pread (\<lambda>d. find_run d i)) (\<lambda>found. case found of
         None \<Rightarrow> pret False
       | Some row \<Rightarrow> if row_status row \<notin> set OPEN_STATUS_VALUES then pret False
         else (case closeout_expires_at row of
             None \<Rightarrow> pret False
           | Some closeout \<Rightarrow> if now < closeout then pret False
             else pbind (set_status_with_result now hook i (StatusEnum EXPIRED) (expiry_opts now)) (\<lambda>(run, changed).
               if \<not> changed then pret False
               else pbind (announce_expiry now continuation row closeout) (\<lambda>_. pret True))))"

definition deadline_candidates :: "instant \<Rightarrow> int \<Rightarrow> db \<Rightarrow> int list" where
  "deadline_candidates now limit d =
     map run_id (take (nat (max 1 limit))
       (sort_key (\<lambda>r. case deadline_at r of None \<Rightarrow> 0 | Some t \<Rightarrow> t) (sort_key run_id (filter (deadline_due now) (runs d)))))"

text \<open>\<open>try_lock_maintenance_boundary\<close>: a missing run is not locked.\<close>

definition try_lock_maintenance_boundary :: "(int \<Rightarrow> bool) \<Rightarrow> int \<Rightarrow> bool prog" where
  "try_lock_maintenance_boundary avail i = pread (\<lambda>d. find_run d i \<noteq> None \<and> avail i)"

datatype candidate_outcome = SkippedBusy | Vanished | Requested bool | Settled bool

definition sweep_candidate ::
  "instant \<Rightarrow> int \<Rightarrow> run_hook \<Rightarrow> run_hook \<Rightarrow> (int \<Rightarrow> bool) \<Rightarrow> int \<Rightarrow> candidate_outcome prog" where
  "sweep_candidate now grace hook continuation avail i =
     pbind (commit_event_boundary i) (\<lambda>_.
     pbind (try_lock_maintenance_boundary avail i) (\<lambda>locked.
     if \<not> locked then pret SkippedBusy
     else pbind (pread (\<lambda>d. find_run d i)) (\<lambda>found. case found of
         None \<Rightarrow> pret Vanished
       | Some row \<Rightarrow> if closeout_expires_at row = None
           then pbind (request_closeout now grace i) (\<lambda>b. pret (Requested b))
           else pbind (expire_after_closeout now hook continuation i) (\<lambda>b. pret (Settled b)))))"

record sweep_report =
  dr_requested :: int
  dr_expired_ids :: "int list"
  dr_skipped_ids :: "int list"

fun sweep_loop ::
  "instant \<Rightarrow> int \<Rightarrow> run_hook \<Rightarrow> run_hook \<Rightarrow> (int \<Rightarrow> bool) \<Rightarrow> int list \<Rightarrow> sweep_report \<Rightarrow> sweep_report prog" where
  "sweep_loop now grace hook continuation avail [] rep = pret rep"
| "sweep_loop now grace hook continuation avail (i # is) rep =
     pbind (sweep_candidate now grace hook continuation avail i) (\<lambda>outcome.
     sweep_loop now grace hook continuation avail is
       (case outcome of
          SkippedBusy \<Rightarrow> rep\<lparr>dr_skipped_ids := dr_skipped_ids rep @ [i]\<rparr>
        | Vanished \<Rightarrow> rep
        | Requested b \<Rightarrow> rep\<lparr>dr_requested := dr_requested rep + (if b then 1 else 0)\<rparr>
        | Settled b \<Rightarrow> if b then rep\<lparr>dr_expired_ids := dr_expired_ids rep @ [i]\<rparr> else rep))"

text \<open>The sweep works through a store of its own, which does not commit by itself.\<close>

definition sweep_agent_run_deadlines ::
  "environ \<Rightarrow> instant \<Rightarrow> int option \<Rightarrow> int \<Rightarrow> run_hook \<Rightarrow> run_hook \<Rightarrow> (int \<Rightarrow> bool) \<Rightarrow> sweep_report prog" where
  "sweep_agent_run_deadlines env now grace_seconds limit hook continuation avail =
     (let grace = max 1 (case grace_seconds of None \<Rightarrow> deadline_closeout_grace_seconds env | Some g \<Rightarrow> g) in
      pbind (set_auto_commit False) (\<lambda>_.
      pbind (pread (deadline_candidates now limit)) (\<lambda>candidates.
      sweep_loop now grace hook continuation avail candidates
        \<lparr>dr_requested = 0, dr_expired_ids = [], dr_skipped_ids = []\<rparr>)))"

section \<open>The watchdog keeps the invariant\<close>

lemma safe_heartbeat_run: "(\<And>d. good_write other d) \<Longrightarrow> safe (heartbeat_run fromiso now other i token reason min_interval)"
  unfolding heartbeat_run_def by (intro safe_intros safe_pwrite)

lemma good_closeout:
  "good_write (update_runs_where p (\<lambda>r. r\<lparr>closeout_expires_at := c, updated_at := now\<rparr>)) d"
  by (intro update_runs_good) (auto simp: row_evolves_def row_ok_def fence_ok_def)

lemma safe_request_closeout [safe_intros]: "safe (request_closeout now grace i)"
  unfolding request_closeout_def by (intro safe_intros safe_sql_update good_closeout)

lemma safe_announce_expiry: "good_hook continuation \<Longrightarrow> safe (announce_expiry now continuation row t)"
  unfolding announce_expiry_def Let_def by (intro safe_intros safe_pwrite) (simp add: good_hook_def)

lemma safe_expire_after_closeout:
  "good_hook hook \<Longrightarrow> good_hook continuation \<Longrightarrow> safe (expire_after_closeout now hook continuation i)"
  unfolding expire_after_closeout_def by (intro safe_intros safe_set_status_with_result safe_announce_expiry)

lemma safe_sweep_candidate:
  "good_hook hook \<Longrightarrow> good_hook continuation \<Longrightarrow> safe (sweep_candidate now grace hook continuation avail i)"
  unfolding sweep_candidate_def try_lock_maintenance_boundary_def
  by (intro safe_intros safe_expire_after_closeout)

lemma safe_sweep:
  assumes "good_hook hook" and "good_hook continuation"
  shows "safe (sweep_agent_run_deadlines env now g limit hook continuation avail)"
proof -
  have "safe (sweep_loop now grace hook continuation avail is rep)" for grace "is" rep
    by (induction "is" arbitrary: rep) (auto intro!: safe_intros safe_sweep_candidate assms)
  then show ?thesis unfolding sweep_agent_run_deadlines_def Let_def by (intro safe_intros)
qed

section \<open>What the sweep sees of a run\<close>

type_synonym deadline_view = "string \<times> instant option \<times> instant option"

definition run_view :: "db \<Rightarrow> int \<Rightarrow> deadline_view option" where
  "run_view d i = map_option (\<lambda>r. (row_status r, deadline_at r, closeout_expires_at r)) (find_run d i)"

text \<open>A program is \<open>quiet\<close> when it leaves the view of every run alone, a service likewise.\<close>

definition quiet :: "'a prog \<Rightarrow> bool" where
  "quiet m = (\<forall>s i v. run_view (work s) i = Some v \<longrightarrow> run_view (work (snd (m s))) i = Some v)"

definition quiet_hook :: "run_hook \<Rightarrow> bool" where
  "quiet_hook h = (\<forall>r d i v. run_view d i = Some v \<longrightarrow> run_view (h r d) i = Some v)"

named_theorems quiet_intros \<open>rules that show a program leaves the view of runs alone\<close>

lemma quietD: "quiet m \<Longrightarrow> m s = (x, t) \<Longrightarrow> run_view (work s) i = Some v \<Longrightarrow> run_view (work t) i = Some v"
  unfolding quiet_def by (metis snd_conv)

lemma quiet_basic [quiet_intros]:
  "quiet (pret x)" "quiet (praise e)" "quiet (pread f)" "quiet (set_auto_commit b)" "quiet get_auto_commit"
  "quiet commit" "quiet commit_if_auto"
  by (simp_all add: quiet_def prog_defs)

lemma quiet_pwrite:
  "(\<And>d i v. run_view d i = Some v \<Longrightarrow> run_view (f d) i = Some v) \<Longrightarrow> quiet (pwrite f)"
  by (simp add: quiet_def pwrite_def)

lemma quiet_pbind [quiet_intros]: "quiet m \<Longrightarrow> (\<And>x. quiet (f x)) \<Longrightarrow> quiet (pbind m f)"
  unfolding quiet_def pbind_def by (auto split: prod.split sum.split) (metis snd_conv)+

lemma quiet_cases [quiet_intros]:
  "(p \<Longrightarrow> quiet a) \<Longrightarrow> (\<not> p \<Longrightarrow> quiet b) \<Longrightarrow> quiet (if p then a else b)"
  "quiet a \<Longrightarrow> (\<And>x. quiet (f x)) \<Longrightarrow> quiet (case v of None \<Rightarrow> a | Some x \<Rightarrow> f x)"
  "quiet a \<Longrightarrow> (\<And>x xs. quiet (g x xs)) \<Longrightarrow> quiet (case l of [] \<Rightarrow> a | x # xs \<Rightarrow> g x xs)"
  by (simp_all split: option.split list.split)

lemma run_view_insert_event [simp]: "run_view (insert_event now e n d) = run_view d"
  by (simp add: run_view_def fun_eq_iff)

lemma run_view_insert_artifact [simp]: "run_view (insert_artifact now a t d) = run_view d"
  by (simp add: run_view_def fun_eq_iff insert_artifact_def find_run_def)

lemma quiet_append_event [quiet_intros]: "quiet (append_event now e)"
  unfolding quiet_def append_event_def Let_def
  by (auto simp: pbind_def prog_defs split: option.splits)

lemma quiet_pfor [quiet_intros]: "(\<And>x. quiet (f x)) \<Longrightarrow> quiet (pfor f xs)"
  by (induction xs) (auto intro: quiet_intros)

lemma quiet_append_artifact [quiet_intros]: "quiet (append_artifact now a)"
  unfolding append_artifact_def add_artifact_row_def safe_cycle_provider_error_text_def Let_def
  by (intro quiet_intros quiet_pwrite) simp

lemma quiet_append_final_answer_once [quiet_intros]: "quiet (append_final_answer_once now i t root)"
  unfolding append_final_answer_once_def safe_cycle_provider_error_text_def Let_def by (intro quiet_intros)

lemma quiet_announce_expiry: "quiet_hook continuation \<Longrightarrow> quiet (announce_expiry now continuation row t)"
  unfolding announce_expiry_def has_event_type_def Let_def
  by (intro quiet_intros quiet_pwrite) (unfold quiet_hook_def, blast)

lemma steady_announce_expiry:
  assumes "good_hook continuation" and "run_id row \<in> F" and "or_id (root_run_id row) (run_id row) \<in> F"
  shows "steady F (announce_expiry now continuation row t)"
  unfolding announce_expiry_def Let_def has_event_type_def
  by (intro steady_intros steady_append_final_answer_once steady_append_event steady_pwrite)
     (use assms in \<open>simp_all add: mk_event_def good_hook_def or_id_def\<close>)

lemma parse_agrees: "ts_is_write (parse_persisted_tool_side_effect p) = persisted_is_write p"
  by (auto simp: parse_persisted_tool_side_effect_def persisted_is_write_def Let_def KNOWN_SIDE_EFFECT_CLASSES_def
      NON_WRITE_SIDE_EFFECT_CLASSES_def split: pyval.splits)

section \<open>One candidate\<close>

definition view_due :: "instant \<Rightarrow> deadline_view \<Rightarrow> bool" where
  "view_due now v = (fst v \<in> set OPEN_STATUS_VALUES \<and> (case fst (snd v) of None \<Rightarrow> False | Some t \<Rightarrow> t \<le> now))"

text \<open>A due run is asked to close out; when its window has elapsed it expires.\<close>

fun swept :: "instant \<Rightarrow> int \<Rightarrow> deadline_view \<Rightarrow> deadline_view" where
  "swept now grace (st, dl, co) = (case co of
       None \<Rightarrow> (st, dl, Some (now + seconds grace))
     | Some t \<Rightarrow> if t \<le> now then (rs_value EXPIRED, dl, co) else (st, dl, co))"

definition elapsed_window :: "instant \<Rightarrow> deadline_view \<Rightarrow> bool" where
  "elapsed_window now v = (case snd (snd v) of None \<Rightarrow> False | Some t \<Rightarrow> t \<le> now)"

definition never_asked :: "db \<Rightarrow> int \<Rightarrow> bool" where
  "never_asked d i = (\<exists>st dl. run_view d i = Some (st, dl, None))"

lemma run_view_SomeD:
  assumes "run_view d i = Some v"
  obtains row where "find_run d i = Some row" and "v = (row_status row, deadline_at row, closeout_expires_at row)"
  using assms by (auto simp: run_view_def)

lemma run_view_add_events [simp]: "run_view (add_events now es d) = run_view d"
  by (simp add: run_view_def fun_eq_iff)

lemma db_inv_add_events:
  "list_all (fresh_event d) es \<Longrightarrow> db_inv d \<Longrightarrow> db_inv (add_events now es d)"
proof (induction es arbitrary: d)
  case (Cons e es)
  then have "db_inv (add_event now e d)" using add_event_good [of d e now] by (simp add: good_write_def)
  then show ?case using Cons by simp
qed simp

text \<open>
  What a run that is asked finds in its event stream: the request with the end of the window, and after it the message
  for its inbox. Both come after everything it had before.
\<close>

definition closeout_asked :: "instant \<Rightarrow> int \<Rightarrow> int \<Rightarrow> db \<Rightarrow> db \<Rightarrow> bool" where
  "closeout_asked now grace i d d' = (\<exists>e1 e2 elapsed. {e1, e2} \<subseteq> set (run_events d' i)
     \<and> max_sequence d i < er_sequence_no e1 \<and> er_sequence_no e1 < er_sequence_no e2
     \<and> er_type e1 = ''run.deadline_closeout_requested''
     \<and> dget (er_payload e1) ''closeout_expires_at'' = PyStr (isoformat (now + seconds grace))
     \<and> er_type e2 = STEERING_SUBMITTED_EVENT
     \<and> dget (er_payload e2) ''content'' = PyStr (closeout_content grace elapsed))"

lemma max_sequence_evolves:
  assumes "db_evolves a b"
  shows "max_sequence a i \<le> max_sequence b i"
proof -
  obtain es where "events b = events a @ es" using assms by (auto simp: db_evolves_def)
  then have "run_events b i = run_events a i @ filter (\<lambda>e. er_run_id e = i) es" by (simp add: run_events_def)
  have mono: "foldr (\<lambda>e m. max (er_sequence_no e) m) xs (0::int) \<le> foldr (\<lambda>e m. max (er_sequence_no e) m) xs m"
    if "0 \<le> m" for xs m using that by (induction xs) auto
  have pos: "0 \<le> foldr (\<lambda>e m. max (er_sequence_no e) m) xs (0::int)" for xs by (induction xs) auto
  have "max_sequence b i = foldr (\<lambda>e m. max (er_sequence_no e) m) (run_events a i)
      (foldr (\<lambda>e m. max (er_sequence_no e) m) (filter (\<lambda>e. er_run_id e = i) es) 0)"
    by (simp add: max_sequence_def \<open>run_events b i = run_events a i @ filter (\<lambda>e. er_run_id e = i) es\<close>)
  then show ?thesis unfolding max_sequence_def [of a] using mono [OF pos] by metis
qed

lemma closeout_asked_mono:
  assumes "closeout_asked now grace i b c" and "db_evolves a b" and "db_evolves c d"
  shows "closeout_asked now grace i a d"
proof -
  have "set (run_events c i) \<subseteq> set (run_events d i)" using assms(3) by (auto simp: db_evolves_def run_events_def)
  then show ?thesis using assms(1) max_sequence_evolves [OF assms(2), of i] unfolding closeout_asked_def
    by (meson order_le_less_trans order_trans)
qed

lemma open_values: "(x \<in> set OPEN_STATUS_VALUES) = (\<exists>st \<in> set OPEN_RUN_STATUSES. x = rs_value st)"
  by (auto simp: OPEN_STATUS_VALUES_def)

lemma request_closeout_works:
  assumes inv: "db_inv (work s)" and v: "run_view (work s) i = Some v" "view_due now v" "snd (snd v) = None"
  shows "\<exists>s'. request_closeout now grace i s = (Inr True, s') \<and> db_inv (work s')
    \<and> (\<forall>j. run_view (work s') j = (if j = i then Some (swept now grace v) else run_view (work s) j))
    \<and> closeout_asked now grace i (work s) (work s')"
proof -
  from v(1) obtain row where row: "find_run (work s) i = Some row"
    and vr: "v = (row_status row, deadline_at row, closeout_expires_at row)" by (rule run_view_SomeD)
  note facts = row_facts [OF inv row]
  have due: "deadline_due now row" "closeout_expires_at row = None"
    using v(2,3) by (simp_all add: vr view_due_def deadline_due_def)
  define p where "p = (\<lambda>r. run_id r = i \<and> deadline_due now r \<and> closeout_expires_at r = None)"
  define f :: "agent_run_row \<Rightarrow> agent_run_row"
    where "f = (\<lambda>r. r\<lparr>closeout_expires_at := Some (now + seconds grace), updated_at := now\<rparr>)"
  define d where "d = update_runs_where p f (work s)"
  have p: "p row" using facts(1) due by (simp add: p_def)
  have upd: "sql_update p f s = (Inr True, s\<lparr>work := d\<rparr>)"
    using p facts(6) by (auto simp: sql_update_def d_def list_ex_iff)
  have inv1: "db_inv d" using good_closeout [where p = p and c = "Some (now + seconds grace)" and now = now and d = "work s"] inv by (simp add: good_write_def d_def f_def)
  have find: "find_run d j = map_option (\<lambda>r. if p r then f r else r) (find_run (work s) j)" for j
    unfolding d_def by (rule find_run_update) (simp add: f_def)
  have at: "find_run d i = Some (f row)" using row p by (simp add: find)
  have view: "run_view d j = (if j = i then Some (swept now grace v) else run_view (work s) j)" for j
  proof (cases "j = i")
    case True
    have "f row = row\<lparr>closeout_expires_at := Some (now + seconds grace), updated_at := now\<rparr>" by (simp add: f_def)
    then show ?thesis using True at due(2) by (simp add: run_view_def vr)
  next
    case False
    then have "p r = False" if "find_run (work s) j = Some r" for r using find_run_SomeD [OF that] by (simp add: p_def)
    then show ?thesis using False by (cases "find_run (work s) j") (simp_all add: run_view_def find)
  qed
  define elapsed where "elapsed = seconds_since_last_write d i now"
  define es where "es = closeout_events now grace (f row) elapsed"
  have "run_ids d = run_ids (work s)" by (auto simp: d_def run_ids_def f_def)
  then have fresh: "list_all (fresh_event d) es"
    using facts(1,4) by (auto simp: es_def closeout_events_def Let_def fresh_event_def mk_event_def event_fk_ok_def f_def or_id_def
        split: option.splits if_splits)
  then have emits: "pfor (emit now) es (s\<lparr>work := d\<rparr>) = (Inr (), publish s (add_events now es d))"
    by (subst pfor_emit_fresh) (simp_all add: es_def closeout_events_def Let_def)
  have run: "request_closeout now grace i s = (Inr True, publish s (add_events now es d))"
    using upd at emits
    by (simp add: request_closeout_def p_def [symmetric] f_def [symmetric] pbind_eq prog_defs elapsed_def es_def)
  define e1 e2 where "e1 = hd es" and "e2 = last es"
  have es: "es = [e1, e2]" "ev_run_id e1 = i" "ev_run_id e2 = i" "ev_type e2 = STEERING_SUBMITTED_EVENT"
    "ev_type e1 = ''run.deadline_closeout_requested''"
    "dget (ev_payload e1) ''closeout_expires_at'' = PyStr (isoformat (now + seconds grace))"
    "dget (ev_payload e2) ''content'' = PyStr (closeout_content grace elapsed)"
    using facts(1) by (simp_all add: e1_def e2_def es_def closeout_events_def Let_def mk_event_def f_def)
  have "closeout_asked now grace i (work s) (add_events now es d)"
  proof -
    let ?a = "last (events (add_event now e1 d))" and ?b = "last (events (add_event now e2 (add_event now e1 d)))"
    have "max_sequence d i = max_sequence (work s) i" by (simp add: max_sequence_def d_def)
    moreover have "?a \<in> set (run_events (add_event now e1 d) i)"
      by (simp add: add_event_def insert_event_def run_events_def es)
    note max_sequence_bound [OF this]
    moreover have "{?a, ?b} \<subseteq> set (run_events (add_events now es d) i)"
      by (auto simp: add_event_def insert_event_def run_events_def es)
    ultimately show ?thesis unfolding closeout_asked_def
      by (intro exI [of _ ?a] exI [of _ ?b] exI [of _ elapsed]) (auto simp: es add_event_def insert_event_def)
  qed
  moreover have "db_inv (add_events now es d)" using db_inv_add_events [OF fresh inv1] .
  ultimately show ?thesis using run view by (auto intro!: exI)
qed

lemma expiry_opts_simps [simp]:
  "so_claim (expiry_opts now) = None" "so_before (expiry_opts now) = []" "so_after (expiry_opts now) = []"
  "so_allow_requeue (expiry_opts now) = False" "expectations_met row (expiry_opts now)"
  by (simp_all add: expiry_opts_def default_opts_def expectations_met_def)

lemma run_view_transition:
  assumes "quiet_hook hook" and "find_run d (run_id row) = Some row" and "run_view d j = Some v"
  shows "run_view (apply_transition now hook row EXPIRED (expiry_opts now) d) j
    = Some (if j = run_id row then (rs_value EXPIRED, snd v) else v)"
proof -
  define row' where "row' = moved_row now row EXPIRED (expiry_opts now)"
  have "run_id row' = run_id row" by (simp add: row'_def)
  then have "find_run (replace_run row' d) j = (if j = run_id row then Some row' else find_run d j)"
    using find_replace_run [of d row' j] assms(2) by simp
  moreover have "(row_status row', deadline_at row', closeout_expires_at row') = (rs_value EXPIRED, deadline_at row, closeout_expires_at row)"
    by (simp add: row'_def moved_row_def transition_values_def Let_def split: option.split)
  ultimately have "run_view (replace_run row' d) j = Some (if j = run_id row then (rs_value EXPIRED, snd v) else v)"
    using assms(2,3) by (auto simp: run_view_def)
  then have "run_view (add_events now (transition_events row EXPIRED (expiry_opts now)) (replace_run row' d)) j
      = Some (if j = run_id row then (rs_value EXPIRED, snd v) else v)" by (simp only: run_view_add_events)
  moreover from this have "run_view (hook row' (add_events now (transition_events row EXPIRED (expiry_opts now)) (replace_run row' d))) j
      = Some (if j = run_id row then (rs_value EXPIRED, snd v) else v)"
    using assms(1) unfolding quiet_hook_def by blast
  ultimately show ?thesis unfolding apply_transition_def Let_def row'_def [symmetric] by metis
qed

lemma expire_works:
  assumes inv: "db_inv (work s)" and v: "run_view (work s) i = Some v" "fst v \<in> set OPEN_STATUS_VALUES" "elapsed_window now v"
    and hooks: "good_hook hook" "good_hook continuation" "quiet_hook hook" "quiet_hook continuation"
  shows "\<exists>s'. expire_after_closeout now hook continuation i s = (Inr True, s') \<and> db_inv (work s')
    \<and> (\<forall>j w. run_view (work s) j = Some w \<longrightarrow> run_view (work s') j = Some (if j = i then swept now grace v else w))"
proof -
  from v(1) obtain row where row: "find_run (work s) i = Some row"
    and vr: "v = (row_status row, deadline_at row, closeout_expires_at row)" by (rule run_view_SomeD)
  note facts = row_facts [OF inv row]
  from v(3) obtain c where c: "closeout_expires_at row = Some c" "c \<le> now"
    by (auto simp: vr elapsed_window_def split: option.splits)
  from v(2) obtain st where st: "row_status row = rs_value st" "st \<in> set OPEN_RUN_STATUSES"
    by (auto simp: vr open_values)
  then have opn: "row_run_status row = st" by (simp add: row_run_status_value)
  have step: "run_step False (row_run_status row) EXPIRED"
    using st(2) opn by (intro run_step_settles) simp_all
  let ?d = "apply_transition now hook row EXPIRED (expiry_opts now) (work s)"
  have set: "set_status_with_result now hook i (StatusEnum EXPIRED) (expiry_opts now) s
    = (Inr (to_domain (moved_row now row EXPIRED (expiry_opts now)), True), publish s ?d)"
    using locked_transition_commits [of s i row "StatusEnum EXPIRED" "expiry_opts now" st EXPIRED now hook] inv row
      run_step_ensure [OF step] opn
    by (simp add: set_status_with_result_def pbind_eq raise_if_lost_eq locked_run_eq)
  note res = apply_transition_result [OF inv row, of "expiry_opts now" EXPIRED hook now]
  have inv2: "db_inv ?d" "db_evolves (work s) ?d" using res(1,2) step hooks(1) by simp_all
  let ?F = "{run_id row, or_id (root_run_id row) (run_id row)}"
  have ids: "?F \<subseteq> set (run_ids ?d)"
    using facts(1,4) db_evolves_ids [OF inv2(2)] by (auto simp: event_fk_ok_def)
  obtain u where u: "announce_expiry now continuation row c (publish s ?d) = (Inr (), u)" "db_inv (work u)"
    by (rule steadyE [OF steady_announce_expiry [OF hooks(2), of row ?F], of "publish s ?d"]) (use inv2(1) ids in simp_all)
  have run: "expire_after_closeout now hook continuation i s = (Inr True, u)"
    using row c v(2) set u(1) by (simp add: expire_after_closeout_def pbind_eq prog_defs vr)
  have "run_view (work u) j = Some (if j = i then swept now grace v else w)" if "run_view (work s) j = Some w" for j w
  proof -
    have "run_view ?d j = Some (if j = run_id row then (rs_value EXPIRED, snd w) else w)"
      using that row facts(1) by (intro run_view_transition hooks) simp_all
    from quietD [OF quiet_announce_expiry [OF hooks(4)] u(1), of j] this
    show ?thesis using that v(1) c facts(1) by (auto simp: vr)
  qed
  then show ?thesis using run u(2) by blast
qed

lemma candidate_works:
  assumes inv: "db_inv (work s)" and v: "run_view (work s) i = Some v" "view_due now v"
    and hooks: "good_hook hook" "good_hook continuation" "quiet_hook hook" "quiet_hook continuation"
  shows "\<exists>s'. sweep_candidate now grace hook continuation avail i s
      = (Inr (if \<not> avail i then SkippedBusy else if snd (snd v) = None then Requested True else Settled (elapsed_window now v)), s')
    \<and> db_inv (work s') \<and> db_evolves (work s) (work s')
    \<and> (\<forall>j w. run_view (work s) j = Some w \<longrightarrow> run_view (work s') j = Some (if j = i \<and> avail i then swept now grace v else w))
    \<and> (avail i \<and> snd (snd v) = None \<longrightarrow> closeout_asked now grace i (work s) (work s'))"
proof -
  let ?s = "s\<lparr>committed := work s\<rparr>"
  have s: "db_inv (work ?s)" "run_view (work ?s) i = Some v" using inv v(1) by simp_all
  from v(1) obtain row where row: "find_run (work s) i = Some row"
    and vr: "v = (row_status row, deadline_at row, closeout_expires_at row)" by (rule run_view_SomeD)
  have start: "sweep_candidate now grace hook continuation avail i s
    = (if \<not> avail i then (Inr SkippedBusy, ?s)
       else if closeout_expires_at row = None
         then pbind (request_closeout now grace i) (\<lambda>b. pret (Requested b)) ?s
         else pbind (expire_after_closeout now hook continuation i) (\<lambda>b. pret (Settled b)) ?s)"
    using row by (simp add: sweep_candidate_def try_lock_maintenance_boundary_def commit_event_boundary_def pbind_eq prog_defs)
  have evolves: "db_evolves (work s) (work (snd (sweep_candidate now grace hook continuation avail i s)))"
  proof -
    have "sweep_candidate now grace hook continuation avail i s = sweep_candidate now grace hook continuation avail i ?s"
      by (simp add: sweep_candidate_def commit_event_boundary_def pbind_eq prog_defs)
    moreover have "sess_ok (work s) ?s" using inv by (simp add: sess_ok_def)
    note safeD [OF safe_sweep_candidate [OF hooks(1,2)] this, of now grace avail i]
    ultimately show ?thesis by (auto simp: sess_ok_def intro: db_evolves_trans)
  qed
  consider "\<not> avail i" | "avail i" "closeout_expires_at row = None"
    | "avail i" "closeout_expires_at row \<noteq> None" "elapsed_window now v"
    | "avail i" "closeout_expires_at row \<noteq> None" "\<not> elapsed_window now v" by blast
  then show ?thesis
  proof cases
    case 1
    then show ?thesis using start inv evolves by simp
  next
    case 2
    with request_closeout_works [OF s v(2), of grace] obtain s' where
      "request_closeout now grace i ?s = (Inr True, s')" "db_inv (work s')"
      "\<forall>j. run_view (work s') j = (if j = i then Some (swept now grace v) else run_view (work ?s) j)"
      "closeout_asked now grace i (work s) (work s')"
      by (auto simp: vr)
    then show ?thesis using start 2 evolves by (simp add: pbind_eq pret_def vr)
  next
    case 3
    have "fst v \<in> set OPEN_STATUS_VALUES" using v(2) by (simp add: view_due_def)
    from expire_works [OF s this 3(3) hooks] obtain s' where
      "expire_after_closeout now hook continuation i ?s = (Inr True, s')" "db_inv (work s')"
      "\<forall>j w. run_view (work ?s) j = Some w \<longrightarrow> run_view (work s') j = Some (if j = i then swept now grace v else w)"
      by blast
    then show ?thesis using start 3 evolves by (auto simp: pbind_eq pret_def vr)
  next
    case 4
    then obtain c where c: "closeout_expires_at row = Some c" "now < c" by (auto simp: vr elapsed_window_def)
    then have "expire_after_closeout now hook continuation i ?s = (Inr False, ?s)"
      using row v(2) by (simp add: expire_after_closeout_def pbind_eq prog_defs vr view_due_def)
    then have "sweep_candidate now grace hook continuation avail i s = (Inr (Settled False), ?s)"
      using start 4 by (simp add: pbind_eq pret_def)
    moreover have "swept now grace v = v" using c by (simp add: vr)
    ultimately show ?thesis using 4 c(1) inv v(1) evolves by (auto simp: vr)
  qed
qed

lemma sweep_loop_works:
  assumes "distinct is" and "db_inv (work s)"
    and "\<And>i. i \<in> set is \<Longrightarrow> \<exists>v. run_view (work s) i = Some v \<and> view_due now v"
    and hooks: "good_hook hook" "good_hook continuation" "quiet_hook hook" "quiet_hook continuation"
  shows "\<exists>rep' s'. sweep_loop now grace hook continuation avail is rep s = (Inr rep', s') \<and> db_inv (work s')
    \<and> db_evolves (work s) (work s')
    \<and> (\<forall>j w. run_view (work s) j = Some w \<longrightarrow>
         run_view (work s') j = Some (if j \<in> set is \<and> avail j then swept now grace w else w))
    \<and> dr_expired_ids rep' = dr_expired_ids rep
        @ filter (\<lambda>i. avail i \<and> elapsed_window now (the (run_view (work s) i))) is
    \<and> dr_skipped_ids rep' = dr_skipped_ids rep @ filter (\<lambda>i. \<not> avail i) is
    \<and> dr_requested rep' = dr_requested rep + int (length (filter (\<lambda>i. avail i \<and> never_asked (work s) i) is))
    \<and> (\<forall>i \<in> set is. avail i \<and> never_asked (work s) i \<longrightarrow> closeout_asked now grace i (work s) (work s'))"
  using assms(1-3)
proof (induction "is" arbitrary: s rep)
  case Nil
  then show ?case by (auto simp: pret_def)
next
  case (Cons i "is")
  obtain v where v: "run_view (work s) i = Some v" "view_due now v" using Cons.prems(3) [of i] by auto
  define outcome where "outcome = (if \<not> avail i then SkippedBusy else if snd (snd v) = None then Requested True else Settled (elapsed_window now v))"
  obtain s1 where s1: "sweep_candidate now grace hook continuation avail i s = (Inr outcome, s1)" "db_inv (work s1)"
    "\<And>j w. run_view (work s) j = Some w \<Longrightarrow> run_view (work s1) j = Some (if j = i \<and> avail i then swept now grace v else w)"
    and s1': "db_evolves (work s) (work s1)" "avail i \<Longrightarrow> snd (snd v) = None \<Longrightarrow> closeout_asked now grace i (work s) (work s1)"
    using candidate_works [OF Cons.prems(2) v hooks, of grace avail] unfolding outcome_def by blast
  define rep1 where "rep1 = (case outcome of
          SkippedBusy \<Rightarrow> rep\<lparr>dr_skipped_ids := dr_skipped_ids rep @ [i]\<rparr>
        | Vanished \<Rightarrow> rep
        | Requested b \<Rightarrow> rep\<lparr>dr_requested := dr_requested rep + (if b then 1 else 0)\<rparr>
        | Settled b \<Rightarrow> if b then rep\<lparr>dr_expired_ids := dr_expired_ids rep @ [i]\<rparr> else rep)"
  have same: "run_view (work s1) j = run_view (work s) j" if "j \<in> set is" for j
  proof -
    have "j \<noteq> i" using that Cons.prems(1) by auto
    moreover have "\<exists>w. run_view (work s) j = Some w" using Cons.prems(3) [of j] that by auto
    ultimately show ?thesis using s1(3) by auto
  qed
  have "\<exists>w. run_view (work s1) j = Some w \<and> view_due now w" if "j \<in> set is" for j
    using Cons.prems(3) [of j] same [OF that] that by simp
  from Cons.IH [OF _ s1(2) this, of rep1] Cons.prems(1) obtain rep' s' where
    l: "sweep_loop now grace hook continuation avail is rep1 s1 = (Inr rep', s')" "db_inv (work s')"
    "\<And>j w. run_view (work s1) j = Some w \<Longrightarrow>
         run_view (work s') j = Some (if j \<in> set is \<and> avail j then swept now grace w else w)"
    "dr_expired_ids rep' = dr_expired_ids rep1 @ filter (\<lambda>i. avail i \<and> elapsed_window now (the (run_view (work s1) i))) is"
    "dr_skipped_ids rep' = dr_skipped_ids rep1 @ filter (\<lambda>i. \<not> avail i) is"
    and l': "db_evolves (work s1) (work s')"
    "dr_requested rep' = dr_requested rep1 + int (length (filter (\<lambda>i. avail i \<and> never_asked (work s1) i) is))"
    "\<And>i. i \<in> set is \<Longrightarrow> avail i \<Longrightarrow> never_asked (work s1) i \<Longrightarrow> closeout_asked now grace i (work s1) (work s')" by auto
  have run: "sweep_loop now grace hook continuation avail (i # is) rep s = (Inr rep', s')"
    using s1(1) l(1) by (simp add: pbind_eq rep1_def)
  have views: "run_view (work s') j = Some (if j \<in> set (i # is) \<and> avail j then swept now grace w else w)"
    if "run_view (work s) j = Some w" for j w
    using l(3) [OF s1(3) [OF that]] that v(1) Cons.prems(1) by (auto split: if_splits)
  have "filter (\<lambda>i. avail i \<and> elapsed_window now (the (run_view (work s1) i))) is
      = filter (\<lambda>i. avail i \<and> elapsed_window now (the (run_view (work s) i))) is"
    using same by (intro filter_cong) simp_all
  moreover have "elapsed_window now v \<Longrightarrow> snd (snd v) \<noteq> None" by (auto simp: elapsed_window_def split: option.splits)
  ultimately have lists: "dr_expired_ids rep' = dr_expired_ids rep
        @ filter (\<lambda>i. avail i \<and> elapsed_window now (the (run_view (work s) i))) (i # is)"
    "dr_skipped_ids rep' = dr_skipped_ids rep @ filter (\<lambda>i. \<not> avail i) (i # is)"
    using l(4,5) v(1) by (auto simp: rep1_def outcome_def)
  have asked: "never_asked (work s1) j = never_asked (work s) j" if "j \<in> set is" for j
    using same [OF that] by (simp add: never_asked_def)
  have "filter (\<lambda>i. avail i \<and> never_asked (work s1) i) is = filter (\<lambda>i. avail i \<and> never_asked (work s) i) is"
    using asked by (intro filter_cong) simp_all
  moreover have first: "never_asked (work s) i \<longleftrightarrow> snd (snd v) = None" using v(1) by (cases v) (auto simp: never_asked_def)
  ultimately have "dr_requested rep' = dr_requested rep + int (length (filter (\<lambda>i. avail i \<and> never_asked (work s) i) (i # is)))"
    using l'(2) by (auto simp: rep1_def outcome_def)
  moreover have "closeout_asked now grace j (work s) (work s')" if "j \<in> set (i # is)" "avail j" "never_asked (work s) j" for j
  proof (cases "j = i")
    case True
    then have "closeout_asked now grace j (work s) (work s1)" using s1'(2) that(2,3) first by simp
    then show ?thesis by (rule closeout_asked_mono) (simp_all add: l'(1))
  next
    case False
    then have "closeout_asked now grace j (work s1) (work s')" using l'(3) asked that by simp
    then show ?thesis by (rule closeout_asked_mono) (simp_all add: s1'(1))
  qed
  moreover have "db_evolves (work s) (work s')" using s1'(1) l'(1) by (rule db_evolves_trans)
  ultimately show ?case using run l(2) views lists by (intro exI [of _ rep'] exI [of _ s']) simp
qed

section \<open>Which runs a sweep takes\<close>

definition due_at :: "instant \<Rightarrow> db \<Rightarrow> int \<Rightarrow> bool" where
  "due_at now d i = (\<exists>st dl co. run_view d i = Some (st, Some dl, co) \<and> st \<in> set OPEN_STATUS_VALUES \<and> dl \<le> now)"

definition due_before :: "db \<Rightarrow> int \<Rightarrow> int \<Rightarrow> bool" where
  "due_before d i j = (\<exists>st dl co st' dl' co'. run_view d i = Some (st, Some dl, co) \<and> run_view d j = Some (st', Some dl', co')
     \<and> (dl < dl' \<or> dl = dl' \<and> i < j))"

text \<open>The \<open>limit\<close> overdue runs with the earliest deadlines, or all of them, in the order of deadlines.\<close>

definition first_due :: "instant \<Rightarrow> int \<Rightarrow> db \<Rightarrow> int list \<Rightarrow> bool" where
  "first_due now limit d c = (set c \<subseteq> {i. due_at now d i} \<and> length c = min (nat (max 1 limit)) (card {i. due_at now d i})
     \<and> sorted_wrt (due_before d) c \<and> (\<forall>i j. due_at now d i \<and> i \<notin> set c \<and> j \<in> set c \<longrightarrow> due_before d j i))"

lemma insort_stable:
  assumes "sorted_wrt (\<lambda>x y. f x < f y \<or> f x = f y \<and> P x y) ys" and "\<forall>y \<in> set ys. P x y"
  shows "sorted_wrt (\<lambda>x y. f x < f y \<or> f x = f y \<and> P x y) (insort_key f x ys)"
  using assms by (induction ys) (auto simp: set_insort_key)

lemma sort_stable:
  "sorted_wrt P xs \<Longrightarrow> sorted_wrt (\<lambda>x y. (f x :: 'b :: linorder) < f y \<or> f x = f y \<and> P x y) (sort_key f xs)"
proof (induction xs)
  case (Cons x xs)
  then show ?case using insort_stable [of f P "sort_key f xs" x] by simp
qed simp

lemma run_view_row: "distinct (run_ids d) \<Longrightarrow> r \<in> set (runs d) \<Longrightarrow>
   run_view d (run_id r) = Some (row_status r, deadline_at r, closeout_expires_at r)"
  by (simp add: run_view_def find_run_unique)

lemma due_rows:
  assumes "distinct (run_ids d)"
  shows "{i. due_at now d i} = run_id ` set (filter (deadline_due now) (runs d))"
proof (rule set_eqI)
  fix i
  show "(i \<in> {i. due_at now d i}) = (i \<in> run_id ` set (filter (deadline_due now) (runs d)))"
  proof
    assume "i \<in> {i. due_at now d i}"
    then obtain st dl co where v: "run_view d i = Some (st, Some dl, co)" "st \<in> set OPEN_STATUS_VALUES" "dl \<le> now"
      by (auto simp: due_at_def)
    then obtain row where "find_run d i = Some row" "(st, Some dl, co) = (row_status row, deadline_at row, closeout_expires_at row)"
      using run_view_SomeD by blast
    moreover from this have "run_id row = i" "row \<in> set (runs d)" using find_run_SomeD by blast+
    ultimately show "i \<in> run_id ` set (filter (deadline_due now) (runs d))"
      using v by (intro image_eqI [of _ _ row]) (auto simp: deadline_due_def dest!: sym [of "Some _"])
  next
    assume "i \<in> run_id ` set (filter (deadline_due now) (runs d))"
    then obtain r where "r \<in> set (runs d)" "deadline_due now r" "i = run_id r" by auto
    then show "i \<in> {i. due_at now d i}" using run_view_row [OF assms] by (auto simp: due_at_def deadline_due_def split: option.splits)
  qed
qed

lemma candidates_first_due:
  assumes "db_inv d"
  shows "first_due now limit d (deadline_candidates now limit d)"
proof -
  let ?k = "\<lambda>r. case deadline_at r of None \<Rightarrow> 0 | Some t \<Rightarrow> t" and ?due = "filter (deadline_due now) (runs d)"
  define rs where "rs = sort_key ?k (sort_key run_id ?due)"
  define n where "n = nat (max 1 limit)"
  have uniq: "distinct (run_ids d)" using assms by (simp add: db_inv_def)
  have set_rs: "set rs = set ?due" "length rs = length ?due" by (simp_all add: rs_def)
  have "distinct (map run_id ?due)" using uniq unfolding run_ids_def by (rule distinct_map_filter)
  then have dist: "distinct (map run_id rs)" by (simp add: rs_def distinct_map)
  have due: "{i. due_at now d i} = set (map run_id rs)" using due_rows [OF uniq, of now] set_rs by simp
  have "sorted_wrt (\<lambda>r r'. run_id r \<le> run_id r') (sort_key run_id ?due)"
    using sorted_sort_key [of run_id ?due] by (simp add: sorted_wrt_map)
  from sort_stable [OF this, of ?k] have
    sorted: "sorted_wrt (\<lambda>r r'. ?k r < ?k r' \<or> ?k r = ?k r' \<and> run_id r \<le> run_id r') rs" by (simp add: rs_def)
  have sorted': "sorted_wrt (\<lambda>r r'. run_id r \<noteq> run_id r') rs" using dist by (simp add: distinct_map distinct_conv_nth inj_on_def sorted_wrt_iff_nth_less)
  have before: "due_before d (run_id r) (run_id r')"
    if "r \<in> set rs" "r' \<in> set rs" "?k r < ?k r' \<or> ?k r = ?k r' \<and> run_id r \<le> run_id r'" "run_id r \<noteq> run_id r'" for r r'
  proof -
    have "r \<in> set (runs d)" "r' \<in> set (runs d)" "deadline_due now r" "deadline_due now r'" using that(1,2) set_rs(1) by auto
    then show ?thesis using that(3,4) run_view_row [OF uniq] by (auto simp: due_before_def deadline_due_def split: option.splits)
  qed
  have order: "sorted_wrt (due_before d) (map run_id rs)"
    unfolding sorted_wrt_map using sorted sorted' before
    by (auto simp: sorted_wrt_iff_nth_less)
  have c: "deadline_candidates now limit d = take n (map run_id rs)"
    by (simp add: deadline_candidates_def rs_def n_def take_map)
  have split: "map run_id rs = take n (map run_id rs) @ drop n (map run_id rs)" by simp
  have "sorted_wrt (due_before d) (take n (map run_id rs)) \<and> (\<forall>x \<in> set (take n (map run_id rs)). \<forall>y \<in> set (drop n (map run_id rs)). due_before d x y)"
    using order by (subst (asm) split) (simp only: sorted_wrt_append, blast)
  moreover have "y \<in> set (drop n (map run_id rs))" if "y \<in> set (map run_id rs)" "y \<notin> set (take n (map run_id rs))" for y
    using that by (subst (asm) (1) split) (simp only: set_append Un_iff, simp)
  moreover have "due_at now d i \<Longrightarrow> i \<in> set (map run_id rs)" for i using due by blast
  moreover have "card {i. due_at now d i} = length rs" unfolding due using dist by (simp only: distinct_card length_map)
  ultimately show ?thesis
    unfolding first_due_def c due [symmetric] n_def [symmetric] using set_take_subset [of n "map run_id rs"] due by auto
qed

lemma first_due_distinct: "first_due now limit d c \<Longrightarrow> distinct c"
  by (fastforce simp: first_due_def due_before_def distinct_conv_nth sorted_wrt_iff_nth_less nat_neq_iff)

lemma candidates_good:
  assumes "db_inv d"
  shows "distinct (deadline_candidates now limit d)"
    and "i \<in> set (deadline_candidates now limit d) \<Longrightarrow> \<exists>v. run_view d i = Some v \<and> view_due now v"
proof -
  note first = candidates_first_due [OF assms, of now limit]
  show "distinct (deadline_candidates now limit d)" by (rule first_due_distinct [OF first])
  assume "i \<in> set (deadline_candidates now limit d)"
  then have "due_at now d i" using first by (auto simp: first_due_def)
  then show "\<exists>v. run_view d i = Some v \<and> view_due now v" by (auto simp: due_at_def view_due_def)
qed

lemma first_due_takes:
  assumes "first_due now limit d c" and "due_at now d i"
    and "card {j. due_at now d j \<and> due_before d j i} < nat (max 1 limit)" and "finite {j. due_at now d j}"
  shows "i \<in> set c"
proof (rule ccontr)
  assume "i \<notin> set c"
  then have sub: "set c \<subseteq> {j. due_at now d j \<and> due_before d j i}" using assms(1,2) by (auto simp: first_due_def)
  have "finite {j. due_at now d j \<and> due_before d j i}" using assms(4) by (rule rev_finite_subset) auto
  then have "length c \<le> card {j. due_at now d j \<and> due_before d j i}"
    using card_mono [OF _ sub] distinct_card [OF first_due_distinct [OF assms(1)]] by simp
  then have "length c = card {j. due_at now d j}" using assms(1,3) by (auto simp: first_due_def)
  then have "set c = {j. due_at now d j}"
    using assms(1,4) distinct_card [OF first_due_distinct [OF assms(1)]] by (intro card_subset_eq) (auto simp: first_due_def)
  then show False using assms(2) \<open>i \<notin> set c\<close> by simp
qed

lemma candidates_complete:
  assumes "db_inv d" and "due_at now d i" and "card {j. due_at now d j \<and> due_before d j i} < nat (max 1 limit)"
  shows "i \<in> set (deadline_candidates now limit d)"
proof (rule first_due_takes [OF candidates_first_due [OF assms(1)] assms(2,3)])
  show "finite {j. due_at now d j}" using due_rows [of d now] assms(1) by (simp add: db_inv_def)
qed

lemma ahead_bound:
  assumes "db_inv d"
  shows "card {j. due_at now d j \<and> due_before d j i} \<le> length (runs d)"
proof -
  have due: "{j. due_at now d j} = run_id ` set (filter (deadline_due now) (runs d))"
    using assms by (intro due_rows) (simp add: db_inv_def)
  have "card {j. due_at now d j \<and> due_before d j i} \<le> card {j. due_at now d j}"
    by (rule card_mono) (simp add: due, blast)
  also have "\<dots> \<le> card (set (filter (deadline_due now) (runs d)))" unfolding due by (rule card_image_le) simp
  also have "\<dots> \<le> length (filter (deadline_due now) (runs d))" by (rule card_length)
  also have "\<dots> \<le> length (runs d)" by simp
  finally show ?thesis .
qed

definition resolved_grace :: "environ \<Rightarrow> int option \<Rightarrow> int" where
  "resolved_grace env gs = max 1 (case gs of None \<Rightarrow> deadline_closeout_grace_seconds env | Some g \<Rightarrow> g)"

lemma sweep_works:
  assumes "db_inv (work s)"
    and hooks: "good_hook hook" "good_hook continuation" "quiet_hook hook" "quiet_hook continuation"
  shows "\<exists>rep s'. sweep_agent_run_deadlines env now gs limit hook continuation avail s = (Inr rep, s') \<and> db_inv (work s')
    \<and> db_evolves (work s) (work s')
    \<and> (\<forall>j w. run_view (work s) j = Some w \<longrightarrow> run_view (work s') j =
         Some (if j \<in> set (deadline_candidates now limit (work s)) \<and> avail j then swept now (resolved_grace env gs) w else w))
    \<and> dr_expired_ids rep = filter (\<lambda>i. avail i \<and> elapsed_window now (the (run_view (work s) i)))
        (deadline_candidates now limit (work s))
    \<and> dr_skipped_ids rep = filter (\<lambda>i. \<not> avail i) (deadline_candidates now limit (work s))
    \<and> dr_requested rep = int (length (filter (\<lambda>i. avail i \<and> never_asked (work s) i) (deadline_candidates now limit (work s))))
    \<and> (\<forall>i \<in> set (deadline_candidates now limit (work s)). avail i \<and> never_asked (work s) i
        \<longrightarrow> closeout_asked now (resolved_grace env gs) i (work s) (work s'))"
proof -
  let ?s = "s\<lparr>auto_commit := False\<rparr>" and ?rep = "\<lparr>dr_requested = 0, dr_expired_ids = [], dr_skipped_ids = []\<rparr>"
  let ?c = "deadline_candidates now limit (work s)"
  have start: "sweep_agent_run_deadlines env now gs limit hook continuation avail s
      = sweep_loop now (resolved_grace env gs) hook continuation avail ?c ?rep ?s"
    by (simp add: sweep_agent_run_deadlines_def pbind_eq prog_defs resolved_grace_def)
  show ?thesis
    using sweep_loop_works [of ?c ?s now hook continuation "resolved_grace env gs" avail ?rep] candidates_good [OF assms(1)] assms
    unfolding start by simp
qed

section \<open>What a sweep does\<close>

text \<open>A service that leaves the view of every run alone, on the example database.\<close>

lemma ex_hook_quiet: "quiet_hook ex_hook"
proof -
  have "run_view (ex_hook r d) i = run_view d i" for r d i
    by (cases "find_run d i") (simp_all add: run_view_def ex_hook_def find_run_update)
  then show ?thesis by (simp add: quiet_hook_def)
qed

text \<open>
  C7: on a consistent database a deadline sweep returns, takes the overdue open runs with the earliest deadlines (ties by
  id) up to its limit, and does to each what the policy says. Of those whose lock it gets: a run that was never asked is
  given a close-out window ending after the grace and finds the request and a steering message with the grace in its
  event stream, after all it had; a run whose window has elapsed becomes \<open>expired\<close>; one whose window still runs is left
  alone. The status, deadline and window of every other run stay as they were, and the report counts the requests and
  lists the expired and the busy runs in order. The services it calls keep the database consistent and leave those
  fields alone.
\<close>

theorem deadline_sweep_exact:
  assumes "db_inv (work s)"
    and "good_hook hook" and "good_hook continuation" and "quiet_hook hook" and "quiet_hook continuation"
  shows "\<exists>c rep s'. first_due now limit (work s) c
    \<and> sweep_agent_run_deadlines env now gs limit hook continuation avail s = (Inr rep, s')
    \<and> (\<forall>j st dl co. run_view (work s) j = Some (st, dl, co) \<longrightarrow> run_view (work s') j =
         Some (if j \<notin> set c \<or> \<not> avail j then (st, dl, co)
               else case co of None \<Rightarrow> (st, dl, Some (now + seconds (resolved_grace env gs)))
                    | Some t \<Rightarrow> if t \<le> now then (''expired'', dl, co) else (st, dl, co)))
    \<and> (\<forall>j \<in> set c. avail j \<and> never_asked (work s) j \<longrightarrow> closeout_asked now (resolved_grace env gs) j (work s) (work s'))
    \<and> dr_requested rep = int (length (filter (\<lambda>i. avail i \<and> never_asked (work s) i) c))
    \<and> dr_expired_ids rep = filter (\<lambda>i. avail i \<and> (\<exists>st dl t. run_view (work s) i = Some (st, dl, Some t) \<and> t \<le> now)) c
    \<and> dr_skipped_ids rep = filter (\<lambda>i. \<not> avail i) c"
proof -
  let ?c = "deadline_candidates now limit (work s)"
  obtain rep s' where run: "sweep_agent_run_deadlines env now gs limit hook continuation avail s = (Inr rep, s')"
    and views: "\<And>j w. run_view (work s) j = Some w \<Longrightarrow> run_view (work s') j = Some (if j \<in> set ?c \<and> avail j then swept now (resolved_grace env gs) w else w)"
    and exp: "dr_expired_ids rep = filter (\<lambda>i. avail i \<and> elapsed_window now (the (run_view (work s) i))) ?c"
    and skip: "dr_skipped_ids rep = filter (\<lambda>i. \<not> avail i) ?c"
    and req: "dr_requested rep = int (length (filter (\<lambda>i. avail i \<and> never_asked (work s) i) ?c))"
      "\<forall>j \<in> set ?c. avail j \<and> never_asked (work s) j \<longrightarrow> closeout_asked now (resolved_grace env gs) j (work s) (work s')"
    using sweep_works [OF assms, of env now gs limit avail] by blast
  have "elapsed_window now (the (run_view (work s) i)) = (\<exists>st dl t. run_view (work s) i = Some (st, dl, Some t) \<and> t \<le> now)"
    if "i \<in> set ?c" for i
  proof -
    have "\<exists>v. run_view (work s) i = Some v" using candidates_good(2) [OF assms(1) that] by blast
    then show ?thesis by (auto simp: elapsed_window_def split: option.splits)
  qed
  then have exp': "dr_expired_ids rep = filter (\<lambda>i. avail i \<and> (\<exists>st dl t. run_view (work s) i = Some (st, dl, Some t) \<and> t \<le> now)) ?c"
    unfolding exp by (intro filter_cong) simp_all
  have "run_view (work s') j = Some (if j \<notin> set ?c \<or> \<not> avail j then (st, dl, co)
               else case co of None \<Rightarrow> (st, dl, Some (now + seconds (resolved_grace env gs)))
                    | Some t \<Rightarrow> if t \<le> now then (''expired'', dl, co) else (st, dl, co))"
    if "run_view (work s) j = Some (st, dl, co)" for j st dl co
    using views [OF that] by (auto split: option.splits)
  then show ?thesis using candidates_first_due [OF assms(1), of now limit] run exp' skip req by blast
qed

lemma ex_due: "run_view ex_db 2 = Some (''running'', Some 1000, None)" "run_view ex_db 1 = Some (''queued'', Some 1000, None)"
  by code_simp+

lemma ex_first_due: "first_due 2000 25 ex_db c \<Longrightarrow> c = [1, 2]"
proof -
  have due: "{i. due_at 2000 ex_db i} = {1, 2}"
  proof -
    have "filter (deadline_due 2000) (runs ex_db) = filter (\<lambda>r. run_id r \<noteq> 3) (runs ex_db)" by code_simp
    moreover have "map run_id (filter (\<lambda>r. run_id r \<noteq> 3) (runs ex_db)) = [1, 2]" by code_simp
    ultimately have "map run_id (filter (deadline_due 2000) (runs ex_db)) = [1, 2]" by simp
    then have "run_id ` set (filter (deadline_due 2000) (runs ex_db)) = {1, 2}" by (metis list.set_map list.simps(15) empty_set)
    moreover have "distinct (run_ids ex_db)" by code_simp
    ultimately show ?thesis using due_rows by simp
  qed
  assume first: "first_due 2000 25 ex_db c"
  then have "set c \<subseteq> {1, 2}" "length c = 2" "distinct c" using first_due_distinct [OF first] by (auto simp: first_due_def due)
  then have "c = [1, 2] \<or> c = [2, 1]" by (auto simp: length_Suc_conv numeral_2_eq_2)
  moreover have "\<not> due_before ex_db 2 1" by (auto simp: due_before_def ex_due)
  ultimately show "c = [1, 2]" using first by (auto simp: first_due_def)
qed

lemma deadline_sweep_exact_witness:
  "\<exists>rep s'. sweep_agent_run_deadlines (\<lambda>_. None) 2000 (Some 90) 25 ex_hook ex_hook (\<lambda>i. i \<noteq> 1) ex_session = (Inr rep, s')
    \<and> run_view (work s') 2 = Some (''running'', Some 1000, Some (2000 + seconds 90)) \<and> closeout_asked 2000 90 2 ex_db (work s')
    \<and> run_view (work s') 1 = Some (''queued'', Some 1000, None) \<and> dr_skipped_ids rep = [1] \<and> dr_requested rep = 1"
proof -
  have "resolved_grace (\<lambda>_. None) (Some 90) = 90" by (simp add: resolved_grace_def)
  moreover have "never_asked ex_db 2" by (simp add: never_asked_def ex_due)
  ultimately show ?thesis
    using deadline_sweep_exact [of ex_session ex_hook ex_hook 2000 25 "\<lambda>_. None" "Some 90" "\<lambda>i. i \<noteq> 1"]
      ex_hook_quiet ex_hook_good ex_due by (auto dest!: ex_first_due)
qed

text \<open>
  C6: deadlines are enforced. Take an open run past its deadline that was never asked to close out. A first sweep with
  fewer than \<open>limit\<close> overdue runs ahead of it (earlier deadline, or the same and a smaller id) asks it, if its row can be
  locked; if nothing settles it or moves its window until a later sweep after the grace with fewer than \<open>limit\<close> overdue
  runs ahead of it, that sweep settles it as \<open>expired\<close>, again if its row can be locked. What else happens to the
  database between the two sweeps does not matter.
\<close>

theorem deadline_enforced:
  assumes "db_inv (work s1)" and "db_inv (work s2)"
    and hooks: "good_hook hook" "good_hook continuation" "quiet_hook hook" "quiet_hook continuation"
    and "run_view (work s1) i = Some (st, Some dl, None)" and "st \<in> set OPEN_STATUS_VALUES" and "dl \<le> now1"
    and "run_view (work s2) i =
      run_view (work (snd (sweep_agent_run_deadlines env now1 gs limit1 hook continuation avail1 s1))) i"
    and "now1 + seconds (resolved_grace env gs) \<le> now2" and "avail1 i" and "avail2 i"
    and "card {j. due_at now1 (work s1) j \<and> due_before (work s1) j i} < nat (max 1 limit1)"
    and "card {j. due_at now2 (work s2) j \<and> due_before (work s2) j i} < nat (max 1 limit2)"
  shows "\<exists>rep s3. sweep_agent_run_deadlines env now2 gs limit2 hook continuation avail2 s2 = (Inr rep, s3)
    \<and> i \<in> set (dr_expired_ids rep)
    \<and> run_view (work s3) i = Some (''expired'', Some dl, Some (now1 + seconds (resolved_grace env gs)))"
proof -
  let ?g = "resolved_grace env gs"
  let ?v = "(st, Some dl, Some (now1 + seconds ?g))"
  have "due_at now1 (work s1) i" using assms(7-9) by (simp add: due_at_def)
  then have "i \<in> set (deadline_candidates now1 limit1 (work s1))" by (rule candidates_complete [OF assms(1) _ assms(14)])
  then have v: "run_view (work s2) i = Some ?v"
    using sweep_works [OF assms(1) hooks, of env now1 gs limit1 avail1] assms(7,10,12) by auto
  have "seconds ?g \<ge> 0" by (simp add: seconds_def resolved_grace_def)
  then have "due_at now2 (work s2) i" using v assms(8,9,11) by (simp add: due_at_def)
  then have c: "i \<in> set (deadline_candidates now2 limit2 (work s2))" by (rule candidates_complete [OF assms(2) _ assms(15)])
  show ?thesis using sweep_works [OF assms(2) hooks, of env now2 gs limit2 avail2] v c assms(11,13)
    by (auto simp: elapsed_window_def)
qed

lemma deadline_enforced_witness:
  "\<exists>limit rep s3. sweep_agent_run_deadlines (\<lambda>_. None) 200000000 None limit ex_hook ex_hook (\<lambda>_. True)
        (snd (sweep_agent_run_deadlines (\<lambda>_. None) 2000 None 25 ex_hook ex_hook (\<lambda>_. True) ex_session)) = (Inr rep, s3)
    \<and> 1 \<in> set (dr_expired_ids rep)
    \<and> run_view (work s3) 1 = Some (''expired'', Some 1000, Some (2000 + seconds (resolved_grace (\<lambda>_. None) None)))"
proof (intro exI [of _ "1 + int (length (runs (work (snd (sweep_agent_run_deadlines (\<lambda>_. None) 2000 None 25 ex_hook ex_hook (\<lambda>_. True) ex_session)))))"],
    rule deadline_enforced [where ?s1.0 = ex_session and ?now1.0 = 2000 and ?limit1.0 = 25 and ?avail1.0 = "\<lambda>_. True" and st = "''queued''"])
  let ?s = "snd (sweep_agent_run_deadlines (\<lambda>_. None) 2000 None 25 ex_hook ex_hook (\<lambda>_. True) ex_session)"
  obtain rep s' where "sweep_agent_run_deadlines (\<lambda>_. None) 2000 None 25 ex_hook ex_hook (\<lambda>_. True) ex_session = (Inr rep, s')"
    "db_inv (work s')"
    using sweep_works [of ex_session ex_hook ex_hook "\<lambda>_. None" 2000 None 25 "\<lambda>_. True"] ex_hook_quiet ex_hook_good by auto
  then show inv: "db_inv (work ?s)" by simp
  show "run_view (work ex_session) 1 = Some (''queued'', Some 1000, None)" using ex_due by simp
  show "''queued'' \<in> set OPEN_STATUS_VALUES" by code_simp
  show "(2000::int) + seconds (resolved_grace (\<lambda>_. None) None) \<le> 200000000"
    by (simp add: seconds_def resolved_grace_def deadline_closeout_grace_seconds_def getenv_int_def)
  have "length (runs ex_db) = 3" by code_simp
  then show "card {j. due_at 2000 (work ex_session) j \<and> due_before (work ex_session) j 1} < nat (max 1 25)"
    using ahead_bound [of ex_db 2000 1] by simp
  show "card {j. due_at 200000000 (work ?s) j \<and> due_before (work ?s) j 1} < nat (max 1 (1 + int (length (runs (work ?s)))))"
    using ahead_bound [OF inv, of 200000000 1] by linarith
qed (simp_all add: ex_hook_quiet ex_hook_good)

end
