(* ===== verification/Run_Steps.thy ===== *)
theory Run_Steps
  imports Run_Watchdog
begin

text \<open>
  The store as a system: any number of workers run store operations, one after the other on the
  rows they share, each in its own session. \<open>store_step\<close> is one such operation on the committed
  database, ended by a commit or broken off; the facts about every reachable database follow from
  the interface \<open>ledger\<close>, which the steps implement.
\<close>

section \<open>Steps\<close>

definition open_session :: "bool \<Rightarrow> execution_claim list \<Rightarrow> db \<Rightarrow> session" where
  "open_session ac gone d = \<lparr>committed = d, work = d, auto_commit = ac, lost = gone\<rparr>"

text \<open>The caller ends the session with a commit, or it is broken off after its last commit.\<close>

definition close_session :: "bool \<Rightarrow> session \<Rightarrow> db" where
  "close_session finished s = (if finished then work s else committed s)"

definition run_op :: "bool \<Rightarrow> execution_claim list \<Rightarrow> bool \<Rightarrow> 'a prog \<Rightarrow> db \<Rightarrow> db" where
  "run_op ac gone finished m d = close_session finished (snd (m (open_session ac gone d)))"

inductive store_step :: "db \<Rightarrow> db \<Rightarrow> bool" where
  create: "(\<And>d. good_write other d) \<Longrightarrow>
    store_step d (run_op ac gone fin (create_run now env other rq initial h) d)"
| child: "(\<And>d. good_write other d) \<Longrightarrow>
    store_step d (run_op ac gone fin (create_child_run_with_result now env digest token other p initial a) d)"
| event: "store_step d (run_op ac gone fin (append_event now e) d)"
| artifact: "store_step d (run_op ac gone fin (append_artifact now artifact) d)"
| final_answer: "store_step d (run_op ac gone fin (append_final_answer_once now i answer root) d)"
| patch: "store_step d (run_op ac gone fin (update_metadata now i md) d)"
| status: "good_hook hook \<Longrightarrow>
    store_step d (run_op ac gone fin (set_status_with_result now hook i target opts) d)"
| fail: "good_hook hook \<Longrightarrow>
    store_step d (run_op ac gone fin (fail_run_with_result now hook i category stage ex opts) d)"
| interrupt: "good_hook hook \<Longrightarrow> good_hook continuation \<Longrightarrow>
    store_step d (run_op ac gone fin (interrupt_and_requeue now env hook continuation i reason at details) d)"
| acquire: "store_step d (run_op ac gone fin (try_acquire_execution_claim now faults token i) d)"
| release: "store_step d (run_op ac gone fin (release_execution_claim now c) d)"
| claim_next: "good_hook hook \<Longrightarrow> store_step d (run_op ac gone fin (claim_next now hook avail) d)"
| claim: "good_hook hook \<Longrightarrow> store_step d (run_op ac gone fin (claim_run now hook i) d)"
| steer: "store_step d (run_op ac gone fin (append_steering now i content user k) d)"
| drain: "(\<And>d. good_write other d) \<Longrightarrow> store_step d (run_op ac gone fin (drain_steering now other i) d)"
| heartbeat: "(\<And>d. good_write other d) \<Longrightarrow>
    store_step d (run_op ac gone fin (heartbeat_run fromiso now other i heartbeat_token note interval) d)"
| deadlines: "good_hook hook \<Longrightarrow> good_hook continuation \<Longrightarrow>
    store_step d (run_op ac gone fin (sweep_agent_run_deadlines env now grace limit hook continuation avail) d)"

inductive_cases store_stepE: "store_step d d'"

lemma safe_run_op:
  assumes "safe m" and "db_inv d"
  shows "db_inv (run_op ac gone fin m d)" and "db_evolves d (run_op ac gone fin m d)"
proof -
  have "sess_ok d (open_session ac gone d)" using assms(2) by (simp add: sess_ok_def open_session_def)
  from safeD [OF assms(1) this] have "sess_ok d (snd (m (open_session ac gone d)))" .
  then show "db_inv (run_op ac gone fin m d)" and "db_evolves d (run_op ac gone fin m d)"
    by (auto simp: run_op_def close_session_def sess_ok_def intro: db_evolves_trans)
qed

lemmas safe_operations =
  safe_create_run safe_create_child_run_with_result safe_append_event safe_append_artifact
  safe_append_final_answer_once safe_update_metadata safe_set_status_with_result
  safe_fail_run_with_result safe_interrupt_and_requeue safe_try_acquire safe_release
  safe_claim_next safe_claim_run safe_append_steering safe_drain_steering
  safe_heartbeat_run safe_sweep

lemma store_step_safe:
  assumes "store_step d d'" and "db_inv d"
  shows "db_inv d' \<and> db_evolves d d'"
  using assms(1) by cases (simp_all add: safe_run_op safe_operations assms(2))

interpretation store: ledger db_inv db_evolves store_step
  by unfold_locales (auto intro: db_evolves_trans dest: store_step_safe)

section \<open>Every reachable database\<close>

definition empty_db :: db where
  "empty_db = \<lparr>runs = [], events = [], artifacts = [], next_run_id = 1, next_event_id = 1, next_artifact_id = 1\<rparr>"

lemma empty_db_inv: "db_inv empty_db"
  by (simp add: db_inv_def empty_db_def run_ids_def keys_ok_def events_ok_def)

text \<open>
  C3: in every database the store can reach from an empty one, run ids are unique, every run has a
  valid status and an existing root, only a \<open>running\<close> or \<open>verifying\<close> run carries an execution token,
  every child run has a step hash, the two idempotency keys are unique, and within a run no event
  sequence number occurs twice.
\<close>

theorem reachable_database_consistent:
  assumes "store_step\<^sup>*\<^sup>* empty_db d"
  shows "distinct (run_ids d)
    \<and> list_all (\<lambda>r. row_status r \<in> set AGENT_RUN_DB_STATUS_VALUES
         \<and> root_run_id r \<in> set (map Some (run_ids d))
         \<and> (execution_token r = None \<or> row_run_status r = RUNNING \<or> row_run_status r = VERIFYING)
         \<and> (parent_run_id r = None \<or> parent_step_key_hash r \<noteq> None)) (runs d)
    \<and> distinct (keys_of source_key (runs d)) \<and> distinct (keys_of step_key (runs d))
    \<and> distinct (map (\<lambda>e. (er_run_id e, er_sequence_no e)) (events d))"
proof -
  have inv: "db_inv d" using store.reachable_inv [OF assms empty_db_inv] .
  have "execution_token r = None \<or> row_run_status r = RUNNING \<or> row_run_status r = VERIFYING"
    if "r \<in> set (runs d)" for r
  proof -
    have "fence_ok r" using inv that by (simp add: db_inv_def row_ok_def)
    then show ?thesis
      unfolding fence_ok_def using row_run_status_value [of r RUNNING] row_run_status_value [of r VERIFYING] by blast
  qed
  moreover have "parent_run_id r = None \<or> parent_step_key_hash r \<noteq> None" if "r \<in> set (runs d)" for r
    using inv that by (auto simp: db_inv_def row_ok_def)
  ultimately show ?thesis
    using inv by (simp add: db_inv_def list_all_iff row_ok_def keys_ok_def events_ok_def)
qed

text \<open>
  C1: a settled run stays settled: once a run is completed, failed, canceled or expired, no sequence
  of store operations by any workers changes its status again.
\<close>

theorem terminal_status_final:
  assumes "store_step\<^sup>*\<^sup>* a b" and "db_inv a" and "find_run a i = Some r"
    and "row_run_status r \<in> set TERMINAL_RUN_STATUSES"
  shows "\<exists>r'. find_run b i = Some r' \<and> row_status r' = row_status r"
proof -
  obtain r' where "find_run b i = Some r'" and "row_evolves r r'"
    by (rule db_evolvesD [OF store.reachable_evolves [OF assms(1,2)] assms(3)])
  then show ?thesis using assms(4) by (simp add: row_evolves_def)
qed

text \<open>
  The event table is append-only: whatever the workers do, the events of an earlier state are a
  prefix of the events of a later one.
\<close>

theorem events_append_only:
  assumes "store_step\<^sup>*\<^sup>* a b" and "db_inv a"
  shows "\<exists>es. events b = events a @ es"
  using store.reachable_evolves [OF assms] by (simp add: db_evolves_def)

text \<open>
  C2: fencing is permanent: an execution claim that the row of its run does not match (it was
  superseded, released or interrupted), and whose attempt is not ahead of the row, is never
  current again in any database the workers reach: a worker that has lost its run cannot get its
  claim back, and by the fencing of \<open>set_status\<close> cannot move the run.
\<close>

theorem superseded_claim_never_returns:
  assumes "store_step\<^sup>*\<^sup>* a b" and "db_inv a" and "find_run a i = Some r" and "find_run b i = Some r'"
    and "\<not> claim_matches c r" and "cl_attempt c \<le> execution_attempt r" and "cl_token c \<noteq> []"
  shows "\<not> claim_matches c r'"
  by (rule stale_claim_stays_stale [OF store.reachable_evolves [OF assms(1,2)] assms(3-7)])

section \<open>A concrete history\<close>

definition ex_step_db :: db where
  "ex_step_db = run_op True [] True (try_acquire_execution_claim 500 (\<lambda>_. None) ''tok2'' 2)
     (run_op True [] True (interrupt_and_requeue 400 ex_env ex_hook ex_hook 2 ''deploy'' None []) ex_db)"

lemma ex_steps: "store_step\<^sup>*\<^sup>* ex_db ex_step_db"
proof -
  let ?d = "run_op True [] True (interrupt_and_requeue 400 ex_env ex_hook ex_hook 2 ''deploy'' None []) ex_db"
  have "store_step ex_db ?d" by (rule store_step.interrupt) simp_all
  moreover have "store_step ?d ex_step_db" unfolding ex_step_db_def by (rule store_step.acquire)
  ultimately show ?thesis by (meson converse_rtranclp_into_rtranclp r_into_rtranclp)
qed

lemma ex_done_status: "row_status ex_done = ''completed''"
  by (simp add: ex_done_def ex_row_def)

lemma terminal_status_final_witness:
  "\<exists>r'. find_run ex_step_db 3 = Some r' \<and> row_status r' = ''completed''"
  using terminal_status_final [OF ex_steps ex_db_inv, of 3 ex_done]
  by (simp add: TERMINAL_RUN_STATUSES_def ex_done_status)

lemma events_append_only_witness: "\<exists>es. events ex_step_db = events ex_db @ es"
  by (rule events_append_only [OF ex_steps ex_db_inv])

definition ex_fresh_db :: db where
  "ex_fresh_db = run_op True [] True (create_run 100 ex_env id ex_request (StatusEnum QUEUED) None) empty_db"

lemma reachable_database_consistent_witness: "distinct (run_ids ex_fresh_db)"
proof -
  have "store_step empty_db ex_fresh_db"
    unfolding ex_fresh_db_def by (rule store_step.create) (simp add: good_write_def)
  then have "store_step\<^sup>*\<^sup>* empty_db ex_fresh_db" by blast
  from reachable_database_consistent [OF this] show ?thesis by blast
qed

lemma superseded_claim_never_returns_witness:
  "\<exists>r'. find_run ex_step_db 2 = Some r' \<and> \<not> claim_matches ex_stale_claim r'"
proof -
  have ev: "db_evolves ex_db ex_step_db" by (rule store.reachable_evolves [OF ex_steps ex_db_inv])
  obtain r' where r': "find_run ex_step_db 2 = Some r'"
    by (rule db_evolvesD [OF ev, of 2 ex_running]) simp_all
  with superseded_claim_never_returns [OF ex_steps ex_db_inv _ r', of ex_running ex_stale_claim]
  show ?thesis by (simp add: ex_stale_claim_def ex_running_def ex_row_def claim_matches_def)
qed

end
