(* ===== verification/Loop_Control.thy ===== *)
theory Loop_Control
  imports Py_Prelude
begin

text \<open>
  Run control of the direct agent loop (\<open>runs/direct_loop/loop_guard.py\<close>,
  \<open>tool_failure_policy.py\<close> and \<open>loop_control.py\<close>): progress tracking per declared target, the three
  stuck-loop detectors, the per-tool failure windows with one-shot disablement, and the evaluator
  that gives termination precedence and latches it. The tool registry is an argument, as is the
  digest of a result (SHA-256).
\<close>

section \<open>Calls, identities and results\<close>

datatype side_effect_class =
  APPEND_ONLY | BROWSER_ARTIFACT | BROWSER_INTERACTION | BROWSER_NAVIGATION | BROWSER_SESSION
| CYCLE_MANAGEMENT | CHAT_MESSAGE | RUN_ANNOTATION | DOMAIN_MANAGEMENT | INBOUND_CONFIGURATION
| IDEA_MANAGEMENT | MEMORY_CURATION | DEPLOYMENT_MANAGEMENT | WORKSPACE_TOOL_MANAGEMENT
| SOUL_MANAGEMENT | PROJECT_CONTEXT_MANAGEMENT | FILE_EDIT | FILE_WRITE | READ_ONLY
| READ_ONLY_EXTERNAL | RUN_SPAWN | RUNTIME_CONFIGURATION | SCRATCHPAD | SCRATCHPAD_LIFECYCLE
| SHELL | SKILL_WRITE | WRITE | WORKSPACE_APP_MANAGEMENT

definition is_write_side_effect_class :: "side_effect_class \<Rightarrow> bool" where
  "is_write_side_effect_class c = (c \<notin> {READ_ONLY, READ_ONLY_EXTERNAL})"

record tool_registration =
  tr_side_effect :: side_effect_class
  tr_volatile_fields :: "string list option"

type_synonym tool_registry = "string \<Rightarrow> tool_registration option"

record tool_failure =
  tf_message :: string
  tf_category :: string

record resolved_call =
  rc_tool_name :: string
  rc_tool_input :: pydict
  rc_result_text :: string
  rc_result_value :: pyval
  rc_failure :: "tool_failure option"

record call_identity =
  exact_key :: string
  target_key :: string

datatype progress = NEW_TARGET | CHANGED | UNCHANGED

record observation =
  ob_identity :: call_identity
  ob_result_key :: string
  ob_progress :: progress

datatype loop_trigger = EXACT_REPEAT | SEMANTIC_NO_PROGRESS | UNCHANGED_RESULT

record loop_signal =
  ls_trigger :: loop_trigger
  ls_message :: string

definition canonical_key :: "string \<Rightarrow> pydict \<Rightarrow> string" where
  "canonical_key tool input = tool @ '':'' @ json_dumps True '', '' '': '' (PyDict input)"

definition project_identity :: "string list \<Rightarrow> pydict \<Rightarrow> pydict" where
  "project_identity volatile input = filter (\<lambda>(k, v). k \<notin> set volatile) input"

definition tool_call_target_key :: "tool_registry \<Rightarrow> string \<Rightarrow> pydict \<Rightarrow> string" where
  "tool_call_target_key reg tool input =
     canonical_key tool
       (case reg tool of
          None \<Rightarrow> input
        | Some r \<Rightarrow> (case tr_volatile_fields r of None \<Rightarrow> input | Some v \<Rightarrow> project_identity v input))"

definition tool_call_identity :: "tool_registry \<Rightarrow> string \<Rightarrow> pydict \<Rightarrow> call_identity" where
  "tool_call_identity reg tool input =
     \<lparr>exact_key = canonical_key tool input, target_key = tool_call_target_key reg tool input\<rparr>"

definition tool_result_key :: "(string \<Rightarrow> string) \<Rightarrow> resolved_call \<Rightarrow> string" where
  "tool_result_key digest call =
     digest (json_dumps True '','' '':''
       (if rc_result_value call \<noteq> PyNone then rc_result_value call else PyStr (rc_result_text call)))"

definition is_loop_progress_candidate :: "tool_registry \<Rightarrow> string \<Rightarrow> bool" where
  "is_loop_progress_candidate reg tool =
     (case reg tool of None \<Rightarrow> False | Some r \<Rightarrow> tr_side_effect r \<in> {READ_ONLY, READ_ONLY_EXTERNAL})"

definition call_tool_name :: "resolved_call \<Rightarrow> string" where
  "call_tool_name call = (if rc_tool_name call = [] then ''unknown_tool'' else rc_tool_name call)"

section \<open>Progress and detectors\<close>

type_synonym last_results = "string \<Rightarrow> string option"

definition observe_progress :: "last_results \<Rightarrow> call_identity \<Rightarrow> string \<Rightarrow> observation \<times> last_results" where
  "observe_progress seen ident key =
     (let p = (case seen (target_key ident) of
                 None \<Rightarrow> NEW_TARGET
               | Some prev \<Rightarrow> if prev \<noteq> key then CHANGED else UNCHANGED)
      in (\<lparr>ob_identity = ident, ob_result_key = key, ob_progress = p\<rparr>, seen(target_key ident \<mapsto> key)))"

record exact_detector =
  ed_break :: int
  ed_warn :: int
  ed_last :: "string option"
  ed_count :: int

definition new_exact_detector :: "int \<Rightarrow> int \<Rightarrow> exact_detector" where
  "new_exact_detector brk warn = \<lparr>ed_break = max 1 brk, ed_warn = max 1 warn, ed_last = None, ed_count = 0\<rparr>"

definition exact_repeat_message :: string where
  "exact_repeat_message =
     ''[System: Agent terminated: stuck in a loop repeating the same '' @ ''tool call]''"

definition exact_observe :: "exact_detector \<Rightarrow> observation \<Rightarrow> loop_signal option \<times> exact_detector" where
  "exact_observe d ob =
     (if ob_progress ob = CHANGED then (None, d\<lparr>ed_last := None, ed_count := 0\<rparr>)
      else
        (let d' = (if Some (exact_key (ob_identity ob)) = ed_last d then d\<lparr>ed_count := ed_count d + 1\<rparr>
                   else d\<lparr>ed_last := Some (exact_key (ob_identity ob)), ed_count := 1\<rparr>)
         in if ed_count d' < ed_break d' then (None, d')
            else (Some \<lparr>ls_trigger = EXACT_REPEAT, ls_message = exact_repeat_message\<rparr>, d')))"

definition reminder_text :: string where
  "reminder_text =
     ''[System: NOTE: `cd` does not persist between exec_command calls; ''
     @ ''use `working_dir` or absolute paths.]''"

definition exact_reminder :: "exact_detector \<Rightarrow> pydict option" where
  "exact_reminder d =
     (if ed_count d < ed_warn d then None
      else Some [(''role'', PyStr ''user''), (''content'', PyStr reminder_text)])"

record semantic_detector =
  sd_threshold :: int
  sd_streak :: int

definition new_semantic_detector :: "int \<Rightarrow> semantic_detector" where
  "new_semantic_detector n = \<lparr>sd_threshold = max 1 n, sd_streak = 0\<rparr>"

definition semantic_message :: string where
  "semantic_message =
     ''[System: Agent terminated: stuck in a semantic tool-call loop '' @ ''with no new target or result]''"

definition semantic_observe :: "semantic_detector \<Rightarrow> observation \<Rightarrow> loop_signal option \<times> semantic_detector" where
  "semantic_observe d ob =
     (let d' = d\<lparr>sd_streak := (if ob_progress ob = UNCHANGED then sd_streak d + 1 else 0)\<rparr>
      in if sd_streak d' < sd_threshold d' then (None, d')
         else (Some \<lparr>ls_trigger = SEMANTIC_NO_PROGRESS, ls_message = semantic_message\<rparr>, d'))"

record unchanged_detector =
  ud_threshold :: int
  ud_counts :: "string \<Rightarrow> int option"

definition new_unchanged_detector :: "int \<Rightarrow> unchanged_detector" where
  "new_unchanged_detector n = \<lparr>ud_threshold = max 2 n, ud_counts = Map.empty\<rparr>"

definition unchanged_message :: string where
  "unchanged_message =
     ''[System: Agent terminated: stuck in a loop repeating the same ''
     @ ''read-only tool call with an unchanged result]''"

definition unchanged_observe :: "unchanged_detector \<Rightarrow> observation \<Rightarrow> loop_signal option \<times> unchanged_detector" where
  "unchanged_observe d ob =
     (let t = target_key (ob_identity ob);
          n = (if ob_progress ob = UNCHANGED
               then (case ud_counts d t of None \<Rightarrow> 1 | Some c \<Rightarrow> c) + 1 else 1);
          d' = d\<lparr>ud_counts := (ud_counts d)(t \<mapsto> n)\<rparr>
      in if n < ud_threshold d then (None, d')
         else (Some \<lparr>ls_trigger = UNCHANGED_RESULT, ls_message = unchanged_message\<rparr>, d'))"

record loop_guard =
  lg_results :: last_results
  lg_exact :: exact_detector
  lg_semantic :: semantic_detector
  lg_unchanged :: unchanged_detector

definition new_loop_guard :: "int \<Rightarrow> int \<Rightarrow> int \<Rightarrow> loop_guard" where
  "new_loop_guard semantic unchanged exact =
     \<lparr>lg_results = Map.empty, lg_exact = new_exact_detector exact 3,
      lg_semantic = new_semantic_detector semantic, lg_unchanged = new_unchanged_detector unchanged\<rparr>"

definition signals_of :: "loop_signal option list \<Rightarrow> loop_signal list" where
  "signals_of ss = List.map_filter id ss"

definition guard_observe ::
  "tool_registry \<Rightarrow> (string \<Rightarrow> string) \<Rightarrow> loop_guard \<Rightarrow> resolved_call \<Rightarrow> loop_signal list \<times> loop_guard" where
  "guard_observe reg digest g call =
     (let ident = tool_call_identity reg (call_tool_name call) (rc_tool_input call);
          (ob, results) = observe_progress (lg_results g) ident (tool_result_key digest call);
          (s1, exact) = exact_observe (lg_exact g) ob;
          g1 = g\<lparr>lg_results := results, lg_exact := exact\<rparr>
      in if is_loop_progress_candidate reg (call_tool_name call)
         then (let (s2, sem) = semantic_observe (lg_semantic g) ob;
                   (s3, unch) = unchanged_observe (lg_unchanged g) ob
               in (signals_of [s1, s2, s3], g1\<lparr>lg_semantic := sem, lg_unchanged := unch\<rparr>))
         else (signals_of [s1], g1))"

section \<open>Tool failures\<close>

definition DEFAULT_TOOL_FAILURE_CATEGORY :: string where
  "DEFAULT_TOOL_FAILURE_CATEGORY = ''ToolError''"

definition tool_failure_threshold :: "environ \<Rightarrow> int" where
  "tool_failure_threshold env = max 1 (getenv_int env ''AGENT_TOOL_FAILURE_THRESHOLD'' 3)"

definition tool_failure_window_calls :: "environ \<Rightarrow> int" where
  "tool_failure_window_calls env = max 1 (getenv_int env ''AGENT_TOOL_FAILURE_WINDOW_CALLS'' 10)"

definition tool_zero_success_failure_threshold :: "environ \<Rightarrow> int" where
  "tool_zero_success_failure_threshold env =
     max 2 (getenv_int env ''AGENT_TOOL_ZERO_SUCCESS_FAILURE_THRESHOLD'' 2)"

datatype failure_trigger = ROLLING_WINDOW | ZERO_SUCCESS

record failure_window =
  fw_recent :: "string option list"
  fw_failures :: int
  fw_successes :: int

definition empty_window :: failure_window where
  "empty_window = \<lparr>fw_recent = [], fw_failures = 0, fw_successes = 0\<rparr>"

text \<open>\<open>del recent[:-window]\<close> keeps the last \<open>window\<close> entries; the window is at least one.\<close>

definition window_observe :: "string option \<Rightarrow> int \<Rightarrow> failure_window \<Rightarrow> failure_window" where
  "window_observe e w fw =
     (let recent = fw_recent fw @ [e];
          kept = (if w < int (length recent) then drop (length recent - nat w) recent else recent)
      in fw\<lparr>fw_recent := kept,
            fw_successes := fw_successes fw + (if e = None then 1 else 0),
            fw_failures := fw_failures fw + (if e = None then 0 else 1)\<rparr>)"

definition rolling_failures :: "failure_window \<Rightarrow> string \<Rightarrow> int" where
  "rolling_failures fw e = int (count_list (fw_recent fw) (Some e))"

definition failure_classes :: "failure_window \<Rightarrow> string list" where
  "failure_classes fw = remdups (List.map_filter id (fw_recent fw))"

definition largest_rolling_failure_count :: "failure_window \<Rightarrow> int" where
  "largest_rolling_failure_count fw = foldr max (map (rolling_failures fw) (failure_classes fw)) 0"

record tool_disablement =
  td_tool_name :: string
  td_error_class :: string
  td_triggers :: "failure_trigger list"
  td_rolling_failures :: int
  td_total_failures :: int
  td_total_successes :: int
  td_window_calls :: int
  td_last_error_message :: string

record failure_policy =
  fp_threshold :: int
  fp_window :: int
  fp_zero_success :: int
  fp_disabled :: "string \<Rightarrow> tool_disablement option"
  fp_windows :: "string \<Rightarrow> failure_window option"

definition new_failure_policy :: "int \<Rightarrow> int \<Rightarrow> int \<Rightarrow> failure_policy" where
  "new_failure_policy threshold window zero =
     \<lparr>fp_threshold = max 1 threshold, fp_window = max (max 1 threshold) window,
      fp_zero_success = max 2 zero, fp_disabled = Map.empty, fp_windows = Map.empty\<rparr>"

definition parallel_same_tool_limit :: "failure_policy \<Rightarrow> string \<Rightarrow> int" where
  "parallel_same_tool_limit p tool =
     (let st = fp_windows p tool;
          rolling = (case st of None \<Rightarrow> 0 | Some fw \<Rightarrow> largest_rolling_failure_count fw);
          unproven = (case st of None \<Rightarrow> True | Some fw \<Rightarrow> fw_successes fw = 0);
          failed = (case st of None \<Rightarrow> 0 | Some fw \<Rightarrow> fw_failures fw);
          r1 = fp_threshold p - rolling
      in max 1 (if unproven then min r1 (fp_zero_success p - failed) else r1))"

definition evaluate_triggers :: "failure_policy \<Rightarrow> failure_window \<Rightarrow> string \<Rightarrow> failure_trigger list" where
  "evaluate_triggers p fw e =
     (if fp_threshold p \<le> rolling_failures fw e then [ROLLING_WINDOW] else [])
     @ (if fw_successes fw = 0 \<and> fp_zero_success p \<le> fw_failures fw then [ZERO_SUCCESS] else [])"

definition call_error_class :: "resolved_call \<Rightarrow> string option" where
  "call_error_class call = map_option (\<lambda>f. if tf_category f = [] then DEFAULT_TOOL_FAILURE_CATEGORY
      else tf_category f) (rc_failure call)"

definition policy_observe :: "failure_policy \<Rightarrow> resolved_call \<Rightarrow> tool_disablement option \<times> failure_policy" where
  "policy_observe p call =
     (let tool = call_tool_name call;
          fw = (case fp_windows p tool of None \<Rightarrow> empty_window | Some w \<Rightarrow> w);
          e = call_error_class call;
          fw' = window_observe e (fp_window p) fw;
          p' = p\<lparr>fp_windows := (fp_windows p)(tool \<mapsto> fw')\<rparr>
      in case e of
           None \<Rightarrow> (None, p')
         | Some cls \<Rightarrow>
             (let triggers = evaluate_triggers p' fw' cls in
              if triggers = [] \<or> fp_disabled p tool \<noteq> None then (None, p')
              else
                (let td = \<lparr>td_tool_name = tool, td_error_class = cls, td_triggers = triggers,
                        td_rolling_failures = rolling_failures fw' cls,
                        td_total_failures = fw_failures fw', td_total_successes = fw_successes fw',
                        td_window_calls = fp_window p, td_last_error_message = rc_result_text call\<rparr>
                 in (Some td, p'\<lparr>fp_disabled := (fp_disabled p)(tool \<mapsto> td)\<rparr>))))"

definition trigger_summary :: "tool_disablement \<Rightarrow> string" where
  "trigger_summary td =
     py_join ''; ''
       ((if ROLLING_WINDOW \<in> set (td_triggers td)
         then [show_int (td_rolling_failures td) @ '' `'' @ td_error_class td @ ''` failures in the ''
               @ ''last '' @ show_int (td_window_calls td) @ '' calls to this tool''] else [])
        @ (if ZERO_SUCCESS \<in> set (td_triggers td)
           then [show_int (td_total_failures td) @ '' failures with zero successes''] else []))"

definition model_note :: "tool_disablement \<Rightarrow> string" where
  "model_note td =
     (let d0 = py_strip (if td_last_error_message td = [] then ''No error detail was returned.''
                         else td_last_error_message td);
          detail = (if 500 < length d0 then take 497 d0 @ ''...'' else d0)
      in ''[System: Tool `'' @ td_tool_name td @ ''` is unavailable for the rest of this run; ''
         @ ''proceed degraded and record the gap. '' @ ''Guard trigger: '' @ trigger_summary td
         @ ''. Observed '' @ show_int (td_total_failures td) @ '' failures ''
         @ ''and '' @ show_int (td_total_successes td) @ '' successes for this tool. ''
         @ ''Last error (`'' @ td_error_class td @ ''`): '' @ detail @ '']'')"

definition error_tool_result :: "string \<Rightarrow> string \<Rightarrow> pydict" where
  "error_tool_result block_id content =
     [(''type'', PyStr ''tool_result''), (''tool_use_id'', PyStr block_id),
      (''content'', PyStr content), (''is_error'', PyBool True)]"

definition disabled_tool_result :: "tool_disablement \<Rightarrow> string \<Rightarrow> pydict" where
  "disabled_tool_result td block_id = error_tool_result block_id (model_note td)"

section \<open>Termination\<close>

record loop_termination =
  lt_message :: string
  lt_trigger :: loop_trigger
  lt_final_output :: "string option"

definition text_message :: "string \<Rightarrow> string \<Rightarrow> pydict" where
  "text_message role body =
     [(''role'', PyStr role),
      (''content'', PyList [PyDict [(''type'', PyStr ''text''), (''text'', PyStr body)]])]"

definition transcript_message :: "loop_termination \<Rightarrow> pydict option" where
  "transcript_message t = map_option (text_message ''assistant'') (lt_final_output t)"

definition skipped_tool_result :: "loop_termination \<Rightarrow> string \<Rightarrow> pydict" where
  "skipped_tool_result t block_id =
     error_tool_result block_id
       (case lt_final_output t of None \<Rightarrow> lt_message t | Some out \<Rightarrow> if out = [] then lt_message t else out)"

definition control_message :: "loop_termination \<Rightarrow> pydict" where
  "control_message t = text_message ''user'' (lt_message t)"

record control_decision =
  cd_termination :: "loop_termination option"
  cd_disablement :: "tool_disablement option"

fun signal_precedence :: "loop_trigger \<Rightarrow> nat" where
  "signal_precedence UNCHANGED_RESULT = 0"
| "signal_precedence EXACT_REPEAT = 1"
| "signal_precedence SEMANTIC_NO_PROGRESS = 2"

text \<open>\<open>min(signals, key=...)\<close>: the first of the smallest.\<close>

fun first_signal :: "loop_signal \<Rightarrow> loop_signal list \<Rightarrow> loop_signal" where
  "first_signal best [] = best"
| "first_signal best (x # xs) =
     (if signal_precedence (ls_trigger x) < signal_precedence (ls_trigger best) then first_signal x xs
      else first_signal best xs)"

definition evaluate_control ::
  "loop_termination option \<Rightarrow> loop_signal list \<Rightarrow> tool_disablement option
   \<Rightarrow> control_decision \<times> loop_termination option" where
  "evaluate_control latched signals disablement =
     (case latched of
        Some t \<Rightarrow> (\<lparr>cd_termination = Some t, cd_disablement = None\<rparr>, latched)
      | None \<Rightarrow>
          (case signals of
             [] \<Rightarrow> (\<lparr>cd_termination = None, cd_disablement = disablement\<rparr>, None)
           | x # xs \<Rightarrow>
               (let s = first_signal x xs;
                    t = \<lparr>lt_message = ls_message s, lt_trigger = ls_trigger s, lt_final_output = None\<rparr>
                in (\<lparr>cd_termination = Some t, cd_disablement = None\<rparr>, Some t))))"

record run_control =
  ctl_failures :: failure_policy
  ctl_guard :: loop_guard
  ctl_termination :: "loop_termination option"

definition new_run_control ::
  "environ \<Rightarrow> int option \<Rightarrow> int option \<Rightarrow> int option \<Rightarrow> int \<Rightarrow> int \<Rightarrow> int \<Rightarrow> run_control" where
  "new_run_control env threshold window zero semantic unchanged exact =
     (let pick = (\<lambda>v d. case v of None \<Rightarrow> d | Some x \<Rightarrow> x)
      in \<lparr>ctl_failures = new_failure_policy (pick threshold (tool_failure_threshold env))
            (pick window (tool_failure_window_calls env)) (pick zero (tool_zero_success_failure_threshold env)),
          ctl_guard = new_loop_guard semantic unchanged exact, ctl_termination = None\<rparr>)"

definition control_observe ::
  "tool_registry \<Rightarrow> (string \<Rightarrow> string) \<Rightarrow> run_control \<Rightarrow> resolved_call \<Rightarrow> control_decision \<times> run_control" where
  "control_observe reg digest c call =
     (let (signals, guard) = guard_observe reg digest (ctl_guard c) call;
          (disablement, failures) = policy_observe (ctl_failures c) call;
          (decision, latched) = evaluate_control (ctl_termination c) signals disablement
      in (decision, \<lparr>ctl_failures = failures, ctl_guard = guard, ctl_termination = latched\<rparr>))"

definition resolve_loop_output :: "loop_termination option \<Rightarrow> string \<Rightarrow> string list \<Rightarrow> string" where
  "resolve_loop_output termination extracted staged =
     (case Option.bind termination lt_final_output of
        Some out \<Rightarrow> out
      | None \<Rightarrow> if staged \<noteq> [] then last staged else extracted)"

text \<open>A whole run: the decisions of a list of resolved calls.\<close>

fun control_run ::
  "tool_registry \<Rightarrow> (string \<Rightarrow> string) \<Rightarrow> run_control \<Rightarrow> resolved_call list
   \<Rightarrow> control_decision list \<times> run_control" where
  "control_run reg digest c [] = ([], c)"
| "control_run reg digest c (x # xs) =
     (let (d, c') = control_observe reg digest c x; (ds, c'') = control_run reg digest c' xs in (d # ds, c''))"

section \<open>What the guard remembers\<close>

text \<open>The guard after a list of calls, and the observations it has made.\<close>

definition call_identity_of :: "tool_registry \<Rightarrow> resolved_call \<Rightarrow> call_identity" where
  "call_identity_of reg call = tool_call_identity reg (call_tool_name call) (rc_tool_input call)"

definition guard_after :: "tool_registry \<Rightarrow> (string \<Rightarrow> string) \<Rightarrow> loop_guard \<Rightarrow> resolved_call list \<Rightarrow> loop_guard" where
  "guard_after reg digest g calls = foldl (\<lambda>g c. snd (guard_observe reg digest g c)) g calls"

definition observe_call ::
  "tool_registry \<Rightarrow> (string \<Rightarrow> string) \<Rightarrow> loop_guard \<Rightarrow> resolved_call \<Rightarrow> observation" where
  "observe_call reg digest g call =
     fst (observe_progress (lg_results g) (call_identity_of reg call) (tool_result_key digest call))"

lemma guard_observe_fields:
  "lg_results (snd (guard_observe reg digest g call))
     = (lg_results g)(target_key (call_identity_of reg call) \<mapsto> tool_result_key digest call)"
  "lg_exact (snd (guard_observe reg digest g call)) = snd (exact_observe (lg_exact g) (observe_call reg digest g call))"
  "lg_semantic (snd (guard_observe reg digest g call)) =
     (if is_loop_progress_candidate reg (call_tool_name call)
      then snd (semantic_observe (lg_semantic g) (observe_call reg digest g call)) else lg_semantic g)"
  "lg_unchanged (snd (guard_observe reg digest g call)) =
     (if is_loop_progress_candidate reg (call_tool_name call)
      then snd (unchanged_observe (lg_unchanged g) (observe_call reg digest g call)) else lg_unchanged g)"
  by (simp_all add: guard_observe_def observe_call_def call_identity_of_def observe_progress_def Let_def
      split: prod.split)

lemma guard_signals:
  "fst (guard_observe reg digest g call) = signals_of
     (fst (exact_observe (lg_exact g) (observe_call reg digest g call)) #
      (if is_loop_progress_candidate reg (call_tool_name call)
       then [fst (semantic_observe (lg_semantic g) (observe_call reg digest g call)),
             fst (unchanged_observe (lg_unchanged g) (observe_call reg digest g call))] else []))"
  by (simp add: guard_observe_def observe_call_def call_identity_of_def observe_progress_def Let_def
      split: prod.split)

lemma guard_after_snoc [simp]:
  "guard_after reg digest g [] = g"
  "guard_after reg digest g (calls @ [c]) = snd (guard_observe reg digest (guard_after reg digest g calls) c)"
  by (simp_all add: guard_after_def)

lemma observe_call_simps [simp]:
  "ob_identity (observe_call reg digest g call) = call_identity_of reg call"
  "ob_result_key (observe_call reg digest g call) = tool_result_key digest call"
  "ob_progress (observe_call reg digest g call) =
     (case lg_results g (target_key (call_identity_of reg call)) of None \<Rightarrow> NEW_TARGET
      | Some prev \<Rightarrow> if prev \<noteq> tool_result_key digest call then CHANGED else UNCHANGED)"
  by (simp_all add: observe_call_def observe_progress_def Let_def)

text \<open>The results of one target, in order, and how often the last of them has been repeated.\<close>

definition target_results ::
  "tool_registry \<Rightarrow> (string \<Rightarrow> string) \<Rightarrow> resolved_call list \<Rightarrow> string \<Rightarrow> string list" where
  "target_results reg digest calls t =
     map (tool_result_key digest) (filter (\<lambda>c. target_key (call_identity_of reg c) = t) calls)"

definition trailing_repeats :: "'a list \<Rightarrow> nat" where
  "trailing_repeats xs = length (takeWhile (\<lambda>x. x = last xs) (rev xs))"

lemma trailing_repeats_snoc:
  "trailing_repeats (xs @ [x]) = (if xs \<noteq> [] \<and> last xs = x then trailing_repeats xs + 1 else 1)"
  by (cases xs rule: rev_cases) (auto simp: trailing_repeats_def)

lemma target_results_snoc:
  "target_results reg digest (calls @ [c]) t =
     target_results reg digest calls t
     @ (if target_key (call_identity_of reg c) = t then [tool_result_key digest c] else [])"
  by (simp add: target_results_def)

lemma guard_results:
  assumes "lg_results g = Map.empty"
  shows "lg_results (guard_after reg digest g calls) t
    = (if target_results reg digest calls t = [] then None else Some (last (target_results reg digest calls t)))"
  using assms
  by (induction calls rule: rev_induct)
     (auto simp: guard_observe_fields target_results_snoc target_results_def)

definition read_only_target :: "tool_registry \<Rightarrow> string \<Rightarrow> resolved_call list \<Rightarrow> bool" where
  "read_only_target reg t calls =
     list_all (\<lambda>c. target_key (call_identity_of reg c) \<noteq> t \<or> is_loop_progress_candidate reg (call_tool_name c)) calls"

lemma guard_unchanged_counts:
  assumes "g = new_loop_guard semantic unchanged exact" and "read_only_target reg t calls"
  shows "ud_counts (lg_unchanged (guard_after reg digest g calls)) t
    = (if target_results reg digest calls t = [] then None
       else Some (int (trailing_repeats (target_results reg digest calls t))))"
  using assms(2)
proof (induction calls rule: rev_induct)
  case Nil
  show ?case by (simp add: assms(1) new_loop_guard_def new_unchanged_detector_def target_results_def)
next
  case (snoc c calls)
  let ?g = "guard_after reg digest g calls"
  have empty: "lg_results g = Map.empty" by (simp add: assms(1) new_loop_guard_def)
  note res = guard_results [OF empty, of reg digest calls]
  have ro: "read_only_target reg t calls" using snoc.prems by (simp add: read_only_target_def)
  show ?case
  proof (cases "target_key (call_identity_of reg c) = t")
    case True
    then have "is_loop_progress_candidate reg (call_tool_name c)"
      using snoc.prems by (simp add: read_only_target_def)
    then show ?thesis
      using True snoc.IH [OF ro] res [of t]
      by (simp add: guard_observe_fields unchanged_observe_def Let_def target_results_snoc trailing_repeats_snoc)
  next
    case False
    then show ?thesis
      using snoc.IH [OF ro]
      by (simp add: guard_observe_fields unchanged_observe_def Let_def target_results_snoc)
  qed
qed

lemma guard_thresholds:
  "ud_threshold (lg_unchanged (guard_after reg digest g calls)) = ud_threshold (lg_unchanged g)"
  "ed_break (lg_exact (guard_after reg digest g calls)) = ed_break (lg_exact g)"
  "ed_warn (lg_exact (guard_after reg digest g calls)) = ed_warn (lg_exact g)"
  "sd_threshold (lg_semantic (guard_after reg digest g calls)) = sd_threshold (lg_semantic g)"
  by (induction calls rule: rev_induct)
     (simp_all add: guard_observe_fields unchanged_observe_def exact_observe_def semantic_observe_def Let_def)

lemma in_signals_of: "s \<in> set (signals_of ss) \<longleftrightarrow> Some s \<in> set ss"
  by (induction ss) (auto simp: signals_of_def List.map_filter_simps split: option.split)

definition triggers_of :: "loop_signal list \<Rightarrow> loop_trigger list" where
  "triggers_of ss = map ls_trigger ss"

lemma observe_triggers:
  "fst (exact_observe d ob) = Some s \<Longrightarrow> ls_trigger s = EXACT_REPEAT"
  "fst (semantic_observe sd ob) = Some s \<Longrightarrow> ls_trigger s = SEMANTIC_NO_PROGRESS"
  "fst (unchanged_observe ud ob) = Some s \<Longrightarrow> ls_trigger s = UNCHANGED_RESULT"
  by (auto simp: exact_observe_def semantic_observe_def unchanged_observe_def Let_def split: if_splits)

lemma in_triggers_signals:
  "t \<in> set (triggers_of (signals_of ss)) \<longleftrightarrow> (\<exists>s. Some s \<in> set ss \<and> ls_trigger s = t)"
  by (auto simp: triggers_of_def image_iff in_signals_of)

lemma guard_trigger_iff:
  "UNCHANGED_RESULT \<in> set (triggers_of (fst (guard_observe reg digest g call))) \<longleftrightarrow>
     is_loop_progress_candidate reg (call_tool_name call)
     \<and> fst (unchanged_observe (lg_unchanged g) (observe_call reg digest g call)) \<noteq> None"
  "EXACT_REPEAT \<in> set (triggers_of (fst (guard_observe reg digest g call))) \<longleftrightarrow>
     fst (exact_observe (lg_exact g) (observe_call reg digest g call)) \<noteq> None"
  "SEMANTIC_NO_PROGRESS \<in> set (triggers_of (fst (guard_observe reg digest g call))) \<longleftrightarrow>
     is_loop_progress_candidate reg (call_tool_name call)
     \<and> fst (semantic_observe (lg_semantic g) (observe_call reg digest g call)) \<noteq> None"
  unfolding guard_signals in_triggers_signals
  by (cases "fst (exact_observe (lg_exact g) (observe_call reg digest g call))";
      cases "fst (semantic_observe (lg_semantic g) (observe_call reg digest g call))";
      cases "fst (unchanged_observe (lg_unchanged g) (observe_call reg digest g call))";
      auto dest: observe_triggers)+

lemma unchanged_signal_iff:
  "fst (unchanged_observe d ob) \<noteq> None \<longleftrightarrow>
     ud_threshold d \<le> (if ob_progress ob = UNCHANGED
        then (case ud_counts d (target_key (ob_identity ob)) of None \<Rightarrow> 1 | Some c \<Rightarrow> c) + 1 else 1)"
  by (simp add: unchanged_observe_def Let_def not_less)

text \<open>
  The unchanged-result detector is exact: after any history of calls to any tools, a call to a
  read-only target raises the \<open>unchanged_result\<close> signal if and only if its result and the results
  of the calls to that target immediately before it are the same \<open>max(2, threshold)\<close> times in a
  row; calls to other targets in between neither add to the count nor reset it.
\<close>

theorem unchanged_result_exact:
  assumes "read_only_target reg (target_key (call_identity_of reg call)) (calls @ [call])"
  shows "(UNCHANGED_RESULT \<in> set (triggers_of (fst (guard_observe reg digest
        (guard_after reg digest (new_loop_guard semantic unchanged exact) calls) call))))
    = (max 2 unchanged \<le> int (trailing_repeats
        (target_results reg digest (calls @ [call]) (target_key (call_identity_of reg call)))))"
proof -
  let ?start = "new_loop_guard semantic unchanged exact"
  let ?g = "guard_after reg digest ?start calls"
  let ?t = "target_key (call_identity_of reg call)"
  let ?rs = "target_results reg digest calls ?t"
  have cand: "is_loop_progress_candidate reg (call_tool_name call)" and ro: "read_only_target reg ?t calls"
    using assms by (auto simp: read_only_target_def)
  have res: "lg_results ?g ?t = (if ?rs = [] then None else Some (last ?rs))"
    by (rule guard_results) (simp add: new_loop_guard_def)
  have cnt: "ud_counts (lg_unchanged ?g) ?t = (if ?rs = [] then None else Some (int (trailing_repeats ?rs)))"
    by (rule guard_unchanged_counts [OF refl ro])
  have th: "ud_threshold (lg_unchanged ?g) = max 2 unchanged"
    by (simp add: guard_thresholds new_loop_guard_def new_unchanged_detector_def)
  show ?thesis
    unfolding guard_trigger_iff unchanged_signal_iff th
    using cand res cnt by (auto simp: target_results_snoc trailing_repeats_snoc)
qed

primrec observed ::
  "tool_registry \<Rightarrow> (string \<Rightarrow> string) \<Rightarrow> loop_guard \<Rightarrow> resolved_call list \<Rightarrow> observation list" where
  "observed reg digest g [] = []"
| "observed reg digest g (c # cs) =
     observe_call reg digest g c # observed reg digest (snd (guard_observe reg digest g c)) cs"

lemma observed_snoc:
  "observed reg digest g (calls @ [c]) =
     observed reg digest g calls @ [observe_call reg digest (guard_after reg digest g calls) c]"
  by (induction calls arbitrary: g) (simp_all add: guard_after_def)

text \<open>How many calls at the end repeat the last call without having changed anything.\<close>

definition exact_run :: "observation list \<Rightarrow> nat" where
  "exact_run obs = length (takeWhile
     (\<lambda>x. exact_key (ob_identity x) = exact_key (ob_identity (last obs)) \<and> ob_progress x \<noteq> CHANGED) (rev obs))"

lemma exact_run_snoc:
  "exact_run (obs @ [x]) = (if ob_progress x = CHANGED then 0
     else if obs \<noteq> [] \<and> ob_progress (last obs) \<noteq> CHANGED
             \<and> exact_key (ob_identity (last obs)) = exact_key (ob_identity x)
          then exact_run obs + 1 else 1)"
  by (cases obs rule: rev_cases) (auto simp: exact_run_def)

lemma guard_exact_state:
  assumes "g = new_loop_guard semantic unchanged exact"
  shows "ed_count (lg_exact (guard_after reg digest g calls)) = int (exact_run (observed reg digest g calls))
    \<and> ed_last (lg_exact (guard_after reg digest g calls)) =
       (let obs = observed reg digest g calls in
        if obs = [] \<or> ob_progress (last obs) = CHANGED then None else Some (exact_key (ob_identity (last obs))))"
proof (induction calls rule: rev_induct)
  case Nil
  show ?case by (simp add: assms new_loop_guard_def new_exact_detector_def exact_run_def)
next
  case (snoc c calls)
  then show ?case
    by (simp add: observed_snoc exact_run_snoc guard_observe_fields exact_observe_def Let_def
        del: observe_call_simps split: if_splits)
qed

lemma exact_signal_iff:
  "0 < ed_break d \<Longrightarrow> fst (exact_observe d ob) \<noteq> None \<longleftrightarrow> ed_break d \<le> ed_count (snd (exact_observe d ob))"
  by (simp add: exact_observe_def Let_def not_less)

text \<open>
  The exact-repeat detector is exact: after any history, a call raises the \<open>exact_repeat\<close>
  signal if and only if it ends a row of at least \<open>max(1, threshold)\<close> identical calls in which no
  call changed the result known for its target; a repeated call that makes progress is never taken
  for a loop.
\<close>

theorem exact_repeat_exact:
  "(EXACT_REPEAT \<in> set (triggers_of (fst (guard_observe reg digest
        (guard_after reg digest (new_loop_guard semantic unchanged exact) calls) call))))
    = (max 1 exact \<le> int (exact_run
        (observed reg digest (new_loop_guard semantic unchanged exact) (calls @ [call]))))"
proof -
  let ?start = "new_loop_guard semantic unchanged exact"
  let ?g = "guard_after reg digest ?start calls"
  have brk: "ed_break (lg_exact ?g) = max 1 exact"
    by (simp add: guard_thresholds new_loop_guard_def new_exact_detector_def)
  have "ed_count (snd (exact_observe (lg_exact ?g) (observe_call reg digest ?g call)))
      = int (exact_run (observed reg digest ?start (calls @ [call])))"
    using guard_exact_state [OF refl, of reg digest semantic unchanged exact "calls @ [call]"]
    by (simp add: guard_observe_fields)
  then show ?thesis
    unfolding guard_trigger_iff using exact_signal_iff [of "lg_exact ?g" "observe_call reg digest ?g call"] brk
    by simp
qed

section \<open>Decisions\<close>

lemma control_run_append:
  "control_run reg digest c (xs @ ys) =
     (let (ds, c') = control_run reg digest c xs; (es, c'') = control_run reg digest c' ys in (ds @ es, c''))"
  by (induction xs arbitrary: c) (simp_all add: Let_def split: prod.split)

lemma control_run_Cons [simp]:
  "fst (control_run reg digest c (x # xs)) = fst (control_observe reg digest c x)
     # fst (control_run reg digest (snd (control_observe reg digest c x)) xs)"
  by (simp add: Let_def split: prod.split)

lemma control_observe_latched:
  "ctl_termination c = Some t \<Longrightarrow>
    fst (control_observe reg digest c call) = \<lparr>cd_termination = Some t, cd_disablement = None\<rparr>
    \<and> ctl_termination (snd (control_observe reg digest c call)) = Some t"
  by (simp add: control_observe_def evaluate_control_def Let_def split: prod.split)

lemma control_run_latched:
  "ctl_termination c = Some t \<Longrightarrow>
    fst (control_run reg digest c xs) = replicate (length xs) \<lparr>cd_termination = Some t, cd_disablement = None\<rparr>"
proof (induction xs arbitrary: c)
  case (Cons x xs)
  then show ?case using control_observe_latched [OF Cons.prems, of reg digest x]
    by (simp del: control_run.simps(2))
qed simp

lemma control_observe_termination:
  "cd_termination (fst (control_observe reg digest c call)) = ctl_termination (snd (control_observe reg digest c call))"
  by (auto simp: control_observe_def evaluate_control_def Let_def split: prod.split option.split list.split)

text \<open>
  C15: termination latches: once a decision of a run terminates the loop, every later decision gives
  that same termination and reports no tool disablement, whatever calls follow.
\<close>

theorem termination_latches:
  assumes "cd_termination (fst (control_observe reg digest c call)) = Some t"
  shows "fst (control_run reg digest c (call # later))
    = fst (control_observe reg digest c call)
      # replicate (length later) \<lparr>cd_termination = Some t, cd_disablement = None\<rparr>"
  using assms control_run_latched [of "snd (control_observe reg digest c call)" t reg digest later]
  by (simp add: control_observe_termination del: control_run.simps(2))

lemma policy_observe_disabled:
  "fst (policy_observe p call) = Some td \<Longrightarrow> td_tool_name td = call_tool_name call \<and> fp_disabled p (call_tool_name call) = None
     \<and> fp_disabled (snd (policy_observe p call)) = (fp_disabled p)(call_tool_name call \<mapsto> td)"
  "fst (policy_observe p call) = None \<Longrightarrow> fp_disabled (snd (policy_observe p call)) = fp_disabled p"
  by (auto simp: policy_observe_def Let_def split: option.splits if_splits)

definition reported_disablements :: "control_decision list \<Rightarrow> tool_disablement list" where
  "reported_disablements ds = List.map_filter cd_disablement ds"

lemma reported_simps [simp]:
  "reported_disablements [] = []"
  "reported_disablements (d # ds) = (case cd_disablement d of None \<Rightarrow> [] | Some td \<Rightarrow> [td]) @ reported_disablements ds"
  by (simp_all add: reported_disablements_def List.map_filter_simps split: option.split)

lemma control_observe_disablement:
  assumes "control_observe reg digest c call = (d, c')"
  shows "ctl_failures c' = snd (policy_observe (ctl_failures c) call)"
    and "cd_disablement d \<noteq> None \<Longrightarrow> cd_disablement d = fst (policy_observe (ctl_failures c) call)"
  using assms
  by (auto simp: control_observe_def evaluate_control_def Let_def split: prod.splits option.splits list.splits)

text \<open>
  Disabling a tool is a one-shot edge: over a whole run no tool is reported disabled twice, and
  a tool that was already disabled is not reported at all.
\<close>

theorem disablement_once:
  "distinct (map td_tool_name (reported_disablements (fst (control_run reg digest c calls))))
   \<and> set (map td_tool_name (reported_disablements (fst (control_run reg digest c calls))))
       \<inter> dom (fp_disabled (ctl_failures c)) = {}"
proof (induction calls arbitrary: c)
  case (Cons call calls)
  obtain d c' where o: "control_observe reg digest c call = (d, c')" by (cases "control_observe reg digest c call")
  obtain ds c'' where r: "control_run reg digest c' calls = (ds, c'')" by (cases "control_run reg digest c' calls")
  note f = control_observe_disablement [OF o]
  note IH = Cons.IH [of c', unfolded r fst_conv]
  show ?case
  proof (cases "cd_disablement d")
    case None
    have "dom (fp_disabled (ctl_failures c)) \<subseteq> dom (fp_disabled (ctl_failures c'))"
      using policy_observe_disabled [of "ctl_failures c" call] f(1)
      by (cases "fst (policy_observe (ctl_failures c) call)") auto
    with IH None o r show ?thesis by auto
  next
    case (Some td)
    with f(2) have "fst (policy_observe (ctl_failures c) call) = Some td" by simp
    from policy_observe_disabled(1) [OF this] f(1) IH Some o r show ?thesis by auto
  qed
qed simp

section \<open>Parallel duplicates of one tool\<close>

primrec policy_results :: "failure_policy \<Rightarrow> resolved_call list \<Rightarrow> tool_disablement option list" where
  "policy_results p [] = []"
| "policy_results p (c # cs) = fst (policy_observe p c) # policy_results (snd (policy_observe p c)) cs"

definition tool_window :: "failure_policy \<Rightarrow> string \<Rightarrow> failure_window" where
  "tool_window p tool = (case fp_windows p tool of None \<Rightarrow> empty_window | Some fw \<Rightarrow> fw)"

lemma count_list_drop: "count_list (drop n xs) x \<le> count_list xs x"
proof -
  have "count_list xs x = count_list (take n xs) x + count_list (drop n xs) x"
    by (metis append_take_drop_id count_list_append)
  then show ?thesis by simp
qed

lemma window_observe_bounds:
  "rolling_failures (window_observe e w fw) x \<le> rolling_failures fw x + 1"
  "fw_failures (window_observe e w fw) \<le> fw_failures fw + 1"
  "fw_successes fw \<le> fw_successes (window_observe e w fw)"
  using count_list_drop [of "length (fw_recent fw @ [e]) - nat w" "fw_recent fw @ [e]" "Some x"]
  by (auto simp: rolling_failures_def window_observe_def Let_def)

lemma rolling_le_largest: "rolling_failures fw x \<le> largest_rolling_failure_count fw"
proof -
  have le: "y \<in> set ys \<Longrightarrow> y \<le> foldr max ys (0::int)" and pos: "0 \<le> foldr max ys (0::int)" for y ys
    by (induction ys) auto
  show ?thesis
  proof (cases "Some x \<in> set (fw_recent fw)")
    case True
    then have "x \<in> set (failure_classes fw)"
      by (auto simp: failure_classes_def map_filter_def image_iff)
    then show ?thesis by (auto simp: largest_rolling_failure_count_def intro!: le)
  next
    case False
    then have "rolling_failures fw x = 0" by (simp add: rolling_failures_def count_list_0_iff)
    then show ?thesis using pos by (simp add: largest_rolling_failure_count_def)
  qed
qed

lemma policy_observe_window:
  "fp_threshold (snd (policy_observe p c)) = fp_threshold p"
  "fp_zero_success (snd (policy_observe p c)) = fp_zero_success p"
  "tool_window (snd (policy_observe p c)) (call_tool_name c)
    = window_observe (call_error_class c) (fp_window p) (tool_window p (call_tool_name c))"
  by (auto simp: policy_observe_def Let_def tool_window_def split: option.split)

text \<open>The distance to the nearest failure edge: no class and no unproven tool is within \<open>k\<close> failures of it.\<close>

definition clear_of_edge :: "failure_policy \<Rightarrow> string \<Rightarrow> int \<Rightarrow> bool" where
  "clear_of_edge p tool k =
     ((\<forall>x. rolling_failures (tool_window p tool) x + k < fp_threshold p)
      \<and> (0 < fw_successes (tool_window p tool)
         \<or> (fw_successes (tool_window p tool) = 0 \<and> fw_failures (tool_window p tool) + k < fp_zero_success p)))"

lemma clear_step:
  assumes "clear_of_edge p (call_tool_name c) (k + 1)" and "0 \<le> k"
  shows "fst (policy_observe p c) = None" and "clear_of_edge (snd (policy_observe p c)) (call_tool_name c) k"
proof -
  let ?fw = "tool_window p (call_tool_name c)"
  let ?fw' = "window_observe (call_error_class c) (fp_window p) ?fw"
  have roll: "rolling_failures ?fw' x + k < fp_threshold p" for x
  proof -
    have "rolling_failures ?fw x + (k + 1) < fp_threshold p"
      using assms(1) by (simp add: clear_of_edge_def)
    moreover have "rolling_failures ?fw' x \<le> rolling_failures ?fw x + 1" by (rule window_observe_bounds(1))
    ultimately show ?thesis by linarith
  qed
  have zero: "0 < fw_successes ?fw' \<or> (fw_successes ?fw' = 0 \<and> fw_failures ?fw' + k < fp_zero_success p)"
  proof -
    have "0 < fw_successes ?fw \<or> (fw_successes ?fw = 0 \<and> fw_failures ?fw + (k + 1) < fp_zero_success p)"
      using assms(1) by (simp add: clear_of_edge_def)
    moreover have "fw_failures ?fw' \<le> fw_failures ?fw + 1" and "fw_successes ?fw \<le> fw_successes ?fw'"
      by (rule window_observe_bounds(2), rule window_observe_bounds(3))
    ultimately show ?thesis by linarith
  qed
  show "clear_of_edge (snd (policy_observe p c)) (call_tool_name c) k"
    using roll zero by (simp add: clear_of_edge_def policy_observe_window)
  have "evaluate_triggers q ?fw' cls = []" if "fp_threshold q = fp_threshold p" "fp_zero_success q = fp_zero_success p" for q cls
    using roll [of cls] zero assms(2) that by (auto simp: evaluate_triggers_def)
  then show "fst (policy_observe p c) = None"
    by (auto simp: policy_observe_def Let_def tool_window_def [symmetric] split: option.split)
qed

text \<open>
  The bound on speculative duplicates is safe: if fewer calls to one tool than
  \<open>parallel_same_tool_limit\<close> are resolved, in any order and with any outcomes, the failure policy
  cannot disable the tool among them.
\<close>

theorem parallel_limit_safe:
  assumes "list_all (\<lambda>c. call_tool_name c = tool) calls"
    and "int (length calls) < parallel_same_tool_limit p tool"
    and "0 \<le> fw_successes (tool_window p tool)"
  shows "policy_results p calls = replicate (length calls) None"
proof (cases "calls = []")
  case False
  let ?fw = "tool_window p tool"
  have "1 \<le> int (length calls)" using False by (cases calls) simp_all
  then have lim: "int (length calls) < fp_threshold p - largest_rolling_failure_count ?fw"
    "fw_successes ?fw = 0 \<Longrightarrow> int (length calls) < fp_zero_success p - fw_failures ?fw"
    using assms(2) by (auto simp: parallel_same_tool_limit_def Let_def tool_window_def empty_window_def
        largest_rolling_failure_count_def failure_classes_def List.map_filter_simps split: option.splits if_splits)
  have "clear_of_edge p tool (int (length calls))"
    unfolding clear_of_edge_def
  proof (intro conjI allI)
    fix x show "rolling_failures ?fw x + int (length calls) < fp_threshold p"
      using rolling_le_largest [of ?fw x] lim(1) by linarith
  next
    show "0 < fw_successes ?fw \<or> fw_successes ?fw = 0 \<and> fw_failures ?fw + int (length calls) < fp_zero_success p"
      using lim(2) assms(3) by fastforce
  qed
  with assms(1) show ?thesis
  proof (induction calls arbitrary: p)
    case (Cons c cs)
    then have t: "call_tool_name c = tool" and edge: "clear_of_edge p (call_tool_name c) (int (length cs) + 1)"
      by (simp_all add: add.commute)
    from clear_step [OF edge] Cons.IH [of "snd (policy_observe p c)"] Cons.prems(1) t show ?case by simp
  qed simp
qed simp

section \<open>Concrete runs\<close>

definition ex_registry :: tool_registry where
  "ex_registry t = (if t = ''grep'' then Some \<lparr>tr_side_effect = READ_ONLY, tr_volatile_fields = Some [''cursor'']\<rparr> else None)"

definition ex_call :: "string \<Rightarrow> string \<Rightarrow> string \<Rightarrow> resolved_call" where
  "ex_call tool arg res = \<lparr>rc_tool_name = tool, rc_tool_input = [(''q'', PyStr arg), (''cursor'', PyStr arg)],
     rc_result_text = res, rc_result_value = PyNone, rc_failure = None\<rparr>"

definition ex_failing :: resolved_call where
  "ex_failing = (ex_call ''fetch'' ''u'' ''boom'')\<lparr>rc_failure := Some \<lparr>tf_message = ''boom'', tf_category = ''Timeout''\<rparr>\<rparr>"

lemma unchanged_result_exact_witness:
  "UNCHANGED_RESULT \<in> set (triggers_of (fst (guard_observe ex_registry id
      (guard_after ex_registry id (new_loop_guard 10 2 5) [ex_call ''grep'' ''a'' ''x'', ex_call ''ls'' ''b'' ''y''])
      (ex_call ''grep'' ''a'' ''x''))))"
proof -
  let ?c = "ex_call ''grep'' ''a'' ''x''"
  let ?calls = "[?c, ex_call ''ls'' ''b'' ''y'']"
  have "read_only_target ex_registry (target_key (call_identity_of ex_registry ?c)) (?calls @ [?c])"
    by code_simp
  moreover have "max 2 2 \<le> int (trailing_repeats
      (target_results ex_registry id (?calls @ [?c]) (target_key (call_identity_of ex_registry ?c))))"
    by code_simp
  ultimately show ?thesis using unchanged_result_exact [of ex_registry ?c ?calls id 10 2 5] by simp
qed

definition ex_control :: run_control where
  "ex_control = new_run_control (\<lambda>_. None) None None None 10 4 1"

lemma termination_latches_witness:
  "\<exists>t. fst (control_run ex_registry id ex_control [ex_call ''grep'' ''a'' ''x'', ex_failing, ex_failing])
    = replicate 3 \<lparr>cd_termination = Some t, cd_disablement = None\<rparr>"
proof -
  let ?c = "ex_call ''grep'' ''a'' ''x''"
  have "map_option lt_trigger (cd_termination (fst (control_observe ex_registry id ex_control ?c))) = Some EXACT_REPEAT"
    by code_simp
  then obtain t where t: "cd_termination (fst (control_observe ex_registry id ex_control ?c)) = Some t" by auto
  have "cd_disablement (fst (control_observe ex_registry id ex_control ?c)) = None"
  proof -
    have "map_option td_tool_name (cd_disablement (fst (control_observe ex_registry id ex_control ?c))) = None"
      by code_simp
    then show ?thesis by simp
  qed
  with termination_latches [OF t, of "[ex_failing, ex_failing]"] t show ?thesis
    by (auto simp: numeral_3_eq_3 intro!: exI [of _ t])
qed

lemma parallel_limit_safe_witness:
  "policy_results (new_failure_policy 3 10 2) [ex_failing] = [None]"
proof -
  have "int (length [ex_failing]) < parallel_same_tool_limit (new_failure_policy 3 10 2) ''fetch''" by code_simp
  moreover have "0 \<le> fw_successes (tool_window (new_failure_policy 3 10 2) ''fetch'')" by code_simp
  moreover have "list_all (\<lambda>c. call_tool_name c = ''fetch'') [ex_failing]" by code_simp
  ultimately show ?thesis using parallel_limit_safe [of "''fetch''" "[ex_failing]" "new_failure_policy 3 10 2"] by simp
qed

end
