(* ===== verification/Transcripts.thy ===== *)
theory Transcripts
  imports Py_Prelude
begin

text \<open>
  Session transcripts (\<open>systems/sessions/__init__.py\<close>): the sanitizer that restores the pairing of
  \<open>tool_use\<close> and \<open>tool_result\<close> blocks, the digest of trimmed messages, the removal of thinking and of
  fields the provider does not accept, and the single cache breakpoint. A message is a dictionary
  with \<open>role\<close> and \<open>content\<close>; its content is text or a list of blocks, each a dictionary with a
  \<open>type\<close>. Tool ids are strings, as the providers and the store give them; log lines are left out.
\<close>

section \<open>Messages and blocks\<close>

type_synonym message = pydict

definition msg_role :: "message \<Rightarrow> pyval" where
  "msg_role m = dget m ''role''"

text \<open>\<open>msg.get("content", "")\<close>\<close>

definition msg_content :: "message \<Rightarrow> pyval" where
  "msg_content m = (case map_of m ''content'' of None \<Rightarrow> PyStr [] | Some v \<Rightarrow> v)"

abbreviation USER :: pyval where "USER \<equiv> PyStr ''user''"
abbreviation ASSISTANT :: pyval where "ASSISTANT \<equiv> PyStr ''assistant''"

fun block_field :: "string \<Rightarrow> pyval \<Rightarrow> pyval" where
  "block_field k (PyDict d) = dget d k"
| "block_field k _ = PyNone"

definition block_type :: "pyval \<Rightarrow> pyval" where
  "block_type b = block_field ''type'' b"

definition is_tool_use :: "pyval \<Rightarrow> bool" where
  "is_tool_use b = (block_type b = PyStr ''tool_use'')"

definition is_tool_result :: "pyval \<Rightarrow> bool" where
  "is_tool_result b = (block_type b = PyStr ''tool_result'')"

definition tool_use_id :: "pyval \<Rightarrow> pyval" where
  "tool_use_id b = block_field ''id'' b"

definition tool_result_id :: "pyval \<Rightarrow> pyval" where
  "tool_result_id b = block_field ''tool_use_id'' b"

abbreviation with_content :: "message \<Rightarrow> pyval list \<Rightarrow> message" where
  "with_content m bs \<equiv> dset m ''content'' (PyList bs)"

section \<open>Tool pairs\<close>

text \<open>
  The loop of \<open>_sanitize_tool_pairs\<close>: the messages kept so far, the ids of the \<open>tool_use\<close> blocks
  still waiting for their results and the position of the assistant message that holds them.
\<close>

record sanitizer =
  cleaned :: "message list"
  pending :: "pyval set"
  pending_idx :: "nat option"

definition drop_blocks :: "(pyval \<Rightarrow> bool) \<Rightarrow> pyval \<Rightarrow> pyval" where
  "drop_blocks P c = (case c of PyList bs \<Rightarrow> PyList (filter (\<lambda>b. \<not> P b) bs) | _ \<Rightarrow> c)"

definition tool_use_ids :: "pyval list \<Rightarrow> pyval set" where
  "tool_use_ids bs = set (map tool_use_id (filter (\<lambda>b. is_tool_use b \<and> py_truthy (tool_use_id b)) bs))"

definition matching_result_ids :: "pyval set \<Rightarrow> pyval \<Rightarrow> pyval \<Rightarrow> pyval set" where
  "matching_result_ids ids role c =
     (if role = USER
      then (case c of
              PyList bs \<Rightarrow> set (map tool_result_id (filter (\<lambda>b. is_tool_result b \<and> tool_result_id b \<in> ids) bs))
            | _ \<Rightarrow> {})
      else {})"

text \<open>Take the unanswered \<open>tool_use\<close> blocks out of the assistant message that waits; drop it when nothing is left.\<close>

definition strip_pending :: "sanitizer \<Rightarrow> sanitizer" where
  "strip_pending st =
     (case pending_idx st of
        None \<Rightarrow> st
      | Some i \<Rightarrow>
          (let a = cleaned st ! i;
               c = drop_blocks (\<lambda>b. is_tool_use b \<and> tool_use_id b \<in> pending st)
                     (case map_of a ''content'' of None \<Rightarrow> PyList [] | Some v \<Rightarrow> v)
           in if py_truthy c then st\<lparr>cleaned := (cleaned st)[i := dset a ''content'' c]\<rparr>
              else st\<lparr>cleaned := take i (cleaned st) @ drop (Suc i) (cleaned st), pending_idx := None\<rparr>))"

definition add_message :: "sanitizer \<Rightarrow> pyval \<Rightarrow> pyval \<Rightarrow> message \<Rightarrow> sanitizer" where
  "add_message st role c msg =
     (case c of
        PyList bs \<Rightarrow>
          (if role = USER then
             (let kept = filter (\<lambda>b. \<not> is_tool_result b) bs in
              if kept = [] then st else st\<lparr>cleaned := cleaned st @ [with_content msg kept]\<rparr>)
           else
             (let st' = st\<lparr>cleaned := cleaned st @ [msg]\<rparr> in
              if role = ASSISTANT \<and> tool_use_ids bs \<noteq> {}
              then st'\<lparr>pending := tool_use_ids bs, pending_idx := Some (length (cleaned st))\<rparr> else st'))
      | _ \<Rightarrow> st\<lparr>cleaned := cleaned st @ [msg]\<rparr>)"

definition sanitize_step :: "sanitizer \<Rightarrow> message \<Rightarrow> sanitizer" where
  "sanitize_step st msg =
     (let role = msg_role msg; c = msg_content msg in
      if pending st \<noteq> {} then
        (if role = USER \<and> matching_result_ids (pending st) role c = pending st then
           st\<lparr>cleaned := cleaned st
                @ [dset msg ''content'' (drop_blocks (\<lambda>b. is_tool_result b \<and> tool_result_id b \<notin> pending st) c)],
              pending := {}, pending_idx := None\<rparr>
         else
           (let st' = (strip_pending st)\<lparr>pending := {}\<rparr> in
            case c of
              PyList bs \<Rightarrow>
                (if role = USER then
                   (let kept = filter (\<lambda>b. \<not> is_tool_result b) bs in
                    if kept = [] then st' else add_message st' role (PyList kept) (with_content msg kept))
                 else add_message st' role c msg)
            | _ \<Rightarrow> add_message st' role c msg))
      else add_message st role c msg)"

definition finish_sanitizer :: "sanitizer \<Rightarrow> message list" where
  "finish_sanitizer st = cleaned (if pending st \<noteq> {} then strip_pending st else st)"

definition new_sanitizer :: sanitizer where
  "new_sanitizer = \<lparr>cleaned = [], pending = {}, pending_idx = None\<rparr>"

definition sanitize_tool_pairs :: "message list \<Rightarrow> message list" where
  "sanitize_tool_pairs ms = finish_sanitizer (foldl sanitize_step new_sanitizer ms)"

section \<open>Digest, thinking, fields and cache marks\<close>

text \<open>
  \<open>block.get("text", "").strip()\<close> raises an \<open>AttributeError\<close> when the value is no string; the loop over
  a message's blocks stops at the first text that is not blank.
\<close>

fun first_text :: "pyval list \<Rightarrow> string option result" where
  "first_text [] = Inr None"
| "first_text (b # bs) =
     (if (case b of PyDict d \<Rightarrow> dget d ''type'' = PyStr ''text'' | _ \<Rightarrow> False)
      then (case b of
              PyDict d \<Rightarrow>
                (case (case map_of d ''text'' of None \<Rightarrow> PyStr [] | Some v \<Rightarrow> v) of
                   PyStr t \<Rightarrow> (let text = take 150 (py_strip t) in
                      if text \<noteq> [] then Inr (Some text) else first_text bs)
                 | _ \<Rightarrow> Inl AttributeError)
            | _ \<Rightarrow> first_text bs)
      else first_text bs)"

definition summary_part :: "message \<Rightarrow> string list result" where
  "summary_part m =
     (let role = py_str (case map_of m ''role'' of None \<Rightarrow> PyStr [] | Some v \<Rightarrow> v) in
      case msg_content m of
        PyStr t \<Rightarrow> Inr (if py_strip t \<noteq> [] then [role @ '': '' @ take 150 (py_strip t)] else [])
      | PyList bs \<Rightarrow> rbind (first_text bs) (\<lambda>r. Inr (case r of None \<Rightarrow> [] | Some t \<Rightarrow> [role @ '': '' @ t]))
      | _ \<Rightarrow> Inr [])"

definition newline :: string where
  "newline = [char_of (10 :: nat)]"

definition summarize_trimmed_messages :: "message list \<Rightarrow> string result" where
  "summarize_trimmed_messages ms =
     rbind (rmap summary_part ms) (\<lambda>parts.
       (let r = py_join newline (concat parts);
            r' = (if 2000 < length r then take 2000 r @ newline @ ''... (further content omitted)'' else r)
        in Inr (if r' = [] then ''No significant content in trimmed messages.'' else r')))"

definition is_thinking :: "pyval \<Rightarrow> bool" where
  "is_thinking b = (block_type b \<in> {PyStr ''thinking'', PyStr ''redacted_thinking''})"

definition strip_thinking_from_messages :: "message list \<Rightarrow> message list" where
  "strip_thinking_from_messages ms = concat (map (\<lambda>m.
     case map_of m ''content'' of
       Some (PyList bs) \<Rightarrow>
         (if msg_role m = ASSISTANT
          then (let kept = filter (\<lambda>b. \<not> is_thinking b) bs in if kept = [] then [] else [with_content m kept])
          else [m])
     | _ \<Rightarrow> [m]) ms)"

text \<open>The in-place updates of a message's blocks, as functions of the message.\<close>

definition map_dict_blocks :: "(pydict \<Rightarrow> pydict) \<Rightarrow> message \<Rightarrow> message" where
  "map_dict_blocks f m = (case map_of m ''content'' of
       Some (PyList bs) \<Rightarrow> with_content m (map (\<lambda>b. case b of PyDict d \<Rightarrow> PyDict (f d) | _ \<Rightarrow> b) bs)
     | _ \<Rightarrow> m)"

definition clear_message_cache_breakpoints :: "message list \<Rightarrow> message list" where
  "clear_message_cache_breakpoints ms = map (map_dict_blocks (AList.delete ''cache_control'')) ms"

definition EPHEMERAL :: pyval where
  "EPHEMERAL = PyDict [(''type'', PyStr ''ephemeral'')]"

definition set_cache_breakpoint :: "message \<Rightarrow> message" where
  "set_cache_breakpoint m = (case map_of m ''content'' of
       Some (PyStr t) \<Rightarrow> with_content m
         [PyDict [(''type'', PyStr ''text''), (''text'', PyStr t), (''cache_control'', EPHEMERAL)]]
     | Some (PyList bs) \<Rightarrow>
         (if bs = [] then m
          else (case last bs of
                  PyDict d \<Rightarrow> with_content m (butlast bs @ [PyDict (dset d ''cache_control'' EPHEMERAL)])
                | _ \<Rightarrow> m))
     | _ \<Rightarrow> m)"

text \<open>
  Before a call to a caching provider the agent clears all marks and sets one on the latest message
  of a transcript of two messages or more.
\<close>

definition refresh_cache_breakpoint :: "string \<Rightarrow> bool \<Rightarrow> message list \<Rightarrow> message list" where
  "refresh_cache_breakpoint provider cache ms =
     (if provider = ''anthropic'' \<and> cache \<and> 2 \<le> length ms
      then (let c = clear_message_cache_breakpoints ms in butlast c @ [set_cache_breakpoint (last c)])
      else ms)"

definition ALLOWED_BLOCK_FIELDS :: "(string \<times> string list) list" where
  "ALLOWED_BLOCK_FIELDS =
     [(''text'', [''type'', ''text'', ''citations'', ''cache_control'']),
      (''tool_use'', [''type'', ''id'', ''name'', ''input'', ''cache_control'']),
      (''tool_result'', [''type'', ''tool_use_id'', ''content'', ''is_error'', ''cache_control'']),
      (''thinking'', [''type'', ''thinking'', ''signature'']),
      (''redacted_thinking'', [''type'', ''data'']),
      (''image'', [''type'', ''source'', ''cache_control'']),
      (''document'', [''type'', ''source'', ''cache_control''])]"

definition allowed_fields :: "pydict \<Rightarrow> string list option" where
  "allowed_fields d =
     (case (case map_of d ''type'' of None \<Rightarrow> PyStr ''text'' | Some v \<Rightarrow> v) of
        PyStr t \<Rightarrow> map_of ALLOWED_BLOCK_FIELDS t | _ \<Rightarrow> None)"

definition keep_fields :: "pydict \<Rightarrow> pydict" where
  "keep_fields d = (case allowed_fields d of None \<Rightarrow> d | Some ks \<Rightarrow> filter (\<lambda>(k, v). k \<in> set ks) d)"

text \<open>\<open>obj.get(k, str(obj))\<close> for a field that holds an object where text is expected.\<close>

definition unwrap_field :: "string \<Rightarrow> pydict \<Rightarrow> pydict" where
  "unwrap_field k d = (case dget d k of
       PyDict obj \<Rightarrow> dset d k (case map_of obj k of None \<Rightarrow> PyStr (py_repr (PyDict obj)) | Some v \<Rightarrow> v)
     | _ \<Rightarrow> d)"

text \<open>A block of a provider answer: an SDK object, as its \<open>model_dump(exclude_none=True)\<close>, or a plain value.\<close>

datatype sdk_block = Dumped pydict | Plain pyval

definition block_dict :: "sdk_block \<Rightarrow> pydict" where
  "block_dict b = (case b of
       Dumped d \<Rightarrow> d
     | Plain (PyDict d) \<Rightarrow> filter (\<lambda>(k, v). v \<noteq> PyNone) d
     | Plain v \<Rightarrow> [(''type'', PyStr ''text''), (''text'', PyStr (py_str v))])"

definition content_to_dicts :: "sdk_block list \<Rightarrow> pydict list" where
  "content_to_dicts bs = map (\<lambda>b.
     (let d = block_dict b;
          t = (case map_of d ''type'' of None \<Rightarrow> PyStr ''text'' | Some v \<Rightarrow> v);
          d1 = (if t = PyStr ''text'' then unwrap_field ''text'' d else d);
          d2 = (if t = PyStr ''thinking'' then unwrap_field ''thinking'' d1 else d1)
      in keep_fields d2)) bs"

definition sanitize_block :: "pydict \<Rightarrow> pydict" where
  "sanitize_block d =
     (let d1 = AList.delete ''parsed_output'' d;
          d2 = (if dget d1 ''type'' = PyStr ''text'' then unwrap_field ''text'' d1 else d1)
      in keep_fields d2)"

definition sanitize_content_blocks :: "message list \<Rightarrow> message list" where
  "sanitize_content_blocks ms = map (map_dict_blocks sanitize_block) ms"

section \<open>The provider's pairing rule\<close>

text \<open>
  What the provider asks for, as an automaton: a message must bring exactly the results its
  predecessor waits for, and leaves its own \<open>tool_use\<close> ids waiting. A transcript is paired when no
  id is left waiting.
\<close>

definition msg_uses :: "message \<Rightarrow> pyval set" where
  "msg_uses m = (if msg_role m = ASSISTANT
     then (case msg_content m of PyList bs \<Rightarrow> tool_use_ids bs | _ \<Rightarrow> {}) else {})"

definition msg_results :: "message \<Rightarrow> pyval set" where
  "msg_results m = (if msg_role m = USER
     then (case msg_content m of PyList bs \<Rightarrow> set (map tool_result_id (filter is_tool_result bs)) | _ \<Rightarrow> {}) else {})"

definition empty_user_list :: "message \<Rightarrow> bool" where
  "empty_user_list m = (msg_role m = USER \<and> msg_content m = PyList [])"

fun pair_state :: "pyval set \<Rightarrow> message list \<Rightarrow> pyval set option" where
  "pair_state P [] = Some P"
| "pair_state P (m # ms) = (if msg_results m = P \<and> \<not> empty_user_list m then pair_state (msg_uses m) ms else None)"

definition tool_paired :: "message list \<Rightarrow> bool" where
  "tool_paired ms = (pair_state {} ms = Some {})"

lemma pair_state_append:
  "pair_state P (xs @ ys) = (case pair_state P xs of None \<Rightarrow> None | Some Q \<Rightarrow> pair_state Q ys)"
  by (induction xs arbitrary: P) auto

lemma pair_state_snoc:
  "pair_state P (xs @ [m]) = Some Q \<longleftrightarrow>
     (pair_state P xs = Some (msg_results m) \<and> \<not> empty_user_list m \<and> Q = msg_uses m)"
  by (auto simp: pair_state_append split: option.splits)

lemma role_dset [simp]: "msg_role (dset m ''content'' c) = msg_role m"
  by (simp add: msg_role_def)

lemma content_dset [simp]: "msg_content (dset m ''content'' c) = c"
  by (simp add: msg_content_def)

lemma dset_same: "map_of d k = Some v \<Longrightarrow> dset d k v = d"
  by (induction d) (auto split: if_splits)

lemma content_list_dset: "msg_content m = PyList bs \<Longrightarrow> with_content m bs = m"
  by (auto simp: msg_content_def split: option.splits intro: dset_same)

lemma msg_uses_user [simp]: "msg_role m \<noteq> ASSISTANT \<Longrightarrow> msg_uses m = {}"
  by (simp add: msg_uses_def)

lemma msg_results_other [simp]: "msg_role m \<noteq> USER \<Longrightarrow> msg_results m = {}"
  by (simp add: msg_results_def)

section \<open>The sanitizer implements the rule\<close>

definition san_ok :: "sanitizer \<Rightarrow> bool" where
  "san_ok st =
     (pair_state {} (cleaned st) = Some (pending st)
      \<and> (pending st \<noteq> {} \<longrightarrow> cleaned st \<noteq> [] \<and> pending_idx st = Some (length (cleaned st) - 1)))"

text \<open>The blocks that are no part of a tool pair, with the role that said them.\<close>

definition plain_of :: "pyval list \<Rightarrow> pyval list" where
  "plain_of bs = filter (\<lambda>b. \<not> is_tool_use b \<and> \<not> is_tool_result b) bs"

definition plain_blocks :: "message \<Rightarrow> (pyval \<times> pyval) list" where
  "plain_blocks m = map (Pair (msg_role m))
     (case msg_content m of PyList bs \<Rightarrow> plain_of bs | c \<Rightarrow> [c])"

abbreviation plain_text :: "message list \<Rightarrow> (pyval \<times> pyval) list" where
  "plain_text ms \<equiv> concat (map plain_blocks ms)"

text \<open>Every \<open>tool_use\<close> block carries an id.\<close>

definition uses_identified :: "message list \<Rightarrow> bool" where
  "uses_identified ms = list_all (\<lambda>m. case msg_content m of
      PyList bs \<Rightarrow> list_all (\<lambda>b. is_tool_use b \<longrightarrow> py_truthy (tool_use_id b)) bs | _ \<Rightarrow> True) ms"

lemma plain_of_drop:
  "(\<And>b. P b \<Longrightarrow> is_tool_use b \<or> is_tool_result b) \<Longrightarrow> plain_of (filter (\<lambda>b. \<not> P b) bs) = plain_of bs"
  by (induction bs) (auto simp: plain_of_def)

lemma plain_of_Nil [simp]: "plain_of [] = []"
  by (simp add: plain_of_def)

lemma plain_no_results: "plain_of (filter (\<lambda>b. \<not> is_tool_result b) bs) = plain_of bs"
  by (rule plain_of_drop) simp

lemma strip_pending_cases:
  assumes "san_ok st" and "pending st \<noteq> {}"
  obtains pre a bs where "cleaned st = pre @ [a]" and "pair_state {} pre = Some {}"
    and "msg_role a = ASSISTANT" and "msg_content a = PyList bs" and "tool_use_ids bs = pending st"
    and "cleaned (strip_pending st) =
      (let kept = filter (\<lambda>b. \<not> (is_tool_use b \<and> tool_use_id b \<in> pending st)) bs
       in if kept = [] then pre else pre @ [with_content a kept])"
proof -
  obtain pre a where c: "cleaned st = pre @ [a]"
    using assms by (metis san_ok_def rev_exhaust)
  with assms have pa: "pair_state {} pre = Some (msg_results a)" "pending st = msg_uses a"
    by (simp_all add: san_ok_def pair_state_snoc)
  with assms(2) obtain bs where a: "msg_role a = ASSISTANT" "msg_content a = PyList bs" "tool_use_ids bs = pending st"
    by (auto simp: msg_uses_def split: if_splits pyval.splits)
  have "bs \<noteq> []" using a(3) assms(2) by (auto simp: tool_use_ids_def)
  then have cont: "(case map_of a ''content'' of None \<Rightarrow> PyList [] | Some v \<Rightarrow> v) = PyList bs"
    using a(2) by (auto simp: msg_content_def split: option.splits)
  show thesis
  proof (rule that [OF c])
    show "pair_state {} pre = Some {}" using pa(1) a(1) by simp
    show "cleaned (strip_pending st) =
      (let kept = filter (\<lambda>b. \<not> (is_tool_use b \<and> tool_use_id b \<in> pending st)) bs
       in if kept = [] then pre else pre @ [with_content a kept])"
      using assms c by (simp add: strip_pending_def san_ok_def drop_blocks_def cont Let_def)
  qed (use a in auto)
qed

lemma strip_pending_paired:
  assumes "san_ok st" and "pending st \<noteq> {}"
  shows "pair_state {} (cleaned (strip_pending st)) = Some {}"
proof -
  from strip_pending_cases [OF assms] obtain pre a bs
    where c: "cleaned st = pre @ [a]" and p: "pair_state {} pre = Some {}"
      and r: "msg_role a = ASSISTANT" and a: "msg_content a = PyList bs" and u: "tool_use_ids bs = pending st"
      and s: "cleaned (strip_pending st) =
      (let kept = filter (\<lambda>b. \<not> (is_tool_use b \<and> tool_use_id b \<in> pending st)) bs
       in if kept = [] then pre else pre @ [with_content a kept])"
    .
  have "tool_use_ids (filter (\<lambda>b. \<not> (is_tool_use b \<and> tool_use_id b \<in> pending st)) bs) = {}"
    using u by (auto simp: tool_use_ids_def)
  then show ?thesis
    using p r by (auto simp: s Let_def pair_state_snoc msg_uses_def empty_user_list_def)
qed

lemma strip_pending_plain:
  assumes "san_ok st" and "pending st \<noteq> {}"
  shows "plain_text (cleaned (strip_pending st)) = plain_text (cleaned st)"
proof -
  from strip_pending_cases [OF assms] obtain pre a bs
    where c: "cleaned st = pre @ [a]" and p: "pair_state {} pre = Some {}"
      and r: "msg_role a = ASSISTANT" and a: "msg_content a = PyList bs" and u: "tool_use_ids bs = pending st"
      and s: "cleaned (strip_pending st) =
      (let kept = filter (\<lambda>b. \<not> (is_tool_use b \<and> tool_use_id b \<in> pending st)) bs
       in if kept = [] then pre else pre @ [with_content a kept])"
    .
  have "plain_of (filter (\<lambda>b. \<not> (is_tool_use b \<and> tool_use_id b \<in> pending st)) bs) = plain_of bs"
    by (rule plain_of_drop) simp
  then show ?thesis
    using c a by (cases "filter (\<lambda>b. \<not> (is_tool_use b \<and> tool_use_id b \<in> pending st)) bs = []")
      (simp_all add: s Let_def plain_blocks_def)
qed

lemma no_results_filtered: "filter is_tool_result (filter (\<lambda>b. \<not> is_tool_result b) bs) = []"
  by (induction bs) auto

lemma add_message_ok:
  assumes "pair_state {} (cleaned st) = Some {}" and "pending st = {}"
    and "role = msg_role msg" and "c = msg_content msg"
  shows "san_ok (add_message st role c msg)"
proof (cases c)
  case (PyList bs)
  then show ?thesis
    using assms no_results_filtered [of bs]
    by (auto simp: add_message_def san_ok_def pair_state_snoc msg_uses_def msg_results_def
        empty_user_list_def Let_def)
qed (use assms in \<open>auto simp: add_message_def san_ok_def pair_state_snoc msg_uses_def
    msg_results_def empty_user_list_def split: pyval.splits\<close>)

lemma add_message_plain:
  assumes "role = msg_role msg" and "c = msg_content msg"
  shows "plain_text (cleaned (add_message st role c msg)) = plain_text (cleaned st) @ plain_blocks msg"
proof (cases c)
  case (PyList bs)
  then have c: "msg_content msg = PyList bs" using assms by simp
  show ?thesis
    using plain_no_results [of bs]
    by (cases "filter (\<lambda>b. \<not> is_tool_result b) bs = []")
      (simp_all add: add_message_def Let_def plain_blocks_def PyList c assms(1) del: filter_empty_conv)
qed (use assms in \<open>auto simp: add_message_def plain_blocks_def split: pyval.splits\<close>)

lemma matchedE:
  assumes "role = USER \<and> matching_result_ids P role c = P" and "P \<noteq> {}"
  obtains bs where "c = PyList bs" and "role = USER" and "matching_result_ids P USER c = P"
    and "set (map tool_result_id (filter (\<lambda>b. is_tool_result b \<and> tool_result_id b \<in> P) bs)) = P"
proof -
  from assms(1) have r: "role = USER" and m: "matching_result_ids P USER c = P" by auto
  with assms(2) obtain bs where bs: "c = PyList bs"
    by (cases c) (simp_all add: matching_result_ids_def)
  then have "set (map tool_result_id (filter (\<lambda>b. is_tool_result b \<and> tool_result_id b \<in> P) bs)) = P"
    using m by (simp add: matching_result_ids_def)
  from that [OF bs r m this] show thesis .
qed

lemma filter_answers:
  "filter is_tool_result (filter (\<lambda>b. \<not> (is_tool_result b \<and> tool_result_id b \<notin> P)) bs)
   = filter (\<lambda>b. is_tool_result b \<and> tool_result_id b \<in> P) bs"
  by (induction bs) auto

lemma sanitize_step_ok:
  assumes "san_ok st"
  shows "san_ok (sanitize_step st msg)"
proof (cases "pending st = {}")
  case True
  then have "sanitize_step st msg = add_message st (msg_role msg) (msg_content msg) msg"
    by (simp add: sanitize_step_def Let_def)
  moreover have "san_ok (add_message st (msg_role msg) (msg_content msg) msg)"
    using True assms by (intro add_message_ok) (simp_all add: san_ok_def)
  ultimately show ?thesis by simp
next
  case False
  let ?c = "msg_content msg"
  show ?thesis
  proof (cases "msg_role msg = USER \<and> matching_result_ids (pending st) (msg_role msg) ?c = pending st")
    case True
    from matchedE [OF this False] obtain bs where bs: "?c = PyList bs" "msg_role msg = USER"
      "matching_result_ids (pending st) USER ?c = pending st"
      "set (map tool_result_id (filter (\<lambda>b. is_tool_result b \<and> tool_result_id b \<in> pending st) bs)) = pending st" .
    let ?kept = "filter (\<lambda>b. \<not> (is_tool_result b \<and> tool_result_id b \<notin> pending st)) bs"
    have "set (map tool_result_id (filter is_tool_result ?kept)) = pending st"
      by (simp only: filter_answers bs(4))
    moreover from this False have "?kept \<noteq> []" by (metis filter.simps(1) list.set(1) list.simps(8))
    ultimately show ?thesis
      using assms False bs(1,2,3)
      by (simp add: sanitize_step_def Let_def san_ok_def pair_state_snoc drop_blocks_def msg_results_def
          empty_user_list_def)
  next
    case mismatch: False
    let ?st = "(strip_pending st)\<lparr>pending := {}\<rparr>"
    have p: "pair_state {} (cleaned ?st) = Some {}" "pending ?st = {}"
      using strip_pending_paired [OF assms False] by simp_all
    then have st: "san_ok ?st" by (simp add: san_ok_def)
    have add: "san_ok (add_message ?st (msg_role m) (msg_content m) m)" for m
      using p by (rule add_message_ok) simp_all
    show ?thesis
    proof (cases "msg_role msg = USER \<and> (\<exists>bs. ?c = PyList bs)")
      case True
      then obtain bs where bs: "msg_role msg = USER" "?c = PyList bs" by blast
      have "sanitize_step st msg = (let kept = filter (\<lambda>b. \<not> is_tool_result b) bs in
          if kept = [] then ?st else add_message ?st USER (PyList kept) (with_content msg kept))"
        using mismatch False bs by (simp add: sanitize_step_def Let_def)
      with st add [of "with_content msg (filter (\<lambda>b. \<not> is_tool_result b) bs)"] bs show ?thesis
        by (simp add: Let_def)
    next
      case False
      then have "sanitize_step st msg = add_message ?st (msg_role msg) ?c msg"
        using mismatch \<open>pending st \<noteq> {}\<close> by (auto simp: sanitize_step_def Let_def split: pyval.split)
      with add show ?thesis by simp
    qed
  qed
qed

lemma sanitize_step_plain:
  assumes "san_ok st"
  shows "plain_text (cleaned (sanitize_step st msg)) = plain_text (cleaned st) @ plain_blocks msg"
proof (cases "pending st = {}")
  case True
  then show ?thesis by (simp add: sanitize_step_def Let_def add_message_plain)
next
  case False
  let ?c = "msg_content msg" and ?st = "(strip_pending st)\<lparr>pending := {}\<rparr>"
  have strip: "plain_text (cleaned ?st) = plain_text (cleaned st)"
    using strip_pending_plain [OF assms False] by simp
  show ?thesis
  proof (cases "msg_role msg = USER \<and> matching_result_ids (pending st) (msg_role msg) ?c = pending st")
    case True
    from matchedE [OF this False] obtain bs where bs: "?c = PyList bs" "msg_role msg = USER"
      "matching_result_ids (pending st) USER ?c = pending st" .
    have "plain_of (filter (\<lambda>b. \<not> (is_tool_result b \<and> tool_result_id b \<notin> pending st)) bs) = plain_of bs"
      by (rule plain_of_drop) simp
    with False bs show ?thesis
      by (simp add: sanitize_step_def Let_def drop_blocks_def plain_blocks_def del: filter_filter)
  next
    case mismatch: False
    show ?thesis
    proof (cases "msg_role msg = USER \<and> (\<exists>bs. ?c = PyList bs)")
      case True
      then obtain bs where bs: "msg_role msg = USER" "?c = PyList bs" by blast
      let ?kept = "filter (\<lambda>b. \<not> is_tool_result b) bs"
      have step: "sanitize_step st msg
          = (if ?kept = [] then ?st else add_message ?st USER (PyList ?kept) (with_content msg ?kept))"
        using mismatch False bs by (simp add: sanitize_step_def Let_def)
      have plain: "plain_blocks msg = map (Pair USER) (plain_of ?kept)"
        by (simp add: plain_blocks_def bs plain_no_results del: filter_filter)
      have "plain_text (cleaned (add_message ?st USER (PyList ?kept) (with_content msg ?kept)))
          = plain_text (cleaned ?st) @ plain_blocks (with_content msg ?kept)"
        by (rule add_message_plain) (simp_all add: bs)
      with step plain strip show ?thesis
        by (cases "?kept = []") (simp_all add: plain_blocks_def bs del: filter_empty_conv)
    next
      case False
      then have "sanitize_step st msg = add_message ?st (msg_role msg) ?c msg"
        using mismatch \<open>pending st \<noteq> {}\<close> by (auto simp: sanitize_step_def Let_def split: pyval.split)
      with strip show ?thesis by (simp add: add_message_plain)
    qed
  qed
qed

lemma sanitize_fold:
  assumes "san_ok st"
  shows "san_ok (foldl sanitize_step st ms)
    \<and> plain_text (cleaned (foldl sanitize_step st ms)) = plain_text (cleaned st) @ plain_text ms"
  using assms
proof (induction ms arbitrary: st)
  case (Cons m ms)
  from Cons.IH [OF sanitize_step_ok [OF Cons.prems, of m]] sanitize_step_plain [OF Cons.prems, of m]
  show ?case by simp
qed simp

lemma finish_sanitizer_ok:
  assumes "san_ok st"
  shows "tool_paired (finish_sanitizer st) \<and> plain_text (finish_sanitizer st) = plain_text (cleaned st)"
  using assms strip_pending_paired [OF assms] strip_pending_plain [OF assms]
  by (cases "pending st = {}") (simp_all add: finish_sanitizer_def tool_paired_def san_ok_def)

lemma new_sanitizer_ok: "san_ok new_sanitizer"
  by (simp add: san_ok_def new_sanitizer_def)

text \<open>A paired message passes unchanged.\<close>

lemma filter_no_results: "set (map f (filter is_tool_result bs)) = {} \<Longrightarrow> filter (\<lambda>b. \<not> is_tool_result b) bs = bs"
  by (auto simp: filter_empty_conv intro: filter_True)

lemma sanitize_step_paired:
  assumes "msg_results m = pending st" and "\<not> empty_user_list m"
  shows "cleaned (sanitize_step st m) = cleaned st @ [m] \<and> pending (sanitize_step st m) = msg_uses m"
proof (cases "pending st = {}")
  case True
  have "cleaned (add_message st (msg_role m) (msg_content m) m) = cleaned st @ [m]
      \<and> pending (add_message st (msg_role m) (msg_content m) m) = msg_uses m"
  proof (cases "msg_content m")
    case (PyList bs)
    show ?thesis
    proof (cases "msg_role m = USER")
      case user: True
      then have "set (map tool_result_id (filter is_tool_result bs)) = {}" "bs \<noteq> []"
        using assms True PyList by (simp_all add: msg_results_def empty_user_list_def)
      with filter_no_results [OF this(1)] user PyList True show ?thesis
        by (simp add: add_message_def Let_def content_list_dset)
    qed (use PyList True in \<open>auto simp: add_message_def Let_def msg_uses_def\<close>)
  qed (use True in \<open>auto simp: add_message_def msg_uses_def\<close>)
  with True show ?thesis by (simp add: sanitize_step_def Let_def)
next
  case False
  with assms(1) obtain bs where bs: "msg_role m = USER" "msg_content m = PyList bs"
    "set (map tool_result_id (filter is_tool_result bs)) = pending st"
    by (auto simp: msg_results_def split: if_splits pyval.splits)
  then have "set (map tool_result_id (filter (\<lambda>b. is_tool_result b \<and> tool_result_id b \<in> pending st) bs)) = pending st"
    and "filter (\<lambda>b. \<not> (is_tool_result b \<and> tool_result_id b \<notin> pending st)) bs = bs"
    by (auto intro!: filter_True)
  with bs False show ?thesis
    by (simp add: sanitize_step_def Let_def matching_result_ids_def drop_blocks_def content_list_dset)
qed

lemma sanitize_paired_fold:
  "pair_state (pending st) ms = Some Q \<Longrightarrow>
   cleaned (foldl sanitize_step st ms) = cleaned st @ ms \<and> pending (foldl sanitize_step st ms) = Q"
proof (induction ms arbitrary: st)
  case (Cons m ms)
  then have "msg_results m = pending st" "\<not> empty_user_list m" and rest: "pair_state (msg_uses m) ms = Some Q"
    by (simp_all split: if_splits)
  from sanitize_step_paired [OF this(1,2)] Cons.IH [of "sanitize_step st m"] rest show ?case by simp
qed simp

lemma sanitize_length: "length (sanitize_tool_pairs ms) \<le> length ms"
proof -
  have add: "length (cleaned (add_message st r c m)) \<le> length (cleaned st) + 1" for st r c m
    by (auto simp: add_message_def Let_def split: pyval.split)
  have strip: "length (cleaned (strip_pending st)) \<le> length (cleaned st)" for st
    by (auto simp: strip_pending_def Let_def split: option.split)
  have two: "length (cleaned (add_message ((strip_pending st)\<lparr>pending := {}\<rparr>) r c m)) \<le> length (cleaned st) + 1" for st r c m
    using add [of "(strip_pending st)\<lparr>pending := {}\<rparr>" r c m] strip [of st] by simp
  have step: "length (cleaned (sanitize_step st m)) \<le> length (cleaned st) + 1" for st m
    using add two le_SucI [OF strip [of st]]
    by (auto simp: sanitize_step_def Let_def split: pyval.split)
  have "length (cleaned (foldl sanitize_step st ms)) \<le> length (cleaned st) + length ms" for st
  proof (induction ms arbitrary: st)
    case (Cons m ms)
    from Cons.IH [of "sanitize_step st m"] step [of st m] show ?case by simp
  qed simp
  from this [of new_sanitizer] strip [of "foldl sanitize_step new_sanitizer ms"] show ?thesis
    by (auto simp: sanitize_tool_pairs_def finish_sanitizer_def new_sanitizer_def)
qed

lemma sanitized_paired: "tool_paired (sanitize_tool_pairs ms)"
  using finish_sanitizer_ok [of "foldl sanitize_step new_sanitizer ms"] sanitize_fold [OF new_sanitizer_ok, of ms]
  by (simp add: sanitize_tool_pairs_def)

lemma sanitized_plain: "plain_text (sanitize_tool_pairs ms) = plain_text ms"
  using finish_sanitizer_ok [of "foldl sanitize_step new_sanitizer ms"] sanitize_fold [OF new_sanitizer_ok, of ms]
  by (simp add: sanitize_tool_pairs_def new_sanitizer_def)

text \<open>
  C16: whatever transcript goes in, the sanitized one meets the provider's rule (every identified
  \<open>tool_use\<close> is answered, with exactly its results, by the next message, and no user message brings
  other results) and keeps every block that belongs to no tool pair, in order and under its role.
\<close>

theorem sanitize_paired:
  "tool_paired (sanitize_tool_pairs ms)
   \<and> concat (map plain_blocks (sanitize_tool_pairs ms)) = concat (map plain_blocks ms)"
  using sanitized_paired sanitized_plain by blast

text \<open>
  The sanitizer changes a transcript exactly when it breaks the rule, so a second pass changes
  nothing.
\<close>

theorem sanitize_fixed:
  "(sanitize_tool_pairs ms = ms) = tool_paired ms
   \<and> sanitize_tool_pairs (sanitize_tool_pairs ms) = sanitize_tool_pairs ms"
proof -
  have keep: "sanitize_tool_pairs xs = xs" if "tool_paired xs" for xs
    using that sanitize_paired_fold [of new_sanitizer xs "{}"]
    by (simp add: tool_paired_def sanitize_tool_pairs_def finish_sanitizer_def new_sanitizer_def)
  from keep sanitized_paired show ?thesis by metis
qed

section \<open>Cache marks\<close>

definition has_mark :: "pyval \<Rightarrow> bool" where
  "has_mark b = (case b of PyDict d \<Rightarrow> ''cache_control'' \<in> fst ` set d | _ \<Rightarrow> False)"

definition cache_marks :: "message list \<Rightarrow> nat" where
  "cache_marks ms = length (filter has_mark
     (concat (map (\<lambda>m. case map_of m ''content'' of Some (PyList bs) \<Rightarrow> bs | _ \<Rightarrow> []) ms)))"

lemma cache_marks_append [simp]: "cache_marks (xs @ ys) = cache_marks xs + cache_marks ys"
  by (simp add: cache_marks_def)

lemma unmarked_blocks:
  "\<not> has_mark (case b of PyDict d \<Rightarrow> PyDict (AList.delete ''cache_control'' d) | _ \<Rightarrow> b)"
  using delete_notin_dom [of "''cache_control''"] by (cases b) (simp_all add: has_mark_def)

lemma cleared_marks: "cache_marks (clear_message_cache_breakpoints ms) = 0"
proof -
  have "cache_marks [map_dict_blocks (AList.delete ''cache_control'') m] = 0" for m
    using unmarked_blocks
    by (auto simp: cache_marks_def map_dict_blocks_def filter_empty_conv split: option.split pyval.split)
  then show ?thesis
    by (induction ms) (auto simp: clear_message_cache_breakpoints_def cache_marks_def)
qed

lemma set_mark: "cache_marks [m] = 0 \<Longrightarrow> cache_marks [set_cache_breakpoint m] \<le> 1"
proof (cases "\<exists>bs. map_of m ''content'' = Some (PyList bs) \<and> bs \<noteq> []")
  case True
  assume zero: "cache_marks [m] = 0"
  from True obtain bs where bs: "map_of m ''content'' = Some (PyList bs)" "bs \<noteq> []" by blast
  then obtain pre b where pre: "bs = pre @ [b]" by (metis rev_exhaust)
  with zero bs have "filter has_mark pre = []" "\<not> has_mark b"
    by (auto simp: cache_marks_def filter_empty_conv split: if_splits)
  then show ?thesis
    using bs pre by (auto simp: set_cache_breakpoint_def cache_marks_def split: pyval.split)
qed (auto simp: set_cache_breakpoint_def cache_marks_def split: option.split pyval.split)

text \<open>After a refresh at most one block of the transcript carries a mark, whatever earlier turns left.\<close>

lemma one_cache_mark:
  assumes "2 \<le> length ms"
  shows "cache_marks (refresh_cache_breakpoint ''anthropic'' True ms) \<le> 1"
proof -
  let ?c = "clear_message_cache_breakpoints ms"
  have c: "?c = butlast ?c @ [last ?c]"
    using assms by (intro append_butlast_last_id [symmetric]) (auto simp: clear_message_cache_breakpoints_def)
  have "cache_marks (butlast ?c) + cache_marks [last ?c] = 0"
    using cleared_marks [of ms] by (subst (asm) c) (simp only: cache_marks_append)
  with set_mark [of "last ?c"] assms show ?thesis
    by (simp add: refresh_cache_breakpoint_def Let_def)
qed

end
