(* ===== verification/Compaction.thy ===== *)
theory Compaction
  imports Transcripts
begin

text \<open>
  Transcript compaction (\<open>systems/context/compaction.py\<close>): the token estimate, the choice of the
  early and recent slices around the omitted middle, the summary that replaces it, and the search
  for a message limit that meets a token target.
\<close>

section \<open>Tool messages and the token estimate\<close>

definition is_tool_use_assistant :: "message \<Rightarrow> bool" where
  "is_tool_use_assistant m = (msg_role m = ASSISTANT
     \<and> (case msg_content m of PyList bs \<Rightarrow> list_ex is_tool_use bs | _ \<Rightarrow> False))"

definition is_tool_result_user :: "message \<Rightarrow> bool" where
  "is_tool_result_user m = (msg_role m = USER
     \<and> (case msg_content m of PyList bs \<Rightarrow> list_ex is_tool_result bs | _ \<Rightarrow> False))"

definition estimate_context_tokens :: "pyval \<Rightarrow> int" where
  "estimate_context_tokens v =
     (if v = PyNone then 0
      else
        (let text = (case v of PyStr s \<Rightarrow> s | _ \<Rightarrow> json_dumps True '', '' '': '' v)
         in if text = [] then 0 else max 1 ((int (length text) + 3) div 4)))"

definition messages_value :: "message list \<Rightarrow> pyval" where
  "messages_value ms = PyList (map PyDict ms)"

definition estimate_session_tokens :: "message list \<Rightarrow> pyval \<Rightarrow> pyval \<Rightarrow> int" where
  "estimate_session_tokens ms system tools =
     estimate_context_tokens system + estimate_context_tokens tools + estimate_context_tokens (messages_value ms)"

record compaction_report =
  original_count :: int
  kept_count :: int
  omitted_count :: int
  rp_summary :: string
  rp_strategy :: string
  rp_provenance :: pydict

definition report_payload :: "compaction_report \<Rightarrow> pydict" where
  "report_payload r =
     [(''original_count'', PyInt (original_count r)), (''kept_count'', PyInt (kept_count r)),
      (''omitted_count'', PyInt (omitted_count r)), (''summary'', PyStr (rp_summary r)),
      (''strategy'', PyStr (rp_strategy r)), (''provenance'', PyDict (rp_provenance r))]"

record compaction_window =
  kept_early :: "message list"
  omitted_messages :: "message list"
  kept_recent :: "message list"
  omitted_range :: "nat \<times> nat"

section \<open>Choosing the slices\<close>

definition tool_message :: "message \<Rightarrow> bool" where
  "tool_message m = (is_tool_use_assistant m \<or> is_tool_result_user m)"

text \<open>\<open>messages[e - 1]\<close>: index -1, the last message, for \<open>e = 0\<close>.\<close>

definition previous_message :: "message list \<Rightarrow> nat \<Rightarrow> message" where
  "previous_message ms e = (if e = 0 then last ms else ms ! (e - 1))"

text \<open>The first loop moves the end of the early slice past tool messages, by six at most.\<close>

function extend_early :: "message list \<Rightarrow> nat \<Rightarrow> nat \<Rightarrow> nat" where
  "extend_early ms keep e =
     (if e < length ms \<and> e < max (keep + 6) keep
      then (if tool_message (previous_message ms e) then extend_early ms keep (e + 1) else e)
      else e)"
  by pat_completeness auto
termination by (relation "measure (\<lambda>(ms, keep, e). length ms - e)") auto

declare extend_early.simps [simp del]

text \<open>The second loop moves it back while the slice still ends in a tool message.\<close>

fun retreat_early :: "message list \<Rightarrow> nat \<Rightarrow> nat" where
  "retreat_early ms 0 = 0"
| "retreat_early ms (Suc e) = (if 1 < Suc e \<and> tool_message (ms ! e) then retreat_early ms e else Suc e)"

definition early_end_of :: "message list \<Rightarrow> nat \<Rightarrow> nat" where
  "early_end_of ms keep = retreat_early ms (extend_early ms keep (min keep (length ms)))"

text \<open>Where the recent slice may start: past results without their call and calls without their result.\<close>

fun safe_start_from :: "nat \<Rightarrow> nat \<Rightarrow> message list \<Rightarrow> nat" where
  "safe_start_from index safe [] = safe"
| "safe_start_from index safe (m # rest) =
     (if is_tool_result_user m then safe_start_from (index + 1) (index + 1) rest
      else if is_tool_use_assistant m then
        (if rest \<noteq> [] \<and> is_tool_result_user (hd rest) then safe
         else safe_start_from (index + 1) (index + 1) rest)
      else safe)"

definition split_session_messages_for_compaction ::
  "message list \<Rightarrow> int \<Rightarrow> nat \<Rightarrow> compaction_window option" where
  "split_session_messages_for_compaction ms max_messages keep =
     (if int (length ms) \<le> max_messages then None
      else
        (let early_end = early_end_of ms keep;
             recent_budget = max 1 (max_messages - int early_end - 1);
             candidate = drop (length ms - nat recent_budget) ms;
             safe = safe_start_from 0 0 candidate;
             omitted_end = length ms - length candidate + safe
         in Some \<lparr>kept_early = take early_end ms,
                  omitted_messages = drop early_end (take omitted_end ms),
                  kept_recent = drop safe candidate,
                  omitted_range = (early_end, omitted_end)\<rparr>))"

section \<open>Compaction with a summary\<close>

definition unchanged_report :: "int \<Rightarrow> string \<Rightarrow> string \<Rightarrow> pydict \<Rightarrow> compaction_report" where
  "unchanged_report n summary strategy prov =
     \<lparr>original_count = n, kept_count = n, omitted_count = 0, rp_summary = summary,
      rp_strategy = strategy, rp_provenance = prov\<rparr>"

definition compaction_summary_message :: "nat \<Rightarrow> string \<Rightarrow> string \<Rightarrow> message" where
  "compaction_summary_message n session_id summary =
     [(''role'', USER),
      (''content'', PyStr (''[System: '' @ show_int (int n) @ '' earlier messages compacted by ContextRuntime. ''
         @ ''Summary provenance=session:'' @ (if session_id = [] then ''unknown'' else session_id) @ ''.''
         @ newline @ summary @ '']''))]"

definition compact_session_messages ::
  "message list \<Rightarrow> int \<Rightarrow> string \<Rightarrow> nat \<Rightarrow> (message list \<times> compaction_report) result" where
  "compact_session_messages ms max_messages session_id keep =
     (let n = int (length ms);
          none = unchanged_report n ''No compaction required.'' ''preserve_tool_pairs''
            [(''session_id'', PyStr session_id), (''max_messages'', PyInt max_messages),
             (''summary_source'', PyStr ''none'')]
      in if n \<le> max_messages then Inr (ms, none)
         else
           (case split_session_messages_for_compaction ms max_messages keep of
              None \<Rightarrow> Inr (ms, none)
            | Some w \<Rightarrow>
                rbind (summarize_trimmed_messages (omitted_messages w)) (\<lambda>summary.
                  (let msg = compaction_summary_message (length (omitted_messages w)) session_id summary;
                       compacted = sanitize_tool_pairs (kept_early w @ [msg] @ kept_recent w)
                   in Inr (compacted,
                        \<lparr>original_count = n, kept_count = int (length compacted),
                         omitted_count = int (length (omitted_messages w)), rp_summary = summary,
                         rp_strategy = ''preserve_tool_pairs'',
                         rp_provenance =
                           [(''session_id'', PyStr session_id), (''max_messages'', PyInt max_messages),
                            (''summary_source'', PyStr ''brain.systems.sessions._summarize_trimmed_messages''),
                            (''omitted_range'', PyList [PyInt (int (fst (omitted_range w))),
                                                       PyInt (int (snd (omitted_range w)))]),
                            (''tool_pair_safe'', PyBool True)]\<rparr>)))))"

text \<open>The message limits to try: from \<open>start\<close> down by four, and the minimum in any case.\<close>

function limits_down :: "int \<Rightarrow> int \<Rightarrow> int list" where
  "limits_down current lowest = (if lowest \<le> current then current # limits_down (current - 4) lowest else [])"
  by pat_completeness auto
termination by (relation "measure (\<lambda>(c, l). nat (c - l + 1))") auto

declare limits_down.simps [simp del]

definition candidate_limits :: "nat \<Rightarrow> int \<Rightarrow> int \<Rightarrow> int list" where
  "candidate_limits n max_messages min_messages =
     (let start = min max_messages (max min_messages (int n - 1));
          ls = limits_down start min_messages
      in if min_messages \<in> set ls then ls else ls @ [min_messages])"

text \<open>\<open>int(target_tokens or dflt)\<close>: a target of zero counts as none.\<close>

definition target_or :: "int option \<Rightarrow> int \<Rightarrow> int" where
  "target_or t dflt = (case t of None \<Rightarrow> dflt | Some v \<Rightarrow> if v = 0 then dflt else v)"

text \<open>The loop over the limits: the last attempt counts, and the first that meets the target ends it.\<close>

fun try_limits ::
  "(int \<Rightarrow> (message list \<times> compaction_report) result) \<Rightarrow> (message list \<Rightarrow> int) \<Rightarrow> int \<Rightarrow>
   message list \<times> compaction_report option \<times> int \<Rightarrow> int list \<Rightarrow>
   (message list \<times> compaction_report option \<times> int) result" where
  "try_limits compact est target best [] = Inr best"
| "try_limits compact est target best (l # ls) =
     rbind (compact l) (\<lambda>(ms, report).
       (let e = est ms in
        if e \<le> target then Inr (ms, Some report, e)
        else try_limits compact est target (ms, Some report, e) ls))"

definition compact_session_messages_to_token_budget ::
  "message list \<Rightarrow> int \<Rightarrow> int option \<Rightarrow> string \<Rightarrow> pyval \<Rightarrow> pyval \<Rightarrow> nat \<Rightarrow> int \<Rightarrow> int \<Rightarrow>
   (message list \<times> compaction_report) result" where
  "compact_session_messages_to_token_budget ms token_limit target_tokens session_id system tools keep
      max_messages min_messages =
     (let original = estimate_session_tokens ms system tools; n = int (length ms) in
      if token_limit \<le> 0 \<or> original \<le> token_limit then
        Inr (ms, unchanged_report n ''No compaction required.'' ''token_budget_preserve_tool_pairs''
          [(''session_id'', PyStr session_id), (''token_limit'', PyInt token_limit),
           (''target_tokens'', opt_int target_tokens), (''original_estimated_tokens'', PyInt original),
           (''final_estimated_tokens'', PyInt original), (''summary_source'', PyStr ''none'')])
      else
        (let target = target_or target_tokens (max min_messages (token_limit * 7 div 10)) in
         rbind (try_limits (\<lambda>l. compact_session_messages ms l session_id keep)
                  (\<lambda>c. estimate_session_tokens c system tools) target (ms, None, original)
                  (candidate_limits (length ms) max_messages min_messages))
           (\<lambda>(best, best_report, best_tokens).
             (let r = (case best_report of
                   Some r \<Rightarrow> r
                 | None \<Rightarrow> \<lparr>original_count = n, kept_count = int (length best),
                     omitted_count = max 0 (n - int (length best)),
                     rp_summary = ''Token-budget compaction produced no detailed report.'',
                     rp_strategy = ''preserve_tool_pairs'', rp_provenance = []\<rparr>)
              in Inr (best,
                   \<lparr>original_count = original_count r, kept_count = int (length best),
                    omitted_count = omitted_count r, rp_summary = rp_summary r,
                    rp_strategy = ''token_budget_preserve_tool_pairs'',
                    rp_provenance = dmerge (rp_provenance r)
                      [(''session_id'', PyStr session_id), (''token_limit'', PyInt token_limit),
                       (''target_tokens'', PyInt target), (''original_estimated_tokens'', PyInt original),
                       (''final_estimated_tokens'', PyInt best_tokens),
                       (''message_limit'', PyInt (int (length best)))]\<rparr>)))))"

section \<open>The slices fit together\<close>

lemma extend_early_props:
  "e \<le> length ms \<Longrightarrow> e \<le> keep + 6 \<Longrightarrow>
   e \<le> extend_early ms keep e \<and> extend_early ms keep e \<le> length ms \<and> extend_early ms keep e \<le> keep + 6"
proof (induction ms keep e rule: extend_early.induct)
  case (1 ms keep e)
  then show ?case by (subst (1 2 3) extend_early.simps) (auto simp: Suc_le_eq)
qed

lemma retreat_early_props:
  "retreat_early ms e \<le> e \<and> (retreat_early ms e \<le> 1 \<or> \<not> tool_message (ms ! (retreat_early ms e - 1)))"
  by (induction ms e rule: retreat_early.induct) auto

lemma early_end_props:
  shows "early_end_of ms keep \<le> length ms \<and> early_end_of ms keep \<le> keep + 6"
    and "early_end_of ms keep \<le> 1 \<or> \<not> tool_message (ms ! (early_end_of ms keep - 1))"
proof -
  let ?x = "extend_early ms keep (min keep (length ms))"
  have "?x \<le> length ms \<and> ?x \<le> keep + 6"
    using extend_early_props [of "min keep (length ms)" ms keep] by linarith
  moreover note retreat_early_props [of ms ?x]
  ultimately show "early_end_of ms keep \<le> length ms \<and> early_end_of ms keep \<le> keep + 6"
    and "early_end_of ms keep \<le> 1 \<or> \<not> tool_message (ms ! (early_end_of ms keep - 1))"
    unfolding early_end_of_def by linarith+
qed

text \<open>The recent slice starts with no result and with no call that its next message leaves unanswered.\<close>

definition safe_slice :: "message list \<Rightarrow> bool" where
  "safe_slice ms = (case ms of [] \<Rightarrow> True
     | m # rest \<Rightarrow> \<not> is_tool_result_user m
         \<and> (is_tool_use_assistant m \<longrightarrow> rest \<noteq> [] \<and> is_tool_result_user (hd rest)))"

lemma safe_start_props:
  "i \<le> safe_start_from i i ms \<and> safe_start_from i i ms \<le> i + length ms
   \<and> safe_slice (drop (safe_start_from i i ms - i) ms)"
proof (induction ms arbitrary: i)
  case (Cons m rest)
  show ?case
  proof (cases "safe_slice (m # rest)")
    case True
    then have "safe_start_from i i (m # rest) = i" by (auto simp: safe_slice_def)
    with True show ?thesis by simp
  next
    case False
    then have skip: "safe_start_from i i (m # rest) = safe_start_from (Suc i) (Suc i) rest"
      by (auto simp: safe_slice_def)
    have "drop (j - i) (m # rest) = drop (j - Suc i) rest" if "Suc i \<le> j" for j
      using that by (simp add: drop_Cons' )
    with Cons.IH [of "Suc i"] show ?thesis by (simp add: skip del: safe_start_from.simps)
  qed
qed (simp add: safe_slice_def)

definition window_of :: "message list \<Rightarrow> nat \<Rightarrow> nat \<Rightarrow> compaction_window" where
  "window_of ms e r = \<lparr>kept_early = take e ms, omitted_messages = drop e (take r ms),
     kept_recent = drop r ms, omitted_range = (e, r)\<rparr>"

definition recent_start :: "message list \<Rightarrow> int \<Rightarrow> nat \<Rightarrow> nat" where
  "recent_start ms mx e = length ms - nat (max 1 (mx - int e - 1))"

lemma split_eq:
  assumes "split_session_messages_for_compaction ms mx keep = Some w"
  obtains r where "mx < int (length ms)" and "recent_start ms mx (early_end_of ms keep) \<le> r"
    and "r \<le> length ms" and "safe_slice (drop r ms)" and "w = window_of ms (early_end_of ms keep) r"
proof -
  let ?e = "early_end_of ms keep"
  define k where "k = recent_start ms mx ?e"
  define s where "s = safe_start_from 0 0 (drop k ms)"
  have k: "k \<le> length ms" by (simp add: k_def recent_start_def)
  have s: "s \<le> length ms - k" "safe_slice (drop s (drop k ms))"
    using safe_start_props [of 0 "drop k ms"] by (simp_all add: s_def)
  have "w = \<lparr>kept_early = take ?e ms, omitted_messages = drop ?e (take (length ms - length (drop k ms) + s) ms),
      kept_recent = drop s (drop k ms), omitted_range = (?e, length ms - length (drop k ms) + s)\<rparr>"
    and "mx < int (length ms)"
    using assms unfolding split_session_messages_for_compaction_def Let_def k_def [symmetric] s_def [symmetric]
    by (simp_all only: split: if_splits)
      (simp_all add: k_def s_def recent_start_def)
  then show thesis
    using s k by (intro that [of "k + s"]) (simp_all add: window_of_def k_def add.commute)
qed

definition clean_window :: "message list \<Rightarrow> compaction_window \<Rightarrow> bool" where
  "clean_window ms w =
     (kept_early w @ omitted_messages w @ kept_recent w = ms
      \<and> omitted_range w = (length (kept_early w), length (kept_early w) + length (omitted_messages w))
      \<and> safe_slice (kept_recent w)
      \<and> (1 < length (kept_early w) \<longrightarrow> \<not> tool_message (last (kept_early w))))"

lemma take_drop_three: "e \<le> o' \<Longrightarrow> take e xs @ drop e (take o' xs) @ drop o' xs = xs"
proof -
  assume "e \<le> o'"
  then have "take e xs = take e (take o' xs)" by (simp add: min_absorb1)
  then have "take e xs @ drop e (take o' xs) = take o' xs" using append_take_drop_id by metis
  then show ?thesis using append_take_drop_id [of o' xs] by (simp only: append_assoc [symmetric])
qed

lemma split_clean:
  assumes "split_session_messages_for_compaction ms mx keep = Some w" and "omitted_messages w \<noteq> []"
  shows "clean_window ms w"
proof -
  let ?e = "early_end_of ms keep"
  from split_eq [OF assms(1)] obtain r where r: "r \<le> length ms" and safe: "safe_slice (drop r ms)"
    and w: "w = window_of ms ?e r" .
  have le: "?e \<le> r" using assms(2) by (auto simp: w window_of_def)
  with r have len: "length (take ?e ms) = ?e" by simp
  have "\<not> tool_message (last (take ?e ms))" if "1 < ?e"
  proof -
    have "last (take ?e ms) = ms ! (?e - 1)"
      using that le r by (subst last_conv_nth) auto
    with early_end_props(2) [of ms keep] that show ?thesis by auto
  qed
  moreover have "take ?e ms @ drop ?e (take r ms) @ drop r ms = ms"
    by (rule take_drop_three [OF le])
  ultimately show ?thesis
    using le r safe by (simp add: clean_window_def w window_of_def len)
qed

lemma split_roomy:
  assumes "split_session_messages_for_compaction ms mx keep = Some w" and "int keep + 8 \<le> mx"
  shows "omitted_messages w \<noteq> [] \<and> int (length (kept_early w @ kept_recent w)) + 1 \<le> mx"
proof -
  let ?e = "early_end_of ms keep"
  from split_eq [OF assms(1)] obtain r where n: "mx < int (length ms)"
    and k: "recent_start ms mx ?e \<le> r" and r: "r \<le> length ms" and w: "w = window_of ms ?e r" .
  have "int ?e \<le> int keep + 6" "?e \<le> length ms"
    using early_end_props(1) [of ms keep] by linarith+
  then have "?e < r" "int ?e + (int (length ms) - int r) + 1 \<le> mx"
    using assms(2) n k r by (simp_all add: recent_start_def)
  then show ?thesis using r \<open>?e \<le> length ms\<close> by (simp add: w window_of_def)
qed

section \<open>What a compaction keeps\<close>

text \<open>
  With room for the early slice, a compacted transcript is paired, fits the limit, reports the
  number of messages it left out, and keeps every block outside the omitted middle: the early
  slice, the summary and the recent slice, in this order.
\<close>

theorem compaction_sound:
  assumes "compact_session_messages ms mx sid keep = Inr (out, r)"
    and "int keep + 8 \<le> mx" and "mx < int (length ms)"
  shows "tool_paired out \<and> int (length out) \<le> mx \<and> kept_count r = int (length out)
    \<and> (\<exists>early omitted recent summary. ms = early @ omitted @ recent \<and> omitted \<noteq> []
        \<and> omitted_count r = int (length omitted) \<and> summarize_trimmed_messages omitted = Inr summary
        \<and> concat (map plain_blocks out) = concat (map plain_blocks
            (early @ [compaction_summary_message (length omitted) sid summary] @ recent)))"
proof -
  obtain w where w: "split_session_messages_for_compaction ms mx keep = Some w"
    using assms(3) by (simp add: split_session_messages_for_compaction_def Let_def)
  obtain summary where summary: "summarize_trimmed_messages (omitted_messages w) = Inr summary"
    and out: "out = sanitize_tool_pairs (kept_early w
        @ [compaction_summary_message (length (omitted_messages w)) sid summary] @ kept_recent w)"
    and r: "omitted_count r = int (length (omitted_messages w))" "kept_count r = int (length out)"
    using assms(1,3) by (auto simp: compact_session_messages_def Let_def w rbind_Inr_iff)
  from split_roomy [OF w assms(2)] have roomy: "omitted_messages w \<noteq> []"
    "int (length (kept_early w @ kept_recent w)) + 1 \<le> mx" by simp_all
  have parts: "ms = kept_early w @ omitted_messages w @ kept_recent w"
    using split_clean [OF w roomy(1)] by (simp add: clean_window_def)
  have "int (length out) \<le> mx"
    using roomy(2) sanitize_length [of "kept_early w
        @ [compaction_summary_message (length (omitted_messages w)) sid summary] @ kept_recent w"]
    by (simp add: out)
  moreover have "tool_paired out" unfolding out by (rule sanitized_paired)
  moreover have "concat (map plain_blocks out) = concat (map plain_blocks (kept_early w
      @ [compaction_summary_message (length (omitted_messages w)) sid summary] @ kept_recent w))"
    unfolding out by (rule sanitized_plain)
  ultimately show ?thesis using parts roomy(1) summary r by blast
qed

text \<open>A transcript of \<open>n\<close> exchanges that call one tool.\<close>

definition ex_tool_use :: "string \<Rightarrow> message" where
  "ex_tool_use i = [(''role'', ASSISTANT), (''content'', PyList
     [PyDict [(''type'', PyStr ''tool_use''), (''id'', PyStr i), (''name'', PyStr ''grep''), (''input'', PyDict [])]])]"

definition ex_tool_result :: "string \<Rightarrow> message" where
  "ex_tool_result i = [(''role'', USER), (''content'', PyList
     [PyDict [(''type'', PyStr ''tool_result''), (''tool_use_id'', PyStr i), (''content'', PyStr ''found'')]])]"

definition ex_said :: "pyval \<Rightarrow> string \<Rightarrow> message" where
  "ex_said role t = [(''role'', role), (''content'', PyStr t)]"

definition ex_transcript :: "message list" where
  "ex_transcript = ex_said USER ''fix it'' # ex_said ASSISTANT ''ok''
     # concat (replicate 5 [ex_tool_use ''a'', ex_tool_result ''a'']) @ [ex_said ASSISTANT ''done'']"

lemma compaction_sound_witness:
  "\<exists>out r. compact_session_messages ex_transcript 10 ''s'' 2 = Inr (out, r) \<and> tool_paired out \<and> length out \<le> 10"
proof -
  have "\<not> isl (compact_session_messages ex_transcript 10 ''s'' 2)" by code_simp
  then obtain out r where o: "compact_session_messages ex_transcript 10 ''s'' 2 = Inr (out, r)"
    by (cases "compact_session_messages ex_transcript 10 ''s'' 2") auto
  have "int (length ex_transcript) = 13" by code_simp
  with compaction_sound [OF o] o show ?thesis by auto
qed

section \<open>Short transcripts\<close>

lemma extend_early_all:
  assumes "\<And>i. e \<le> Suc i \<Longrightarrow> Suc i < length ms \<Longrightarrow> tool_message (ms ! i)" and "1 \<le> e"
    and "e \<le> length ms" and "length ms \<le> keep + 6"
  shows "extend_early ms keep e = length ms"
  using assms
proof (induction ms keep e rule: extend_early.induct)
  case (1 ms keep e)
  show ?case
  proof (cases "e < length ms")
    case True
    moreover have "tool_message (previous_message ms e)"
      using "1.prems"(1) [of "e - 1"] "1.prems"(2) True by (simp add: previous_message_def)
    ultimately show ?thesis using 1 by (subst extend_early.simps) simp
  qed (use "1.prems" in \<open>simp add: extend_early.simps\<close>)
qed

text \<open>
  A short transcript over the limit that is all tool traffic between its first messages and its
  last one is not shortened: the early slice swallows the whole transcript, nothing is left out, and
  the last message appears a second time in the recent slice.
\<close>

theorem split_repeats_last:
  assumes "\<And>i. keep \<le> Suc i \<Longrightarrow> Suc i < length ms \<Longrightarrow> tool_message (ms ! i)"
    and "\<not> tool_message (last ms)" and "1 \<le> keep" and "keep \<le> length ms" and "length ms \<le> keep + 6"
    and "mx < int (length ms)"
  shows "split_session_messages_for_compaction ms mx keep =
    Some \<lparr>kept_early = ms, omitted_messages = [], kept_recent = [last ms],
          omitted_range = (length ms, length ms - 1)\<rparr>"
proof -
  have "ms \<noteq> []" using assms(3,4) by auto
  then obtain xs m where ms: "ms = xs @ [m]" by (metis rev_exhaust)
  have "extend_early ms keep (min keep (length ms)) = length ms"
    using extend_early_all [of keep ms keep] assms by (simp add: min_absorb1)
  then have "early_end_of ms keep = length ms"
    using assms(2) by (simp add: early_end_of_def ms)
  moreover have "safe_start_from 0 0 [m] = 0"
    using assms(2) by (simp add: ms tool_message_def)
  ultimately show ?thesis
    using assms(6) by (simp add: split_session_messages_for_compaction_def Let_def ms)
qed

definition ex_short :: "message list" where
  "ex_short = [ex_said USER ''fix it'', ex_tool_use ''a'', ex_tool_result ''a'', ex_said ASSISTANT ''done'']"

lemma split_repeats_last_witness:
  "map_option kept_recent (split_session_messages_for_compaction ex_short 3 2) = Some [last ex_short]
   \<and> map_option omitted_messages (split_session_messages_for_compaction ex_short 3 2) = Some []"
proof -
  have len: "length ex_short = 4" by (simp add: ex_short_def)
  have "list_all tool_message (take 2 (drop 1 ex_short))" and last: "\<not> tool_message (last ex_short)" by code_simp+
  then have tools: "tool_message (ex_short ! i)" if "2 \<le> Suc i" "Suc i < length ex_short" for i
  proof -
    have "i = 1 \<or> i = 2" using that len by auto
    then show ?thesis
      using \<open>list_all tool_message (take 2 (drop 1 ex_short))\<close> by (auto simp: ex_short_def numeral_2_eq_2)
  qed
  from split_repeats_last [of 2 ex_short 3] tools last len show ?thesis by auto
qed

end
