(* ===== verification/Checkpoints.thy ===== *)
theory Checkpoints
  imports Compaction Provider_Errors
begin

text \<open>
  Checkpoint compaction (\<open>systems/context/semantic_compaction.py\<close>): the deterministic checkpoint that
  is built from transcript excerpts, the checkpoint read from a semantic compactor's payload with
  its fallback, the message that carries it, and the plan that admission and execution share; and
  the durable thread handoff (\<open>systems/context/thread_handoff.py\<close>) built on the same checkpoint.
  SHA-256 is the argument \<open>digest\<close>. A semantic compactor is a function of the omitted messages and
  its context that answers a payload or the text of its exception. Values are JSON values, so
  \<open>_jsonable\<close> is the identity.
\<close>

section \<open>Text of a transcript\<close>

definition squeeze :: "string \<Rightarrow> string" where
  "squeeze s = py_join '' '' (py_words s)"

definition json_text :: "pyval \<Rightarrow> string" where
  "json_text v = json_dumps True '', '' '': '' v"

fun collect_texts :: "nat \<Rightarrow> string list \<Rightarrow> string list \<Rightarrow> string list" where
  "collect_texts limit acc [] = acc"
| "collect_texts limit acc (item # items) =
     (let t = squeeze item in
      if t = [] \<or> t \<in> set acc then collect_texts limit acc items
      else if limit \<le> length (acc @ [t]) then acc @ [t]
      else collect_texts limit (acc @ [t]) items)"

definition tuple_of_text :: "pyval \<Rightarrow> string list" where
  "tuple_of_text v = (case v of
       PyNone \<Rightarrow> []
     | PyStr s \<Rightarrow> collect_texts 20 [] [s]
     | PyDict d \<Rightarrow> collect_texts 20 [] [json_text v]
     | PyList xs \<Rightarrow> collect_texts 20 []
         (map py_str (filter (\<lambda>x. py_strip (py_str (py_or x (PyStr []))) \<noteq> []) xs))
     | _ \<Rightarrow> collect_texts 20 [] [py_str v])"

definition block_text :: "pyval \<Rightarrow> string list" where
  "block_text b = (case b of
       PyDict d \<Rightarrow>
         (if dget d ''type'' = PyStr ''text'' then [py_str (py_or (dget d ''text'') (PyStr []))]
          else if dget d ''type'' = PyStr ''tool_result'' then
            [case dget d ''content'' of PyStr s \<Rightarrow> s | c \<Rightarrow> json_text c]
          else if dget d ''type'' = PyStr ''tool_use'' then
            [''tool_use '' @ py_str (py_or (dget d ''name'') (PyStr ''tool'')) @ '': ''
             @ json_text (py_or (dget d ''input'') (PyDict []))]
          else [])
     | _ \<Rightarrow> [])"

definition content_text :: "pyval \<Rightarrow> nat \<Rightarrow> string" where
  "content_text c limit = (case c of
       PyStr s \<Rightarrow> take limit (squeeze s)
     | PyList bs \<Rightarrow> take limit (squeeze (py_join '' '' (concat (map block_text bs))))
     | _ \<Rightarrow> [])"

definition is_tool_result_content :: "pyval \<Rightarrow> bool" where
  "is_tool_result_content c = (case c of PyList bs \<Rightarrow> list_ex is_tool_result bs | _ \<Rightarrow> False)"

definition py_lstrip :: "string \<Rightarrow> string" where
  "py_lstrip s = dropWhile py_space s"

definition is_synthetic_user_text :: "string \<Rightarrow> bool" where
  "is_synthetic_user_text t =
     (py_startswith (py_lstrip t) ''[System:'' \<or> py_startswith (py_lstrip t) ''[Previous durable thread handoff]'')"

fun first_user_text :: "message list \<Rightarrow> string" where
  "first_user_text [] = []"
| "first_user_text (m # ms) =
     (if msg_role m \<noteq> USER then first_user_text ms
      else if is_tool_result_content (dget m ''content'') then first_user_text ms
      else
        (let t = content_text (dget m ''content'') 1000 in
         if is_synthetic_user_text t then first_user_text ms
         else if t \<noteq> [] then t else first_user_text ms))"

definition latest_user_text :: "message list \<Rightarrow> string" where
  "latest_user_text ms = first_user_text (rev ms)"

definition CONSTRAINT_TERMS :: "string list" where
  "CONSTRAINT_TERMS =
     [''must'', ''never'', ''do not'', ''don'' @ [char_of (39 :: nat)] @ ''t'', ''avoid'', ''required'',
      ''requirement'', ''constraint'', ''acceptance'', ''important'']"

fun constraint_loop :: "string list \<Rightarrow> message list \<Rightarrow> string list" where
  "constraint_loop acc [] = acc"
| "constraint_loop acc (m # ms) =
     (let t = content_text (dget m ''content'') 1500 in
      if t = [] then constraint_loop acc ms
      else if \<not> list_ex (contains_text (py_lower t)) CONSTRAINT_TERMS then constraint_loop acc ms
      else
        (let excerpt = py_strip (take 320 t);
             acc' = (if excerpt \<noteq> [] \<and> excerpt \<notin> set acc then acc @ [excerpt] else acc)
         in if 12 \<le> length acc' then acc' else constraint_loop acc' ms))"

definition extract_constraint_candidates :: "message list \<Rightarrow> string list" where
  "extract_constraint_candidates ms = constraint_loop [] ms"

text \<open>
  \<open>_PATH_RE\<close>: a match must start and end at the borders of a maximal run of path characters, and
  the run must be at least one character and one of the endings.
\<close>

definition path_char :: "char \<Rightarrow> bool" where
  "path_char c = (word_char c \<or> c \<in> {CHR ''.'', CHR ''/'', CHR ''-''})"

definition PATH_ENDINGS :: "string list" where
  "PATH_ENDINGS =
     [''.py'', ''.ts'', ''.tsx'', ''.svelte'', ''.js'', ''.jsx'', ''.json'', ''.md'', ''.toml'', ''.yml'', ''.yaml'',
      ''.sql'', ''.sh'', ''.rs'', ''.go'']"

definition py_endswith :: "string \<Rightarrow> string \<Rightarrow> bool" where
  "py_endswith s e = (length e \<le> length s \<and> drop (length s - length e) s = e)"

function path_runs :: "string \<Rightarrow> string list" where
  "path_runs s = (case dropWhile (\<lambda>c. \<not> path_char c) s of
       [] \<Rightarrow> []
     | c # cs \<Rightarrow> takeWhile path_char (c # cs) # path_runs (dropWhile path_char (c # cs)))"
  by pat_completeness auto
termination
proof (relation "measure length", simp)
  fix s :: string and c cs
  assume eq: "dropWhile (\<lambda>c. \<not> path_char c) s = c # cs"
  then have "path_char c" using hd_dropWhile [of "\<lambda>c. \<not> path_char c" s] by simp
  moreover have "length (dropWhile path_char cs) \<le> length cs" by (rule length_dropWhile_le)
  moreover have "length (c # cs) \<le> length s" by (metis eq length_dropWhile_le)
  ultimately show "(dropWhile path_char (c # cs), s) \<in> measure length" by simp
qed

declare path_runs.simps [simp del]

definition find_paths :: "string \<Rightarrow> string list" where
  "find_paths s = filter (\<lambda>r. list_ex (\<lambda>e. py_endswith r e \<and> length e < length r) PATH_ENDINGS) (path_runs s)"

fun path_loop :: "string list \<Rightarrow> string list \<Rightarrow> string list" where
  "path_loop acc [] = acc"
| "path_loop acc (p # ps) =
     (if p \<in> set acc then path_loop acc ps
      else if 20 \<le> length (acc @ [p]) then acc @ [p] else path_loop (acc @ [p]) ps)"

definition extract_paths :: "message list \<Rightarrow> string list" where
  "extract_paths ms = path_loop [] (concat (map (\<lambda>m. find_paths (content_text (dget m ''content'') 2000)) ms))"

section \<open>Checkpoints\<close>

record checkpoint =
  cp_active_objective :: string
  cp_user_constraints :: "string list"
  cp_completed_work :: "string list"
  cp_current_plan :: "string list"
  cp_files :: "string list"
  cp_decisions :: "string list"
  cp_failed_attempts :: "string list"
  cp_tool_results :: "string list"
  cp_open_questions :: "string list"
  cp_verification_status :: string
  cp_recent_user_intent :: string
  cp_risks :: "string list"
  cp_source :: string
  cp_schema_version :: int
  cp_metadata :: pydict

definition empty_checkpoint :: "string \<Rightarrow> checkpoint" where
  "empty_checkpoint source =
     \<lparr>cp_active_objective = [], cp_user_constraints = [], cp_completed_work = [], cp_current_plan = [],
      cp_files = [], cp_decisions = [], cp_failed_attempts = [], cp_tool_results = [], cp_open_questions = [],
      cp_verification_status = [], cp_recent_user_intent = [], cp_risks = [], cp_source = source,
      cp_schema_version = 1, cp_metadata = []\<rparr>"

definition checkpoint_of_payload :: "pyval \<Rightarrow> string \<Rightarrow> checkpoint result" where
  "checkpoint_of_payload payload source = (case payload of
       PyNone \<Rightarrow> Inr (empty_checkpoint source)
     | PyStr s \<Rightarrow> Inr ((empty_checkpoint source)\<lparr>cp_active_objective := squeeze s\<rparr>)
     | PyDict d \<Rightarrow>
         rbind (int_or_error (py_or (dget d ''schema_version'') (PyInt 1))) (\<lambda>version.
         rbind (dict_or_error (dget d ''metadata'')) (\<lambda>meta.
           Inr \<lparr>cp_active_objective = clean_text (dget d ''active_objective''),
                cp_user_constraints = tuple_of_text (dget d ''user_constraints''),
                cp_completed_work = tuple_of_text (dget d ''completed_work''),
                cp_current_plan = tuple_of_text (dget d ''current_plan''),
                cp_files = tuple_of_text (py_or (dget d ''files_or_objects_touched'') (dget d ''files_touched'')),
                cp_decisions = tuple_of_text (dget d ''decisions''),
                cp_failed_attempts = tuple_of_text (dget d ''failed_attempts''),
                cp_tool_results = tuple_of_text (dget d ''important_tool_results''),
                cp_open_questions = tuple_of_text (dget d ''open_questions''),
                cp_verification_status = clean_text (dget d ''verification_status''),
                cp_recent_user_intent = clean_text (dget d ''recent_user_intent''),
                cp_risks = tuple_of_text (dget d ''risks_or_unknowns''),
                cp_source = source, cp_schema_version = version, cp_metadata = meta\<rparr>))
     | _ \<Rightarrow> Inl AttributeError)"

definition str_list :: "string list \<Rightarrow> pyval" where
  "str_list xs = PyList (map PyStr xs)"

definition checkpoint_payload :: "checkpoint \<Rightarrow> pydict" where
  "checkpoint_payload c =
     [(''schema_version'', PyInt (cp_schema_version c)), (''source'', PyStr (cp_source c)),
      (''active_objective'', PyStr (cp_active_objective c)),
      (''user_constraints'', str_list (cp_user_constraints c)),
      (''completed_work'', str_list (cp_completed_work c)),
      (''current_plan'', str_list (cp_current_plan c)),
      (''files_or_objects_touched'', str_list (cp_files c)),
      (''decisions'', str_list (cp_decisions c)),
      (''failed_attempts'', str_list (cp_failed_attempts c)),
      (''important_tool_results'', str_list (cp_tool_results c)),
      (''open_questions'', str_list (cp_open_questions c)),
      (''verification_status'', PyStr (cp_verification_status c)),
      (''recent_user_intent'', PyStr (cp_recent_user_intent c)),
      (''risks_or_unknowns'', str_list (cp_risks c)),
      (''metadata'', PyDict (cp_metadata c))]"

definition checkpoint_digest :: "(string \<Rightarrow> string) \<Rightarrow> checkpoint \<Rightarrow> string" where
  "checkpoint_digest digest c = take 24 (digest (json_text (PyDict (checkpoint_payload c))))"

definition deterministic_checkpoint_from_messages ::
  "message list \<Rightarrow> message list \<Rightarrow> string \<Rightarrow> string \<Rightarrow> string option \<Rightarrow> checkpoint result" where
  "deterministic_checkpoint_from_messages omitted recent session_id phase fallback_error =
     rbind (summarize_trimmed_messages omitted) (\<lambda>summary.
       (let recent_intent = latest_user_text recent;
            intent = (if recent_intent \<noteq> [] then recent_intent else latest_user_text omitted);
            risks = [''Semantic compactor unavailable; checkpoint was built from deterministic transcript excerpts.'']
              @ (case fallback_error of
                   None \<Rightarrow> []
                 | Some e \<Rightarrow> if e = [] then [] else [''Semantic compactor failed: '' @ take 240 e])
        in Inr \<lparr>cp_active_objective = take 500 intent,
                cp_user_constraints = extract_constraint_candidates omitted,
                cp_completed_work = [summary], cp_current_plan = [], cp_files = extract_paths omitted,
                cp_decisions = [], cp_failed_attempts = [], cp_tool_results = [], cp_open_questions = [],
                cp_verification_status = ''unknown'',
                cp_recent_user_intent = take 500 (if recent_intent \<noteq> [] then recent_intent else intent),
                cp_risks = risks, cp_source = ''deterministic_fallback'', cp_schema_version = 1,
                cp_metadata =
                  [(''session_id'', PyStr session_id), (''phase'', PyStr phase),
                   (''omitted_message_count'', PyInt (int (length omitted))),
                   (''latest_user_intent_source'',
                     PyStr (if recent_intent \<noteq> [] then ''recent_messages'' else ''omitted_messages''))]\<rparr>))"

type_synonym semantic_compactor = "message list \<Rightarrow> pydict \<Rightarrow> string + pyval"

definition checkpoint_schema :: pydict where
  "checkpoint_schema =
     (let s = PyStr ''string''; l = PyList [PyStr ''string''] in
      [(''active_objective'', s), (''user_constraints'', l), (''completed_work'', l), (''current_plan'', l),
       (''files_or_objects_touched'', l), (''decisions'', l), (''failed_attempts'', l),
       (''important_tool_results'', l), (''open_questions'', l), (''verification_status'', s),
       (''recent_user_intent'', s), (''risks_or_unknowns'', l)])"

text \<open>
  \<open>exc_text\<close> renders the exceptions that reading a payload can raise; the second component of the
  answer is the error text when the fallback was taken.
\<close>

definition build_compaction_checkpoint ::
  "(py_error \<Rightarrow> string) \<Rightarrow> message list \<Rightarrow> message list \<Rightarrow> string \<Rightarrow> string \<Rightarrow> semantic_compactor option \<Rightarrow>
   (checkpoint \<times> string option) result" where
  "build_compaction_checkpoint exc_text omitted recent session_id phase sc =
     (case sc of
        None \<Rightarrow> rbind (deterministic_checkpoint_from_messages omitted recent session_id phase None)
                  (\<lambda>c. Inr (c, None))
      | Some f \<Rightarrow>
          (let context = [(''session_id'', PyStr session_id), (''phase'', PyStr phase),
                 (''recent_messages'', messages_value recent), (''schema'', PyDict checkpoint_schema)];
               semantic = (case f omitted context of
                   Inl e \<Rightarrow> Inl e
                 | Inr payload \<Rightarrow>
                     (case checkpoint_of_payload payload ''semantic_compactor'' of
                        Inl e \<Rightarrow> Inl (exc_text e)
                      | Inr c \<Rightarrow> Inr (c\<lparr>cp_recent_user_intent :=
                            (if cp_recent_user_intent c \<noteq> [] then cp_recent_user_intent c
                             else take 500 (latest_user_text recent)),
                          cp_metadata := dmerge (cp_metadata c)
                            [(''session_id'', PyStr session_id), (''phase'', PyStr phase),
                             (''omitted_message_count'', PyInt (int (length omitted)))]\<rparr>)))
           in case semantic of
                Inr c \<Rightarrow> Inr (c, None)
              | Inl e \<Rightarrow> rbind (deterministic_checkpoint_from_messages omitted recent session_id phase (Some e))
                           (\<lambda>c. Inr (c, Some e))))"

text \<open>\<open>json.dumps(v, sort_keys=True, indent=2)\<close>\<close>

definition indent_line :: "nat \<Rightarrow> string" where
  "indent_line n = newline @ replicate n (CHR '' '')"

fun json_pretty :: "nat \<Rightarrow> pyval \<Rightarrow> string" where
  "json_pretty n (PyList xs) =
     (if xs = [] then ''[]''
      else ''['' @ indent_line (n + 2) @ py_join ('','' @ indent_line (n + 2)) (map (json_pretty (n + 2)) xs)
           @ indent_line n @ '']'')"
| "json_pretty n (PyDict d) =
     (if d = [] then ''{}''
      else (let kvs = sort_key fst (map (map_prod id (json_pretty (n + 2))) d) in
            ''{'' @ indent_line (n + 2)
            @ py_join ('','' @ indent_line (n + 2)) (map (\<lambda>(k, s). json_string k @ '': '' @ s) kvs)
            @ indent_line n @ ''}''))"
| "json_pretty n v = json_dumps True '', '' '': '' v"

definition checkpoint_message :: "(string \<Rightarrow> string) \<Rightarrow> checkpoint \<Rightarrow> nat \<Rightarrow> message" where
  "checkpoint_message digest c n =
     (let payload = dset (checkpoint_payload c) ''checkpoint_digest'' (PyStr (checkpoint_digest digest c)) in
      [(''role'', USER),
       (''content'', PyStr (''[System: Context compaction checkpoint. ''
          @ show_int (int n) @ '' older messages were summarized to preserve the current task state. ''
          @ ''Continue from this checkpoint plus the raw recent turns. The final raw user message after this ''
          @ ''checkpoint is the current request and supersedes any older objective in the checkpoint. ''
          @ ''Do not claim certainty about omitted details.'' @ newline
          @ json_pretty 0 (PyDict payload) @ '']''))])"

section \<open>The plan\<close>

record compaction_plan =
  pl_messages :: "message list"
  pl_report :: compaction_report
  pl_estimated_tokens :: int

text \<open>The keyword arguments of \<open>plan_session_compaction\<close>.\<close>

record plan_options =
  po_token_limit :: int
  po_target_tokens :: "int option"
  po_session_id :: string
  po_phase :: string
  po_system :: pyval
  po_tools :: pyval
  po_keep_early :: nat
  po_max_messages :: int
  po_min_messages :: int
  po_force :: bool
  po_emergency :: bool

definition plan_strategy :: "bool \<Rightarrow> string \<Rightarrow> string" where
  "plan_strategy emergency source =
     (let st = (if source = ''semantic_compactor'' then ''semantic_checkpoint'' else ''structured_checkpoint_fallback'')
      in if emergency then ''emergency_'' @ st else st)"

definition plan_summary :: "checkpoint \<Rightarrow> string" where
  "plan_summary c =
     (if cp_active_objective c \<noteq> [] then cp_active_objective c
      else if cp_recent_user_intent c \<noteq> [] then cp_recent_user_intent c else ''Context checkpoint created.'')"

text \<open>One turn of the loop over the limits: none when the window leaves nothing out.\<close>

definition attempt_limit ::
  "(string \<Rightarrow> string) \<Rightarrow> (py_error \<Rightarrow> string) \<Rightarrow> semantic_compactor option \<Rightarrow> plan_options \<Rightarrow> message list \<Rightarrow>
   int \<Rightarrow> int \<Rightarrow> int \<Rightarrow> compaction_plan option result" where
  "attempt_limit digest exc_text sc po ms original target limit =
     (case split_session_messages_for_compaction ms limit (po_keep_early po) of
        None \<Rightarrow> Inr None
      | Some w \<Rightarrow>
          (if omitted_messages w = [] then Inr None
           else
             rbind (build_compaction_checkpoint exc_text (omitted_messages w) (kept_recent w)
                      (po_session_id po) (po_phase po) sc) (\<lambda>(c, err).
               (let n = length (omitted_messages w);
                    compacted = sanitize_tool_pairs (kept_early w @ [checkpoint_message digest c n] @ kept_recent w);
                    est = estimate_session_tokens compacted (po_system po) (po_tools po);
                    report = \<lparr>original_count = int (length ms), kept_count = int (length compacted),
                        omitted_count = int n, rp_summary = plan_summary c,
                        rp_strategy = plan_strategy (po_emergency po) (cp_source c),
                        rp_provenance =
                          [(''session_id'', PyStr (po_session_id po)), (''phase'', PyStr (po_phase po)),
                           (''token_limit'', PyInt (po_token_limit po)), (''target_tokens'', PyInt target),
                           (''original_estimated_tokens'', PyInt original), (''final_estimated_tokens'', PyInt est),
                           (''message_limit'', PyInt limit),
                           (''omitted_range'', PyList [PyInt (int (fst (omitted_range w))),
                                                      PyInt (int (snd (omitted_range w)))]),
                           (''tool_pair_safe'', PyBool True), (''checkpoint_source'', PyStr (cp_source c)),
                           (''checkpoint_schema_version'', PyInt (cp_schema_version c)),
                           (''checkpoint_digest'', PyStr (checkpoint_digest digest c)),
                           (''semantic_fallback_error'', opt_str err),
                           (''force'', PyBool (po_force po)), (''emergency'', PyBool (po_emergency po))]\<rparr>
                in Inr (Some \<lparr>pl_messages = compacted, pl_report = report, pl_estimated_tokens = est\<rparr>)))))"

fun attempt_limits ::
  "(int \<Rightarrow> compaction_plan option result) \<Rightarrow> int \<Rightarrow> compaction_plan option \<Rightarrow> int list \<Rightarrow>
   compaction_plan option result" where
  "attempt_limits attempt target best [] = Inr best"
| "attempt_limits attempt target best (l # ls) =
     rbind (attempt l) (\<lambda>r. case r of
         None \<Rightarrow> attempt_limits attempt target best ls
       | Some p \<Rightarrow> if pl_estimated_tokens p \<le> target then Inr (Some p)
                   else attempt_limits attempt target (Some p) ls)"

definition plan_session_compaction ::
  "(string \<Rightarrow> string) \<Rightarrow> (py_error \<Rightarrow> string) \<Rightarrow> semantic_compactor option \<Rightarrow> plan_options \<Rightarrow> message list \<Rightarrow>
   compaction_plan result" where
  "plan_session_compaction digest exc_text sc po ms =
     (let n = int (length ms);
          original = estimate_session_tokens ms (po_system po) (po_tools po)
      in if \<not> po_force po \<and> (po_token_limit po \<le> 0 \<or> original \<le> po_token_limit po) then
           Inr \<lparr>pl_messages = ms,
                pl_report = unchanged_report n ''No compaction required.'' ''semantic_checkpoint''
                  [(''session_id'', PyStr (po_session_id po)), (''phase'', PyStr (po_phase po)),
                   (''token_limit'', PyInt (po_token_limit po)), (''target_tokens'', opt_int (po_target_tokens po)),
                   (''original_estimated_tokens'', PyInt original), (''final_estimated_tokens'', PyInt original),
                   (''summary_source'', PyStr ''none'')],
                pl_estimated_tokens = original\<rparr>
         else
           (let target = target_or (po_target_tokens po) (max 1 (po_token_limit po * 7 div 10)) in
            rbind (attempt_limits (attempt_limit digest exc_text sc po ms original target) target None
                     (candidate_limits (length ms) (po_max_messages po) (po_min_messages po)))
              (\<lambda>best. Inr (case best of
                 None \<Rightarrow>
                   \<lparr>pl_messages = ms,
                    pl_report = unchanged_report n
                      ''No safe transcript messages were eligible for checkpoint compaction.''
                      (if po_emergency po then ''emergency_checkpoint_unavailable'' else ''checkpoint_unavailable'')
                      [(''session_id'', PyStr (po_session_id po)), (''phase'', PyStr (po_phase po)),
                       (''token_limit'', PyInt (po_token_limit po)), (''target_tokens'', PyInt target),
                       (''original_estimated_tokens'', PyInt original), (''final_estimated_tokens'', PyInt original),
                       (''force'', PyBool (po_force po)), (''emergency'', PyBool (po_emergency po))],
                    pl_estimated_tokens = original\<rparr>
               | Some p \<Rightarrow> p\<lparr>pl_report := (pl_report p)\<lparr>rp_provenance :=
                     dmerge (rp_provenance (pl_report p))
                       [(''final_estimated_tokens'', PyInt (pl_estimated_tokens p))]\<rparr>\<rparr>))))"

section \<open>Thread handoffs\<close>

record thread_handoff =
  th_checkpoint :: checkpoint
  th_message_count :: int
  th_source :: string
  th_schema_version :: int
  th_previous_message_count :: int
  th_metadata :: pydict

definition handoff_count :: "pyval \<Rightarrow> int" where
  "handoff_count v = (case py_int (py_or v (PyInt 0)) of None \<Rightarrow> 0 | Some i \<Rightarrow> max 0 i)"

definition handoff_of_payload :: "pyval \<Rightarrow> thread_handoff option result" where
  "handoff_of_payload payload = (case payload of
       PyDict d \<Rightarrow>
         (let source = py_str (py_or (dget d ''source'') (PyStr ''stored_handoff''));
              cp = (if is_dict (dget d ''checkpoint'') then dget d ''checkpoint'' else payload)
          in rbind (checkpoint_of_payload cp source) (\<lambda>c.
             rbind (int_or_error (py_or (dget d ''schema_version'') (PyInt 1))) (\<lambda>version.
             rbind (dict_or_error (dget d ''metadata'')) (\<lambda>meta.
               Inr (Some \<lparr>th_checkpoint = c, th_message_count = handoff_count (dget d ''message_count''),
                 th_source = py_str (py_or (dget d ''source'')
                    (py_or (PyStr (cp_source c)) (PyStr ''stored_handoff''))),
                 th_schema_version = version,
                 th_previous_message_count = handoff_count (dget d ''previous_message_count''),
                 th_metadata = meta\<rparr>)))))
     | _ \<Rightarrow> Inr None)"

definition handoff_body :: "thread_handoff \<Rightarrow> pydict" where
  "handoff_body h =
     [(''schema_version'', PyInt (th_schema_version h)), (''source'', PyStr (th_source h)),
      (''message_count'', PyInt (th_message_count h)),
      (''previous_message_count'', PyInt (th_previous_message_count h)),
      (''checkpoint'', PyDict (checkpoint_payload (th_checkpoint h))),
      (''metadata'', PyDict (th_metadata h))]"

definition handoff_payload :: "(string \<Rightarrow> string) \<Rightarrow> thread_handoff \<Rightarrow> pydict" where
  "handoff_payload digest h =
     dset (handoff_body h) ''digest'' (PyStr (take 24 (digest (json_text (PyDict (handoff_body h))))))"

definition handoff_digest :: "(string \<Rightarrow> string) \<Rightarrow> thread_handoff \<Rightarrow> string" where
  "handoff_digest digest h = py_str (dget (handoff_payload digest h) ''digest'')"

text \<open>The previous handoff as the code receives it: resolved, or a payload still to be read.\<close>

definition build_thread_handoff ::
  "(string \<Rightarrow> string) \<Rightarrow> (py_error \<Rightarrow> string) \<Rightarrow> thread_handoff + pyval \<Rightarrow> message list \<Rightarrow> int \<Rightarrow> string \<Rightarrow> string \<Rightarrow>
   semantic_compactor option \<Rightarrow> int option \<Rightarrow> (thread_handoff \<times> string option) result" where
  "build_thread_handoff digest exc_text previous since total_count session_id phase sc run_id =
     rbind (case previous of Inl h \<Rightarrow> Inr (Some h) | Inr v \<Rightarrow> handoff_of_payload v) (\<lambda>prev.
       (let synthetic = (case prev of
              None \<Rightarrow> []
            | Some h \<Rightarrow> [[(''role'', USER),
                 (''content'', PyStr (''[Previous durable thread handoff]'' @ newline
                    @ json_text (PyDict (handoff_payload digest h))))]]);
            recent = drop (length since - 8) since
        in rbind (build_compaction_checkpoint exc_text (synthetic @ since) recent session_id phase sc) (\<lambda>(c, err).
             (let summary_source = py_str (py_or (dget (cp_metadata c) ''summary_source'') (PyStr []));
                  source = (if summary_source = ''llm_thread_handoff_compactor'' then ''llm_thread_handoff_compactor''
                            else if cp_source c = ''semantic_compactor'' then ''semantic_compactor''
                            else ''deterministic_fallback'')
              in Inr (\<lparr>th_checkpoint = c, th_message_count = max 0 total_count, th_source = source,
                   th_schema_version = 1,
                   th_previous_message_count = (case prev of None \<Rightarrow> 0 | Some h \<Rightarrow> th_message_count h),
                   th_metadata =
                     [(''session_id'', PyStr session_id), (''phase'', PyStr phase), (''run_id'', opt_int run_id),
                      (''messages_summarized_this_update'', PyInt (int (length since))),
                      (''previous_handoff_digest'',
                        case prev of None \<Rightarrow> PyNone | Some h \<Rightarrow> PyStr (handoff_digest digest h))]\<rparr>, err)))))"

text \<open>\<open>messages[-n:]\<close>: the whole list for \<open>n = 0\<close>, all but the first \<open>- n\<close> messages below.\<close>

definition py_tail :: "int \<Rightarrow> 'a list \<Rightarrow> 'a list" where
  "py_tail n xs = (if 0 < n then drop (length xs - nat n) xs else drop (nat (- n)) xs)"

definition recent_raw_messages_for_handoff :: "message list \<Rightarrow> int \<Rightarrow> message list" where
  "recent_raw_messages_for_handoff ms mx =
     (if int (length ms) \<le> mx then ms
      else (case split_session_messages_for_compaction ms (mx + 3) 2 of
              None \<Rightarrow> py_tail mx ms
            | Some w \<Rightarrow> kept_recent w))"

definition handoff_prefix :: "bool \<Rightarrow> string" where
  "handoff_prefix historical =
     (if historical then
        ''[System: Historical thread handoff summary from previous runs. ''
        @ ''Use this only as compact historical context. Source priority: ''
        @ ''historical_thread_context < scheduled Cycle result_contract and Cycle Mission. ''
        @ ''This summary is not the current user request. Never infer the current ''
        @ ''scheduled-run intent from active_objective, recent_user_intent, completed_work, ''
        @ ''or any preview text in this summary when a scheduled result_contract is present. ''
        @ ''Prefer the current scheduled Cycle prompt appended after this context, and call ''
        @ ''read_thread_messages if an older exact detail matters.'' @ newline
      else
        ''[System: Durable thread handoff summary from previous runs. ''
        @ ''Use this as compact prior context, prefer the raw recent messages below for fresh details, ''
        @ ''treat later raw user messages as authoritative when they conflict with the summary, ''
        @ ''and call read_thread_messages if an older exact detail matters.'' @ newline)"

definition thread_handoff_message ::
  "(string \<Rightarrow> string) \<Rightarrow> thread_handoff \<Rightarrow> int \<Rightarrow> int \<Rightarrow> bool \<Rightarrow> message" where
  "thread_handoff_message digest h raw_count recent_count historical =
     (let payload = dset (dset (handoff_payload digest h) ''raw_message_count'' (PyInt raw_count))
            ''recent_raw_message_count'' (PyInt recent_count)
      in [(''role'', USER), (''content'', PyStr (handoff_prefix historical @ json_pretty 0 (PyDict payload) @ '']''))])"

definition build_thread_handoff_context_messages ::
  "(string \<Rightarrow> string) \<Rightarrow> message list \<Rightarrow> thread_handoff + pyval \<Rightarrow> int \<Rightarrow> bool \<Rightarrow> message list result" where
  "build_thread_handoff_context_messages digest ms handoff mx historical =
     rbind (case handoff of Inl h \<Rightarrow> Inr (Some h) | Inr v \<Rightarrow> handoff_of_payload v) (\<lambda>resolved.
       (let recent = recent_raw_messages_for_handoff ms mx in
        Inr (case resolved of
               None \<Rightarrow> recent
             | Some h \<Rightarrow> thread_handoff_message digest h (int (length ms)) (int (length recent)) historical # recent)))"

section \<open>Searching the limits\<close>

text \<open>
  The search over message limits, against the interface of one attempt: whatever an attempt
  promises of its plan holds of the plan the search answers, and a search that misses the target
  has seen every limit miss it.
\<close>

locale limit_search =
  fixes attempt :: "int \<Rightarrow> compaction_plan option result"
    and good :: "compaction_plan \<Rightarrow> bool"
  assumes attempt_good: "attempt l = Inr (Some p) \<Longrightarrow> good p"
begin

lemma search_good:
  "attempt_limits attempt target best ls = Inr (Some p) \<Longrightarrow> pred_option good best \<Longrightarrow> good p"
  by (induction ls arbitrary: best)
    (auto simp: rbind_Inr_iff attempt_good split: option.splits if_splits)

lemma search_exhaustive:
  "attempt_limits attempt target best ls = Inr r \<Longrightarrow> pred_option (\<lambda>p. target < pl_estimated_tokens p) best \<Longrightarrow>
   pred_option (\<lambda>p. target < pl_estimated_tokens p) r \<Longrightarrow> l \<in> set ls \<Longrightarrow> attempt l = Inr (Some q) \<Longrightarrow>
   target < pl_estimated_tokens q"
proof (induction ls arbitrary: best)
  case (Cons k ls)
  show ?case
  proof (cases "l = k")
    case True
    with Cons.prems show ?thesis by (cases "pl_estimated_tokens q \<le> target") auto
  next
    case False
    then show ?thesis using Cons.prems Cons.IH
      by (auto simp: rbind_Inr_iff split: option.splits if_splits)
  qed
qed simp

end

text \<open>What one attempt promises: a window with something left out, replaced by its checkpoint.\<close>

definition checkpointed ::
  "(string \<Rightarrow> string) \<Rightarrow> plan_options \<Rightarrow> message list \<Rightarrow> compaction_plan \<Rightarrow> bool" where
  "checkpointed digest po ms p =
     (tool_paired (pl_messages p)
      \<and> pl_estimated_tokens p = estimate_session_tokens (pl_messages p) (po_system po) (po_tools po)
      \<and> (\<exists>w c. clean_window ms w \<and> omitted_messages w \<noteq> []
          \<and> omitted_count (pl_report p) = int (length (omitted_messages w))
          \<and> concat (map plain_blocks (pl_messages p)) = concat (map plain_blocks
              (kept_early w @ [checkpoint_message digest c (length (omitted_messages w))] @ kept_recent w))))"

lemma attempt_checkpointed:
  assumes "attempt_limit digest exc sc po ms original target l = Inr (Some p)"
  shows "checkpointed digest po ms p"
proof -
  obtain w where w: "split_session_messages_for_compaction ms l (po_keep_early po) = Some w"
    and some: "omitted_messages w \<noteq> []"
    using assms by (auto simp: attempt_limit_def split: option.splits if_splits)
  then obtain c where c: "pl_messages p = sanitize_tool_pairs (kept_early w
        @ [checkpoint_message digest c (length (omitted_messages w))] @ kept_recent w)"
    and r: "omitted_count (pl_report p) = int (length (omitted_messages w))"
    and e: "pl_estimated_tokens p = estimate_session_tokens (pl_messages p) (po_system po) (po_tools po)"
    using assms by (auto simp: attempt_limit_def rbind_Inr_iff Let_def)
  have "tool_paired (pl_messages p)" unfolding c by (rule sanitized_paired)
  moreover have "concat (map plain_blocks (pl_messages p)) = concat (map plain_blocks
      (kept_early w @ [checkpoint_message digest c (length (omitted_messages w))] @ kept_recent w))"
    unfolding c by (rule sanitized_plain)
  ultimately show ?thesis
    using split_clean [OF w some] some r e unfolding checkpointed_def by blast
qed

interpretation plan_search: limit_search "attempt_limit digest exc sc po ms original target" "checkpointed digest po ms"
  for digest exc sc po ms original target
  by unfold_locales (rule attempt_checkpointed)

lemma checkpointed_report [simp]:
  "checkpointed digest po ms (p\<lparr>pl_report := (pl_report p)\<lparr>rp_provenance := v\<rparr>\<rparr>) = checkpointed digest po ms p"
  by (simp add: checkpointed_def)

text \<open>
  C17: a plan is honest and safe. Either it leaves the transcript as it is and says so, or it is
  the early slice, a checkpoint and the recent slice of a clean window, with tool pairs intact and
  every other block of the two slices kept; its token estimate is that of its own messages.
\<close>

theorem plan_sound:
  assumes "plan_session_compaction digest exc sc po ms = Inr p"
  shows "pl_estimated_tokens p = estimate_session_tokens (pl_messages p) (po_system po) (po_tools po)
    \<and> (if omitted_count (pl_report p) = 0 then pl_messages p = ms else checkpointed digest po ms p)"
proof (cases "pl_messages p = ms \<and> omitted_count (pl_report p) = 0
    \<and> pl_estimated_tokens p = estimate_session_tokens ms (po_system po) (po_tools po)")
  case False
  then obtain target q where q: "attempt_limits (attempt_limit digest exc sc po ms
        (estimate_session_tokens ms (po_system po) (po_tools po)) target) target None
        (candidate_limits (length ms) (po_max_messages po) (po_min_messages po)) = Inr (Some q)"
    and p: "\<exists>v. p = q\<lparr>pl_report := (pl_report q)\<lparr>rp_provenance := v\<rparr>\<rparr>"
    using assms
    by (auto simp: plan_session_compaction_def Let_def rbind_Inr_iff unchanged_report_def split: if_splits option.splits)
  from plan_search.search_good [OF q] p have good: "checkpointed digest po ms p" by auto
  then have "omitted_count (pl_report p) \<noteq> 0" by (auto simp: checkpointed_def)
  with good show ?thesis by (simp add: checkpointed_def)
qed simp

text \<open>
  The search for a limit is complete: when a forced plan misses its target, no message limit
  that the search may use yields a plan that meets it.
\<close>

theorem plan_search_complete:
  assumes "plan_session_compaction digest exc sc po ms = Inr p" and "po_force po"
    and "target = target_or (po_target_tokens po) (max 1 (po_token_limit po * 7 div 10))"
    and "omitted_count (pl_report p) = 0 \<or> target < pl_estimated_tokens p"
    and "l \<in> set (candidate_limits (length ms) (po_max_messages po) (po_min_messages po))"
    and "attempt_limit digest exc sc po ms (estimate_session_tokens ms (po_system po) (po_tools po)) target l = Inr (Some q)"
  shows "target < pl_estimated_tokens q"
proof -
  obtain r where r: "attempt_limits (attempt_limit digest exc sc po ms
        (estimate_session_tokens ms (po_system po) (po_tools po)) target) target None
        (candidate_limits (length ms) (po_max_messages po) (po_min_messages po)) = Inr r"
    and p: "\<And>q'. r = Some q' \<Longrightarrow> pl_estimated_tokens p = pl_estimated_tokens q'
        \<and> omitted_count (pl_report p) = omitted_count (pl_report q')"
    using assms(1,2) by (auto simp: plan_session_compaction_def Let_def rbind_Inr_iff assms(3) [symmetric])
  have "pred_option (\<lambda>p. target < pl_estimated_tokens p) r"
  proof (cases r)
    case (Some q')
    then have "checkpointed digest po ms q'" using plan_search.search_good r by fastforce
    then have "omitted_count (pl_report q') \<noteq> 0" by (auto simp: checkpointed_def)
    with Some p assms(4) show ?thesis by auto
  qed simp
  from plan_search.search_exhaustive [OF r _ this assms(5,6)] show ?thesis by simp
qed

lemma attempt_succeeds:
  assumes "split_session_messages_for_compaction ms l (po_keep_early po) = Some w" and "omitted_messages w \<noteq> []"
    and "summarize_trimmed_messages (omitted_messages w) = Inr summary"
  shows "\<exists>p. attempt_limit digest exc None po ms original target l = Inr (Some p)
    \<and> omitted_count (pl_report p) = int (length (omitted_messages w))"
  using assms by (simp add: attempt_limit_def build_compaction_checkpoint_def deterministic_checkpoint_from_messages_def Let_def)

lemma estimate_nonneg: "0 \<le> estimate_session_tokens ms system tools"
proof -
  have "0 \<le> estimate_context_tokens v" for v
    by (auto simp: estimate_context_tokens_def Let_def intro: max.coboundedI1)
  then show ?thesis by (simp add: estimate_session_tokens_def)
qed

definition ex_options :: plan_options where
  "ex_options = \<lparr>po_token_limit = 100, po_target_tokens = Some (- 1), po_session_id = ''s'', po_phase = ''p'',
     po_system = PyNone, po_tools = PyNone, po_keep_early = 2, po_max_messages = 4, po_min_messages = 4,
     po_force = True, po_emergency = False\<rparr>"

lemma ex_options_simps [simp]:
  "po_force ex_options" "po_target_tokens ex_options = Some (- 1)" "po_max_messages ex_options = 4"
  "po_min_messages ex_options = 4" "po_keep_early ex_options = 2"
  "po_system ex_options = PyNone" "po_tools ex_options = PyNone"
  by (simp_all add: ex_options_def)

lemma ex_plan:
  "\<exists>p q. plan_session_compaction digest exc None ex_options ex_transcript = Inr p
    \<and> attempt_limit digest exc None ex_options ex_transcript
        (estimate_session_tokens ex_transcript PyNone PyNone) (- 1) 4 = Inr (Some q)
    \<and> omitted_count (pl_report p) = 10 \<and> pl_estimated_tokens p = pl_estimated_tokens q"
proof -
  have "map_option (length \<circ> omitted_messages) (split_session_messages_for_compaction ex_transcript 4 2) = Some 10"
    by code_simp
  then obtain w where w: "split_session_messages_for_compaction ex_transcript 4 2 = Some w" "length (omitted_messages w) = 10"
    by auto
  have "map_option (\<lambda>w. isl (summarize_trimmed_messages (omitted_messages w)))
      (split_session_messages_for_compaction ex_transcript 4 2) = Some False"
    by code_simp
  with w obtain summary where "summarize_trimmed_messages (omitted_messages w) = Inr summary"
    by (cases "summarize_trimmed_messages (omitted_messages w)") auto
  with attempt_succeeds [of ex_transcript 4 ex_options w summary digest exc
      "estimate_session_tokens ex_transcript PyNone PyNone" "- 1"] w
  obtain q where q: "attempt_limit digest exc None ex_options ex_transcript
        (estimate_session_tokens ex_transcript PyNone PyNone) (- 1) 4 = Inr (Some q)"
    "omitted_count (pl_report q) = 10" by force
  have "candidate_limits (length ex_transcript) 4 4 = [4]" by code_simp
  with q show ?thesis
    by (simp add: plan_session_compaction_def Let_def target_or_def)
qed

lemma plan_sound_witness:
  "\<exists>p. plan_session_compaction id (\<lambda>e. ''error'') None ex_options ex_transcript = Inr p
     \<and> checkpointed id ex_options ex_transcript p"
  using ex_plan [of id "\<lambda>e. ''error''"] plan_sound [of id "\<lambda>e. ''error''" None ex_options ex_transcript] by fastforce

lemma plan_search_complete_witness:
  "\<exists>q. attempt_limit id (\<lambda>e. ''error'') None ex_options ex_transcript
         (estimate_session_tokens ex_transcript PyNone PyNone) (- 1) 4 = Inr (Some q) \<and> - 1 < pl_estimated_tokens q"
proof -
  from ex_plan [of id "\<lambda>e. ''error''"] obtain p q
    where p: "plan_session_compaction id (\<lambda>e. ''error'') None ex_options ex_transcript = Inr p"
      and q: "attempt_limit id (\<lambda>e. ''error'') None ex_options ex_transcript
         (estimate_session_tokens ex_transcript PyNone PyNone) (- 1) 4 = Inr (Some q)"
      and same: "pl_estimated_tokens p = pl_estimated_tokens q"
    by blast
  have "4 \<in> set (candidate_limits (length ex_transcript) (po_max_messages ex_options) (po_min_messages ex_options))"
    by code_simp
  moreover have "- 1 < pl_estimated_tokens p"
  proof -
    have "checkpointed id ex_options ex_transcript q" by (rule attempt_checkpointed [OF q])
    then show ?thesis
      using same estimate_nonneg [of "pl_messages q" PyNone PyNone] by (simp add: checkpointed_def)
  qed
  moreover have "- 1 = target_or (po_target_tokens ex_options) (max 1 (po_token_limit ex_options * 7 div 10))"
    by (simp add: target_or_def)
  moreover have "attempt_limit id (\<lambda>e. ''error'') None ex_options ex_transcript
      (estimate_session_tokens ex_transcript (po_system ex_options) (po_tools ex_options)) (- 1) 4 = Inr (Some q)"
    using q by simp
  ultimately show ?thesis
    using plan_search_complete [OF p, of "- 1" 4 q] q by (metis ex_options_simps(1))
qed

section \<open>The recent slice of a handoff\<close>

text \<open>
  When the transcript is more than three messages over the limit, the raw messages that follow a
  handoff are a suffix of it that starts with no orphaned tool result and no unanswered call.
\<close>

theorem handoff_recent_safe:
  assumes "0 \<le> mx" and "mx + 3 < int (length ms)"
  shows "safe_slice (recent_raw_messages_for_handoff ms mx)
    \<and> (\<exists>old. ms = old @ recent_raw_messages_for_handoff ms mx \<and> old \<noteq> [])"
proof -
  obtain w where w: "split_session_messages_for_compaction ms (mx + 3) 2 = Some w"
    using assms by (simp add: split_session_messages_for_compaction_def Let_def)
  from split_eq [OF w] obtain r where safe: "safe_slice (drop r ms)"
    and r: "recent_start ms (mx + 3) (early_end_of ms 2) \<le> r" and w': "w = window_of ms (early_end_of ms 2) r" .
  have "0 < r" using r assms early_end_props(1) [of ms 2] by (simp add: recent_start_def)
  with safe w w' assms show ?thesis
    by (auto simp: recent_raw_messages_for_handoff_def window_of_def intro!: exI [of _ "take r ms"])
qed

lemma handoff_recent_safe_witness:
  "safe_slice (recent_raw_messages_for_handoff ex_transcript 4)"
proof -
  have "4 + 3 < int (length ex_transcript)" by code_simp
  with handoff_recent_safe [of 4 ex_transcript] show ?thesis by simp
qed

text \<open>
  Between the limit and three messages above it the suffix is cut at a fixed distance from the end,
  and can start with a tool result whose call is left out.
\<close>

lemma handoff_recent_unsafe:
  assumes "1 \<le> mx" and "mx < int (length ms)" and "int (length ms) \<le> mx + 3"
    and "is_tool_result_user (ms ! (length ms - nat mx))"
  shows "\<not> safe_slice (recent_raw_messages_for_handoff ms mx)"
proof -
  have "recent_raw_messages_for_handoff ms mx = drop (length ms - nat mx) ms"
    using assms(1-3) by (simp add: recent_raw_messages_for_handoff_def split_session_messages_for_compaction_def py_tail_def)
  moreover have "length ms - nat mx < length ms" using assms(1,2) by simp
  ultimately show ?thesis
    using assms(4) by (simp add: Cons_nth_drop_Suc [symmetric] safe_slice_def)
qed

end
