(* ===== verification/Context_Budget.thy ===== *)
theory Context_Budget
  imports Py_Prelude
begin

text \<open>
  The model catalog (\<open>platform/model_catalog.py\<close>), the provider inference of
  \<open>platform/providers/model_policy.py\<close>, the effort ladder (\<open>platform/effort.py\<close>) and the context
  budget of a run (\<open>systems/context/budget.py\<close>). Prices and the cached-input multiplier, which are
  floats no modelled operation reads, are left out of the catalog entries. The environment is an
  argument.
\<close>

section \<open>The model catalog\<close>

definition EFFORT_TIERS :: "string list" where
  "EFFORT_TIERS = [''none'', ''low'', ''medium'', ''high'', ''xhigh'']"

text \<open>A provider maps a canonical tier to its native value; \<open>None\<close> omits the configuration.\<close>

definition PROVIDER_EFFORT_RENDERINGS :: "(string \<times> (string \<times> string option) list) list" where
  "PROVIDER_EFFORT_RENDERINGS =
     [(''openai'', [(''none'', None), (''low'', Some ''low''), (''medium'', Some ''medium''),
                    (''high'', Some ''high''), (''xhigh'', Some ''xhigh'')]),
      (''anthropic'', [(''none'', None), (''low'', Some ''low''), (''medium'', Some ''medium''),
                       (''high'', Some ''high''), (''xhigh'', Some ''max'')]),
      (''ollama'', [(''none'', None), (''low'', None), (''medium'', None), (''high'', None), (''xhigh'', None)])]"

text \<open>\<open>str(x or "")\<close> for an optional string.\<close>

fun str_or_empty :: "string option \<Rightarrow> string" where
  "str_or_empty None = []"
| "str_or_empty (Some s) = s"

definition render_reasoning_effort :: "string option \<Rightarrow> string option \<Rightarrow> string option" where
  "render_reasoning_effort provider tier =
     (let t = py_lower (py_strip (str_or_empty tier)) in
      if t = [] \<or> t = ''none'' then None
      else (case map_of PROVIDER_EFFORT_RENDERINGS (py_lower (py_strip (str_or_empty provider))) of
              None \<Rightarrow> Some t
            | Some r \<Rightarrow> (case map_of r t of None \<Rightarrow> Some t | Some v \<Rightarrow> v)))"

record catalog_entry =
  me_id :: string
  me_provider :: string
  me_tiers :: "string list"
  me_fallback :: "string option"
  me_context_window :: int
  me_provider_default :: bool
  me_long_context :: "int option"
  me_preferred_compact :: "int option"

definition model_name :: "catalog_entry \<Rightarrow> string" where
  "model_name e = drop 1 (dropWhile (\<lambda>c. c \<noteq> CHR ''/'') (me_id e))"

definition NATIVE_TIERS :: "string list" where
  "NATIVE_TIERS = filter (\<lambda>t. t \<noteq> ''none'') EFFORT_TIERS"

definition openai_entry ::
  "string \<Rightarrow> string list \<Rightarrow> string option \<Rightarrow> int \<Rightarrow> bool \<Rightarrow> int option \<Rightarrow> int option \<Rightarrow> catalog_entry" where
  "openai_entry i tiers fallback window dflt long preferred =
     \<lparr>me_id = i, me_provider = ''openai'', me_tiers = tiers, me_fallback = fallback, me_context_window = window,
      me_provider_default = dflt, me_long_context = long, me_preferred_compact = preferred\<rparr>"

definition anthropic_entry :: "string \<Rightarrow> string list \<Rightarrow> int \<Rightarrow> bool \<Rightarrow> catalog_entry" where
  "anthropic_entry i tiers window dflt =
     \<lparr>me_id = i, me_provider = ''anthropic'', me_tiers = tiers, me_fallback = None, me_context_window = window,
      me_provider_default = dflt, me_long_context = None, me_preferred_compact = None\<rparr>"

definition MODEL_CATALOG :: "catalog_entry list" where
  "MODEL_CATALOG =
     [openai_entry ''openai/gpt-6.1-sol'' NATIVE_TIERS (Some ''openai/gpt-6-sol'') 1050000 True
        (Some 272000) (Some 240000),
      openai_entry ''openai/gpt-6-sol'' NATIVE_TIERS (Some ''openai/gpt-5.6-sol'') 1050000 False
        (Some 272000) (Some 240000),
      openai_entry ''openai/gpt-6-astra'' NATIVE_TIERS (Some ''openai/gpt-6.1-sol'') 1050000 False (Some 272000) None,
      openai_entry ''openai/gpt-5.6-sol'' EFFORT_TIERS None 1050000 False (Some 272000) None,
      openai_entry ''openai/gpt-5.6-luna'' EFFORT_TIERS (Some ''openai/gpt-5.6-sol'') 1050000 False None None,
      openai_entry ''openai/gpt-5.5'' EFFORT_TIERS None 400000 False None None,
      anthropic_entry ''anthropic/claude-sonnet-5'' EFFORT_TIERS 1000000 True,
      anthropic_entry ''anthropic/claude-opus-5'' EFFORT_TIERS 1000000 False,
      anthropic_entry ''anthropic/claude-fable-5'' EFFORT_TIERS 1000000 False,
      anthropic_entry ''anthropic/claude-haiku-4-5'' [''none''] 200000 False,
      \<lparr>me_id = ''ollama/qwen3.6-27b'', me_provider = ''ollama'', me_tiers = [''none''],
       me_fallback = Some ''openai/gpt-5.6-luna'', me_context_window = 65536, me_provider_default = True,
       me_long_context = None, me_preferred_compact = None\<rparr>]"

definition catalog_by_id :: "string \<Rightarrow> catalog_entry option" where
  "catalog_by_id i = map_of (map (\<lambda>e. (me_id e, e)) MODEL_CATALOG) i"

fun replace_first :: "char \<Rightarrow> char \<Rightarrow> string \<Rightarrow> string" where
  "replace_first a b [] = []"
| "replace_first a b (c # cs) = (if c = a then b # cs else c # replace_first a b cs)"

definition canonical_catalog_model_id :: "string option \<Rightarrow> string option" where
  "canonical_catalog_model_id model =
     (let v = replace_first (CHR '':'') (CHR ''/'') (py_lower (py_strip (str_or_empty model))) in
      if v = [] then None
      else if catalog_by_id v \<noteq> None then Some v
      else if CHR ''/'' \<in> set v then None
      else (case filter (\<lambda>e. model_name e = v) MODEL_CATALOG of [e] \<Rightarrow> Some (me_id e) | _ \<Rightarrow> None))"

definition get_model_catalog_entry :: "string option \<Rightarrow> catalog_entry option" where
  "get_model_catalog_entry model = Option.bind (canonical_catalog_model_id model) catalog_by_id"

definition model_accepts_effort :: "string option \<Rightarrow> string option \<Rightarrow> bool" where
  "model_accepts_effort model tier =
     (let t = py_lower (py_strip (str_or_empty tier)) in
      if t = [] \<or> t = ''none'' then False
      else (case get_model_catalog_entry model of None \<Rightarrow> True | Some e \<Rightarrow> t \<in> set (me_tiers e)))"

section \<open>Providers\<close>

definition default_provider_models :: "(string \<times> string) list" where
  "default_provider_models = map (\<lambda>e. (me_provider e, model_name e)) (filter me_provider_default MODEL_CATALOG)"

definition provider_model_options :: "(string \<times> string list) list" where
  "provider_model_options = map (\<lambda>(p, _). (p, map model_name (filter (\<lambda>e. me_provider e = p) MODEL_CATALOG)))
     default_provider_models"

text \<open>Both branches answer the default runtime provider, which is \<open>openai\<close>.\<close>

definition normalize_default_provider :: "string option \<Rightarrow> string" where
  "normalize_default_provider provider =
     (if py_lower (py_strip (str_or_empty provider)) = ''openai'' then ''openai'' else ''openai'')"

definition starts_any :: "string \<Rightarrow> string list \<Rightarrow> bool" where
  "starts_any s ps = list_ex (py_startswith s) ps"

definition infer_provider_from_model :: "string \<Rightarrow> string option \<Rightarrow> string" where
  "infer_provider_from_model model dflt =
     (if model = [] then normalize_default_provider dflt
      else
        (let v = py_strip model; low = py_lower v in
         if py_startswith v ''anthropic:'' then ''anthropic''
         else if py_startswith v ''openai:'' then ''openai''
         else if py_startswith v ''ollama:'' then ''ollama''
         else if py_startswith v ''anthropic/'' then ''anthropic''
         else if py_startswith v ''openai/'' then ''openai''
         else if py_startswith v ''ollama/'' then ''ollama''
         else if py_startswith low ''claude-'' then ''anthropic''
         else if starts_any low [''gpt-'', ''o1'', ''o3'', ''o4''] then ''openai''
         else (case filter (\<lambda>(p, options). v \<in> set options) provider_model_options of
                 (p, _) # _ \<Rightarrow> p
               | [] \<Rightarrow> normalize_default_provider dflt)))"

section \<open>The budget\<close>

definition DEFAULT_CONTEXT_WINDOW_TOKENS :: int where
  "DEFAULT_CONTEXT_WINDOW_TOKENS = 128000"

definition PROVIDER_CONTEXT_WINDOWS :: "(string \<times> int) list" where
  "PROVIDER_CONTEXT_WINDOWS = [(''anthropic'', 200000), (''openai'', 128000)]"

definition MODEL_PREFIX_CONTEXT_WINDOWS :: "((string \<times> string) \<times> int) list" where
  "MODEL_PREFIX_CONTEXT_WINDOWS =
     [((''openai'', ''gpt-5.5''), 400000), ((''openai'', ''gpt-5.4-pro''), 400000),
      ((''openai'', ''gpt-5.4''), 256000), ((''openai'', ''gpt-5''), 128000)]"

definition REASONING_RESERVES :: "(string \<times> int) list" where
  "REASONING_RESERVES = [(''none'', 0), (''low'', 4096), (''medium'', 8192), (''high'', 16384), (''xhigh'', 24576)]"

record model_context_budget =
  mb_provider :: string
  mb_model :: string
  context_window_tokens :: int
  reserved_output_tokens :: int
  reserved_reasoning_tokens :: int
  reserved_tool_tokens :: int
  safety_margin_tokens :: int
  effective_input_limit_tokens :: int
  auto_compact_threshold_tokens :: int
  target_tokens :: int
  emergency_target_tokens :: int
  mb_source :: string
  admission_ceiling_tokens :: "int option"

definition budget_payload :: "model_context_budget \<Rightarrow> pydict" where
  "budget_payload b =
     [(''provider'', PyStr (mb_provider b)), (''model'', PyStr (mb_model b)),
      (''context_window_tokens'', PyInt (context_window_tokens b)),
      (''reserved_output_tokens'', PyInt (reserved_output_tokens b)),
      (''reserved_reasoning_tokens'', PyInt (reserved_reasoning_tokens b)),
      (''reserved_tool_tokens'', PyInt (reserved_tool_tokens b)),
      (''safety_margin_tokens'', PyInt (safety_margin_tokens b)),
      (''effective_input_limit_tokens'', PyInt (effective_input_limit_tokens b)),
      (''auto_compact_threshold_tokens'', PyInt (auto_compact_threshold_tokens b)),
      (''target_tokens'', PyInt (target_tokens b)),
      (''emergency_target_tokens'', PyInt (emergency_target_tokens b)),
      (''source'', PyStr (mb_source b)),
      (''admission_ceiling_tokens'', opt_int (admission_ceiling_tokens b))]"

definition env_int :: "environ \<Rightarrow> string \<Rightarrow> int \<Rightarrow> int" where
  "env_int env name dflt = (case env name of
       None \<Rightarrow> dflt
     | Some s \<Rightarrow> if py_strip s = [] then dflt
                 else (case py_int_of_str s of None \<Rightarrow> dflt | Some i \<Rightarrow> i))"

text \<open>\<open>if os.environ.get(name):\<close>\<close>

definition env_set :: "environ \<Rightarrow> string \<Rightarrow> bool" where
  "env_set env name = (case env name of None \<Rightarrow> False | Some s \<Rightarrow> s \<noteq> [])"

definition strip_provider_prefix :: "string \<Rightarrow> string" where
  "strip_provider_prefix model =
     (let v = py_strip model in
      case filter (py_startswith v) [''anthropic/'', ''ollama/'', ''openai/'', ''anthropic:'', ''ollama:'', ''openai:''] of
        p # _ \<Rightarrow> drop (length p) v
      | [] \<Rightarrow> v)"

definition resolve_provider :: "string option \<Rightarrow> string \<Rightarrow> string" where
  "resolve_provider provider model =
     (if str_or_empty provider \<noteq> [] then py_lower (py_strip (str_or_empty provider))
      else infer_provider_from_model model (Some ''openai''))"

definition context_window_for :: "environ \<Rightarrow> string \<Rightarrow> string \<Rightarrow> int" where
  "context_window_for env provider model =
     (if env_set env ''AGENT_MODEL_CONTEXT_WINDOW_TOKENS''
      then max 1 (env_int env ''AGENT_MODEL_CONTEXT_WINDOW_TOKENS'' DEFAULT_CONTEXT_WINDOW_TOKENS)
      else
        (let normalized = strip_provider_prefix model in
         case get_model_catalog_entry (Some (provider @ ''/'' @ normalized)) of
           Some e \<Rightarrow> me_context_window e
         | None \<Rightarrow>
             (case filter (\<lambda>((p, prefix), _). provider = p \<and> py_startswith normalized prefix)
                     MODEL_PREFIX_CONTEXT_WINDOWS of
                (_, tokens) # _ \<Rightarrow> tokens
              | [] \<Rightarrow> (case map_of PROVIDER_CONTEXT_WINDOWS provider of
                         Some t \<Rightarrow> t | None \<Rightarrow> DEFAULT_CONTEXT_WINDOW_TOKENS))))"

definition reserved_output :: "environ \<Rightarrow> int option \<Rightarrow> int" where
  "reserved_output env max_output =
     (if env_set env ''AGENT_CONTEXT_RESERVED_OUTPUT_TOKENS''
      then max 0 (env_int env ''AGENT_CONTEXT_RESERVED_OUTPUT_TOKENS'' 16384)
      else (case max_output of Some n \<Rightarrow> max 0 n | None \<Rightarrow> 16384))"

definition reserved_reasoning :: "environ \<Rightarrow> string option \<Rightarrow> string option \<Rightarrow> int" where
  "reserved_reasoning env effort model =
     (if env_set env ''AGENT_CONTEXT_RESERVED_REASONING_TOKENS''
      then max 0 (env_int env ''AGENT_CONTEXT_RESERVED_REASONING_TOKENS'' 0)
      else if \<not> model_accepts_effort model effort then 0
      else (let e = py_lower (py_strip (if str_or_empty effort = [] then ''none'' else str_or_empty effort)) in
            case map_of REASONING_RESERVES e of Some r \<Rightarrow> r | None \<Rightarrow> 8192))"

definition tool_count :: "pyval \<Rightarrow> int" where
  "tool_count tools = (case tools of PyList ts \<Rightarrow> int (length ts) | _ \<Rightarrow> 0)"

definition reserved_tools :: "environ \<Rightarrow> pyval \<Rightarrow> int" where
  "reserved_tools env tools =
     (if env_set env ''AGENT_CONTEXT_RESERVED_TOOL_TOKENS''
      then max 0 (env_int env ''AGENT_CONTEXT_RESERVED_TOOL_TOKENS'' 0)
      else min 12000 (max 0 (tool_count tools) * 256))"

definition safety_margin :: "environ \<Rightarrow> int \<Rightarrow> int" where
  "safety_margin env window = max 0 (env_int env ''AGENT_CONTEXT_SAFETY_MARGIN_TOKENS'' (max 2048 (window div 50)))"

definition input_limit :: "int \<Rightarrow> int \<Rightarrow> int" where
  "input_limit window reserved =
     (let limit = max 1 (window - reserved) in if limit < window div 4 then max 1 (window div 4) else limit)"

definition admission_ceiling :: "environ \<Rightarrow> int \<Rightarrow> int option \<Rightarrow> int option" where
  "admission_ceiling env limit preferred =
     (if env_set env ''AGENT_AUTO_COMPACT_TOKEN_LIMIT'' \<or> preferred = None then None
      else Some (max 1 (limit * 9 div 10)))"

definition compact_threshold :: "environ \<Rightarrow> int \<Rightarrow> int option \<Rightarrow> int" where
  "compact_threshold env limit preferred =
     (if env_set env ''AGENT_AUTO_COMPACT_TOKEN_LIMIT''
      then min (max 1 (env_int env ''AGENT_AUTO_COMPACT_TOKEN_LIMIT'' (limit * 9 div 10))) limit
      else max 1 (min (limit * 9 div 10)
             (case preferred of None \<Rightarrow> limit | Some t \<Rightarrow> if t = 0 then limit else t)))"

definition compact_target :: "environ \<Rightarrow> int \<Rightarrow> int" where
  "compact_target env threshold =
     (if env_set env ''AGENT_AUTO_COMPACT_TARGET_TOKENS''
      then min (max 1 (env_int env ''AGENT_AUTO_COMPACT_TARGET_TOKENS'' (threshold * 7 div 10))) threshold
      else max 1 (threshold * 7 div 10))"

definition emergency_target :: "environ \<Rightarrow> int \<Rightarrow> int" where
  "emergency_target env threshold =
     max 1 (min threshold (env_int env ''AGENT_EMERGENCY_COMPACT_TARGET_TOKENS'' (threshold div 2)))"

definition resolve_model_context_budget ::
  "environ \<Rightarrow> string \<Rightarrow> string option \<Rightarrow> string option \<Rightarrow> int option \<Rightarrow> pyval \<Rightarrow> model_context_budget" where
  "resolve_model_context_budget env model provider effort max_output tools =
     (let p = resolve_provider provider model;
          m = strip_provider_prefix model;
          window = context_window_for env p m;
          output = reserved_output env max_output;
          reasoning = reserved_reasoning env effort (Some model);
          tool = reserved_tools env tools;
          margin = safety_margin env window;
          limit = input_limit window (output + reasoning + tool + margin);
          preferred = Option.bind (get_model_catalog_entry (Some (p @ ''/'' @ m))) me_preferred_compact;
          threshold = compact_threshold env limit preferred
      in \<lparr>mb_provider = p, mb_model = m, context_window_tokens = window, reserved_output_tokens = output,
          reserved_reasoning_tokens = reasoning, reserved_tool_tokens = tool, safety_margin_tokens = margin,
          effective_input_limit_tokens = limit, auto_compact_threshold_tokens = threshold,
          target_tokens = compact_target env threshold, emergency_target_tokens = emergency_target env threshold,
          mb_source = ''model_context_budget_v1'', admission_ceiling_tokens = admission_ceiling env limit preferred\<rparr>)"

section \<open>The order of the budget's bounds\<close>

lemma catalog_windows: "catalog_by_id i = Some e \<Longrightarrow> 0 < me_context_window e"
proof -
  have "list_all (\<lambda>e. 0 < me_context_window e) MODEL_CATALOG" by code_simp
  then show "catalog_by_id i = Some e \<Longrightarrow> 0 < me_context_window e"
    by (auto simp: catalog_by_id_def list_all_iff dest!: map_of_SomeD)
qed

lemma context_window_pos: "0 < context_window_for env provider model"
proof -
  have "0 < t" if "filter P MODEL_PREFIX_CONTEXT_WINDOWS = (k, t) # r" for P k t r
  proof -
    have "(k, t) \<in> set MODEL_PREFIX_CONTEXT_WINDOWS" using that by (metis filter_is_subset list.set_intros(1) subsetD)
    then show ?thesis by (auto simp: MODEL_PREFIX_CONTEXT_WINDOWS_def)
  qed
  moreover have "0 < t" if "map_of PROVIDER_CONTEXT_WINDOWS provider = Some t" for t
    using that by (auto simp: PROVIDER_CONTEXT_WINDOWS_def split: if_splits)
  ultimately show ?thesis
    by (auto simp: context_window_for_def Let_def get_model_catalog_entry_def DEFAULT_CONTEXT_WINDOW_TOKENS_def
        bind_eq_Some_conv dest: catalog_windows split: option.split list.split)
qed

lemma reserves_nonneg:
  "0 \<le> reserved_output env n" "0 \<le> reserved_reasoning env e m" "0 \<le> reserved_tools env tools"
proof -
  have "0 \<le> r" if "map_of REASONING_RESERVES t = Some r" for t r
    using that by (auto simp: REASONING_RESERVES_def split: if_splits)
  then show "0 \<le> reserved_reasoning env e m"
    by (auto simp: reserved_reasoning_def Let_def split: option.split)
qed (auto simp: reserved_output_def reserved_tools_def tool_count_def split: option.split)

lemma input_limit_bounds:
  "0 < window \<Longrightarrow> 0 \<le> reserved \<Longrightarrow>
   1 \<le> input_limit window reserved \<and> window div 4 \<le> input_limit window reserved \<and> input_limit window reserved \<le> window"
  by (simp add: input_limit_def Let_def max_def) linarith

lemma threshold_bounds:
  assumes "1 \<le> limit"
  shows "1 \<le> compact_threshold env limit preferred \<and> compact_threshold env limit preferred \<le> limit"
proof -
  have "limit * 9 div 10 \<le> limit" using assms by linarith
  then show ?thesis
    using assms by (cases "env_set env ''AGENT_AUTO_COMPACT_TOKEN_LIMIT''")
      (simp_all add: compact_threshold_def min.coboundedI1)
qed

lemma ceiling_bounds:
  assumes "1 \<le> limit" and "admission_ceiling env limit preferred = Some c"
  shows "compact_threshold env limit preferred \<le> c \<and> c \<le> limit"
proof -
  have "limit * 9 div 10 \<le> limit" using assms(1) by linarith
  moreover have "\<not> env_set env ''AGENT_AUTO_COMPACT_TOKEN_LIMIT''" "c = max 1 (limit * 9 div 10)"
    using assms(2) by (simp_all add: admission_ceiling_def split: if_splits)
  moreover have "max 1 (min (limit * 9 div 10) y) \<le> max 1 (limit * 9 div 10)" for y
    by (intro max.mono) simp_all
  ultimately show ?thesis using assms(1) by (simp add: compact_threshold_def del: max.bounded_iff)
qed

lemma target_bounds:
  assumes "1 \<le> t"
  shows "1 \<le> compact_target env t \<and> compact_target env t \<le> t
    \<and> 1 \<le> emergency_target env t \<and> emergency_target env t \<le> t"
proof -
  have "t * 7 div 10 \<le> t" using assms by linarith
  then show ?thesis
    using assms by (cases "env_set env ''AGENT_AUTO_COMPACT_TARGET_TOKENS''")
      (simp_all add: compact_target_def emergency_target_def)
qed

lemma budget_bounds:
  fixes env model provider effort max_output tools
  defines "b \<equiv> resolve_model_context_budget env model provider effort max_output tools"
  shows "1 \<le> target_tokens b \<and> target_tokens b \<le> auto_compact_threshold_tokens b
    \<and> 1 \<le> emergency_target_tokens b \<and> emergency_target_tokens b \<le> auto_compact_threshold_tokens b
    \<and> auto_compact_threshold_tokens b \<le> effective_input_limit_tokens b
    \<and> pred_option (\<lambda>c. auto_compact_threshold_tokens b \<le> c \<and> c \<le> effective_input_limit_tokens b)
        (admission_ceiling_tokens b)
    \<and> context_window_tokens b div 4 \<le> effective_input_limit_tokens b
    \<and> effective_input_limit_tokens b \<le> context_window_tokens b \<and> 0 < context_window_tokens b"
proof -
  let ?p = "resolve_provider provider model" and ?m = "strip_provider_prefix model"
  let ?w = "context_window_for env ?p ?m"
  let ?r = "reserved_output env max_output + reserved_reasoning env effort (Some model) + reserved_tools env tools
      + safety_margin env ?w"
  let ?preferred = "Option.bind (get_model_catalog_entry (Some (?p @ ''/'' @ ?m))) me_preferred_compact"
  let ?t = "compact_threshold env (input_limit ?w ?r) ?preferred"
  have b: "context_window_tokens b = ?w" "effective_input_limit_tokens b = input_limit ?w ?r"
    "auto_compact_threshold_tokens b = ?t" "target_tokens b = compact_target env ?t"
    "emergency_target_tokens b = emergency_target env ?t"
    "admission_ceiling_tokens b = admission_ceiling env (input_limit ?w ?r) ?preferred"
    by (simp_all add: b_def resolve_model_context_budget_def Let_def)
  have w: "0 < ?w" by (rule context_window_pos)
  have "0 \<le> ?r"
    using reserves_nonneg [of env] by (simp add: safety_margin_def)
  from input_limit_bounds [OF w this] have limit: "1 \<le> input_limit ?w ?r" "?w div 4 \<le> input_limit ?w ?r"
    "input_limit ?w ?r \<le> ?w" by blast+
  note threshold = threshold_bounds [OF limit(1), of env ?preferred]
  have "pred_option (\<lambda>c. ?t \<le> c \<and> c \<le> input_limit ?w ?r) (admission_ceiling env (input_limit ?w ?r) ?preferred)"
    using ceiling_bounds [OF limit(1), of env ?preferred]
    by (cases "admission_ceiling env (input_limit ?w ?r) ?preferred") simp_all
  with w limit threshold target_bounds [of ?t env] show ?thesis
    unfolding b by blast
qed

text \<open>
  C21: whatever the environment, the model and the reserves, the bounds of a resolved budget are
  ordered: both compaction targets lie between one and the threshold, the threshold is at most the
  effective input limit and at most the admission ceiling where there is one, and the limit keeps
  at least a quarter and at most the whole of a positive context window.
\<close>

theorem budget_bounds_ordered:
  "let b = resolve_model_context_budget env model provider effort max_output tools in
    1 \<le> target_tokens b \<and> target_tokens b \<le> auto_compact_threshold_tokens b
    \<and> 1 \<le> emergency_target_tokens b \<and> emergency_target_tokens b \<le> auto_compact_threshold_tokens b
    \<and> auto_compact_threshold_tokens b \<le> effective_input_limit_tokens b
    \<and> pred_option (\<lambda>c. auto_compact_threshold_tokens b \<le> c \<and> c \<le> effective_input_limit_tokens b)
        (admission_ceiling_tokens b)
    \<and> context_window_tokens b div 4 \<le> effective_input_limit_tokens b
    \<and> effective_input_limit_tokens b \<le> context_window_tokens b \<and> 0 < context_window_tokens b"
  unfolding Let_def by (rule budget_bounds)

end
