(* ===== verification/Window_Policy.thy ===== *)
theory Window_Policy
  imports Checkpoints Context_Budget
begin

text \<open>
  The run-scoped context policy (\<open>systems/context/window_policy.py\<close>, \<open>errors.py\<close>): admission of the
  smallest prompt a run can be compacted to, the relaxation of a preferred threshold towards the
  hard ceiling, and compaction with its count of attempts without progress. An operation takes the
  policy object and answers its result beside the object it leaves, also when it raises.
\<close>

section \<open>State and results\<close>

definition DEFAULT_MIN_COMPACTION_MESSAGES :: int where
  "DEFAULT_MIN_COMPACTION_MESSAGES = 4"

definition DEFAULT_MAX_COMPACTION_NO_PROGRESS :: int where
  "DEFAULT_MAX_COMPACTION_NO_PROGRESS = 3"

datatype context_error =
    ContextFloorExceedsBudget int int int int
  | ContextCompactionStalled int int int int string
  | OtherError py_error

definition context_error_text :: "context_error \<Rightarrow> string option" where
  "context_error_text e = (case e of
       ContextFloorExceedsBudget floor ceiling tools min_messages \<Rightarrow>
         Some (''context_floor_exceeds_budget: ''
           @ ''floor='' @ show_int floor @ '' ceiling='' @ show_int ceiling @ '' tools='' @ show_int tools
           @ '' min_messages='' @ show_int min_messages)
     | ContextCompactionStalled estimated ceiling tools attempts phase \<Rightarrow>
         Some (''context_compaction_stalled: ''
           @ ''estimated='' @ show_int estimated @ '' ceiling='' @ show_int ceiling @ '' tools='' @ show_int tools
           @ '' attempts='' @ show_int attempts @ '' phase='' @ phase)
     | OtherError _ \<Rightarrow> None)"

record context_admission =
  ad_budget :: model_context_budget
  ad_floor_tokens :: int
  ad_tool_count :: int
  ad_min_messages :: int

record compaction_outcome =
  oc_messages :: "message list"
  oc_report :: "compaction_report option"
  oc_estimated_tokens :: int
  oc_final_tokens :: int
  oc_warning_required :: bool

record window_policy =
  wp_budget :: model_context_budget
  wp_min_messages :: int
  wp_max_no_progress :: int
  wp_no_progress :: int
  wp_warning_emitted :: bool

definition policy_of_budget :: "model_context_budget \<Rightarrow> window_policy" where
  "policy_of_budget b =
     \<lparr>wp_budget = b, wp_min_messages = DEFAULT_MIN_COMPACTION_MESSAGES,
      wp_max_no_progress = DEFAULT_MAX_COMPACTION_NO_PROGRESS, wp_no_progress = 0, wp_warning_emitted = False\<rparr>"

definition resolve_policy ::
  "environ \<Rightarrow> string \<Rightarrow> string option \<Rightarrow> string option \<Rightarrow> int option \<Rightarrow> pyval \<Rightarrow> window_policy" where
  "resolve_policy env model provider effort max_output tools =
     policy_of_budget (resolve_model_context_budget env model provider effort max_output tools)"

section \<open>Operations\<close>

definition threshold_tokens :: "window_policy \<Rightarrow> int" where
  "threshold_tokens p = auto_compact_threshold_tokens (wp_budget p)"

definition admits :: "window_policy \<Rightarrow> int \<Rightarrow> bool" where
  "admits p tokens = (tokens \<le> threshold_tokens p)"

definition requires_compaction :: "window_policy \<Rightarrow> int \<Rightarrow> bool" where
  "requires_compaction p tokens = (threshold_tokens p < tokens)"

definition relax_preferred_threshold :: "window_policy \<Rightarrow> int \<Rightarrow> bool \<times> window_policy" where
  "relax_preferred_threshold p tokens =
     (case admission_ceiling_tokens (wp_budget p) of
        None \<Rightarrow> (False, p)
      | Some ceiling \<Rightarrow>
          (if \<not> (threshold_tokens p < tokens \<and> tokens \<le> ceiling) then (False, p)
           else (True, p\<lparr>wp_budget := (wp_budget p)\<lparr>auto_compact_threshold_tokens :=
                    min ceiling (max tokens (tokens * 11 div 10))\<rparr>\<rparr>)))"

definition reset_progress :: "window_policy \<Rightarrow> window_policy" where
  "reset_progress p = p\<lparr>wp_no_progress := 0, wp_warning_emitted := False\<rparr>"

text \<open>What a call of the planner needs beside the policy: SHA-256, the exception texts, the compactor.\<close>

record planner_env =
  pe_digest :: "string \<Rightarrow> string"
  pe_exc_text :: "py_error \<Rightarrow> string"

definition admission_options :: "window_policy \<Rightarrow> string \<Rightarrow> string \<Rightarrow> pyval \<Rightarrow> pyval \<Rightarrow> plan_options" where
  "admission_options p session_id phase system tools =
     \<lparr>po_token_limit = threshold_tokens p, po_target_tokens = Some 1, po_session_id = session_id, po_phase = phase,
      po_system = system, po_tools = tools, po_keep_early = 2, po_max_messages = wp_min_messages p,
      po_min_messages = wp_min_messages p, po_force = True, po_emergency = False\<rparr>"

definition admit ::
  "planner_env \<Rightarrow> message list \<Rightarrow> pyval \<Rightarrow> pyval \<Rightarrow> string \<Rightarrow> string \<Rightarrow> window_policy \<Rightarrow>
   (context_error + context_admission) \<times> window_policy" where
  "admit pe ms system tools session_id phase p =
     (case plan_session_compaction (pe_digest pe) (pe_exc_text pe) None
             (admission_options p session_id phase system tools) ms of
        Inl e \<Rightarrow> (Inl (OtherError e), p)
      | Inr plan \<Rightarrow>
          (let floor = pl_estimated_tokens plan;
               p' = snd (relax_preferred_threshold p floor)
           in if \<not> admits p' floor
              then (Inl (ContextFloorExceedsBudget floor (threshold_tokens p') (tool_count tools) (wp_min_messages p')), p')
              else (Inr \<lparr>ad_budget = wp_budget p', ad_floor_tokens = floor, ad_tool_count = tool_count tools,
                         ad_min_messages = wp_min_messages p'\<rparr>, p')))"

text \<open>The arguments of one compaction.\<close>

record compaction_request =
  cr_messages :: "message list"
  cr_session_id :: string
  cr_phase :: string
  cr_system :: pyval
  cr_tools :: pyval
  cr_max_messages :: int
  cr_compactor :: "semantic_compactor option"
  cr_force :: bool
  cr_emergency :: bool

definition compaction_options :: "window_policy \<Rightarrow> compaction_request \<Rightarrow> plan_options" where
  "compaction_options p r =
     \<lparr>po_token_limit = threshold_tokens p,
      po_target_tokens = Some (if cr_emergency r then emergency_target_tokens (wp_budget p)
                               else target_tokens (wp_budget p)),
      po_session_id = cr_session_id r, po_phase = cr_phase r, po_system = cr_system r, po_tools = cr_tools r,
      po_keep_early = 2, po_max_messages = cr_max_messages r, po_min_messages = wp_min_messages p,
      po_force = cr_force r, po_emergency = cr_emergency r\<rparr>"

text \<open>The transitions of the policy after a plan: progress or its count, and the warning.\<close>

definition sufficient_progress :: "bool \<Rightarrow> compaction_plan \<Rightarrow> window_policy \<Rightarrow> bool" where
  "sufficient_progress relaxed plan p =
     ((0 < omitted_count (pl_report plan) \<or> relaxed) \<and> admits p (pl_estimated_tokens plan))"

definition count_attempt :: "bool \<Rightarrow> window_policy \<Rightarrow> window_policy" where
  "count_attempt progress p = (if progress then reset_progress p else p\<lparr>wp_no_progress := wp_no_progress p + 1\<rparr>)"

definition mark_warning :: "bool \<Rightarrow> window_policy \<Rightarrow> window_policy" where
  "mark_warning warn p = (if warn then p\<lparr>wp_warning_emitted := True\<rparr> else p)"

definition compact ::
  "planner_env \<Rightarrow> compaction_request \<Rightarrow> window_policy \<Rightarrow> (context_error + compaction_outcome) \<times> window_policy" where
  "compact pe r p =
     (let estimated = estimate_session_tokens (cr_messages r) (cr_system r) (cr_tools r) in
      if \<not> cr_force r \<and> \<not> requires_compaction p estimated then
        (Inr \<lparr>oc_messages = cr_messages r, oc_report = None, oc_estimated_tokens = estimated,
              oc_final_tokens = estimated, oc_warning_required = False\<rparr>, reset_progress p)
      else
        (case plan_session_compaction (pe_digest pe) (pe_exc_text pe) (cr_compactor r)
                (compaction_options p r) (cr_messages r) of
           Inl e \<Rightarrow> (Inl (OtherError e), p)
         | Inr plan \<Rightarrow>
             (let (relaxed, p1) = relax_preferred_threshold p (pl_estimated_tokens plan);
                  progress = sufficient_progress relaxed plan p1;
                  p2 = count_attempt progress p1;
                  omitted = 0 < omitted_count (pl_report plan);
                  warn = \<not> omitted \<and> \<not> wp_warning_emitted p2;
                  p3 = mark_warning warn p2
              in if \<not> progress \<and> wp_max_no_progress p3 \<le> wp_no_progress p3
                 then (Inl (ContextCompactionStalled (pl_estimated_tokens plan) (threshold_tokens p3)
                              (tool_count (cr_tools r)) (wp_no_progress p3) (cr_phase r)), p3)
                 else (Inr \<lparr>oc_messages = (if omitted then pl_messages plan else cr_messages r),
                            oc_report = (if omitted then Some (pl_report plan) else None),
                            oc_estimated_tokens = estimated, oc_final_tokens = pl_estimated_tokens plan,
                            oc_warning_required = warn\<rparr>, p3))))"

section \<open>Thresholds and ceilings\<close>

definition policy_ok :: "window_policy \<Rightarrow> bool" where
  "policy_ok p =
     (1 \<le> threshold_tokens p \<and> threshold_tokens p \<le> effective_input_limit_tokens (wp_budget p)
      \<and> pred_option (\<lambda>c. threshold_tokens p \<le> c \<and> c \<le> effective_input_limit_tokens (wp_budget p))
          (admission_ceiling_tokens (wp_budget p)))"

text \<open>All that may change of the bounds is that the threshold of a policy with a ceiling grows.\<close>

definition policy_grows :: "window_policy \<Rightarrow> window_policy \<Rightarrow> bool" where
  "policy_grows p q =
     (wp_budget q = (wp_budget p)\<lparr>auto_compact_threshold_tokens := threshold_tokens q\<rparr>
        \<and> threshold_tokens p \<le> threshold_tokens q
        \<and> (admission_ceiling_tokens (wp_budget p) = None \<longrightarrow> threshold_tokens q = threshold_tokens p)
        \<and> wp_min_messages q = wp_min_messages p \<and> wp_max_no_progress q = wp_max_no_progress p)"

inductive policy_step :: "planner_env \<Rightarrow> window_policy \<Rightarrow> window_policy \<Rightarrow> bool" for pe where
  admission: "policy_step pe p (snd (admit pe ms system tools session_id phase p))"
| compaction: "policy_step pe p (snd (compact pe r p))"

inductive_cases policy_stepE: "policy_step pe p q"

lemma policy_grows_refl: "policy_grows p p"
  by (simp add: policy_grows_def threshold_tokens_def)

lemma policy_growsD:
  assumes "policy_grows p q"
  shows "effective_input_limit_tokens (wp_budget q) = effective_input_limit_tokens (wp_budget p)"
    and "admission_ceiling_tokens (wp_budget q) = admission_ceiling_tokens (wp_budget p)"
    and "threshold_tokens p \<le> threshold_tokens q"
    and "admission_ceiling_tokens (wp_budget p) = None \<Longrightarrow> threshold_tokens q = threshold_tokens p"
proof -
  obtain t where "wp_budget q = (wp_budget p)\<lparr>auto_compact_threshold_tokens := t\<rparr>"
    using assms by (auto simp: policy_grows_def)
  then show "effective_input_limit_tokens (wp_budget q) = effective_input_limit_tokens (wp_budget p)"
    and "admission_ceiling_tokens (wp_budget q) = admission_ceiling_tokens (wp_budget p)" by simp_all
qed (use assms in \<open>simp_all add: policy_grows_def\<close>)

lemma policy_grows_trans:
  assumes "policy_grows p q" and "policy_grows q r"
  shows "policy_grows p r"
proof -
  have "wp_budget r = ((wp_budget p)\<lparr>auto_compact_threshold_tokens := threshold_tokens q\<rparr>)
      \<lparr>auto_compact_threshold_tokens := threshold_tokens r\<rparr>"
    using assms unfolding policy_grows_def by metis
  then show ?thesis
    using assms policy_growsD(2) [OF assms(1)] by (simp add: policy_grows_def)
qed

lemma relax_cases:
  obtains (same) "relax_preferred_threshold p tokens = (False, p)"
      and "\<forall>c. admission_ceiling_tokens (wp_budget p) = Some c \<longrightarrow> tokens \<le> threshold_tokens p \<or> c < tokens"
  | (raised) c where "admission_ceiling_tokens (wp_budget p) = Some c" and "threshold_tokens p < tokens" and "tokens \<le> c"
      and "relax_preferred_threshold p tokens =
        (True, p\<lparr>wp_budget := (wp_budget p)\<lparr>auto_compact_threshold_tokens := min c (max tokens (tokens * 11 div 10))\<rparr>\<rparr>)"
proof (cases "admission_ceiling_tokens (wp_budget p)")
  case None
  then show thesis by (intro same) (simp_all add: relax_preferred_threshold_def)
next
  case (Some c)
  show thesis
  proof (cases "threshold_tokens p < tokens \<and> tokens \<le> c")
    case True
    with Some show thesis by (intro raised [of c]) (simp_all add: relax_preferred_threshold_def)
  next
    case False
    with Some show thesis by (intro same) (auto simp: relax_preferred_threshold_def)
  qed
qed

lemma relax_keeps:
  "wp_no_progress (snd (relax_preferred_threshold p t)) = wp_no_progress p
   \<and> wp_max_no_progress (snd (relax_preferred_threshold p t)) = wp_max_no_progress p"
  by (cases p t rule: relax_cases) simp_all

lemma relax_ok:
  assumes "policy_ok p"
  shows "policy_ok (snd (relax_preferred_threshold p tokens)) \<and> policy_grows p (snd (relax_preferred_threshold p tokens))"
proof (cases p tokens rule: relax_cases)
  case same
  with assms policy_grows_refl show ?thesis by simp
next
  case (raised c)
  have "tokens \<le> min c (max tokens (tokens * 11 div 10))" using raised(3) by simp
  moreover have "min c (max tokens (tokens * 11 div 10)) \<le> c" by simp
  ultimately show ?thesis
    using assms raised unfolding policy_ok_def policy_grows_def
    by (auto simp: threshold_tokens_def)
qed

lemma relax_admits:
  "fst (relax_preferred_threshold p tokens) \<Longrightarrow> admits (snd (relax_preferred_threshold p tokens)) tokens"
  by (cases p tokens rule: relax_cases) (auto simp: admits_def threshold_tokens_def)

text \<open>Counting and warning leave the bounds alone.\<close>

lemma counts_simps [simp]:
  "wp_budget (count_attempt b p) = wp_budget p" "wp_budget (mark_warning w p) = wp_budget p"
  "wp_budget (reset_progress p) = wp_budget p"
  "wp_min_messages (count_attempt b p) = wp_min_messages p" "wp_min_messages (mark_warning w p) = wp_min_messages p"
  "wp_min_messages (reset_progress p) = wp_min_messages p"
  "wp_max_no_progress (count_attempt b p) = wp_max_no_progress p"
  "wp_max_no_progress (mark_warning w p) = wp_max_no_progress p"
  "wp_max_no_progress (reset_progress p) = wp_max_no_progress p"
  "wp_no_progress (mark_warning w p) = wp_no_progress p"
  "wp_no_progress (count_attempt False p) = wp_no_progress p + 1"
  by (simp_all add: count_attempt_def mark_warning_def reset_progress_def)

lemma threshold_counts [simp]:
  "threshold_tokens (count_attempt b p) = threshold_tokens p" "threshold_tokens (mark_warning w p) = threshold_tokens p"
  "threshold_tokens (reset_progress p) = threshold_tokens p"
  by (simp_all add: threshold_tokens_def)

lemma policy_ok_counts [simp]:
  "policy_ok (reset_progress p) = policy_ok p" "policy_ok (count_attempt b p) = policy_ok p"
  "policy_ok (mark_warning w p) = policy_ok p"
  by (simp_all add: policy_ok_def)

lemma policy_grows_counts [simp]:
  "policy_grows p (reset_progress q) = policy_grows p q" "policy_grows p (count_attempt b q) = policy_grows p q"
  "policy_grows p (mark_warning w q) = policy_grows p q"
  by (simp_all add: policy_grows_def)

lemma policy_step_ok:
  assumes "policy_ok p" and "policy_step pe p q"
  shows "policy_ok q \<and> policy_grows p q"
  using assms(2)
proof (cases rule: policy_step.cases)
  case (admission ms system tools sid phase)
  with assms(1) relax_ok [OF assms(1)] policy_grows_refl show ?thesis
    by (auto simp: admit_def Let_def split: sum.split)
next
  case (compaction r)
  with assms(1) relax_ok [OF assms(1)] policy_grows_refl show ?thesis
    by (auto simp: compact_def Let_def split_beta split: sum.split)
qed

interpretation run_policy: ledger policy_ok policy_grows "policy_step pe" for pe
  by unfold_locales (blast intro: policy_grows_refl policy_grows_trans dest: policy_step_ok)+

lemma resolved_policy_ok: "policy_ok (resolve_policy env model provider effort max_output tools)"
  using budget_bounds [of env model provider effort max_output tools]
  by (simp add: policy_ok_def threshold_tokens_def resolve_policy_def policy_of_budget_def)

text \<open>
  C18: over any sequence of admissions and compactions of a run, failed ones included, the threshold
  only grows, never above the admission ceiling nor above the effective input limit of the resolved
  budget, and not at all without a ceiling.
\<close>

theorem threshold_stays_bounded:
  assumes "(policy_step pe)\<^sup>*\<^sup>* (resolve_policy env model provider effort max_output tools) p"
  shows "let b = resolve_model_context_budget env model provider effort max_output tools in
    auto_compact_threshold_tokens b \<le> threshold_tokens p
    \<and> threshold_tokens p \<le> effective_input_limit_tokens b
    \<and> (case admission_ceiling_tokens b of None \<Rightarrow> threshold_tokens p = auto_compact_threshold_tokens b
       | Some c \<Rightarrow> threshold_tokens p \<le> c)"
proof -
  from run_policy.reachable [OF assms resolved_policy_ok]
  have "policy_ok p" "policy_grows (resolve_policy env model provider effort max_output tools) p" by simp_all
  from this(1) policy_growsD [OF this(2)] show ?thesis
    by (auto simp: policy_ok_def threshold_tokens_def resolve_policy_def policy_of_budget_def Let_def split: option.split)
qed

section \<open>Admission\<close>

text \<open>
  C19: admission is exact. Once the smallest prompt of the run is planned, the run is admitted
  exactly when its tokens are within the threshold or within the hard ceiling, the admitted floor
  is within the threshold the policy then has, and a refusal reports the floor and that threshold.
\<close>

theorem admission_exact:
  assumes "plan_session_compaction (pe_digest pe) (pe_exc_text pe) None (admission_options p sid phase system tools) ms
      = Inr plan"
    and "policy_ok p"
  shows "case admit pe ms system tools sid phase p of
      (Inr a, p') \<Rightarrow> ad_floor_tokens a = pl_estimated_tokens plan \<and> ad_floor_tokens a \<le> threshold_tokens p'
        \<and> (pl_estimated_tokens plan \<le> threshold_tokens p
           \<or> (\<exists>c. admission_ceiling_tokens (wp_budget p) = Some c \<and> pl_estimated_tokens plan \<le> c))
    | (Inl e, p') \<Rightarrow> e = ContextFloorExceedsBudget (pl_estimated_tokens plan) (threshold_tokens p) (tool_count tools)
          (wp_min_messages p) \<and> p' = p \<and> threshold_tokens p < pl_estimated_tokens plan
        \<and> \<not> (\<exists>c. admission_ceiling_tokens (wp_budget p) = Some c \<and> pl_estimated_tokens plan \<le> c)"
proof (cases p "pl_estimated_tokens plan" rule: relax_cases)
  case same
  with assms same(2) show ?thesis
    by (auto simp: admit_def Let_def admits_def not_le)
next
  case (raised c)
  have "admits (snd (relax_preferred_threshold p (pl_estimated_tokens plan))) (pl_estimated_tokens plan)"
    using raised(4) by (intro relax_admits) simp
  with assms(1) raised show ?thesis
    by (auto simp: admit_def Let_def admits_def)
qed

section \<open>Compaction that makes no progress\<close>

fun compactions ::
  "planner_env \<Rightarrow> compaction_request list \<Rightarrow> window_policy \<Rightarrow>
   (context_error + (compaction_outcome \<times> window_policy) list)" where
  "compactions pe [] p = Inr []"
| "compactions pe (r # rs) p =
     (case compact pe r p of
        (Inl e, p') \<Rightarrow> Inl e
      | (Inr oc, p') \<Rightarrow> (case compactions pe rs p' of Inl e \<Rightarrow> Inl e | Inr tr \<Rightarrow> Inr ((oc, p') # tr)))"

lemma compact_planned:
  assumes "compact pe r p = (Inr oc, p')"
    and "cr_force r \<or> requires_compaction p (estimate_session_tokens (cr_messages r) (cr_system r) (cr_tools r))"
  obtains plan relaxed p1 progress w where "relax_preferred_threshold p (pl_estimated_tokens plan) = (relaxed, p1)"
    and "progress = sufficient_progress relaxed plan p1" and "p' = mark_warning w (count_attempt progress p1)"
    and "oc_final_tokens oc = pl_estimated_tokens plan"
    and "progress \<or> wp_no_progress p' < wp_max_no_progress p'"
proof -
  obtain plan where plan: "plan_session_compaction (pe_digest pe) (pe_exc_text pe) (cr_compactor r)
      (compaction_options p r) (cr_messages r) = Inr plan"
    using assms by (auto simp: compact_def Let_def split: sum.splits)
  obtain relaxed p1 where relax: "relax_preferred_threshold p (pl_estimated_tokens plan) = (relaxed, p1)"
    by (cases "relax_preferred_threshold p (pl_estimated_tokens plan)")
  let ?progress = "sufficient_progress relaxed plan p1"
  let ?w = "\<not> 0 < omitted_count (pl_report plan) \<and> \<not> wp_warning_emitted (count_attempt ?progress p1)"
  have "p' = mark_warning ?w (count_attempt ?progress p1)" "oc_final_tokens oc = pl_estimated_tokens plan"
    "?progress \<or> wp_no_progress p' < wp_max_no_progress p'"
    using assms plan relax by (auto simp: compact_def Let_def split: if_splits)
  from that [OF relax refl this] show thesis .
qed

lemma compact_counts:
  assumes "compact pe r p = (Inr oc, p')" and "\<not> admits p' (oc_final_tokens oc)"
  shows "wp_no_progress p' = wp_no_progress p + 1 \<and> wp_no_progress p' < wp_max_no_progress p'
    \<and> wp_max_no_progress p' = wp_max_no_progress p"
proof (cases "cr_force r \<or> requires_compaction p (estimate_session_tokens (cr_messages r) (cr_system r) (cr_tools r))")
  case True
  from compact_planned [OF assms(1) this] obtain plan relaxed p1 progress w
    where relax: "relax_preferred_threshold p (pl_estimated_tokens plan) = (relaxed, p1)"
      and progress: "progress = sufficient_progress relaxed plan p1" and p': "p' = mark_warning w (count_attempt progress p1)"
      and final: "oc_final_tokens oc = pl_estimated_tokens plan"
      and bound: "progress \<or> wp_no_progress p' < wp_max_no_progress p'" .
  have keep: "wp_no_progress p1 = wp_no_progress p" "wp_max_no_progress p1 = wp_max_no_progress p"
    using relax relax_keeps [of p "pl_estimated_tokens plan"] by simp_all
  have "\<not> progress"
    using assms(2) final by (auto simp: progress p' sufficient_progress_def admits_def)
  with bound p' keep show ?thesis by simp
next
  case False
  with assms show ?thesis
    by (auto simp: compact_def Let_def requires_compaction_def admits_def)
qed

text \<open>
  C20: a run cannot go on compacting in vain: if none of its compactions brings the prompt within
  the threshold, it ends with an error before it has made as many attempts as it may.
\<close>

theorem compaction_stalls:
  assumes "wp_no_progress p + int (length rs) \<ge> wp_max_no_progress p" and "rs \<noteq> []"
  shows "(\<exists>e. compactions pe rs p = Inl e)
    \<or> (\<exists>tr oc q. compactions pe rs p = Inr tr \<and> (oc, q) \<in> set tr \<and> oc_final_tokens oc \<le> threshold_tokens q)"
  using assms
proof (induction rs arbitrary: p)
  case (Cons r rs)
  show ?case
  proof (cases "compact pe r p")
    case (Pair res p')
    show ?thesis
    proof (cases res)
      case (Inr oc)
      show ?thesis
      proof (cases "admits p' (oc_final_tokens oc)")
        case True
        then show ?thesis
          using Pair Inr by (cases "compactions pe rs p'") (auto simp: admits_def)
      next
        case False
        from compact_counts [OF Pair [unfolded Inr] False] Cons.prems(1)
        have "wp_max_no_progress p' \<le> wp_no_progress p' + int (length rs)" "rs \<noteq> []" by auto
        from Cons.IH [OF this] show ?thesis
        proof (elim disjE exE conjE)
          fix tr oc' q
          assume "compactions pe rs p' = Inr tr" "(oc', q) \<in> set tr" "oc_final_tokens oc' \<le> threshold_tokens q"
          then have "compactions pe (r # rs) p = Inr ((oc, p') # tr)" "(oc', q) \<in> set ((oc, p') # tr)"
            "oc_final_tokens oc' \<le> threshold_tokens q"
            using Pair Inr by simp_all
          then show ?thesis by blast
        qed (use Pair Inr in simp)
      qed
    qed (use Pair in simp)
  qed
qed simp

section \<open>Concrete runs\<close>

definition ex_planner :: planner_env where
  "ex_planner = \<lparr>pe_digest = id, pe_exc_text = (\<lambda>e. ''error'')\<rparr>"

definition ex_policy :: window_policy where
  "ex_policy = resolve_policy Map.empty ''openai/gpt-6.1-sol'' None (Some ''medium'') None PyNone"

lemma threshold_stays_bounded_witness:
  "threshold_tokens (snd (admit ex_planner [] PyNone PyNone ''s'' ''p'' ex_policy))
     \<le> effective_input_limit_tokens (wp_budget ex_policy)"
proof -
  have "(policy_step ex_planner)\<^sup>*\<^sup>* ex_policy (snd (admit ex_planner [] PyNone PyNone ''s'' ''p'' ex_policy))"
    by (intro r_into_rtranclp policy_step.admission)
  from threshold_stays_bounded [OF this [unfolded ex_policy_def]] show ?thesis
    by (simp add: Let_def ex_policy_def resolve_policy_def policy_of_budget_def)
qed

text \<open>A small model with a preferred threshold of 6 tokens and a hard ceiling of 900.\<close>

definition ex_small :: window_policy where
  "ex_small = policy_of_budget
     \<lparr>mb_provider = ''openai'', mb_model = ''small'', context_window_tokens = 2000, reserved_output_tokens = 1000,
      reserved_reasoning_tokens = 0, reserved_tool_tokens = 0, safety_margin_tokens = 0,
      effective_input_limit_tokens = 1000, auto_compact_threshold_tokens = 6, target_tokens = 4,
      emergency_target_tokens = 3, mb_source = ''model_context_budget_v1'', admission_ceiling_tokens = Some 900\<rparr>"

lemma admission_exact_witness:
  "\<exists>a. fst (admit ex_planner [ex_said USER ''hello''] PyNone PyNone ''s'' ''p'' ex_small) = Inr a \<and> ad_floor_tokens a = 10"
proof -
  let ?ms = "[ex_said USER ''hello'']"
  have "map_sum id pl_estimated_tokens (plan_session_compaction (pe_digest ex_planner) (pe_exc_text ex_planner) None
      (admission_options ex_small ''s'' ''p'' PyNone PyNone) ?ms) = Inr 10"
    by code_simp
  then obtain plan where plan: "plan_session_compaction (pe_digest ex_planner) (pe_exc_text ex_planner) None
      (admission_options ex_small ''s'' ''p'' PyNone PyNone) ?ms = Inr plan" "pl_estimated_tokens plan = 10"
    by (cases "plan_session_compaction (pe_digest ex_planner) (pe_exc_text ex_planner) None
      (admission_options ex_small ''s'' ''p'' PyNone PyNone) ?ms") auto
  have "policy_ok ex_small"
    by (simp add: policy_ok_def threshold_tokens_def ex_small_def policy_of_budget_def)
  note exact = admission_exact [OF plan(1) this]
  have "admission_ceiling_tokens (wp_budget ex_small) = Some 900"
    by (simp add: ex_small_def policy_of_budget_def)
  with exact plan(2) show ?thesis
    by (cases "admit ex_planner ?ms PyNone PyNone ''s'' ''p'' ex_small";
        cases "fst (admit ex_planner ?ms PyNone PyNone ''s'' ''p'' ex_small)") auto
qed

definition ex_request :: compaction_request where
  "ex_request = \<lparr>cr_messages = [ex_said USER ''hello''], cr_session_id = ''s'', cr_phase = ''p'', cr_system = PyNone,
     cr_tools = PyNone, cr_max_messages = 40, cr_compactor = None, cr_force = True, cr_emergency = False\<rparr>"

lemma compaction_stalls_witness:
  "(\<exists>e. compactions ex_planner [ex_request, ex_request, ex_request] ex_small = Inl e)
   \<or> (\<exists>tr oc q. compactions ex_planner [ex_request, ex_request, ex_request] ex_small = Inr tr
        \<and> (oc, q) \<in> set tr \<and> oc_final_tokens oc \<le> threshold_tokens q)"
proof -
  have "wp_max_no_progress ex_small \<le> wp_no_progress ex_small + int (length [ex_request, ex_request, ex_request])"
    by (simp add: ex_small_def policy_of_budget_def DEFAULT_MAX_COMPACTION_NO_PROGRESS_def)
  from compaction_stalls [OF this list.distinct(2), of ex_planner] show ?thesis .
qed

end
