(* ===== verification/Failure_Guard.thy ===== *)
theory Failure_Guard
  imports Py_Time
begin

text \<open>
  The neutral latch and edge evaluation of \<open>systems/failure_guard/core.py\<close> over the
  interface of a latch store, and the registered triggers with their persisted states. The cycle and the
  scheduler, which use them, follow in Cycle_Guard and Scheduler_Guard.
\<close>

section \<open>Results, edges and evaluations\<close>

record trigger_result =
  tg_kind :: string
  tg_active :: bool
  tg_details :: pydict
  tg_title :: string
  tg_summary :: string

definition RESERVED_PUBLIC_DETAIL_KEYS :: "string list" where
  "RESERVED_PUBLIC_DETAIL_KEYS = [''alerted_at'', ''crossed'', ''kind'']"

text \<open>The checks of a result's construction; the keys of a message are sorted.\<close>

definition make_trigger_result :: "string \<Rightarrow> bool \<Rightarrow> pydict \<Rightarrow> string \<Rightarrow> string \<Rightarrow> trigger_result result" where
  "make_trigger_result kind active details title summary =
     (let conflicts = filter (\<lambda>k. k \<in> set (map fst details)) RESERVED_PUBLIC_DETAIL_KEYS in
      if kind = [] then Inl (ValueError ''failure-guard trigger kind must not be empty'')
      else if conflicts \<noteq> []
      then Inl (ValueError (''Failure-guard trigger details use reserved keys: '' @ py_join '', '' conflicts))
      else Inr \<lparr>tg_kind = kind, tg_active = active, tg_details = details, tg_title = title, tg_summary = summary\<rparr>)"

record failure_edge =
  fe_kind :: string
  fe_details :: pydict
  fe_alerted_at :: "instant option"
  fe_crossed :: bool
  fe_title :: string
  fe_summary :: string

record guard_evaluation =
  ge_signature :: "string option"
  ge_last_error :: "string option"
  ge_edges :: "failure_edge list"

definition crossed_edges :: "guard_evaluation \<Rightarrow> failure_edge list" where
  "crossed_edges ev = filter fe_crossed (ge_edges ev)"

definition serialize_failure_guard :: "guard_evaluation \<Rightarrow> pydict" where
  "serialize_failure_guard ev =
     [(''failure_signature'', opt_str (ge_signature ev)), (''last_error'', opt_str (ge_last_error ev)),
      (''triggers'', PyList (map (\<lambda>e. PyDict
         (dset (dset (dmerge [(''kind'', PyStr (fe_kind e))] (fe_details e))
            ''alerted_at'' (case fe_alerted_at e of None \<Rightarrow> PyNone | Some t \<Rightarrow> PyStr (isoformat t)))
            ''crossed'' (PyBool (fe_crossed e)))) (ge_edges ev)))]"

datatype edge_mode = EdgeIgnore | EdgeDetect | EdgeLatch

section \<open>Failure records and registered triggers\<close>

record failure_record =
  fr_signature_input :: string
  fr_error_text :: string

definition make_failure_record :: "string \<Rightarrow> string \<Rightarrow> failure_record result" where
  "make_failure_record signature_input error_text =
     (if py_strip signature_input = [] then Inl (ValueError ''failure signature input must not be empty'')
      else Inr \<lparr>fr_signature_input = signature_input, fr_error_text = error_text\<rparr>)"

datatype lifecycle_event = NewFailure | RepeatedFailure | Success

text \<open>
  A registration binds a trigger to its mode. A stateless trigger is its \<open>evaluate\<close>; a stateful one is its
  \<open>evaluate_with_state\<close> and its \<open>transition_state\<close>, whose \<open>None\<close> clears the state.
\<close>

datatype 'c registration =
    Stateless (rg_kind: string) (rg_evaluate: "'c \<Rightarrow> trigger_result result")
  | Stateful (rg_kind: string) (rg_evaluate_with_state: "'c \<Rightarrow> pydict \<Rightarrow> trigger_result result")
      (rg_transition: "'c \<Rightarrow> pydict \<Rightarrow> lifecycle_event \<Rightarrow> pydict option result")

type_synonym trigger_states = "string \<Rightarrow> pydict option"

definition state_of :: "trigger_states \<Rightarrow> string \<Rightarrow> pydict" where
  "state_of states k = (case states k of None \<Rightarrow> [] | Some d \<Rightarrow> d)"

fun evaluate_failure_guard_triggers ::
  "'c registration list \<Rightarrow> 'c \<Rightarrow> trigger_states \<Rightarrow> trigger_result list result" where
  "evaluate_failure_guard_triggers [] c states = Inr []"
| "evaluate_failure_guard_triggers (g # gs) c states =
     rbind (case g of Stateful k ev tr \<Rightarrow> ev c (state_of states k) | Stateless k ev \<Rightarrow> ev c) (\<lambda>r.
     rbind (evaluate_failure_guard_triggers gs c states) (\<lambda>rs. Inr (r # rs)))"

text \<open>Every transition reads the states as they were loaded before the first one.\<close>

fun transition_states_loop ::
  "'c registration list \<Rightarrow> 'c \<Rightarrow> lifecycle_event \<Rightarrow> trigger_states \<Rightarrow> trigger_states \<Rightarrow> trigger_states result" where
  "transition_states_loop [] c event loaded states = Inr states"
| "transition_states_loop (Stateless k ev # gs) c event loaded states =
     transition_states_loop gs c event loaded states"
| "transition_states_loop (Stateful k ev tr # gs) c event loaded states =
     rbind (tr c (state_of loaded k) event) (\<lambda>next.
       transition_states_loop gs c event loaded (states(k := next)))"

definition transition_failure_guard_trigger_states ::
  "'c registration list \<Rightarrow> 'c \<Rightarrow> lifecycle_event \<Rightarrow> trigger_states \<Rightarrow> trigger_states result" where
  "transition_failure_guard_trigger_states gs c event states = transition_states_loop gs c event states states"

text \<open>The check of a registry's construction; \<open>owner\<close> is the consumer's name.\<close>

definition check_registry :: "string \<Rightarrow> 'c registration list \<Rightarrow> 'c registration list result" where
  "check_registry owner gs =
     (if list_ex (\<lambda>g. rg_kind g = []) gs
      then Inl (ValueError (owner @ '' failure-guard trigger kinds must not be empty''))
      else if \<not> distinct (map rg_kind gs)
      then Inl (ValueError (owner @ '' failure-guard trigger kinds must be unique''))
      else Inr gs)"

section \<open>Evaluation over a latch store\<close>

definition edge_of :: "trigger_result \<Rightarrow> instant option \<Rightarrow> bool \<Rightarrow> failure_edge" where
  "edge_of r alerted crossed =
     \<lparr>fe_kind = tg_kind r, fe_details = tg_details r, fe_alerted_at = alerted, fe_crossed = crossed,
      fe_title = tg_title r, fe_summary = tg_summary r\<rparr>"

fun evaluate_edges_loop ::
  "(string \<Rightarrow> instant \<Rightarrow> 's \<Rightarrow> 's result) \<Rightarrow> edge_mode \<Rightarrow> instant \<Rightarrow> (string \<Rightarrow> instant option) \<Rightarrow>
   trigger_result list \<Rightarrow> 's \<Rightarrow> (failure_edge list \<times> 's) result" where
  "evaluate_edges_loop create mode now latches [] s = Inr ([], s)"
| "evaluate_edges_loop create mode now latches (r # rs) s =
     (let crossed = (mode \<noteq> EdgeIgnore \<and> tg_active r \<and> latches (tg_kind r) = None) in
      if crossed \<and> mode = EdgeLatch then
        rbind (create (tg_kind r) now s) (\<lambda>s'.
        rbind (evaluate_edges_loop create mode now (latches(tg_kind r \<mapsto> now)) rs s') (\<lambda>(es, s'').
          Inr (edge_of r (Some now) True # es, s'')))
      else
        rbind (evaluate_edges_loop create mode now latches rs s) (\<lambda>(es, s').
          Inr (edge_of r (latches (tg_kind r)) crossed # es, s')))"

definition evaluate_failure_edges ::
  "('s \<Rightarrow> string \<Rightarrow> instant option) \<Rightarrow> (string \<Rightarrow> instant \<Rightarrow> 's \<Rightarrow> 's result) \<Rightarrow> edge_mode \<Rightarrow> instant \<Rightarrow>
   trigger_result list \<Rightarrow> string option \<Rightarrow> string option \<Rightarrow> 's \<Rightarrow> (guard_evaluation \<times> 's) result" where
  "evaluate_failure_edges load create mode now results signature last_error s =
     (if \<not> distinct (map tg_kind results) then Inl (ValueError ''Failure-guard trigger kinds must be unique'')
      else rbind (evaluate_edges_loop create mode now (load s) results s) (\<lambda>(es, s').
        Inr (\<lparr>ge_signature = signature, ge_last_error = last_error, ge_edges = es\<rparr>, s')))"

fun latch_edges_loop ::
  "(string \<Rightarrow> instant \<Rightarrow> 's \<Rightarrow> 's result) \<Rightarrow> instant \<Rightarrow> failure_edge list \<Rightarrow> 's \<Rightarrow> (failure_edge list \<times> 's) result" where
  "latch_edges_loop create at [] s = Inr ([], s)"
| "latch_edges_loop create at (e # es) s =
     (if \<not> fe_crossed e \<or> fe_alerted_at e \<noteq> None
      then rbind (latch_edges_loop create at es s) (\<lambda>(es', s'). Inr (e # es', s'))
      else rbind (create (fe_kind e) at s) (\<lambda>s'.
           rbind (latch_edges_loop create at es s') (\<lambda>(es', s'').
             Inr (e\<lparr>fe_alerted_at := Some at\<rparr> # es', s''))))"

definition latch_failure_edges ::
  "(string \<Rightarrow> instant \<Rightarrow> 's \<Rightarrow> 's result) \<Rightarrow> guard_evaluation \<Rightarrow> instant \<Rightarrow> 's \<Rightarrow> (guard_evaluation \<times> 's) result" where
  "latch_failure_edges create ev at s =
     rbind (latch_edges_loop create at (ge_edges ev) s) (\<lambda>(es, s'). Inr (ev\<lparr>ge_edges := es\<rparr>, s'))"

text \<open>The latches after all given edges are latched.\<close>

definition latched :: "instant \<Rightarrow> (string \<Rightarrow> instant option) \<Rightarrow> trigger_result list \<Rightarrow> string \<Rightarrow> instant option" where
  "latched now l results =
     (\<lambda>k. if l k = None \<and> k \<in> tg_kind ` set (filter tg_active results) then Some now else l k)"

lemma evaluated_kinds:
  assumes "evaluate_failure_guard_triggers gs c states = Inr rs"
    and "\<And>g r st. g \<in> set gs \<Longrightarrow> (case g of Stateful k ev tr \<Rightarrow> ev c st | Stateless k ev \<Rightarrow> ev c) = Inr r \<Longrightarrow> tg_kind r = rg_kind g"
  shows "map tg_kind rs = map rg_kind gs"
  using assms
proof (induction gs arbitrary: rs)
  case (Cons g gs)
  from Cons.prems(1) obtain r rs' where r: "(case g of Stateful k ev tr \<Rightarrow> ev c (state_of states k) | Stateless k ev \<Rightarrow> ev c) = Inr r"
    and rs': "evaluate_failure_guard_triggers gs c states = Inr rs'" and rs: "rs = r # rs'"
    by (auto simp: rbind_Inr_iff)
  have "tg_kind r = rg_kind g"
    using r Cons.prems(2) [of g "state_of states (rg_kind g)" r] by (cases g) auto
  moreover have "map tg_kind rs' = map rg_kind gs"
    using rs' Cons.prems(2) by (intro Cons.IH) auto
  ultimately show ?case by (simp add: rs)
qed simp

text \<open>A transition touches no state but that of its stateful triggers.\<close>

lemma transition_frame:
  "transition_states_loop gs c event loaded states = Inr states' \<Longrightarrow> k \<notin> rg_kind ` set gs \<Longrightarrow> states' k = states k"
  by (induction gs c event loaded states rule: transition_states_loop.induct) (auto simp: rbind_Inr_iff)

section \<open>The interface of a latch store\<close>

text \<open>
  \<open>FailureGuardStore\<close>: what the evaluator may rely on. A new latch is found afterwards and changes no
  other; a second latch of the same trigger is refused.
\<close>

locale latch_store =
  fixes load :: "'s \<Rightarrow> string \<Rightarrow> instant option"
    and create :: "string \<Rightarrow> instant \<Rightarrow> 's \<Rightarrow> 's result"
  assumes create_new: "load s k = None \<Longrightarrow> \<exists>s'. create k t s = Inr s' \<and> load s' = (load s)(k \<mapsto> t)"
    and create_taken: "load s k \<noteq> None \<Longrightarrow> create k t s = Inl IntegrityError"
begin

lemma detect_edges:
  "evaluate_edges_loop create EdgeDetect now l rs s
   = Inr (map (\<lambda>r. edge_of r (l (tg_kind r)) (tg_active r \<and> l (tg_kind r) = None)) rs, s)"
  by (induction rs) (simp_all add: Let_def)

lemma ignore_edges:
  "evaluate_edges_loop create EdgeIgnore now l rs s = Inr (map (\<lambda>r. edge_of r (l (tg_kind r)) False) rs, s)"
  by (induction rs) (simp_all add: Let_def)

lemma latch_edges:
  "distinct (map tg_kind rs) \<Longrightarrow> load s = l \<Longrightarrow>
   \<exists>s'. evaluate_edges_loop create EdgeLatch now l rs s
      = Inr (map (\<lambda>r. edge_of r (latched now l rs (tg_kind r)) (tg_active r \<and> l (tg_kind r) = None)) rs, s')
    \<and> load s' = latched now l rs"
proof (induction rs arbitrary: s l)
  case (Cons r rs)
  show ?case
  proof (cases "tg_active r \<and> l (tg_kind r) = None")
    case True
    with Cons.prems create_new [of s "tg_kind r" now]
    obtain s1 where s1: "create (tg_kind r) now s = Inr s1" "load s1 = l(tg_kind r \<mapsto> now)" by auto
    have later: "latched now (l(tg_kind r \<mapsto> now)) rs = latched now l (r # rs)"
      using True by (auto simp: latched_def fun_eq_iff)
    define l' where "l' = l(tg_kind r \<mapsto> now)"
    have edges: "map (\<lambda>x. edge_of x (latched now l (r # rs) (tg_kind x)) (tg_active x \<and> l' (tg_kind x) = None)) rs
        = map (\<lambda>x. edge_of x (latched now l (r # rs) (tg_kind x)) (tg_active x \<and> l (tg_kind x) = None)) rs"
      using Cons.prems(1) by (auto simp: image_iff l'_def)
    have head: "latched now l (r # rs) (tg_kind r) = Some now" using True by (simp add: latched_def)
    obtain s' where s': "evaluate_edges_loop create EdgeLatch now l' rs s1
        = Inr (map (\<lambda>x. edge_of x (latched now l (r # rs) (tg_kind x)) (tg_active x \<and> l (tg_kind x) = None)) rs, s')"
      "load s' = latched now l (r # rs)"
      using Cons.IH [of s1 l'] Cons.prems(1) s1(2) edges later by (auto simp: l'_def [symmetric])
    show ?thesis
      using True s1(1) s' head by (simp add: Let_def l'_def [symmetric])
  next
    case False
    have "latched now l rs = latched now l (r # rs)"
      using False Cons.prems(1) by (auto simp: latched_def fun_eq_iff)
    moreover have "latched now l (r # rs) (tg_kind r) = l (tg_kind r)"
      using False Cons.prems(1) by (auto simp: latched_def)
    ultimately show ?thesis
      using Cons.IH [of s l] Cons.prems False by (auto simp: Let_def)
  qed
qed (simp add: latched_def fun_eq_iff)

lemma latch_detected:
  "distinct (map tg_kind rs) \<Longrightarrow> load s = l \<Longrightarrow>
   \<exists>s'. latch_edges_loop create at (map (\<lambda>r. edge_of r (l (tg_kind r)) (tg_active r \<and> l (tg_kind r) = None)) rs) s
      = Inr (map (\<lambda>r. edge_of r (latched at l rs (tg_kind r)) (tg_active r \<and> l (tg_kind r) = None)) rs, s')
    \<and> load s' = latched at l rs"
proof -
  have gen: "\<exists>s'. latch_edges_loop create at
        (map (\<lambda>r. edge_of r (l (tg_kind r)) (tg_active r \<and> l (tg_kind r) = None)) xs) s
      = Inr (map (\<lambda>r. edge_of r (latched at l (ys @ xs) (tg_kind r)) (tg_active r \<and> l (tg_kind r) = None)) xs, s')
    \<and> load s' = latched at l (ys @ xs)"
    if "distinct (map tg_kind (ys @ xs))" "load s = latched at l ys" for xs ys s
    using that
  proof (induction xs arbitrary: ys s)
    case (Cons x xs)
    from Cons.prems(1) have d: "distinct (map tg_kind ((ys @ [x]) @ xs))" by simp
    have fresh: "latched at l ys (tg_kind x) = l (tg_kind x)"
      using Cons.prems(1) by (auto simp: latched_def)
    show ?case
    proof (cases "tg_active x \<and> l (tg_kind x) = None")
      case True
      with fresh Cons.prems(2) create_new [of s "tg_kind x" at]
      obtain s1 where s1: "create (tg_kind x) at s = Inr s1" "load s1 = (latched at l ys)(tg_kind x \<mapsto> at)" by auto
      have "load s1 = latched at l (ys @ [x])" using s1(2) True by (auto simp: latched_def fun_eq_iff)
      moreover have "latched at l (ys @ x # xs) (tg_kind x) = Some at" using True by (simp add: latched_def)
      ultimately show ?thesis
        using Cons.IH [OF d, of s1] s1(1) True by (auto simp: edge_of_def)
    next
      case False
      have "load s = latched at l (ys @ [x])" using Cons.prems(2) False by (auto simp: latched_def fun_eq_iff)
      moreover have "latched at l (ys @ x # xs) (tg_kind x) = l (tg_kind x)"
        using False Cons.prems(1) by (auto simp: latched_def)
      ultimately show ?thesis
        using Cons.IH [OF d, of s] False by (auto simp: edge_of_def)
    qed
  qed simp
  assume "distinct (map tg_kind rs)" "load s = l"
  then show ?thesis using gen [of "[]" rs s] by (simp add: latched_def fun_eq_iff)
qed

text \<open>Detecting first and latching after delivery leaves the edges and latches that latching at once leaves.\<close>

lemma detect_then_latch:
  assumes "distinct (map tg_kind rs)"
  shows "\<exists>ev s1 s2. rbind (evaluate_failure_edges load create EdgeDetect now rs sig err s)
        (\<lambda>(ev, s'). latch_failure_edges create ev now s') = Inr (ev, s1)
    \<and> evaluate_failure_edges load create EdgeLatch now rs sig err s = Inr (ev, s2)
    \<and> load s1 = load s2"
  using latch_edges [OF assms refl, of now s] latch_detected [OF assms refl, of now s]
  by (auto simp: evaluate_failure_edges_def latch_failure_edges_def detect_edges assms)

text \<open>What was crossed and latched is not crossed again while its latch stands.\<close>

lemma latched_not_crossed:
  assumes "evaluate_failure_edges load create mode now rs sig err s = Inr (ev, s')" and "e \<in> set (ge_edges ev)"
    and "load s (fe_kind e) \<noteq> None"
  shows "\<not> fe_crossed e"
proof -
  have d: "distinct (map tg_kind rs)" using assms(1) by (simp add: evaluate_failure_edges_def split: if_splits)
  show ?thesis
    using assms latch_edges [OF d refl, of now s]
    by (cases mode) (auto simp: evaluate_failure_edges_def d detect_edges ignore_edges edge_of_def)
qed

end

end
