(* ===== verification/Cycle_Guard.thy ===== *)
theory Cycle_Guard
  imports Failure_Guard
begin

text \<open>
  The failure guard of a cycle: \<open>systems/cycles/cycle_failure_guard.py\<close> with its latches
  (\<open>systems/failure_guard/cycle_latches.py\<close>), its persisted trigger state
  (\<open>systems/failure_guard/state_repository.py\<close>) and the alert text
  (\<open>systems/failure_guard/slack_delivery.py\<close>). The digest of a failure identity
  (\<open>failure_signature\<close>) is the argument \<open>digest\<close>. At the end, the guard is compared with a machine of
  three variables, and a streak is shown to raise one alert.
\<close>

section \<open>Rows\<close>

record cycle_row =
  cy_name :: string
  cy_signature :: "string option"
  cy_last_error :: "string option"

text \<open>The tables the guard reads and writes, keyed as in the schema.\<close>

record cycle_db =
  cd_cycles :: "int \<Rightarrow> cycle_row option"
  cd_observations :: "int \<Rightarrow> instant option"
  cd_latches :: "((int \<times> string) \<times> instant) list"
  cd_states :: "int \<Rightarrow> trigger_states"

section \<open>The latches of a cycle\<close>

definition cycle_load_latches :: "int \<Rightarrow> cycle_db \<Rightarrow> string \<Rightarrow> instant option" where
  "cycle_load_latches c d = (\<lambda>k. map_of (cd_latches d) (c, k))"

text \<open>The row is inserted at the flush, where a second one of the same key is refused.\<close>

definition cycle_create_latch :: "int \<Rightarrow> string \<Rightarrow> instant \<Rightarrow> cycle_db \<Rightarrow> cycle_db result" where
  "cycle_create_latch c k at d =
     (case map_of (cd_latches d) (c, k) of
        None \<Rightarrow> Inr (d\<lparr>cd_latches := ((c, k), at) # cd_latches d\<rparr>)
      | Some _ \<Rightarrow> Inl IntegrityError)"

definition try_claim_latch :: "int \<Rightarrow> string \<Rightarrow> instant \<Rightarrow> cycle_db \<Rightarrow> bool \<times> cycle_db" where
  "try_claim_latch c k at d =
     (case map_of (cd_latches d) (c, k) of
        None \<Rightarrow> (True, d\<lparr>cd_latches := ((c, k), at) # cd_latches d\<rparr>)
      | Some _ \<Rightarrow> (False, d))"

definition release_latch :: "int \<Rightarrow> string \<Rightarrow> instant option \<Rightarrow> cycle_db \<Rightarrow> cycle_db" where
  "release_latch c k alerted_at d =
     d\<lparr>cd_latches := filter (\<lambda>((c', k'), at).
         \<not> (c' = c \<and> k' = k \<and> (case alerted_at of None \<Rightarrow> True | Some t \<Rightarrow> at = t))) (cd_latches d)\<rparr>"

definition load_cycle_ids_for_trigger :: "string \<Rightarrow> cycle_db \<Rightarrow> int set" where
  "load_cycle_ids_for_trigger k d = set (map (fst \<circ> fst) (filter (\<lambda>r. snd (fst r) = k) (cd_latches d)))"

definition cycle_delete_latch :: "int \<Rightarrow> string \<Rightarrow> cycle_db \<Rightarrow> cycle_db" where
  "cycle_delete_latch c k d = d\<lparr>cd_latches := filter (\<lambda>r. fst r \<noteq> (c, k)) (cd_latches d)\<rparr>"

lemma map_of_filter_keys: "map_of (filter (\<lambda>r. fst r \<noteq> k) xs) = (map_of xs)(k := None)"
  by (induction xs) (auto simp: fun_eq_iff)

lemma load_delete [simp]: "cycle_load_latches c (cycle_delete_latch c k d) = (cycle_load_latches c d)(k := None)"
  by (simp add: cycle_load_latches_def cycle_delete_latch_def map_of_filter_keys fun_eq_iff)

lemma load_frame [simp]:
  "cycle_load_latches c (d\<lparr>cd_states := x\<rparr>) = cycle_load_latches c d"
  "cycle_load_latches c (d\<lparr>cd_cycles := y\<rparr>) = cycle_load_latches c d"
  "cycle_load_latches c (d\<lparr>cd_observations := z\<rparr>) = cycle_load_latches c d"
  by (simp_all add: cycle_load_latches_def)

interpretation cycle_latches: latch_store "\<lambda>d. cycle_load_latches c d" "cycle_create_latch c" for c
  by unfold_locales (auto simp: cycle_load_latches_def cycle_create_latch_def fun_eq_iff)

section \<open>Policies\<close>

definition CYCLE_FAILURE_ALERT_THRESHOLD_DEFAULT :: int where "CYCLE_FAILURE_ALERT_THRESHOLD_DEFAULT = 3"
definition CYCLE_REPEATED_FAILURE_ALERT_CLASS :: string where "CYCLE_REPEATED_FAILURE_ALERT_CLASS = ''repeated_failure''"
definition CYCLE_AUTH_BLOCKED_ALERT_CLASS :: string where "CYCLE_AUTH_BLOCKED_ALERT_CLASS = ''auth_blocked''"
definition CYCLE_CONSECUTIVE_TRIGGER_KIND :: string where "CYCLE_CONSECUTIVE_TRIGGER_KIND = ''consecutive''"

text \<open>\<open>_positive_int_setting\<close>.\<close>

definition positive_int_setting :: "environ \<Rightarrow> string \<Rightarrow> int \<Rightarrow> int" where
  "positive_int_setting env name dflt = max 1 (getenv_int env name dflt)"

definition cycle_failure_alert_threshold :: "environ \<Rightarrow> int" where
  "cycle_failure_alert_threshold env =
     positive_int_setting env ''CYCLE_FAILURE_ALERT_THRESHOLD'' CYCLE_FAILURE_ALERT_THRESHOLD_DEFAULT"

definition immediate_alert_threshold :: "environ \<Rightarrow> int" where
  "immediate_alert_threshold env = 1"

record cycle_failure_input =
  fi_classification :: string
  fi_record :: failure_record
  fi_threshold :: int
  fi_alert_class :: string
  fi_operator_action :: "string option"

definition make_cycle_failure_input ::
  "string \<Rightarrow> failure_record \<Rightarrow> int \<Rightarrow> string \<Rightarrow> string option \<Rightarrow> cycle_failure_input result" where
  "make_cycle_failure_input classification r threshold alert_class action =
     (if py_strip classification = [] then Inl (ValueError ''cycle failure classification must not be empty'')
      else if threshold < 1 then Inl (ValueError ''cycle failure alert threshold must be positive'')
      else if py_strip alert_class = [] then Inl (ValueError ''cycle failure alert class must not be empty'')
      else if (case action of None \<Rightarrow> False | Some a \<Rightarrow> py_strip a = [])
      then Inl (ValueError ''cycle failure operator action must not be empty'')
      else Inr \<lparr>fi_classification = classification, fi_record = r, fi_threshold = threshold,
                fi_alert_class = alert_class, fi_operator_action = action\<rparr>)"

datatype cycle_terminal_policy =
    is_reset_policy: ResetCycleTerminalPolicy
  | is_ignore_policy: IgnoreCycleTerminalPolicy
  | RecordCycleFailurePolicy (cp_classification: string) (cp_default_error: string)
      (cp_alert_threshold: "environ \<Rightarrow> int") (cp_alert_class: string) (cp_operator_action: "string option")

definition failure_input :: "environ \<Rightarrow> cycle_terminal_policy \<Rightarrow> string option \<Rightarrow> cycle_failure_input result" where
  "failure_input env policy error_text =
     (case policy of
        RecordCycleFailurePolicy classification default_error provide_threshold alert_class action \<Rightarrow>
          (let failure_error = py_strip (case error_text of None \<Rightarrow> default_error
                 | Some t \<Rightarrow> if t = [] then default_error else t) in
           rbind (make_failure_record (''cycle_status:'' @ classification @ [CHR 0x0A] @ failure_error) failure_error)
             (\<lambda>r. make_cycle_failure_input classification r (provide_threshold env) alert_class action))
      | _ \<Rightarrow> Inl AttributeError)"

definition CYCLE_TERMINAL_POLICIES :: "(string \<times> cycle_terminal_policy) list" where
  "CYCLE_TERMINAL_POLICIES =
     [(''completed'', ResetCycleTerminalPolicy),
      (''failed'', RecordCycleFailurePolicy ''failed'' ''Cycle ended with failed status''
         cycle_failure_alert_threshold CYCLE_REPEATED_FAILURE_ALERT_CLASS None),
      (''skipped'', IgnoreCycleTerminalPolicy),
      (''degraded'', RecordCycleFailurePolicy ''degraded'' ''Cycle ended with degraded status''
         cycle_failure_alert_threshold CYCLE_REPEATED_FAILURE_ALERT_CLASS None),
      (''auth_blocked'', RecordCycleFailurePolicy ''auth_blocked'' ''Cycle authentication is blocked''
         immediate_alert_threshold CYCLE_AUTH_BLOCKED_ALERT_CLASS
         (Some ''reconnect OpenAI in Settings > Access'')),
      (''quota_blocked'', IgnoreCycleTerminalPolicy)]"

section \<open>The consecutive-failures trigger\<close>

definition consecutive_window :: "int \<Rightarrow> string" where
  "consecutive_window threshold = show_int threshold @ '' consecutive scheduled runs''"

definition scheduled_interval_window :: "int \<Rightarrow> string" where
  "scheduled_interval_window threshold = ''1 scheduled interval''"

definition CYCLE_ALERT_PRESENTATIONS :: "(string \<times> string \<times> (int \<Rightarrow> string)) list" where
  "CYCLE_ALERT_PRESENTATIONS =
     [(CYCLE_REPEATED_FAILURE_ALERT_CLASS, ''Cycle repeated failure'', consecutive_window),
      (CYCLE_AUTH_BLOCKED_ALERT_CLASS, ''Cycle authentication blocked'', scheduled_interval_window)]"

text \<open>\<open>int(state.get("count", 0))\<close>.\<close>

definition state_count :: "pydict \<Rightarrow> int result" where
  "state_count state = (case map_of state ''count'' of None \<Rightarrow> Inr 0 | Some v \<Rightarrow> int_or_error v)"

definition cycle_consecutive_result :: "cycle_failure_input \<Rightarrow> int \<Rightarrow> trigger_result result" where
  "cycle_consecutive_result f count =
     (case map_of CYCLE_ALERT_PRESENTATIONS (fi_alert_class f) of
        None \<Rightarrow> Inl (KeyError (fi_alert_class f))
      | Some (title, describe_window) \<Rightarrow>
          make_trigger_result CYCLE_CONSECUTIVE_TRIGGER_KIND (fi_threshold f \<le> count)
            [(''classification'', PyStr (fi_classification f)), (''count'', PyInt count),
             (''threshold'', PyInt (fi_threshold f)), (''window_runs'', PyInt (fi_threshold f))]
            title
            (py_join [CHR 0x0A]
              ([''Failure count: '' @ show_int count, ''Window: '' @ describe_window (fi_threshold f)]
               @ (case fi_operator_action f of None \<Rightarrow> [] | Some a \<Rightarrow> [''Action: '' @ a]))))"

definition cycle_consecutive_evaluate :: "cycle_failure_input option \<Rightarrow> pydict \<Rightarrow> trigger_result result" where
  "cycle_consecutive_evaluate failure state =
     (case failure of
        None \<Rightarrow> Inl (ValueError ''Cycle failure trigger evaluation requires a failure'')
      | Some f \<Rightarrow> rbind (state_count state) (cycle_consecutive_result f))"

definition consecutive_transition :: "'c \<Rightarrow> pydict \<Rightarrow> lifecycle_event \<Rightarrow> pydict option result" where
  "consecutive_transition context state event =
     (case event of
        Success \<Rightarrow> Inr None
      | NewFailure \<Rightarrow> Inr (Some [(''count'', PyInt 1)])
      | RepeatedFailure \<Rightarrow> rbind (state_count state) (\<lambda>n. Inr (Some [(''count'', PyInt (n + 1))])))"

definition cycle_failure_guard_registry :: "cycle_failure_input option registration list result" where
  "cycle_failure_guard_registry =
     check_registry ''Cycle''
       [Stateful CYCLE_CONSECUTIVE_TRIGGER_KIND cycle_consecutive_evaluate consecutive_transition]"

section \<open>A terminal outcome\<close>

definition claim_observation :: "int \<Rightarrow> instant \<Rightarrow> cycle_db \<Rightarrow> bool \<times> cycle_db" where
  "claim_observation run at d =
     (if cd_observations d run = None then (True, d\<lparr>cd_observations := (cd_observations d)(run \<mapsto> at)\<rparr>)
      else (False, d))"

fun delete_latches :: "int \<Rightarrow> (string \<Rightarrow> instant option) \<Rightarrow> 'c registration list \<Rightarrow> cycle_db \<Rightarrow> cycle_db" where
  "delete_latches c latches [] d = d"
| "delete_latches c latches (g # gs) d =
     delete_latches c latches gs (if latches (rg_kind g) = None then d else cycle_delete_latch c (rg_kind g) d)"

definition transition_cycle_states ::
  "int \<Rightarrow> 'c registration list \<Rightarrow> 'c \<Rightarrow> lifecycle_event \<Rightarrow> cycle_db \<Rightarrow> cycle_db result" where
  "transition_cycle_states c gs context event d =
     rbind (transition_failure_guard_trigger_states gs context event (cd_states d c)) (\<lambda>states.
       Inr (d\<lparr>cd_states := (cd_states d)(c := states)\<rparr>))"

definition set_cycle_failure :: "int \<Rightarrow> string option \<Rightarrow> string option \<Rightarrow> cycle_db \<Rightarrow> cycle_db" where
  "set_cycle_failure c signature last_error d =
     d\<lparr>cd_cycles := (cd_cycles d)(c := map_option (\<lambda>r. r\<lparr>cy_signature := signature, cy_last_error := last_error\<rparr>)
         (cd_cycles d c))\<rparr>"

text \<open>The branch of a completed run: lines 433 to 450.\<close>

definition reset_cycle_guard :: "int \<Rightarrow> cycle_failure_input option registration list \<Rightarrow> cycle_db \<Rightarrow> cycle_db result" where
  "reset_cycle_guard c registry d =
     rbind (transition_cycle_states c registry None Success (delete_latches c (cycle_load_latches c d) registry d))
       (\<lambda>d'. Inr (set_cycle_failure c None None d'))"

text \<open>The branch of a failure, up to the flush: lines 452 to 493.\<close>

definition record_cycle_failure ::
  "(string \<Rightarrow> string) \<Rightarrow> int \<Rightarrow> cycle_row \<Rightarrow> cycle_failure_input option registration list \<Rightarrow> cycle_failure_input \<Rightarrow>
   instant \<Rightarrow> cycle_db \<Rightarrow> (guard_evaluation \<times> cycle_db) result" where
  "record_cycle_failure digest c row registry f now d =
     (let signature = digest (fr_signature_input (fi_record f));
          changed = (cy_signature row \<noteq> Some signature);
          d1 = (if changed then set_cycle_failure c (Some signature) (cy_last_error row) d else d) in
      rbind (transition_cycle_states c registry (Some f) (if changed then NewFailure else RepeatedFailure) d1) (\<lambda>d2.
      let d3 = (if changed then delete_latches c (cycle_load_latches c d2) registry d2 else d2);
          d4 = set_cycle_failure c (Some signature) (Some (fr_error_text (fi_record f))) d3 in
      rbind (evaluate_failure_guard_triggers registry (Some f) (cd_states d4 c)) (\<lambda>results.
      evaluate_failure_edges (cycle_load_latches c) (cycle_create_latch c) EdgeLatch now results
        (Some signature) (Some (fr_error_text (fi_record f))) d4)))"

definition apply_cycle_terminal_failure_guard ::
  "(string \<Rightarrow> string) \<Rightarrow> environ \<Rightarrow> int \<Rightarrow> int \<Rightarrow> string \<Rightarrow> string option \<Rightarrow> instant \<Rightarrow> bool \<Rightarrow> cycle_db \<Rightarrow>
   (guard_evaluation option \<times> cycle_db) result" where
  "apply_cycle_terminal_failure_guard digest env c run status error_text now credential_alert_owned d =
     (case map_of CYCLE_TERMINAL_POLICIES status of
        None \<Rightarrow> Inl (KeyError status)
      | Some policy \<Rightarrow>
          let (claimed, d1) = claim_observation run now d in
          if \<not> claimed then Inr (None, d1)
          else if (status = ''auth_blocked'' \<or> status = ''failed'') \<and> credential_alert_owned then Inr (None, d1)
          else if is_ignore_policy policy then Inr (None, d1)
          else (case cd_cycles d1 c of
             None \<Rightarrow> Inl (ValueError (''Cycle '' @ show_int c @ '' not found''))
           | Some row \<Rightarrow>
               rbind cycle_failure_guard_registry (\<lambda>registry.
               if is_reset_policy policy
               then rbind (reset_cycle_guard c registry d1) (\<lambda>d2. Inr (None, d2))
               else rbind (failure_input env policy error_text) (\<lambda>f.
                    rbind (record_cycle_failure digest c row registry f now d1) (\<lambda>(ev, d2).
                      Inr (Some ev, d2))))))"

section \<open>The alert text\<close>

record cycle_alert =
  al_title :: string
  al_identity :: string
  al_summary :: string
  al_url :: string
  al_error :: string

text \<open>Lines 495 to 537: the first crossed edge becomes one card; the delivery itself is outside.\<close>

definition cycle_alert_of :: "string \<Rightarrow> int \<Rightarrow> int \<Rightarrow> cycle_row \<Rightarrow> failure_record \<Rightarrow> guard_evaluation \<Rightarrow> cycle_alert option" where
  "cycle_alert_of base c run row r ev =
     (case crossed_edges ev of
        [] \<Rightarrow> None
      | e # es \<Rightarrow> Some \<lparr>al_title = fe_title e, al_identity = cy_name row @ '' (#'' @ show_int c @ '')'',
          al_summary = fe_summary e,
          al_url = base @ ''/cycles?cycle_id='' @ show_int c @ ''&run_id='' @ show_int run,
          al_error = fr_error_text r\<rparr>)"

text \<open>
  The lines of \<open>str.splitlines\<close>; a carriage return with its line feed gives an empty line more, which
  the search for a line with text skips.
\<close>

definition line_break :: "char \<Rightarrow> bool" where
  "line_break c = ((of_char c :: nat) \<in> {10, 11, 12, 13, 28, 29, 30, 133})"

fun split_lines :: "string \<Rightarrow> string list" where
  "split_lines [] = []"
| "split_lines (c # cs) =
     (if line_break c then [] # split_lines cs
      else case split_lines cs of [] \<Rightarrow> [[c]] | l # ls \<Rightarrow> (c # l) # ls)"

definition first_error_line :: "string \<Rightarrow> string \<Rightarrow> string" where
  "first_error_line error_text unknown =
     (case filter (\<lambda>l. py_strip l \<noteq> []) (split_lines error_text) of [] \<Rightarrow> unknown | l # ls \<Rightarrow> py_strip l)"

definition failure_alert_text :: "cycle_alert \<Rightarrow> string" where
  "failure_alert_text a = py_join [CHR 0x0A]
     [al_title a, ''Cycle: '' @ al_identity a, al_summary a,
      ''Error: '' @ first_error_line (al_error a) ''Unknown cycle failure'',
      ''Cycle: <'' @ al_url a @ ''|open cycle state>'']"

section \<open>The channel of an alert\<close>

text \<open>
  \<open>_resolve_channel\<close> pages through the channel list until a name matches, a page has no next cursor
  or a cursor comes back. \<open>page n c\<close> is the client's n-th answer, for the cursor \<open>c\<close>.
\<close>

definition as_list :: "pyval \<Rightarrow> pyval list" where
  "as_list v = (case v of PyList xs \<Rightarrow> xs | _ \<Rightarrow> [])"

definition named_channel :: "string \<Rightarrow> string \<Rightarrow> pydict \<Rightarrow> string option" where
  "named_channel target channel response =
     (case filter (\<lambda>v. is_dict v \<and> py_str (py_or (dget (as_mapping v) ''name'') (PyStr [])) = target)
        (as_list (dget response ''channels'')) of
        [] \<Rightarrow> None
      | v # vs \<Rightarrow> Some (py_str (py_or (dget (as_mapping v) ''id'') (PyStr channel))))"

definition next_cursor :: "pydict \<Rightarrow> string" where
  "next_cursor response = clean_text (dget (as_mapping (dget response ''response_metadata'')) ''next_cursor'')"

fun resolve_channel_loop ::
  "nat \<Rightarrow> (nat \<Rightarrow> string option \<Rightarrow> pydict) \<Rightarrow> nat \<Rightarrow> string option \<Rightarrow> string list \<Rightarrow> string \<Rightarrow> string \<Rightarrow> string option" where
  "resolve_channel_loop 0 page n cursor seen target channel = None"
| "resolve_channel_loop (Suc fuel) page n cursor seen target channel =
     (let response = page n cursor in
      case named_channel target channel response of
        Some i \<Rightarrow> Some i
      | None \<Rightarrow>
          (let nxt = next_cursor response in
           if nxt = [] \<or> nxt \<in> set seen then Some channel
           else resolve_channel_loop fuel page (Suc n) (Some nxt) (nxt # seen) target channel))"

definition resolve_channel :: "nat \<Rightarrow> (nat \<Rightarrow> string option \<Rightarrow> pydict) \<Rightarrow> string \<Rightarrow> string option" where
  "resolve_channel fuel page configured =
     (let channel = py_strip configured in
      if \<not> py_startswith channel ''#'' then Some channel
      else resolve_channel_loop fuel page 0 None [] (tl channel) channel)"

lemma resolve_loop_returns:
  assumes "finite C" and "\<And>n c. next_cursor (page n c) \<in> C"
    and "set seen \<subseteq> C" and "distinct seen" and "card C < fuel + length seen"
  shows "resolve_channel_loop fuel page n cursor seen target channel \<noteq> None"
  using assms(3-5)
proof (induction fuel arbitrary: n cursor seen)
  case 0
  then have "card (set seen) \<le> card C" using assms(1) by (intro card_mono) auto
  with 0 show ?case by (simp add: distinct_card)
next
  case (Suc fuel)
  let ?nxt = "next_cursor (page n cursor)"
  have "resolve_channel_loop fuel page (Suc n) (Some ?nxt) (?nxt # seen) target channel \<noteq> None" if "?nxt \<notin> set seen"
    using Suc.prems assms(2) [of n cursor] that by (intro Suc.IH) auto
  then show ?case by (auto simp: Let_def split: option.splits)
qed

section \<open>A machine of three variables\<close>

text \<open>The signature of the streak, its length, and whether its alert is latched.\<close>

type_synonym guard_view = "string option \<times> int \<times> bool"

datatype cycle_outcome = Succeeded | FailedWith string int

fun guard_step :: "guard_view \<Rightarrow> cycle_outcome \<Rightarrow> bool \<times> guard_view" where
  "guard_step v Succeeded = (False, (None, 0, False))"
| "guard_step (s, n, l) (FailedWith signature threshold) =
     (let fresh = (s \<noteq> Some signature);
          n' = (if fresh then 1 else n + 1);
          standing = (\<not> fresh \<and> l);
          alert = (threshold \<le> n' \<and> \<not> standing)
      in (alert, (Some signature, n', standing \<or> alert)))"

definition terminal_outcome :: "(string \<Rightarrow> string) \<Rightarrow> environ \<Rightarrow> string \<Rightarrow> string option \<Rightarrow> cycle_outcome option" where
  "terminal_outcome digest env status error_text =
     (case map_of CYCLE_TERMINAL_POLICIES status of
        None \<Rightarrow> None
      | Some p \<Rightarrow>
          if is_ignore_policy p then None
          else if is_reset_policy p then Some Succeeded
          else (case failure_input env p error_text of
                  Inl e \<Rightarrow> None
                | Inr f \<Rightarrow> Some (FailedWith (digest (fr_signature_input (fi_record f))) (fi_threshold f))))"

definition cycle_count :: "int \<Rightarrow> cycle_db \<Rightarrow> int result" where
  "cycle_count c d = state_count (state_of (cd_states d c) CYCLE_CONSECUTIVE_TRIGGER_KIND)"

definition guard_view_of :: "int \<Rightarrow> cycle_db \<Rightarrow> guard_view" where
  "guard_view_of c d =
     (case cd_cycles d c of None \<Rightarrow> None | Some r \<Rightarrow> cy_signature r,
      case cycle_count c d of Inl e \<Rightarrow> 0 | Inr n \<Rightarrow> n,
      cycle_load_latches c d CYCLE_CONSECUTIVE_TRIGGER_KIND \<noteq> None)"

text \<open>A cycle the guard can serve: its row exists and its count can be read.\<close>

definition guardable :: "int \<Rightarrow> cycle_db \<Rightarrow> bool" where
  "guardable c d = (cd_cycles d c \<noteq> None \<and> (case cycle_count c d of Inl e \<Rightarrow> False | Inr n \<Rightarrow> True))"

definition alerts :: "guard_evaluation option \<Rightarrow> bool" where
  "alerts ev = (case ev of None \<Rightarrow> False | Some e \<Rightarrow> crossed_edges e \<noteq> [])"

lemmas cycle_constants = CYCLE_FAILURE_ALERT_THRESHOLD_DEFAULT_def CYCLE_REPEATED_FAILURE_ALERT_CLASS_def
  CYCLE_AUTH_BLOCKED_ALERT_CLASS_def CYCLE_CONSECUTIVE_TRIGGER_KIND_def

abbreviation the_cycle_registry :: "cycle_failure_input option registration list" where
  "the_cycle_registry \<equiv> [Stateful CYCLE_CONSECUTIVE_TRIGGER_KIND cycle_consecutive_evaluate consecutive_transition]"

lemma cycle_registry: "cycle_failure_guard_registry = Inr the_cycle_registry"
  by (simp add: cycle_failure_guard_registry_def check_registry_def cycle_constants)

lemma state_count_singleton [simp]: "state_count [(''count'', PyInt n)] = Inr n"
  by (simp add: state_count_def int_or_error_def)

lemma state_count_Nil [simp]: "state_count [] = Inr 0"
  by (simp add: state_count_def)

lemma py_strip_nonblank: "\<not> py_space c \<Longrightarrow> py_strip (c # s) \<noteq> []"
  by (auto simp: py_strip_def)

lemma record_policy_input:
  assumes "py_strip cl \<noteq> []" and "1 \<le> th env" and "py_strip ac \<noteq> []" and "act = None \<or> (\<exists>a. act = Some a \<and> py_strip a \<noteq> [])"
  obtains f where "failure_input env (RecordCycleFailurePolicy cl de th ac act) error_text = Inr f"
    and "fi_threshold f = th env" and "fi_alert_class f = ac"
proof -
  have "\<not> py_space (CHR ''c'')" by (simp add: py_space_def)
  then have "py_strip (''cycle_status:'' @ rest) \<noteq> []" for rest by (simp add: py_strip_nonblank)
  then show ?thesis
    using assms that by (auto simp: failure_input_def make_failure_record_def make_cycle_failure_input_def Let_def)
qed

lemma policy_table:
  assumes "map_of CYCLE_TERMINAL_POLICIES status = Some p"
  shows "is_ignore_policy p \<or> is_reset_policy p
    \<or> (\<exists>cl de. cl \<in> {''failed'', ''degraded''}
        \<and> p = RecordCycleFailurePolicy cl de cycle_failure_alert_threshold CYCLE_REPEATED_FAILURE_ALERT_CLASS None)
    \<or> (\<exists>de a. py_strip a \<noteq> []
        \<and> p = RecordCycleFailurePolicy ''auth_blocked'' de immediate_alert_threshold CYCLE_AUTH_BLOCKED_ALERT_CLASS (Some a))"
proof -
  have "\<not> py_space (CHR ''r'')" by (simp add: py_space_def)
  then show ?thesis
    using assms py_strip_nonblank by (auto simp: CYCLE_TERMINAL_POLICIES_def split: if_splits)
qed

lemma failing_policy_input:
  assumes "map_of CYCLE_TERMINAL_POLICIES status = Some p" and "\<not> is_ignore_policy p" and "\<not> is_reset_policy p"
  obtains f where "failure_input env p error_text = Inr f" and "1 \<le> fi_threshold f"
    and "fi_alert_class f = CYCLE_REPEATED_FAILURE_ALERT_CLASS \<or> fi_alert_class f = CYCLE_AUTH_BLOCKED_ALERT_CLASS"
proof -
  have nonblank: "py_strip ''failed'' \<noteq> []" "py_strip ''degraded'' \<noteq> []" "py_strip ''auth_blocked'' \<noteq> []"
    "py_strip CYCLE_REPEATED_FAILURE_ALERT_CLASS \<noteq> []" "py_strip CYCLE_AUTH_BLOCKED_ALERT_CLASS \<noteq> []"
    unfolding cycle_constants by (rule py_strip_nonblank, simp add: py_space_def)+
  have thresholds: "1 \<le> cycle_failure_alert_threshold env" "1 \<le> immediate_alert_threshold env"
    by (simp_all add: cycle_failure_alert_threshold_def positive_int_setting_def immediate_alert_threshold_def)
  have "(\<exists>cl de. cl \<in> {''failed'', ''degraded''}
        \<and> p = RecordCycleFailurePolicy cl de cycle_failure_alert_threshold CYCLE_REPEATED_FAILURE_ALERT_CLASS None)
    \<or> (\<exists>de a. py_strip a \<noteq> []
        \<and> p = RecordCycleFailurePolicy ''auth_blocked'' de immediate_alert_threshold CYCLE_AUTH_BLOCKED_ALERT_CLASS (Some a))"
    using policy_table [OF assms(1)] assms(2,3) by simp
  then consider (repeated) cl de where "cl \<in> {''failed'', ''degraded''}"
      "p = RecordCycleFailurePolicy cl de cycle_failure_alert_threshold CYCLE_REPEATED_FAILURE_ALERT_CLASS None"
    | (auth) de a where "py_strip a \<noteq> []"
      "p = RecordCycleFailurePolicy ''auth_blocked'' de immediate_alert_threshold CYCLE_AUTH_BLOCKED_ALERT_CLASS (Some a)"
    by (elim disjE exE conjE)
  then show ?thesis
  proof cases
    case repeated
    have "py_strip cl \<noteq> []" using repeated(1) nonblank by (elim insertE emptyE) simp_all
    from record_policy_input [of cl cycle_failure_alert_threshold env, OF this thresholds(1) nonblank(4), of None de error_text] obtain f
      where "failure_input env p error_text = Inr f" "fi_threshold f = cycle_failure_alert_threshold env"
        "fi_alert_class f = CYCLE_REPEATED_FAILURE_ALERT_CLASS"
      using repeated(2) by blast
    then show ?thesis using that thresholds(1) by simp
  next
    case auth
    have "\<exists>b. Some a = Some b \<and> py_strip b \<noteq> []" using auth(1) by simp
    from record_policy_input [of _ immediate_alert_threshold env, OF nonblank(3) thresholds(2) nonblank(5) disjI2, OF this, of de error_text] obtain f
      where "failure_input env p error_text = Inr f" "fi_threshold f = immediate_alert_threshold env"
        "fi_alert_class f = CYCLE_AUTH_BLOCKED_ALERT_CLASS"
      using auth(2) by blast
    then show ?thesis using that thresholds(2) by simp
  qed
qed

lemma consecutive_result:
  assumes "fi_alert_class f = CYCLE_REPEATED_FAILURE_ALERT_CLASS \<or> fi_alert_class f = CYCLE_AUTH_BLOCKED_ALERT_CLASS"
  obtains r where "cycle_consecutive_result f n = Inr r" and "tg_kind r = CYCLE_CONSECUTIVE_TRIGGER_KIND"
    and "tg_active r = (fi_threshold f \<le> n)"
  using assms that
  by (auto simp: cycle_consecutive_result_def CYCLE_ALERT_PRESENTATIONS_def make_trigger_result_def
    RESERVED_PUBLIC_DETAIL_KEYS_def cycle_constants)

lemma reset_view:
  assumes "guardable c d"
  obtains d' where "reset_cycle_guard c the_cycle_registry d = Inr d'"
    and "guard_view_of c d' = (None, 0, False)" and "guardable c d'" and "cd_observations d' = cd_observations d"
    and "\<And>c'. c' \<noteq> c \<Longrightarrow> guard_view_of c' d' = guard_view_of c' d"
  using assms that
  by (auto simp: reset_cycle_guard_def transition_cycle_states_def transition_failure_guard_trigger_states_def
    consecutive_transition_def set_cycle_failure_def guardable_def guard_view_of_def cycle_count_def state_of_def
    cycle_delete_latch_def cycle_load_latches_def map_of_filter_keys)

lemma edges_of_one:
  "evaluate_failure_edges load create EdgeLatch now [r] sig err s =
     (if tg_active r \<and> load s (tg_kind r) = None
      then rbind (create (tg_kind r) now s) (\<lambda>s'. Inr (\<lparr>ge_signature = sig, ge_last_error = err,
             ge_edges = [edge_of r (Some now) True]\<rparr>, s'))
      else Inr (\<lparr>ge_signature = sig, ge_last_error = err,
             ge_edges = [edge_of r (load s (tg_kind r)) False]\<rparr>, s))"
  by (cases "create (tg_kind r) now s"; cases "tg_active r"; cases "load s (tg_kind r)")
     (simp_all add: evaluate_failure_edges_def Let_def)

lemma alerts_one [simp]: "alerts (Some \<lparr>ge_signature = sig, ge_last_error = err, ge_edges = [edge_of r l x]\<rparr>) = x"
  by (simp add: alerts_def crossed_edges_def edge_of_def)

text \<open>Up to the evaluation a failure moves the signature and the count, and drops the latch of another streak.\<close>

lemma record_prepares:
  assumes "cd_cycles d c = Some row" and n: "cycle_count c d = Inr n"
    and r: "cycle_consecutive_result f n' = Inr r"
    and sig: "sig = digest (fr_signature_input (fi_record f))"
    and n': "n' = (if cy_signature row \<noteq> Some sig then 1 else n + 1)"
  obtains d' where "record_cycle_failure digest c row the_cycle_registry f now d
      = evaluate_failure_edges (cycle_load_latches c) (cycle_create_latch c) EdgeLatch now [r] (Some sig)
          (Some (fr_error_text (fi_record f))) d'"
    and "cd_cycles d' c = Some (row\<lparr>cy_signature := Some sig, cy_last_error := Some (fr_error_text (fi_record f))\<rparr>)"
    and "cycle_count c d' = Inr n'" and "cd_observations d' = cd_observations d"
    and "cycle_load_latches c d' CYCLE_CONSECUTIVE_TRIGGER_KIND
       = (if cy_signature row \<noteq> Some sig then None else cycle_load_latches c d CYCLE_CONSECUTIVE_TRIGGER_KIND)"
    and "\<And>c'. c' \<noteq> c \<Longrightarrow> guard_view_of c' d' = guard_view_of c' d"
proof (cases "cy_signature row = Some sig")
  case True
  define d' where "d' = set_cycle_failure c (Some sig) (Some (fr_error_text (fi_record f)))
    (d\<lparr>cd_states := (cd_states d)(c := (cd_states d c)(CYCLE_CONSECUTIVE_TRIGGER_KIND \<mapsto> [(''count'', PyInt n')]))\<rparr>)"
  have "record_cycle_failure digest c row the_cycle_registry f now d
      = evaluate_failure_edges (cycle_load_latches c) (cycle_create_latch c) EdgeLatch now [r] (Some sig)
          (Some (fr_error_text (fi_record f))) d'"
    using True n n' r sig by (simp add: record_cycle_failure_def transition_cycle_states_def cycle_count_def
      transition_failure_guard_trigger_states_def consecutive_transition_def d'_def set_cycle_failure_def
      cycle_consecutive_evaluate_def state_of_def Let_def)
  then show ?thesis
    using that [of d'] True assms(1) by (simp add: d'_def set_cycle_failure_def cycle_count_def state_of_def
      cycle_load_latches_def guard_view_of_def)
next
  case False
  define d0 where "d0 = d\<lparr>cd_states := (cd_states d)(c := (cd_states d c)(CYCLE_CONSECUTIVE_TRIGGER_KIND \<mapsto> [(''count'', PyInt n')])),
      cd_cycles := (cd_cycles d)(c \<mapsto> row\<lparr>cy_signature := Some sig\<rparr>)\<rparr>"
  define d' where "d' = set_cycle_failure c (Some sig) (Some (fr_error_text (fi_record f)))
    (delete_latches c (cycle_load_latches c d0) the_cycle_registry d0)"
  have "record_cycle_failure digest c row the_cycle_registry f now d
      = evaluate_failure_edges (cycle_load_latches c) (cycle_create_latch c) EdgeLatch now [r] (Some sig)
          (Some (fr_error_text (fi_record f))) d'"
    using False assms(1) n n' r sig by (simp add: record_cycle_failure_def transition_cycle_states_def cycle_count_def
      transition_failure_guard_trigger_states_def consecutive_transition_def d'_def d0_def set_cycle_failure_def
      cycle_consecutive_evaluate_def state_of_def Let_def cycle_delete_latch_def)
  then show ?thesis
    using that [of d'] False assms(1) by (auto simp: d'_def d0_def set_cycle_failure_def cycle_count_def state_of_def
      cycle_load_latches_def guard_view_of_def cycle_delete_latch_def map_of_filter_keys)
qed

lemma record_view:
  assumes "guardable c d" and row: "cd_cycles d c = Some row"
    and known: "fi_alert_class f = CYCLE_REPEATED_FAILURE_ALERT_CLASS \<or> fi_alert_class f = CYCLE_AUTH_BLOCKED_ALERT_CLASS"
  obtains ev d' where "record_cycle_failure digest c row the_cycle_registry f now d = Inr (ev, d')"
    and "(alerts (Some ev), guard_view_of c d')
       = guard_step (guard_view_of c d) (FailedWith (digest (fr_signature_input (fi_record f))) (fi_threshold f))"
    and "guardable c d'" and "cd_observations d' = cd_observations d"
    and "\<And>c'. c' \<noteq> c \<Longrightarrow> guard_view_of c' d' = guard_view_of c' d"
proof -
  let ?k = CYCLE_CONSECUTIVE_TRIGGER_KIND
  define sig where "sig = digest (fr_signature_input (fi_record f))"
  obtain n where n: "cycle_count c d = Inr n"
    using assms(1) by (auto simp: guardable_def split: sum.splits)
  define n' where "n' = (if cy_signature row \<noteq> Some sig then 1 else n + 1)"
  obtain r where r: "cycle_consecutive_result f n' = Inr r" "tg_kind r = ?k" "tg_active r = (fi_threshold f \<le> n')"
    using consecutive_result [OF known] by blast
  obtain d1 where d1: "record_cycle_failure digest c row the_cycle_registry f now d
      = evaluate_failure_edges (cycle_load_latches c) (cycle_create_latch c) EdgeLatch now [r] (Some sig)
          (Some (fr_error_text (fi_record f))) d1"
    "cd_cycles d1 c = Some (row\<lparr>cy_signature := Some sig, cy_last_error := Some (fr_error_text (fi_record f))\<rparr>)"
    "cycle_count c d1 = Inr n'" "cd_observations d1 = cd_observations d"
    "cycle_load_latches c d1 ?k = (if cy_signature row \<noteq> Some sig then None else cycle_load_latches c d ?k)"
    "\<And>c'. c' \<noteq> c \<Longrightarrow> guard_view_of c' d1 = guard_view_of c' d"
    using record_prepares [of d c row n f n' r sig digest now, OF row n r(1) sig_def n'_def] by blast
  have v: "guard_view_of c d = (cy_signature row, n, cycle_load_latches c d ?k \<noteq> None)"
    by (simp add: guard_view_of_def row n)
  have v1: "guard_view_of c d1 = (Some sig, n', cycle_load_latches c d1 ?k \<noteq> None)"
    by (simp add: guard_view_of_def d1)
  show ?thesis
  proof (cases "fi_threshold f \<le> n' \<and> cycle_load_latches c d1 ?k = None")
    case True
    define d2 where "d2 = d1\<lparr>cd_latches := ((c, ?k), now) # cd_latches d1\<rparr>"
    have create: "cycle_create_latch c ?k now d1 = Inr d2"
      using True by (simp add: cycle_create_latch_def d2_def cycle_load_latches_def)
    have v2: "guard_view_of c' d2 = (if c' = c then (Some sig, n', True) else guard_view_of c' d1)" for c'
      using v1 by (simp add: guard_view_of_def d2_def cycle_load_latches_def cycle_count_def)
    show ?thesis
    proof (rule that)
      show "record_cycle_failure digest c row the_cycle_registry f now d = Inr (\<lparr>ge_signature = Some sig,
          ge_last_error = Some (fr_error_text (fi_record f)), ge_edges = [edge_of r (Some now) True]\<rparr>, d2)"
        using True create by (simp add: d1(1) edges_of_one r(2,3))
      show "guardable c d2" using d1(2,3) by (simp add: guardable_def d2_def cycle_count_def)
    qed (use True d1 v v2 in \<open>auto simp: sig_def [symmetric] n'_def d2_def Let_def split: if_splits\<close>)
  next
    case False
    show ?thesis
    proof (rule that)
      show "record_cycle_failure digest c row the_cycle_registry f now d = Inr (\<lparr>ge_signature = Some sig,
          ge_last_error = Some (fr_error_text (fi_record f)), ge_edges = [edge_of r (cycle_load_latches c d1 ?k) False]\<rparr>, d1)"
        using False by (auto simp: d1(1) edges_of_one r(2,3))
      show "guardable c d1" using d1(2,3) by (simp add: guardable_def)
    qed (use False d1(4-6) v v1 in \<open>auto simp: sig_def [symmetric] n'_def Let_def split: if_splits\<close>)
  qed
qed

section \<open>The guard refines the machine\<close>

lemma terminal_cases:
  assumes "map_of CYCLE_TERMINAL_POLICIES status = Some p"
  obtains (ignored) "is_ignore_policy p" "terminal_outcome digest env status err = None"
  | (reset) "\<not> is_ignore_policy p" "is_reset_policy p" "terminal_outcome digest env status err = Some Succeeded"
  | (failed) f where "\<not> is_ignore_policy p" "\<not> is_reset_policy p" "failure_input env p err = Inr f" "1 \<le> fi_threshold f"
      "fi_alert_class f = CYCLE_REPEATED_FAILURE_ALERT_CLASS \<or> fi_alert_class f = CYCLE_AUTH_BLOCKED_ALERT_CLASS"
      "terminal_outcome digest env status err
         = Some (FailedWith (digest (fr_signature_input (fi_record f))) (fi_threshold f))"
proof (cases "is_ignore_policy p \<or> is_reset_policy p")
  case True
  then show ?thesis using assms that(1,2) by (auto simp: terminal_outcome_def)
next
  case False
  obtain f where "failure_input env p err = Inr f" "1 \<le> fi_threshold f"
    "fi_alert_class f = CYCLE_REPEATED_FAILURE_ALERT_CLASS \<or> fi_alert_class f = CYCLE_AUTH_BLOCKED_ALERT_CLASS"
    using failing_policy_input [OF assms] False by blast
  then show ?thesis using False assms that(3) by (simp add: terminal_outcome_def)
qed

definition machine_step :: "guard_view \<Rightarrow> cycle_outcome option \<Rightarrow> bool \<times> guard_view" where
  "machine_step v oc = (case oc of None \<Rightarrow> (False, v) | Some x \<Rightarrow> guard_step v x)"

lemma apply_step:
  assumes known: "map_of CYCLE_TERMINAL_POLICIES status \<noteq> None" and "guardable c d"
    and fresh: "cd_observations d run = None"
  obtains ev d' where
    "apply_cycle_terminal_failure_guard digest env c run status err now False d = Inr (ev, d')"
    and "(alerts ev, guard_view_of c d') = machine_step (guard_view_of c d) (terminal_outcome digest env status err)"
    and "guardable c d'" and "cd_observations d' = (cd_observations d)(run \<mapsto> now)"
    and "\<And>c'. c' \<noteq> c \<Longrightarrow> guard_view_of c' d' = guard_view_of c' d"
proof -
  obtain p where p: "map_of CYCLE_TERMINAL_POLICIES status = Some p" using known by blast
  define d1 where "d1 = d\<lparr>cd_observations := (cd_observations d)(run \<mapsto> now)\<rparr>"
  have claim: "claim_observation run now d = (True, d1)" by (simp add: claim_observation_def fresh d1_def)
  have frame: "cd_cycles d1 = cd_cycles d" "guard_view_of c' d1 = guard_view_of c' d" "guardable c' d1 = guardable c' d" for c'
    by (simp_all add: d1_def guard_view_of_def guardable_def cycle_count_def)
  obtain row where row: "cd_cycles d1 c = Some row" using assms(2) frame by (auto simp: guardable_def)
  have g1: "guardable c d1" using assms(2) frame by simp
  from p show ?thesis
  proof (cases rule: terminal_cases [of status p digest env err])
    case ignored
    show ?thesis
      by (rule that [of None d1]) (use ignored p claim frame g1 in
        \<open>auto simp: apply_cycle_terminal_failure_guard_def machine_step_def alerts_def d1_def\<close>)
  next
    case reset
    obtain d2 where d2: "reset_cycle_guard c the_cycle_registry d1 = Inr d2" "guard_view_of c d2 = (None, 0, False)"
      "guardable c d2" "cd_observations d2 = cd_observations d1" "\<And>c'. c' \<noteq> c \<Longrightarrow> guard_view_of c' d2 = guard_view_of c' d1"
      using reset_view [OF g1] by blast
    have run_eq: "apply_cycle_terminal_failure_guard digest env c run status err now False d = Inr (None, d2)"
      using reset p claim row d2(1) by (simp add: apply_cycle_terminal_failure_guard_def cycle_registry)
    show ?thesis
      by (rule that [OF run_eq]) (use reset frame d2 in \<open>auto simp: machine_step_def alerts_def d1_def\<close>)
  next
    case (failed f)
    obtain ev d2 where d2: "record_cycle_failure digest c row the_cycle_registry f now d1 = Inr (ev, d2)"
      "(alerts (Some ev), guard_view_of c d2)
         = guard_step (guard_view_of c d1) (FailedWith (digest (fr_signature_input (fi_record f))) (fi_threshold f))"
      "guardable c d2" "cd_observations d2 = cd_observations d1" "\<And>c'. c' \<noteq> c \<Longrightarrow> guard_view_of c' d2 = guard_view_of c' d1"
      using record_view [OF g1 row failed(5), of digest now] by blast
    have run_eq: "apply_cycle_terminal_failure_guard digest env c run status err now False d = Inr (Some ev, d2)"
      using failed p claim row d2(1) by (simp add: apply_cycle_terminal_failure_guard_def cycle_registry)
    show ?thesis
      by (rule that [OF run_eq]) (use failed frame d2 in \<open>auto simp: machine_step_def d1_def\<close>)
  qed
qed

section \<open>Streaks\<close>

text \<open>A series of terminal runs of one cycle, given by run, status, error and time.\<close>

fun apply_runs ::
  "(string \<Rightarrow> string) \<Rightarrow> environ \<Rightarrow> int \<Rightarrow> (int \<times> string \<times> string option \<times> instant) list \<Rightarrow> cycle_db \<Rightarrow>
   (guard_evaluation option list \<times> cycle_db) result" where
  "apply_runs digest env c [] d = Inr ([], d)"
| "apply_runs digest env c ((run, status, err, now) # xs) d =
     rbind (apply_cycle_terminal_failure_guard digest env c run status err now False d) (\<lambda>(ev, d').
     rbind (apply_runs digest env c xs d') (\<lambda>(evs, d''). Inr (ev # evs, d'')))"

fun machine_run :: "guard_view \<Rightarrow> cycle_outcome option list \<Rightarrow> bool list \<times> guard_view" where
  "machine_run v [] = ([], v)"
| "machine_run v (x # xs) =
     (let (a, v') = machine_step v x; (as, v'') = machine_run v' xs in (a # as, v''))"

lemma runs_refine:
  assumes "guardable c d" and "distinct (map fst xs)" and "\<forall>x \<in> set xs. cd_observations d (fst x) = None"
    and "\<forall>x \<in> set xs. map_of CYCLE_TERMINAL_POLICIES (fst (snd x)) \<noteq> None"
  shows "\<exists>evs d'. apply_runs digest env c xs d = Inr (evs, d')
    \<and> (map alerts evs, guard_view_of c d')
      = machine_run (guard_view_of c d) (map (\<lambda>(run, status, err, now). terminal_outcome digest env status err) xs)"
  using assms
proof (induction xs arbitrary: d)
  case (Cons x xs)
  obtain run status err now where x: "x = (run, status, err, now)" by (cases x) auto
  obtain ev d1 where d1: "apply_cycle_terminal_failure_guard digest env c run status err now False d = Inr (ev, d1)"
    "(alerts ev, guard_view_of c d1) = machine_step (guard_view_of c d) (terminal_outcome digest env status err)"
    "guardable c d1" "cd_observations d1 = (cd_observations d)(run \<mapsto> now)"
  proof -
    have "map_of CYCLE_TERMINAL_POLICIES status \<noteq> None" "cd_observations d run = None"
      using Cons.prems(3,4) x by auto
    then show thesis using apply_step [OF _ Cons.prems(1), of status run digest env err now] that by blast
  qed
  have "\<forall>y \<in> set xs. cd_observations d1 (fst y) = None"
    using Cons.prems(2,3) d1(4) x by (auto simp: image_iff)
  moreover have "distinct (map fst xs)" "\<forall>y \<in> set xs. map_of CYCLE_TERMINAL_POLICIES (fst (snd y)) \<noteq> None"
    using Cons.prems(2,4) by auto
  ultimately obtain evs d' where d':
    "apply_runs digest env c xs d1 = Inr (evs, d')"
    "machine_run (guard_view_of c d1) (map (\<lambda>(run, status, err, now). terminal_outcome digest env status err) xs)
      = (map alerts evs, guard_view_of c d')"
    using Cons.IH [OF d1(3)] by (elim meta_impE exE conjE) (assumption | simp)+
  have runs: "apply_runs digest env c (x # xs) d = Inr (ev # evs, d')" by (simp add: x d1(1) d'(1))
  have "machine_run (guard_view_of c d) (map (\<lambda>(run, status, err, now). terminal_outcome digest env status err) (x # xs))
      = (map alerts (ev # evs), guard_view_of c d')"
    using d1(2) [symmetric] d'(2) by (simp add: x)
  with runs show ?case by metis
qed simp

lemma streak_alerts:
  assumes "1 \<le> t"
  shows "1 \<le> n \<Longrightarrow> machine_run (Some s, n, t \<le> n) (replicate m (Some (FailedWith s t)))
      = (map (\<lambda>i. n + int i + 1 = t) [0..<m], (Some s, n + int m, t \<le> n + int m))"
proof (induction m arbitrary: n)
  case (Suc m)
  have "map (\<lambda>i. n + int i + 1 = t) [0..<Suc m] = (n + 1 = t) # map (\<lambda>i. (n + 1) + int i + 1 = t) [0..<m]"
  proof -
    have "[0..<Suc m] = 0 # map Suc [0..<m]" by (simp add: map_Suc_upt upt_conv_Cons del: upt_Suc)
    then show ?thesis by (simp del: upt_Suc add: add_ac)
  qed
  moreover have "machine_step (Some s, n, t \<le> n) (Some (FailedWith s t)) = (n + 1 = t, (Some s, n + 1, t \<le> n + 1))"
    by (auto simp: machine_step_def Let_def)
  moreover have "machine_run (Some s, n + 1, t \<le> n + 1) (replicate m (Some (FailedWith s t)))
      = (map (\<lambda>i. (n + 1) + int i + 1 = t) [0..<m], (Some s, n + 1 + int m, t \<le> n + 1 + int m))"
    using Suc by simp
  ultimately show ?case by (simp add: algebra_simps)
qed simp

lemma streak_from_elsewhere:
  assumes "1 \<le> t" and "fst v \<noteq> Some s"
  shows "fst (machine_run v (replicate m (Some (FailedWith s t)))) = map (\<lambda>i. int i + 1 = t) [0..<m]"
proof (cases m)
  case (Suc k)
  have "machine_step v (Some (FailedWith s t)) = (1 = t, (Some s, 1, t \<le> 1))"
    using assms by (cases v) (auto simp: machine_step_def Let_def)
  moreover have "machine_run (Some s, 1, t \<le> 1) (replicate k (Some (FailedWith s t)))
      = (map (\<lambda>i. 1 + int i + 1 = t) [0..<k], (Some s, 1 + int k, t \<le> 1 + int k))"
    by (rule streak_alerts [OF assms(1)]) simp
  moreover have "map (\<lambda>i. int i + 1 = t) [0..<Suc k] = (1 = t) # map (\<lambda>i. 1 + int i + 1 = t) [0..<k]"
  proof -
    have "[0..<Suc k] = 0 # map Suc [0..<k]" by (simp add: map_Suc_upt upt_conv_Cons del: upt_Suc)
    then show ?thesis by (simp del: upt_Suc)
  qed
  ultimately show ?thesis by (simp add: Suc del: upt_Suc)
qed simp

section \<open>Observations\<close>

lemma delete_latches_observations [simp]: "cd_observations (delete_latches c latches gs d) = cd_observations d"
  by (induction gs arbitrary: d) (simp_all add: cycle_delete_latch_def)

lemma set_cycle_failure_observations [simp]: "cd_observations (set_cycle_failure c s e d) = cd_observations d"
  by (simp add: set_cycle_failure_def)

lemma transition_observations:
  "transition_cycle_states c gs x event d = Inr d' \<Longrightarrow> cd_observations d' = cd_observations d"
  by (auto simp: transition_cycle_states_def rbind_Inr_iff)

lemma reset_observations: "reset_cycle_guard c gs d = Inr d' \<Longrightarrow> cd_observations d' = cd_observations d"
  by (auto simp: reset_cycle_guard_def rbind_Inr_iff dest: transition_observations)

lemma create_observations: "cycle_create_latch c k at d = Inr d' \<Longrightarrow> cd_observations d' = cd_observations d"
  by (auto simp: cycle_create_latch_def split: option.splits)

lemma edges_observations:
  "evaluate_edges_loop (cycle_create_latch c) mode now l rs d = Inr (es, d') \<Longrightarrow> cd_observations d' = cd_observations d"
  by (induction rs arbitrary: l d es d')
     (auto simp: Let_def rbind_Inr_iff dest!: create_observations split: if_splits)

lemma record_observations:
  "record_cycle_failure digest c row gs f now d = Inr (ev, d') \<Longrightarrow> cd_observations d' = cd_observations d"
  by (auto simp: record_cycle_failure_def evaluate_failure_edges_def Let_def rbind_Inr_iff
    dest!: transition_observations edges_observations split: if_splits)

lemma applied_observed:
  assumes "apply_cycle_terminal_failure_guard digest env c run status err now owned d = Inr (ev, d')"
  shows "cd_observations d' run \<noteq> None"
proof -
  have claimed: "cd_observations (snd (claim_observation run now d)) run \<noteq> None"
    by (simp add: claim_observation_def)
  have "cd_observations d' = cd_observations (snd (claim_observation run now d))"
    using assms by (auto simp: apply_cycle_terminal_failure_guard_def Let_def split_def rbind_Inr_iff
      dest: reset_observations record_observations split: option.splits if_splits)
  with claimed show ?thesis by simp
qed

section \<open>Examples\<close>

definition ex_cycle_digest :: "string \<Rightarrow> string" where "ex_cycle_digest s = s"

definition ex_cycle_db :: cycle_db where
  "ex_cycle_db = \<lparr>cd_cycles = (\<lambda>_. None)(7 \<mapsto> \<lparr>cy_name = ''nightly'', cy_signature = None, cy_last_error = None\<rparr>),
     cd_observations = (\<lambda>_. None), cd_latches = [], cd_states = (\<lambda>_ _. None)\<rparr>"

lemma ex_cycle_guardable: "guardable 7 ex_cycle_db"
  by (simp add: guardable_def ex_cycle_db_def cycle_count_def state_of_def)

lemma ex_cycle_fresh [simp]: "cd_observations ex_cycle_db run = None"
  by (simp add: ex_cycle_db_def)

lemma ex_cycle_view: "guard_view_of 7 ex_cycle_db = (None, 0, False)"
  by (simp add: guard_view_of_def ex_cycle_db_def cycle_count_def state_of_def cycle_load_latches_def)

lemma ex_failed_outcome:
  "terminal_outcome ex_cycle_digest (\<lambda>_. None) ''failed'' (Some ''boom'')
     = Some (FailedWith (''cycle_status:failed'' @ [CHR 0x0A] @ ''boom'') 3)"
  by code_simp

section \<open>Properties\<close>

text \<open>
  C22: the first terminal outcome of a run moves the guard of its cycle exactly as the machine of three
  variables moves, raises an alert exactly when the machine does, and leaves every other cycle alone.
\<close>
theorem cycle_guard_refines:
  assumes "map_of CYCLE_TERMINAL_POLICIES status \<noteq> None" and "guardable c d" and "cd_observations d run = None"
  shows "\<exists>ev d'. apply_cycle_terminal_failure_guard digest env c run status err now False d = Inr (ev, d')
    \<and> (alerts ev, guard_view_of c d') = machine_step (guard_view_of c d) (terminal_outcome digest env status err)
    \<and> guardable c d' \<and> (\<forall>c'. c' \<noteq> c \<longrightarrow> guard_view_of c' d' = guard_view_of c' d)"
  using apply_step [OF assms, of digest env err now] by metis

lemma cycle_guard_refines_witness:
  "\<exists>ev d'. apply_cycle_terminal_failure_guard ex_cycle_digest (\<lambda>_. None) 7 11 ''failed'' (Some ''boom'') 5 False ex_cycle_db = Inr (ev, d')
    \<and> (alerts ev, guard_view_of 7 d') = (False, (Some (''cycle_status:failed'' @ [CHR 0x0A] @ ''boom''), 1, False))"
proof -
  have "map_of CYCLE_TERMINAL_POLICIES ''failed'' \<noteq> None" by (simp add: CYCLE_TERMINAL_POLICIES_def)
  from cycle_guard_refines [OF this ex_cycle_guardable, of 11 ex_cycle_digest "\<lambda>_. None" "Some ''boom''" 5]
  show ?thesis by (auto simp: ex_failed_outcome ex_cycle_view machine_step_def)
qed

text \<open>
  A streak of failures of one identity on a cycle that was not already in it raises one alert: at the
  failure that reaches the threshold, and at no other.
\<close>
theorem one_alert_per_streak:
  assumes "guardable c d" and "fst (guard_view_of c d) \<noteq> Some s" and "1 \<le> t"
    and "distinct (map fst xs)" and "\<forall>x \<in> set xs. cd_observations d (fst x) = None"
    and "\<forall>(run, status, err, now) \<in> set xs. terminal_outcome digest env status err = Some (FailedWith s t)"
  shows "\<exists>evs d'. apply_runs digest env c xs d = Inr (evs, d')
    \<and> map alerts evs = map (\<lambda>i. int i + 1 = t) [0..<length xs]"
proof -
  have "\<forall>x \<in> set xs. map_of CYCLE_TERMINAL_POLICIES (fst (snd x)) \<noteq> None"
    using assms(6) by (auto simp: terminal_outcome_def split: option.splits)
  moreover have "map (\<lambda>(run, status, err, now). terminal_outcome digest env status err) xs
      = replicate (length xs) (Some (FailedWith s t))"
    using assms(6) by (induction xs) auto
  ultimately show ?thesis
    using runs_refine [OF assms(1,4,5), of digest env] streak_from_elsewhere [OF assms(3,2), of "length xs"]
    by (metis fst_conv)
qed

lemma one_alert_per_streak_witness:
  "\<exists>evs d'. apply_runs ex_cycle_digest (\<lambda>_. None) 7
      [(1, ''failed'', Some ''boom'', 10), (2, ''failed'', Some ''boom'', 20), (3, ''failed'', Some ''boom'', 30),
       (4, ''failed'', Some ''boom'', 40)] ex_cycle_db = Inr (evs, d')
    \<and> map alerts evs = [False, False, True, False]"
proof -
  have "fst (guard_view_of 7 ex_cycle_db) = None" by (simp add: ex_cycle_view)
  then show ?thesis
    using one_alert_per_streak [OF ex_cycle_guardable, where xs = "[(1, ''failed'', Some ''boom'', 10),
        (2, ''failed'', Some ''boom'', 20), (3, ''failed'', Some ''boom'', 30), (4, ''failed'', Some ''boom'', 40)]"
        and s = "''cycle_status:failed'' @ [CHR 0x0A] @ ''boom''" and t = 3 and digest = ex_cycle_digest and env = "\<lambda>_. None"]
    by (simp add: ex_failed_outcome upt_rec)
qed

text \<open>
  The terminal outcome of a run counts once: when its guard has been applied, applying it again, with
  any status, error and time, changes nothing and raises nothing.
\<close>
theorem outcome_counts_once:
  assumes "apply_cycle_terminal_failure_guard digest env c run status err now owned d = Inr (ev, d')"
    and "map_of CYCLE_TERMINAL_POLICIES status' \<noteq> None"
  shows "apply_cycle_terminal_failure_guard digest env c' run status' err' now' owned' d' = Inr (None, d')"
  using applied_observed [OF assms(1)] assms(2)
  by (auto simp: apply_cycle_terminal_failure_guard_def claim_observation_def)

lemma outcome_counts_once_witness:
  "apply_cycle_terminal_failure_guard ex_cycle_digest (\<lambda>_. None) 7 11 ''completed'' None 9 False
     (ex_cycle_db\<lparr>cd_observations := (\<lambda>_. None)(11 \<mapsto> 5)\<rparr>)
   = Inr (None, ex_cycle_db\<lparr>cd_observations := (\<lambda>_. None)(11 \<mapsto> 5)\<rparr>)"
proof (rule outcome_counts_once [where ev = None])
  show "apply_cycle_terminal_failure_guard ex_cycle_digest (\<lambda>_. None) 7 11 ''skipped'' None 5 False ex_cycle_db
      = Inr (None, ex_cycle_db\<lparr>cd_observations := (\<lambda>_. None)(11 \<mapsto> 5)\<rparr>)"
    by (simp add: apply_cycle_terminal_failure_guard_def CYCLE_TERMINAL_POLICIES_def claim_observation_def ex_cycle_db_def)
qed (simp add: CYCLE_TERMINAL_POLICIES_def)

text \<open>
  The search for the alert's channel returns: when the client's next cursors come from a finite set,
  one page more than there are cursors is enough.
\<close>
theorem resolve_channel_returns:
  assumes "finite C" and "\<forall>n c. next_cursor (page n c) \<in> C" and "card C < fuel"
  shows "\<exists>channel. resolve_channel fuel page configured = Some channel"
  using resolve_loop_returns [OF assms(1), of page "[]" fuel] assms(2,3)
  by (auto simp: resolve_channel_def Let_def)

lemma resolve_channel_returns_witness:
  "\<exists>channel. resolve_channel 2 (\<lambda>_ _. [(''response_metadata'', PyDict [(''next_cursor'', PyStr ''x'')])]) ''#alerts''
     = Some channel"
  by (rule resolve_channel_returns [where C = "{''x''}"])
     (simp_all add: next_cursor_def py_strip_def py_space_def)

end
