(* ===== verification/Cycle_Values.thy ===== *)
theory Cycle_Values
  imports Context_Budget Provider_Errors Py_Time
begin

text \<open>
  The values a Cycle policy is made of (\<open>systems/cycles/common.py\<close>, \<open>schedules.py\<close>, \<open>skill_refs.py\<close>,
  \<open>execution_policy_registry.py\<close>): the validators, each with the normal form it returns, and one-time and cron
  schedules. A proposed value is any JSON value. Time zones, the ISO parser, \<open>croniter\<close>, SHA-256 and the event bus are
  the fields of \<open>policy_env\<close>.
\<close>

section \<open>What comes from outside\<close>

text \<open>\<open>ZoneInfo\<close>: the wall clock and fold of an instant, and the offset of a wall clock.\<close>

record zone_info =
  zi_fromutc :: "instant \<Rightarrow> int \<times> bool"
  zi_utcoffset :: "int \<Rightarrow> bool \<Rightarrow> int"

record policy_env =
  pe_zones :: "string \<Rightarrow> zone_info option"
  pe_fromiso :: "string \<Rightarrow> datetime option"
  pe_cron_valid :: "string \<Rightarrow> bool"
  pe_cron_next :: "string \<Rightarrow> zone_info \<Rightarrow> instant \<Rightarrow> instant result"
  pe_sha256 :: "string \<Rightarrow> string"
  pe_publish :: "string \<Rightarrow> pydict \<Rightarrow> py_error option"

section \<open>Texts and numbers\<close>

text \<open>\<open>(v or "").strip()\<close>: a truthy value that is no string has no \<open>strip\<close>.\<close>

definition strip_or_error :: "pyval \<Rightarrow> string result" where
  "strip_or_error v = (case v of
       PyStr s \<Rightarrow> Inr (py_strip s) | _ \<Rightarrow> if py_truthy v then Inl AttributeError else Inr [])"

definition validate_nonempty_trimmed :: "pyval \<Rightarrow> string \<Rightarrow> string result" where
  "validate_nonempty_trimmed v name = rbind (strip_or_error v) (\<lambda>s.
     if s = [] then Inl (ValueError (name @ '' is required'')) else Inr s)"

definition MIN_CYCLE_TIMEOUT_SECONDS :: int where "MIN_CYCLE_TIMEOUT_SECONDS = 60"
definition MAX_CYCLE_TIMEOUT_SECONDS :: int where "MAX_CYCLE_TIMEOUT_SECONDS = 14400"

definition validate_cycle_timeout_seconds :: "pyval \<Rightarrow> int option result" where
  "validate_cycle_timeout_seconds v =
     (let refused = Inl (ValueError (''timeout_seconds must be an integer between '' @ show_int MIN_CYCLE_TIMEOUT_SECONDS
                @ '' and '' @ show_int MAX_CYCLE_TIMEOUT_SECONDS @ '', or null'')) in
      case v of
        PyNone \<Rightarrow> Inr None
      | PyInt i \<Rightarrow> if MIN_CYCLE_TIMEOUT_SECONDS \<le> i \<and> i \<le> MAX_CYCLE_TIMEOUT_SECONDS then Inr (Some i) else refused
      | _ \<Rightarrow> refused)"

definition ILLO_LANE_EXECUTOR_BINDING :: string where "ILLO_LANE_EXECUTOR_BINDING = ''illo-lane''"
definition PERSONAL_AGENT_EXECUTOR_BINDING :: string where "PERSONAL_AGENT_EXECUTOR_BINDING = ''personal-agent''"

definition VALID_CYCLE_EXECUTOR_BINDINGS :: "string list" where
  "VALID_CYCLE_EXECUTOR_BINDINGS = [ILLO_LANE_EXECUTOR_BINDING, PERSONAL_AGENT_EXECUTOR_BINDING]"

definition validate_executor_binding :: "pyval \<Rightarrow> string result" where
  "validate_executor_binding v =
     (let normalized = py_lower (clean_text v) in
      if normalized \<notin> set VALID_CYCLE_EXECUTOR_BINDINGS
      then Inl (ValueError (''executor_binding must be one of: '' @ py_join '', '' (sort VALID_CYCLE_EXECUTOR_BINDINGS)))
      else Inr normalized)"

text \<open>\<open>value.strip().lower()\<close> unless the value is null or empty.\<close>

definition validate_thinking_override :: "pyval \<Rightarrow> string option result" where
  "validate_thinking_override v = (case v of
       PyNone \<Rightarrow> Inr None
     | PyStr s \<Rightarrow> if s = [] then Inr None
         else (let normalized = py_lower (py_strip s) in
           if normalized \<notin> set EFFORT_TIERS
           then Inl (ValueError (''thinking_override must be one of: '' @ py_join '', '' (sort EFFORT_TIERS)))
           else Inr (Some normalized))
     | _ \<Rightarrow> Inl AttributeError)"

definition VALID_MODEL_OVERRIDES :: "string list" where
  "VALID_MODEL_OVERRIDES =
     concat (map (\<lambda>(provider, models). map (\<lambda>model. provider @ ''/'' @ model) models) provider_model_options)"

definition normalize_model_name :: "string option \<Rightarrow> string" where
  "normalize_model_name model =
     (if str_or_empty model = []
      then ''openai/'' @ (case map_of default_provider_models ''openai'' of None \<Rightarrow> [] | Some m \<Rightarrow> m)
      else
        (let v = py_strip (str_or_empty model); low = py_lower v;
             prefixed = replace_first (CHR '':'') (CHR ''/'') v;
             claude = py_startswith low ''claude-'' in
         if contains_text low ''gpu_server'' \<or> contains_text low ''local'' \<or> py_startswith v ''brain.platform.gpu/''
         then ''local''
         else case canonical_catalog_model_id (Some v) of
           Some i \<Rightarrow> i
         | None \<Rightarrow>
             if starts_any prefixed [''anthropic/'', ''ollama/'', ''openai/''] then prefixed
             else if claude \<and> contains_text low ''fable'' then ''anthropic/claude-fable-5''
             else if claude \<and> contains_text low ''opus'' then ''anthropic/claude-opus-5''
             else if claude \<and> contains_text low ''haiku'' then ''anthropic/claude-haiku-4-5''
             else if claude \<and> contains_text low ''sonnet'' then ''anthropic/claude-sonnet-5''
             else if contains_text low ''gpt-5.5'' then ''openai/gpt-5.5''
             else if contains_text low ''gpt-5.6-luna'' then ''openai/gpt-5.6-luna''
             else if contains_text low ''gpt-5.6-sol'' then ''openai/gpt-5.6-sol''
             else if contains_text low ''gpt-5.6'' then ''openai/gpt-5.6-sol''
             else v))"

definition model_candidate :: "string \<Rightarrow> string" where
  "model_candidate raw =
     (let candidate = replace_first (CHR '':'') (CHR ''/'') raw in
      if CHR ''/'' \<in> set candidate then candidate
      else (case List.map_filter (\<lambda>(provider, models).
                if candidate \<in> set models then Some (provider @ ''/'' @ candidate) else None) provider_model_options of
              [m] \<Rightarrow> m | _ \<Rightarrow> candidate))"

definition validate_model_override :: "pyval \<Rightarrow> string option result" where
  "validate_model_override v =
     (let raw = clean_text v in
      if raw = [] \<or> py_lower raw = ''default'' then Inr None
      else let candidate = model_candidate raw in
        if candidate \<notin> set VALID_MODEL_OVERRIDES
        then Inl (ValueError (''Unknown model_override '' @ repr_str raw @ ''. Valid options: ''
               @ py_join '', '' (sort VALID_MODEL_OVERRIDES)))
        else Inr (Some (normalize_model_name (Some candidate))))"

definition validated_max_concurrency :: "pyval \<Rightarrow> int result" where
  "validated_max_concurrency v = (case v of
       PyInt i \<Rightarrow> if i < 1 then Inl (ValueError ''max_concurrency must be an integer >= 1'') else Inr i
     | _ \<Rightarrow> Inl (ValueError ''max_concurrency must be an integer >= 1''))"

section \<open>Skills and execution policies\<close>

fun skill_ids_from :: "int list \<Rightarrow> pyval list \<Rightarrow> int list result" where
  "skill_ids_from normalized [] = Inr normalized"
| "skill_ids_from normalized (PyInt i # vs) =
     (if i < 1 \<or> i \<in> set normalized then Inl (ValueError ''skill_ids must be a list of unique positive integers'')
      else skill_ids_from (normalized @ [i]) vs)"
| "skill_ids_from normalized (_ # vs) = Inl (ValueError ''skill_ids must be a list of unique positive integers'')"

definition validate_cycle_skill_ids :: "pyval \<Rightarrow> int list result" where
  "validate_cycle_skill_ids v = (case v of
       PyNone \<Rightarrow> Inr []
     | PyList vs \<Rightarrow> skill_ids_from [] vs
     | _ \<Rightarrow> Inl (ValueError ''skill_ids must be a list of unique positive integers''))"

definition validate_cycle_prompt :: "pyval \<Rightarrow> int list \<Rightarrow> string result" where
  "validate_cycle_prompt v skill_ids =
     (let prompt = clean_text v in
      if prompt = [] \<and> skill_ids = [] then Inl (ValueError ''prompt is required when skill_ids is empty'') else Inr prompt)"

definition registered_policy_keys :: "string list" where
  "registered_policy_keys = [''uwear_backend_promotion_readiness'']"

definition resolve_policy_key :: "string \<Rightarrow> unit result" where
  "resolve_policy_key key =
     (if py_strip key \<in> set registered_policy_keys then Inr ()
      else Inl (ValueError (''Unknown Cycle execution policy key: ''
        @ (if py_strip key = [] then ''None'' else repr_str (py_strip key)))))"

definition validate_cycle_execution_policy_key :: "pyval \<Rightarrow> string option result" where
  "validate_cycle_execution_policy_key v =
     (if v = PyNone then Inr None
      else if clean_text v = []
      then Inl (ValueError ''Cycle execution policy key must be null or a registered non-empty key'')
      else rbind (resolve_policy_key (clean_text v)) (\<lambda>_. Inr (Some (clean_text v))))"

section \<open>Schedules\<close>

definition ONE_TIME_SCHEDULE_PREFIX :: string where "ONE_TIME_SCHEDULE_PREFIX = ''at:''"

definition is_one_time_schedule_expr :: "string \<Rightarrow> bool" where
  "is_one_time_schedule_expr expr = py_startswith (py_lower (py_strip expr)) ONE_TIME_SCHEDULE_PREFIX"

definition find_zone :: "policy_env \<Rightarrow> string \<Rightarrow> zone_info result" where
  "find_zone env name = (case pe_zones env name of
       None \<Rightarrow> Inl (ValueError (''Unknown timezone: '' @ name)) | Some z \<Rightarrow> Inr z)"

definition validate_timezone_name :: "policy_env \<Rightarrow> pyval \<Rightarrow> string result" where
  "validate_timezone_name env v = rbind (strip_or_error v) (\<lambda>name.
     if name = [] then Inl (ValueError ''timezone is required'') else rbind (find_zone env name) (\<lambda>_. Inr name))"

text \<open>\<open>ZoneInfo(validate_timezone_name(name))\<close>.\<close>

definition zone_named :: "policy_env \<Rightarrow> pyval \<Rightarrow> zone_info result" where
  "zone_named env v = rbind (validate_timezone_name env v) (find_zone env)"

definition zulu :: "string \<Rightarrow> string" where
  "zulu s = concat (map (\<lambda>c. if c = CHR ''Z'' then ''+00:00'' else [c]) s)"

text \<open>A naive datetime is a wall clock of the zone, with fold 0.\<close>

definition zoned_instant :: "zone_info \<Rightarrow> datetime \<Rightarrow> instant" where
  "zoned_instant z d = (case d of Aware t \<Rightarrow> t | Naive w \<Rightarrow> w - zi_utcoffset z w False)"

definition parse_one_time_run_at :: "policy_env \<Rightarrow> string \<Rightarrow> pyval \<Rightarrow> instant result" where
  "parse_one_time_run_at env expr timezone_name =
     (let v = py_strip expr; raw_at = py_strip (drop (length ONE_TIME_SCHEDULE_PREFIX) v) in
      if \<not> is_one_time_schedule_expr v then Inl (ValueError ''schedule_expr must start with at:'')
      else if raw_at = [] then Inl (ValueError ''one-time schedule requires an ISO timestamp'')
      else case pe_fromiso env (zulu raw_at) of
        None \<Rightarrow> Inl (ValueError ''one-time schedule requires an ISO timestamp'')
      | Some run_at \<Rightarrow> rbind (zone_named env timezone_name) (\<lambda>z. Inr (zoned_instant z run_at)))"

text \<open>\<open>isoformat()\<close> of an aware datetime on a full minute: the wall clock and the offset.\<close>

definition wall_text :: "int \<Rightarrow> string" where
  "wall_text w =
     (let c = civil_of w in
      zpad 4 (c_year c) @ ''-'' @ zpad 2 (c_month c) @ ''-'' @ zpad 2 (c_day c) @ ''T''
      @ zpad 2 (c_hour c) @ '':'' @ zpad 2 (c_minute c) @ '':'' @ zpad 2 (c_second c))"

definition offset_text :: "int \<Rightarrow> string" where
  "offset_text offset =
     (let a = \<bar>offset\<bar>; s = a div 1000000; us = a mod 1000000 in
      (if offset < 0 then ''-'' else ''+'') @ zpad 2 (s div 3600) @ '':'' @ zpad 2 (s mod 3600 div 60)
      @ (if s mod 60 = 0 \<and> us = 0 then [] else '':'' @ zpad 2 (s mod 60))
      @ (if us = 0 then [] else ''.'' @ zpad 6 us))"

definition one_time_text :: "zone_info \<Rightarrow> instant \<Rightarrow> string" where
  "one_time_text z t =
     (let (w, fold) = zi_fromutc z t; w' = w - w mod seconds 60 in
      ONE_TIME_SCHEDULE_PREFIX @ wall_text w' @ offset_text (zi_utcoffset z w' fold))"

datatype run_at_value = RunAtTime datetime | RunAtText pyval

definition build_one_time_schedule_expr :: "policy_env \<Rightarrow> run_at_value \<Rightarrow> pyval \<Rightarrow> string result" where
  "build_one_time_schedule_expr env run_at timezone_name =
     rbind (zone_named env timezone_name) (\<lambda>z.
     case run_at of
       RunAtTime d \<Rightarrow> Inr (one_time_text z (zoned_instant z d))
     | RunAtText v \<Rightarrow> (let raw_at = clean_text v in
         if raw_at = [] then Inl (ValueError ''run_at is required'')
         else case pe_fromiso env (zulu raw_at) of
           None \<Rightarrow> Inl (ValueError ''run_at must be an ISO timestamp'')
         | Some d \<Rightarrow> Inr (one_time_text z (zoned_instant z d))))"

definition validate_schedule_expr :: "policy_env \<Rightarrow> pyval \<Rightarrow> string \<Rightarrow> string result" where
  "validate_schedule_expr env v timezone_name = rbind (strip_or_error v) (\<lambda>expr.
     if is_one_time_schedule_expr expr then
       rbind (validate_timezone_name env (PyStr (if timezone_name = [] then ''UTC'' else timezone_name))) (\<lambda>name.
       rbind (parse_one_time_run_at env expr (PyStr name)) (\<lambda>t.
       build_one_time_schedule_expr env (RunAtTime (Aware t)) (PyStr name)))
     else if length (py_words expr) \<noteq> 5 \<or> \<not> pe_cron_valid env expr
     then Inl (ValueError ''schedule_expr must be a valid 5-field cron expression'')
     else Inr expr)"

definition compute_next_run_at :: "policy_env \<Rightarrow> instant \<Rightarrow> string \<Rightarrow> string \<Rightarrow> instant option \<Rightarrow> instant option result" where
  "compute_next_run_at env now expr timezone_name from_dt =
     (if is_one_time_schedule_expr expr then
        rbind (parse_one_time_run_at env expr (PyStr timezone_name)) (\<lambda>run_at.
          Inr (case from_dt of
                 None \<Rightarrow> Some run_at
               | Some baseline \<Rightarrow> if run_at \<le> baseline then None else Some run_at))
      else
        (let baseline = (case from_dt of None \<Rightarrow> now | Some t \<Rightarrow> t) in
         rbind (zone_named env (PyStr timezone_name)) (\<lambda>z.
         rbind (validate_schedule_expr env (PyStr expr) []) (\<lambda>e.
         rbind (pe_cron_next env e z baseline) (\<lambda>t. Inr (Some t))))))"

section \<open>Normal forms\<close>

lemma strip_or_error_Str [simp]: "strip_or_error (PyStr s) = Inr (py_strip s)"
  by (simp add: strip_or_error_def)

lemma strip_or_error_stripped: "strip_or_error v = Inr s \<Longrightarrow> py_strip s = s"
  by (auto simp: strip_or_error_def split: pyval.splits if_splits)

lemma nonempty_trimmed_again:
  "validate_nonempty_trimmed v n = Inr s \<Longrightarrow> validate_nonempty_trimmed (PyStr s) n' = Inr s \<and> s \<noteq> []"
  by (auto simp: validate_nonempty_trimmed_def rbind_Inr_iff strip_or_error_stripped split: if_splits)

lemma timeout_again:
  "validate_cycle_timeout_seconds v = Inr r \<Longrightarrow> validate_cycle_timeout_seconds (opt_int r) = Inr r"
  by (auto simp: validate_cycle_timeout_seconds_def Let_def split: pyval.splits if_splits)

lemma executor_binding_again:
  assumes "validate_executor_binding v = Inr s"
  shows "validate_executor_binding (PyStr s) = Inr s \<and> s \<noteq> []"
proof -
  have "s \<in> set VALID_CYCLE_EXECUTOR_BINDINGS"
    using assms by (auto simp: validate_executor_binding_def Let_def split: if_splits)
  moreover have "list_all (\<lambda>s. validate_executor_binding (PyStr s) = Inr s \<and> s \<noteq> []) VALID_CYCLE_EXECUTOR_BINDINGS"
    by code_simp
  ultimately show ?thesis by (simp add: list_all_iff)
qed

lemma thinking_again:
  assumes "validate_thinking_override v = Inr r"
  shows "validate_thinking_override (opt_str r) = Inr r"
proof (cases r)
  case None
  then show ?thesis by (simp add: validate_thinking_override_def)
next
  case (Some s)
  then have "s \<in> set EFFORT_TIERS"
    using assms by (auto simp: validate_thinking_override_def Let_def split: pyval.splits if_splits)
  moreover have "list_all (\<lambda>s. validate_thinking_override (PyStr s) = Inr (Some s)) EFFORT_TIERS" by code_simp
  ultimately show ?thesis using Some by (simp add: list_all_iff)
qed

lemma model_overrides_plain:
  "list_all (\<lambda>m. model_candidate m = m \<and> py_strip m = m \<and> m \<noteq> [] \<and> py_lower m \<noteq> ''default'') VALID_MODEL_OVERRIDES"
  by code_simp

lemma model_overrides_normal: "list_all (\<lambda>m. normalize_model_name (Some m) = m) VALID_MODEL_OVERRIDES"
  by code_simp

lemma model_override_again:
  assumes "validate_model_override v = Inr r"
  shows "validate_model_override (opt_str r) = Inr r"
proof (cases r)
  case None
  then show ?thesis by (simp add: validate_model_override_def)
next
  case (Some s)
  then obtain m where m: "m \<in> set VALID_MODEL_OVERRIDES" "s = normalize_model_name (Some m)"
    using assms by (auto simp: validate_model_override_def Let_def split: if_splits)
  then have "s = m" using model_overrides_normal by (simp add: list_all_iff)
  moreover have "model_candidate m = m \<and> py_strip m = m \<and> m \<noteq> [] \<and> py_lower m \<noteq> ''default''"
    using model_overrides_plain m(1) by (simp add: list_all_iff)
  ultimately show ?thesis using Some m by (simp add: validate_model_override_def Let_def)
qed

lemma max_concurrency_again:
  "validated_max_concurrency v = Inr i \<Longrightarrow> validated_max_concurrency (PyInt i) = Inr i \<and> 1 \<le> i"
  by (auto simp: validated_max_concurrency_def split: pyval.splits if_splits)

lemma skill_ids_from_values: "skill_ids_from acc vs = Inr is \<Longrightarrow> is = acc @ map (the \<circ> py_number) vs \<and> vs = map PyInt (map (the \<circ> py_number) vs)"
  by (induction acc vs rule: skill_ids_from.induct) (auto split: if_splits)

lemma skill_ids_again:
  assumes "validate_cycle_skill_ids v = Inr is"
  shows "validate_cycle_skill_ids (PyList (map PyInt is)) = Inr is"
proof (cases v)
  case (PyList vs)
  then have run: "skill_ids_from [] vs = Inr is" using assms by (simp add: validate_cycle_skill_ids_def)
  from skill_ids_from_values [OF run] have "vs = map PyInt is" by simp
  then show ?thesis using run by (simp add: validate_cycle_skill_ids_def)
qed (use assms in \<open>simp_all add: validate_cycle_skill_ids_def\<close>)

lemma prompt_again: "validate_cycle_prompt v is = Inr s \<Longrightarrow> validate_cycle_prompt (PyStr s) is = Inr s"
  by (auto simp: validate_cycle_prompt_def Let_def split: if_splits)

lemma policy_key_again:
  "validate_cycle_execution_policy_key v = Inr r \<Longrightarrow> validate_cycle_execution_policy_key (opt_str r) = Inr r"
  by (auto simp: validate_cycle_execution_policy_key_def rbind_Inr_iff split: if_splits)

lemma timezone_again:
  "validate_timezone_name env v = Inr s \<Longrightarrow> validate_timezone_name env (PyStr s) = Inr s"
  by (auto simp: validate_timezone_name_def rbind_Inr_iff strip_or_error_stripped split: if_splits)

text \<open>A cron expression is in normal form; a one-time schedule is when the parser reads back what it prints.\<close>

lemma strip_at: "\<exists>y. py_strip (''at:'' @ x) = ''at:'' @ y"
proof -
  have "dropWhile py_space (''at:'' @ x) = ''at:'' @ x" by (simp add: py_space_def)
  moreover have "\<exists>y. dropWhile py_space (rev x @ '':ta'') = y @ '':ta''"
    by (cases "\<forall>c \<in> set (rev x). py_space c") (auto simp: dropWhile_append py_space_def)
  ultimately obtain y where "py_strip (''at:'' @ x) = rev (y @ '':ta'')" by (auto simp: py_strip_def)
  then show ?thesis by simp
qed

lemma one_time_text_is_one_time: "is_one_time_schedule_expr (one_time_text z t)"
proof -
  obtain x where "one_time_text z t = ''at:'' @ x" by (auto simp: one_time_text_def ONE_TIME_SCHEDULE_PREFIX_def split_def Let_def)
  then obtain y where "py_strip (one_time_text z t) = ''at:'' @ y" using strip_at by metis
  then show ?thesis
    by (simp add: is_one_time_schedule_expr_def ONE_TIME_SCHEDULE_PREFIX_def py_startswith_def py_lower_def py_lower_char_def)
qed

definition reads_back :: "policy_env \<Rightarrow> zone_info \<Rightarrow> string \<Rightarrow> bool" where
  "reads_back env z s =
     (let raw = py_strip (drop (length ONE_TIME_SCHEDULE_PREFIX) (py_strip s)) in
      raw \<noteq> [] \<and> (case pe_fromiso env (zulu raw) of
        None \<Rightarrow> False | Some d \<Rightarrow> one_time_text z (zoned_instant z d) = s))"

definition schedule_fixed :: "policy_env \<Rightarrow> string \<Rightarrow> string \<Rightarrow> bool" where
  "schedule_fixed env s name =
     (is_one_time_schedule_expr s \<longrightarrow> (case pe_zones env name of None \<Rightarrow> False | Some z \<Rightarrow> reads_back env z s))"

lemma build_shape:
  assumes "build_one_time_schedule_expr env (RunAtTime (Aware t)) v = Inr s"
  shows "is_one_time_schedule_expr s"
  using assms by (auto simp: build_one_time_schedule_expr_def rbind_Inr_iff one_time_text_is_one_time)

lemma schedule_again:
  assumes "validate_schedule_expr env v name = Inr s" and "validate_timezone_name env (PyStr name) = Inr name"
    and "schedule_fixed env s name"
  shows "validate_schedule_expr env (PyStr s) name = Inr s"
proof (cases "is_one_time_schedule_expr s")
  case False
  obtain x where x: "strip_or_error v = Inr x" using assms(1) by (auto simp: validate_schedule_expr_def rbind_Inr_iff)
  have "\<not> is_one_time_schedule_expr x"
  proof
    assume "is_one_time_schedule_expr x"
    then have "\<exists>t n. build_one_time_schedule_expr env (RunAtTime (Aware t)) (PyStr n) = Inr s"
      using assms(1) x by (auto simp: validate_schedule_expr_def rbind_Inr_iff)
    then show False using build_shape False by blast
  qed
  then have "s = x" and "length (py_words x) = 5 \<and> pe_cron_valid env x"
    using assms(1) x by (auto simp: validate_schedule_expr_def split: if_splits)
  then show ?thesis using False strip_or_error_stripped [OF x] by (simp add: validate_schedule_expr_def)
next
  case True
  then obtain z where z: "pe_zones env name = Some z" and rb: "reads_back env z s"
    using assms(3) by (auto simp: schedule_fixed_def split: option.splits)
  have named: "name \<noteq> []" "py_strip name = name"
    using assms(2) by (auto simp: validate_timezone_name_def rbind_Inr_iff split: if_splits)
  have zone: "zone_named env (PyStr name) = Inr z"
    using assms(2) z by (simp add: zone_named_def find_zone_def)
  have stripped: "is_one_time_schedule_expr (py_strip s)" using True by (simp add: is_one_time_schedule_expr_def)
  let ?raw = "py_strip (drop (length ONE_TIME_SCHEDULE_PREFIX) (py_strip s))"
  obtain d where d: "pe_fromiso env (zulu ?raw) = Some d" "one_time_text z (zoned_instant z d) = s" "?raw \<noteq> []"
    using rb by (auto simp: reads_back_def Let_def split: option.splits)
  have "parse_one_time_run_at env (py_strip s) (PyStr name) = Inr (zoned_instant z d)"
    using stripped d(1,3) zone by (simp add: parse_one_time_run_at_def)
  moreover have "zoned_instant z (Aware (zoned_instant z d)) = zoned_instant z d" by (simp add: zoned_instant_def)
  ultimately show ?thesis
    using stripped zone d(2) named assms(2)
    by (simp add: validate_schedule_expr_def build_one_time_schedule_expr_def)
qed

end
