(* ===== verification/Cycle_Policy.thy ===== *)
theory Cycle_Policy
  imports Cycle_Values
begin

text \<open>
  The reviewed policy of a Cycle (\<open>systems/cycles/behavior_policy_contract.py\<close> and \<open>behavior_policy.py\<close>): snapshots
  with validation and versioned JSON, previews, and the one write path that applies or reverts a change inside a
  savepoint, with its revision and its audit row. A dataclass whose fields may still hold anything is a dictionary
  from field names to values; \<open>policy_snapshot\<close> is what \<open>validated\<close> returns.
\<close>

section \<open>Snapshots\<close>

record policy_snapshot =
  ps_name :: string
  ps_prompt :: string
  ps_schedule_expr :: string
  ps_timezone :: string
  ps_enabled :: bool
  ps_max_concurrency :: int
  ps_timeout_seconds :: "int option"
  ps_retry_policy :: pydict
  ps_model_override :: "string option"
  ps_thinking_override :: "string option"
  ps_execution_policy_key :: "string option"
  ps_executor_binding :: string
  ps_skill_ids :: "int list"
  ps_target_idea_id :: "string option"
  ps_guidance :: "string list"

definition snapshot_fields :: "policy_snapshot \<Rightarrow> pydict" where
  "snapshot_fields s =
     [(''name'', PyStr (ps_name s)), (''prompt'', PyStr (ps_prompt s)), (''schedule_expr'', PyStr (ps_schedule_expr s)),
      (''timezone'', PyStr (ps_timezone s)), (''enabled'', PyBool (ps_enabled s)),
      (''max_concurrency'', PyInt (ps_max_concurrency s)), (''timeout_seconds'', opt_int (ps_timeout_seconds s)),
      (''retry_policy'', PyDict (ps_retry_policy s)), (''model_override'', opt_str (ps_model_override s)),
      (''thinking_override'', opt_str (ps_thinking_override s)),
      (''execution_policy_key'', opt_str (ps_execution_policy_key s)),
      (''executor_binding'', PyStr (ps_executor_binding s)), (''skill_ids'', PyList (map PyInt (ps_skill_ids s))),
      (''target_idea_id'', opt_str (ps_target_idea_id s)), (''guidance'', PyList (map PyStr (ps_guidance s)))]"

definition FIELD_NAMES :: "string list" where
  "FIELD_NAMES = [''name'', ''prompt'', ''schedule_expr'', ''timezone'', ''enabled'', ''max_concurrency'', ''timeout_seconds'',
     ''retry_policy'', ''model_override'', ''thinking_override'', ''execution_policy_key'', ''executor_binding'',
     ''skill_ids'', ''target_idea_id'', ''guidance'']"

definition patch_ignores_none :: "string \<Rightarrow> bool" where
  "patch_ignores_none name = (name \<in> set [''name'', ''prompt'', ''schedule_expr'', ''timezone'', ''enabled''])"

definition bool_or_error :: "pyval \<Rightarrow> bool result" where
  "bool_or_error v = (case v of PyBool b \<Rightarrow> Inr b | _ \<Rightarrow> Inl (ValueError ''enabled must be a boolean''))"

definition object_or_error :: "pyval \<Rightarrow> pydict result" where
  "object_or_error v = (case v of PyDict d \<Rightarrow> Inr d | _ \<Rightarrow> Inl (ValueError ''retry_policy must be an object''))"

definition list_or_error :: "string \<Rightarrow> pyval \<Rightarrow> pyval list result" where
  "list_or_error name v = (case v of PyList vs \<Rightarrow> Inr vs | _ \<Rightarrow> Inl (ValueError (name @ '' must be a list of strings'')))"

definition validated_guidance :: "pyval list \<Rightarrow> string list result" where
  "validated_guidance vs = rbind (rmap (\<lambda>v. validate_nonempty_trimmed v ''guidance'') vs) (\<lambda>guidance.
     if \<not> distinct guidance then Inl (ValueError ''guidance entries must be unique'') else Inr guidance)"

text \<open>The copies of \<open>jsonable\<close> are the identity on JSON values.\<close>

definition validated :: "policy_env \<Rightarrow> pydict \<Rightarrow> policy_snapshot result" where
  "validated env f =
     rbind (validate_timezone_name env (dget f ''timezone'')) (\<lambda>timezone.
     rbind (bool_or_error (dget f ''enabled'')) (\<lambda>enabled.
     rbind (object_or_error (dget f ''retry_policy'')) (\<lambda>retry.
     rbind (list_or_error ''guidance'' (dget f ''guidance'')) (\<lambda>entries.
     rbind (validate_cycle_skill_ids (dget f ''skill_ids'')) (\<lambda>skills.
     rbind (validated_guidance entries) (\<lambda>guidance.
     rbind (validate_nonempty_trimmed (dget f ''name'') ''name'') (\<lambda>name.
     rbind (validate_cycle_prompt (dget f ''prompt'') skills) (\<lambda>prompt.
     rbind (validate_schedule_expr env (dget f ''schedule_expr'') timezone) (\<lambda>schedule.
     rbind (validated_max_concurrency (dget f ''max_concurrency'')) (\<lambda>concurrency.
     rbind (validate_cycle_timeout_seconds (dget f ''timeout_seconds'')) (\<lambda>timeout.
     rbind (validate_model_override (dget f ''model_override'')) (\<lambda>model.
     rbind (validate_thinking_override (dget f ''thinking_override'')) (\<lambda>thinking.
     rbind (validate_cycle_execution_policy_key (dget f ''execution_policy_key'')) (\<lambda>key.
     rbind (validate_executor_binding (dget f ''executor_binding'')) (\<lambda>executor.
     Inr \<lparr>ps_name = name, ps_prompt = prompt, ps_schedule_expr = schedule, ps_timezone = timezone, ps_enabled = enabled,
          ps_max_concurrency = concurrency, ps_timeout_seconds = timeout, ps_retry_policy = retry,
          ps_model_override = model, ps_thinking_override = thinking, ps_execution_policy_key = key,
          ps_executor_binding = executor, ps_skill_ids = skills,
          ps_target_idea_id = (case dget f ''target_idea_id'' of PyNone \<Rightarrow> None | v \<Rightarrow> Some (py_str v)),
          ps_guidance = sort guidance\<rparr>)))))))))))))))"

definition SNAPSHOT_VERSION :: int where "SNAPSHOT_VERSION = 2"

definition encode :: "policy_snapshot \<Rightarrow> pydict" where
  "encode s = (''snapshot_version'', PyInt SNAPSHOT_VERSION) # snapshot_fields s"

definition decode :: "policy_env \<Rightarrow> pyval \<Rightarrow> policy_snapshot \<Rightarrow> policy_snapshot result" where
  "decode env v current = (case v of
       PyDict snapshot \<Rightarrow>
         (let version_ok = (case dget snapshot ''snapshot_version'' of PyNone \<Rightarrow> True | PyInt n \<Rightarrow> 1 \<le> n | _ \<Rightarrow> False) in
          if \<not> version_ok then Inl (ValueError ''Cycle policy snapshot has an invalid version'')
          else rbind (validated env (snapshot_fields current)) (\<lambda>known.
            validated env (map (\<lambda>(k, old). (k, case map_of snapshot k of None \<Rightarrow> old | Some new \<Rightarrow> new)) (snapshot_fields known))))
     | _ \<Rightarrow> Inl (ValueError ''Cycle policy snapshot must be an object''))"

section \<open>Tables and actors\<close>

record policy_cycle =
  cy_id :: int
  cy_user_id :: string
  cy_org_id :: "string option"
  cy_creator_type :: string
  cy_creator_id :: "string option"
  cy_maintainer_type :: string
  cy_maintainer_id :: "string option"
  cy_name :: string
  cy_prompt :: string
  cy_schedule_expr :: string
  cy_timezone :: string
  cy_enabled :: bool
  cy_max_concurrency :: int
  cy_timeout_seconds :: "int option"
  cy_retry_policy :: pyval
  cy_model_override :: "string option"
  cy_thinking_override :: "string option"
  cy_execution_policy_key :: "string option"
  cy_execution_mode :: string
  cy_executor_binding :: string
  cy_skill_ids :: pyval
  cy_receipt_monitoring_started_at :: instant
  cy_target_idea_id :: "string option"
  cy_reopen_archived :: bool
  cy_next_run_at :: "instant option"
  cy_updated_at :: instant
  cy_deleted_at :: "instant option"

record guidance_row =
  gd_id :: int
  gd_cycle_id :: int
  gd_revision_id :: "int option"
  gd_source_type :: string
  gd_source_id :: "string option"
  gd_guidance :: string
  gd_rationale :: "string option"
  gd_is_active :: bool
  gd_created_at :: instant

record revision_row =
  vr_id :: int
  vr_cycle_id :: int
  vr_number :: int
  vr_source_type :: string
  vr_source_id :: "string option"
  vr_rationale :: "string option"
  vr_name :: string
  vr_prompt :: string
  vr_schedule_expr :: string
  vr_timezone :: string
  vr_enabled :: bool
  vr_model_override :: "string option"
  vr_thinking_override :: "string option"
  vr_execution_policy_key :: "string option"
  vr_target_idea_id :: "string option"
  vr_context_policy :: pydict

record audit_row =
  ad_id :: int
  ad_workspace_id :: string
  ad_target_id :: string
  ad_version :: int
  ad_actor_type :: string
  ad_actor_id :: string
  ad_source_reference :: string
  ad_rationale :: string
  ad_before_snapshot :: pydict
  ad_after_snapshot :: pydict
  ad_changed_fields :: "string list"
  ad_cycle_revision_id :: int
  ad_reverted_from_id :: "int option"
  ad_applied_at :: instant

record idea_row =
  id_id :: string
  id_org_id :: "string option"
  id_user_id :: string

text \<open>\<open>pd_users\<close>: the organisation of each user.\<close>

record policy_db =
  pd_cycles :: "policy_cycle list"
  pd_guidance :: "guidance_row list"
  pd_revisions :: "revision_row list"
  pd_audits :: "audit_row list"
  pd_users :: "(string \<times> string option) list"
  pd_ideas :: "idea_row list"
  pd_next_guidance :: int
  pd_next_revision :: int
  pd_next_audit :: int

record cycle_actor =
  ca_user_id :: string
  ca_org_id :: "string option"
  ca_principal_type :: string
  ca_source_id :: "string option"

definition is_service_principal :: "cycle_actor \<Rightarrow> bool" where
  "is_service_principal a = (ca_principal_type a = ''service'')"

definition actor_source_type :: "cycle_actor \<Rightarrow> string" where
  "actor_source_type a = (if ca_principal_type a = [] then ''user'' else ca_principal_type a)"

definition revision_source_id :: "cycle_actor \<Rightarrow> string" where
  "revision_source_id a = (case ca_source_id a of None \<Rightarrow> ca_user_id a | Some s \<Rightarrow> if s = [] then ca_user_id a else s)"

definition org_member :: "policy_db \<Rightarrow> string \<Rightarrow> string \<Rightarrow> bool" where
  "org_member d org user = ((user, Some org) \<in> set (pd_users d))"

text \<open>An organisation sees its own rows and the unassigned rows of its members.\<close>

definition owned_by :: "policy_db \<Rightarrow> string option \<Rightarrow> string \<Rightarrow> string option \<Rightarrow> string \<Rightarrow> bool" where
  "owned_by d actor_org actor_user row_org row_user =
     (if str_or_empty actor_org \<noteq> []
      then row_org = actor_org \<or> (row_org = None \<and> org_member d (str_or_empty actor_org) row_user)
      else row_user = actor_user)"

definition cycle_in_scope :: "policy_db \<Rightarrow> cycle_actor \<Rightarrow> policy_cycle \<Rightarrow> bool" where
  "cycle_in_scope d a c = (cy_deleted_at c = None
     \<and> (is_service_principal a \<or> owned_by d (ca_org_id a) (ca_user_id a) (cy_org_id c) (cy_user_id c)))"

definition idea_in_scope :: "policy_db \<Rightarrow> cycle_actor \<Rightarrow> string \<Rightarrow> idea_row \<Rightarrow> bool" where
  "idea_in_scope d a i r = (id_id r = i
     \<and> (is_service_principal a \<or> owned_by d (ca_org_id a) (ca_user_id a) (id_org_id r) (id_user_id r)))"

definition load_scoped_cycle :: "policy_db \<Rightarrow> cycle_actor \<Rightarrow> int \<Rightarrow> policy_cycle result" where
  "load_scoped_cycle d a i = (case find (\<lambda>c. cy_id c = i \<and> cycle_in_scope d a c) (pd_cycles d) of
       None \<Rightarrow> Inl (ValueError ''Cycle not found'') | Some c \<Rightarrow> Inr c)"

section \<open>The effective policy\<close>

definition workspace_id :: "policy_cycle \<Rightarrow> string" where
  "workspace_id c = (if str_or_empty (cy_org_id c) = [] then cy_user_id c else str_or_empty (cy_org_id c))"

definition audits_of :: "policy_db \<Rightarrow> int \<Rightarrow> audit_row list" where
  "audits_of d i = filter (\<lambda>r. ad_target_id r = show_int i) (pd_audits d)"

definition active_guidance :: "policy_db \<Rightarrow> int \<Rightarrow> guidance_row list" where
  "active_guidance d i = sort_key gd_created_at (sort_key gd_id
     (filter (\<lambda>g. gd_cycle_id g = i \<and> gd_is_active g) (pd_guidance d)))"

definition from_cycle :: "policy_env \<Rightarrow> policy_cycle \<Rightarrow> guidance_row list \<Rightarrow> policy_snapshot result" where
  "from_cycle env c rows =
     rbind (dict_or_error (cy_retry_policy c)) (\<lambda>retry.
     rbind (validate_executor_binding (PyStr (if cy_executor_binding c = [] then ILLO_LANE_EXECUTOR_BINDING else cy_executor_binding c))) (\<lambda>executor.
     rbind (validate_cycle_skill_ids (cy_skill_ids c)) (\<lambda>skills.
     validated env
       [(''name'', PyStr (cy_name c)), (''prompt'', PyStr (cy_prompt c)), (''schedule_expr'', PyStr (cy_schedule_expr c)),
        (''timezone'', PyStr (cy_timezone c)), (''enabled'', PyBool (cy_enabled c)),
        (''max_concurrency'', PyInt (max (if cy_max_concurrency c = 0 then 1 else cy_max_concurrency c) 1)),
        (''timeout_seconds'', opt_int (cy_timeout_seconds c)), (''retry_policy'', PyDict retry),
        (''model_override'', opt_str (cy_model_override c)), (''thinking_override'', opt_str (cy_thinking_override c)),
        (''execution_policy_key'', opt_str (cy_execution_policy_key c)), (''executor_binding'', PyStr executor),
        (''skill_ids'', PyList (map PyInt skills)), (''target_idea_id'', opt_str (cy_target_idea_id c)),
        (''guidance'', PyList (map (\<lambda>g. PyStr (gd_guidance g)) rows))])))"

record effective_policy =
  ep_workspace_id :: string
  ep_target_id :: string
  ep_version :: int
  ep_revision_id :: "int option"
  ep_snapshot :: policy_snapshot

definition latest_version :: "policy_db \<Rightarrow> int \<Rightarrow> int" where
  "latest_version d i = (case map ad_version (audits_of d i) of [] \<Rightarrow> 0 | v # vs \<Rightarrow> Max (set (v # vs)))"

definition revisions_of :: "policy_db \<Rightarrow> int \<Rightarrow> revision_row list" where
  "revisions_of d i = filter (\<lambda>r. vr_cycle_id r = i) (pd_revisions d)"

text \<open>\<open>ORDER BY revision_number DESC, id DESC LIMIT 1\<close>.\<close>

definition latest_revision_id :: "policy_db \<Rightarrow> int \<Rightarrow> int option" where
  "latest_revision_id d i =
     (case rev (sort_key vr_number (sort_key vr_id (revisions_of d i))) of [] \<Rightarrow> None | r # _ \<Rightarrow> Some (vr_id r))"

definition effective :: "policy_env \<Rightarrow> policy_db \<Rightarrow> policy_cycle \<Rightarrow> effective_policy result" where
  "effective env d c =
     rbind (from_cycle env c (active_guidance d (cy_id c))) (\<lambda>snapshot.
     Inr \<lparr>ep_workspace_id = workspace_id c, ep_target_id = show_int (cy_id c), ep_version = latest_version d (cy_id c),
          ep_revision_id = latest_revision_id d (cy_id c), ep_snapshot = snapshot\<rparr>)"

section \<open>Previews\<close>

text \<open>\<open>run_at\<close> is \<open>None\<close> when it is unset or null, \<open>guidance_additions\<close> when it is unset.\<close>

record policy_patch =
  pp_changes :: pydict
  pp_run_at :: "run_at_value option"
  pp_guidance_additions :: "pyval option"

datatype proposal = Patch policy_patch | Revert int

definition project_patch :: "policy_env \<Rightarrow> policy_snapshot \<Rightarrow> policy_patch \<Rightarrow> policy_snapshot result" where
  "project_patch env current patch =
     (let unknown = sort (remdups (filter (\<lambda>k. k \<notin> set FIELD_NAMES) (map fst (pp_changes patch))));
          updates = filter (\<lambda>(k, v). \<not> (v = PyNone \<and> patch_ignores_none k)) (pp_changes patch);
          timezone = (case map_of updates ''timezone'' of None \<Rightarrow> PyStr (ps_timezone current) | Some v \<Rightarrow> v)
      in
      if unknown \<noteq> [] then Inl (ValueError (''Unknown Cycle policy field(s): '' @ py_join '', '' unknown))
      else rbind (case pp_run_at patch of
             None \<Rightarrow> Inr updates
           | Some run_at \<Rightarrow> rbind (build_one_time_schedule_expr env run_at timezone) (\<lambda>expr.
               Inr (dset updates ''schedule_expr'' (PyStr expr)))) (\<lambda>updates.
        if map_of updates ''guidance'' \<noteq> None \<and> pp_guidance_additions patch \<noteq> None
        then Inl (ValueError ''guidance and guidance_additions cannot be changed together'')
        else (let after = dmerge (snapshot_fields current) updates in
          case pp_guidance_additions patch of
            None \<Rightarrow> validated env after
          | Some v \<Rightarrow> rbind (list_or_error ''guidance_additions'' v) (\<lambda>vs.
              rbind (rmap (\<lambda>v. validate_nonempty_trimmed v ''guidance'') vs) (\<lambda>additions.
              validated env (dset after ''guidance'' (PyList (map PyStr (sort (ps_guidance current @ additions))))))))))"

definition load_revert_source :: "policy_db \<Rightarrow> policy_cycle \<Rightarrow> int \<Rightarrow> audit_row result" where
  "load_revert_source d c change_id = (case find (\<lambda>r. ad_id r = change_id) (audits_of d (cy_id c)) of
       None \<Rightarrow> Inl (ValueError ''Behavior change not found'') | Some r \<Rightarrow> Inr r)"

definition validate_target_idea :: "policy_db \<Rightarrow> cycle_actor \<Rightarrow> string option \<Rightarrow> unit result" where
  "validate_target_idea d a target = (case target of
       None \<Rightarrow> Inr ()
     | Some i \<Rightarrow> if list_ex (idea_in_scope d a i) (pd_ideas d) then Inr ()
         else Inl (ValueError ''target_idea_id must belong to the current workspace''))"

definition changed_fields :: "policy_snapshot \<Rightarrow> policy_snapshot \<Rightarrow> string list" where
  "changed_fields old new =
     sort (filter (\<lambda>k. \<not> py_eq (dget (snapshot_fields old) k) (dget (snapshot_fields new) k)) FIELD_NAMES)"

definition preview_digest :: "policy_env \<Rightarrow> effective_policy \<Rightarrow> policy_snapshot \<Rightarrow> string list \<Rightarrow> int option \<Rightarrow> string" where
  "preview_digest env current new changed reverted_from =
     pe_sha256 env (json_dumps True '','' '':'' (PyDict
       [(''workspace_id'', PyStr (ep_workspace_id current)), (''target_id'', PyStr (ep_target_id current)),
        (''expected_version'', PyInt (ep_version current)),
        (''before_snapshot'', PyDict (snapshot_fields (ep_snapshot current))),
        (''after_snapshot'', PyDict (snapshot_fields new)), (''changed_fields'', PyList (map PyStr changed)),
        (''reverted_from_id'', opt_int reverted_from)]))"

record policy_preview =
  pv_before :: effective_policy
  pv_after_snapshot :: policy_snapshot
  pv_changed_fields :: "string list"
  pv_digest :: string
  pv_reverted_from_id :: "int option"

definition proposed_snapshot ::
  "policy_env \<Rightarrow> policy_db \<Rightarrow> policy_cycle \<Rightarrow> policy_snapshot \<Rightarrow> proposal \<Rightarrow> policy_snapshot result" where
  "proposed_snapshot env d c current p = (case p of
       Revert change_id \<Rightarrow> rbind (load_revert_source d c change_id) (\<lambda>source.
         decode env (PyDict (ad_before_snapshot source)) current)
     | Patch patch \<Rightarrow> project_patch env current patch)"

definition preview_for_cycle ::
  "policy_env \<Rightarrow> policy_db \<Rightarrow> cycle_actor \<Rightarrow> policy_cycle \<Rightarrow> effective_policy \<Rightarrow> proposal \<Rightarrow> int option \<Rightarrow> policy_preview result" where
  "preview_for_cycle env d a c current p reverted_from =
     rbind (proposed_snapshot env d c (ep_snapshot current) p) (\<lambda>new.
     rbind (if ps_target_idea_id new \<noteq> ps_target_idea_id (ep_snapshot current)
            then validate_target_idea d a (ps_target_idea_id new) else Inr ()) (\<lambda>_.
     let changed = changed_fields (ep_snapshot current) new in
     Inr \<lparr>pv_before = current, pv_after_snapshot = new, pv_changed_fields = changed,
          pv_digest = preview_digest env current new changed reverted_from, pv_reverted_from_id = reverted_from\<rparr>))"

definition preview_change :: "policy_env \<Rightarrow> policy_db \<Rightarrow> cycle_actor \<Rightarrow> int \<Rightarrow> policy_patch \<Rightarrow> policy_preview result" where
  "preview_change env d a i patch =
     rbind (load_scoped_cycle d a i) (\<lambda>c. rbind (effective env d c) (\<lambda>current.
     preview_for_cycle env d a c current (Patch patch) None))"

definition preview_revert :: "policy_env \<Rightarrow> policy_db \<Rightarrow> cycle_actor \<Rightarrow> int \<Rightarrow> int \<Rightarrow> policy_preview result" where
  "preview_revert env d a i change_id =
     rbind (load_scoped_cycle d a i) (\<lambda>c. rbind (effective env d c) (\<lambda>current.
     preview_for_cycle env d a c current (Revert change_id) (Some change_id)))"

section \<open>Applying a change\<close>

definition REUSABLE_THREAD_EXECUTION_MODE :: string where
  "REUSABLE_THREAD_EXECUTION_MODE = ''reuse_same_idea''"

definition apply_to :: "policy_env \<Rightarrow> instant \<Rightarrow> policy_snapshot \<Rightarrow> policy_cycle \<Rightarrow> policy_cycle result" where
  "apply_to env now s c =
     rbind (compute_next_run_at env now (ps_schedule_expr s) (ps_timezone s) None) (\<lambda>next_run.
     Inr (c\<lparr>cy_name := ps_name s, cy_prompt := ps_prompt s, cy_schedule_expr := ps_schedule_expr s,
            cy_timezone := ps_timezone s, cy_enabled := ps_enabled s, cy_max_concurrency := ps_max_concurrency s,
            cy_timeout_seconds := ps_timeout_seconds s, cy_retry_policy := PyDict (ps_retry_policy s),
            cy_model_override := ps_model_override s, cy_thinking_override := ps_thinking_override s,
            cy_execution_policy_key := ps_execution_policy_key s, cy_executor_binding := ps_executor_binding s,
            cy_skill_ids := PyList (map PyInt (ps_skill_ids s)), cy_target_idea_id := ps_target_idea_id s,
            cy_execution_mode := REUSABLE_THREAD_EXECUTION_MODE, cy_reopen_archived := True,
            cy_next_run_at := next_run, cy_receipt_monitoring_started_at := now, cy_updated_at := now\<rparr>))"

text \<open>\<open>actor_type\<close>, \<open>actor_id\<close> and \<open>creator_payload\<close> of \<open>common.py\<close>.\<close>

definition actor_type :: "string \<Rightarrow> string" where
  "actor_type v = (let s = py_strip (if v = [] then ''system'' else v) in if s = [] then ''system'' else s)"

definition actor_id :: "string option \<Rightarrow> string option" where
  "actor_id v = (let s = py_strip (str_or_empty v) in if s = [] then None else Some s)"

definition or_else :: "string option \<Rightarrow> string option \<Rightarrow> string option" where
  "or_else a b = (if str_or_empty a = [] then b else a)"

definition creator_payload :: "policy_cycle \<Rightarrow> pydict" where
  "creator_payload c =
     (let creator_type = (if cy_creator_type c = [] then ''user'' else cy_creator_type c);
          creator_id = or_else (cy_creator_id c) (Some (cy_user_id c))
      in [(''creator_type'', PyStr creator_type), (''creator_id'', opt_str creator_id),
          (''maintainer_type'', PyStr (if cy_maintainer_type c = [] then creator_type else cy_maintainer_type c)),
          (''maintainer_id'', opt_str (or_else (cy_maintainer_id c) creator_id))])"

definition next_revision_number :: "policy_db \<Rightarrow> int \<Rightarrow> int" where
  "next_revision_number d i = (case map vr_number (revisions_of d i) of [] \<Rightarrow> 0 | n # ns \<Rightarrow> Max (set (n # ns))) + 1"

definition new_revision :: "policy_db \<Rightarrow> policy_cycle \<Rightarrow> string \<Rightarrow> string option \<Rightarrow> string option \<Rightarrow> revision_row" where
  "new_revision d c source_type source_id rationale =
     \<lparr>vr_id = pd_next_revision d, vr_cycle_id = cy_id c, vr_number = next_revision_number d (cy_id c),
      vr_source_type = actor_type source_type, vr_source_id = actor_id source_id,
      vr_rationale = (let s = py_strip (str_or_empty rationale) in if s = [] then None else Some s),
      vr_name = cy_name c, vr_prompt = cy_prompt c, vr_schedule_expr = cy_schedule_expr c, vr_timezone = cy_timezone c,
      vr_enabled = cy_enabled c, vr_model_override = cy_model_override c, vr_thinking_override = cy_thinking_override c,
      vr_execution_policy_key = cy_execution_policy_key c, vr_target_idea_id = cy_target_idea_id c,
      vr_context_policy = [(''workspace_id'', opt_str (cy_org_id c)), (''owner_user_id'', PyStr (cy_user_id c))]
        @ creator_payload c\<rparr>"

definition record_cycle_revision ::
  "policy_db \<Rightarrow> policy_cycle \<Rightarrow> string \<Rightarrow> string option \<Rightarrow> string option \<Rightarrow> revision_row \<times> policy_db" where
  "record_cycle_revision d c source_type source_id rationale =
     (let r = new_revision d c source_type source_id rationale in
      (r, d\<lparr>pd_revisions := pd_revisions d @ [r], pd_next_revision := pd_next_revision d + 1\<rparr>))"

text \<open>Rows whose text is still wanted stay; the loop returns the rows it switches off and the texts without a row.\<close>

fun match_guidance :: "guidance_row list \<Rightarrow> string list \<Rightarrow> int list \<times> string list" where
  "match_guidance [] unmatched = ([], unmatched)"
| "match_guidance (g # gs) unmatched =
     (if gd_guidance g \<in> set unmatched then match_guidance gs (remove1 (gd_guidance g) unmatched)
      else (let (dropped, rest) = match_guidance gs unmatched in (gd_id g # dropped, rest)))"

definition guidance_rows ::
  "instant \<Rightarrow> policy_cycle \<Rightarrow> cycle_actor \<Rightarrow> string \<Rightarrow> int \<Rightarrow> int \<Rightarrow> string list \<Rightarrow> guidance_row list" where
  "guidance_rows now c a rationale revision_id first_id texts =
     map (\<lambda>(k, t). \<lparr>gd_id = first_id + int k, gd_cycle_id = cy_id c, gd_revision_id = Some revision_id,
        gd_source_type = actor_source_type a, gd_source_id = Some (revision_source_id a), gd_guidance = t,
        gd_rationale = Some rationale, gd_is_active = True, gd_created_at = now\<rparr>) (enumerate 0 texts)"

definition replace_active_guidance ::
  "instant \<Rightarrow> policy_db \<Rightarrow> policy_cycle \<Rightarrow> string list \<Rightarrow> cycle_actor \<Rightarrow> string \<Rightarrow> int \<Rightarrow> policy_db" where
  "replace_active_guidance now d c desired a rationale revision_id =
     (let (dropped, unmatched) = match_guidance (active_guidance d (cy_id c)) desired in
      d\<lparr>pd_guidance := map (\<lambda>g. if gd_id g \<in> set dropped then g\<lparr>gd_is_active := False\<rparr> else g) (pd_guidance d)
           @ guidance_rows now c a rationale revision_id (pd_next_guidance d) unmatched,
        pd_next_guidance := pd_next_guidance d + int (length unmatched)\<rparr>)"

definition update_cycle_row :: "policy_cycle \<Rightarrow> policy_db \<Rightarrow> policy_db" where
  "update_cycle_row c d = d\<lparr>pd_cycles := map (\<lambda>r. if cy_id r = cy_id c then c else r) (pd_cycles d)\<rparr>"

definition cycle_change_payload :: "string \<Rightarrow> policy_cycle \<Rightarrow> pydict" where
  "cycle_change_payload action c =
     (let idea = str_or_empty (cy_target_idea_id c) in
      [(''action'', PyStr action)]
      @ (if str_or_empty (cy_org_id c) = [] then [] else [(''org_id'', PyStr (str_or_empty (cy_org_id c)))])
      @ (if cy_user_id c = [] then [] else [(''user_id'', PyStr (cy_user_id c))])
      @ [(''cycle_id'', PyInt (cy_id c))]
      @ (if idea = [] then [] else [(''idea_id'', PyStr idea), (''target_idea_id'', PyStr idea)]))"

definition publish_cycle_change_strict :: "policy_env \<Rightarrow> string \<Rightarrow> policy_cycle \<Rightarrow> unit result" where
  "publish_cycle_change_strict env action c =
     (case pe_publish env ''cycles_changed'' (cycle_change_payload action c) of None \<Rightarrow> Inr () | Some e \<Rightarrow> Inl e)"

record change_record =
  ch_row :: audit_row
  ch_before :: policy_snapshot
  ch_after :: policy_snapshot

definition policy_record :: "policy_env \<Rightarrow> audit_row \<Rightarrow> policy_snapshot \<Rightarrow> change_record result" where
  "policy_record env row current =
     rbind (decode env (PyDict (ad_before_snapshot row)) current) (\<lambda>old.
     rbind (decode env (PyDict (ad_after_snapshot row)) current) (\<lambda>new.
     Inr \<lparr>ch_row = row, ch_before = old, ch_after = new\<rparr>))"

datatype apply_result =
    Applied effective_policy change_record revision_row
  | Conflict string effective_policy

text \<open>The writes of an accepted change: row, revision, guidance, audit row, event.\<close>

definition write_change ::
  "policy_env \<Rightarrow> instant \<Rightarrow> policy_db \<Rightarrow> cycle_actor \<Rightarrow> policy_cycle \<Rightarrow> policy_preview \<Rightarrow> string \<Rightarrow> string \<Rightarrow> int option
    \<Rightarrow> (apply_result \<times> policy_db) result" where
  "write_change env now d a c pv rationale source_reference reverted_from =
     (let current = pv_before pv; new = pv_after_snapshot pv in
      rbind (apply_to env now new c) (\<lambda>applied.
      let c' = applied\<lparr>cy_maintainer_type := actor_source_type a, cy_maintainer_id := Some (revision_source_id a)\<rparr>;
          d1 = update_cycle_row c' d;
          (revision, d2) = record_cycle_revision d1 c' (actor_source_type a) (Some (revision_source_id a)) (Some rationale);
          d3 = replace_active_guidance now d2 c' (ps_guidance new) a rationale (vr_id revision);
          change = \<lparr>ad_id = pd_next_audit d3, ad_workspace_id = ep_workspace_id current, ad_target_id = show_int (cy_id c'),
             ad_version = ep_version current + 1, ad_actor_type = actor_source_type a, ad_actor_id = revision_source_id a,
             ad_source_reference = source_reference, ad_rationale = rationale,
             ad_before_snapshot = encode (ep_snapshot current), ad_after_snapshot = encode new,
             ad_changed_fields = pv_changed_fields pv, ad_cycle_revision_id = vr_id revision,
             ad_reverted_from_id = reverted_from, ad_applied_at = now\<rparr>;
          d4 = d3\<lparr>pd_audits := pd_audits d3 @ [change], pd_next_audit := pd_next_audit d3 + 1\<rparr>
      in rbind (publish_cycle_change_strict env ''update'' c') (\<lambda>_.
         rbind (policy_record env change new) (\<lambda>record.
         Inr (Applied \<lparr>ep_workspace_id = ep_workspace_id current, ep_target_id = show_int (cy_id c'),
                ep_version = ad_version change, ep_revision_id = Some (vr_id revision), ep_snapshot = new\<rparr>
                record revision, d4)))))"

definition apply_in_savepoint ::
  "policy_env \<Rightarrow> instant \<Rightarrow> policy_db \<Rightarrow> cycle_actor \<Rightarrow> int \<Rightarrow> proposal \<Rightarrow> int \<Rightarrow> string \<Rightarrow> string \<Rightarrow> string \<Rightarrow> int option
    \<Rightarrow> (apply_result \<times> policy_db) result" where
  "apply_in_savepoint env now d a i p expected_version digest rationale source_reference reverted_from =
     rbind (load_scoped_cycle d a i) (\<lambda>c.
     rbind (effective env d c) (\<lambda>current.
     if ep_version current \<noteq> expected_version then Inr (Conflict ''stale_version'' current, d)
     else
       rbind (case (reverted_from, p) of
                (Some change_id, Patch _) \<Rightarrow> rbind (load_revert_source d c change_id) (\<lambda>_. Inr ()) | _ \<Rightarrow> Inr ()) (\<lambda>_.
       rbind (preview_for_cycle env d a c current p reverted_from) (\<lambda>pv.
       if pv_digest pv \<noteq> digest then Inr (Conflict ''stale_preview_digest'' current, d)
       else if pv_changed_fields pv = [] then Inl (ValueError ''proposed change does not change Cycle policy'')
       else write_change env now d a c pv rationale source_reference reverted_from))))"

text \<open>An exception rolls the savepoint back.\<close>

definition apply_policy_change ::
  "policy_env \<Rightarrow> instant \<Rightarrow> cycle_actor \<Rightarrow> int \<Rightarrow> proposal \<Rightarrow> pyval \<Rightarrow> string \<Rightarrow> string \<Rightarrow> string \<Rightarrow> int option
    \<Rightarrow> policy_db \<Rightarrow> apply_result result \<times> policy_db" where
  "apply_policy_change env now a i p expected_version digest rationale source_reference reverted_from d =
     (case rbind (validate_nonempty_trimmed (PyStr rationale) ''rationale'') (\<lambda>clean_rationale.
           rbind (validate_nonempty_trimmed (PyStr source_reference) ''source_reference'') (\<lambda>clean_reference.
           rbind (case expected_version of PyInt n \<Rightarrow> Inr n | _ \<Rightarrow> Inl (ValueError ''expected_version must be an integer'')) (\<lambda>version.
           rbind (validate_nonempty_trimmed (PyStr digest) ''preview_digest'') (\<lambda>clean_digest.
           apply_in_savepoint env now d a i p version clean_digest clean_rationale clean_reference reverted_from)))) of
        Inl e \<Rightarrow> (Inl e, d) | Inr (r, d') \<Rightarrow> (Inr r, d'))"

definition apply_policy_revert ::
  "policy_env \<Rightarrow> instant \<Rightarrow> cycle_actor \<Rightarrow> int \<Rightarrow> int \<Rightarrow> pyval \<Rightarrow> string \<Rightarrow> string \<Rightarrow> string
    \<Rightarrow> policy_db \<Rightarrow> apply_result result \<times> policy_db" where
  "apply_policy_revert env now a i change_id expected_version digest rationale source_reference d =
     apply_policy_change env now a i (Revert change_id) expected_version digest rationale source_reference (Some change_id) d"

definition list_policy_history ::
  "policy_env \<Rightarrow> policy_db \<Rightarrow> cycle_actor \<Rightarrow> int \<Rightarrow> int \<Rightarrow> int \<Rightarrow> change_record list result" where
  "list_policy_history env d a i limit offset =
     rbind (load_scoped_cycle d a i) (\<lambda>c. rbind (effective env d c) (\<lambda>current.
     rmap (\<lambda>row. policy_record env row (ep_snapshot current))
       (take (nat (max 1 (min limit 500))) (drop (nat (max 0 offset)) (rev (sort_key ad_version (audits_of d i)))))))"

end
