(* ===== verification/Cycle_Reviews.thy ===== *)
theory Cycle_Reviews
  imports Cycle_Policy "HOL-Library.Multiset"
begin

text \<open>
  What a reviewed policy change guarantees: the reported policy is the one read back, a revert restores the
  policy before the change, a review of a superseded version is refused, and the history of every Cycle numbers
  its changes without gaps, over any sequence of changes, reverts and writes of other components.
\<close>

section \<open>Validated snapshots are fixed points\<close>

definition fields_with :: "policy_snapshot \<Rightarrow> string list \<Rightarrow> pydict" where
  "fields_with s g =
     [(''name'', PyStr (ps_name s)), (''prompt'', PyStr (ps_prompt s)), (''schedule_expr'', PyStr (ps_schedule_expr s)),
      (''timezone'', PyStr (ps_timezone s)), (''enabled'', PyBool (ps_enabled s)),
      (''max_concurrency'', PyInt (ps_max_concurrency s)), (''timeout_seconds'', opt_int (ps_timeout_seconds s)),
      (''retry_policy'', PyDict (ps_retry_policy s)), (''model_override'', opt_str (ps_model_override s)),
      (''thinking_override'', opt_str (ps_thinking_override s)),
      (''execution_policy_key'', opt_str (ps_execution_policy_key s)),
      (''executor_binding'', PyStr (ps_executor_binding s)), (''skill_ids'', PyList (map PyInt (ps_skill_ids s))),
      (''target_idea_id'', opt_str (ps_target_idea_id s)), (''guidance'', PyList (map PyStr g))]"

lemma snapshot_fields_with: "snapshot_fields s = fields_with s (ps_guidance s)"
  by (simp add: snapshot_fields_def fields_with_def)

lemma dget_fields_with [simp]:
  "dget (fields_with s g) ''name'' = PyStr (ps_name s)" "dget (fields_with s g) ''prompt'' = PyStr (ps_prompt s)"
  "dget (fields_with s g) ''schedule_expr'' = PyStr (ps_schedule_expr s)"
  "dget (fields_with s g) ''timezone'' = PyStr (ps_timezone s)" "dget (fields_with s g) ''enabled'' = PyBool (ps_enabled s)"
  "dget (fields_with s g) ''max_concurrency'' = PyInt (ps_max_concurrency s)"
  "dget (fields_with s g) ''timeout_seconds'' = opt_int (ps_timeout_seconds s)"
  "dget (fields_with s g) ''retry_policy'' = PyDict (ps_retry_policy s)"
  "dget (fields_with s g) ''model_override'' = opt_str (ps_model_override s)"
  "dget (fields_with s g) ''thinking_override'' = opt_str (ps_thinking_override s)"
  "dget (fields_with s g) ''execution_policy_key'' = opt_str (ps_execution_policy_key s)"
  "dget (fields_with s g) ''executor_binding'' = PyStr (ps_executor_binding s)"
  "dget (fields_with s g) ''skill_ids'' = PyList (map PyInt (ps_skill_ids s))"
  "dget (fields_with s g) ''target_idea_id'' = opt_str (ps_target_idea_id s)"
  "dget (fields_with s g) ''guidance'' = PyList (map PyStr g)"
  by (simp_all add: fields_with_def dget_def)

definition settled_snapshot :: "policy_env \<Rightarrow> policy_snapshot \<Rightarrow> bool" where
  "settled_snapshot env s =
     (validate_timezone_name env (PyStr (ps_timezone s)) = Inr (ps_timezone s)
      \<and> validate_cycle_skill_ids (PyList (map PyInt (ps_skill_ids s))) = Inr (ps_skill_ids s)
      \<and> list_all (\<lambda>t. validate_nonempty_trimmed (PyStr t) ''guidance'' = Inr t) (ps_guidance s)
      \<and> distinct (ps_guidance s) \<and> sorted (ps_guidance s)
      \<and> validate_nonempty_trimmed (PyStr (ps_name s)) ''name'' = Inr (ps_name s)
      \<and> validate_cycle_prompt (PyStr (ps_prompt s)) (ps_skill_ids s) = Inr (ps_prompt s)
      \<and> validate_schedule_expr env (PyStr (ps_schedule_expr s)) (ps_timezone s) = Inr (ps_schedule_expr s)
      \<and> validated_max_concurrency (PyInt (ps_max_concurrency s)) = Inr (ps_max_concurrency s)
      \<and> 1 \<le> ps_max_concurrency s
      \<and> validate_cycle_timeout_seconds (opt_int (ps_timeout_seconds s)) = Inr (ps_timeout_seconds s)
      \<and> validate_model_override (opt_str (ps_model_override s)) = Inr (ps_model_override s)
      \<and> validate_thinking_override (opt_str (ps_thinking_override s)) = Inr (ps_thinking_override s)
      \<and> validate_cycle_execution_policy_key (opt_str (ps_execution_policy_key s)) = Inr (ps_execution_policy_key s)
      \<and> validate_executor_binding (PyStr (ps_executor_binding s)) = Inr (ps_executor_binding s)
      \<and> ps_executor_binding s \<noteq> [])"

text \<open>Every one-time schedule that the validator prints reads back as itself.\<close>

definition schedules_fixed :: "policy_env \<Rightarrow> bool" where
  "schedules_fixed env = (\<forall>v name s. validate_schedule_expr env v name = Inr s
     \<longrightarrow> validate_timezone_name env (PyStr name) = Inr name \<longrightarrow> schedule_fixed env s name)"

lemma rmap_trimmed: "rmap (\<lambda>v. validate_nonempty_trimmed v n) vs = Inr g \<Longrightarrow> list_all (\<lambda>t. validate_nonempty_trimmed (PyStr t) n' = Inr t) g"
  by (induction vs arbitrary: g) (auto simp: rbind_Inr_iff dest: nonempty_trimmed_again)

lemma validated_ok:
  assumes "schedules_fixed env" and "validated env f = Inr s"
  shows "settled_snapshot env s"
proof -
  obtain timezone enabled retry entries skills guidance name prompt schedule concurrency timeout model thinking key executor where
    p: "validate_timezone_name env (dget f ''timezone'') = Inr timezone" "validate_cycle_skill_ids (dget f ''skill_ids'') = Inr skills"
      "validated_guidance entries = Inr guidance" "validate_nonempty_trimmed (dget f ''name'') ''name'' = Inr name"
      "validate_cycle_prompt (dget f ''prompt'') skills = Inr prompt"
      "validate_schedule_expr env (dget f ''schedule_expr'') timezone = Inr schedule"
      "validated_max_concurrency (dget f ''max_concurrency'') = Inr concurrency"
      "validate_cycle_timeout_seconds (dget f ''timeout_seconds'') = Inr timeout"
      "validate_model_override (dget f ''model_override'') = Inr model"
      "validate_thinking_override (dget f ''thinking_override'') = Inr thinking"
      "validate_cycle_execution_policy_key (dget f ''execution_policy_key'') = Inr key"
      "validate_executor_binding (dget f ''executor_binding'') = Inr executor"
    and s: "ps_timezone s = timezone" "ps_skill_ids s = skills" "ps_guidance s = sort guidance" "ps_name s = name"
      "ps_prompt s = prompt" "ps_schedule_expr s = schedule" "ps_max_concurrency s = concurrency"
      "ps_timeout_seconds s = timeout" "ps_model_override s = model" "ps_thinking_override s = thinking"
      "ps_execution_policy_key s = key" "ps_executor_binding s = executor"
    using assms(2) unfolding validated_def by (auto simp only: rbind_Inr_iff sum.inject policy_snapshot.simps)
  have tz: "validate_timezone_name env (PyStr timezone) = Inr timezone" by (rule timezone_again [OF p(1)])
  have g: "list_all (\<lambda>t. validate_nonempty_trimmed (PyStr t) ''guidance'' = Inr t) guidance" "distinct guidance"
    using p(3) by (auto simp: validated_guidance_def rbind_Inr_iff rmap_trimmed split: if_splits)
  have "schedule_fixed env schedule timezone" using assms(1) p(6) tz unfolding schedules_fixed_def by blast
  then have "validate_schedule_expr env (PyStr schedule) timezone = Inr schedule" by (rule schedule_again [OF p(6) tz])
  then show ?thesis
    unfolding settled_snapshot_def s
    using tz g skill_ids_again [OF p(2)] nonempty_trimmed_again [OF p(4)] prompt_again [OF p(5)]
      max_concurrency_again [OF p(7)] timeout_again [OF p(8)] model_override_again [OF p(9)] thinking_again [OF p(10)]
      policy_key_again [OF p(11)] executor_binding_again [OF p(12)]
    by (simp add: list_all_iff)
qed

lemma rmap_fixed: "list_all (\<lambda>t. f (g t) = Inr t) xs \<Longrightarrow> rmap f (map g xs) = Inr xs"
  by (induction xs) simp_all

lemma sorted_permuted: "distinct xs \<Longrightarrow> distinct ys \<Longrightarrow> set xs = set ys \<Longrightarrow> sorted ys \<Longrightarrow> sort xs = (ys :: string list)"
  by (rule sorted_distinct_set_unique) simp_all

lemma validated_fields_with:
  assumes ok: "settled_snapshot env s" and g: "distinct g" "set g = set (ps_guidance s)"
  shows "validated env (fields_with s g) = Inr s"
proof -
  have "list_all (\<lambda>t. validate_nonempty_trimmed (PyStr t) ''guidance'' = Inr t) g"
    using ok g(2) by (simp add: settled_snapshot_def list_all_iff)
  then have "validated_guidance (map PyStr g) = Inr g"
    using rmap_fixed [of "\<lambda>v. validate_nonempty_trimmed v ''guidance''" PyStr g] g(1) by (simp add: validated_guidance_def)
  moreover have "sort g = ps_guidance s" using ok g by (intro sorted_permuted) (simp_all add: settled_snapshot_def)
  moreover have "(case opt_str (ps_target_idea_id s) of PyNone \<Rightarrow> None | v \<Rightarrow> Some (py_str v)) = ps_target_idea_id s"
    by (cases "ps_target_idea_id s") simp_all
  ultimately show ?thesis
    using ok by (simp add: validated_def settled_snapshot_def bool_or_error_def object_or_error_def list_or_error_def)
qed

text \<open>A persisted snapshot reads back, whatever the policy of today is.\<close>

lemma decode_encode:
  assumes "settled_snapshot env s" and "settled_snapshot env current"
  shows "decode env (PyDict (encode s)) current = Inr s"
proof -
  have fixed: "validated env (snapshot_fields t) = Inr t" if "settled_snapshot env t" for t
    unfolding snapshot_fields_with using that by (intro validated_fields_with) (simp_all add: settled_snapshot_def)
  have "map (\<lambda>(k, old). (k, case map_of (encode s) k of None \<Rightarrow> old | Some new \<Rightarrow> new)) (snapshot_fields current) = snapshot_fields s"
    by (simp add: encode_def snapshot_fields_def)
  moreover have "dget (encode s) ''snapshot_version'' = PyInt 2" by (simp add: encode_def dget_def SNAPSHOT_VERSION_def)
  ultimately show ?thesis using fixed [OF assms(1)] fixed [OF assms(2)] by (simp add: decode_def)
qed

section \<open>Guidance rows\<close>

definition guidance_ok :: "policy_db \<Rightarrow> bool" where
  "guidance_ok d = (distinct (map gd_id (pd_guidance d)) \<and> list_all (\<lambda>g. gd_id g < pd_next_guidance d) (pd_guidance d))"

lemma match_guidance_texts:
  assumes "match_guidance gs wanted = (dropped, rest)" and "distinct (map gd_id gs)"
  shows "mset (map gd_guidance (filter (\<lambda>g. gd_id g \<notin> set dropped) gs)) + mset rest = mset wanted \<and> set dropped \<subseteq> gd_id ` set gs"
  using assms
proof (induction gs wanted arbitrary: dropped rest rule: match_guidance.induct)
  case (2 g gs wanted)
  show ?case
  proof (cases "gd_guidance g \<in> set wanted")
    case True
    then have m: "match_guidance gs (remove1 (gd_guidance g) wanted) = (dropped, rest)" using "2.prems"(1) by simp
    from "2.IH"(1) [OF True m] "2.prems"(2)
    have ih: "mset (map gd_guidance (filter (\<lambda>g. gd_id g \<notin> set dropped) gs)) + mset rest = mset wanted - {#gd_guidance g#}"
      "set dropped \<subseteq> gd_id ` set gs" by simp_all
    then have "gd_id g \<notin> set dropped" using "2.prems"(2) by auto
    then show ?thesis using ih True by auto
  next
    case False
    obtain dr where m: "match_guidance gs wanted = (dr, rest)" "dropped = gd_id g # dr"
      using "2.prems"(1) False by (auto split: prod.splits)
    from "2.IH"(2) [OF False m(1)] "2.prems"(2)
    have ih: "mset (map gd_guidance (filter (\<lambda>g. gd_id g \<notin> set dr) gs)) + mset rest = mset wanted" "set dr \<subseteq> gd_id ` set gs"
      by simp_all
    moreover have "filter (\<lambda>h. gd_id h \<notin> set dropped) gs = filter (\<lambda>h. gd_id h \<notin> set dr) gs"
      using "2.prems"(2) m(2) by (intro filter_cong) (auto simp: image_iff)
    ultimately show ?thesis using m(2) by auto
  qed
qed simp

lemma set_active_guidance: "set (active_guidance d i) = {g \<in> set (pd_guidance d). gd_cycle_id g = i \<and> gd_is_active g}"
  by (auto simp: active_guidance_def)

lemma distinct_active_guidance: "distinct (map gd_id (pd_guidance d)) \<Longrightarrow> distinct (map gd_id (active_guidance d i))"
  unfolding active_guidance_def distinct_map distinct_sort set_sort by (auto simp: inj_on_def)

lemma guidance_rows_texts: "map gd_guidance (guidance_rows now c a r rid k ts) = ts"
  by (simp add: guidance_rows_def o_def split_def enumerate_eq_zip)

lemma guidance_rows_ids: "map gd_id (guidance_rows now c a r rid k ts) = map (\<lambda>n. k + int n) [0..<length ts]"
proof -
  have "map gd_id (guidance_rows now c a r rid k ts) = map (\<lambda>n. k + int n) (map fst (zip [0..<length ts] ts))"
    unfolding guidance_rows_def enumerate_eq_zip map_map by (simp add: o_def split_def)
  then show ?thesis by simp
qed

lemma guidance_rows_cycle: "g \<in> set (guidance_rows now c a r rid k ts) \<Longrightarrow> gd_cycle_id g = cy_id c \<and> gd_is_active g"
  by (auto simp: guidance_rows_def)

lemma guidance_rows_range:
  assumes "g \<in> set (guidance_rows now c a r rid k ts)"
  shows "k \<le> gd_id g \<and> gd_id g < k + int (length ts)"
proof -
  have "gd_id g \<in> set (map gd_id (guidance_rows now c a r rid k ts))" using assms by simp
  then show ?thesis unfolding guidance_rows_ids by auto
qed

lemma pd_guidance_replace:
  assumes "match_guidance (active_guidance d (cy_id c)) desired = (dropped, rest)"
  shows "pd_guidance (replace_active_guidance now d c desired a r rid)
      = map (\<lambda>g. if gd_id g \<in> set dropped then g\<lparr>gd_is_active := False\<rparr> else g) (pd_guidance d)
        @ guidance_rows now c a r rid (pd_next_guidance d) rest"
    and "pd_next_guidance (replace_active_guidance now d c desired a r rid) = pd_next_guidance d + int (length rest)"
  by (simp_all add: replace_active_guidance_def assms)

lemma replaced_texts:
  assumes "guidance_ok d"
  shows "mset (map gd_guidance (active_guidance (replace_active_guidance now d c desired a r rid) (cy_id c))) = mset desired"
proof -
  obtain dropped rest where m: "match_guidance (active_guidance d (cy_id c)) desired = (dropped, rest)" by fastforce
  let ?P = "\<lambda>g. gd_cycle_id g = cy_id c \<and> gd_is_active g" and ?off = "\<lambda>g. if gd_id g \<in> set dropped then g\<lparr>gd_is_active := False\<rparr> else g"
  let ?new = "guidance_rows now c a r rid (pd_next_guidance d) rest"
  have kept: "filter ?P (map ?off gs) = filter (\<lambda>g. gd_id g \<notin> set dropped) (filter ?P gs)" for gs
    by (induction gs) auto
  have "mset (map gd_guidance (active_guidance (replace_active_guidance now d c desired a r rid) (cy_id c)))
    = image_mset gd_guidance (mset (filter ?P (map ?off (pd_guidance d) @ ?new)))"
    unfolding pd_guidance_replace(1) [OF m, symmetric, where now = now and a = a and r = r and rid = rid]
    by (simp add: active_guidance_def [of "replace_active_guidance now d c desired a r rid"] del: mset_filter)
  also have "\<dots> = image_mset gd_guidance (mset (filter (\<lambda>g. gd_id g \<notin> set dropped) (filter ?P (pd_guidance d)))) + image_mset gd_guidance (mset (filter ?P ?new))"
    by (simp only: filter_append kept mset_append image_mset_union)
  also have "filter ?P ?new = ?new" using guidance_rows_cycle by (intro filter_True) blast
  also have "image_mset gd_guidance (mset ?new) = mset rest" by (simp only: mset_map [symmetric] guidance_rows_texts)
  also have "image_mset gd_guidance (mset (filter (\<lambda>g. gd_id g \<notin> set dropped) (filter ?P (pd_guidance d))))
    = mset (map gd_guidance (filter (\<lambda>g. gd_id g \<notin> set dropped) (active_guidance d (cy_id c))))"
    by (simp add: active_guidance_def filter_filter_mset conj_commute)
  finally show ?thesis
    using match_guidance_texts [OF m distinct_active_guidance] assms by (simp add: guidance_ok_def)
qed

lemma other_guidance:
  assumes "guidance_ok d" and "j \<noteq> cy_id c"
  shows "active_guidance (replace_active_guidance now d c desired a r rid) j = active_guidance d j"
proof -
  obtain dropped rest where m: "match_guidance (active_guidance d (cy_id c)) desired = (dropped, rest)" by fastforce
  let ?P = "\<lambda>g. gd_cycle_id g = j \<and> gd_is_active g" and ?off = "\<lambda>g. if gd_id g \<in> set dropped then g\<lparr>gd_is_active := False\<rparr> else g"
  have dist: "distinct (map gd_id (pd_guidance d))" using assms(1) by (simp add: guidance_ok_def)
  have sub: "set dropped \<subseteq> gd_id ` set (active_guidance d (cy_id c))" using match_guidance_texts [OF m distinct_active_guidance [OF dist]] by simp
  have safe: "gd_id g \<notin> set dropped" if "g \<in> set (pd_guidance d)" "gd_cycle_id g = j" for g
  proof
    assume "gd_id g \<in> set dropped"
    then obtain h where "h \<in> set (active_guidance d (cy_id c))" "gd_id h = gd_id g"
      using sub by auto
    moreover from this have "h = g"
      using dist that(1) by (auto simp: set_active_guidance distinct_map dest: inj_onD)
    ultimately show False using that(2) assms(2) by (auto simp: set_active_guidance)
  qed
  have "filter ?P (map ?off gs) = filter ?P gs" if "set gs \<subseteq> set (pd_guidance d)" for gs
    using that by (induction gs) (auto simp: safe)
  moreover have "filter ?P (guidance_rows now c a r rid (pd_next_guidance d) rest) = []"
    using guidance_rows_cycle assms(2) by (intro filter_False) metis
  ultimately show ?thesis
    unfolding active_guidance_def [of _ j] pd_guidance_replace(1) [OF m] by simp
qed

lemma guidance_ok_replace: "guidance_ok d \<Longrightarrow> guidance_ok (replace_active_guidance now d c desired a r rid)"
proof -
  assume ok: "guidance_ok d"
  obtain dropped rest where m: "match_guidance (active_guidance d (cy_id c)) desired = (dropped, rest)" by fastforce
  let ?off = "\<lambda>g. if gd_id g \<in> set dropped then g\<lparr>gd_is_active := False\<rparr> else g"
  let ?new = "guidance_rows now c a r rid (pd_next_guidance d) rest"
  have ids: "map gd_id (map ?off (pd_guidance d)) = map gd_id (pd_guidance d)" by simp
  have new: "distinct (map gd_id ?new)" unfolding guidance_rows_ids by (simp add: distinct_map inj_on_def)
  have old: "gd_id g < pd_next_guidance d" if "g \<in> set (pd_guidance d)" for g
    using ok that by (simp add: guidance_ok_def list_all_iff)
  have "distinct (map gd_id (map ?off (pd_guidance d) @ ?new))"
    unfolding map_append ids distinct_append
  proof (intro conjI)
    show "distinct (map gd_id (pd_guidance d))" using ok by (simp add: guidance_ok_def)
    show "set (map gd_id (pd_guidance d)) \<inter> set (map gd_id ?new) = {}"
      using old guidance_rows_range by (fastforce dest: leD)
  qed (rule new)
  moreover have "list_all (\<lambda>g. gd_id g < pd_next_guidance d + int (length rest)) (map ?off (pd_guidance d) @ ?new)"
    using old guidance_rows_range by (fastforce simp: list_all_iff)
  ultimately show ?thesis unfolding guidance_ok_def pd_guidance_replace [OF m] by simp
qed

section \<open>What an accepted change writes\<close>

lemma show_int_eq [simp]: "show_int i = show_int j \<longleftrightarrow> i = j"
  by (metis option.inject py_int_of_str_show_int)

text \<open>The row that \<open>apply_to\<close> leaves, and what the policy reads of it.\<close>

definition carries :: "policy_snapshot \<Rightarrow> policy_cycle \<Rightarrow> bool" where
  "carries s c = (cy_name c = ps_name s \<and> cy_prompt c = ps_prompt s \<and> cy_schedule_expr c = ps_schedule_expr s
     \<and> cy_timezone c = ps_timezone s \<and> cy_enabled c = ps_enabled s \<and> cy_max_concurrency c = ps_max_concurrency s
     \<and> cy_timeout_seconds c = ps_timeout_seconds s \<and> cy_retry_policy c = PyDict (ps_retry_policy s)
     \<and> cy_model_override c = ps_model_override s \<and> cy_thinking_override c = ps_thinking_override s
     \<and> cy_execution_policy_key c = ps_execution_policy_key s \<and> cy_executor_binding c = ps_executor_binding s
     \<and> cy_skill_ids c = PyList (map PyInt (ps_skill_ids s)) \<and> cy_target_idea_id c = ps_target_idea_id s)"

definition same_owner :: "policy_cycle \<Rightarrow> policy_cycle \<Rightarrow> bool" where
  "same_owner c c' = (cy_id c' = cy_id c \<and> cy_user_id c' = cy_user_id c \<and> cy_org_id c' = cy_org_id c
     \<and> cy_deleted_at c' = cy_deleted_at c)"

lemma apply_to_carries: "apply_to env now s c = Inr c' \<Longrightarrow> carries s c' \<and> same_owner c c'"
  by (auto simp: apply_to_def rbind_Inr_iff carries_def same_owner_def)

lemma carries_reads:
  assumes ok: "settled_snapshot env s" and "carries s c"
    and g: "distinct (map gd_guidance rows)" "set (map gd_guidance rows) = set (ps_guidance s)"
  shows "from_cycle env c rows = Inr s"
proof -
  have "ps_max_concurrency s \<noteq> 0" "max (ps_max_concurrency s) 1 = ps_max_concurrency s"
    using ok by (auto simp: settled_snapshot_def)
  then have "from_cycle env c rows = validated env (fields_with s (map gd_guidance rows))"
    using assms(2) ok by (simp add: from_cycle_def carries_def settled_snapshot_def fields_with_def dict_or_error_def o_def)
  then show ?thesis using validated_fields_with [OF ok g] by simp
qed

lemma write_change_result:
  assumes "write_change env now d a c pv rationale src rf = Inr (res, d')"
  obtains c' ch rev where "res = Applied \<lparr>ep_workspace_id = ep_workspace_id (pv_before pv), ep_target_id = show_int (cy_id c),
       ep_version = ep_version (pv_before pv) + 1, ep_revision_id = Some (vr_id rev), ep_snapshot = pv_after_snapshot pv\<rparr> ch rev"
    and "carries (pv_after_snapshot pv) c'" and "same_owner c c'"
    and "pd_cycles d' = map (\<lambda>r. if cy_id r = cy_id c then c' else r) (pd_cycles d)"
    and "pd_revisions d' = pd_revisions d @ [rev]" and "vr_cycle_id rev = cy_id c"
    and "vr_number rev = next_revision_number d (cy_id c)"
    and "\<And>i. active_guidance d' i = active_guidance (replace_active_guidance now d c' (ps_guidance (pv_after_snapshot pv)) a rationale (vr_id rev)) i"
    and "guidance_ok d' = guidance_ok (replace_active_guidance now d c' (ps_guidance (pv_after_snapshot pv)) a rationale (vr_id rev))"
    and "pd_audits d' = pd_audits d @ [ch_row ch]" and "pd_next_audit d' = pd_next_audit d + 1"
    and "ad_id (ch_row ch) = pd_next_audit d" and "ad_target_id (ch_row ch) = show_int (cy_id c)"
    and "ad_version (ch_row ch) = ep_version (pv_before pv) + 1"
    and "ad_before_snapshot (ch_row ch) = encode (ep_snapshot (pv_before pv))"
    and "policy_record env (ch_row ch) (pv_after_snapshot pv) = Inr ch"
    and "pd_users d' = pd_users d" and "pd_ideas d' = pd_ideas d"
    and "ad_after_snapshot (ch_row ch) = encode (pv_after_snapshot pv)"
proof -
  let ?new = "pv_after_snapshot pv"
  obtain applied where applied: "apply_to env now ?new c = Inr applied"
    using assms by (auto simp: write_change_def Let_def rbind_Inr_iff)
  define c' where "c' = applied\<lparr>cy_maintainer_type := actor_source_type a, cy_maintainer_id := Some (revision_source_id a)\<rparr>"
  have c': "carries ?new c'" "same_owner c c'"
    using apply_to_carries [OF applied] by (simp_all add: c'_def carries_def same_owner_def)
  then have ids: "cy_id c' = cy_id c" "cy_id applied = cy_id c" by (simp_all add: same_owner_def c'_def)
  define d1 where "d1 = update_cycle_row c' d"
  define rev where "rev = new_revision d1 c' (actor_source_type a) (Some (revision_source_id a)) (Some rationale)"
  define d2 where "d2 = d1\<lparr>pd_revisions := pd_revisions d1 @ [rev], pd_next_revision := pd_next_revision d1 + 1\<rparr>"
  define d3 where "d3 = replace_active_guidance now d2 c' (ps_guidance ?new) a rationale (vr_id rev)"
  define change where "change = \<lparr>ad_id = pd_next_audit d3, ad_workspace_id = ep_workspace_id (pv_before pv), ad_target_id = show_int (cy_id c),
             ad_version = ep_version (pv_before pv) + 1, ad_actor_type = actor_source_type a, ad_actor_id = revision_source_id a,
             ad_source_reference = src, ad_rationale = rationale,
             ad_before_snapshot = encode (ep_snapshot (pv_before pv)), ad_after_snapshot = encode ?new,
             ad_changed_fields = pv_changed_fields pv, ad_cycle_revision_id = vr_id rev,
             ad_reverted_from_id = rf, ad_applied_at = now\<rparr>"
  have "\<exists>ch. policy_record env change ?new = Inr ch
    \<and> res = Applied \<lparr>ep_workspace_id = ep_workspace_id (pv_before pv), ep_target_id = show_int (cy_id c),
       ep_version = ep_version (pv_before pv) + 1, ep_revision_id = Some (vr_id rev), ep_snapshot = ?new\<rparr> ch rev
    \<and> d' = d3\<lparr>pd_audits := pd_audits d3 @ [change], pd_next_audit := pd_next_audit d3 + 1\<rparr>"
    using assms
    by (auto simp: write_change_def Let_def rbind_Inr_iff applied ids record_cycle_revision_def
        c'_def [symmetric] d1_def [symmetric] rev_def [symmetric] d2_def [symmetric] d3_def [symmetric] change_def [symmetric])
  then obtain ch where ch: "policy_record env change ?new = Inr ch"
    and res: "res = Applied \<lparr>ep_workspace_id = ep_workspace_id (pv_before pv), ep_target_id = show_int (cy_id c),
       ep_version = ep_version (pv_before pv) + 1, ep_revision_id = Some (vr_id rev), ep_snapshot = ?new\<rparr> ch rev"
    and d': "d' = d3\<lparr>pd_audits := pd_audits d3 @ [change], pd_next_audit := pd_next_audit d3 + 1\<rparr>" by blast
  have row: "ch_row ch = change" using ch by (auto simp: policy_record_def rbind_Inr_iff)
  have frame: "pd_cycles d3 = pd_cycles d2" "pd_revisions d3 = pd_revisions d2" "pd_audits d3 = pd_audits d2" "pd_next_audit d3 = pd_next_audit d2"
    "pd_users d3 = pd_users d2" "pd_ideas d3 = pd_ideas d2"
    by (simp_all add: d3_def replace_active_guidance_def split: prod.split)
  have act: "active_guidance d2 i = active_guidance d i" for i by (simp add: active_guidance_def d2_def d1_def update_cycle_row_def)
  have "pd_guidance d3 = pd_guidance (replace_active_guidance now d c' (ps_guidance ?new) a rationale (vr_id rev))
    \<and> pd_next_guidance d3 = pd_next_guidance (replace_active_guidance now d c' (ps_guidance ?new) a rationale (vr_id rev))"
    by (simp add: d3_def replace_active_guidance_def act split: prod.split) (simp add: d2_def d1_def update_cycle_row_def)
  then have guidance: "pd_guidance d' = pd_guidance (replace_active_guidance now d c' (ps_guidance ?new) a rationale (vr_id rev))"
    "pd_next_guidance d' = pd_next_guidance (replace_active_guidance now d c' (ps_guidance ?new) a rationale (vr_id rev))"
    by (simp_all add: d')
  show ?thesis
  proof (rule that [of rev ch c'])
    show "active_guidance d' i = active_guidance (replace_active_guidance now d c' (ps_guidance ?new) a rationale (vr_id rev)) i" for i
      by (simp add: active_guidance_def guidance)
    show "guidance_ok d' = guidance_ok (replace_active_guidance now d c' (ps_guidance ?new) a rationale (vr_id rev))"
      by (simp add: guidance_ok_def guidance)
  qed (use c' ch ids in \<open>simp_all add: res row d' frame change_def d2_def d1_def update_cycle_row_def rev_def new_revision_def
      next_revision_number_def revisions_of_def\<close>)
qed

section \<open>The tables over time\<close>

definition policy_inv :: "policy_db \<Rightarrow> bool" where
  "policy_inv d = (distinct (map cy_id (pd_cycles d)) \<and> guidance_ok d \<and> distinct (map ad_id (pd_audits d))
     \<and> list_all (\<lambda>r. ad_id r < pd_next_audit d) (pd_audits d)
     \<and> (\<forall>i. map ad_version (audits_of d i) = [1..int (length (audits_of d i))]))"

lemma latest_version_length: "policy_inv d \<Longrightarrow> latest_version d i = int (length (audits_of d i))"
proof -
  assume "policy_inv d"
  then have v: "map ad_version (audits_of d i) = [1..int (length (audits_of d i))]" by (simp add: policy_inv_def)
  show ?thesis
  proof (cases "audits_of d i")
    case (Cons r rs)
    then have "set (map ad_version (audits_of d i)) = {1..int (length (audits_of d i))}" using v by simp
    moreover have "Max {1..k} = k" if "1 \<le> k" for k :: int using that by (intro Max_eqI) auto
    ultimately have "Max (set (map ad_version (audits_of d i))) = int (length (audits_of d i))" using Cons by simp
    then show ?thesis using Cons by (simp add: latest_version_def)
  qed (simp add: latest_version_def)
qed

lemma applied_inversion:
  assumes "apply_policy_change env now a i p v dg ra src rf d = (Inr (Applied eff ch vr), d')"
  obtains c cur pv n ra' src' where "load_scoped_cycle d a i = Inr c" and "effective env d c = Inr cur" and "v = PyInt n"
    and "ep_version cur = n" and "preview_for_cycle env d a c cur p rf = Inr pv" and "pv_changed_fields pv \<noteq> []"
    and "write_change env now d a c pv ra' src' rf = Inr (Applied eff ch vr, d')"
  using assms
  by (auto simp: apply_policy_change_def apply_in_savepoint_def rbind_Inr_iff split: sum.splits if_splits pyval.splits)

lemma preview_parts:
  assumes "preview_for_cycle env d a c cur p rf = Inr pv"
  shows "pv_before pv = cur" and "proposed_snapshot env d c (ep_snapshot cur) p = Inr (pv_after_snapshot pv)"
  using assms by (auto simp: preview_for_cycle_def rbind_Inr_iff Let_def)

lemma loaded: "load_scoped_cycle d a i = Inr c \<Longrightarrow> c \<in> set (pd_cycles d) \<and> cy_id c = i \<and> cycle_in_scope d a c"
  by (auto simp: load_scoped_cycle_def find_Some_iff split: option.splits)

lemma effective_parts:
  assumes "effective env d c = Inr cur"
  shows "ep_version cur = latest_version d (cy_id c)" and "ep_target_id cur = show_int (cy_id c)"
    and "ep_workspace_id cur = workspace_id c" and "ep_revision_id cur = latest_revision_id d (cy_id c)"
    and "from_cycle env c (active_guidance d (cy_id c)) = Inr (ep_snapshot cur)"
  using assms by (auto simp: effective_def rbind_Inr_iff)

lemma effective_ok: "schedules_fixed env \<Longrightarrow> effective env d c = Inr cur \<Longrightarrow> settled_snapshot env (ep_snapshot cur)"
  by (auto dest!: effective_parts(5) simp: from_cycle_def rbind_Inr_iff dest: validated_ok)

lemma proposed_ok: "schedules_fixed env \<Longrightarrow> proposed_snapshot env d c cur p = Inr new \<Longrightarrow> settled_snapshot env new"
  by (auto simp: proposed_snapshot_def project_patch_def decode_def Let_def rbind_Inr_iff dest: validated_ok
      split: proposal.splits if_splits option.splits pyval.splits)

inductive review_step :: "policy_env \<Rightarrow> policy_db \<Rightarrow> policy_db \<Rightarrow> bool" for env where
  change: "review_step env d (snd (apply_policy_change env now a i p v digest rationale source rf d))"
| revert: "review_step env d (snd (apply_policy_revert env now a i change_id v digest rationale source d))"
| outside: "pd_audits d' = pd_audits d \<Longrightarrow> pd_next_audit d' = pd_next_audit d \<Longrightarrow> distinct (map cy_id (pd_cycles d'))
    \<Longrightarrow> guidance_ok d' \<Longrightarrow> review_step env d d'"

definition policy_evolves :: "policy_db \<Rightarrow> policy_db \<Rightarrow> bool" where
  "policy_evolves d d' = (\<exists>new. pd_audits d' = pd_audits d @ new)"

lemma apply_cases:
  "snd (apply_policy_change env now a i p v dg ra src rf d) = d
   \<or> (\<exists>eff ch vr. fst (apply_policy_change env now a i p v dg ra src rf d) = Inr (Applied eff ch vr))"
proof (cases "apply_policy_change env now a i p v dg ra src rf d")
  case (Pair res d')
  have "d' = d \<or> (\<exists>eff ch vr. res = Inr (Applied eff ch vr))"
    using Pair
    by (auto simp: apply_policy_change_def apply_in_savepoint_def rbind_Inr_iff split: sum.splits if_splits pyval.splits
        elim!: write_change_result)
  then show ?thesis using Pair by simp
qed

lemma audits_of_snoc: "pd_audits d' = pd_audits d @ [r] \<Longrightarrow> ad_target_id r = show_int i \<Longrightarrow>
  audits_of d' j = (if j = i then audits_of d i @ [r] else audits_of d j)"
  by (simp add: audits_of_def)

lemma find_map_same:
  "(\<And>x. x \<in> set xs \<Longrightarrow> P (f x) = P x) \<Longrightarrow> find P (map f xs) = map_option f (find P xs)"
  by (induction xs) auto

lemma apply_keeps:
  assumes inv: "policy_inv d"
  shows "policy_inv (snd (apply_policy_change env now a i p v dg ra src rf d))
    \<and> policy_evolves d (snd (apply_policy_change env now a i p v dg ra src rf d))"
proof (cases "snd (apply_policy_change env now a i p v dg ra src rf d) = d")
  case True
  then show ?thesis using inv by (simp add: policy_evolves_def)
next
  case False
  then obtain eff ch vr d' where run: "apply_policy_change env now a i p v dg ra src rf d = (Inr (Applied eff ch vr), d')"
    using apply_cases [of env now a i p v dg ra src rf d] by (metis prod.collapse)
  obtain c cur pv n ra' src' where c: "load_scoped_cycle d a i = Inr c" "effective env d c = Inr cur"
    and pv: "preview_for_cycle env d a c cur p rf = Inr pv"
    and w: "write_change env now d a c pv ra' src' rf = Inr (Applied eff ch vr, d')"
    by (rule applied_inversion [OF run])
  have cid: "cy_id c = i" using loaded [OF c(1)] by simp
  have version: "ep_version cur = int (length (audits_of d i))"
    using effective_parts(1) [OF c(2)] latest_version_length [OF inv] cid by simp
  from w show ?thesis
  proof (rule write_change_result)
    fix c' ch' vr'
    assume facts: "same_owner c c'" "pd_cycles d' = map (\<lambda>r. if cy_id r = cy_id c then c' else r) (pd_cycles d)"
      "guidance_ok d' = guidance_ok (replace_active_guidance now d c' (ps_guidance (pv_after_snapshot pv)) a ra' (vr_id vr'))"
      "pd_audits d' = pd_audits d @ [ch_row ch']" "pd_next_audit d' = pd_next_audit d + 1" "ad_id (ch_row ch') = pd_next_audit d"
      "ad_target_id (ch_row ch') = show_int (cy_id c)" "ad_version (ch_row ch') = ep_version (pv_before pv) + 1"
    have "map cy_id (pd_cycles d') = map cy_id (pd_cycles d)" using facts(1,2) by (auto simp: same_owner_def)
    moreover have "guidance_ok d'" using facts(3) inv guidance_ok_replace by (simp add: policy_inv_def)
    moreover have "distinct (map ad_id (pd_audits d'))" "list_all (\<lambda>r. ad_id r < pd_next_audit d') (pd_audits d')"
      using inv facts(4-6) by (auto simp: policy_inv_def list_all_iff)
    moreover have "map ad_version (audits_of d' j) = [1..int (length (audits_of d' j))]" for j
    proof -
      have old: "map ad_version (audits_of d j) = [1..int (length (audits_of d j))]" using inv by (simp add: policy_inv_def)
      have "[1..int (length (audits_of d i)) + 1] = [1..int (length (audits_of d i))] @ [int (length (audits_of d i)) + 1]"
        by (simp add: upto_rec2)
      then show ?thesis
        using old facts(7,8) version preview_parts(1) [OF pv] cid unfolding audits_of_snoc [OF facts(4,7)]
        by (cases "j = i") (simp_all add: add.commute)
    qed
    ultimately show ?thesis using inv run facts(4) by (simp add: policy_inv_def policy_evolves_def)
  qed
qed

lemma review_step_keeps: "review_step env d d' \<Longrightarrow> policy_inv d \<Longrightarrow> policy_inv d' \<and> policy_evolves d d'"
proof (induction rule: review_step.induct)
  case (outside d' d)
  then show ?case by (simp add: policy_inv_def policy_evolves_def audits_of_def)
qed (simp_all add: apply_keeps apply_policy_revert_def)

interpretation policies: ledger policy_inv policy_evolves "review_step env" for env
  by unfold_locales (auto simp: policy_evolves_def dest: review_step_keeps)

section \<open>Reading a change back\<close>

lemma latest_version_snoc:
  assumes "pd_audits d' = pd_audits d @ [r]" and "ad_target_id r = show_int i" and "ad_version r = latest_version d i + 1"
  shows "latest_version d' i = latest_version d i + 1"
proof -
  have all: "x \<le> latest_version d i" if "x \<in> ad_version ` set (audits_of d i)" for x
    using that by (cases "audits_of d i") (auto simp: latest_version_def)
  have "latest_version d' i = Max (insert (ad_version r) (ad_version ` set (audits_of d i)))"
    using audits_of_snoc [OF assms(1,2), of i]
    by (cases "audits_of d i") (auto simp: latest_version_def insert_commute)
  also have "\<dots> = ad_version r" using all assms(3) by (intro Max_eqI) fastforce+
  finally show ?thesis using assms(3) by simp
qed

lemma latest_revision_snoc:
  assumes "pd_revisions d' = pd_revisions d @ [r]" and "vr_cycle_id r = i" and "vr_number r = next_revision_number d i"
  shows "latest_revision_id d' i = Some (vr_id r)"
proof -
  let ?rs = "revisions_of d i"
  define ys where "ys = sort_key vr_number (sort_key vr_id (revisions_of d' i))"
  have rs: "revisions_of d' i = ?rs @ [r]" using assms(1,2) by (simp add: revisions_of_def)
  have less: "vr_number x < vr_number r" if "x \<in> set ?rs" for x
  proof -
    have "vr_number x \<le> Max (set (map vr_number ?rs))" using that by simp
    then show ?thesis using that assms(3) by (cases ?rs) (auto simp: next_revision_number_def)
  qed
  have set: "set ys = insert r (set ?rs)" by (simp add: rs ys_def)
  then have ne: "ys \<noteq> []" by auto
  have "r \<in> set ys" by (simp add: set)
  then obtain k where k: "k < length ys" "ys ! k = r" by (auto simp: in_set_conv_nth)
  have "map vr_number ys ! k \<le> map vr_number ys ! (length ys - 1)"
    using k(1) by (intro sorted_nth_mono) (simp_all add: ys_def)
  then have "vr_number r \<le> vr_number (last ys)" using k ne by (simp add: last_conv_nth)
  moreover have "last ys \<in> insert r (set ?rs)" using ne set last_in_set by blast
  ultimately have "last ys = r" using less by fastforce
  then obtain zs where "ys = zs @ [r]" using ne by (metis append_butlast_last_id)
  then show ?thesis by (simp add: latest_revision_id_def ys_def [symmetric])
qed

lemma load_after:
  assumes "policy_inv d" and "load_scoped_cycle d a i = Inr c" and "same_owner c c'" and "pd_users d' = pd_users d"
    and "pd_cycles d' = map (\<lambda>r. if cy_id r = cy_id c then c' else r) (pd_cycles d)"
  shows "load_scoped_cycle d' a i = Inr c'"
proof -
  note l = loaded [OF assms(2)]
  have only: "r = c" if "r \<in> set (pd_cycles d)" "cy_id r = cy_id c" for r
    using that assms(1) l by (auto simp: policy_inv_def distinct_map dest: inj_onD)
  have scope: "cycle_in_scope d' a r = cycle_in_scope d a r" for r
    using assms(4) by (simp add: cycle_in_scope_def owned_by_def org_member_def)
  have scope_c: "cycle_in_scope d a c' = cycle_in_scope d a c" using assms(3) by (simp add: cycle_in_scope_def same_owner_def)
  have id_c: "cy_id c' = cy_id c" using assms(3) by (simp add: same_owner_def)
  have "find (\<lambda>r. cy_id r = i \<and> cycle_in_scope d a r) (pd_cycles d')
    = map_option (\<lambda>r. if cy_id r = cy_id c then c' else r) (find (\<lambda>r. cy_id r = i \<and> cycle_in_scope d a r) (pd_cycles d))"
    unfolding assms(5) by (rule find_map_same) (use only scope_c id_c in auto)
  then show ?thesis using assms(2) l by (auto simp: load_scoped_cycle_def scope split: option.splits)
qed

lemma same_texts:
  assumes "mset xs = mset ys" and "distinct ys"
  shows "distinct xs" and "set xs = set ys"
  using assms mset_eq_imp_distinct_iff [OF assms(1)] mset_eq_setD [OF assms(1)] by simp_all

lemma written_effective:
  assumes inv: "policy_inv d" and env: "schedules_fixed env" and c: "load_scoped_cycle d a i = Inr c" "effective env d c = Inr cur"
    and new: "settled_snapshot env (pv_after_snapshot pv)" and before: "pv_before pv = cur"
    and w: "write_change env now d a c pv ra src rf = Inr (Applied eff ch vr, d')"
  obtains c' where "load_scoped_cycle d' a i = Inr c'" and "effective env d' c' = Inr eff"
    and "ep_snapshot eff = pv_after_snapshot pv" and "ep_version eff = ep_version cur + 1"
    and "pd_audits d' = pd_audits d @ [ch_row ch]" and "ad_version (ch_row ch) = ep_version eff"
    and "ch_before ch = ep_snapshot cur" and "ch_after ch = ep_snapshot eff"
    and "ad_before_snapshot (ch_row ch) = encode (ep_snapshot cur)" and "ad_target_id (ch_row ch) = show_int i"
    and "ad_id (ch_row ch) = pd_next_audit d" and "pd_users d' = pd_users d" and "pd_ideas d' = pd_ideas d"
    and "\<And>o'. o' \<in> set (pd_cycles d) \<Longrightarrow> cy_id o' \<noteq> i \<Longrightarrow> o' \<in> set (pd_cycles d') \<and> effective env d' o' = effective env d o'"
  using w
proof (rule write_change_result)
  fix c' ch' vr'
  let ?new = "pv_after_snapshot pv"
  assume res: "Applied eff ch vr = Applied \<lparr>ep_workspace_id = ep_workspace_id (pv_before pv), ep_target_id = show_int (cy_id c),
       ep_version = ep_version (pv_before pv) + 1, ep_revision_id = Some (vr_id vr'), ep_snapshot = ?new\<rparr> ch' vr'"
    and c': "carries ?new c'" "same_owner c c'"
    and cycles: "pd_cycles d' = map (\<lambda>r. if cy_id r = cy_id c then c' else r) (pd_cycles d)"
    and revisions: "pd_revisions d' = pd_revisions d @ [vr']" "vr_cycle_id vr' = cy_id c" "vr_number vr' = next_revision_number d (cy_id c)"
    and act: "\<And>i. active_guidance d' i = active_guidance (replace_active_guidance now d c' (ps_guidance ?new) a ra (vr_id vr')) i"
    and audits: "pd_audits d' = pd_audits d @ [ch_row ch']" "ad_id (ch_row ch') = pd_next_audit d"
      "ad_target_id (ch_row ch') = show_int (cy_id c)" "ad_version (ch_row ch') = ep_version (pv_before pv) + 1"
      "ad_before_snapshot (ch_row ch') = encode (ep_snapshot (pv_before pv))"
    and rec: "policy_record env (ch_row ch') ?new = Inr ch'"
    and tables: "pd_users d' = pd_users d" "pd_ideas d' = pd_ideas d"
    and later: "ad_after_snapshot (ch_row ch') = encode ?new"
  have eqs: "ch' = ch" "vr' = vr" using res by simp_all
  have cid: "cy_id c = i" "cy_id c' = i" using loaded [OF c(1)] c'(2) by (simp_all add: same_owner_def)
  have cur: "ep_version cur = latest_version d i" "ep_workspace_id cur = workspace_id c'"
    using effective_parts [OF c(2)] cid c'(2) by (simp_all add: workspace_id_def same_owner_def)
  have g: "guidance_ok d" using inv by (simp add: policy_inv_def)
  have "mset (map gd_guidance (active_guidance d' (cy_id c'))) = mset (ps_guidance ?new)"
    unfolding act using replaced_texts [OF g] by blast
  from same_texts [OF this] new have texts: "distinct (map gd_guidance (active_guidance d' (cy_id c')))"
    "set (map gd_guidance (active_guidance d' (cy_id c'))) = set (ps_guidance ?new)" by (simp_all add: settled_snapshot_def)
  have read: "from_cycle env c' (active_guidance d' (cy_id c')) = Inr ?new" by (rule carries_reads [OF new c'(1) texts])
  have version: "latest_version d' i = latest_version d i + 1"
    by (rule latest_version_snoc [OF audits(1)]) (use audits(3,4) before cur(1) cid in simp_all)
  have revision: "latest_revision_id d' i = Some (vr_id vr')"
    by (rule latest_revision_snoc [OF revisions(1)]) (use revisions(2,3) cid in simp_all)
  show thesis
  proof (rule that [of c'])
    show "load_scoped_cycle d' a i = Inr c'" by (rule load_after [OF inv c(1) c'(2) tables(1) cycles])
    show "effective env d' c' = Inr eff"
      using read version revision res before cur cid by (simp add: effective_def)
    have "policy_record env (ch_row ch') ?new = Inr \<lparr>ch_row = ch_row ch', ch_before = ep_snapshot cur, ch_after = ?new\<rparr>"
      using later audits(5) before decode_encode [OF effective_ok [OF env c(2)] new] decode_encode [OF new new]
      by (simp add: policy_record_def)
    then have "ch' = \<lparr>ch_row = ch_row ch', ch_before = ep_snapshot cur, ch_after = ?new\<rparr>" using rec by (metis sum.inject(2))
    then have "ch_before ch' = ep_snapshot cur" "ch_after ch' = ?new" by (metis change_record.select_convs)+
    then show "ch_before ch = ep_snapshot cur" "ch_after ch = ep_snapshot eff" using eqs res by simp_all
    fix o' assume o': "o' \<in> set (pd_cycles d)" "cy_id o' \<noteq> i"
    have "active_guidance d' (cy_id o') = active_guidance d (cy_id o')"
      unfolding act using other_guidance [OF g] o'(2) cid by simp
    moreover have "audits_of d' (cy_id o') = audits_of d (cy_id o')"
      using audits_of_snoc [OF audits(1), of i "cy_id o'"] audits(3) cid o'(2) by simp
    moreover have "revisions_of d' (cy_id o') = revisions_of d (cy_id o')"
      using revisions(1,2) cid o'(2) by (simp add: revisions_of_def)
    ultimately show "o' \<in> set (pd_cycles d') \<and> effective env d' o' = effective env d o'"
      using o' cid by (auto simp: cycles effective_def latest_version_def latest_revision_id_def)
  qed (use res eqs audits tables before cid in simp_all)
qed

section \<open>Reviewed changes\<close>

lemma find_append_None: "find P xs = None \<Longrightarrow> find P (xs @ ys) = find P ys"
  by (induction xs) (auto split: if_splits)

text \<open>
  C11: what the command reports is what is in force. When a reviewed change or revert is applied, the Cycle read
  afterwards has exactly the effective policy the call returned: the snapshot of the preview, one version
  on, with the guidance of the snapshot active; the audit row appended holds the policy before and after; and the
  effective policy of every other Cycle is what it was. (One-time schedules must read back as printed.)
\<close>

theorem policy_change_reads_back:
  assumes "policy_inv d" and "schedules_fixed env"
    and "apply_policy_change env now a i p v digest rationale source rf d = (Inr (Applied eff ch vr), d')"
  shows "\<exists>c cur pv c'. load_scoped_cycle d a i = Inr c \<and> effective env d c = Inr cur
    \<and> preview_for_cycle env d a c cur p rf = Inr pv \<and> ep_snapshot eff = pv_after_snapshot pv
    \<and> load_scoped_cycle d' a i = Inr c' \<and> effective env d' c' = Inr eff \<and> ep_version eff = ep_version cur + 1
    \<and> pd_audits d' = pd_audits d @ [ch_row ch] \<and> ch_before ch = ep_snapshot cur \<and> ch_after ch = ep_snapshot eff
    \<and> (\<forall>o' \<in> set (pd_cycles d). cy_id o' \<noteq> i \<longrightarrow> o' \<in> set (pd_cycles d') \<and> effective env d' o' = effective env d o')"
proof -
  obtain c cur pv n ra' src' where c: "load_scoped_cycle d a i = Inr c" "effective env d c = Inr cur"
    and pv: "preview_for_cycle env d a c cur p rf = Inr pv"
    and w: "write_change env now d a c pv ra' src' rf = Inr (Applied eff ch vr, d')"
    by (rule applied_inversion [OF assms(3)])
  have new: "settled_snapshot env (pv_after_snapshot pv)" by (rule proposed_ok [OF assms(2) preview_parts(2) [OF pv]])
  show ?thesis
    by (rule written_effective [OF assms(1,2) c new preview_parts(1) [OF pv] w]) (use c pv in blast)
qed

text \<open>
  C12: a revert gives back the policy before the change. After a change was applied, previewing its revert
  proposes exactly the snapshot that was effective before it, unless the preview is refused; and when
  that revert is applied, this snapshot is the effective policy of the Cycle again.
\<close>

theorem policy_revert_restores:
  assumes "policy_inv d" and "schedules_fixed env"
    and "apply_policy_change env now a i p v digest rationale source rf d = (Inr (Applied eff ch vr), d1)"
    and "load_scoped_cycle d a i = Inr c" and "effective env d c = Inr cur"
  shows "(\<forall>pv. preview_revert env d1 a i (ad_id (ch_row ch)) = Inr pv \<longrightarrow> pv_after_snapshot pv = ep_snapshot cur)
    \<and> (\<forall>now2 v2 digest2 rationale2 source2 eff2 ch2 vr2 d2.
         apply_policy_revert env now2 a i (ad_id (ch_row ch)) v2 digest2 rationale2 source2 d1 = (Inr (Applied eff2 ch2 vr2), d2)
         \<longrightarrow> (\<exists>c2. load_scoped_cycle d2 a i = Inr c2 \<and> effective env d2 c2 = Inr eff2)
           \<and> ep_snapshot eff2 = ep_snapshot cur \<and> ep_version eff2 = ep_version cur + 2)"
proof -
  obtain c0 cur0 pv0 n ra' src' where "load_scoped_cycle d a i = Inr c0" "effective env d c0 = Inr cur0"
    and pv0: "preview_for_cycle env d a c0 cur0 p rf = Inr pv0"
    and w: "write_change env now d a c0 pv0 ra' src' rf = Inr (Applied eff ch vr, d1)"
    by (rule applied_inversion [OF assms(3)])
  then have same: "c0 = c" "cur0 = cur" using assms(4,5) by auto
  have new: "settled_snapshot env (pv_after_snapshot pv0)" by (rule proposed_ok [OF assms(2) preview_parts(2) [OF pv0]])
  have cur: "settled_snapshot env (ep_snapshot cur)" by (rule effective_ok [OF assms(2,5)])
  obtain c1 where c1: "load_scoped_cycle d1 a i = Inr c1" "effective env d1 c1 = Inr eff" "ep_snapshot eff = pv_after_snapshot pv0"
      "ep_version eff = ep_version cur + 1"
    and audit: "pd_audits d1 = pd_audits d @ [ch_row ch]" "ad_before_snapshot (ch_row ch) = encode (ep_snapshot cur)"
      "ad_target_id (ch_row ch) = show_int i" "ad_id (ch_row ch) = pd_next_audit d"
    using written_effective [OF assms(1,2,4,5) new preview_parts(1) [OF pv0, unfolded same] w [unfolded same]] by metis
  have "find (\<lambda>r. ad_id r = pd_next_audit d) (audits_of d i) = None"
    using assms(1) by (auto simp: find_None_iff policy_inv_def list_all_iff audits_of_def)
  then have "load_revert_source d1 c1 (ad_id (ch_row ch)) = Inr (ch_row ch)"
    using audit loaded [OF c1(1)] by (simp add: load_revert_source_def audits_of_def find_append_None)
  then have source: "proposed_snapshot env d1 c1 (ep_snapshot eff) (Revert (ad_id (ch_row ch))) = Inr (ep_snapshot cur)"
    using decode_encode [OF cur, of "ep_snapshot eff"] new c1(3) audit(2) by (simp add: proposed_snapshot_def)
  have proposal: "pv_after_snapshot pv = ep_snapshot cur"
    if "preview_for_cycle env d1 a c1 eff (Revert (ad_id (ch_row ch))) q = Inr pv" for q pv
    using preview_parts(2) [OF that] source by simp
  have inv1: "policy_inv d1" using apply_keeps [OF assms(1), of env now a i p v digest rationale source rf] assms(3) by simp
  have "(\<exists>c2. load_scoped_cycle d2 a i = Inr c2 \<and> effective env d2 c2 = Inr eff2) \<and> ep_snapshot eff2 = ep_snapshot cur
      \<and> ep_version eff2 = ep_version cur + 2"
    if r: "apply_policy_revert env now2 a i (ad_id (ch_row ch)) v2 digest2 rationale2 source2 d1 = (Inr (Applied eff2 ch2 vr2), d2)"
    for now2 v2 digest2 rationale2 source2 eff2 ch2 vr2 d2
  proof -
    obtain c' cur' pv' n' ra2 src2 where c': "load_scoped_cycle d1 a i = Inr c'" "effective env d1 c' = Inr cur'"
      and pv': "preview_for_cycle env d1 a c' cur' (Revert (ad_id (ch_row ch))) (Some (ad_id (ch_row ch))) = Inr pv'"
      and w': "write_change env now2 d1 a c' pv' ra2 src2 (Some (ad_id (ch_row ch))) = Inr (Applied eff2 ch2 vr2, d2)"
      by (rule applied_inversion [OF r [unfolded apply_policy_revert_def]])
    have same': "c' = c1" "cur' = eff" using c' c1(1,2) by auto
    then have after: "pv_after_snapshot pv' = ep_snapshot cur" using proposal pv' by simp
    then have "settled_snapshot env (pv_after_snapshot pv')" using cur by simp
    from written_effective [OF inv1 assms(2) c' this preview_parts(1) [OF pv'] w'] show ?thesis
      using after same' c1(4) by (metis add.assoc one_add_one)
  qed
  moreover have "pv_after_snapshot pv = ep_snapshot cur" if "preview_revert env d1 a i (ad_id (ch_row ch)) = Inr pv" for pv
    using that c1(1,2) proposal by (auto simp: preview_revert_def)
  ultimately show ?thesis by blast
qed

text \<open>
  C13: no review is applied twice or on top of another. Once a change reviewed against some version of a
  Cycle has been applied, then whatever changes, reverts and writes of other components follow, applying any proposal
  reviewed against that version leaves the database as it is, and the answer, where the policy can be read,
  is the conflict \<open>stale_version\<close> with a later version.
\<close>

theorem stale_review_refused:
  assumes "policy_inv d"
    and "apply_policy_change env now a i p v digest rationale source rf d = (Inr (Applied eff ch vr), d1)"
    and "(review_step env)\<^sup>*\<^sup>* d1 b"
  shows "snd (apply_policy_change env now2 a2 i p2 v digest2 rationale2 source2 rf2 b) = b
    \<and> (case fst (apply_policy_change env now2 a2 i p2 v digest2 rationale2 source2 rf2 b) of
         Inl e \<Rightarrow> True
       | Inr (Applied _ _ _) \<Rightarrow> False
       | Inr (Conflict reason latest) \<Rightarrow> reason = ''stale_version'' \<and> ep_version eff \<le> ep_version latest)"
proof -
  obtain c cur pv n ra' src' where c: "load_scoped_cycle d a i = Inr c" "effective env d c = Inr cur"
    and v: "v = PyInt n" "ep_version cur = n"
    and pv: "preview_for_cycle env d a c cur p rf = Inr pv"
    and w: "write_change env now d a c pv ra' src' rf = Inr (Applied eff ch vr, d1)"
    by (rule applied_inversion [OF assms(2)])
  have n: "n = int (length (audits_of d i))"
    using effective_parts(1) [OF c(2)] v(2) latest_version_length [OF assms(1)] loaded [OF c(1)] by simp
  have eff: "ep_version eff = n + 1 \<and> audits_of d1 i = audits_of d i @ [ch_row ch]"
    by (rule write_change_result [OF w])
       (use loaded [OF c(1)] preview_parts(1) [OF pv] v(2) in \<open>auto simp: audits_of_def\<close>)
  have inv1: "policy_inv d1" using apply_keeps [OF assms(1), of env now a i p v digest rationale source rf] assms(2) by simp
  have inv: "policy_inv b" by (rule policies.reachable_inv [OF assms(3) inv1])
  obtain more where "pd_audits b = pd_audits d1 @ more"
    using policies.reachable_evolves [OF assms(3) inv1] by (auto simp: policy_evolves_def)
  then have "length (audits_of d1 i) \<le> length (audits_of b i)" by (simp add: audits_of_def)
  then have late: "n + 1 \<le> latest_version b i" using n eff latest_version_length [OF inv] by simp
  have "ep_version cur2 \<noteq> n \<and> ep_version eff \<le> ep_version cur2"
    if "load_scoped_cycle b a2 i = Inr c2" "effective env b c2 = Inr cur2" for c2 cur2
    using effective_parts(1) [OF that(2)] loaded [OF that(1)] late eff by simp
  then show ?thesis
    by (auto simp: apply_policy_change_def apply_in_savepoint_def rbind_def v(1) split: sum.split)
qed

text \<open>
  C14: the history of every Cycle is complete and immutable: starting without audit rows, whatever changes, reverts
  and writes of other components happen, the versions of each Cycle are 1, 2, 3 and so on without a gap, ids are
  unique, and the rows written earlier stay in front of the later ones unchanged.
\<close>

theorem policy_history_contiguous:
  assumes "policy_inv d" and "pd_audits d = []" and "(review_step env)\<^sup>*\<^sup>* d e" and "(review_step env)\<^sup>*\<^sup>* e b"
  shows "map ad_version (audits_of b i) = [1..int (length (audits_of b i))]
    \<and> distinct (map ad_id (pd_audits b)) \<and> (\<exists>new. pd_audits b = pd_audits e @ new)"
proof -
  have "policy_inv e" by (rule policies.reachable_inv [OF assms(3,1)])
  from policies.reachable [OF assms(4) this] show ?thesis by (auto simp: policy_inv_def policy_evolves_def)
qed

text \<open>
  A reviewed change goes through: applying a preview of the current policy that changes something, with its version
  and digest, succeeds.
\<close>

lemma reviewed_change_applies:
  assumes "schedules_fixed env" and "load_scoped_cycle d a i = Inr c" and "effective env d c = Inr cur"
    and "preview_for_cycle env d a c cur p rf = Inr pv" and "pv_changed_fields pv \<noteq> []"
    and "rf = None \<or> p = Revert (the rf)"
    and "compute_next_run_at env now (ps_schedule_expr (pv_after_snapshot pv)) (ps_timezone (pv_after_snapshot pv)) None = Inr nr"
    and "\<And>topic payload. pe_publish env topic payload = None"
    and "py_strip (pv_digest pv) = pv_digest pv" and "pv_digest pv \<noteq> []" and "py_strip rationale \<noteq> []" and "py_strip source \<noteq> []"
  shows "\<exists>eff ch vr d'. apply_policy_change env now a i p (PyInt (ep_version cur)) (pv_digest pv) rationale source rf d
      = (Inr (Applied eff ch vr), d') \<and> ep_snapshot eff = pv_after_snapshot pv \<and> ep_version eff = ep_version cur + 1"
proof -
  have new: "settled_snapshot env (pv_after_snapshot pv)" by (rule proposed_ok [OF assms(1) preview_parts(2) [OF assms(4)]])
  have cur: "settled_snapshot env (ep_snapshot cur)" by (rule effective_ok [OF assms(1,3)])
  have recorded: "\<exists>ch. policy_record env row (pv_after_snapshot pv) = Inr ch"
    if "ad_before_snapshot row = encode (ep_snapshot cur)" "ad_after_snapshot row = encode (pv_after_snapshot pv)" for row
    using that decode_encode [OF cur new] decode_encode [OF new new] by (simp add: policy_record_def)
  obtain c' where c': "apply_to env now (pv_after_snapshot pv) c = Inr c'" using assms(7) by (auto simp: apply_to_def)
  have "publish_cycle_change_strict env action row = Inr ()" for action row
    using assms(8) by (simp add: publish_cycle_change_strict_def)
  then have "\<exists>row eff vr d'. write_change env now d a c pv (py_strip rationale) (py_strip source) rf
        = rbind (policy_record env row (pv_after_snapshot pv)) (\<lambda>ch. Inr (Applied eff ch vr, d'))
      \<and> ad_before_snapshot row = encode (ep_snapshot cur) \<and> ad_after_snapshot row = encode (pv_after_snapshot pv)
      \<and> ep_snapshot eff = pv_after_snapshot pv \<and> ep_version eff = ep_version cur + 1"
    unfolding write_change_def Let_def c' rbind_simps record_cycle_revision_def split preview_parts(1) [OF assms(4)]
    by (intro exI conjI) (simp_all only: rbind_simps, simp_all)
  then have "\<exists>eff ch vr d'. write_change env now d a c pv (py_strip rationale) (py_strip source) rf = Inr (Applied eff ch vr, d')
      \<and> ep_snapshot eff = pv_after_snapshot pv \<and> ep_version eff = ep_version cur + 1"
    using recorded by (metis rbind_simps(2))
  moreover have "(case (rf, p) of (Some change_id, Patch _) \<Rightarrow> rbind (load_revert_source d c change_id) (\<lambda>_. Inr ()) | _ \<Rightarrow> Inr ()) = Inr ()"
    using assms(6) by (auto split: option.split)
  ultimately show ?thesis
    using assms(2-5,9-12) by (auto simp: apply_policy_change_def apply_in_savepoint_def validate_nonempty_trimmed_def)
qed

section \<open>A concrete history\<close>

definition ex_utc :: zone_info where
  "ex_utc = \<lparr>zi_fromutc = (\<lambda>t. (t, False)), zi_utcoffset = (\<lambda>w fold. 0)\<rparr>"

text \<open>A parser that knows one timestamp, one cron expression, and a constant digest.\<close>

definition ex_cycle_env :: policy_env where
  "ex_cycle_env = \<lparr>pe_zones = (\<lambda>name. if name = ''UTC'' then Some ex_utc else None),
     pe_fromiso = (\<lambda>s. if s = ''1970-01-01T00:00:00+00:00'' then Some (Aware 0) else None),
     pe_cron_valid = (\<lambda>e. e = ''0 9 * * 1''), pe_cron_next = (\<lambda>e z t. Inr (t + seconds 3600)),
     pe_sha256 = (\<lambda>s. ''0a1b2c''), pe_publish = (\<lambda>topic payload. None)\<rparr>"

definition ex_cycle :: policy_cycle where
  "ex_cycle = \<lparr>cy_id = 7, cy_user_id = ''u1'', cy_org_id = Some ''o1'', cy_creator_type = ''user'', cy_creator_id = None,
     cy_maintainer_type = ''user'', cy_maintainer_id = None, cy_name = ''Digest'', cy_prompt = ''Summarize the week'',
     cy_schedule_expr = ''0 9 * * 1'', cy_timezone = ''UTC'', cy_enabled = True, cy_max_concurrency = 1,
     cy_timeout_seconds = None, cy_retry_policy = PyDict [], cy_model_override = None, cy_thinking_override = None,
     cy_execution_policy_key = None, cy_execution_mode = ''reuse_same_idea'', cy_executor_binding = ''illo-lane'',
     cy_skill_ids = PyList [], cy_receipt_monitoring_started_at = 0, cy_target_idea_id = None, cy_reopen_archived = True,
     cy_next_run_at = None, cy_updated_at = 0, cy_deleted_at = None\<rparr>"

definition ex_policy_db :: policy_db where
  "ex_policy_db = \<lparr>pd_cycles = [ex_cycle\<lparr>cy_id := 6\<rparr>, ex_cycle],
     pd_guidance = [\<lparr>gd_id = 1, gd_cycle_id = 7, gd_revision_id = None, gd_source_type = ''user'', gd_source_id = None,
       gd_guidance = ''Cite sources'', gd_rationale = None, gd_is_active = True, gd_created_at = 0\<rparr>],
     pd_revisions = [], pd_audits = [], pd_users = [], pd_ideas = [],
     pd_next_guidance = 2, pd_next_revision = 1, pd_next_audit = 1\<rparr>"

definition ex_cycle_actor :: cycle_actor where
  "ex_cycle_actor = \<lparr>ca_user_id = ''u1'', ca_org_id = Some ''o1'', ca_principal_type = ''user'', ca_source_id = None\<rparr>"

definition ex_proposal :: proposal where
  "ex_proposal = Patch \<lparr>pp_changes = [(''name'', PyStr ''Weekly digest''), (''timezone'', PyNone)],
     pp_run_at = None, pp_guidance_additions = Some (PyList [PyStr ''Be brief''])\<rparr>"

definition ex_snapshot :: policy_snapshot where
  "ex_snapshot = \<lparr>ps_name = ''Digest'', ps_prompt = ''Summarize the week'', ps_schedule_expr = ''0 9 * * 1'', ps_timezone = ''UTC'',
     ps_enabled = True, ps_max_concurrency = 1, ps_timeout_seconds = None, ps_retry_policy = [], ps_model_override = None,
     ps_thinking_override = None, ps_execution_policy_key = None, ps_executor_binding = ''illo-lane'', ps_skill_ids = [],
     ps_target_idea_id = None, ps_guidance = [''Cite sources'']\<rparr>"

definition ex_renamed :: policy_snapshot where
  "ex_renamed = ex_snapshot\<lparr>ps_name := ''Weekly digest'', ps_guidance := [''Be brief'', ''Cite sources'']\<rparr>"

definition ex_effective :: effective_policy where
  "ex_effective = \<lparr>ep_workspace_id = ''o1'', ep_target_id = ''7'', ep_version = 0, ep_revision_id = None, ep_snapshot = ex_snapshot\<rparr>"

lemma ex_loaded: "load_scoped_cycle ex_policy_db ex_cycle_actor 7 = Inr ex_cycle"
  by code_simp

lemma ex_cycle_env_simps [simp]:
  "pe_zones ex_cycle_env = (\<lambda>name. if name = ''UTC'' then Some ex_utc else None)" "pe_publish ex_cycle_env topic payload = None"
  "pe_fromiso ex_cycle_env = (\<lambda>s. if s = ''1970-01-01T00:00:00+00:00'' then Some (Aware 0) else None)"
  "pe_sha256 ex_cycle_env text = ''0a1b2c''"
  by (simp_all add: ex_cycle_env_def)

lemma ex_values:
  "validate_timezone_name ex_cycle_env (PyStr ''UTC'') = Inr ''UTC''"
  "validate_schedule_expr ex_cycle_env (PyStr ''0 9 * * 1'') ''UTC'' = Inr ''0 9 * * 1''"
  "validate_cycle_prompt (PyStr ''Summarize the week'') [] = Inr ''Summarize the week''"
  "validate_nonempty_trimmed (PyStr ''Digest'') ''name'' = Inr ''Digest''"
  "validate_nonempty_trimmed (PyStr ''Weekly digest'') ''name'' = Inr ''Weekly digest''"
  "validate_nonempty_trimmed (PyStr ''Cite sources'') ''guidance'' = Inr ''Cite sources''"
  "validate_nonempty_trimmed (PyStr ''Be brief'') ''guidance'' = Inr ''Be brief''"
  "validate_executor_binding (PyStr ''illo-lane'') = Inr ''illo-lane''"
  by code_simp+

lemma ex_snapshots_ok: "settled_snapshot ex_cycle_env ex_snapshot" "settled_snapshot ex_cycle_env ex_renamed"
proof -
  have "sorted [''Be brief'', ''Cite sources'']" by code_simp
  then show "settled_snapshot ex_cycle_env ex_snapshot" "settled_snapshot ex_cycle_env ex_renamed"
    by (simp_all add: settled_snapshot_def ex_snapshot_def ex_renamed_def ex_values validate_cycle_skill_ids_def
        validated_max_concurrency_def validate_cycle_timeout_seconds_def validate_model_override_def
        validate_thinking_override_def validate_cycle_execution_policy_key_def)
qed

lemma ex_read: "effective ex_cycle_env ex_policy_db ex_cycle = Inr ex_effective"
proof -
  have texts: "map gd_guidance (active_guidance ex_policy_db 7) = [''Cite sources'']" by code_simp
  have "latest_version ex_policy_db 7 = 0" "latest_revision_id ex_policy_db 7 = None" "show_int 7 = ''7''" by code_simp+
  moreover have "from_cycle ex_cycle_env ex_cycle (active_guidance ex_policy_db 7) = Inr ex_snapshot"
    by (rule carries_reads [OF ex_snapshots_ok(1)])
       (unfold texts, simp_all add: carries_def ex_cycle_def ex_snapshot_def)
  ultimately show ?thesis by (simp add: effective_def ex_effective_def workspace_id_def ex_cycle_def)
qed

lemma ex_proposed: "proposed_snapshot ex_cycle_env ex_policy_db ex_cycle ex_snapshot ex_proposal = Inr ex_renamed"
proof -
  have "sort (ps_guidance ex_snapshot @ [''Be brief'']) = [''Be brief'', ''Cite sources'']" by code_simp
  moreover have "dset (dmerge (snapshot_fields ex_snapshot) [(''name'', PyStr ''Weekly digest'')]) ''guidance''
      (PyList [PyStr ''Be brief'', PyStr ''Cite sources'']) = fields_with ex_renamed [''Be brief'', ''Cite sources'']"
    by (simp add: dmerge_def snapshot_fields_def fields_with_def ex_snapshot_def ex_renamed_def)
  moreover have "validated ex_cycle_env (fields_with ex_renamed [''Be brief'', ''Cite sources'']) = Inr ex_renamed"
    by (rule validated_fields_with [OF ex_snapshots_ok(2)]) (simp_all add: ex_renamed_def)
  ultimately show ?thesis
    by (simp add: proposed_snapshot_def ex_proposal_def project_patch_def patch_ignores_none_def FIELD_NAMES_def
        list_or_error_def ex_values)
qed

lemma ex_changed: "changed_fields ex_snapshot ex_renamed = [''guidance'', ''name'']"
  by code_simp

lemma ex_next: "compute_next_run_at ex_cycle_env 1000 ''0 9 * * 1'' ''UTC'' None = Inr (Some 3600001000)"
  by code_simp

definition ex_preview :: policy_preview where
  "ex_preview = \<lparr>pv_before = ex_effective, pv_after_snapshot = ex_renamed, pv_changed_fields = [''guidance'', ''name''],
     pv_digest = ''0a1b2c'', pv_reverted_from_id = None\<rparr>"

lemma ex_previewed: "preview_for_cycle ex_cycle_env ex_policy_db ex_cycle_actor ex_cycle ex_effective ex_proposal None = Inr ex_preview"
  using ex_proposed ex_changed
  by (simp add: preview_for_cycle_def ex_effective_def ex_preview_def preview_digest_def Let_def)
     (simp add: ex_snapshot_def ex_renamed_def)

lemma ex_printed: "one_time_text ex_utc 0 = ''at:1970-01-01T00:00:00+00:00''"
proof -
  have "wall_text 0 = ''1970-01-01T00:00:00''" by code_simp
  moreover have "offset_text 0 = ''+00:00''" by code_simp
  ultimately show ?thesis by (simp add: one_time_text_def ex_utc_def ONE_TIME_SCHEDULE_PREFIX_def)
qed

text \<open>The one timestamp the parser knows reads back as printed.\<close>

lemma ex_schedules: "schedules_fixed ex_cycle_env"
  unfolding schedules_fixed_def
proof (intro allI impI)
  fix v name s
  assume s: "validate_schedule_expr ex_cycle_env v name = Inr s" and tz: "validate_timezone_name ex_cycle_env (PyStr name) = Inr name"
  have utc: "name = ''UTC''"
    using tz by (auto simp: validate_timezone_name_def rbind_Inr_iff find_zone_def split: if_splits)
  show "schedule_fixed ex_cycle_env s name"
  proof (cases "is_one_time_schedule_expr s")
    case True
    obtain x where x: "strip_or_error v = Inr x" using s by (auto simp: validate_schedule_expr_def rbind_Inr_iff)
    have "is_one_time_schedule_expr x" using s x True by (auto simp: validate_schedule_expr_def split: if_splits)
    then have "rbind (parse_one_time_run_at ex_cycle_env x (PyStr ''UTC'')) (\<lambda>t.
        build_one_time_schedule_expr ex_cycle_env (RunAtTime (Aware t)) (PyStr ''UTC'')) = Inr s"
      using s x utc ex_values(1) by (simp add: validate_schedule_expr_def)
    then obtain t where p: "parse_one_time_run_at ex_cycle_env x (PyStr ''UTC'') = Inr t"
      and b: "build_one_time_schedule_expr ex_cycle_env (RunAtTime (Aware t)) (PyStr ''UTC'') = Inr s"
      by (auto simp only: rbind_Inr_iff)
    have "\<exists>y d z. pe_fromiso ex_cycle_env y = Some d \<and> t = zoned_instant z d"
      using p unfolding parse_one_time_run_at_def Let_def
      by (auto simp del: ex_cycle_env_simps simp: rbind_Inr_iff split: if_splits option.splits)
    then obtain y d z where d: "pe_fromiso ex_cycle_env y = Some d" "t = zoned_instant z d" by blast
    have "d = Aware 0" using d(1) unfolding ex_cycle_env_simps by (simp split: if_splits)
    then have "t = 0" using d(2) by (simp add: zoned_instant_def)
    then have "s = one_time_text ex_utc 0"
      using b ex_values(1) by (simp add: build_one_time_schedule_expr_def zone_named_def find_zone_def zoned_instant_def)
    moreover have "one_time_text ex_utc 0 = ''at:1970-01-01T00:00:00+00:00''"
      by (rule ex_printed)
    ultimately have shape: "s = ''at:1970-01-01T00:00:00+00:00''" and printed: "one_time_text ex_utc 0 = s" by simp_all
    have "py_strip (drop (length ONE_TIME_SCHEDULE_PREFIX) (py_strip s)) = ''1970-01-01T00:00:00+00:00''"
      unfolding shape by code_simp
    moreover have "zulu ''1970-01-01T00:00:00+00:00'' = ''1970-01-01T00:00:00+00:00''" by code_simp
    ultimately show ?thesis using printed by (simp add: schedule_fixed_def utc reads_back_def zoned_instant_def)
  qed (simp add: schedule_fixed_def)
qed

lemma ex_policy_inv: "policy_inv ex_policy_db"
  by (simp add: policy_inv_def guidance_ok_def ex_policy_db_def audits_of_def ex_cycle_def)

lemma ex_applied:
  "\<exists>eff ch vr d'. apply_policy_change ex_cycle_env 1000 ex_cycle_actor 7 ex_proposal (PyInt 0) ''0a1b2c'' ''Weekly'' ''chat'' None ex_policy_db
      = (Inr (Applied eff ch vr), d') \<and> ep_snapshot eff = ex_renamed \<and> ep_version eff = 1"
  using reviewed_change_applies [OF ex_schedules ex_loaded ex_read ex_previewed, of 1000 "Some 3600001000" "''Weekly''" "''chat''"] ex_next
  by (simp add: ex_preview_def ex_effective_def py_strip_def py_space_def) (simp add: ex_renamed_def ex_snapshot_def)

lemma policy_change_reads_back_witness:
  "\<exists>eff ch vr d' c'. apply_policy_change ex_cycle_env 1000 ex_cycle_actor 7 ex_proposal (PyInt 0) ''0a1b2c'' ''Weekly'' ''chat'' None ex_policy_db
      = (Inr (Applied eff ch vr), d') \<and> load_scoped_cycle d' ex_cycle_actor 7 = Inr c' \<and> effective ex_cycle_env d' c' = Inr eff
    \<and> ep_snapshot eff = ex_renamed \<and> ch_before ch = ex_snapshot"
proof -
  obtain eff ch vr d' where a: "apply_policy_change ex_cycle_env 1000 ex_cycle_actor 7 ex_proposal (PyInt 0) ''0a1b2c'' ''Weekly'' ''chat'' None ex_policy_db
      = (Inr (Applied eff ch vr), d')" "ep_snapshot eff = ex_renamed" using ex_applied by blast
  obtain c cur pv c' where "load_scoped_cycle ex_policy_db ex_cycle_actor 7 = Inr c" "effective ex_cycle_env ex_policy_db c = Inr cur"
      "load_scoped_cycle d' ex_cycle_actor 7 = Inr c'" "effective ex_cycle_env d' c' = Inr eff" "ch_before ch = ep_snapshot cur"
    using policy_change_reads_back [OF ex_policy_inv ex_schedules a(1)] by metis
  moreover from this ex_loaded ex_read have "ep_snapshot cur = ex_snapshot" by (auto simp: ex_effective_def)
  ultimately show ?thesis using a by metis
qed

lemma ex_reverted:
  assumes "apply_policy_change ex_cycle_env 1000 ex_cycle_actor 7 ex_proposal (PyInt 0) ''0a1b2c'' ''Weekly'' ''chat'' None ex_policy_db
      = (Inr (Applied eff ch vr), d1)"
  shows "\<exists>eff2 ch2 vr2 d2. apply_policy_revert ex_cycle_env 1000 ex_cycle_actor 7 (ad_id (ch_row ch)) (PyInt 1) ''0a1b2c'' ''Undo'' ''chat'' d1
      = (Inr (Applied eff2 ch2 vr2), d2)"
proof -
  obtain c cur pv n ra' src' where c: "load_scoped_cycle ex_policy_db ex_cycle_actor 7 = Inr c" "effective ex_cycle_env ex_policy_db c = Inr cur"
    and pv: "preview_for_cycle ex_cycle_env ex_policy_db ex_cycle_actor c cur ex_proposal None = Inr pv"
    and w: "write_change ex_cycle_env 1000 ex_policy_db ex_cycle_actor c pv ra' src' None = Inr (Applied eff ch vr, d1)"
    by (rule applied_inversion [OF assms])
  have same: "c = ex_cycle" "cur = ex_effective" "pv = ex_preview" using c pv ex_loaded ex_read ex_previewed by auto
  have new: "settled_snapshot ex_cycle_env (pv_after_snapshot pv)" using ex_snapshots_ok by (simp add: same ex_preview_def)
  have cur: "ep_snapshot cur = ex_snapshot" "ep_version cur = 0" "pv_after_snapshot pv = ex_renamed"
    by (simp_all add: same ex_effective_def ex_preview_def)
  obtain c1 where c1: "load_scoped_cycle d1 ex_cycle_actor 7 = Inr c1" "effective ex_cycle_env d1 c1 = Inr eff" "ep_snapshot eff = ex_renamed"
      "ep_version eff = 1" and audit: "pd_audits d1 = pd_audits ex_policy_db @ [ch_row ch]"
      "ad_before_snapshot (ch_row ch) = encode ex_snapshot" "ad_target_id (ch_row ch) = show_int 7"
    using written_effective [OF ex_policy_inv ex_schedules c new preview_parts(1) [OF pv] w] unfolding cur by (metis add_0)
  have "audits_of d1 (cy_id c1) = [ch_row ch]"
    using audit(1,3) loaded [OF c1(1)] by (simp add: audits_of_def ex_policy_db_def)
  then have source: "proposed_snapshot ex_cycle_env d1 c1 (ep_snapshot eff) (Revert (ad_id (ch_row ch))) = Inr ex_snapshot"
    using decode_encode [OF ex_snapshots_ok] c1(3) audit(2) by (simp add: proposed_snapshot_def load_revert_source_def)
  have changed: "changed_fields ex_renamed ex_snapshot \<noteq> []" by code_simp
  define undo where "undo = \<lparr>pv_before = eff, pv_after_snapshot = ex_snapshot, pv_changed_fields = changed_fields ex_renamed ex_snapshot,
     pv_digest = ''0a1b2c'', pv_reverted_from_id = Some (ad_id (ch_row ch))\<rparr>"
  have "preview_for_cycle ex_cycle_env d1 ex_cycle_actor c1 eff (Revert (ad_id (ch_row ch))) (Some (ad_id (ch_row ch))) = Inr undo"
    using source c1(3) by (simp add: preview_for_cycle_def undo_def preview_digest_def Let_def ex_renamed_def)
  from reviewed_change_applies [OF ex_schedules c1(1,2) this, of 1000 "Some 3600001000" "''Undo''" "''chat''"] show ?thesis
    using changed ex_next c1(4)
    by (simp add: undo_def apply_policy_revert_def py_strip_def py_space_def) (auto simp: ex_snapshot_def)
qed

lemma policy_revert_restores_witness:
  "\<exists>eff ch vr d1 eff2 ch2 vr2 d2.
     apply_policy_change ex_cycle_env 1000 ex_cycle_actor 7 ex_proposal (PyInt 0) ''0a1b2c'' ''Weekly'' ''chat'' None ex_policy_db
       = (Inr (Applied eff ch vr), d1)
   \<and> apply_policy_revert ex_cycle_env 1000 ex_cycle_actor 7 (ad_id (ch_row ch)) (PyInt 1) ''0a1b2c'' ''Undo'' ''chat'' d1
       = (Inr (Applied eff2 ch2 vr2), d2)
   \<and> ep_snapshot eff = ex_renamed \<and> ep_snapshot eff2 = ex_snapshot \<and> ep_version eff2 = 2"
proof -
  obtain eff ch vr d1 where a: "apply_policy_change ex_cycle_env 1000 ex_cycle_actor 7 ex_proposal (PyInt 0) ''0a1b2c'' ''Weekly'' ''chat'' None ex_policy_db
      = (Inr (Applied eff ch vr), d1)" "ep_snapshot eff = ex_renamed" using ex_applied by blast
  obtain eff2 ch2 vr2 d2 where r: "apply_policy_revert ex_cycle_env 1000 ex_cycle_actor 7 (ad_id (ch_row ch)) (PyInt 1) ''0a1b2c'' ''Undo'' ''chat'' d1
      = (Inr (Applied eff2 ch2 vr2), d2)" using ex_reverted [OF a(1)] by blast
  have "ep_snapshot eff2 = ep_snapshot ex_effective \<and> ep_version eff2 = ep_version ex_effective + 2"
    using policy_revert_restores [OF ex_policy_inv ex_schedules a(1) ex_loaded ex_read] r by blast
  then have "ep_snapshot eff2 = ex_snapshot \<and> ep_version eff2 = 2" by (simp add: ex_effective_def)
  then show ?thesis using a r by metis
qed

lemma stale_review_refused_witness:
  "\<exists>eff ch vr d1. apply_policy_change ex_cycle_env 1000 ex_cycle_actor 7 ex_proposal (PyInt 0) ''0a1b2c'' ''Weekly'' ''chat'' None ex_policy_db
      = (Inr (Applied eff ch vr), d1)
    \<and> snd (apply_policy_change ex_cycle_env 2000 ex_cycle_actor 7 ex_proposal (PyInt 0) ''0a1b2c'' ''Again'' ''chat'' None d1) = d1"
proof -
  obtain eff ch vr d1 where a: "apply_policy_change ex_cycle_env 1000 ex_cycle_actor 7 ex_proposal (PyInt 0) ''0a1b2c'' ''Weekly'' ''chat'' None ex_policy_db
      = (Inr (Applied eff ch vr), d1)" using ex_applied by blast
  have "snd (apply_policy_change ex_cycle_env 2000 ex_cycle_actor 7 ex_proposal (PyInt 0) ''0a1b2c'' ''Again'' ''chat'' None d1) = d1"
    using stale_review_refused [OF ex_policy_inv a rtranclp.rtrancl_refl] by blast
  then show ?thesis using a by blast
qed

lemma policy_history_contiguous_witness:
  "\<exists>d1. (review_step ex_cycle_env)\<^sup>*\<^sup>* ex_policy_db d1 \<and> length (audits_of d1 7) = 1 \<and> map ad_version (audits_of d1 7) = [1]"
proof -
  obtain eff ch vr d1 where a: "apply_policy_change ex_cycle_env 1000 ex_cycle_actor 7 ex_proposal (PyInt 0) ''0a1b2c'' ''Weekly'' ''chat'' None ex_policy_db
      = (Inr (Applied eff ch vr), d1)" using ex_applied by blast
  obtain c cur pv n ra' src' where "load_scoped_cycle ex_policy_db ex_cycle_actor 7 = Inr c"
    and w: "write_change ex_cycle_env 1000 ex_policy_db ex_cycle_actor c pv ra' src' None = Inr (Applied eff ch vr, d1)"
    by (rule applied_inversion [OF a])
  then have c: "c = ex_cycle" using ex_loaded by simp
  have one: "length (audits_of d1 7) = 1"
    by (rule write_change_result [OF w]) (simp add: audits_of_def ex_policy_db_def c ex_cycle_def)
  have step: "(review_step ex_cycle_env)\<^sup>*\<^sup>* ex_policy_db d1"
    using review_step.change [of ex_cycle_env ex_policy_db 1000 ex_cycle_actor 7 ex_proposal "PyInt 0" "''0a1b2c''" "''Weekly''" "''chat''" None] a by auto
  have "pd_audits ex_policy_db = []" by (simp add: ex_policy_db_def)
  from policy_history_contiguous [OF ex_policy_inv this rtranclp.rtrancl_refl step, of 7] show ?thesis using step one by auto
qed

end
