(* ===== verification/Scheduler_Guard.thy ===== *)
theory Scheduler_Guard
  imports Failure_Guard
begin

text \<open>
  The failure guard of a scheduler job: \<open>app/scheduler/scheduler_failure_guard.py\<close> with its four
  triggers, the executor's use of it (\<open>_async_apply_failure_guard\<close> in \<open>app/scheduler/executor.py\<close>) and the
  outcomes that classify a skip (\<open>contracts/scheduler_outcomes.py\<close>). The digest of a failure identity and
  whether the delivery of an alert succeeded are arguments.
\<close>

section \<open>Skips\<close>

datatype skip_kind = SkipConfiguration | SkipTransient

definition scheduler_skip_kind :: "pydict \<Rightarrow> skip_kind option" where
  "scheduler_skip_kind result =
     (if py_lower (clean_text (dget result ''outcome'')) \<noteq> ''skipped'' then None
      else let k = py_lower (clean_text (dget result ''skip_kind'')) in
        if k = ''configuration'' then Some SkipConfiguration
        else if k = ''transient'' then Some SkipTransient else None)"

record configuration_skip =
  cs_repository :: "string option"
  cs_reason :: string
  cs_payload :: pydict

definition own_configuration_skip :: "pydict \<Rightarrow> configuration_skip list" where
  "own_configuration_skip result =
     (if scheduler_skip_kind result = Some SkipConfiguration then
        (let repository = clean_text (py_or (dget result ''repo'') (dget result ''repository'')) in
         [\<lparr>cs_repository = (if repository = [] then None else Some repository),
           cs_reason = py_str (py_or (dget result ''reason'') (PyStr ''Job is blocked by missing configuration'')),
           cs_payload = result\<rparr>])
      else [])"

text \<open>The recursion goes into the lists under \<open>results\<close>; values that are no mapping are passed over.\<close>

function find_configuration_skips :: "pydict \<Rightarrow> configuration_skip list" where
  "find_configuration_skips result =
     own_configuration_skip result @
     (case dget result ''results'' of
        PyList xs \<Rightarrow> concat (map (\<lambda>v. case v of PyDict d \<Rightarrow> find_configuration_skips d | _ \<Rightarrow> []) xs)
      | _ \<Rightarrow> [])"
  by pat_completeness auto

lemma dget_smaller: "dget d k = v \<Longrightarrow> v \<noteq> PyNone \<Longrightarrow> size v < Suc (size_list (size_prod (\<lambda>_. 0) size) d)"
  by (induction d) (auto simp: dget_def split: if_splits option.splits)

termination find_configuration_skips
proof (relation "measure (size_list (size_prod (\<lambda>_. 0) size))", simp)
  fix result xs v d
  assume r: "dget result ''results'' = PyList xs" and v: "v \<in> set xs" "v = PyDict d"
  have "size_list (size_prod (\<lambda>_. 0) size) d < size v" using v(2) by simp
  also have "size v \<le> size_list size xs" using v(1) by (simp add: size_list_estimation')
  also have "\<dots> < size (PyList xs)" by simp
  finally have "size_list (size_prod (\<lambda>_. 0) size) d < size (PyList xs)" by simp
  with dget_smaller [OF r] show "(d, result) \<in> measure (size_list (size_prod (\<lambda>_. 0) size))" by simp
qed

declare find_configuration_skips.simps [simp del]

definition configuration_skip_summary :: "configuration_skip list \<Rightarrow> string result" where
  "configuration_skip_summary skips =
     (case skips of
        [] \<Rightarrow> Inl (ValueError ''configuration skip summary requires at least one gap'')
      | _ \<Rightarrow>
        if length skips = 1 \<and> cs_repository (hd skips) = None then Inr (cs_reason (hd skips))
        else Inr (py_join [CHR 0x0A] (''Configuration gaps:'' #
          map (\<lambda>s. ''- '' @ (case cs_repository s of None \<Rightarrow> ''Job'' | Some r \<Rightarrow> r) @ '': '' @ cs_reason s) skips)))"

section \<open>Rows\<close>

record sched_job =
  sj_signature :: "string option"
  sj_last_error :: "string option"

record sched_run =
  sr_job :: int
  sr_status :: string
  sr_started_at :: "instant option"
  sr_created_at :: instant

record sched_db =
  sg_jobs :: "int \<Rightarrow> sched_job option"
  sg_runs :: "sched_run list"
  sg_latches :: "int \<Rightarrow> string \<Rightarrow> instant option"
  sg_states :: "int \<Rightarrow> trigger_states"

record sched_context =
  sx_runs :: "sched_run list"
  sx_job :: int
  sx_now :: instant
  sx_record :: "failure_record option"
  sx_failure_kind :: "skip_kind option"

section \<open>Triggers\<close>

datatype reset_event = SignatureChange | SuccessReset

definition CONSECUTIVE_TRIGGER_KIND :: string where "CONSECUTIVE_TRIGGER_KIND = ''consecutive''"
definition ROLLING_WINDOW_TRIGGER_KIND :: string where "ROLLING_WINDOW_TRIGGER_KIND = ''rolling_window''"
definition STANDING_FAILURE_TRIGGER_KIND :: string where "STANDING_FAILURE_TRIGGER_KIND = ''standing_failure''"
definition CONFIGURATION_TRIGGER_KIND :: string where "CONFIGURATION_TRIGGER_KIND = ''configuration''"

lemmas kind_defs = CONSECUTIVE_TRIGGER_KIND_def ROLLING_WINDOW_TRIGGER_KIND_def STANDING_FAILURE_TRIGGER_KIND_def
  CONFIGURATION_TRIGGER_KIND_def

definition sched_positive_int_setting :: "environ \<Rightarrow> string \<Rightarrow> int \<Rightarrow> int" where
  "sched_positive_int_setting env name dflt = max 1 (getenv_int env name dflt)"

text \<open>\<open>int(state.get("count", 0))\<close>.\<close>

definition sched_count :: "pydict \<Rightarrow> int result" where
  "sched_count state = (case map_of state ''count'' of None \<Rightarrow> Inr 0 | Some v \<Rightarrow> int_or_error v)"

definition count_details :: "int \<Rightarrow> int \<Rightarrow> pyval \<Rightarrow> pydict" where
  "count_details count threshold window =
     [(''count'', PyInt count), (''threshold'', PyInt threshold), (''window_hours'', window)]"

subsection \<open>Consecutive failures\<close>

definition consecutive_threshold :: "environ \<Rightarrow> int" where
  "consecutive_threshold env = sched_positive_int_setting env ''SCHEDULER_FAILURE_ALERT_THRESHOLD'' 3"

definition consecutive_evaluate :: "int \<Rightarrow> sched_context \<Rightarrow> pydict \<Rightarrow> trigger_result result" where
  "consecutive_evaluate threshold context state =
     rbind (sched_count state) (\<lambda>count.
       make_trigger_result CONSECUTIVE_TRIGGER_KIND (threshold \<le> count) (count_details count threshold PyNone)
         ''Scheduler job repeated failure'' (''Consecutive failures: '' @ show_int count))"

definition sched_consecutive_transition :: "sched_context \<Rightarrow> pydict \<Rightarrow> lifecycle_event \<Rightarrow> pydict option result" where
  "sched_consecutive_transition context state event =
     (case event of
        Success \<Rightarrow> Inr None
      | NewFailure \<Rightarrow> Inr (Some [(''count'', PyInt 1)])
      | RepeatedFailure \<Rightarrow> rbind (sched_count state) (\<lambda>n. Inr (Some [(''count'', PyInt (n + 1))])))"

subsection \<open>Standing failures\<close>

definition standing_threshold :: "environ \<Rightarrow> int" where
  "standing_threshold env = sched_positive_int_setting env ''SCHEDULER_STANDING_FAILURE_ALERT_THRESHOLD'' 3"

definition least_of :: "int list \<Rightarrow> int option" where
  "least_of ts = (case ts of [] \<Rightarrow> None | t # us \<Rightarrow> Some (fold min us t))"

definition greatest_of :: "int list \<Rightarrow> int option" where
  "greatest_of ts = (case ts of [] \<Rightarrow> None | t # us \<Rightarrow> Some (fold max us t))"

definition last_success_at :: "sched_run list \<Rightarrow> int \<Rightarrow> instant option" where
  "last_success_at runs j =
     greatest_of (map sr_created_at (filter (\<lambda>r. sr_job r = j \<and> sr_status r = ''settled_success'') runs))"

definition standing_failures :: "sched_run list \<Rightarrow> int \<Rightarrow> sched_run list" where
  "standing_failures runs j =
     filter (\<lambda>r. sr_job r = j \<and> sr_status r = ''settled_failure''
       \<and> (case last_success_at runs j of None \<Rightarrow> True | Some t \<Rightarrow> t < sr_created_at r)) runs"

definition standing_failure_elapsed_text :: "instant \<Rightarrow> instant \<Rightarrow> string" where
  "standing_failure_elapsed_text started_at ended_at =
     (let s = max 0 ((ended_at - started_at) div 1000000);
          unit = (\<lambda>name amount. show_int amount @ '' '' @ name @ (if amount = 1 then [] else ''s'')) in
      if s div 86400 \<noteq> 0 then unit ''day'' (s div 86400)
      else if s div 3600 \<noteq> 0 then unit ''hour'' (s div 3600)
      else if s div 60 \<noteq> 0 then unit ''minute'' (s div 60)
      else ''less than 1 minute'')"

definition standing_summary :: "int \<Rightarrow> instant option \<Rightarrow> instant option \<Rightarrow> instant \<Rightarrow> string" where
  "standing_summary count first_failure_at last_success now =
     (let label = (if count = 1 then ''failure'' else ''failures'') in
      case last_success of
        Some t \<Rightarrow> show_int count @ '' '' @ label @ '' over '' @ standing_failure_elapsed_text t now
                  @ '' since last successful run''
      | None \<Rightarrow> (case first_failure_at of
          Some t \<Rightarrow> show_int count @ '' '' @ label @ '' over '' @ standing_failure_elapsed_text t now
                    @ ''; job has never succeeded''
        | None \<Rightarrow> ''0 failures; job has never succeeded''))"

definition standing_evaluate :: "int \<Rightarrow> sched_context \<Rightarrow> trigger_result result" where
  "standing_evaluate threshold x =
     (let failures = standing_failures (sx_runs x) (sx_job x); count = int (length failures) in
      make_trigger_result STANDING_FAILURE_TRIGGER_KIND (threshold \<le> count) (count_details count threshold PyNone)
        ''Scheduler job standing failure''
        (standing_summary count (least_of (map sr_created_at failures)) (last_success_at (sx_runs x) (sx_job x)) (sx_now x)))"

subsection \<open>Configuration\<close>

definition configuration_evaluate :: "sched_context \<Rightarrow> pydict \<Rightarrow> trigger_result result" where
  "configuration_evaluate x state =
     (let active = py_truthy (case map_of state ''active'' of None \<Rightarrow> PyBool False | Some v \<Rightarrow> v) in
      make_trigger_result CONFIGURATION_TRIGGER_KIND active (count_details (if active then 1 else 0) 1 PyNone)
        ''Scheduler job blocked by missing configuration''
        (py_str (py_or (dget state ''summary'') (PyStr ''Job is blocked by missing configuration''))))"

definition configuration_transition :: "sched_context \<Rightarrow> pydict \<Rightarrow> lifecycle_event \<Rightarrow> pydict option result" where
  "configuration_transition x state event =
     (if event = Success then Inr None
      else if sx_failure_kind x \<noteq> Some SkipConfiguration then Inr None
      else (case sx_record x of
          None \<Rightarrow> Inl (ValueError ''configuration failure requires a failure record'')
        | Some r \<Rightarrow> Inr (Some [(''active'', PyBool True), (''summary'', PyStr (fr_error_text r))])))"

subsection \<open>Failures in a rolling window\<close>

definition rate_threshold :: "environ \<Rightarrow> int" where
  "rate_threshold env = sched_positive_int_setting env ''SCHEDULER_FAILURE_RATE_THRESHOLD'' 3"

definition rate_window_hours :: "environ \<Rightarrow> int" where
  "rate_window_hours env = sched_positive_int_setting env ''SCHEDULER_FAILURE_RATE_WINDOW_HOURS'' 24"

definition rolling_count :: "int \<Rightarrow> sched_context \<Rightarrow> int" where
  "rolling_count window_hours x =
     int (length (filter (\<lambda>r. sr_job r = sx_job x \<and> sr_status r = ''settled_failure''
       \<and> (case sr_started_at r of None \<Rightarrow> False | Some t \<Rightarrow> sx_now x - seconds (3600 * window_hours) < t)) (sx_runs x)))"

definition rolling_evaluate :: "int \<Rightarrow> int \<Rightarrow> sched_context \<Rightarrow> trigger_result result" where
  "rolling_evaluate threshold window_hours x =
     (let count = rolling_count window_hours x in
      make_trigger_result ROLLING_WINDOW_TRIGGER_KIND (threshold \<le> count)
        (count_details count threshold (PyInt window_hours)) ''Scheduler job intermittent failure''
        (show_int count @ '' failures in the last '' @ show_int window_hours @ ''h (intermittent)''))"

section \<open>The registry\<close>

text \<open>A scheduler trigger is a registration with its \<open>should_reset\<close>.\<close>

record sched_trigger =
  st_registration :: "sched_context registration"
  st_should_reset :: "sched_context \<Rightarrow> reset_event \<Rightarrow> bool result"

definition sched_triggers :: "environ \<Rightarrow> sched_trigger list" where
  "sched_triggers env =
     [\<lparr>st_registration = Stateful CONSECUTIVE_TRIGGER_KIND (consecutive_evaluate (consecutive_threshold env))
         sched_consecutive_transition,
       st_should_reset = (\<lambda>x event. Inr True)\<rparr>,
      \<lparr>st_registration = Stateless STANDING_FAILURE_TRIGGER_KIND (standing_evaluate (standing_threshold env)),
       st_should_reset = (\<lambda>x event. Inr (event = SuccessReset))\<rparr>,
      \<lparr>st_registration = Stateless ROLLING_WINDOW_TRIGGER_KIND (rolling_evaluate (rate_threshold env) (rate_window_hours env)),
       st_should_reset = (\<lambda>x event. if event \<noteq> SuccessReset then Inr False
          else rbind (rolling_evaluate (rate_threshold env) (rate_window_hours env) x) (\<lambda>r. Inr (\<not> tg_active r)))\<rparr>,
      \<lparr>st_registration = Stateful CONFIGURATION_TRIGGER_KIND configuration_evaluate configuration_transition,
       st_should_reset = (\<lambda>x event. Inr (event = SuccessReset))\<rparr>]"

definition scheduler_failure_guard_registry :: "environ \<Rightarrow> sched_trigger list result" where
  "scheduler_failure_guard_registry env =
     rbind (check_registry ''Scheduler'' (map st_registration (sched_triggers env))) (\<lambda>_. Inr (sched_triggers env))"

section \<open>The latches of a job\<close>

text \<open>The row is inserted at the flush, where a second one of the same key is refused.\<close>

definition sched_create_latch :: "int \<Rightarrow> string \<Rightarrow> instant \<Rightarrow> sched_db \<Rightarrow> sched_db result" where
  "sched_create_latch j k at d =
     (if sg_latches d j k = None then Inr (d\<lparr>sg_latches := (sg_latches d)(j := (sg_latches d j)(k \<mapsto> at))\<rparr>)
      else Inl IntegrityError)"

definition sched_delete_latch :: "int \<Rightarrow> string \<Rightarrow> sched_db \<Rightarrow> sched_db" where
  "sched_delete_latch j k d = d\<lparr>sg_latches := (sg_latches d)(j := (sg_latches d j)(k := None))\<rparr>"

interpretation sched_latches: latch_store "\<lambda>d. sg_latches d j" "sched_create_latch j" for j
  by unfold_locales (auto simp: sched_create_latch_def)

section \<open>Operations\<close>

fun reset_latches ::
  "int \<Rightarrow> (string \<Rightarrow> instant option) \<Rightarrow> sched_context \<Rightarrow> reset_event \<Rightarrow> sched_trigger list \<Rightarrow> sched_db \<Rightarrow> sched_db result" where
  "reset_latches j latches x event [] d = Inr d"
| "reset_latches j latches x event (t # ts) d =
     (let k = rg_kind (st_registration t) in
      if latches k = None then reset_latches j latches x event ts d
      else rbind (st_should_reset t x event) (\<lambda>reset.
        reset_latches j latches x event ts (if reset then sched_delete_latch j k d else d)))"

definition set_job_failure :: "int \<Rightarrow> string option \<Rightarrow> string option \<Rightarrow> sched_db \<Rightarrow> sched_db" where
  "set_job_failure j signature last_error d =
     d\<lparr>sg_jobs := (sg_jobs d)(j \<mapsto> \<lparr>sj_signature = signature, sj_last_error = last_error\<rparr>)\<rparr>"

definition transition_job_states ::
  "int \<Rightarrow> sched_trigger list \<Rightarrow> sched_context \<Rightarrow> lifecycle_event \<Rightarrow> sched_db \<Rightarrow> sched_db result" where
  "transition_job_states j ts x event d =
     rbind (transition_failure_guard_trigger_states (map st_registration ts) x event (sg_states d j)) (\<lambda>states.
       Inr (d\<lparr>sg_states := (sg_states d)(j := states)\<rparr>))"

definition job_not_found :: "int \<Rightarrow> py_error" where
  "job_not_found j = ValueError (''Scheduler job '' @ show_int j @ '' not found'')"

text \<open>\<open>async_record_scheduler_job_failure\<close>: lines 843 to 925.\<close>

definition record_scheduler_job_failure ::
  "(string \<Rightarrow> string) \<Rightarrow> environ \<Rightarrow> int \<Rightarrow> string \<Rightarrow> string \<Rightarrow> instant \<Rightarrow> skip_kind option \<Rightarrow> sched_db \<Rightarrow>
   (guard_evaluation \<times> sched_db) result" where
  "record_scheduler_job_failure digest env j identity error_text now failure_kind d =
     rbind (scheduler_failure_guard_registry env) (\<lambda>ts.
     case sg_jobs d j of
       None \<Rightarrow> Inl (job_not_found j)
     | Some job \<Rightarrow>
         rbind (make_failure_record identity error_text) (\<lambda>r.
         let x = \<lparr>sx_runs = sg_runs d, sx_job = j, sx_now = now, sx_record = Some r, sx_failure_kind = failure_kind\<rparr>;
             signature = digest (fr_signature_input r);
             changed = (sj_signature job \<noteq> Some signature);
             d1 = (if changed then set_job_failure j (Some signature) (sj_last_error job) d else d) in
         rbind (transition_job_states j ts x (if changed then NewFailure else RepeatedFailure) d1) (\<lambda>d2.
         rbind (if changed then reset_latches j (sg_latches d2 j) x SignatureChange ts d2 else Inr d2) (\<lambda>d3.
         let d4 = set_job_failure j (Some signature) (Some (fr_error_text r)) d3 in
         rbind (evaluate_failure_guard_triggers (map st_registration ts) x (sg_states d4 j)) (\<lambda>results.
           evaluate_failure_edges (\<lambda>d. sg_latches d j) (sched_create_latch j) EdgeDetect now results
             (Some signature) (Some (fr_error_text r)) d4)))))"

definition latch_scheduler_failure_alerts ::
  "int \<Rightarrow> guard_evaluation \<Rightarrow> instant \<Rightarrow> sched_db \<Rightarrow> (guard_evaluation \<times> sched_db) result" where
  "latch_scheduler_failure_alerts j ev now d = latch_failure_edges (sched_create_latch j) ev now d"

text \<open>\<open>async_reset_scheduler_job_failure_guard\<close>: lines 945 to 995.\<close>

definition reset_scheduler_job_failure_guard :: "environ \<Rightarrow> int \<Rightarrow> instant \<Rightarrow> sched_db \<Rightarrow> sched_db result" where
  "reset_scheduler_job_failure_guard env j now d =
     rbind (scheduler_failure_guard_registry env) (\<lambda>ts.
     if sg_jobs d j = None then Inl (job_not_found j)
     else (let x = \<lparr>sx_runs = sg_runs d, sx_job = j, sx_now = now, sx_record = None, sx_failure_kind = None\<rparr> in
       rbind (reset_latches j (sg_latches d j) x SuccessReset ts d) (\<lambda>d1.
       rbind (transition_job_states j ts x Success d1) (\<lambda>d2.
         Inr (set_job_failure j None None d2)))))"

text \<open>
  \<open>async_read_scheduler_failure_guards\<close> for each of \<open>js\<close>: the stateless triggers of all jobs first, then the
  stateful ones of each, put back into the order of the registry.
\<close>

definition read_context :: "int \<Rightarrow> instant \<Rightarrow> sched_db \<Rightarrow> sched_context" where
  "read_context j now d =
     \<lparr>sx_runs = sg_runs d, sx_job = j, sx_now = now, sx_record = None, sx_failure_kind = None\<rparr>"

definition bulk_stateless :: "sched_trigger list \<Rightarrow> int list \<Rightarrow> instant \<Rightarrow> sched_db \<Rightarrow> (int \<Rightarrow> trigger_result list) result" where
  "bulk_stateless ts js now d =
     rbind (rmap (\<lambda>g. rmap (\<lambda>j. rbind (rg_evaluate g (read_context j now d)) (\<lambda>r. Inr (j, r))) js)
              (filter is_Stateless (map st_registration ts))) (\<lambda>tables.
       Inr (\<lambda>j. concat (map (\<lambda>table. case map_of table j of None \<Rightarrow> [] | Some r \<Rightarrow> [r]) tables)))"

definition in_registry_order :: "sched_trigger list \<Rightarrow> trigger_result list \<Rightarrow> trigger_result list" where
  "in_registry_order ts rs =
     concat (map (\<lambda>t. take 1 (filter (\<lambda>r. tg_kind r = rg_kind (st_registration t)) rs)) ts)"

definition read_scheduler_failure_guards ::
  "environ \<Rightarrow> int list \<Rightarrow> instant \<Rightarrow> sched_db \<Rightarrow> (int \<times> guard_evaluation) list result" where
  "read_scheduler_failure_guards env js now d =
     (if js = [] then Inr [] else
      rbind (scheduler_failure_guard_registry env) (\<lambda>ts.
      rbind (bulk_stateless ts js now d) (\<lambda>stateless.
      rmap (\<lambda>j.
        rbind (evaluate_failure_guard_triggers (filter (\<lambda>g. \<not> is_Stateless g) (map st_registration ts))
                 (read_context j now d) (sg_states d j)) (\<lambda>stateful.
        rbind (evaluate_failure_edges (\<lambda>d. sg_latches d j) (sched_create_latch j) EdgeIgnore now
                 (in_registry_order ts (stateless j @ stateful))
                 (case sg_jobs d j of None \<Rightarrow> None | Some job \<Rightarrow> sj_signature job)
                 (case sg_jobs d j of None \<Rightarrow> None | Some job \<Rightarrow> sj_last_error job) d)
          (\<lambda>(ev, _). Inr (j, ev)))) js)))"

section \<open>The executor's use of the guard\<close>

text \<open>The card of \<open>async_deliver_scheduler_failure_alert\<close>: title and summary.\<close>

definition scheduler_alert_presentation :: "guard_evaluation \<Rightarrow> (string \<times> string) result" where
  "scheduler_alert_presentation ev =
     (case crossed_edges ev of
        [] \<Rightarrow> Inl (ValueError ''scheduler failure alert requires at least one crossed edge'')
      | [e] \<Rightarrow> Inr (fe_title e, fe_summary e)
      | es \<Rightarrow> Inr (''Scheduler job failure guard alert'',
          py_join [CHR 0x0A] (''Triggers crossed:'' # map (\<lambda>e. ''- '' @ fe_kind e @ '': '' @ fe_summary e) es)))"

text \<open>
  \<open>_async_apply_failure_guard\<close>. \<open>delivered\<close> says whether the delivery returned; its exceptions are logged.
  The result carries the run's new summary.
\<close>

definition apply_failure_guard ::
  "(string \<Rightarrow> string) \<Rightarrow> environ \<Rightarrow> bool \<Rightarrow> int \<Rightarrow> string \<Rightarrow> string \<Rightarrow> instant \<Rightarrow> skip_kind option \<Rightarrow> pydict \<Rightarrow> sched_db \<Rightarrow>
   (guard_evaluation \<times> pydict \<times> sched_db) result" where
  "apply_failure_guard digest env delivered j failure_key error_text now failure_kind summary d =
     rbind (record_scheduler_job_failure digest env j (failure_key @ [CHR 0x0A] @ error_text) error_text now failure_kind d)
       (\<lambda>(guard, d1).
     rbind (if crossed_edges guard \<noteq> [] \<and> delivered then latch_scheduler_failure_alerts j guard now d1
            else Inr (guard, d1)) (\<lambda>(guard', d2).
       Inr (guard', dset summary ''failure_guard'' (PyDict (serialize_failure_guard guard')), d2)))"

section \<open>What the triggers return\<close>

definition sched_kinds :: "string list" where
  "sched_kinds = [CONSECUTIVE_TRIGGER_KIND, STANDING_FAILURE_TRIGGER_KIND, ROLLING_WINDOW_TRIGGER_KIND,
     CONFIGURATION_TRIGGER_KIND]"

lemma kinds_distinct [simp]: "distinct sched_kinds"
  by (simp add: sched_kinds_def kind_defs)

lemma sched_registry [simp]: "scheduler_failure_guard_registry env = Inr (sched_triggers env)"
  by (simp add: scheduler_failure_guard_registry_def check_registry_def sched_triggers_def kind_defs)

lemma make_result_ok:
  assumes "k \<in> set sched_kinds"
  shows "make_trigger_result k active (count_details n t w) title summary
    = Inr \<lparr>tg_kind = k, tg_active = active, tg_details = count_details n t w, tg_title = title, tg_summary = summary\<rparr>"
  using assms by (auto simp: make_trigger_result_def count_details_def RESERVED_PUBLIC_DETAIL_KEYS_def sched_kinds_def kind_defs)

text \<open>The activity of each trigger, from the job's history and the persisted states.\<close>

definition trigger_activity :: "environ \<Rightarrow> sched_context \<Rightarrow> trigger_states \<Rightarrow> int \<Rightarrow> string \<Rightarrow> bool" where
  "trigger_activity env x states n k =
     (if k = CONSECUTIVE_TRIGGER_KIND then consecutive_threshold env \<le> n
      else if k = STANDING_FAILURE_TRIGGER_KIND
      then standing_threshold env \<le> int (length (standing_failures (sx_runs x) (sx_job x)))
      else if k = ROLLING_WINDOW_TRIGGER_KIND then rate_threshold env \<le> rolling_count (rate_window_hours env) x
      else py_truthy (case map_of (state_of states CONFIGURATION_TRIGGER_KIND) ''active'' of None \<Rightarrow> PyBool False | Some v \<Rightarrow> v))"

lemma evaluated:
  assumes "sched_count (state_of states CONSECUTIVE_TRIGGER_KIND) = Inr n"
  obtains rs where "evaluate_failure_guard_triggers (map st_registration (sched_triggers env)) x states = Inr rs"
    and "map tg_kind rs = sched_kinds" and "\<And>r. r \<in> set rs \<Longrightarrow> tg_active r = trigger_activity env x states n (tg_kind r)"
proof -
  have k: "CONSECUTIVE_TRIGGER_KIND \<in> set sched_kinds" "STANDING_FAILURE_TRIGGER_KIND \<in> set sched_kinds"
    "ROLLING_WINDOW_TRIGGER_KIND \<in> set sched_kinds" "CONFIGURATION_TRIGGER_KIND \<in> set sched_kinds"
    by (simp_all add: sched_kinds_def)
  have ne: "STANDING_FAILURE_TRIGGER_KIND \<noteq> CONSECUTIVE_TRIGGER_KIND" "ROLLING_WINDOW_TRIGGER_KIND \<noteq> CONSECUTIVE_TRIGGER_KIND"
    "CONFIGURATION_TRIGGER_KIND \<noteq> CONSECUTIVE_TRIGGER_KIND" "ROLLING_WINDOW_TRIGGER_KIND \<noteq> STANDING_FAILURE_TRIGGER_KIND"
    "CONFIGURATION_TRIGGER_KIND \<noteq> STANDING_FAILURE_TRIGGER_KIND" "CONFIGURATION_TRIGGER_KIND \<noteq> ROLLING_WINDOW_TRIGGER_KIND"
    by (simp_all add: kind_defs)
  show ?thesis
    by (rule that) (use assms k ne in \<open>auto simp: sched_triggers_def consecutive_evaluate_def standing_evaluate_def
      rolling_evaluate_def configuration_evaluate_def make_result_ok trigger_activity_def sched_kinds_def Let_def\<close>)
qed

lemma sched_count_singleton [simp]: "sched_count [(''count'', PyInt n)] = Inr n"
  by (simp add: sched_count_def int_or_error_def)

section \<open>The effect of a failure\<close>

definition job_count :: "int \<Rightarrow> sched_db \<Rightarrow> int result" where
  "job_count j d = sched_count (state_of (sg_states d j) CONSECUTIVE_TRIGGER_KIND)"

definition states_after :: "skip_kind option \<Rightarrow> string \<Rightarrow> int \<Rightarrow> trigger_states \<Rightarrow> trigger_states" where
  "states_after failure_kind error_text n states =
     states(CONSECUTIVE_TRIGGER_KIND \<mapsto> [(''count'', PyInt n)],
            CONFIGURATION_TRIGGER_KIND := if failure_kind = Some SkipConfiguration
              then Some [(''active'', PyBool True), (''summary'', PyStr error_text)] else None)"

lemma transition_effect:
  assumes "event \<noteq> Success" and "sched_count (state_of (sg_states d j) CONSECUTIVE_TRIGGER_KIND) = Inr n"
    and "sx_record x = Some r"
  shows "transition_job_states j (sched_triggers env) x event d
    = Inr (d\<lparr>sg_states := (sg_states d)(j := states_after (sx_failure_kind x) (fr_error_text r)
        (if event = NewFailure then 1 else n + 1) (sg_states d j))\<rparr>)"
proof -
  have "CONFIGURATION_TRIGGER_KIND \<noteq> CONSECUTIVE_TRIGGER_KIND" by (simp add: kind_defs)
  then show ?thesis
    using assms by (cases event) (auto simp: transition_job_states_def transition_failure_guard_trigger_states_def sched_triggers_def
      sched_consecutive_transition_def configuration_transition_def states_after_def fun_eq_iff)
qed

lemma signature_reset:
  "reset_latches j (sg_latches d j) x SignatureChange (sched_triggers env) d
   = Inr (sched_delete_latch j CONSECUTIVE_TRIGGER_KIND d)"
  by (cases "sg_latches d j CONSECUTIVE_TRIGGER_KIND")
     (auto simp: sched_triggers_def Let_def sched_delete_latch_def fun_upd_idem)

definition latches_after :: "bool \<Rightarrow> (string \<Rightarrow> instant option) \<Rightarrow> string \<Rightarrow> instant option" where
  "latches_after changed l = (if changed then l(CONSECUTIVE_TRIGGER_KIND := None) else l)"

lemma record_effect:
  assumes job: "sg_jobs d j = Some job" and n: "job_count j d = Inr n" and "py_strip identity \<noteq> []"
    and sig: "sig = digest identity" and changed: "changed = (sj_signature job \<noteq> Some sig)"
    and n': "n' = (if changed then 1 else n + 1)"
  obtains rs ev d' where
    "record_scheduler_job_failure digest env j identity error_text now failure_kind d = Inr (ev, d')"
    and "map tg_kind rs = sched_kinds"
    and "\<And>r. r \<in> set rs \<Longrightarrow> tg_active r = trigger_activity env \<lparr>sx_runs = sg_runs d, sx_job = j, sx_now = now,
        sx_record = Some \<lparr>fr_signature_input = identity, fr_error_text = error_text\<rparr>, sx_failure_kind = failure_kind\<rparr>
        (sg_states d' j) n' (tg_kind r)"
    and "ge_edges ev = map (\<lambda>r. edge_of r (latches_after changed (sg_latches d j) (tg_kind r))
        (tg_active r \<and> latches_after changed (sg_latches d j) (tg_kind r) = None)) rs"
    and "sg_jobs d' j = Some \<lparr>sj_signature = Some sig, sj_last_error = Some error_text\<rparr>"
    and "sg_latches d' j = latches_after changed (sg_latches d j)"
    and "sg_states d' j = states_after failure_kind error_text n' (sg_states d j)" and "sg_runs d' = sg_runs d"
proof -
  define r where "r = \<lparr>fr_signature_input = identity, fr_error_text = error_text\<rparr>"
  define x where "x = \<lparr>sx_runs = sg_runs d, sx_job = j, sx_now = now, sx_record = Some r, sx_failure_kind = failure_kind\<rparr>"
  define d1 where "d1 = (if changed then set_job_failure j (Some sig) (sj_last_error job) d else d)"
  define d2 where "d2 = d1\<lparr>sg_states := (sg_states d)(j := states_after failure_kind error_text n' (sg_states d j))\<rparr>"
  define d3 where "d3 = (if changed then sched_delete_latch j CONSECUTIVE_TRIGGER_KIND d2 else d2)"
  define d4 where "d4 = set_job_failure j (Some sig) (Some error_text) d3"
  have frame: "sg_states d1 = sg_states d" "sg_latches d1 = sg_latches d" "sg_runs d1 = sg_runs d"
    by (simp_all add: d1_def set_job_failure_def)
  have st4: "sg_states d4 j = states_after failure_kind error_text n' (sg_states d j)"
    by (simp add: d4_def d3_def d2_def set_job_failure_def sched_delete_latch_def)
  have la4: "sg_latches d4 j = latches_after changed (sg_latches d j)"
    by (simp add: d4_def d3_def d2_def set_job_failure_def sched_delete_latch_def latches_after_def frame)
  have t: "transition_job_states j (sched_triggers env) x (if changed then NewFailure else RepeatedFailure) d1 = Inr d2"
    using n by (subst transition_effect [where n = n and r = r])
      (auto simp: x_def r_def d2_def frame n' job_count_def)
  have "CONSECUTIVE_TRIGGER_KIND \<noteq> CONFIGURATION_TRIGGER_KIND" by (simp add: kind_defs)
  then have "sched_count (state_of (sg_states d4 j) CONSECUTIVE_TRIGGER_KIND) = Inr n'"
    unfolding st4 by (simp add: states_after_def state_of_def)
  then obtain rs where rs: "evaluate_failure_guard_triggers (map st_registration (sched_triggers env)) x (sg_states d4 j) = Inr rs"
    "map tg_kind rs = sched_kinds" "\<And>r. r \<in> set rs \<Longrightarrow> tg_active r = trigger_activity env x (sg_states d4 j) n' (tg_kind r)"
    using evaluated by blast
  define ev where "ev = \<lparr>ge_signature = Some sig, ge_last_error = Some error_text,
    ge_edges = map (\<lambda>r. edge_of r (sg_latches d4 j (tg_kind r)) (tg_active r \<and> sg_latches d4 j (tg_kind r) = None)) rs\<rparr>"
  have "evaluate_failure_edges (\<lambda>d. sg_latches d j) (sched_create_latch j) EdgeDetect now rs (Some sig) (Some error_text) d4
      = Inr (ev, d4)"
    using rs(2) by (simp add: evaluate_failure_edges_def sched_latches.detect_edges ev_def)
  then have "record_scheduler_job_failure digest env j identity error_text now failure_kind d = Inr (ev, d4)"
    using job assms(3) t rs(1) sig changed
    by (cases "sj_signature job = Some (digest identity)")
      (simp_all add: record_scheduler_job_failure_def make_failure_record_def Let_def x_def [symmetric] r_def [symmetric]
        signature_reset d1_def d3_def d4_def, simp_all add: r_def)
  then show ?thesis
    using rs(2,3) st4 la4 by (intro that [of ev d4 rs])
      (simp_all add: ev_def x_def r_def, simp_all add: d4_def d3_def d2_def set_job_failure_def sched_delete_latch_def frame)
qed

section \<open>The effect of the executor's step\<close>

definition crossed_kinds :: "guard_evaluation \<Rightarrow> string set" where
  "crossed_kinds ev = set (map fe_kind (crossed_edges ev))"

lemma crossed_kinds_map:
  assumes "ge_edges ev = map (\<lambda>r. edge_of r (f r) (P r)) rs"
  shows "crossed_kinds ev = tg_kind ` {r \<in> set rs. P r}"
  by (simp add: crossed_kinds_def crossed_edges_def assms filter_map comp_def edge_of_def image_image)

lemma latched_nothing: "\<forall>r \<in> set rs. \<not> (tg_active r \<and> l (tg_kind r) = None) \<Longrightarrow> latched now l rs = l"
  by (auto simp: latched_def fun_eq_iff)

lemma sched_create_frame:
  "sched_create_latch j k t a = Inr b \<Longrightarrow> sg_jobs b = sg_jobs a \<and> sg_states b = sg_states a"
  by (auto simp: sched_create_latch_def split: if_splits)

lemma latch_loop_frame:
  "latch_edges_loop (sched_create_latch j) t es a = Inr (es', b) \<Longrightarrow> sg_jobs b = sg_jobs a \<and> sg_states b = sg_states a"
  by (induction es arbitrary: a es' b) (auto simp: rbind_Inr_iff dest: sched_create_frame split: if_splits)

lemma apply_effect:
  assumes job: "sg_jobs d j = Some job" and n: "job_count j d = Inr n"
    and identity: "identity = failure_key @ [CHR 0x0A] @ error_text" "py_strip identity \<noteq> []"
    and sig: "sig = digest identity"
    and l: "l = latches_after (sj_signature job \<noteq> Some sig) (sg_latches d j)"
  obtains rs ev d' where
    "apply_failure_guard digest env delivered j failure_key error_text now failure_kind summary d
       = Inr (ev, dset summary ''failure_guard'' (PyDict (serialize_failure_guard ev)), d')"
    and "map tg_kind rs = sched_kinds"
    and "crossed_kinds ev = tg_kind ` {r \<in> set rs. tg_active r \<and> l (tg_kind r) = None}"
    and "sg_latches d' j = (if delivered then latched now l rs else l)"
    and "sg_jobs d' j = Some \<lparr>sj_signature = Some sig, sj_last_error = Some error_text\<rparr>"
    and "job_count j d' = Inr (if sj_signature job \<noteq> Some sig then 1 else n + 1)"
proof -
  define n' where "n' = (if sj_signature job \<noteq> Some sig then 1 else n + 1)"
  obtain rs ev d1 where d1:
    "record_scheduler_job_failure digest env j identity error_text now failure_kind d = Inr (ev, d1)"
    "map tg_kind rs = sched_kinds"
    "ge_edges ev = map (\<lambda>r. edge_of r (l (tg_kind r)) (tg_active r \<and> l (tg_kind r) = None)) rs"
    "sg_jobs d1 j = Some \<lparr>sj_signature = Some sig, sj_last_error = Some error_text\<rparr>"
    "sg_latches d1 j = l" "sg_states d1 j = states_after failure_kind error_text n' (sg_states d j)"
    using record_effect [of d j job n identity sig digest _ n' env error_text now failure_kind, OF job n identity(2) sig refl n'_def]
    unfolding l [symmetric] by blast
  have crossed: "crossed_kinds ev = tg_kind ` {r \<in> set rs. tg_active r \<and> l (tg_kind r) = None}"
    using d1(3) by (rule crossed_kinds_map)
  have "CONSECUTIVE_TRIGGER_KIND \<noteq> CONFIGURATION_TRIGGER_KIND" by (simp add: kind_defs)
  then have count: "job_count j d1 = Inr n'" by (simp add: job_count_def d1(6) states_after_def state_of_def)
  show ?thesis
  proof (cases "crossed_edges ev \<noteq> [] \<and> delivered")
    case True
    have "distinct (map tg_kind rs)" by (simp add: d1(2))
    from sched_latches.latch_detected [OF this d1(5), where at = now] obtain d2 where d2:
      "latch_edges_loop (sched_create_latch j) now (ge_edges ev) d1
         = Inr (map (\<lambda>r. edge_of r (latched now l rs (tg_kind r)) (tg_active r \<and> l (tg_kind r) = None)) rs, d2)"
      "sg_latches d2 j = latched now l rs" unfolding d1(3) by blast
    define ev' where "ev' = ev\<lparr>ge_edges := map (\<lambda>r. edge_of r (latched now l rs (tg_kind r)) (tg_active r \<and> l (tg_kind r) = None)) rs\<rparr>"
    have frame: "sg_jobs d2 = sg_jobs d1 \<and> sg_states d2 = sg_states d1" using d2(1) by (rule latch_loop_frame)
    have "apply_failure_guard digest env delivered j failure_key error_text now failure_kind summary d
        = Inr (ev', dset summary ''failure_guard'' (PyDict (serialize_failure_guard ev')), d2)"
      using True d1(1) d2(1) by (simp add: apply_failure_guard_def latch_scheduler_failure_alerts_def
        latch_failure_edges_def identity(1) ev'_def)
    moreover have "crossed_kinds ev' = tg_kind ` {r \<in> set rs. tg_active r \<and> l (tg_kind r) = None}"
      by (rule crossed_kinds_map [where f = "\<lambda>r. latched now l rs (tg_kind r)"]) (simp add: ev'_def)
    moreover have "job_count j d2 = Inr n'" using count frame by (simp add: job_count_def)
    ultimately show ?thesis
      using that [of ev' d2 rs] True d1(2,4) d2(2) frame by (simp add: n'_def)
  next
    case False
    have "apply_failure_guard digest env delivered j failure_key error_text now failure_kind summary d
        = Inr (ev, dset summary ''failure_guard'' (PyDict (serialize_failure_guard ev)), d1)"
      using False d1(1) by (auto simp: apply_failure_guard_def identity(1))
    moreover have "sg_latches d1 j = (if delivered then latched now l rs else l)"
    proof (cases delivered)
      case True
      then have "crossed_kinds ev = {}" using False by (simp add: crossed_kinds_def)
      then have "latched now l rs = l" unfolding crossed by (intro latched_nothing) auto
      then show ?thesis using d1(5) by simp
    qed (simp add: d1(5))
    ultimately show ?thesis using that [of ev d1 rs] d1(2,4) crossed count by (simp add: n'_def)
  qed
qed

section \<open>The effect of a success\<close>

lemma reset_latches_total:
  assumes "\<And>t. t \<in> set ts \<Longrightarrow> st_should_reset t x event = Inr (P (rg_kind (st_registration t)))"
    and "\<And>k. latches k = None \<Longrightarrow> sg_latches d j k = None"
  shows "\<exists>d'. reset_latches j latches x event ts d = Inr d' \<and> sg_states d' = sg_states d \<and> sg_jobs d' = sg_jobs d
    \<and> (\<forall>k. sg_latches d' j k = (if k \<in> (rg_kind \<circ> st_registration) ` set ts \<and> P k then None else sg_latches d j k))"
  using assms
proof (induction ts arbitrary: d)
  case (Cons t ts)
  let ?k = "rg_kind (st_registration t)"
  define d1 where "d1 = (if latches ?k \<noteq> None \<and> P ?k then sched_delete_latch j ?k d else d)"
  have "\<exists>d'. reset_latches j latches x event ts d1 = Inr d' \<and> sg_states d' = sg_states d1 \<and> sg_jobs d' = sg_jobs d1
    \<and> (\<forall>k. sg_latches d' j k = (if k \<in> (rg_kind \<circ> st_registration) ` set ts \<and> P k then None else sg_latches d1 j k))"
    using Cons.prems by (intro Cons.IH) (auto simp: d1_def sched_delete_latch_def)
  moreover have "reset_latches j latches x event (t # ts) d = reset_latches j latches x event ts d1"
    using Cons.prems(1) [of t] by (simp add: Let_def d1_def)
  moreover have "sg_latches d1 j k = (if k = ?k \<and> P k then None else sg_latches d j k)" for k
    using Cons.prems(2) by (auto simp: d1_def sched_delete_latch_def)
  moreover have "sg_states d1 = sg_states d" "sg_jobs d1 = sg_jobs d" by (simp_all add: d1_def sched_delete_latch_def)
  ultimately show ?case by auto
qed simp

lemma success_transition:
  "transition_job_states j (sched_triggers env) x Success d
   = Inr (d\<lparr>sg_states := (sg_states d)(j := (sg_states d j)(CONSECUTIVE_TRIGGER_KIND := None, CONFIGURATION_TRIGGER_KIND := None))\<rparr>)"
  by (simp add: transition_job_states_def transition_failure_guard_trigger_states_def sched_triggers_def
    sched_consecutive_transition_def configuration_transition_def)

section \<open>The bulk reader\<close>

lemma rmap_Inr: "(\<And>x. x \<in> set xs \<Longrightarrow> f x = Inr (g x)) \<Longrightarrow> rmap f xs = Inr (map g xs)"
  by (induction xs) simp_all

lemma rmap_cong: "(\<And>x. x \<in> set xs \<Longrightarrow> f x = g x) \<Longrightarrow> rmap f xs = rmap g xs"
  by (induction xs) simp_all

lemma stateless_results:
  obtains S R where "\<And>j. standing_evaluate (standing_threshold env) (read_context j now d) = Inr (S j)"
    and "\<And>j. tg_kind (S j) = STANDING_FAILURE_TRIGGER_KIND"
    and "\<And>j. rolling_evaluate (rate_threshold env) (rate_window_hours env) (read_context j now d) = Inr (R j)"
    and "\<And>j. tg_kind (R j) = ROLLING_WINDOW_TRIGGER_KIND"
proof -
  have "STANDING_FAILURE_TRIGGER_KIND \<in> set sched_kinds" "ROLLING_WINDOW_TRIGGER_KIND \<in> set sched_kinds"
    by (simp_all add: sched_kinds_def)
  then have "\<forall>j. \<exists>r. standing_evaluate (standing_threshold env) (read_context j now d) = Inr r \<and> tg_kind r = STANDING_FAILURE_TRIGGER_KIND"
    "\<forall>j. \<exists>r. rolling_evaluate (rate_threshold env) (rate_window_hours env) (read_context j now d) = Inr r \<and> tg_kind r = ROLLING_WINDOW_TRIGGER_KIND"
    by (simp_all add: standing_evaluate_def rolling_evaluate_def make_result_ok Let_def)
  then show ?thesis using that by metis
qed

lemma stateful_results:
  assumes "job_count j d = Inr n"
  obtains C F where "consecutive_evaluate (consecutive_threshold env) x (state_of (sg_states d j) CONSECUTIVE_TRIGGER_KIND) = Inr C"
    and "tg_kind C = CONSECUTIVE_TRIGGER_KIND"
    and "configuration_evaluate x (state_of (sg_states d j) CONFIGURATION_TRIGGER_KIND) = Inr F"
    and "tg_kind F = CONFIGURATION_TRIGGER_KIND"
proof -
  have "CONSECUTIVE_TRIGGER_KIND \<in> set sched_kinds" "CONFIGURATION_TRIGGER_KIND \<in> set sched_kinds"
    by (simp_all add: sched_kinds_def)
  then show ?thesis
    using assms that by (simp add: consecutive_evaluate_def configuration_evaluate_def make_result_ok Let_def job_count_def)
qed

lemma registry_order:
  assumes "tg_kind C = CONSECUTIVE_TRIGGER_KIND" "tg_kind S = STANDING_FAILURE_TRIGGER_KIND"
    "tg_kind R = ROLLING_WINDOW_TRIGGER_KIND" "tg_kind F = CONFIGURATION_TRIGGER_KIND"
  shows "in_registry_order (sched_triggers env) ([S, R] @ [C, F]) = [C, S, R, F]"
  using assms by (simp add: in_registry_order_def sched_triggers_def kind_defs)

lemma stateless_of:
  assumes "\<And>j. standing_evaluate (standing_threshold env) (read_context j now d) = Inr (S j)"
    and "\<And>j. rolling_evaluate (rate_threshold env) (rate_window_hours env) (read_context j now d) = Inr (R j)"
  shows "\<exists>f. bulk_stateless (sched_triggers env) js now d = Inr f \<and> (\<forall>j \<in> set js. f j = [S j, R j])"
  by (simp add: bulk_stateless_def sched_triggers_def assms rmap_Inr [where g = "\<lambda>j. (j, S j)"]
    rmap_Inr [where g = "\<lambda>j. (j, R j)"] map_of_map_restrict)

section \<open>Examples\<close>

definition ex_sched_digest :: "string \<Rightarrow> string" where "ex_sched_digest s = s"

definition ex_failed_run :: "instant \<Rightarrow> sched_run" where
  "ex_failed_run t = \<lparr>sr_job = 7, sr_status = ''settled_failure'', sr_started_at = Some t, sr_created_at = t\<rparr>"

definition ex_sched_db :: sched_db where
  "ex_sched_db = \<lparr>sg_jobs = (\<lambda>_. None)(7 \<mapsto> \<lparr>sj_signature = None, sj_last_error = None\<rparr>),
     sg_runs = [ex_failed_run 10, ex_failed_run 20, ex_failed_run 30], sg_latches = (\<lambda>_ _. None), sg_states = (\<lambda>_ _. None)\<rparr>"

definition ex_sched_env :: environ where "ex_sched_env = (\<lambda>_. None)"

lemma ex_sched_facts:
  "sg_jobs ex_sched_db 7 = Some \<lparr>sj_signature = None, sj_last_error = None\<rparr>" "job_count 7 ex_sched_db = Inr 0"
  "sg_latches ex_sched_db 7 = (\<lambda>_. None)"
  by (simp_all add: ex_sched_db_def job_count_def state_of_def sched_count_def)

lemma ex_identity: "py_strip (''step'' @ [CHR 0x0A] @ ''boom'') \<noteq> []"
  by (simp add: py_strip_def py_space_def)

section \<open>Properties\<close>

text \<open>
  An alert that was delivered is not raised again by the next failure of the same identity, whatever runs
  were recorded in between and however its own delivery ends.
\<close>
theorem delivered_alert_not_repeated:
  assumes "sg_jobs d j = Some job" and "job_count j d = Inr n"
    and "py_strip (key @ [CHR 0x0A] @ err) \<noteq> []" and "py_strip (key' @ [CHR 0x0A] @ err') \<noteq> []"
    and "digest (key' @ [CHR 0x0A] @ err') = digest (key @ [CHR 0x0A] @ err)"
    and "apply_failure_guard digest env True j key err now kind summary d = Inr (g, summary', d1)"
    and "apply_failure_guard digest env delivered j key' err' now' kind' s1 (d1\<lparr>sg_runs := runs\<rparr>) = Inr (g', s2, d2)"
  shows "crossed_kinds g \<inter> crossed_kinds g' = {}"
proof -
  define l where "l = latches_after (sj_signature job \<noteq> Some (digest (key @ [CHR 0x0A] @ err))) (sg_latches d j)"
  obtain rs ev d' where a: "apply_failure_guard digest env True j key err now kind summary d
        = Inr (ev, dset summary ''failure_guard'' (PyDict (serialize_failure_guard ev)), d')"
      "crossed_kinds ev = tg_kind ` {r \<in> set rs. tg_active r \<and> l (tg_kind r) = None}"
      "sg_latches d' j = (if True then latched now l rs else l)"
      "sg_jobs d' j = Some \<lparr>sj_signature = Some (digest (key @ [CHR 0x0A] @ err)), sj_last_error = Some err\<rparr>"
      "job_count j d' = Inr (if sj_signature job \<noteq> Some (digest (key @ [CHR 0x0A] @ err)) then 1 else n + 1)"
    by (rule apply_effect [of d j job n _ key err _ digest l env True now kind summary,
        OF assms(1,2) refl assms(3) refl l_def])
  have eqs: "ev = g" "d' = d1" using assms(6) a(1) by simp_all
  define d1' where "d1' = d1\<lparr>sg_runs := runs\<rparr>"
  define m where "m = (if sj_signature job \<noteq> Some (digest (key @ [CHR 0x0A] @ err)) then 1 else n + 1)"
  have d1': "sg_jobs d1' j = Some \<lparr>sj_signature = Some (digest (key @ [CHR 0x0A] @ err)), sj_last_error = Some err\<rparr>"
    "job_count j d1' = Inr m" "sg_latches d1' j = latched now l rs"
    using a(3-5) eqs by (simp_all add: d1'_def job_count_def m_def)
  have keep: "latched now l rs = latches_after (sj_signature \<lparr>sj_signature = Some (digest (key @ [CHR 0x0A] @ err)), sj_last_error = Some err\<rparr>
      \<noteq> Some (digest (key' @ [CHR 0x0A] @ err'))) (sg_latches d1' j)"
    using assms(5) d1'(3) by (simp add: latches_after_def)
  obtain rs' :: "trigger_result list" and ev' d'' where b: "apply_failure_guard digest env delivered j key' err' now' kind' s1 d1'
        = Inr (ev', dset s1 ''failure_guard'' (PyDict (serialize_failure_guard ev')), d'')"
      "crossed_kinds ev' = tg_kind ` {r \<in> set rs'. tg_active r \<and> latched now l rs (tg_kind r) = None}"
    by (rule apply_effect [of d1' j _ m _ key' err' _ digest "latched now l rs" env delivered now' kind' s1,
        OF d1'(1,2) refl assms(4) refl keep]) (rule that)
  have rs': "crossed_kinds g' = tg_kind ` {r \<in> set rs'. tg_active r \<and> latched now l rs (tg_kind r) = None}"
    using assms(7) b by (simp add: d1'_def)
  have rs: "crossed_kinds g = tg_kind ` {r \<in> set rs. tg_active r \<and> l (tg_kind r) = None}" using a(2) eqs by simp
  have "latched now l rs k \<noteq> None" if "k \<in> crossed_kinds g" for k
    using that rs by (auto simp: latched_def)
  then show ?thesis using rs' by fastforce
qed

lemma delivered_alert_not_repeated_witness:
  "\<exists>g s1 d1 g' s2 d2. apply_failure_guard ex_sched_digest ex_sched_env True 7 ''step'' ''boom'' 30 None [] ex_sched_db = Inr (g, s1, d1)
     \<and> apply_failure_guard ex_sched_digest ex_sched_env True 7 ''step'' ''boom'' 40 None [] (d1\<lparr>sg_runs := [ex_failed_run 40]\<rparr>) = Inr (g', s2, d2)
     \<and> crossed_kinds g \<inter> crossed_kinds g' = {}"
proof -
  obtain g s1 d1 where 1: "apply_failure_guard ex_sched_digest ex_sched_env True 7 ''step'' ''boom'' 30 None [] ex_sched_db = Inr (g, s1, d1)"
      "sg_jobs d1 7 = Some \<lparr>sj_signature = Some (ex_sched_digest (''step'' @ [CHR 0x0A] @ ''boom'')), sj_last_error = Some ''boom''\<rparr>"
      "job_count 7 d1 = Inr 1"
    by (rule apply_effect [OF ex_sched_facts(1,2) refl ex_identity refl refl, of ex_sched_digest ex_sched_env True 30 None "[]"])
       (rule that, assumption+, simp)
  have "sg_jobs (d1\<lparr>sg_runs := [ex_failed_run 40]\<rparr>) 7
      = Some \<lparr>sj_signature = Some (ex_sched_digest (''step'' @ [CHR 0x0A] @ ''boom'')), sj_last_error = Some ''boom''\<rparr>"
    "job_count 7 (d1\<lparr>sg_runs := [ex_failed_run 40]\<rparr>) = Inr 1" using 1 by (simp_all add: job_count_def)
  then obtain g' s2 d2 where 2: "apply_failure_guard ex_sched_digest ex_sched_env True 7 ''step'' ''boom'' 40 None []
      (d1\<lparr>sg_runs := [ex_failed_run 40]\<rparr>) = Inr (g', s2, d2)"
    by (rule apply_effect [OF _ _ refl ex_identity refl refl, of _ 7 _ 1 ex_sched_digest ex_sched_env True 40 None "[]"]) (rule that)
  show ?thesis
    using 1(1) 2 delivered_alert_not_repeated [OF ex_sched_facts(1,2) ex_identity ex_identity refl 1(1) 2] by blast
qed

text \<open>
  A failure of a new identity restarts the count and re-arms the consecutive alert only; a repeated one
  adds to the count and re-arms nothing. Recording alone latches nothing.
\<close>
theorem recording_moves_streak:
  assumes "sg_jobs d j = Some job" and "job_count j d = Inr n" and "py_strip identity \<noteq> []"
  shows "\<exists>ev d'. record_scheduler_job_failure digest env j identity err now kind d = Inr (ev, d')
    \<and> sg_jobs d' j = Some \<lparr>sj_signature = Some (digest identity), sj_last_error = Some err\<rparr>
    \<and> job_count j d' = Inr (if sj_signature job = Some (digest identity) then n + 1 else 1)
    \<and> sg_latches d' j = (if sj_signature job = Some (digest identity) then sg_latches d j
                        else (sg_latches d j)(CONSECUTIVE_TRIGGER_KIND := None))"
proof -
  have "CONSECUTIVE_TRIGGER_KIND \<noteq> CONFIGURATION_TRIGGER_KIND" by (simp add: kind_defs)
  then have count: "sg_states d' j = states_after kind err m (sg_states d j) \<Longrightarrow> job_count j d' = Inr m" for d' m
    by (simp add: job_count_def states_after_def state_of_def)
  show ?thesis
    by (rule record_effect [of d j job n identity _ digest, OF assms refl refl refl, where env = env and now = now and
        error_text = err and failure_kind = kind]) (auto simp: latches_after_def dest: count)
qed

lemma recording_moves_streak_witness:
  "\<exists>ev d'. record_scheduler_job_failure ex_sched_digest ex_sched_env 7 (''step'' @ [CHR 0x0A] @ ''boom'') ''boom'' 30 None ex_sched_db = Inr (ev, d')
     \<and> job_count 7 d' = Inr 1"
  using recording_moves_streak [OF ex_sched_facts(1,2) ex_identity, of ex_sched_digest ex_sched_env "''boom''" 30 None] by auto

text \<open>
  A success clears the streak, its states and every latch of the four triggers, except that the latch of
  the rolling window stays while its window still holds too many failures.
\<close>
theorem success_clears:
  assumes "sg_jobs d j \<noteq> None"
  shows "\<exists>d'. reset_scheduler_job_failure_guard env j now d = Inr d'
    \<and> sg_jobs d' j = Some \<lparr>sj_signature = None, sj_last_error = None\<rparr> \<and> job_count j d' = Inr 0
    \<and> (\<forall>k. sg_latches d' j k =
         (if k \<in> set sched_kinds \<and> \<not> (k = ROLLING_WINDOW_TRIGGER_KIND
              \<and> rate_threshold env \<le> rolling_count (rate_window_hours env) (read_context j now d))
          then None else sg_latches d j k))"
proof -
  define P where "P k = (\<not> (k = ROLLING_WINDOW_TRIGGER_KIND
      \<and> rate_threshold env \<le> rolling_count (rate_window_hours env) (read_context j now d)))" for k
  have kinds: "(rg_kind \<circ> st_registration) ` set (sched_triggers env) = set sched_kinds"
    by (simp add: sched_triggers_def sched_kinds_def)
  have rolling: "ROLLING_WINDOW_TRIGGER_KIND \<in> set sched_kinds" by (simp add: sched_kinds_def)
  have "st_should_reset t (read_context j now d) SuccessReset = Inr (P (rg_kind (st_registration t)))"
    if "t \<in> set (sched_triggers env)" for t
    using that rolling by (auto simp: sched_triggers_def P_def rolling_evaluate_def make_result_ok Let_def kind_defs)
  then obtain d1 where d1: "reset_latches j (sg_latches d j) (read_context j now d) SuccessReset (sched_triggers env) d = Inr d1"
    "\<And>k. sg_latches d1 j k = (if k \<in> set sched_kinds \<and> P k then None else sg_latches d j k)"
    using reset_latches_total [of "sched_triggers env" "read_context j now d" SuccessReset P "sg_latches d j" d j]
    unfolding kinds by blast
  show ?thesis
    using assms d1(1) by (intro exI conjI allI, simp add: reset_scheduler_job_failure_guard_def success_transition
        read_context_def [symmetric])
      (simp_all add: set_job_failure_def job_count_def state_of_def sched_count_def d1(2) P_def)
qed

lemma success_clears_witness:
  "\<exists>d'. reset_scheduler_job_failure_guard ex_sched_env 7 30 ex_sched_db = Inr d' \<and> job_count 7 d' = Inr 0"
  using success_clears [of ex_sched_db 7 ex_sched_env 30] by (auto simp: ex_sched_facts)

text \<open>
  The bulk reader returns for each job what evaluating its triggers one by one, in the order of the
  registry, returns: the projection of all jobs agrees with the reading of one.
\<close>
theorem bulk_read_agrees:
  assumes "\<forall>j \<in> set js. \<exists>n. job_count j d = Inr n"
  shows "read_scheduler_failure_guards env js now d = rmap (\<lambda>j.
    rbind (evaluate_failure_guard_triggers (map st_registration (sched_triggers env)) (read_context j now d) (sg_states d j)) (\<lambda>rs.
    rbind (evaluate_failure_edges (\<lambda>d. sg_latches d j) (sched_create_latch j) EdgeIgnore now rs
             (case sg_jobs d j of None \<Rightarrow> None | Some job \<Rightarrow> sj_signature job)
             (case sg_jobs d j of None \<Rightarrow> None | Some job \<Rightarrow> sj_last_error job) d) (\<lambda>(ev, _). Inr (j, ev)))) js"
proof (cases "js = []")
  case False
  obtain S R where sr: "\<And>j. standing_evaluate (standing_threshold env) (read_context j now d) = Inr (S j)"
    "\<And>j. tg_kind (S j) = STANDING_FAILURE_TRIGGER_KIND"
    "\<And>j. rolling_evaluate (rate_threshold env) (rate_window_hours env) (read_context j now d) = Inr (R j)"
    "\<And>j. tg_kind (R j) = ROLLING_WINDOW_TRIGGER_KIND"
    by (rule stateless_results [of env now d]) (rule that)
  obtain f where f: "bulk_stateless (sched_triggers env) js now d = Inr f" "\<forall>j \<in> set js. f j = [S j, R j]"
    using stateless_of [OF sr(1,3)] by blast
  show ?thesis
    unfolding read_scheduler_failure_guards_def sched_registry rbind_simps f(1) if_not_P [OF False]
  proof (rule rmap_cong)
    fix j assume j: "j \<in> set js"
    then obtain n where "job_count j d = Inr n" using assms by blast
    then obtain C F where cf:
      "consecutive_evaluate (consecutive_threshold env) (read_context j now d) (state_of (sg_states d j) CONSECUTIVE_TRIGGER_KIND) = Inr C"
      "tg_kind C = CONSECUTIVE_TRIGGER_KIND"
      "configuration_evaluate (read_context j now d) (state_of (sg_states d j) CONFIGURATION_TRIGGER_KIND) = Inr F"
      "tg_kind F = CONFIGURATION_TRIGGER_KIND"
      by (rule stateful_results) (rule that)
    have "evaluate_failure_guard_triggers (filter (\<lambda>g. \<not> is_Stateless g) (map st_registration (sched_triggers env)))
        (read_context j now d) (sg_states d j) = Inr [C, F]"
      by (simp add: sched_triggers_def cf)
    moreover have "evaluate_failure_guard_triggers (map st_registration (sched_triggers env)) (read_context j now d) (sg_states d j)
        = Inr [C, S j, R j, F]"
      by (simp add: sched_triggers_def cf sr)
    moreover have "in_registry_order (sched_triggers env) (f j @ [C, F]) = [C, S j, R j, F]"
      using registry_order [OF cf(2) sr(2,4) cf(4)] f(2) j by simp
    ultimately show "rbind (evaluate_failure_guard_triggers (filter (\<lambda>g. \<not> is_Stateless g) (map st_registration (sched_triggers env)))
          (read_context j now d) (sg_states d j)) (\<lambda>stateful.
        rbind (evaluate_failure_edges (\<lambda>d. sg_latches d j) (sched_create_latch j) EdgeIgnore now
          (in_registry_order (sched_triggers env) (f j @ stateful))
          (case sg_jobs d j of None \<Rightarrow> None | Some job \<Rightarrow> sj_signature job)
          (case sg_jobs d j of None \<Rightarrow> None | Some job \<Rightarrow> sj_last_error job) d) (\<lambda>(ev, _). Inr (j, ev)))
      = rbind (evaluate_failure_guard_triggers (map st_registration (sched_triggers env)) (read_context j now d) (sg_states d j)) (\<lambda>rs.
        rbind (evaluate_failure_edges (\<lambda>d. sg_latches d j) (sched_create_latch j) EdgeIgnore now rs
          (case sg_jobs d j of None \<Rightarrow> None | Some job \<Rightarrow> sj_signature job)
          (case sg_jobs d j of None \<Rightarrow> None | Some job \<Rightarrow> sj_last_error job) d) (\<lambda>(ev, _). Inr (j, ev)))"
      by simp
  qed
qed (simp add: read_scheduler_failure_guards_def)

lemma bulk_read_agrees_witness:
  "\<exists>ev. read_scheduler_failure_guards ex_sched_env [7] 30 ex_sched_db = Inr [(7, ev)]"
proof -
  have c: "\<forall>j \<in> set [7]. \<exists>n. job_count j ex_sched_db = Inr n" by (simp add: ex_sched_facts)
  obtain rs where rs: "evaluate_failure_guard_triggers (map st_registration (sched_triggers ex_sched_env))
      (read_context 7 30 ex_sched_db) (sg_states ex_sched_db 7) = Inr rs" "map tg_kind rs = sched_kinds"
    using evaluated ex_sched_facts(2) unfolding job_count_def by metis
  show ?thesis
    unfolding bulk_read_agrees [OF c] by (simp add: rs evaluate_failure_edges_def sched_latches.ignore_edges)
qed

end
