(* ===== verification/Scheduler_Contracts.thy ===== *)
theory Scheduler_Contracts
  imports Py_Time
begin

text \<open>
  The rows of the scheduler (\<open>platform/db/models/scheduler.py\<close>), the pure helpers of
  \<open>app/scheduler/runtime.py\<close> and the recurring task contracts of \<open>app/scheduler/contracts.py\<close>: how a
  contract is assembled from a job and a payload, what makes it valid, and when a job may run again.
\<close>

section \<open>Rows\<close>

record scheduler_job =
  jb_id :: int
  jb_key :: string
  jb_family :: string
  jb_program_key :: string
  jb_handler_ref :: string
  jb_cron_expr :: string
  jb_timezone :: string
  jb_enabled :: bool
  jb_owner_mode :: string
  jb_priority :: int
  jb_max_concurrency :: int
  jb_timeout_seconds :: "int option"
  jb_retry_policy :: pydict
  jb_misfire_policy :: string
  jb_load_shed_policy :: pydict
  jb_default_payload :: pydict
  jb_task_contract :: pydict
  jb_next_run_at :: "instant option"
  jb_pause_reason :: "string option"
  jb_last_started_at :: "instant option"
  jb_last_finished_at :: "instant option"

record scheduler_run =
  rn_id :: int
  rn_job :: int
  rn_scheduled_for :: instant
  rn_window_start :: instant
  rn_window_end :: instant
  rn_status :: string
  rn_attempt :: int
  rn_key :: string
  rn_payload :: pydict
  rn_result :: "pydict option"
  rn_error :: "string option"
  rn_contract :: "pydict option"
  rn_lease :: "int option"
  rn_agent_run :: "int option"
  rn_trace :: "string option"
  rn_parent :: "int option"
  rn_started_at :: "instant option"
  rn_finished_at :: "instant option"

record scheduler_lease =
  le_id :: int
  le_run :: int
  le_owner :: string
  le_host :: string
  le_pid :: int
  le_acquired_at :: instant
  le_heartbeat_at :: instant
  le_expires_at :: instant
  le_released_at :: "instant option"
  le_release_reason :: "string option"

section \<open>Statuses and identifiers\<close>

definition RUN_STATUS_RECORDED :: string where "RUN_STATUS_RECORDED = ''recorded''"
definition RUN_STATUS_SHELVED :: string where "RUN_STATUS_SHELVED = ''shelved''"
definition RUN_STATUS_PAUSED :: string where "RUN_STATUS_PAUSED = ''paused''"
definition RUN_STATUS_CLAIMED :: string where "RUN_STATUS_CLAIMED = ''claimed''"
definition RUN_STATUS_SETTLED_SUCCESS :: string where "RUN_STATUS_SETTLED_SUCCESS = ''settled_success''"
definition RUN_STATUS_SETTLED_FAILURE :: string where "RUN_STATUS_SETTLED_FAILURE = ''settled_failure''"
definition RUN_STATUS_RETRYABLE :: string where "RUN_STATUS_RETRYABLE = ''retryable''"
definition RUN_STATUS_EXPIRED :: string where "RUN_STATUS_EXPIRED = ''expired''"

lemmas run_status_defs = RUN_STATUS_RECORDED_def RUN_STATUS_SHELVED_def RUN_STATUS_PAUSED_def RUN_STATUS_CLAIMED_def
  RUN_STATUS_SETTLED_SUCCESS_def RUN_STATUS_SETTLED_FAILURE_def RUN_STATUS_RETRYABLE_def RUN_STATUS_EXPIRED_def

definition sched_trace_id_for_run_id :: "int \<Rightarrow> string" where
  "sched_trace_id_for_run_id i = ''run:'' @ show_int i"

definition trace_id_for_scheduler_run_id :: "int \<Rightarrow> string" where
  "trace_id_for_scheduler_run_id i = ''scheduler-run:'' @ show_int i"

definition slug_char :: "char \<Rightarrow> bool" where
  "slug_char c = (let n = (of_char c :: nat) in (97 \<le> n \<and> n \<le> 122) \<or> (48 \<le> n \<and> n \<le> 57))"

text \<open>\<open>re.sub(r"[^a-z0-9]+", "_", s)\<close>; \<open>gap\<close> says that the underscore of the current run is written.\<close>

fun slug_runs :: "bool \<Rightarrow> string \<Rightarrow> string" where
  "slug_runs gap [] = []"
| "slug_runs gap (c # cs) =
     (if slug_char c then c # slug_runs False cs
      else if gap then slug_runs True cs else CHR ''_'' # slug_runs True cs)"

definition slugify :: "string \<Rightarrow> string" where
  "slugify value =
     (let s = slug_runs False (py_lower value); is_us = (\<lambda>c. c = CHR ''_'') in
      rev (dropWhile is_us (rev (dropWhile is_us s))))"

definition normalize_run_status :: "string option \<Rightarrow> string" where
  "normalize_run_status status =
     (let s = (case status of None \<Rightarrow> RUN_STATUS_RECORDED | Some t \<Rightarrow> if t = [] then RUN_STATUS_RECORDED else t);
          n = py_lower (py_strip s) in
      if n = ''shed'' then RUN_STATUS_SHELVED else n)"

definition OWNER_MODES :: "string list" where "OWNER_MODES = [''cron'', ''mirror'', ''scheduler'']"

definition normalize_owner_mode :: "string \<Rightarrow> string result" where
  "normalize_owner_mode owner_mode =
     (let mode = py_lower (py_strip owner_mode) in
      if mode \<in> set OWNER_MODES then Inr mode else Inl (ValueError (''Unknown owner mode: '' @ owner_mode)))"

text \<open>\<open>Path(ref).name\<close> and \<open>.stem\<close> of a POSIX path.\<close>

definition path_name :: "string \<Rightarrow> string" where
  "path_name ref = (case filter (\<lambda>c. c \<noteq> [] \<and> c \<noteq> ''.'') (py_split_on (CHR ''/'') ref) of
       [] \<Rightarrow> [] | cs \<Rightarrow> last cs)"

definition path_stem :: "string \<Rightarrow> string" where
  "path_stem ref =
     (let name = path_name ref;
          suffix = takeWhile (\<lambda>c. c \<noteq> CHR ''.'') (rev name);
          i = length name - length suffix - 1 in
      if length suffix < length name \<and> 0 < i \<and> suffix \<noteq> [] then take i name else name)"

definition job_aliases :: "scheduler_job \<Rightarrow> string list" where
  "job_aliases job =
     filter (\<lambda>a. a \<noteq> [])
       ([jb_key job, jb_family job, jb_program_key job]
        @ (if jb_handler_ref job = [] then [] else [path_stem (jb_handler_ref job), path_name (jb_handler_ref job)])
        @ (let name = dget (jb_default_payload job) ''name'' in
           if py_truthy name then [slugify (py_str name)] else []))"

definition job_matches_identifier :: "scheduler_job \<Rightarrow> string \<Rightarrow> bool" where
  "job_matches_identifier job identifier =
     (let needle = slugify identifier; aliases = set (job_aliases job) in
      identifier \<in> aliases \<or> needle \<in> aliases \<or> slugify (jb_key job) = needle)"

section \<open>Retries\<close>

definition int_setting :: "pydict \<Rightarrow> string \<Rightarrow> int \<Rightarrow> int" where
  "int_setting d k dflt = (case map_of d k of None \<Rightarrow> dflt | Some v \<Rightarrow> (case py_int v of None \<Rightarrow> dflt | Some i \<Rightarrow> i))"

record retry_settings =
  rt_max_attempts :: int
  rt_backoff_seconds :: int

definition normalize_retry_policy :: "pydict \<Rightarrow> retry_settings" where
  "normalize_retry_policy policy =
     \<lparr>rt_max_attempts = max 1 (int_setting policy ''max_attempts'' 2),
      rt_backoff_seconds = max 0 (int_setting policy ''backoff_seconds'' 0)\<rparr>"

definition retry_settings_dict :: "retry_settings \<Rightarrow> pydict" where
  "retry_settings_dict r =
     [(''max_attempts'', PyInt (rt_max_attempts r)), (''backoff_seconds'', PyInt (rt_backoff_seconds r))]"

text \<open>\<open>int(run.attempt or 1)\<close>.\<close>

definition attempt_number :: "scheduler_run \<Rightarrow> int" where
  "attempt_number run = (if rn_attempt run = 0 then 1 else rn_attempt run)"

definition retry_available :: "scheduler_job \<Rightarrow> scheduler_run \<Rightarrow> bool" where
  "retry_available job run = (attempt_number run < rt_max_attempts (normalize_retry_policy (jb_retry_policy job)))"

text \<open>\<open>from_iso\<close> is \<open>datetime.fromisoformat\<close>, with \<open>None\<close> for its \<open>ValueError\<close>.\<close>

definition retry_available_at ::
  "(string \<Rightarrow> datetime option) \<Rightarrow> scheduler_job \<Rightarrow> scheduler_run \<Rightarrow> instant \<Rightarrow> instant option" where
  "retry_available_at from_iso job run now =
     (if \<not> retry_available job run then None
      else let raw = dget (case rn_result run of None \<Rightarrow> [] | Some d \<Rightarrow> d) ''next_retry_at'';
               dflt = now + seconds (rt_backoff_seconds (normalize_retry_policy (jb_retry_policy job))) in
        if py_truthy raw then (case from_iso (py_str raw) of Some t \<Rightarrow> Some (assume_utc t) | None \<Rightarrow> Some dflt)
        else Some dflt)"

section \<open>Recurring task contracts\<close>

definition VALID_MEMORY_SCOPES :: "string list" where
  "VALID_MEMORY_SCOPES = [''org'', ''private'', ''system'', ''team'']"

definition as_text :: "pyval \<Rightarrow> string option" where
  "as_text v = (if v = PyNone then None else let t = py_strip (py_str v) in if t = [] then None else Some t)"

definition text_or :: "string option \<Rightarrow> string option \<Rightarrow> string option" where
  "text_or a b = (case a of Some t \<Rightarrow> Some t | None \<Rightarrow> b)"

text \<open>\<open>tuple(dict.fromkeys(xs))\<close>: the first occurrence of every text.\<close>

definition first_occurrences :: "'a list \<Rightarrow> 'a list" where
  "first_occurrences xs = rev (remdups (rev xs))"

definition text_item :: "pyval \<Rightarrow> string option" where
  "text_item item = as_text (case item of
       PyDict d \<Rightarrow> py_or (py_or (dget d ''action'') (dget d ''tool_name'')) (dget d ''name'')
     | _ \<Rightarrow> item)"

definition as_text_list :: "pyval \<Rightarrow> string list" where
  "as_text_list v = (case v of
       PyStr s \<Rightarrow> if py_strip s = [] then [] else [py_strip s]
     | PyList xs \<Rightarrow> first_occurrences (List.map_filter text_item xs)
     | PyDict d \<Rightarrow> first_occurrences (List.map_filter text_item (map (PyStr \<circ> fst) d))
     | _ \<Rightarrow> [])"

definition contract_timeout :: "pyval \<Rightarrow> int option \<Rightarrow> int option" where
  "contract_timeout v fallback =
     (let raw = (if v = PyNone then opt_int fallback else v) in
      case py_int raw of None \<Rightarrow> None | Some i \<Rightarrow> if 0 < i then Some i else None)"

definition opt_text :: "string option \<Rightarrow> pyval" where
  "opt_text = opt_str"

definition text_list :: "string list \<Rightarrow> pyval" where
  "text_list xs = PyList (map PyStr xs)"

definition normalize_recurring_task_contract :: "scheduler_job \<Rightarrow> pydict option \<Rightarrow> pydict result" where
  "normalize_recurring_task_contract job run_payload =
     (let payload = (case run_payload of None \<Rightarrow> jb_default_payload job
            | Some p \<Rightarrow> if p = [] then jb_default_payload job else p);
          raw = jb_task_contract job;
          owner = as_mapping (dget raw ''owner'');
          schedule = as_mapping (dget raw ''schedule'');
          memory = as_mapping (dget raw ''memory_scope'');
          policy = py_or (dget raw ''retry_policy'') (PyDict (jb_retry_policy job)) in
      rbind (dict_or_error policy) (\<lambda>policy'. Inr
       [(''owner_user_id'', opt_text (text_or (as_text (dget raw ''owner_user_id''))
           (text_or (as_text (dget owner ''user_id''))
           (text_or (as_text (dget payload ''user_id'')) (as_text (dget payload ''owner_user_id'')))))),
        (''org_id'', opt_text (text_or (as_text (dget raw ''org_id''))
           (text_or (as_text (dget owner ''org_id'')) (as_text (dget payload ''org_id''))))),
        (''schedule'', PyDict
          [(''cron_expr'', PyStr (case as_text (dget schedule ''cron_expr'') of Some t \<Rightarrow> t | None \<Rightarrow> jb_cron_expr job)),
           (''timezone'', PyStr (case as_text (dget schedule ''timezone'') of Some t \<Rightarrow> t | None \<Rightarrow> jb_timezone job)),
           (''job_key'', PyStr (jb_key job)), (''owner_mode'', PyStr (jb_owner_mode job))]),
        (''allowed_actions'', text_list (as_text_list (py_or (dget raw ''allowed_actions'') (dget payload ''allowed_actions'')))),
        (''memory_scope'', PyDict
          [(''visibility'', PyStr (case as_text (py_or (dget memory ''visibility'') (dget payload ''memory_visibility'')) of
              Some t \<Rightarrow> t | None \<Rightarrow> ''private'')),
           (''user_id'', opt_text (as_text (py_or (dget memory ''user_id'') (dget payload ''user_id'')))),
           (''org_id'', opt_text (as_text (py_or (dget memory ''org_id'') (dget payload ''org_id''))))]),
        (''required_approvals'', text_list (as_text_list (py_or (dget raw ''required_approvals'') (dget payload ''required_approvals'')))),
        (''output_channel'', PyStr (case as_text (py_or (dget raw ''output_channel'') (dget payload ''output_channel'')) of
            Some t \<Rightarrow> t | None \<Rightarrow> ''scheduler'')),
        (''timeout_seconds'', opt_int (contract_timeout (dget raw ''timeout_seconds'') (jb_timeout_seconds job))),
        (''retry_policy'', PyDict (retry_settings_dict (normalize_retry_policy policy'))),
        (''success_criteria'', text_list (as_text_list (py_or (py_or (dget raw ''success_criteria'')
            (dget payload ''success_criteria'')) (PyList [PyStr ''Run settles successfully'']))))]))"

definition validate_recurring_task_contract :: "pydict \<Rightarrow> string list" where
  "validate_recurring_task_contract contract =
     (let schedule = as_mapping (dget contract ''schedule'');
          memory = as_mapping (dget contract ''memory_scope'');
          visibility = (case as_text (dget memory ''visibility'') of Some t \<Rightarrow> t | None \<Rightarrow> ''private'') in
      (if as_text (dget schedule ''cron_expr'') = None then [''schedule.cron_expr is required''] else [])
      @ (if as_text (dget schedule ''timezone'') = None then [''schedule.timezone is required''] else [])
      @ (if visibility \<notin> set VALID_MEMORY_SCOPES
         then [''memory_scope.visibility must be one of '' @ py_repr (PyList (map PyStr VALID_MEMORY_SCOPES))] else [])
      @ (if visibility = ''private'' \<and> as_text (dget memory ''user_id'') = None
         then [''memory_scope.user_id is required for private recurring tasks''] else [])
      @ (if visibility \<in> {''team'', ''org''} \<and> as_text (dget memory ''org_id'') = None \<and> as_text (dget contract ''org_id'') = None
         then [''org_id is required for team/org recurring tasks''] else [])
      @ (if as_text (dget contract ''output_channel'') = None then [''output_channel is required''] else [])
      @ (if as_text_list (dget contract ''success_criteria'') = [] then [''success_criteria is required''] else []))"

definition extract_declared_actions :: "pydict option \<Rightarrow> string list" where
  "extract_declared_actions payload = (case payload of
       None \<Rightarrow> []
     | Some p \<Rightarrow> as_text_list (PyList (concat (map (\<lambda>k. case dget p k of PyNone \<Rightarrow> [] | PyList xs \<Rightarrow> xs | v \<Rightarrow> [v])
           [''action_manifest'', ''action_manifests'', ''required_actions'', ''actions'']))))"

definition validate_declared_actions :: "pydict \<Rightarrow> pydict option \<Rightarrow> string list" where
  "validate_declared_actions contract payload =
     (let declared = extract_declared_actions payload;
          allowed = as_text_list (dget contract ''allowed_actions'');
          missing = filter (\<lambda>a. a \<notin> set allowed) declared in
      if declared = [] \<or> ''*'' \<in> set allowed \<or> missing = [] then []
      else [''Action(s) outside recurring task contract: '' @ py_join '', '' (sort missing)])"

definition validate_scheduler_run_contract ::
  "scheduler_job \<Rightarrow> scheduler_run option \<Rightarrow> pydict option \<Rightarrow> (pydict \<times> string list) result" where
  "validate_scheduler_run_contract job run payload =
     (let run_payload = (case payload of Some p \<Rightarrow> Some p | None \<Rightarrow> map_option rn_payload run);
          stored = (case run of None \<Rightarrow> [] | Some r \<Rightarrow> (case rn_contract r of None \<Rightarrow> [] | Some d \<Rightarrow> d)) in
      rbind (if stored \<noteq> [] then Inr stored else normalize_recurring_task_contract job run_payload) (\<lambda>contract.
        Inr (contract, validate_recurring_task_contract contract @ validate_declared_actions contract run_payload)))"

end
