(* ===== verification/Scheduler_Planner.thy ===== *)
theory Scheduler_Planner
  imports Scheduler_Contracts
begin

text \<open>
  \<open>app/scheduler/planner.py\<close>: the cron subset of the scheduler, the search for the next fire time and the
  materialization of due runs. A time zone (\<open>ZoneInfo\<close>) is an argument: the wall clock of an instant, and
  the instant of a wall-clock time with \<open>fold=0\<close>.
\<close>

section \<open>Cron fields\<close>

definition int_value :: "string \<Rightarrow> int result" where
  "int_value s = (case py_int_of_str s of Some i \<Rightarrow> Inr i | None \<Rightarrow> Inl (ValueError s))"

text \<open>One part of a field; \<open>a <= v <= b\<close> reads \<open>b\<close> only when the first comparison holds.\<close>

definition cron_part :: "string \<Rightarrow> int \<Rightarrow> bool \<Rightarrow> bool result" where
  "cron_part part v sunday_seven =
     (if py_startswith part ''*/'' then
        rbind (int_value (drop 2 part)) (\<lambda>step. Inr (0 < step \<and> v mod step = 0))
      else if CHR ''-'' \<in> set part then
        (let start = takeWhile (\<lambda>c. c \<noteq> CHR ''-'') part; rest = drop (length start + 1) part in
         rbind (int_value start) (\<lambda>a. if a \<le> v then rbind (int_value rest) (\<lambda>b. Inr (v \<le> b)) else Inr False))
      else (case py_int_of_str part of
              None \<Rightarrow> Inr False
            | Some i \<Rightarrow> Inr (i = v \<or> (sunday_seven \<and> v = 0 \<and> i = 7))))"

fun cron_parts :: "string list \<Rightarrow> int \<Rightarrow> bool \<Rightarrow> bool result" where
  "cron_parts [] v sunday_seven = Inr False"
| "cron_parts (p # ps) v sunday_seven =
     (let part = py_strip p in
      if part = [] then cron_parts ps v sunday_seven
      else rbind (cron_part part v sunday_seven) (\<lambda>b. if b then Inr True else cron_parts ps v sunday_seven))"

definition parse_cron_field :: "string \<Rightarrow> int \<Rightarrow> bool \<Rightarrow> bool result" where
  "parse_cron_field field v sunday_seven =
     (if field = ''*'' then Inr True else cron_parts (py_split_on (CHR '','') field) v sunday_seven)"

fun rall :: "bool result list \<Rightarrow> bool result" where
  "rall [] = Inr True"
| "rall (r # rs) = rbind r (\<lambda>b. if b then rall rs else Inr False)"

definition quoted :: "string \<Rightarrow> string" where
  "quoted s = [CHR 0x27] @ s @ [CHR 0x27]"

definition cron_matches :: "string \<Rightarrow> int \<Rightarrow> bool result" where
  "cron_matches expr wall = (case py_words expr of
       [minute, hour, mday, month, wday] \<Rightarrow>
         (let c = civil_of wall in
          rall [parse_cron_field minute (c_minute c) False, parse_cron_field hour (c_hour c) False,
                parse_cron_field mday (c_day c) False, parse_cron_field month (c_month c) False,
                parse_cron_field wday ((c_weekday c + 1) mod 7) True])
     | _ \<Rightarrow> Inl (ValueError (''Invalid cron expression '' @ quoted expr @ ''. Expected 5 fields.'')))"

section \<open>The next fire time\<close>

record zone =
  zn_local :: "instant \<Rightarrow> int"
  zn_utc :: "int \<Rightarrow> instant"

definition utc_zone :: zone where
  "utc_zone = \<lparr>zn_local = (\<lambda>t. t), zn_utc = (\<lambda>w. w)\<rparr>"

definition minute_us :: int where "minute_us = 60000000"

text \<open>\<open>candidate\<close> keeps its zone through \<open>+ timedelta(minutes=1)\<close>, so the steps are on the wall clock.\<close>

fun cron_scan :: "nat \<Rightarrow> string \<Rightarrow> string \<Rightarrow> zone \<Rightarrow> int \<Rightarrow> instant result" where
  "cron_scan 0 expr name z w =
     Inl (ValueError (''Could not resolve next run for '' @ quoted expr @ '' in timezone '' @ quoted name))"
| "cron_scan (Suc n) expr name z w =
     rbind (cron_matches expr w) (\<lambda>m. if m then Inr (zn_utc z w) else cron_scan n expr name z (w + minute_us))"

definition cron_horizon :: nat where "cron_horizon = 60 * 24 * 366"

definition zone_of :: "(string \<Rightarrow> zone option) \<Rightarrow> string \<Rightarrow> zone" where
  "zone_of zones name = (case zones name of None \<Rightarrow> utc_zone | Some z \<Rightarrow> z)"

definition first_candidate :: "zone \<Rightarrow> instant \<Rightarrow> int" where
  "first_candidate z after_utc = (let w = zn_local z after_utc in w - w mod minute_us + minute_us)"

definition next_run_after :: "(string \<Rightarrow> zone option) \<Rightarrow> string \<Rightarrow> string \<Rightarrow> instant \<Rightarrow> instant result" where
  "next_run_after zones expr name after_utc =
     (let z = zone_of zones name in cron_scan cron_horizon expr name z (first_candidate z after_utc))"

lemma cron_scan_Inr:
  "cron_scan n expr name z w = Inr t \<longleftrightarrow>
   (\<exists>k < n. t = zn_utc z (w + int k * minute_us) \<and> cron_matches expr (w + int k * minute_us) = Inr True
      \<and> (\<forall>i < k. cron_matches expr (w + int i * minute_us) = Inr False))"
proof (induction n arbitrary: w)
  case (Suc n)
  have shift: "w + minute_us + int k * minute_us = w + int (Suc k) * minute_us" for k
    by (simp add: algebra_simps)
  show ?case
  proof (cases "cron_matches expr w")
    case (Inr m)
    show ?thesis
    proof (cases m)
      case True
      then show ?thesis using Inr by (auto simp: Ex_less_Suc2 All_less_Suc2)
    next
      case False
      have "(\<exists>k < Suc n. t = zn_utc z (w + int k * minute_us) \<and> cron_matches expr (w + int k * minute_us) = Inr True
              \<and> (\<forall>i < k. cron_matches expr (w + int i * minute_us) = Inr False))
        \<longleftrightarrow> (\<exists>k < n. t = zn_utc z (w + int (Suc k) * minute_us) \<and> cron_matches expr (w + int (Suc k) * minute_us) = Inr True
              \<and> (\<forall>i < k. cron_matches expr (w + int (Suc i) * minute_us) = Inr False))"
        using False Inr by (simp add: Ex_less_Suc2 All_less_Suc2)
      then show ?thesis using False Inr Suc.IH [of "w + minute_us"] unfolding shift by simp
    qed
  next
    case (Inl e)
    then show ?thesis by (auto simp: less_Suc_eq_0_disj)
  qed
qed simp

section \<open>Materialization\<close>

record scheduler_db =
  sd_jobs :: "scheduler_job list"
  sd_runs :: "scheduler_run list"
  sd_leases :: "scheduler_lease list"
  sd_next_run :: int
  sd_next_lease :: int

text \<open>The leases joined with their runs: unreleased and not expired.\<close>

definition active_lease_count :: "scheduler_db \<Rightarrow> int \<Rightarrow> instant \<Rightarrow> int" where
  "active_lease_count d job_id now =
     int (length (concat (map (\<lambda>l. filter (\<lambda>r. le_run l = rn_id r \<and> rn_job r = job_id) (sd_runs d))
       (filter (\<lambda>l. le_released_at l = None \<and> now < le_expires_at l) (sd_leases d)))))"

definition concurrency_limit :: "scheduler_job \<Rightarrow> int" where
  "concurrency_limit job = max (if jb_max_concurrency job = 0 then 1 else jb_max_concurrency job) 1"

definition update_job :: "int \<Rightarrow> (scheduler_job \<Rightarrow> scheduler_job) \<Rightarrow> scheduler_db \<Rightarrow> scheduler_db" where
  "update_job i f d = d\<lparr>sd_jobs := map (\<lambda>j. if jb_id j = i then f j else j) (sd_jobs d)\<rparr>"

text \<open>The jobs that may run, by falling priority and rising id.\<close>

definition eligible_jobs :: "string list \<Rightarrow> scheduler_db \<Rightarrow> scheduler_job list" where
  "eligible_jobs modes d =
     sort_key (\<lambda>j. - jb_priority j) (sort_key jb_id (filter (\<lambda>j. jb_enabled j \<and> jb_owner_mode j \<in> set modes) (sd_jobs d)))"

definition selected_job :: "string list \<Rightarrow> scheduler_job \<Rightarrow> bool" where
  "selected_job keys job = (keys = [] \<or> list_ex (job_matches_identifier job) keys)"

text \<open>The slots that were missed up to now, at most \<open>n\<close> of them.\<close>

fun catch_up_fires :: "nat \<Rightarrow> (instant \<Rightarrow> instant result) \<Rightarrow> instant \<Rightarrow> instant \<Rightarrow> instant list" where
  "catch_up_fires 0 next now t = []"
| "catch_up_fires (Suc n) next now t = (case next t of
       Inl e \<Rightarrow> []
     | Inr u \<Rightarrow> if now < u then [] else u # catch_up_fires n next now u)"

definition misfire_policy :: "scheduler_job \<Rightarrow> string" where
  "misfire_policy job =
     (let p = py_lower (py_strip (if jb_misfire_policy job = [] then ''record'' else jb_misfire_policy job)) in
      if p \<in> {''record'', ''skip'', ''catch_up''} then p else ''record'')"

definition due_fires :: "(instant \<Rightarrow> instant result) \<Rightarrow> instant \<Rightarrow> scheduler_job \<Rightarrow> instant \<Rightarrow> instant list" where
  "due_fires next now job scheduled_for =
     scheduled_for # (if misfire_policy job = ''catch_up''
       then catch_up_fires (nat (max 1 (int_setting (jb_load_shed_policy job) ''max_catch_up_runs'' 100) - 1)) next now scheduled_for
       else [])"

definition result_option :: "'a result \<Rightarrow> 'a option" where
  "result_option r = (case r of Inl _ \<Rightarrow> None | Inr x \<Rightarrow> Some x)"

definition run_key :: "scheduler_job \<Rightarrow> instant \<Rightarrow> string" where
  "run_key job t = jb_key job @ '':'' @ isoformat t"

definition shelving_reason ::
  "scheduler_job \<Rightarrow> string list \<Rightarrow> int \<Rightarrow> (string \<times> pydict option)" where
  "shelving_reason job contract_errors active_runs =
     (if contract_errors \<noteq> [] then
        (RUN_STATUS_SHELVED, Some [(''reason'', PyStr ''contract_invalid''), (''contract_errors'', text_list contract_errors)])
      else if py_truthy (dget (jb_load_shed_policy job) ''pause_new_runs'') then
        (RUN_STATUS_SHELVED, Some [(''reason'', PyStr ''pause_new_runs''), (''load_shed_policy'', PyDict (jb_load_shed_policy job))])
      else if concurrency_limit job \<le> active_runs then
        (RUN_STATUS_SHELVED, Some [(''reason'', PyStr ''max_concurrency''), (''active_leases'', PyInt active_runs),
           (''max_concurrency'', PyInt (jb_max_concurrency job))])
      else (RUN_STATUS_RECORDED, None))"

definition new_run :: "int \<Rightarrow> scheduler_job \<Rightarrow> instant \<Rightarrow> string \<times> pydict option \<Rightarrow> pydict \<Rightarrow> scheduler_run" where
  "new_run i job t outcome contract =
     \<lparr>rn_id = i, rn_job = jb_id job, rn_scheduled_for = t, rn_window_start = t, rn_window_end = t,
      rn_status = fst outcome, rn_attempt = 1, rn_key = run_key job t, rn_payload = jb_default_payload job,
      rn_result = snd outcome, rn_error = None, rn_contract = Some contract, rn_lease = None, rn_agent_run = None,
      rn_trace = None, rn_parent = None, rn_started_at = None, rn_finished_at = None\<rparr>"

text \<open>
  The loop over the fires of a job: lines 170 to 220. The state is \<open>last_next_fire\<close> and the database; a run
  that was added is seen by the next look for its key.
\<close>

fun materialize_fires ::
  "(instant \<Rightarrow> instant result) \<Rightarrow> instant \<Rightarrow> scheduler_job \<Rightarrow> instant list \<Rightarrow> instant option \<Rightarrow> scheduler_db \<Rightarrow>
   (instant option \<times> scheduler_db) result" where
  "materialize_fires next now job [] last_next d = Inr (last_next, d)"
| "materialize_fires next now job (t # ts) last_next d =
     (let last_next' = result_option (next t) in
      if list_ex (\<lambda>r. rn_key r = run_key job t) (sd_runs d)
      then materialize_fires next now job ts last_next' d
      else rbind (validate_scheduler_run_contract job None (Some (jb_default_payload job))) (\<lambda>(contract, errors).
        let run = new_run (sd_next_run d) job t (shelving_reason job errors (active_lease_count d (jb_id job) now)) contract in
        materialize_fires next now job ts last_next'
          (d\<lparr>sd_runs := sd_runs d @ [run], sd_next_run := sd_next_run d + 1\<rparr>)))"

definition materialize_job ::
  "(string \<Rightarrow> zone option) \<Rightarrow> instant \<Rightarrow> scheduler_job \<Rightarrow> scheduler_db \<Rightarrow> scheduler_db result" where
  "materialize_job zones now job d =
     (let next = next_run_after zones (jb_cron_expr job) (jb_timezone job);
          set_next = (\<lambda>t d. update_job (jb_id job) (\<lambda>j. j\<lparr>jb_next_run_at := t\<rparr>) d) in
      case (case jb_next_run_at job of Some t \<Rightarrow> Some (t, d)
            | None \<Rightarrow> (case next (now - minute_us) of Inl e \<Rightarrow> None | Inr t \<Rightarrow> Some (t, set_next (Some t) d))) of
        None \<Rightarrow> Inr d
      | Some (scheduled_for, d1) \<Rightarrow>
          if now < scheduled_for then Inr d1
          else if misfire_policy job = ''skip'' \<and> scheduled_for < now - now mod minute_us
          then rbind (next now) (\<lambda>t. Inr (set_next (Some t) d1))
          else (let fires = due_fires next now job scheduled_for in
            rbind (materialize_fires next now job fires None d1) (\<lambda>(last_next, d2).
              Inr (set_next (case last_next of Some t \<Rightarrow> Some t | None \<Rightarrow> result_option (next (last fires))) d2))))"

fun materialize_jobs ::
  "(string \<Rightarrow> zone option) \<Rightarrow> instant \<Rightarrow> string list \<Rightarrow> scheduler_job list \<Rightarrow> scheduler_db \<Rightarrow> scheduler_db result" where
  "materialize_jobs zones now keys [] d = Inr d"
| "materialize_jobs zones now keys (j # js) d =
     (if selected_job keys j
      then rbind (materialize_job zones now j d) (materialize_jobs zones now keys js)
      else materialize_jobs zones now keys js d)"

definition with_trace :: "scheduler_db \<Rightarrow> scheduler_run \<Rightarrow> scheduler_run" where
  "with_trace d r = (if rn_id r < sd_next_run d \<or> rn_trace r \<noteq> None then r
     else r\<lparr>rn_trace := Some (trace_id_for_scheduler_run_id (rn_id r))\<rparr>)"

text \<open>\<open>async_materialize_due_runs\<close>: the created runs and the database; their traces are set after the flush.\<close>

definition materialize_due_runs ::
  "(string \<Rightarrow> zone option) \<Rightarrow> instant \<Rightarrow> string list \<Rightarrow> string list \<Rightarrow> scheduler_db \<Rightarrow> (scheduler_run list \<times> scheduler_db) result" where
  "materialize_due_runs zones now modes keys d =
     (if modes = [] then Inr ([], d)
      else rbind (materialize_jobs zones now keys (eligible_jobs modes d) d) (\<lambda>d'.
        let traced = map (with_trace d) (sd_runs d') in
        Inr (drop (length (sd_runs d)) traced, d'\<lparr>sd_runs := traced\<rparr>)))"

section \<open>Facts about fire times\<close>

definition fixed_zone :: "int \<Rightarrow> zone" where
  "fixed_zone off = \<lparr>zn_local = (\<lambda>t. t + off), zn_utc = (\<lambda>w. w - off)\<rparr>"

text \<open>A zone whose clock is set back by an hour, from four to five hours behind UTC, at the instant \<open>T\<close>.\<close>

definition hour_us :: int where "hour_us = 3600000000"

definition fall_back_zone :: "instant \<Rightarrow> zone" where
  "fall_back_zone T =
     \<lparr>zn_local = (\<lambda>t. if t < T then t - 4 * hour_us else t - 5 * hour_us),
      zn_utc = (\<lambda>w. if w < T - 4 * hour_us then w + 4 * hour_us else w + 5 * hour_us)\<rparr>"

lemma utc_zone_fixed: "utc_zone = fixed_zone 0"
  by (simp add: utc_zone_def fixed_zone_def)

lemma cron_horizon_Suc: "cron_horizon = Suc 527039"
  by (simp add: cron_horizon_def)

lemma minute_bounds: "0 \<le> w mod minute_us" "w mod minute_us < minute_us"
  by (simp_all add: minute_us_def)

lemma py_words_two:
  "py_words (''*'' @ [CHR 0x20] @ s) = ''*'' # py_words s" "py_words ''*'' = [''*'']"
proof -
  have sp: "\<not> py_space (CHR ''*'')" "py_space (CHR 0x20)" by (simp_all add: py_space_def)
  have drop: "py_words (CHR 0x20 # s) = py_words s" by (simp add: py_words.simps [of "CHR 0x20 # s"] py_words.simps [of s] sp)
  show "py_words (''*'' @ [CHR 0x20] @ s) = ''*'' # py_words s"
    using drop by (simp add: py_words.simps [of "CHR ''*'' # CHR 0x20 # s"] sp)
  show "py_words ''*'' = [''*'']"
    by (simp add: py_words.simps [of "''*''"] py_words.simps [of "[]"] sp)
qed

definition every_minute :: string where "every_minute = ''* * * * *''"

lemma every_minute_matches: "cron_matches every_minute w = Inr True"
proof -
  have "py_words every_minute
      = py_words (''*'' @ [CHR 0x20] @ (''*'' @ [CHR 0x20] @ (''*'' @ [CHR 0x20] @ (''*'' @ [CHR 0x20] @ ''*''))))"
    by (simp add: every_minute_def)
  also have "\<dots> = [''*'', ''*'', ''*'', ''*'', ''*'']" unfolding py_words_two ..
  finally have "py_words every_minute = [''*'', ''*'', ''*'', ''*'', ''*'']" .
  then show ?thesis by (simp add: cron_matches_def parse_cron_field_def Let_def)
qed

lemma next_every_minute:
  "next_run_after zones every_minute name t = Inr (zn_utc (zone_of zones name) (first_candidate (zone_of zones name) t))"
  unfolding next_run_after_def cron_horizon_Suc Let_def cron_scan.simps every_minute_matches rbind_simps by simp

section \<open>What materialization adds\<close>

text \<open>A run as the planner creates it: for a slot that has come, recorded only under a valid contract.\<close>

definition planned :: "instant \<Rightarrow> scheduler_run \<Rightarrow> bool" where
  "planned now r =
     (rn_scheduled_for r \<le> now \<and> rn_window_start r = rn_scheduled_for r \<and> rn_window_end r = rn_scheduled_for r
      \<and> rn_attempt r = 1 \<and> rn_lease r = None
      \<and> (rn_status r = RUN_STATUS_RECORDED \<and> rn_result r = None
           \<and> (\<exists>c. rn_contract r = Some c \<and> validate_recurring_task_contract c = []
                \<and> validate_declared_actions c (Some (rn_payload r)) = [])
         \<or> rn_status r = RUN_STATUS_SHELVED \<and> rn_result r \<noteq> None))"

definition extends :: "instant \<Rightarrow> scheduler_db \<Rightarrow> scheduler_db \<Rightarrow> bool" where
  "extends now d d' =
     (\<exists>new. sd_runs d' = sd_runs d @ new \<and> (\<forall>r \<in> set new. planned now r \<and> rn_trace r = None)
       \<and> (\<forall>r \<in> set new. sd_next_run d \<le> rn_id r \<and> rn_id r < sd_next_run d') \<and> distinct (map rn_id new)
       \<and> sd_next_run d \<le> sd_next_run d'
       \<and> sd_leases d' = sd_leases d \<and> (distinct (map rn_key (sd_runs d)) \<longrightarrow> distinct (map rn_key (sd_runs d'))))"

lemma extends_refl [simp]: "extends now d d"
  by (simp add: extends_def)

lemma extends_trans:
  assumes "extends now a b" and "extends now b c"
  shows "extends now a c"
proof -
  obtain x where x: "sd_runs b = sd_runs a @ x" "\<forall>r \<in> set x. planned now r \<and> rn_trace r = None"
    "\<forall>r \<in> set x. sd_next_run a \<le> rn_id r \<and> rn_id r < sd_next_run b" "distinct (map rn_id x)" "sd_next_run a \<le> sd_next_run b"
    "sd_leases b = sd_leases a" "distinct (map rn_key (sd_runs a)) \<longrightarrow> distinct (map rn_key (sd_runs b))"
    using assms(1) unfolding extends_def by blast
  obtain y where y: "sd_runs c = sd_runs b @ y" "\<forall>r \<in> set y. planned now r \<and> rn_trace r = None"
    "\<forall>r \<in> set y. sd_next_run b \<le> rn_id r \<and> rn_id r < sd_next_run c" "distinct (map rn_id y)" "sd_next_run b \<le> sd_next_run c"
    "sd_leases c = sd_leases b" "distinct (map rn_key (sd_runs b)) \<longrightarrow> distinct (map rn_key (sd_runs c))"
    using assms(2) unfolding extends_def by blast
  have "distinct (map rn_id (x @ y))" using x(3,4) y(3,4) by (fastforce simp: distinct_append)
  moreover have "\<forall>r \<in> set (x @ y). sd_next_run a \<le> rn_id r \<and> rn_id r < sd_next_run c"
    using x(3,5) y(3,5) by fastforce
  ultimately show ?thesis
    unfolding extends_def using x(1,2,5-7) y(1,2,5-7) by (intro exI [of _ "x @ y"]) auto
qed

lemma extends_update_job [simp]:
  "extends now d (update_job i f d') = extends now d d'" "extends now (update_job i f d) d' = extends now d d'"
  by (simp_all add: extends_def update_job_def)

lemma extends_add:
  assumes "planned now r" and "rn_trace r = None" and "rn_id r = sd_next_run d"
    and "rn_key r \<notin> set (map rn_key (sd_runs d))"
  shows "extends now d (d\<lparr>sd_runs := sd_runs d @ [r], sd_next_run := sd_next_run d + 1\<rparr>)"
  unfolding extends_def using assms by (intro exI [of _ "[r]"]) auto

lemma new_run_planned:
  assumes "t \<le> now" and "validate_scheduler_run_contract job None (Some (jb_default_payload job)) = Inr (contract, errors)"
  shows "planned now (new_run i job t (shelving_reason job errors n) contract)"
  using assms by (auto simp: planned_def new_run_def shelving_reason_def validate_scheduler_run_contract_def
    rbind_Inr_iff Let_def run_status_defs)

lemma materialize_fires_extends:
  "materialize_fires next now job ts l d = Inr (l', d') \<Longrightarrow> \<forall>t \<in> set ts. t \<le> now \<Longrightarrow> extends now d d'"
proof (induction ts arbitrary: l d)
  case (Cons t ts)
  show ?case
  proof (cases "list_ex (\<lambda>r. rn_key r = run_key job t) (sd_runs d)")
    case True
    then show ?thesis using Cons by (auto simp: Let_def)
  next
    case False
    obtain contract errors where v: "validate_scheduler_run_contract job None (Some (jb_default_payload job)) = Inr (contract, errors)"
      using Cons.prems(1) False by (auto simp: Let_def rbind_Inr_iff)
    define r where "r = new_run (sd_next_run d) job t (shelving_reason job errors (active_lease_count d (jb_id job) now)) contract"
    define d1 where "d1 = d\<lparr>sd_runs := sd_runs d @ [r], sd_next_run := sd_next_run d + 1\<rparr>"
    have "extends now d d1"
      unfolding d1_def using Cons.prems(2) v False
      by (intro extends_add) (auto simp: r_def new_run_planned list_ex_iff, auto simp: new_run_def)
    moreover have "extends now d1 d'"
      using Cons.prems False v by (intro Cons.IH [of "result_option (next t)"]) (simp_all add: Let_def d1_def r_def)
    ultimately show ?thesis by (rule extends_trans)
  qed
qed simp

lemma catch_up_bounds:
  "length (catch_up_fires n next now t) \<le> n" "u \<in> set (catch_up_fires n next now t) \<Longrightarrow> u \<le> now"
  by (induction n arbitrary: t) (auto split: sum.splits if_splits)

lemma due_fires_due: "scheduled_for \<le> now \<Longrightarrow> u \<in> set (due_fires next now job scheduled_for) \<Longrightarrow> u \<le> now"
  by (auto simp: due_fires_def catch_up_bounds split: if_splits)

lemma fires_extend:
  "materialize_fires next now job (due_fires next now job s) l d = Inr (l', d') \<Longrightarrow> \<not> now < s \<Longrightarrow> extends now d d'"
  by (rule materialize_fires_extends) (use due_fires_due [of s now] in auto)

lemma materialize_job_extends:
  assumes "materialize_job zones now job d = Inr d'"
  shows "extends now d d'"
proof -
  define nxt where "nxt = next_run_after zones (jb_cron_expr job) (jb_timezone job)"
  have body: "extends now d d'"
    if "(if now < s then Inr d1
         else if misfire_policy job = ''skip'' \<and> s < now - now mod minute_us
         then rbind (nxt now) (\<lambda>t. Inr (update_job (jb_id job) (\<lambda>j. j\<lparr>jb_next_run_at := Some t\<rparr>) d1))
         else rbind (materialize_fires nxt now job (due_fires nxt now job s) None d1) (\<lambda>(l, d2).
              Inr (update_job (jb_id job) (\<lambda>j. j\<lparr>jb_next_run_at := case l of Some t \<Rightarrow> Some t
                | None \<Rightarrow> result_option (nxt (last (due_fires nxt now job s)))\<rparr>) d2))) = Inr d'"
      and "extends now d d1" for s d1
    using that by (auto simp: rbind_Inr_iff split: if_splits dest!: fires_extend intro: extends_trans)
  note a = assms [unfolded materialize_job_def Let_def, folded nxt_def]
  show ?thesis
  proof (cases "jb_next_run_at job")
    case (Some s)
    then show ?thesis using a by (intro body [of s d]) simp_all
  next
    case None
    show ?thesis
    proof (cases "nxt (now - minute_us)")
      case (Inl e)
      then show ?thesis using a None by simp
    next
      case (Inr s)
      then show ?thesis using a None
        by (intro body [of s "update_job (jb_id job) (\<lambda>j. j\<lparr>jb_next_run_at := Some s\<rparr>) d"]) simp_all
    qed
  qed
qed

lemma materialize_jobs_extends:
  "materialize_jobs zones now keys js d = Inr d' \<Longrightarrow> extends now d d'"
  by (induction js arbitrary: d) (auto simp: rbind_Inr_iff split: if_splits intro: extends_trans dest: materialize_job_extends)

lemma materialized:
  assumes "materialize_due_runs zones now modes keys d = Inr (created, d')"
    and "\<forall>r \<in> set (sd_runs d). rn_id r < sd_next_run d"
    and "distinct (map rn_key (sd_runs d))"
  shows "sd_runs d' = sd_runs d @ created \<and> (\<forall>r \<in> set created. planned now r \<and> rn_trace r = Some (trace_id_for_scheduler_run_id (rn_id r)))
    \<and> distinct (map rn_key (sd_runs d')) \<and> distinct (map rn_id created)
    \<and> (\<forall>r \<in> set created. sd_next_run d \<le> rn_id r \<and> rn_id r < sd_next_run d') \<and> sd_next_run d \<le> sd_next_run d'
    \<and> sd_leases d' = sd_leases d"
proof (cases "modes = []")
  case True
  then show ?thesis using assms by (simp add: materialize_due_runs_def)
next
  case False
  define f where "f = with_trace d"
  from assms(1) False obtain d1 where d1: "materialize_jobs zones now keys (eligible_jobs modes d) d = Inr d1"
    "created = drop (length (sd_runs d)) (map f (sd_runs d1))" "d' = d1\<lparr>sd_runs := map f (sd_runs d1)\<rparr>"
    by (auto simp: materialize_due_runs_def rbind_Inr_iff Let_def f_def)
  from materialize_jobs_extends [OF d1(1)] obtain new where new: "sd_runs d1 = sd_runs d @ new"
    "\<forall>r \<in> set new. planned now r \<and> rn_trace r = None"
    "\<forall>r \<in> set new. sd_next_run d \<le> rn_id r \<and> rn_id r < sd_next_run d1" "distinct (map rn_id new)"
    "sd_leases d1 = sd_leases d" "sd_next_run d \<le> sd_next_run d1" "distinct (map rn_key (sd_runs d1))"
    using assms(3) unfolding extends_def by blast
  have old: "map f (sd_runs d) = sd_runs d" using assms(2) by (simp add: f_def with_trace_def map_idI)
  have ff: "rn_key (f r) = rn_key r" "rn_id (f r) = rn_id r" "planned now (f r) = planned now r" for r
    by (simp_all add: f_def with_trace_def planned_def)
  have tr: "\<forall>r \<in> set new. rn_trace (f r) = Some (trace_id_for_scheduler_run_id (rn_id r))"
    using new(2,3) by (auto simp: f_def with_trace_def)
  have created: "created = map f new" by (simp add: d1(2) new(1) old)
  have "sd_runs d' = sd_runs d @ created" by (simp add: d1(3) new(1) old created)
  moreover have "distinct (map rn_key (sd_runs d'))"
    using new(7) by (simp add: d1(3) ff comp_def)
  moreover have "distinct (map rn_id created)" using new(4) by (simp add: created ff comp_def)
  moreover have "sd_leases d' = sd_leases d" by (simp add: d1(3) new(5))
  ultimately show ?thesis using new(2,3,6) tr by (auto simp: created ff d1(3))
qed

section \<open>Examples\<close>

definition ex_job :: scheduler_job where
  "ex_job = \<lparr>jb_id = 1, jb_key = ''sweep'', jb_family = ''sweep'', jb_program_key = ''sweep'', jb_handler_ref = ''jobs/sweep.py'',
     jb_cron_expr = every_minute, jb_timezone = ''UTC'', jb_enabled = True, jb_owner_mode = ''scheduler'', jb_priority = 100,
     jb_max_concurrency = 1, jb_timeout_seconds = None, jb_retry_policy = [], jb_misfire_policy = ''record'',
     jb_load_shed_policy = [], jb_default_payload = [(''user_id'', PyStr ''u'')], jb_task_contract = [],
     jb_next_run_at = Some 0, jb_pause_reason = None, jb_last_started_at = None, jb_last_finished_at = None\<rparr>"

definition ex_planner_db :: scheduler_db where
  "ex_planner_db = \<lparr>sd_jobs = [ex_job], sd_runs = [], sd_leases = [], sd_next_run = 1, sd_next_lease = 1\<rparr>"

lemma ex_materialized:
  obtains r d' where "materialize_due_runs (\<lambda>_. None) 5 [''scheduler''] [] ex_planner_db = Inr ([r], d')"
proof -
  have "jb_task_contract ex_job = []" "jb_retry_policy ex_job = []" by (simp_all add: ex_job_def)
  then obtain c e where v: "validate_scheduler_run_contract ex_job None (Some (jb_default_payload ex_job)) = Inr (c, e)"
    by (simp add: validate_scheduler_run_contract_def normalize_recurring_task_contract_def Let_def py_or_def dict_or_error_def)
  have n: "\<exists>u. next_run_after (\<lambda>_. None) every_minute ''UTC'' 0 = Inr u" by (simp add: next_every_minute)
  have e: "eligible_jobs [''scheduler''] ex_planner_db = [ex_job]"
    by (simp add: eligible_jobs_def ex_planner_db_def ex_job_def)
  have f: "due_fires nx 5 ex_job 0 = [0]" "misfire_policy ex_job = ''record''" for nx
    by (simp_all add: due_fires_def misfire_policy_def ex_job_def py_strip_def py_space_def py_lower_def py_lower_char_def)
  have j: "jb_next_run_at ex_job = Some 0" "jb_cron_expr ex_job = every_minute" "jb_timezone ex_job = ''UTC''"
    by (simp_all add: ex_job_def)
  have p: "sd_runs ex_planner_db = []" "sd_jobs ex_planner_db = [ex_job]" by (simp_all add: ex_planner_db_def)
  show ?thesis
    using that n v by (auto simp: materialize_due_runs_def e selected_job_def materialize_job_def f j Let_def
      p result_option_def update_job_def)
qed

section \<open>Properties\<close>

text \<open>
  C23: where the clock is never set back, the next fire time is strictly after the given time and is the first
  minute of the wall clock, within 366 days, that the expression matches.
\<close>
theorem next_run_least:
  assumes "zone_of zones name = fixed_zone off" and "next_run_after zones expr name t = Inr u"
  shows "t < u \<and> (\<exists>k < cron_horizon. u + off = (t + off) div minute_us * minute_us + int (k + 1) * minute_us
      \<and> cron_matches expr (u + off) = Inr True
      \<and> (\<forall>i < k. cron_matches expr ((t + off) div minute_us * minute_us + int (i + 1) * minute_us) = Inr False))"
proof -
  have c: "first_candidate (fixed_zone off) t = (t + off) div minute_us * minute_us + minute_us"
    by (simp add: first_candidate_def fixed_zone_def Let_def minus_mod_eq_div_mult)
  have step: "(t + off) div minute_us * minute_us + minute_us + int i * minute_us
      = (t + off) div minute_us * minute_us + int (i + 1) * minute_us" for i
    by (simp add: algebra_simps)
  from assms obtain k where k: "k < cron_horizon"
    "u + off = (t + off) div minute_us * minute_us + int (k + 1) * minute_us"
    "cron_matches expr (u + off) = Inr True"
    "\<forall>i < k. cron_matches expr ((t + off) div minute_us * minute_us + int (i + 1) * minute_us) = Inr False"
    unfolding next_run_after_def Let_def cron_scan_Inr c assms(1) step by (auto simp: fixed_zone_def)
  have "t + off < (t + off) div minute_us * minute_us + minute_us"
    using minute_bounds [of "t + off"] div_mult_mod_eq [of "t + off" minute_us] by linarith
  also have "\<dots> \<le> u + off" using k(2) minute_us_def by (simp add: algebra_simps)
  finally have "t < u" by simp
  then show ?thesis using k by (intro conjI exI [of _ k])
qed

lemma next_run_least_witness:
  "5 < (minute_us :: int) \<and> next_run_after (\<lambda>_. None) every_minute ''UTC'' 5 = Inr minute_us"
proof -
  have z: "zone_of (\<lambda>_. None) ''UTC'' = fixed_zone 0" by (simp add: zone_of_def utc_zone_fixed)
  have n: "next_run_after (\<lambda>_. None) every_minute ''UTC'' 5 = Inr minute_us"
    by (simp add: next_every_minute z first_candidate_def fixed_zone_def minute_us_def)
  show ?thesis using next_run_least [OF z n] n by simp
qed

text \<open>
  In the hour that a clock set back repeats, the next fire time is not after the given time: the step on
  the wall clock forgets the fold, so the answer lies in the first of the two hours.
\<close>
theorem repeated_hour_goes_back:
  assumes "zones name = Some (fall_back_zone T)" and "T mod minute_us = 0"
    and "T \<le> t" and "t < T + hour_us - minute_us"
  shows "\<exists>u. next_run_after zones every_minute name t = Inr u \<and> u < t"
proof -
  let ?m = "t div minute_us * minute_us + minute_us"
  have w: "first_candidate (fall_back_zone T) t = ?m - 5 * hour_us"
  proof -
    have "(t - 5 * hour_us) mod minute_us = t mod minute_us"
      by (simp add: hour_us_def minute_us_def mod_diff_eq [symmetric])
    then show ?thesis using assms(3) minus_mod_eq_div_mult [of t minute_us]
      by (simp add: first_candidate_def fall_back_zone_def Let_def)
  qed
  obtain q where q: "T = q * minute_us" using assms(2) by (auto simp: mod_eq_0_iff_dvd dvd_def mult.commute)
  have "t div minute_us < q + 59"
    using assms(4) q by (simp add: hour_us_def minute_us_def div_less_iff_less_mult)
  then have "?m < T + hour_us" by (simp add: q hour_us_def minute_us_def)
  then have "zn_utc (fall_back_zone T) (?m - 5 * hour_us) = ?m - hour_us"
    by (simp add: fall_back_zone_def hour_us_def)
  moreover have "?m - hour_us < t"
    using minus_mod_eq_div_mult [of t minute_us] minute_bounds [of t] by (simp add: hour_us_def minute_us_def)
  ultimately show ?thesis using assms(1) by (simp add: next_every_minute zone_of_def w)
qed

lemma repeated_hour_goes_back_witness:
  "\<exists>u. next_run_after (\<lambda>_. Some (fall_back_zone 0)) every_minute ''America/New_York'' 90 = Inr u \<and> u < 90"
  by (rule repeated_hour_goes_back [of _ _ 0]) (simp_all add: minute_us_def hour_us_def)

text \<open>
  C24: materialization only adds runs: each for a slot that has come, recorded only under a valid contract and
  otherwise shelved with a reason, with a new identifier and trace; no two runs of the table share a key.
\<close>
theorem materialized_runs_planned:
  assumes "materialize_due_runs zones now modes keys d = Inr (created, d')"
    and "\<forall>r \<in> set (sd_runs d). rn_id r < sd_next_run d"
    and "distinct (map rn_key (sd_runs d))"
  shows "sd_runs d' = sd_runs d @ created \<and> (\<forall>r \<in> set created. planned now r \<and> rn_trace r = Some (trace_id_for_scheduler_run_id (rn_id r)))
    \<and> distinct (map rn_key (sd_runs d')) \<and> distinct (map rn_id created)
    \<and> (\<forall>r \<in> set created. sd_next_run d \<le> rn_id r) \<and> sd_leases d' = sd_leases d"
  using materialized [OF assms] by blast

lemma materialized_runs_planned_witness:
  "\<exists>r d'. materialize_due_runs (\<lambda>_. None) 5 [''scheduler''] [] ex_planner_db = Inr ([r], d') \<and> planned 5 r
    \<and> sd_runs d' = [r]"
proof -
  obtain r d' where m: "materialize_due_runs (\<lambda>_. None) 5 [''scheduler''] [] ex_planner_db = Inr ([r], d')"
    by (rule ex_materialized)
  from materialized_runs_planned [OF m] show ?thesis using m by (simp add: ex_planner_db_def)
qed

end
