(* ===== verification/Scheduler_Leases.thy ===== *)
theory Scheduler_Leases
  imports Scheduler_Planner
begin

text \<open>
  The run and lease operations of \<open>app/scheduler/runtime.py\<close>: claiming a run or the next due run,
  heartbeats, release, the reclaiming of expired leases, finishing and retrying runs, and the control
  operations on jobs. An owner is the triple of \<open>_lease_payload\<close>; \<open>from_iso\<close> is \<open>datetime.fromisoformat\<close>.
\<close>

section \<open>Rows by identifier\<close>

definition run_by_id :: "scheduler_db \<Rightarrow> int \<Rightarrow> scheduler_run option" where
  "run_by_id d i = find (\<lambda>r. rn_id r = i) (sd_runs d)"

definition job_by_id :: "scheduler_db \<Rightarrow> int \<Rightarrow> scheduler_job option" where
  "job_by_id d i = find (\<lambda>j. jb_id j = i) (sd_jobs d)"

definition lease_by_id :: "scheduler_db \<Rightarrow> int \<Rightarrow> scheduler_lease option" where
  "lease_by_id d i = find (\<lambda>l. le_id l = i) (sd_leases d)"

definition lease_of_run :: "scheduler_db \<Rightarrow> int \<Rightarrow> scheduler_lease option" where
  "lease_of_run d i = find (\<lambda>l. le_run l = i) (sd_leases d)"

definition update_run :: "int \<Rightarrow> (scheduler_run \<Rightarrow> scheduler_run) \<Rightarrow> scheduler_db \<Rightarrow> scheduler_db" where
  "update_run i f d = d\<lparr>sd_runs := map (\<lambda>r. if rn_id r = i then f r else r) (sd_runs d)\<rparr>"

definition update_lease :: "int \<Rightarrow> (scheduler_lease \<Rightarrow> scheduler_lease) \<Rightarrow> scheduler_db \<Rightarrow> scheduler_db" where
  "update_lease i f d = d\<lparr>sd_leases := map (\<lambda>l. if le_id l = i then f l else l) (sd_leases d)\<rparr>"

type_synonym lease_owner = "string \<times> string \<times> int"

section \<open>Leases\<close>

definition lease_live :: "instant \<Rightarrow> scheduler_lease \<Rightarrow> bool" where
  "lease_live now l = (le_released_at l = None \<and> now < le_expires_at l)"

definition release_row :: "instant \<Rightarrow> string \<Rightarrow> scheduler_lease \<Rightarrow> scheduler_lease" where
  "release_row now reason l =
     (if le_released_at l = None then l\<lparr>le_released_at := Some now, le_release_reason := Some reason\<rparr> else l)"

text \<open>Lines 207 to 236: the old lease is refused or let go, and the run's lease row is reused or inserted.\<close>

definition take_lease :: "scheduler_run \<Rightarrow> lease_owner \<Rightarrow> int \<Rightarrow> instant \<Rightarrow> scheduler_db \<Rightarrow> (scheduler_lease \<times> scheduler_db) result" where
  "take_lease run owner ttl now d =
     (let current = (case rn_lease run of None \<Rightarrow> None | Some i \<Rightarrow> if i = 0 then None else lease_by_id d i) in
      if (case current of None \<Rightarrow> False | Some l \<Rightarrow> lease_live now l)
      then Inl (ValueError (''Scheduler run '' @ show_int (rn_id run) @ '' is already leased''))
      else (let d1 = (case current of None \<Rightarrow> d
              | Some l \<Rightarrow> update_lease (le_id l) (release_row now ''reclaimed after expiry'') d);
                (owner_id, host, pid) = owner; expiry = now + seconds ttl in
        case lease_of_run d1 (rn_id run) of
          None \<Rightarrow> (let l = \<lparr>le_id = sd_next_lease d1, le_run = rn_id run, le_owner = owner_id, le_host = host, le_pid = pid,
                le_acquired_at = now, le_heartbeat_at = now, le_expires_at = expiry, le_released_at = None,
                le_release_reason = None\<rparr> in
              Inr (l, d1\<lparr>sd_leases := sd_leases d1 @ [l], sd_next_lease := sd_next_lease d1 + 1\<rparr>))
        | Some l \<Rightarrow> (let l' = l\<lparr>le_owner := owner_id, le_host := host, le_pid := pid, le_acquired_at := now,
                le_heartbeat_at := now, le_expires_at := expiry, le_released_at := None, le_release_reason := None\<rparr> in
              Inr (l', update_lease (le_id l) (\<lambda>_. l') d1))))"

definition run_trace :: "scheduler_run \<Rightarrow> string option" where
  "run_trace run = (case rn_agent_run run of
       Some i \<Rightarrow> Some (sched_trace_id_for_run_id i)
     | None \<Rightarrow> (case rn_trace run of
         Some (c # cs) \<Rightarrow> Some (c # cs)
       | _ \<Rightarrow> Some (trace_id_for_scheduler_run_id (rn_id run))))"

definition claimed_row :: "int \<Rightarrow> instant \<Rightarrow> scheduler_run \<Rightarrow> scheduler_run" where
  "claimed_row lease_id now run =
     (let previous = normalize_run_status (Some (rn_status run));
          r1 = run\<lparr>rn_lease := Some lease_id, rn_status := RUN_STATUS_CLAIMED, rn_trace := run_trace run\<rparr>;
          r2 = (if previous = RUN_STATUS_RETRYABLE \<or> previous = RUN_STATUS_EXPIRED
                then r1\<lparr>rn_attempt := attempt_number run + 1, rn_finished_at := None\<rparr> else r1) in
      if rn_started_at run = None then r2\<lparr>rn_started_at := Some now\<rparr> else r2)"

definition claim_run ::
  "int \<Rightarrow> lease_owner \<Rightarrow> int \<Rightarrow> instant \<Rightarrow> scheduler_db \<Rightarrow> (scheduler_lease \<times> scheduler_db) result" where
  "claim_run i owner ttl now d =
     (case run_by_id d i of
        None \<Rightarrow> Inl (ValueError (''Scheduler run '' @ show_int i @ '' not found''))
      | Some run \<Rightarrow>
          if rn_status run = RUN_STATUS_SETTLED_SUCCESS \<or> rn_status run = RUN_STATUS_SETTLED_FAILURE
          then Inl (ValueError (''Scheduler run '' @ show_int i @ '' is already settled''))
          else if rn_status run = RUN_STATUS_PAUSED
          then Inl (ValueError (''Scheduler run '' @ show_int i @ '' is paused''))
          else rbind (take_lease run owner ttl now d) (\<lambda>(l, d1).
            Inr (l, update_job (rn_job run) (\<lambda>j. j\<lparr>jb_last_started_at := Some now\<rparr>)
                      (update_run i (claimed_row (le_id l) now) d1))))"

section \<open>The next due run\<close>

definition claim_candidates :: "scheduler_job \<Rightarrow> instant \<Rightarrow> scheduler_db \<Rightarrow> scheduler_run list" where
  "claim_candidates job now d =
     sort_key rn_scheduled_for (sort_key rn_id (filter (\<lambda>r. rn_job r = jb_id job \<and> rn_lease r = None
       \<and> rn_status r \<in> {RUN_STATUS_RECORDED, RUN_STATUS_RETRYABLE, RUN_STATUS_EXPIRED, ''shed''}
       \<and> rn_scheduled_for r \<le> now) (sd_runs d)))"

definition claimable_now :: "(string \<Rightarrow> datetime option) \<Rightarrow> scheduler_job \<Rightarrow> instant \<Rightarrow> scheduler_run \<Rightarrow> bool" where
  "claimable_now from_iso job now r =
     (let status = normalize_run_status (Some (rn_status r)) in
      status = RUN_STATUS_RECORDED
      \<or> (status \<noteq> RUN_STATUS_SHELVED
         \<and> (case retry_available_at from_iso job r now of None \<Rightarrow> False | Some t \<Rightarrow> t \<le> now)))"

fun claim_from_jobs ::
  "(string \<Rightarrow> datetime option) \<Rightarrow> string list \<Rightarrow> lease_owner \<Rightarrow> int \<Rightarrow> instant \<Rightarrow> scheduler_job list \<Rightarrow> scheduler_db \<Rightarrow>
   ((scheduler_lease \<times> scheduler_db) option) result" where
  "claim_from_jobs from_iso keys owner ttl now [] d = Inr None"
| "claim_from_jobs from_iso keys owner ttl now (j # js) d =
     (if \<not> selected_job keys j then claim_from_jobs from_iso keys owner ttl now js d
      else if concurrency_limit j \<le> active_lease_count d (jb_id j) now then claim_from_jobs from_iso keys owner ttl now js d
      else (case find (claimable_now from_iso j now) (claim_candidates j now d) of
          None \<Rightarrow> claim_from_jobs from_iso keys owner ttl now js d
        | Some r \<Rightarrow> rbind (claim_run (rn_id r) owner ttl now d) (\<lambda>x. Inr (Some x))))"

definition claim_next_due_run ::
  "(string \<Rightarrow> datetime option) \<Rightarrow> string list \<Rightarrow> string list \<Rightarrow> lease_owner \<Rightarrow> int \<Rightarrow> instant \<Rightarrow> scheduler_db \<Rightarrow>
   ((scheduler_lease \<times> scheduler_db) option) result" where
  "claim_next_due_run from_iso modes keys owner ttl now d =
     (if modes = [] then Inr None else claim_from_jobs from_iso keys owner ttl now (eligible_jobs modes d) d)"

section \<open>Heartbeat, release and reclaim\<close>

definition heartbeat_lease :: "int \<Rightarrow> int \<Rightarrow> instant \<Rightarrow> scheduler_db \<Rightarrow> scheduler_lease option \<times> scheduler_db" where
  "heartbeat_lease i ttl now d =
     (case lease_by_id d i of
        None \<Rightarrow> (None, d)
      | Some l \<Rightarrow>
          if le_released_at l \<noteq> None then (None, d)
          else (let l' = l\<lparr>le_heartbeat_at := now, le_expires_at := now + seconds ttl\<rparr> in
            (Some l', update_lease i (\<lambda>_. l') d)))"

definition release_lease :: "int \<Rightarrow> string \<Rightarrow> instant \<Rightarrow> scheduler_db \<Rightarrow> scheduler_db" where
  "release_lease i reason now d =
     (case lease_by_id d i of
        None \<Rightarrow> d
      | Some l \<Rightarrow> update_run (le_run l) (\<lambda>r. if rn_lease r = Some i then r\<lparr>rn_lease := None\<rparr> else r)
                   (update_lease i (release_row now reason) d))"

definition expired_row ::
  "(string \<Rightarrow> datetime option) \<Rightarrow> scheduler_job option \<Rightarrow> scheduler_lease \<Rightarrow> instant \<Rightarrow> scheduler_run \<Rightarrow> scheduler_run" where
  "expired_row from_iso job l now run =
     (let r0 = (if rn_lease run = Some (le_id l) then run\<lparr>rn_lease := None\<rparr> else run);
          status = normalize_run_status (Some (rn_status run)) in
      if status = RUN_STATUS_SETTLED_SUCCESS \<or> status = RUN_STATUS_SETTLED_FAILURE then r0
      else (let r1 = r0\<lparr>rn_status := RUN_STATUS_EXPIRED, rn_finished_at := Some now,
                rn_error := (case rn_error run of None \<Rightarrow> Some ''lease expired'' | Some e \<Rightarrow> Some e)\<rparr> in
        case job of
          None \<Rightarrow> r1
        | Some j \<Rightarrow>
            if retry_available j r1 then r1\<lparr>rn_result := Some (dmerge (case rn_result r1 of None \<Rightarrow> [] | Some d \<Rightarrow> d)
               [(''retry_policy'', PyDict (retry_settings_dict (normalize_retry_policy (jb_retry_policy j)))),
                (''retry_reason'', PyStr ''lease_expired''),
                (''next_retry_at'', (case retry_available_at from_iso j r1 now of None \<Rightarrow> PyNone | Some t \<Rightarrow> PyStr (isoformat t)))])\<rparr>
            else r1))"

definition reclaim_one ::
  "(string \<Rightarrow> datetime option) \<Rightarrow> instant \<Rightarrow> scheduler_lease \<Rightarrow> scheduler_db \<Rightarrow> scheduler_db" where
  "reclaim_one from_iso now l d =
     (case run_by_id d (le_run l) of
        None \<Rightarrow> d
      | Some run \<Rightarrow> update_run (rn_id run) (expired_row from_iso (job_by_id d (rn_job run)) l now)
          (update_lease (le_id l) (\<lambda>l. l\<lparr>le_released_at := Some now, le_release_reason := Some ''lease expired''\<rparr>) d))"

definition reclaim_expired_leases :: "(string \<Rightarrow> datetime option) \<Rightarrow> instant \<Rightarrow> scheduler_db \<Rightarrow> scheduler_db" where
  "reclaim_expired_leases from_iso now d =
     fold (reclaim_one from_iso now) (filter (\<lambda>l. le_released_at l = None \<and> le_expires_at l \<le> now) (sd_leases d)) d"

section \<open>Finishing and retrying\<close>

definition finish_run ::
  "scheduler_run \<Rightarrow> scheduler_job \<Rightarrow> string \<Rightarrow> pydict \<Rightarrow> string option \<Rightarrow> instant \<Rightarrow> scheduler_db \<Rightarrow> scheduler_db result" where
  "finish_run run job status result_summary error_text now d =
     (if jb_id job \<noteq> rn_job run
      then Inl (ValueError (''Scheduler job '' @ show_int (jb_id job) @ '' does not match run '' @ show_int (rn_id run)
             @ '' job_id '' @ show_int (rn_job run)))
      else (let d1 = update_run (rn_id run) (\<lambda>r. r\<lparr>rn_status := status, rn_result := Some result_summary,
                  rn_error := error_text, rn_finished_at := Some now, rn_trace := run_trace r\<rparr>) d;
                d2 = update_job (jb_id job) (\<lambda>j. j\<lparr>jb_last_finished_at := Some now,
                  jb_pause_reason := (if status = RUN_STATUS_SETTLED_SUCCESS \<and> jb_enabled j then None else jb_pause_reason j)\<rparr>) d1 in
        Inr (case rn_lease run of
               None \<Rightarrow> d2
             | Some i \<Rightarrow> if i = 0 then d2 else release_lease i (''run '' @ status) now d2)))"

definition retry_run :: "int \<Rightarrow> scheduler_db \<Rightarrow> (scheduler_run \<times> scheduler_db) result" where
  "retry_run i d =
     (case run_by_id d i of
        None \<Rightarrow> Inl (ValueError (''Scheduler run '' @ show_int i @ '' not found''))
      | Some run \<Rightarrow>
          if rn_status run = RUN_STATUS_SETTLED_SUCCESS then Inl (ValueError ''Cannot retry a successful run'')
          else (let clone = \<lparr>rn_id = sd_next_run d, rn_job = rn_job run, rn_scheduled_for = rn_scheduled_for run,
                  rn_window_start = rn_window_start run, rn_window_end = rn_window_end run,
                  rn_status = RUN_STATUS_RECORDED, rn_attempt = rn_attempt run + 1,
                  rn_key = rn_key run @ '':retry:'' @ show_int (rn_attempt run + 1), rn_payload = rn_payload run,
                  rn_result = None, rn_error = None, rn_contract = None, rn_lease = None, rn_agent_run = None,
                  rn_trace = (case rn_trace run of Some (c # cs) \<Rightarrow> Some (c # cs)
                     | _ \<Rightarrow> Some (trace_id_for_scheduler_run_id (rn_id run))),
                  rn_parent = Some (rn_id run), rn_started_at = None, rn_finished_at = None\<rparr> in
            if list_ex (\<lambda>r. rn_key r = rn_key clone) (sd_runs d) then Inl IntegrityError
            else Inr (clone, d\<lparr>sd_runs := sd_runs d @ [clone], sd_next_run := sd_next_run d + 1\<rparr>)))"

section \<open>Control of jobs\<close>

definition find_scheduler_job :: "string \<Rightarrow> scheduler_db \<Rightarrow> scheduler_job option" where
  "find_scheduler_job identifier d = find (\<lambda>j. job_matches_identifier j identifier) (sd_jobs d)"

definition require_job :: "string \<Rightarrow> scheduler_db \<Rightarrow> scheduler_job result" where
  "require_job identifier d = (case find_scheduler_job identifier d of
       None \<Rightarrow> Inl (ValueError (''Scheduler job '' @ quoted identifier @ '' not found''))
     | Some j \<Rightarrow> Inr j)"

definition set_job_pause_state ::
  "(string \<Rightarrow> zone option) \<Rightarrow> string \<Rightarrow> bool \<Rightarrow> string option \<Rightarrow> instant \<Rightarrow> scheduler_db \<Rightarrow> scheduler_db result" where
  "set_job_pause_state zones identifier paused reason now d =
     rbind (require_job identifier d) (\<lambda>job. Inr (update_job (jb_id job) (\<lambda>j.
       if paused then j\<lparr>jb_enabled := False,
           jb_pause_reason := Some (case reason of Some (c # cs) \<Rightarrow> c # cs | _ \<Rightarrow> ''paused via scheduler control'')\<rparr>
       else j\<lparr>jb_enabled := True, jb_pause_reason := None,
           jb_next_run_at := (if (case jb_next_run_at j of None \<Rightarrow> True | Some t \<Rightarrow> t \<le> now)
             then result_option (next_run_after zones (jb_cron_expr j) (jb_timezone j) now) else jb_next_run_at j)\<rparr>) d))"

definition set_job_owner_mode :: "string \<Rightarrow> string \<Rightarrow> scheduler_db \<Rightarrow> scheduler_db result" where
  "set_job_owner_mode identifier owner_mode d =
     rbind (require_job identifier d) (\<lambda>job.
     rbind (normalize_owner_mode owner_mode) (\<lambda>mode.
       if mode \<noteq> ''scheduler''
       then Inl (ValueError ''Legacy cron/mirror owner modes are retired; scheduler is the only writable owner mode'')
       else Inr (update_job (jb_id job) (\<lambda>j. j\<lparr>jb_owner_mode := mode\<rparr>) d)))"

definition set_job_load_shed :: "string \<Rightarrow> pydict \<Rightarrow> scheduler_db \<Rightarrow> scheduler_db result" where
  "set_job_load_shed identifier policy d =
     rbind (require_job identifier d) (\<lambda>job. Inr (update_job (jb_id job) (\<lambda>j. j\<lparr>jb_load_shed_policy := policy\<rparr>) d))"

section \<open>The tables of runs and leases\<close>

lemma find_key:
  assumes "distinct (map k xs)" and "x \<in> set xs"
  shows "find (\<lambda>y. k y = k x) xs = Some x"
  using assms by (induction xs) (auto simp: image_iff)

lemma find_SomeD: "find P xs = Some x \<Longrightarrow> x \<in> set xs \<and> P x"
  by (auto simp: find_Some_iff)

text \<open>
  Identifiers are unique and below the counters, a run has at most one lease row, and the lease a run points
  to is its own.
\<close>

definition lease_table_ok :: "scheduler_db \<Rightarrow> bool" where
  "lease_table_ok d =
     (distinct (map rn_id (sd_runs d)) \<and> distinct (map le_id (sd_leases d)) \<and> distinct (map le_run (sd_leases d))
      \<and> (\<forall>r \<in> set (sd_runs d). rn_id r < sd_next_run d) \<and> (\<forall>l \<in> set (sd_leases d). le_id l < sd_next_lease d)
      \<and> (\<forall>r \<in> set (sd_runs d). \<forall>i. rn_lease r = Some i \<longrightarrow> (\<exists>l \<in> set (sd_leases d). le_id l = i \<and> le_run l = rn_id r)))"

definition run_keys :: "scheduler_db \<Rightarrow> (int \<times> int \<times> string) list" where
  "run_keys d = map (\<lambda>r. (rn_id r, rn_job r, rn_key r)) (sd_runs d)"

lemma update_job_frame [simp]:
  "sd_runs (update_job i f d) = sd_runs d" "sd_leases (update_job i f d) = sd_leases d"
  "sd_next_run (update_job i f d) = sd_next_run d" "sd_next_lease (update_job i f d) = sd_next_lease d"
  by (simp_all add: update_job_def)

lemma update_lease_frame [simp]:
  "sd_runs (update_lease i g d) = sd_runs d" "sd_jobs (update_lease i g d) = sd_jobs d"
  "sd_next_run (update_lease i g d) = sd_next_run d" "sd_next_lease (update_lease i g d) = sd_next_lease d"
  by (simp_all add: update_lease_def)

lemma update_run_frame [simp]:
  "sd_leases (update_run i h d) = sd_leases d" "sd_jobs (update_run i h d) = sd_jobs d"
  "sd_next_run (update_run i h d) = sd_next_run d" "sd_next_lease (update_run i h d) = sd_next_lease d"
  by (simp_all add: update_run_def)

lemma map_if_key: "(\<And>x. k (f x) = k x) \<Longrightarrow> map k (map (\<lambda>x. if P x then f x else x) xs) = map k xs"
  by (induction xs) auto

lemma ok_update_job [simp]: "lease_table_ok (update_job i f d) = lease_table_ok d"
  by (simp add: lease_table_ok_def)

lemma ok_update_lease:
  assumes "lease_table_ok d" and "\<And>l. l \<in> set (sd_leases d) \<Longrightarrow> le_id l = i \<Longrightarrow> le_id (g l) = i \<and> le_run (g l) = le_run l"
  shows "lease_table_ok (update_lease i g d)"
proof -
  let ?h = "\<lambda>l. if le_id l = i then g l else l"
  have m: "map le_id (map ?h (sd_leases d)) = map le_id (sd_leases d)" "map le_run (map ?h (sd_leases d)) = map le_run (sd_leases d)"
    using assms(2) by (auto intro!: map_cong)
  have "\<exists>l \<in> set (map ?h (sd_leases d)). le_id l = j \<and> le_run l = n"
    if "\<exists>l \<in> set (sd_leases d). le_id l = j \<and> le_run l = n" for j n
  proof -
    from that obtain l where l: "l \<in> set (sd_leases d)" "le_id l = j" "le_run l = n" by blast
    then have "?h l \<in> set (map ?h (sd_leases d))" by simp
    moreover have "le_id (?h l) = j" "le_run (?h l) = n" using l assms(2) [of l] by auto
    ultimately show ?thesis by blast
  qed
  moreover have "\<forall>l \<in> set (map ?h (sd_leases d)). le_id l < sd_next_lease d"
    using assms unfolding lease_table_ok_def by auto
  ultimately show ?thesis
    using assms(1) m unfolding lease_table_ok_def update_lease_frame by (simp add: update_lease_def del: map_map)
qed

lemma ok_update_run:
  assumes "lease_table_ok d" and "\<And>r. rn_id (h r) = rn_id r"
    and "\<And>r. r \<in> set (sd_runs d) \<Longrightarrow> rn_id r = i \<Longrightarrow> rn_lease (h r) = rn_lease r \<or> rn_lease (h r) = None
        \<or> (\<exists>l \<in> set (sd_leases d). rn_lease (h r) = Some (le_id l) \<and> le_run l = i)"
  shows "lease_table_ok (update_run i h d)"
proof -
  have m: "map rn_id (map (\<lambda>r. if rn_id r = i then h r else r) (sd_runs d)) = map rn_id (sd_runs d)"
    using assms(2) by (rule map_if_key)
  show ?thesis
    using assms m unfolding lease_table_ok_def update_run_frame by (simp add: update_run_def del: map_map) (fastforce simp: image_iff)
qed

lemma lease_by_idD:
  "lease_by_id d i = Some l \<Longrightarrow> l \<in> set (sd_leases d) \<and> le_id l = i"
  by (auto simp: lease_by_id_def dest: find_SomeD)

lemma lease_of_run_Some:
  assumes "distinct (map le_run (sd_leases d))" and "l \<in> set (sd_leases d)"
  shows "lease_of_run d (le_run l) = Some l"
  unfolding lease_of_run_def using assms by (rule find_key)

lemma lease_by_id_Some:
  assumes "distinct (map le_id (sd_leases d))" and "l \<in> set (sd_leases d)"
  shows "lease_by_id d (le_id l) = Some l"
  unfolding lease_by_id_def using assms by (rule find_key)

lemma ok_add_lease:
  assumes "lease_table_ok d" and "le_id l = sd_next_lease d" and "le_run l \<notin> le_run ` set (sd_leases d)"
  shows "lease_table_ok (d\<lparr>sd_leases := sd_leases d @ [l], sd_next_lease := sd_next_lease d + 1\<rparr>)"
proof -
  have ids: "\<forall>x \<in> set (sd_leases d). le_id x < sd_next_lease d" using assms(1) by (simp add: lease_table_ok_def)
  then have "le_id l \<notin> le_id ` set (sd_leases d)" using assms(2) by auto
  moreover have "\<forall>x \<in> set (sd_leases d @ [l]). le_id x < sd_next_lease d + 1" using ids assms(2) by auto
  ultimately show ?thesis using assms(1,3) unfolding lease_table_ok_def by auto
qed

text \<open>A taken lease: the old one is let go, and the run's row is inserted or reused.\<close>

lemma take_lease_shape:
  assumes ok: "lease_table_ok d" and take: "take_lease run owner ttl now d = Inr (l, d1)"
  obtains d0 where "lease_table_ok d0"
    and "d0 = d \<or> (\<exists>j. d0 = update_lease j (release_row now ''reclaimed after expiry'') d)"
    and "(le_run l \<notin> le_run ` set (sd_leases d0) \<and> le_id l = sd_next_lease d0
        \<and> d1 = d0\<lparr>sd_leases := sd_leases d0 @ [l], sd_next_lease := sd_next_lease d0 + 1\<rparr>)
      \<or> (\<exists>c \<in> set (sd_leases d0). le_id l = le_id c \<and> le_run l = le_run c \<and> d1 = update_lease (le_id c) (\<lambda>_. l) d0)"
    and "le_run l = rn_id run \<and> le_owner l = fst owner \<and> le_expires_at l = now + seconds ttl \<and> le_released_at l = None"
proof -
  obtain owner_id host pid where o: "owner = (owner_id, host, pid)" by (cases owner) auto
  define current where "current = (case rn_lease run of None \<Rightarrow> None | Some i \<Rightarrow> if i = 0 then None else lease_by_id d i)"
  define d0 where "d0 = (case current of None \<Rightarrow> d
              | Some c \<Rightarrow> update_lease (le_id c) (release_row now ''reclaimed after expiry'') d)"
  have ok0: "lease_table_ok d0"
    using ok by (auto simp: d0_def release_row_def split: option.splits intro!: ok_update_lease)
  have from_d: "d0 = d \<or> (\<exists>j. d0 = update_lease j (release_row now ''reclaimed after expiry'') d)"
    by (auto simp: d0_def split: option.splits)
  have t: "(case lease_of_run d0 (rn_id run) of
          None \<Rightarrow> (let l = \<lparr>le_id = sd_next_lease d0, le_run = rn_id run, le_owner = owner_id, le_host = host, le_pid = pid,
                le_acquired_at = now, le_heartbeat_at = now, le_expires_at = now + seconds ttl, le_released_at = None,
                le_release_reason = None\<rparr> in
              Inr (l, d0\<lparr>sd_leases := sd_leases d0 @ [l], sd_next_lease := sd_next_lease d0 + 1\<rparr>))
        | Some l \<Rightarrow> (let l' = l\<lparr>le_owner := owner_id, le_host := host, le_pid := pid, le_acquired_at := now,
                le_heartbeat_at := now, le_expires_at := now + seconds ttl, le_released_at := None, le_release_reason := None\<rparr> in
              Inr (l', update_lease (le_id l) (\<lambda>_. l') d0))) = (Inr (l, d1) :: (scheduler_lease \<times> scheduler_db) result)"
    using take by (simp add: take_lease_def o Let_def current_def [symmetric] d0_def [symmetric] split: if_splits)
  show ?thesis
  proof (cases "lease_of_run d0 (rn_id run)")
    case None
    then have "rn_id run \<notin> le_run ` set (sd_leases d0)" by (auto simp: lease_of_run_def find_None_iff)
    with t None show ?thesis by (intro that [OF ok0 from_d]) (auto simp: Let_def o)
  next
    case (Some c)
    then have "c \<in> set (sd_leases d0)" "le_run c = rn_id run" by (auto simp: lease_of_run_def dest: find_SomeD)
    with t Some show ?thesis by (intro that [OF ok0 from_d]) (auto simp: Let_def o)
  qed
qed

lemma take_lease_ok:
  assumes ok: "lease_table_ok d" and take: "take_lease run owner ttl now d = Inr (l, d1)"
  shows "lease_table_ok d1 \<and> l \<in> set (sd_leases d1) \<and> le_run l = rn_id run \<and> sd_runs d1 = sd_runs d \<and> sd_jobs d1 = sd_jobs d
    \<and> sd_next_run d1 = sd_next_run d \<and> le_owner l = fst owner \<and> le_expires_at l = now + seconds ttl \<and> le_released_at l = None"
proof (rule take_lease_shape [OF ok take])
  fix d0
  assume ok0: "lease_table_ok d0" and from_d: "d0 = d \<or> (\<exists>j. d0 = update_lease j (release_row now ''reclaimed after expiry'') d)"
    and l: "le_run l = rn_id run \<and> le_owner l = fst owner \<and> le_expires_at l = now + seconds ttl \<and> le_released_at l = None"
    and d1: "(le_run l \<notin> le_run ` set (sd_leases d0) \<and> le_id l = sd_next_lease d0
        \<and> d1 = d0\<lparr>sd_leases := sd_leases d0 @ [l], sd_next_lease := sd_next_lease d0 + 1\<rparr>)
      \<or> (\<exists>c \<in> set (sd_leases d0). le_id l = le_id c \<and> le_run l = le_run c \<and> d1 = update_lease (le_id c) (\<lambda>_. l) d0)"
  have frame: "sd_runs d0 = sd_runs d" "sd_jobs d0 = sd_jobs d" "sd_next_run d0 = sd_next_run d" using from_d by auto
  from d1 show ?thesis
  proof (elim disjE bexE conjE)
    assume "le_run l \<notin> le_run ` set (sd_leases d0)" "le_id l = sd_next_lease d0"
      and "d1 = d0\<lparr>sd_leases := sd_leases d0 @ [l], sd_next_lease := sd_next_lease d0 + 1\<rparr>"
    then show ?thesis using ok_add_lease [OF ok0] frame l by simp
  next
    fix c assume c: "c \<in> set (sd_leases d0)" "le_id l = le_id c" "le_run l = le_run c" "d1 = update_lease (le_id c) (\<lambda>_. l) d0"
    have "x = c" if "x \<in> set (sd_leases d0)" "le_id x = le_id c" for x
      using that c(1) ok0 unfolding lease_table_ok_def by (metis distinct_map inj_onD)
    then have "lease_table_ok d1" unfolding c(4) using ok0 c(2,3) by (intro ok_update_lease) auto
    moreover have "l \<in> set (sd_leases d1)" using c(1) by (force simp: c(4) update_lease_def)
    ultimately show ?thesis using l frame by (simp add: c(4))
  qed
qed

lemma claim_run_ok:
  assumes ok: "lease_table_ok d" and claim: "claim_run i owner ttl now d = Inr (l, d')"
  shows "lease_table_ok d' \<and> run_keys d' = run_keys d \<and> l \<in> set (sd_leases d') \<and> le_run l = i
    \<and> le_owner l = fst owner \<and> le_expires_at l = now + seconds ttl \<and> le_released_at l = None
    \<and> (\<exists>r. run_by_id d i = Some r)"
proof -
  from claim obtain run d1 where run: "run_by_id d i = Some run" "take_lease run owner ttl now d = Inr (l, d1)"
    "d' = update_job (rn_job run) (\<lambda>j. j\<lparr>jb_last_started_at := Some now\<rparr>) (update_run i (claimed_row (le_id l) now) d1)"
    by (auto simp: claim_run_def rbind_Inr_iff split: option.splits if_splits)
  have i: "rn_id run = i" using run(1) by (auto simp: run_by_id_def dest: find_SomeD)
  from take_lease_ok [OF ok run(2)] have t: "lease_table_ok d1" "l \<in> set (sd_leases d1)" "le_run l = i" "sd_runs d1 = sd_runs d"
    "le_owner l = fst owner" "le_expires_at l = now + seconds ttl" "le_released_at l = None" by (auto simp: i)
  have row: "rn_id (claimed_row j now r) = rn_id r" "rn_lease (claimed_row j now r) = Some j"
    "rn_job (claimed_row j now r) = rn_job r" "rn_key (claimed_row j now r) = rn_key r" for j r
    by (simp_all add: claimed_row_def Let_def)
  have "lease_table_ok d'"
    unfolding run(3) ok_update_job using t by (intro ok_update_run) (auto simp: row)
  moreover have "run_keys d' = run_keys d"
    by (auto simp: run(3) run_keys_def update_run_def t(4) row)
  ultimately show ?thesis using t run by simp
qed

section \<open>Every operation keeps the tables\<close>

definition scheduler_ok :: "scheduler_db \<Rightarrow> bool" where
  "scheduler_ok d = (lease_table_ok d \<and> distinct (map rn_key (sd_runs d)))"

definition runs_kept :: "scheduler_db \<Rightarrow> scheduler_db \<Rightarrow> bool" where
  "runs_kept a b = (\<exists>xs. run_keys b = run_keys a @ xs)"

lemma keys_of_run_keys: "map rn_key (sd_runs d) = map (snd \<circ> snd) (run_keys d)"
  by (simp add: run_keys_def)

lemma same_keys: "run_keys b = run_keys a \<Longrightarrow> distinct (map rn_key (sd_runs a)) \<Longrightarrow> distinct (map rn_key (sd_runs b)) \<and> runs_kept a b"
  by (simp add: keys_of_run_keys runs_kept_def)

lemma run_keys_frame [simp]:
  "run_keys (update_job i f d) = run_keys d" "run_keys (update_lease i g d) = run_keys d"
  by (simp_all add: run_keys_def)

lemma run_keys_update_run:
  "(\<And>r. rn_id (h r) = rn_id r \<and> rn_job (h r) = rn_job r \<and> rn_key (h r) = rn_key r) \<Longrightarrow> run_keys (update_run i h d) = run_keys d"
  by (simp add: run_keys_def update_run_def)

lemma heartbeat_ok:
  assumes "lease_table_ok d" and "heartbeat_lease i ttl now d = (x, d')"
  shows "lease_table_ok d' \<and> run_keys d' = run_keys d"
proof (cases "lease_by_id d i")
  case (Some l)
  then have l: "l \<in> set (sd_leases d)" "le_id l = i" by (auto dest: lease_by_idD)
  have "y = l" if "y \<in> set (sd_leases d)" "le_id y = i" for y
    using that l assms(1) unfolding lease_table_ok_def by (metis distinct_map inj_onD)
  then have "lease_table_ok (update_lease i (\<lambda>_. l\<lparr>le_heartbeat_at := now, le_expires_at := now + seconds ttl\<rparr>) d)"
    using assms(1) l by (intro ok_update_lease) auto
  then show ?thesis using assms Some by (auto simp: heartbeat_lease_def Let_def split: if_splits)
qed (use assms in \<open>simp add: heartbeat_lease_def\<close>)

lemma release_ok:
  "lease_table_ok d \<Longrightarrow> lease_table_ok (release_lease i reason now d) \<and> run_keys (release_lease i reason now d) = run_keys d"
  by (auto simp: release_lease_def release_row_def run_keys_update_run split: option.splits
    intro!: ok_update_run ok_update_lease)

lemma expired_row_frame:
  "rn_id (expired_row from_iso j l now r) = rn_id r" "rn_job (expired_row from_iso j l now r) = rn_job r"
  "rn_key (expired_row from_iso j l now r) = rn_key r"
  "rn_lease (expired_row from_iso j l now r) = rn_lease r \<or> rn_lease (expired_row from_iso j l now r) = None"
  by (auto simp: expired_row_def Let_def split: option.splits)

lemma reclaim_one_ok:
  "lease_table_ok d \<Longrightarrow> lease_table_ok (reclaim_one from_iso now l d) \<and> run_keys (reclaim_one from_iso now l d) = run_keys d"
  by (auto simp: reclaim_one_def run_keys_update_run expired_row_frame split: option.splits
    intro!: ok_update_run ok_update_lease) (metis expired_row_frame(4))

lemma reclaim_ok:
  "lease_table_ok d \<Longrightarrow> lease_table_ok (reclaim_expired_leases from_iso now d) \<and> run_keys (reclaim_expired_leases from_iso now d) = run_keys d"
proof -
  have "lease_table_ok d \<Longrightarrow> lease_table_ok (fold (reclaim_one from_iso now) ls d) \<and> run_keys (fold (reclaim_one from_iso now) ls d) = run_keys d" for ls
    by (induction ls arbitrary: d) (simp_all add: reclaim_one_ok)
  then show "lease_table_ok d \<Longrightarrow> ?thesis" by (simp add: reclaim_expired_leases_def)
qed

lemma finish_ok:
  assumes "lease_table_ok d" and "finish_run run job status summary err now d = Inr d'"
  shows "lease_table_ok d' \<and> run_keys d' = run_keys d"
proof -
  define d2 where "d2 = update_job (jb_id job) (\<lambda>j. j\<lparr>jb_last_finished_at := Some now,
      jb_pause_reason := (if status = RUN_STATUS_SETTLED_SUCCESS \<and> jb_enabled j then None else jb_pause_reason j)\<rparr>)
    (update_run (rn_id run) (\<lambda>r. r\<lparr>rn_status := status, rn_result := Some summary,
      rn_error := err, rn_finished_at := Some now, rn_trace := run_trace r\<rparr>) d)"
  have d2: "lease_table_ok d2 \<and> run_keys d2 = run_keys d"
    using assms(1) by (auto simp: d2_def run_keys_update_run intro!: ok_update_run)
  have "d' = d2 \<or> (\<exists>i reason. d' = release_lease i reason now d2)"
    using assms(2) [unfolded finish_run_def Let_def, folded d2_def] by (auto split: if_splits option.splits)
  then show ?thesis using d2 release_ok by auto
qed

lemma retry_ok:
  assumes "scheduler_ok d" and "retry_run i d = Inr (c, d')"
  shows "scheduler_ok d' \<and> runs_kept d d'"
proof -
  from assms(2) have c: "d' = d\<lparr>sd_runs := sd_runs d @ [c], sd_next_run := sd_next_run d + 1\<rparr>" "rn_id c = sd_next_run d"
    "rn_lease c = None" "\<forall>r \<in> set (sd_runs d). rn_key r \<noteq> rn_key c"
    by (auto simp: retry_run_def Let_def list_ex_iff split: option.splits if_splits)
  have ids: "\<forall>r \<in> set (sd_runs d). rn_id r < sd_next_run d" using assms(1) by (simp add: scheduler_ok_def lease_table_ok_def)
  then have "rn_id c \<notin> rn_id ` set (sd_runs d)" using c(2) by auto
  moreover have "\<forall>r \<in> set (sd_runs d @ [c]). rn_id r < sd_next_run d + 1" using ids c(2) by auto
  ultimately show ?thesis
    using assms(1) c(3,4) unfolding scheduler_ok_def lease_table_ok_def by (auto simp: c(1) runs_kept_def run_keys_def)
qed

lemma materialize_fires_next_lease:
  "materialize_fires next now job ts l d = Inr (l', d') \<Longrightarrow> sd_next_lease d' = sd_next_lease d"
  by (induction ts arbitrary: l d) (fastforce simp: Let_def rbind_Inr_iff split: if_splits)+

lemma materialize_job_next_lease:
  "materialize_job zones now job d = Inr d' \<Longrightarrow> sd_next_lease d' = sd_next_lease d"
  by (auto simp: materialize_job_def Let_def rbind_Inr_iff split: option.splits sum.splits if_splits
    dest!: materialize_fires_next_lease)

lemma materialize_jobs_next_lease:
  "materialize_jobs zones now keys js d = Inr d' \<Longrightarrow> sd_next_lease d' = sd_next_lease d"
  by (induction js arbitrary: d) (auto simp: rbind_Inr_iff split: if_splits dest!: materialize_job_next_lease)

lemma planned_lease: "planned now r \<Longrightarrow> rn_lease r = None"
  by (simp add: planned_def)

lemma materialize_ok:
  assumes "scheduler_ok d" and "materialize_due_runs zones now modes keys d = Inr (created, d')"
  shows "scheduler_ok d' \<and> runs_kept d d'"
proof -
  have ok: "lease_table_ok d" "distinct (map rn_key (sd_runs d))" using assms(1) by (simp_all add: scheduler_ok_def)
  then have ids: "\<forall>r \<in> set (sd_runs d). rn_id r < sd_next_run d" by (simp add: lease_table_ok_def)
  from materialized [OF assms(2) ids ok(2)] have m: "sd_runs d' = sd_runs d @ created" "\<forall>r \<in> set created. rn_lease r = None"
    "distinct (map rn_key (sd_runs d'))" "distinct (map rn_id created)"
    "\<forall>r \<in> set created. sd_next_run d \<le> rn_id r \<and> rn_id r < sd_next_run d'" "sd_next_run d \<le> sd_next_run d'"
    "sd_leases d' = sd_leases d" using planned_lease by blast+
  have nl: "sd_next_lease d' = sd_next_lease d"
    using assms(2) materialize_jobs_next_lease by (auto simp: materialize_due_runs_def rbind_Inr_iff Let_def split: if_splits)
  have "distinct (map rn_id (sd_runs d'))"
    using ok(1) m(1,4,5) ids unfolding lease_table_ok_def by fastforce
  moreover have "\<forall>r \<in> set (sd_runs d'). rn_id r < sd_next_run d'" using ids m(1,5,6) by fastforce
  ultimately show ?thesis
    using ok(1) m nl unfolding scheduler_ok_def lease_table_ok_def by (auto simp: runs_kept_def run_keys_def)
qed

section \<open>Reachable databases\<close>

inductive scheduler_step :: "scheduler_db \<Rightarrow> scheduler_db \<Rightarrow> bool" where
  materialize: "materialize_due_runs zones now modes keys d = Inr (created, d') \<Longrightarrow> scheduler_step d d'"
| claim: "claim_run i owner ttl now d = Inr (l, d') \<Longrightarrow> scheduler_step d d'"
| heartbeat: "heartbeat_lease i ttl now d = (l, d') \<Longrightarrow> scheduler_step d d'"
| release: "scheduler_step d (release_lease i reason now d)"
| reclaim: "scheduler_step d (reclaim_expired_leases from_iso now d)"
| finish: "finish_run run job status summary err now d = Inr d' \<Longrightarrow> scheduler_step d d'"
| retry: "retry_run i d = Inr (clone, d') \<Longrightarrow> scheduler_step d d'"
| pause: "set_job_pause_state zones identifier paused reason now d = Inr d' \<Longrightarrow> scheduler_step d d'"
| owner_mode: "set_job_owner_mode identifier mode d = Inr d' \<Longrightarrow> scheduler_step d d'"
| load_shed: "set_job_load_shed identifier policy d = Inr d' \<Longrightarrow> scheduler_step d d'"

lemma ok_by_keys:
  "scheduler_ok d \<Longrightarrow> lease_table_ok d' \<Longrightarrow> run_keys d' = run_keys d \<Longrightarrow> scheduler_ok d' \<and> runs_kept d d'"
  using same_keys [of d' d] by (simp add: scheduler_ok_def)

lemma control_updates:
  "set_job_pause_state zones identifier paused reason now d = Inr d' \<Longrightarrow> \<exists>i f. d' = update_job i f d"
  "set_job_owner_mode identifier mode d = Inr d' \<Longrightarrow> \<exists>i f. d' = update_job i f d"
  "set_job_load_shed identifier policy d = Inr d' \<Longrightarrow> \<exists>i f. d' = update_job i f d"
  by (auto simp: set_job_pause_state_def set_job_owner_mode_def set_job_load_shed_def rbind_Inr_iff split: if_splits)

lemma step_ok:
  assumes "scheduler_step d d'" and ok: "scheduler_ok d"
  shows "scheduler_ok d' \<and> runs_kept d d'"
proof -
  have t: "lease_table_ok d" using ok by (simp add: scheduler_ok_def)
  have control: "scheduler_ok (update_job i f d) \<and> runs_kept d (update_job i f d)" for i f
    using ok t by (intro ok_by_keys) simp_all
  from assms(1) show ?thesis
  proof cases
    case (materialize zones now modes keys created)
    then show ?thesis using materialize_ok ok by blast
  next
    case (retry i clone)
    then show ?thesis using retry_ok ok by blast
  next
    case (claim i owner ttl now l)
    then show ?thesis using claim_run_ok [OF t claim] by (intro ok_by_keys [OF ok]) simp_all
  next
    case (heartbeat i ttl now l)
    then show ?thesis using heartbeat_ok [OF t heartbeat] by (intro ok_by_keys [OF ok]) simp_all
  next
    case (release i reason now)
    then show ?thesis using release_ok [OF t] by (intro ok_by_keys [OF ok]) simp_all
  next
    case (reclaim from_iso now)
    then show ?thesis using reclaim_ok [OF t] by (intro ok_by_keys [OF ok]) simp_all
  next
    case (finish run job status summary err now)
    then show ?thesis using finish_ok [OF t finish] by (intro ok_by_keys [OF ok]) simp_all
  next
    case (pause zones ident paused reason now)
    then show ?thesis using control control_updates(1) [OF pause] by blast
  next
    case (owner_mode ident mode)
    then show ?thesis using control control_updates(2) [OF owner_mode] by blast
  next
    case (load_shed ident policy)
    then show ?thesis using control control_updates(3) [OF load_shed] by blast
  qed
qed

interpretation scheduler_ledger: ledger scheduler_ok runs_kept scheduler_step
proof
  show "runs_kept d d" for d by (simp add: runs_kept_def)
  show "runs_kept a c" if "runs_kept a b" "runs_kept b c" for a b c using that by (auto simp: runs_kept_def)
qed (use step_ok in blast)+

section \<open>Counting leases\<close>

definition leases_of_job :: "scheduler_db \<Rightarrow> int \<Rightarrow> instant \<Rightarrow> scheduler_lease list" where
  "leases_of_job d j now =
     filter (\<lambda>l. lease_live now l \<and> (\<exists>r \<in> set (sd_runs d). rn_id r = le_run l \<and> rn_job r = j)) (sd_leases d)"

lemma filter_one:
  assumes "distinct (map rn_id rs)"
  shows "length (filter (\<lambda>r. n = rn_id r \<and> P r) rs) = (if \<exists>r \<in> set rs. rn_id r = n \<and> P r then 1 else 0)"
  using assms
proof (induction rs)
  case (Cons r rs)
  then have "rn_id r = n \<Longrightarrow> filter (\<lambda>r. n = rn_id r \<and> P r) rs = []" by (auto simp: filter_empty_conv)
  with Cons show ?case by auto
qed simp

lemma active_count_eq:
  assumes "distinct (map rn_id (sd_runs d))"
  shows "active_lease_count d j now = int (length (leases_of_job d j now))"
proof -
  have "length (concat (map (\<lambda>l. filter (\<lambda>r. le_run l = rn_id r \<and> rn_job r = j) (sd_runs d)) ls))
      = length (filter (\<lambda>l. \<exists>r \<in> set (sd_runs d). rn_id r = le_run l \<and> rn_job r = j) ls)" for ls
    by (induction ls) (simp_all add: filter_one [OF assms])
  from this [of "filter (\<lambda>l. le_released_at l = None \<and> now < le_expires_at l) (sd_leases d)"] show ?thesis
    by (simp add: active_lease_count_def leases_of_job_def lease_live_def conj_assoc)
qed

lemma filter_update_le:
  "(\<And>l. Q (g l) \<Longrightarrow> Q l) \<Longrightarrow> length (filter Q (map (\<lambda>l. if le_id l = i then g l else l) xs)) \<le> length (filter Q xs)"
  by (induction xs) (auto simp: le_SucI)

lemma filter_update_one:
  "distinct (map le_id xs) \<Longrightarrow> length (filter Q (map (\<lambda>l. if le_id l = i then g l else l) xs)) \<le> Suc (length (filter Q xs))"
proof (induction xs)
  case (Cons x xs)
  show ?case
  proof (cases "le_id x = i")
    case True
    have "le_id y \<noteq> i" if "y \<in> set xs" for y
    proof
      assume "le_id y = i"
      then have "le_id x \<in> le_id ` set xs" using that True by (intro image_eqI [of _ _ y]) simp_all
      then show False using Cons.prems by simp
    qed
    then have "map (\<lambda>l. if le_id l = i then g l else l) xs = xs" by (intro map_idI) simp
    then show ?thesis by (auto simp: True le_SucI)
  qed (use Cons in auto)
qed simp

lemma take_lease_count:
  assumes ok: "lease_table_ok d" and take: "take_lease run owner ttl now d = Inr (l, d1)"
    and Q: "\<And>x reason. Q (release_row now reason x) \<Longrightarrow> Q x"
  shows "length (filter Q (sd_leases d1)) \<le> Suc (length (filter Q (sd_leases d)))"
proof (rule take_lease_shape [OF ok take])
  fix d0
  assume ok0: "lease_table_ok d0" and from_d: "d0 = d \<or> (\<exists>j. d0 = update_lease j (release_row now ''reclaimed after expiry'') d)"
    and d1: "(le_run l \<notin> le_run ` set (sd_leases d0) \<and> le_id l = sd_next_lease d0
        \<and> d1 = d0\<lparr>sd_leases := sd_leases d0 @ [l], sd_next_lease := sd_next_lease d0 + 1\<rparr>)
      \<or> (\<exists>c \<in> set (sd_leases d0). le_id l = le_id c \<and> le_run l = le_run c \<and> d1 = update_lease (le_id c) (\<lambda>_. l) d0)"
  have le: "length (filter Q (sd_leases (update_lease j (release_row now reason) d))) \<le> length (filter Q (sd_leases d))" for j reason
    unfolding update_lease_def by (simp del: length_filter_map filter_map) (rule filter_update_le, rule Q)
  have one: "length (filter Q (sd_leases (update_lease j g d0))) \<le> Suc (length (filter Q (sd_leases d0)))" for j g
    using filter_update_one [of "sd_leases d0" Q j g] ok0 by (simp add: update_lease_def lease_table_ok_def del: length_filter_map)
  have "length (filter Q (sd_leases d0)) \<le> length (filter Q (sd_leases d))" using from_d le by auto
  moreover have "length (filter Q (sd_leases d1)) \<le> Suc (length (filter Q (sd_leases d0)))" using d1 one by auto
  ultimately show ?thesis by linarith
qed

lemma claim_run_count:
  assumes ok: "lease_table_ok d" and claim: "claim_run i owner ttl now d = Inr (l, d')"
  shows "active_lease_count d' j now \<le> active_lease_count d j now + 1"
proof -
  from claim obtain run d1 where run: "run_by_id d i = Some run" "take_lease run owner ttl now d = Inr (l, d1)"
    "d' = update_job (rn_job run) (\<lambda>j. j\<lparr>jb_last_started_at := Some now\<rparr>) (update_run i (claimed_row (le_id l) now) d1)"
    by (auto simp: claim_run_def rbind_Inr_iff split: option.splits if_splits)
  have keys: "run_keys d' = run_keys d" and ok': "lease_table_ok d'" using claim_run_ok [OF ok claim] by simp_all
  define Q where "Q x = (lease_live now x \<and> (\<exists>r \<in> set (sd_runs d). rn_id r = le_run x \<and> rn_job r = j))" for x
  have mem: "(\<exists>r \<in> set (sd_runs e). rn_id r = n \<and> rn_job r = j) \<longleftrightarrow> (\<exists>k. (n, j, k) \<in> set (run_keys e))" for e n
    by (auto simp: run_keys_def image_iff)
  have "leases_of_job d' j now = filter Q (sd_leases d1)"
    unfolding leases_of_job_def Q_def mem keys by (simp add: run(3))
  moreover have "length (filter Q (sd_leases d1)) \<le> Suc (length (filter Q (sd_leases d)))"
    by (rule take_lease_count [OF ok run(2)]) (auto simp: Q_def release_row_def lease_live_def split: if_splits)
  moreover have "leases_of_job d j now = filter Q (sd_leases d)" by (simp add: leases_of_job_def Q_def [abs_def])
  moreover have "distinct (map rn_id (sd_runs d))" "distinct (map rn_id (sd_runs d'))"
    using ok ok' by (simp_all add: lease_table_ok_def)
  ultimately show ?thesis by (simp add: active_count_eq)
qed

lemma claim_from_jobs_limit:
  assumes ok: "lease_table_ok d"
  shows "\<exists>res. claim_from_jobs from_iso keys owner ttl now js d = Inr res \<and> (\<forall>l d'. res = Some (l, d') \<longrightarrow>
    (\<exists>job \<in> set js. (\<exists>r \<in> set (sd_runs d). rn_id r = le_run l \<and> rn_job r = jb_id job \<and> rn_scheduled_for r \<le> now)
      \<and> active_lease_count d' (jb_id job) now \<le> concurrency_limit job))"
proof (induction js)
  case (Cons j js)
  show ?case
  proof (cases "\<not> selected_job keys j \<or> concurrency_limit j \<le> active_lease_count d (jb_id j) now
      \<or> find (claimable_now from_iso j now) (claim_candidates j now d) = None")
    case True
    then have "claim_from_jobs from_iso keys owner ttl now (j # js) d = claim_from_jobs from_iso keys owner ttl now js d"
      by auto
    with Cons show ?thesis by (metis list.set_intros(2))
  next
    case False
    then obtain r where r: "find (claimable_now from_iso j now) (claim_candidates j now d) = Some r" by blast
    then have m: "r \<in> set (sd_runs d)" "rn_job r = jb_id j" "rn_lease r = None" "rn_scheduled_for r \<le> now"
      "rn_status r \<in> {RUN_STATUS_RECORDED, RUN_STATUS_RETRYABLE, RUN_STATUS_EXPIRED, ''shed''}"
      by (auto simp: claim_candidates_def dest: find_SomeD)
    have row: "run_by_id d (rn_id r) = Some r"
      unfolding run_by_id_def using ok m(1) by (intro find_key) (simp_all add: lease_table_ok_def)
    have "\<exists>l d'. claim_run (rn_id r) owner ttl now d = Inr (l, d')"
      using m(3,5) by (cases owner) (auto simp: claim_run_def row take_lease_def Let_def run_status_defs split: option.splits)
    then obtain l d' where claim: "claim_run (rn_id r) owner ttl now d = Inr (l, d')" by blast
    have "le_run l = rn_id r" using claim_run_ok [OF ok claim] by simp
    moreover have "active_lease_count d' (jb_id j) now \<le> concurrency_limit j"
      using claim_run_count [OF ok claim, of "jb_id j"] False by linarith
    moreover have "claim_from_jobs from_iso keys owner ttl now (j # js) d = Inr (Some (l, d'))"
      using False r claim by simp
    ultimately show ?thesis using m by auto
  qed
qed simp

lemma claim_keeps_leases:
  assumes ok: "lease_table_ok d" and claim: "claim_run i owner ttl now d = Inr (l, d')" and x: "x \<in> set (sd_leases d)"
  shows "\<exists>y \<in> set (sd_leases d'). le_id y = le_id x \<and> le_run y = le_run x"
proof -
  have upd: "\<exists>y \<in> set (sd_leases (update_lease j g e)). le_id y = le_id x \<and> le_run y = le_run x"
    if has: "\<exists>y \<in> set (sd_leases e). le_id y = le_id x \<and> le_run y = le_run x"
      and keep: "\<forall>y \<in> set (sd_leases e). le_id y = j \<longrightarrow> le_id (g y) = le_id y \<and> le_run (g y) = le_run y" for j g e
  proof -
    obtain y where y: "y \<in> set (sd_leases e)" "le_id y = le_id x" "le_run y = le_run x" using has by blast
    let ?y = "if le_id y = j then g y else y"
    have "?y \<in> set (sd_leases (update_lease j g e))" using y(1) by (simp add: update_lease_def)
    moreover have "le_id ?y = le_id x" "le_run ?y = le_run x" using y keep by auto
    ultimately show ?thesis by blast
  qed
  from claim obtain run d1 where run: "take_lease run owner ttl now d = Inr (l, d1)"
    "d' = update_job (rn_job run) (\<lambda>j. j\<lparr>jb_last_started_at := Some now\<rparr>) (update_run i (claimed_row (le_id l) now) d1)"
    by (auto simp: claim_run_def rbind_Inr_iff split: option.splits if_splits)
  have "\<exists>y \<in> set (sd_leases d1). le_id y = le_id x \<and> le_run y = le_run x"
  proof (rule take_lease_shape [OF ok run(1)])
    fix d0
    assume ok0: "lease_table_ok d0" and from_d: "d0 = d \<or> (\<exists>j. d0 = update_lease j (release_row now ''reclaimed after expiry'') d)"
      and d1: "(le_run l \<notin> le_run ` set (sd_leases d0) \<and> le_id l = sd_next_lease d0
          \<and> d1 = d0\<lparr>sd_leases := sd_leases d0 @ [l], sd_next_lease := sd_next_lease d0 + 1\<rparr>)
        \<or> (\<exists>c \<in> set (sd_leases d0). le_id l = le_id c \<and> le_run l = le_run c \<and> d1 = update_lease (le_id c) (\<lambda>_. l) d0)"
    have 0: "\<exists>y \<in> set (sd_leases d0). le_id y = le_id x \<and> le_run y = le_run x"
      using from_d x by (auto simp: release_row_def intro!: upd)
    from d1 show ?thesis
    proof (elim disjE bexE conjE)
      fix c assume c: "c \<in> set (sd_leases d0)" "le_id l = le_id c" "le_run l = le_run c" "d1 = update_lease (le_id c) (\<lambda>_. l) d0"
      have "y = c" if "y \<in> set (sd_leases d0)" "le_id y = le_id c" for y
        using that c(1) ok0 unfolding lease_table_ok_def by (metis distinct_map inj_onD)
      then show ?thesis unfolding c(4) using c(2,3) by (intro upd [OF 0]) auto
    qed (use 0 in auto)
  qed
  then show ?thesis by (simp add: run(2))
qed

section \<open>Properties\<close>

definition ex_lease_db :: scheduler_db where
  "ex_lease_db = \<lparr>sd_jobs = [ex_job], sd_runs = [new_run 1 ex_job 0 (RUN_STATUS_RECORDED, None) []], sd_leases = [],
     sd_next_run = 2, sd_next_lease = 1\<rparr>"

lemma ex_lease_ok: "lease_table_ok ex_lease_db" "scheduler_ok ex_lease_db"
  by (simp_all add: lease_table_ok_def scheduler_ok_def ex_lease_db_def new_run_def)

text \<open>
  C25: over any operations of the scheduler identifiers and keys stay unique, a run has at most one lease row,
  a run points only to its own lease, and no run is lost or renamed.
\<close>
theorem scheduler_tables_consistent:
  assumes "scheduler_step\<^sup>*\<^sup>* d d'" and "scheduler_ok d"
  shows "scheduler_ok d' \<and> runs_kept d d'"
  using scheduler_ledger.reachable [OF assms] .

lemma scheduler_tables_consistent_witness:
  "scheduler_ok (reclaim_expired_leases (\<lambda>_. None) 5 (release_lease 1 ''done'' 4 ex_lease_db))"
proof -
  have "scheduler_step\<^sup>*\<^sup>* ex_lease_db (reclaim_expired_leases (\<lambda>_. None) 5 (release_lease 1 ''done'' 4 ex_lease_db))"
    by (rule rtranclp.rtrancl_into_rtrancl, rule r_into_rtranclp, rule scheduler_step.release, rule scheduler_step.reclaim)
  from scheduler_tables_consistent [OF this ex_lease_ok(2)] show ?thesis by simp
qed

text \<open>
  The search for the next due run never raises, and a run it claims is a due run of an eligible job whose
  live leases, the new one included, stay within the job's limit.
\<close>
theorem claim_next_respects_limit:
  assumes "lease_table_ok d"
  shows "\<exists>res. claim_next_due_run from_iso modes keys owner ttl now d = Inr res \<and> (\<forall>l d'. res = Some (l, d') \<longrightarrow>
    (\<exists>job \<in> set (eligible_jobs modes d).
      (\<exists>r \<in> set (sd_runs d). rn_id r = le_run l \<and> rn_job r = jb_id job \<and> rn_scheduled_for r \<le> now)
      \<and> active_lease_count d' (jb_id job) now \<le> concurrency_limit job))"
proof (cases "modes = []")
  case False
  then show ?thesis using claim_from_jobs_limit [OF assms] by (simp add: claim_next_due_run_def)
qed (simp add: claim_next_due_run_def)

lemma claim_next_respects_limit_witness:
  "\<exists>res. claim_next_due_run (\<lambda>_. None) [''scheduler''] [] (''me'', ''host'', 1) 60 5 ex_lease_db = Inr res"
  using claim_next_respects_limit [OF ex_lease_ok(1)] by blast

text \<open>
  A lease identifier does not fence: when a run is claimed again after its lease expired, the new owner gets
  the same lease, and a heartbeat with the identifier the first owner still has extends the new owner's lease.
\<close>
theorem superseded_lease_still_beats:
  assumes "lease_table_ok d" and "claim_run i owner ttl t d = Inr (l, d1)"
    and "claim_run i owner' ttl' t' d1 = Inr (l', d2)"
  shows "le_id l' = le_id l \<and> (\<exists>x d3. heartbeat_lease (le_id l) ttl now d2 = (Some x, d3)
    \<and> le_owner x = fst owner' \<and> le_expires_at x = now + seconds ttl)"
proof -
  have 1: "lease_table_ok d1" "l \<in> set (sd_leases d1)" "le_run l = i" using claim_run_ok [OF assms(1,2)] by simp_all
  have 2: "lease_table_ok d2" "l' \<in> set (sd_leases d2)" "le_run l' = i" "le_owner l' = fst owner'" "le_released_at l' = None"
    using claim_run_ok [OF 1(1) assms(3)] by simp_all
  have "\<exists>x \<in> set (sd_leases d2). le_id x = le_id l \<and> le_run x = le_run l"
    by (rule claim_keeps_leases [OF 1(1) assms(3) 1(2)])
  then have id: "le_id l' = le_id l"
    using 2(1-3) 1(3) unfolding lease_table_ok_def by (metis distinct_map inj_onD)
  have "lease_by_id d2 (le_id l) = Some l'"
    using 2(1,2) id lease_by_id_Some unfolding lease_table_ok_def by metis
  then show ?thesis using 2 id by (simp add: heartbeat_lease_def Let_def)
qed

definition ex_lease :: scheduler_lease where
  "ex_lease = \<lparr>le_id = 1, le_run = 1, le_owner = ''a'', le_host = ''h'', le_pid = 1, le_acquired_at = 0, le_heartbeat_at = 0,
     le_expires_at = seconds 60, le_released_at = None, le_release_reason = None\<rparr>"

definition ex_claimed_run :: scheduler_run where
  "ex_claimed_run = (new_run 1 ex_job 0 (RUN_STATUS_RECORDED, None) [])\<lparr>rn_lease := Some 1, rn_status := RUN_STATUS_CLAIMED,
     rn_trace := Some (trace_id_for_scheduler_run_id 1), rn_started_at := Some 0\<rparr>"

definition ex_claimed_db :: scheduler_db where
  "ex_claimed_db = \<lparr>sd_jobs = [ex_job\<lparr>jb_last_started_at := Some 0\<rparr>], sd_runs = [ex_claimed_run], sd_leases = [ex_lease],
     sd_next_run = 2, sd_next_lease = 2\<rparr>"

lemma ex_first_claim: "claim_run 1 (''a'', ''h'', 1) 60 0 ex_lease_db = Inr (ex_lease, ex_claimed_db)"
proof -
  have "normalize_run_status (Some ''recorded'') = ''recorded''" by code_simp
  then show ?thesis
    by (simp add: claim_run_def ex_lease_db_def run_by_id_def new_run_def take_lease_def lease_of_run_def Let_def run_status_defs
      claimed_row_def run_trace_def ex_lease_def ex_claimed_db_def ex_claimed_run_def update_job_def update_run_def ex_job_def)
qed

lemma superseded_lease_still_beats_witness:
  "\<exists>l' d2. claim_run 1 (''b'', ''h'', 2) 60 (seconds 70) ex_claimed_db = Inr (l', d2) \<and> le_id l' = le_id ex_lease"
proof -
  have "\<exists>l' d2. claim_run 1 (''b'', ''h'', 2) 60 (seconds 70) ex_claimed_db = Inr (l', d2)"
    by (simp add: claim_run_def ex_claimed_db_def run_by_id_def ex_claimed_run_def new_run_def take_lease_def lease_by_id_def ex_lease_def
      lease_live_def seconds_def Let_def run_status_defs split: option.splits)
  then obtain l' d2 where 2: "claim_run 1 (''b'', ''h'', 2) 60 (seconds 70) ex_claimed_db = Inr (l', d2)" by blast
  show ?thesis using superseded_lease_still_beats [OF ex_lease_ok(1) ex_first_claim 2] 2 by blast
qed

end
