(* ===== verification/Scheduler_Overdue.thy ===== *)
theory Scheduler_Overdue
  imports Scheduler_Leases
begin

text \<open>
  The watch over the scheduler itself (\<open>app/scheduler/overdue_monitor.py\<close>, \<open>overdue_alert_state.py\<close>,
  \<open>health_policy.py\<close> and the candidates of \<open>read_models.py\<close>): API replicas look for jobs past their due time, share
  one durable freeze latch that paces the alerts, and restart the scheduler a bounded number of times. What the confirmation
  reads, whether a restart is queued and whether an alert is delivered are arguments. Durations are in seconds.
\<close>

section \<open>Latches\<close>

definition SCHEDULER_OVERDUE_FREEZE_ALERT_KEY :: string where
  "SCHEDULER_OVERDUE_FREEZE_ALERT_KEY = ''scheduler_overdue_freeze''"

definition SCHEDULER_SELF_HEAL_ALERT_KEY :: string where
  "SCHEDULER_SELF_HEAL_ALERT_KEY = ''scheduler_self_heal''"

record alert_latch =
  al_alert_key :: string
  al_alerted_at :: instant
  al_freeze_started_at :: "instant option"
  al_next_alert_at :: "instant option"
  al_attempt_count :: int

definition latch_row :: "alert_latch list \<Rightarrow> string \<Rightarrow> alert_latch option" where
  "latch_row ls key = find (\<lambda>l. al_alert_key l = key) ls"

definition update_latch :: "string \<Rightarrow> (alert_latch \<Rightarrow> alert_latch) \<Rightarrow> alert_latch list \<Rightarrow> alert_latch list" where
  "update_latch key f ls = map (\<lambda>l. if al_alert_key l = key then f l else l) ls"

record overdue_alert_state =
  oa_alerted_at :: instant
  oa_freeze_started_at :: "instant option"
  oa_next_alert_at :: "instant option"
  oa_self_heal_attempts :: int

record self_heal_state =
  sh_attempt :: "int option"
  sh_attempts :: int
  sh_exhausted :: bool
  sh_freeze_started_at :: "instant option"

text \<open>\<open>INSERT ... ON CONFLICT DO NOTHING\<close>.\<close>

definition try_claim_scheduler_alert :: "string \<Rightarrow> instant \<Rightarrow> alert_latch list \<Rightarrow> bool \<times> alert_latch list" where
  "try_claim_scheduler_alert key alerted_at ls = (case latch_row ls key of
       Some _ \<Rightarrow> (False, ls)
     | None \<Rightarrow> (True, ls @ [\<lparr>al_alert_key = key, al_alerted_at = alerted_at, al_freeze_started_at = None,
         al_next_alert_at = None, al_attempt_count = 0\<rparr>]))"

definition release_scheduler_alert :: "string \<Rightarrow> alert_latch list \<Rightarrow> alert_latch list" where
  "release_scheduler_alert key ls = filter (\<lambda>l. al_alert_key l \<noteq> key) ls"

text \<open>\<open>INSERT ... ON CONFLICT DO UPDATE ... WHERE\<close>: the first alert of a freeze, or one due escalation of it.\<close>

definition claim_overdue_alert :: "instant \<Rightarrow> instant \<Rightarrow> instant \<Rightarrow> alert_latch list \<Rightarrow> bool \<times> alert_latch list" where
  "claim_overdue_alert alerted_at freeze next_alert ls =
     (let key = SCHEDULER_OVERDUE_FREEZE_ALERT_KEY in
      case latch_row ls key of
        None \<Rightarrow> (True, ls @ [\<lparr>al_alert_key = key, al_alerted_at = alerted_at, al_freeze_started_at = Some freeze,
          al_next_alert_at = Some next_alert, al_attempt_count = 0\<rparr>])
      | Some l \<Rightarrow>
          if al_freeze_started_at l = None
            \<or> (al_freeze_started_at l = Some freeze
               \<and> (case al_next_alert_at l of None \<Rightarrow> True | Some t \<Rightarrow> t \<le> alerted_at))
          then (True, update_latch key (\<lambda>l. l\<lparr>al_alerted_at := alerted_at, al_freeze_started_at := Some freeze,
                 al_next_alert_at := Some next_alert\<rparr>) ls)
          else (False, ls))"

text \<open>The attempts recorded for an episode; no row counts as none.\<close>

definition heal_attempts :: "alert_latch list \<Rightarrow> instant option \<Rightarrow> int" where
  "heal_attempts ls freeze = (case latch_row ls SCHEDULER_SELF_HEAL_ALERT_KEY of
       None \<Rightarrow> 0 | Some l \<Rightarrow> if al_freeze_started_at l = freeze then al_attempt_count l else 0)"

definition release_overdue_alert :: "alert_latch list \<Rightarrow> overdue_alert_state option \<times> alert_latch list" where
  "release_overdue_alert ls = (case latch_row ls SCHEDULER_OVERDUE_FREEZE_ALERT_KEY of
       None \<Rightarrow> (None, ls)
     | Some l \<Rightarrow> (Some \<lparr>oa_alerted_at = al_alerted_at l, oa_freeze_started_at = al_freeze_started_at l,
           oa_next_alert_at = al_next_alert_at l, oa_self_heal_attempts = heal_attempts ls (al_freeze_started_at l)\<rparr>,
         release_scheduler_alert SCHEDULER_OVERDUE_FREEZE_ALERT_KEY ls))"

definition unclaimed_state :: "alert_latch list \<Rightarrow> instant \<Rightarrow> int \<Rightarrow> self_heal_state" where
  "unclaimed_state ls freeze max_attempts =
     \<lparr>sh_attempt = None, sh_attempts = heal_attempts ls (Some freeze),
      sh_exhausted = (max_attempts \<le> heal_attempts ls (Some freeze)), sh_freeze_started_at = Some freeze\<rparr>"

definition granted_state :: "int \<Rightarrow> instant \<Rightarrow> self_heal_state" where
  "granted_state attempt freeze =
     \<lparr>sh_attempt = Some attempt, sh_attempts = attempt, sh_exhausted = False, sh_freeze_started_at = Some freeze\<rparr>"

definition try_claim_self_heal ::
  "instant \<Rightarrow> instant \<Rightarrow> instant \<Rightarrow> int \<Rightarrow> alert_latch list \<Rightarrow> self_heal_state \<times> alert_latch list" where
  "try_claim_self_heal attempted_at freeze next_attempt max_attempts ls =
     (let key = SCHEDULER_SELF_HEAL_ALERT_KEY in
      case latch_row ls key of
        None \<Rightarrow> (granted_state 1 freeze, ls @ [\<lparr>al_alert_key = key, al_alerted_at = attempted_at,
          al_freeze_started_at = Some freeze, al_next_alert_at = Some next_attempt, al_attempt_count = 1\<rparr>])
      | Some l \<Rightarrow>
          (let other = (al_freeze_started_at l \<noteq> Some freeze);
               attempt = (if other then 1 else al_attempt_count l + 1) in
           if other \<or> (al_attempt_count l < max_attempts
                \<and> (case al_next_alert_at l of None \<Rightarrow> True | Some t \<Rightarrow> t \<le> attempted_at))
           then (granted_state attempt freeze, update_latch key (\<lambda>l. l\<lparr>al_alerted_at := attempted_at,
                  al_freeze_started_at := Some freeze, al_next_alert_at := Some next_attempt, al_attempt_count := attempt\<rparr>) ls)
           else (unclaimed_state ls freeze max_attempts, ls)))"

definition claim_self_heal :: "instant \<Rightarrow> int \<Rightarrow> int \<Rightarrow> alert_latch list \<Rightarrow> self_heal_state \<times> alert_latch list" where
  "claim_self_heal attempted_at heal_after max_attempts ls =
     (case Option.bind (latch_row ls SCHEDULER_OVERDUE_FREEZE_ALERT_KEY) al_freeze_started_at of
        None \<Rightarrow> (\<lparr>sh_attempt = None, sh_attempts = 0, sh_exhausted = False, sh_freeze_started_at = None\<rparr>, ls)
      | Some freeze \<Rightarrow>
          if attempted_at < freeze + seconds heal_after then (unclaimed_state ls freeze max_attempts, ls)
          else try_claim_self_heal attempted_at freeze (attempted_at + seconds heal_after) max_attempts ls)"

definition release_self_heal_claim :: "instant \<Rightarrow> instant \<Rightarrow> int \<Rightarrow> alert_latch list \<Rightarrow> alert_latch list" where
  "release_self_heal_claim attempted_at freeze attempt ls =
     map (\<lambda>l. if al_alert_key l = SCHEDULER_SELF_HEAL_ALERT_KEY \<and> al_alerted_at l = attempted_at
                 \<and> al_freeze_started_at l = Some freeze \<and> al_attempt_count l = attempt
              then l\<lparr>al_attempt_count := max 0 (attempt - 1), al_next_alert_at := Some attempted_at\<rparr> else l) ls"

section \<open>Health policy and candidates\<close>

definition scheduler_self_heal_after :: "environ \<Rightarrow> int" where
  "scheduler_self_heal_after env = 60 * max 1 (getenv_int env ''SCHEDULER_SELF_HEAL_AFTER_MINUTES'' 10)"

definition scheduler_self_heal_max_attempts :: "environ \<Rightarrow> int" where
  "scheduler_self_heal_max_attempts env = max 1 (getenv_int env ''SCHEDULER_SELF_HEAL_MAX_ATTEMPTS'' 2)"

record overdue_candidate =
  oc_job_key :: string
  oc_next_run_at :: instant

definition lag_seconds_at :: "instant \<Rightarrow> overdue_candidate \<Rightarrow> int" where
  "lag_seconds_at now c = max 0 ((now - oc_next_run_at c) div 1000000)"

text \<open>A job is watched when it is due, may run, and no live lease is executing it.\<close>

definition actively_running :: "scheduler_db \<Rightarrow> instant \<Rightarrow> scheduler_job \<Rightarrow> bool" where
  "actively_running d now j = list_ex (\<lambda>r. rn_job r = jb_id j \<and> rn_status r \<in> {RUN_STATUS_CLAIMED, ''running'', ''executing''}
     \<and> list_ex (\<lambda>l. rn_lease r = Some (le_id l) \<and> lease_live now l) (sd_leases d)) (sd_runs d)"

definition job_overdue :: "scheduler_db \<Rightarrow> instant \<Rightarrow> scheduler_job \<Rightarrow> overdue_candidate option" where
  "job_overdue d now j = (case jb_next_run_at j of
       None \<Rightarrow> None
     | Some t \<Rightarrow> if jb_owner_mode j = ''scheduler'' \<and> jb_enabled j \<and> jb_pause_reason j = None \<and> t \<le> now
           \<and> \<not> actively_running d now j
         then Some \<lparr>oc_job_key = jb_key j, oc_next_run_at = t\<rparr> else None)"

definition overdue_candidates :: "instant \<Rightarrow> scheduler_db \<Rightarrow> overdue_candidate list" where
  "overdue_candidates now d =
     sort_key oc_next_run_at (sort_key oc_job_key (List.map_filter (job_overdue d now) (sd_jobs d)))"

section \<open>The monitor\<close>

definition overdue_after :: int where "overdue_after = 15 * 60"

definition escalation_thresholds :: "int list" where
  "escalation_thresholds = [3600, 4 * 3600, 12 * 3600]"

definition repeat_escalation_interval :: int where "repeat_escalation_interval = 12 * 3600"

definition candidates_past_threshold :: "instant \<Rightarrow> overdue_candidate list \<Rightarrow> overdue_candidate list" where
  "candidates_past_threshold now cs = filter (\<lambda>c. overdue_after < lag_seconds_at now c) cs"

fun freeze_started_at :: "overdue_candidate list \<Rightarrow> instant" where
  "freeze_started_at [] = 0"
| "freeze_started_at [c] = oc_next_run_at c + seconds overdue_after"
| "freeze_started_at (c # cs) = min (oc_next_run_at c + seconds overdue_after) (freeze_started_at cs)"

definition freeze_is_current :: "instant \<Rightarrow> instant option \<Rightarrow> scheduler_db \<Rightarrow> alert_latch list \<Rightarrow> bool" where
  "freeze_is_current now freeze d ls =
     (candidates_past_threshold now (overdue_candidates now d) \<noteq> []
      \<and> (freeze = None \<or> Option.bind (latch_row ls SCHEDULER_OVERDUE_FREEZE_ALERT_KEY) al_freeze_started_at = freeze))"

fun first_threshold :: "int list \<Rightarrow> int \<Rightarrow> int option" where
  "first_threshold [] elapsed = None"
| "first_threshold (t # ts) elapsed = (if elapsed < seconds t then Some t else first_threshold ts elapsed)"

definition next_escalation_at :: "instant \<Rightarrow> instant \<Rightarrow> instant" where
  "next_escalation_at freeze now =
     (let elapsed = now - freeze in
      case first_threshold escalation_thresholds elapsed of
        Some t \<Rightarrow> freeze + seconds t
      | None \<Rightarrow> freeze + (elapsed div seconds repeat_escalation_interval + 1) * seconds repeat_escalation_interval)"

definition elapsed_text :: "instant \<Rightarrow> instant \<Rightarrow> string" where
  "elapsed_text started_at ended_at =
     (let elapsed = max 0 ((ended_at - started_at) div seconds 60); hours = elapsed div 60; minutes = elapsed mod 60 in
      if hours \<noteq> 0 \<and> minutes \<noteq> 0 then show_int hours @ ''h '' @ show_int minutes @ ''m''
      else if hours \<noteq> 0 then show_int hours @ ''h'' else show_int minutes @ ''m'')"

definition overdue_summary :: "instant \<Rightarrow> instant option \<Rightarrow> int \<Rightarrow> overdue_candidate list \<Rightarrow> string" where
  "overdue_summary now last_tick failed_attempts cs =
     (let job_lines = map (\<lambda>c. ''- '' @ oc_job_key c @ '': '' @ show_int (lag_seconds_at now c div 60) @ ''m overdue (due ''
            @ isoformat (oc_next_run_at c) @ '')'') cs;
          daemon_line = (case last_tick of
            None \<Rightarrow> ''Daemon last tick and freeze duration are unknown.''
          | Some t \<Rightarrow> ''Daemon has not ticked for '' @ elapsed_text t now @ '' (last tick '' @ isoformat t @ '').'')
      in py_join [char_of (10::nat)] ([''Overdue jobs:''] @ job_lines @ [daemon_line]
           @ (if failed_attempts = 0 then []
              else [''Self-heal failed after '' @ show_int failed_attempts @ '' attempts; a human is needed.''])))"

record scheduler_alert =
  sa_title :: string
  sa_identity :: string
  sa_summary :: string
  sa_error_text :: string

text \<open>What the world answers during one check; \<open>None\<close> is an exception.\<close>

record monitor_world =
  mw_confirm :: "scheduler_db option"
  mw_restart :: "bool option"
  mw_delivers :: "scheduler_alert \<Rightarrow> bool"

record monitor_state =
  ms_latches :: "alert_latch list"
  ms_sent :: "scheduler_alert list"
  ms_restarts :: int

definition deliver_alert :: "monitor_world \<Rightarrow> scheduler_alert \<Rightarrow> monitor_state \<Rightarrow> bool \<times> monitor_state" where
  "deliver_alert w a s = (if mw_delivers w a then (True, s\<lparr>ms_sent := ms_sent s @ [a]\<rparr>) else (False, s))"

definition self_heal_alert :: "int \<Rightarrow> int \<Rightarrow> instant \<Rightarrow> instant \<Rightarrow> scheduler_alert" where
  "self_heal_alert max_attempts attempt freeze attempted_at =
     \<lparr>sa_title = ''Scheduler self-heal'', sa_identity = ''scheduler'',
      sa_summary = ''Restarting scheduler automatically, freeze '' @ elapsed_text freeze attempted_at @ '', attempt ''
        @ show_int attempt @ ''/'' @ show_int max_attempts @ ''.'',
      sa_error_text = ''Scheduler jobs remain overdue.''\<rparr>"

definition refunded :: "self_heal_state \<Rightarrow> self_heal_state" where
  "refunded st = \<lparr>sh_attempt = None, sh_attempts = max 0 (sh_attempts st - 1), sh_exhausted = False,
     sh_freeze_started_at = sh_freeze_started_at st\<rparr>"

definition maybe_self_heal ::
  "int \<Rightarrow> int \<Rightarrow> monitor_world \<Rightarrow> instant \<Rightarrow> monitor_state \<Rightarrow> self_heal_state \<times> monitor_state" where
  "maybe_self_heal heal_after max_attempts w now s =
     (let (st, ls) = claim_self_heal now heal_after max_attempts (ms_latches s); s1 = s\<lparr>ms_latches := ls\<rparr> in
      case (sh_attempt st, sh_freeze_started_at st) of
        (Some attempt, Some freeze) \<Rightarrow>
          (let current = (case mw_confirm w of None \<Rightarrow> False | Some d \<Rightarrow> freeze_is_current now (Some freeze) d ls);
               refund = s1\<lparr>ms_latches := release_self_heal_claim now freeze attempt ls\<rparr> in
           if \<not> current then (refunded st, refund)
           else (case mw_restart w of
               None \<Rightarrow> (st\<lparr>sh_attempt := None, sh_exhausted := (max_attempts \<le> sh_attempts st)\<rparr>, s1)
             | Some False \<Rightarrow> (refunded st, refund)
             | Some True \<Rightarrow> (st, snd (deliver_alert w (self_heal_alert max_attempts attempt freeze now)
                 (s1\<lparr>ms_restarts := ms_restarts s1 + 1\<rparr>)))))
      | _ \<Rightarrow> (st, s1))"

definition recovery_alert :: "int \<Rightarrow> overdue_alert_state \<Rightarrow> instant \<Rightarrow> scheduler_alert" where
  "recovery_alert max_attempts released recovered_at =
     (let freeze = (case oa_freeze_started_at released of None \<Rightarrow> oa_alerted_at released | Some t \<Rightarrow> t);
          attempts = oa_self_heal_attempts released in
      \<lparr>sa_title = ''Scheduler jobs recovered'', sa_identity = SCHEDULER_OVERDUE_FREEZE_ALERT_KEY,
       sa_summary = (if attempts \<noteq> 0
         then ''Scheduler recovered after automatic restart, freeze '' @ elapsed_text freeze recovered_at @ '', attempts ''
           @ show_int attempts @ ''/'' @ show_int max_attempts @ ''.''
         else ''Scheduler jobs advanced at '' @ isoformat recovered_at @ '' after an overdue freeze of ''
           @ elapsed_text freeze recovered_at @ ''.''),
       sa_error_text = ''Scheduler jobs are advancing again.''\<rparr>)"

text \<open>A recovery that is not delivered puts the latch back, so that a later check retries.\<close>

definition deliver_recovery :: "int \<Rightarrow> monitor_world \<Rightarrow> overdue_alert_state \<Rightarrow> instant \<Rightarrow> monitor_state \<Rightarrow> bool \<times> monitor_state" where
  "deliver_recovery max_attempts w released recovered_at s =
     (let freeze = (case oa_freeze_started_at released of None \<Rightarrow> oa_alerted_at released | Some t \<Rightarrow> t);
          (ok, s1) = deliver_alert w (recovery_alert max_attempts released recovered_at) s in
      if ok then (True, s1)
      else (False, s1\<lparr>ms_latches := snd (claim_overdue_alert (oa_alerted_at released) freeze
          (case oa_next_alert_at released of None \<Rightarrow> next_escalation_at freeze (oa_alerted_at released) | Some t \<Rightarrow> t)
          (ms_latches s1))\<rparr>))"

definition overdue_alert :: "instant \<Rightarrow> instant option \<Rightarrow> self_heal_state \<Rightarrow> overdue_candidate list \<Rightarrow> scheduler_alert" where
  "overdue_alert now last_tick heal cs =
     \<lparr>sa_title = ''Scheduler jobs overdue'', sa_identity = (case cs of [] \<Rightarrow> [] | c # _ \<Rightarrow> oc_job_key c),
      sa_summary = overdue_summary now last_tick (if sh_exhausted heal then sh_attempts heal else 0) cs,
      sa_error_text = ''Scheduler jobs stopped advancing past next_run_at.''\<rparr>"

record overdue_check =
  ck_job_keys :: "string list"
  ck_alert_sent :: bool
  ck_last_tick_at :: "instant option"
  ck_self_heal_attempt :: "int option"

text \<open>One check; \<open>None\<close> when the delivery error escapes.\<close>

definition evaluate_overdue ::
  "int \<Rightarrow> int \<Rightarrow> monitor_world \<Rightarrow> overdue_candidate list \<Rightarrow> instant option \<Rightarrow> instant \<Rightarrow> monitor_state
    \<Rightarrow> overdue_check option \<times> monitor_state" where
  "evaluate_overdue heal_after max_attempts w observed last_tick now s =
     (let overdue = candidates_past_threshold now observed;
          quiet = \<lparr>ck_job_keys = [], ck_alert_sent = False, ck_last_tick_at = last_tick, ck_self_heal_attempt = None\<rparr> in
      if overdue = [] then
        (let current = (case mw_confirm w of None \<Rightarrow> True | Some d \<Rightarrow> freeze_is_current now None d (ms_latches s)) in
         if current then (Some quiet, s)
         else (let (released, ls) = release_overdue_alert (ms_latches s); s1 = s\<lparr>ms_latches := ls\<rparr> in
           case released of
             None \<Rightarrow> (Some quiet, s1)
           | Some r \<Rightarrow> (let (ok, s2) = deliver_recovery max_attempts w r (case last_tick of None \<Rightarrow> now | Some t \<Rightarrow> t) s1 in
               (if ok then Some quiet else None, s2))))
      else
        (let freeze = freeze_started_at overdue;
             (claimed, ls) = claim_overdue_alert now freeze (next_escalation_at freeze now) (ms_latches s);
             (heal, s1) = maybe_self_heal heal_after max_attempts w now (s\<lparr>ms_latches := ls\<rparr>);
             report = \<lparr>ck_job_keys = map oc_job_key overdue, ck_alert_sent = claimed, ck_last_tick_at = last_tick,
               ck_self_heal_attempt = sh_attempt heal\<rparr> in
         if \<not> claimed then (Some report, s1)
         else (let (ok, s2) = deliver_alert w (overdue_alert now last_tick heal overdue) s1 in
           if ok then (Some report, s2)
           else (None, s2\<lparr>ms_latches := snd (release_overdue_alert (ms_latches s2))\<rparr>))))"


section \<open>What a replica does to the latches\<close>

lemma latch_row_update [simp]:
  assumes "\<And>l. al_alert_key (f l) = al_alert_key l"
  shows "latch_row (update_latch k f ls) k' = (if k = k' then map_option f (latch_row ls k') else latch_row ls k')"
  unfolding latch_row_def update_latch_def by (induction ls) (auto simp: assms)

lemma latch_row_append [simp]:
  "latch_row (ls @ [x]) k = (case latch_row ls k of None \<Rightarrow> if al_alert_key x = k then Some x else None | Some y \<Rightarrow> Some y)"
  unfolding latch_row_def by (induction ls) auto

lemma latch_row_release [simp]:
  "latch_row (release_scheduler_alert k ls) k' = (if k = k' then None else latch_row ls k')"
  unfolding latch_row_def release_scheduler_alert_def by (induction ls) auto

lemma latch_row_refund [simp]:
  "latch_row (release_self_heal_claim t f a ls) k = map_option (\<lambda>l.
     if al_alert_key l = SCHEDULER_SELF_HEAL_ALERT_KEY \<and> al_alerted_at l = t \<and> al_freeze_started_at l = Some f \<and> al_attempt_count l = a
     then l\<lparr>al_attempt_count := max 0 (a - 1), al_next_alert_at := Some t\<rparr> else l) (latch_row ls k)"
  unfolding latch_row_def release_self_heal_claim_def by (induction ls) auto

lemma latch_row_key: "latch_row ls k = Some l \<Longrightarrow> al_alert_key l = k"
  unfolding latch_row_def by (auto simp: find_Some_iff)

lemma keys_differ [simp]: "SCHEDULER_OVERDUE_FREEZE_ALERT_KEY \<noteq> SCHEDULER_SELF_HEAL_ALERT_KEY"
  "SCHEDULER_SELF_HEAL_ALERT_KEY \<noteq> SCHEDULER_OVERDUE_FREEZE_ALERT_KEY"
  by (simp_all add: SCHEDULER_OVERDUE_FREEZE_ALERT_KEY_def SCHEDULER_SELF_HEAL_ALERT_KEY_def)

definition heal_episode :: "alert_latch list \<Rightarrow> instant option option" where
  "heal_episode ls = map_option al_freeze_started_at (latch_row ls SCHEDULER_SELF_HEAL_ALERT_KEY)"

lemma overdue_claim_keeps_heal_row [simp]:
  "latch_row (snd (claim_overdue_alert t f n ls)) SCHEDULER_SELF_HEAL_ALERT_KEY = latch_row ls SCHEDULER_SELF_HEAL_ALERT_KEY"
  by (simp add: claim_overdue_alert_def Let_def split: option.split)

lemma overdue_release_keeps_heal_row [simp]:
  "latch_row (snd (release_overdue_alert ls)) SCHEDULER_SELF_HEAL_ALERT_KEY = latch_row ls SCHEDULER_SELF_HEAL_ALERT_KEY"
  by (simp add: release_overdue_alert_def split: option.split)

lemma heal_row_only:
  assumes "latch_row ls' SCHEDULER_SELF_HEAL_ALERT_KEY = latch_row ls SCHEDULER_SELF_HEAL_ALERT_KEY"
  shows "heal_attempts ls' f = heal_attempts ls f" "heal_episode ls' = heal_episode ls"
  using assms by (simp_all add: heal_attempts_def heal_episode_def)

lemmas heal_row_unchanged [simp] = heal_row_only [OF overdue_claim_keeps_heal_row] heal_row_only [OF overdue_release_keeps_heal_row]

text \<open>A claim is refused and changes nothing, or counts one attempt more for the episode it names.\<close>

lemma try_claim_outcome:
  assumes "try_claim_self_heal t f n m ls = (st, ls')"
  shows "(sh_attempt st = None \<and> ls' = ls)
    \<or> (\<exists>a. st = granted_state a f \<and> heal_episode ls' = Some (Some f) \<and> heal_attempts ls' (Some f) = a
         \<and> a = heal_attempts ls (Some f) + 1 \<and> (a \<le> m \<or> a = 1))"
proof (cases "latch_row ls SCHEDULER_SELF_HEAL_ALERT_KEY")
  case None
  then show ?thesis using assms
    by (auto simp: try_claim_self_heal_def heal_attempts_def heal_episode_def)
next
  case (Some l)
  then show ?thesis using assms
    by (auto simp: try_claim_self_heal_def heal_attempts_def heal_episode_def Let_def unclaimed_state_def split: if_splits)
qed

lemma claim_outcome:
  assumes "claim_self_heal t after m ls = (st, ls')"
  shows "(sh_attempt st = None \<and> ls' = ls)
    \<or> (\<exists>a f. sh_attempt st = Some a \<and> sh_freeze_started_at st = Some f \<and> heal_episode ls' = Some (Some f)
         \<and> heal_attempts ls' (Some f) = a \<and> a = heal_attempts ls (Some f) + 1 \<and> (a \<le> m \<or> a = 1))"
  using assms by (auto simp: claim_self_heal_def unclaimed_state_def granted_state_def dest!: try_claim_outcome
      split: option.splits if_splits)

lemma refund_outcome:
  "heal_episode (release_self_heal_claim t f a ls) = heal_episode ls"
  "heal_attempts ls (Some g) - 1 \<le> heal_attempts (release_self_heal_claim t f a ls) (Some g)"
  "heal_attempts (release_self_heal_claim t f a ls) (Some g) \<le> max 0 (heal_attempts ls (Some g))"
  by (cases "latch_row ls SCHEDULER_SELF_HEAL_ALERT_KEY"; auto simp: heal_episode_def heal_attempts_def)+

section \<open>The budget of restarts\<close>

text \<open>
  Replicas share the latches; \<open>hs_pending\<close> holds the claims granted and not yet settled, \<open>hs_restarts\<close> the freezes a
  restart was queued for. Claims, confirmations, refunds and restarts of different replicas interleave freely.
\<close>

record heal_system =
  hs_latches :: "alert_latch list"
  hs_pending :: "(instant \<times> instant \<times> int) list"
  hs_restarts :: "instant list"

inductive heal_step :: "environ \<Rightarrow> heal_system \<Rightarrow> heal_system \<Rightarrow> bool" for env where
  alert: "heal_step env s (s\<lparr>hs_latches := snd (claim_overdue_alert t f n (hs_latches s))\<rparr>)"
| recovery: "heal_step env s (s\<lparr>hs_latches := snd (release_overdue_alert (hs_latches s))\<rparr>)"
| granted: "claim_self_heal t (scheduler_self_heal_after env) (scheduler_self_heal_max_attempts env) (hs_latches s) = (st, ls)
    \<Longrightarrow> sh_attempt st = Some a \<Longrightarrow> sh_freeze_started_at st = Some f
    \<Longrightarrow> heal_step env s (s\<lparr>hs_latches := ls, hs_pending := (t, f, a) # hs_pending s\<rparr>)"
| refund: "(t, f, a) \<in> set (hs_pending s)
    \<Longrightarrow> heal_step env s (s\<lparr>hs_latches := release_self_heal_claim t f a (hs_latches s), hs_pending := remove1 (t, f, a) (hs_pending s)\<rparr>)"
| failed: "(t, f, a) \<in> set (hs_pending s) \<Longrightarrow> heal_step env s (s\<lparr>hs_pending := remove1 (t, f, a) (hs_pending s)\<rparr>)"
| restart: "(t, f, a) \<in> set (hs_pending s)
    \<Longrightarrow> heal_step env s (s\<lparr>hs_pending := remove1 (t, f, a) (hs_pending s), hs_restarts := f # hs_restarts s\<rparr>)"

definition restarts_of :: "instant \<Rightarrow> heal_system \<Rightarrow> int" where
  "restarts_of f s = int (count_list (hs_restarts s) f)"

definition pending_of :: "instant \<Rightarrow> heal_system \<Rightarrow> int" where
  "pending_of f s = int (length (filter (\<lambda>(t, g, a). g = f) (hs_pending s)))"

text \<open>A step that leaves the episode of the freeze \<open>f\<close> the current one.\<close>

definition episode_step :: "environ \<Rightarrow> instant \<Rightarrow> heal_system \<Rightarrow> heal_system \<Rightarrow> bool" where
  "episode_step env f s s' = (heal_step env s s' \<and> heal_episode (hs_latches s') = Some (Some f))"

definition budget_kept :: "environ \<Rightarrow> instant \<Rightarrow> int \<Rightarrow> heal_system \<Rightarrow> bool" where
  "budget_kept env f k s = (restarts_of f s + pending_of f s \<le> k + heal_attempts (hs_latches s) (Some f)
     \<and> heal_attempts (hs_latches s) (Some f) \<le> scheduler_self_heal_max_attempts env)"

lemma at_least_one_attempt: "1 \<le> scheduler_self_heal_max_attempts env"
  by (simp add: scheduler_self_heal_max_attempts_def)

lemma length_filter_remove1:
  "x \<in> set xs \<Longrightarrow> int (length (filter P (remove1 x xs))) = int (length (filter P xs)) - (if P x then 1 else 0)"
  by (induction xs) auto

lemma pending_of_remove1:
  "(t, g, a) \<in> set (hs_pending s) \<Longrightarrow>
   pending_of f (s\<lparr>hs_pending := remove1 (t, g, a) (hs_pending s)\<rparr>) = pending_of f s - (if g = f then 1 else 0)"
  by (simp add: pending_of_def length_filter_remove1)

lemma budget_step:
  assumes "budget_kept env f k s" and "episode_step env f s s'"
  shows "budget_kept env f k s'"
proof -
  from assms(2) have step: "heal_step env s s'" and current: "heal_episode (hs_latches s') = Some (Some f)"
    by (simp_all add: episode_step_def)
  show ?thesis
    using step
  proof cases
    case (granted t st ls a g)
    then have g: "g = f" using claim_outcome [OF granted(2)] current by auto
    have "heal_attempts ls (Some f) = heal_attempts (hs_latches s) (Some f) + 1"
      "heal_attempts ls (Some f) \<le> scheduler_self_heal_max_attempts env"
      using claim_outcome [OF granted(2)] granted(3,4) g at_least_one_attempt [of env] by auto
    then show ?thesis using assms(1) granted(1) g by (simp add: budget_kept_def restarts_of_def pending_of_def)
  next
    case (refund t g a)
    have "pending_of f s' = pending_of f s - (if g = f then 1 else 0)"
      using pending_of_remove1 [OF refund(2), of f] refund(1) by (simp add: pending_of_def)
    moreover have "g \<noteq> f \<Longrightarrow> heal_attempts (hs_latches s') (Some f) = heal_attempts (hs_latches s) (Some f)"
      using refund(1) by (auto simp: heal_attempts_def split: option.split)
    ultimately show ?thesis
      using assms(1) refund(1) refund_outcome(2,3) [where t = t and f = g and a = a and ls = "hs_latches s" and g = f]
        at_least_one_attempt [of env] by (auto simp: budget_kept_def restarts_of_def split: if_splits)
  next
    case (failed t g a)
    then show ?thesis using assms(1) pending_of_remove1 [OF failed(2), of f]
      by (auto simp: budget_kept_def restarts_of_def split: if_splits)
  next
    case (restart t g a)
    have "pending_of f s' = pending_of f s - (if g = f then 1 else 0)"
      using pending_of_remove1 [OF restart(2), of f] restart(1) by (simp add: pending_of_def)
    then show ?thesis using assms(1) restart(1) by (auto simp: budget_kept_def restarts_of_def split: if_splits)
  qed (use assms(1) in \<open>simp_all add: budget_kept_def restarts_of_def pending_of_def\<close>)
qed

interpretation budget: ledger "budget_kept env f k" "\<lambda>_ _. True" "episode_step env f" for env f k
  by unfold_locales (auto intro: budget_step)

text \<open>
  C26: The replicas share one budget of restarts per freeze. From any state in which the freeze has no attempt counted and no
  claim open, while its episode stays the current one, however the claims, refunds, confirmations, restarts, alerts and
  recoveries of the replicas interleave, the scheduler is restarted for it at most \<open>SCHEDULER_SELF_HEAL_MAX_ATTEMPTS\<close>
  times, and a claim that is still open is counted already.
\<close>

theorem restart_budget_shared:
  assumes "(episode_step env f)\<^sup>*\<^sup>* s s'" and "heal_attempts (hs_latches s) (Some f) = 0" and "pending_of f s = 0"
  shows "restarts_of f s' + pending_of f s' \<le> restarts_of f s + scheduler_self_heal_max_attempts env"
proof -
  have "budget_kept env f (restarts_of f s) s" using assms(2,3) at_least_one_attempt [of env] by (simp add: budget_kept_def)
  from budget.reachable_inv [OF assms(1) this] show ?thesis by (simp add: budget_kept_def)
qed

section \<open>One check, as steps of the replicas\<close>

definition system_of :: "alert_latch list \<Rightarrow> (instant \<times> instant \<times> int) list \<Rightarrow> instant list \<Rightarrow> heal_system" where
  "system_of ls P R = \<lparr>hs_latches = ls, hs_pending = P, hs_restarts = R\<rparr>"

lemma alert_steps: "heal_step env (system_of ls P R) (system_of (snd (claim_overdue_alert t f n ls)) P R)"
  using heal_step.alert [of env "system_of ls P R"] by (simp add: system_of_def)

lemma recovery_steps: "heal_step env (system_of ls P R) (system_of (snd (release_overdue_alert ls)) P R)"
  using heal_step.recovery [of env "system_of ls P R"] by (simp add: system_of_def)

lemma granted_steps:
  assumes "claim_self_heal t (scheduler_self_heal_after env) (scheduler_self_heal_max_attempts env) ls = (st, ls')"
    and "sh_attempt st = Some a" and "sh_freeze_started_at st = Some f"
  shows "heal_step env (system_of ls P R) (system_of ls' ((t, f, a) # P) R)"
  using heal_step.granted [where s = "system_of ls P R"] assms by (simp add: system_of_def)

lemma settled_steps:
  "heal_step env (system_of ls ((t, f, a) # P) R) (system_of (release_self_heal_claim t f a ls) P R)"
  "heal_step env (system_of ls ((t, f, a) # P) R) (system_of ls P R)"
  "heal_step env (system_of ls ((t, f, a) # P) R) (system_of ls P (f # R))"
  using heal_step.refund [of t f a "system_of ls ((t, f, a) # P) R" env]
    heal_step.failed [of t f a "system_of ls ((t, f, a) # P) R" env]
    heal_step.restart [of t f a "system_of ls ((t, f, a) # P) R" env] by (simp_all add: system_of_def)

lemma deliver_alert_only:
  "ms_latches (snd (deliver_alert w a s)) = ms_latches s" "ms_restarts (snd (deliver_alert w a s)) = ms_restarts s"
  by (simp_all add: deliver_alert_def)

text \<open>Some steps of the replicas account for what a check did to the latches and to the number of restarts.\<close>

definition accounted :: "environ \<Rightarrow> monitor_state \<Rightarrow> monitor_state \<Rightarrow> bool" where
  "accounted env s s' = (\<forall>P R. \<exists>R'. (heal_step env)\<^sup>*\<^sup>* (system_of (ms_latches s) P R) (system_of (ms_latches s') P (R' @ R))
     \<and> ms_restarts s' = ms_restarts s + int (length R'))"

lemma accountedI:
  "(\<And>P R. (heal_step env)\<^sup>*\<^sup>* (system_of (ms_latches s) P R) (system_of (ms_latches s') P R)) \<Longrightarrow> ms_restarts s' = ms_restarts s
   \<Longrightarrow> accounted env s s'"
  unfolding accounted_def by (intro allI exI [of _ "[]"]) simp

lemma accounted_trans [trans]:
  assumes "accounted env a b" and "accounted env b c"
  shows "accounted env a c"
  unfolding accounted_def
proof (intro allI)
  fix P R
  obtain R1 where 1: "(heal_step env)\<^sup>*\<^sup>* (system_of (ms_latches a) P R) (system_of (ms_latches b) P (R1 @ R))"
    "ms_restarts b = ms_restarts a + int (length R1)" using assms(1) unfolding accounted_def by blast
  obtain R2 where 2: "(heal_step env)\<^sup>*\<^sup>* (system_of (ms_latches b) P (R1 @ R)) (system_of (ms_latches c) P (R2 @ R1 @ R))"
    "ms_restarts c = ms_restarts b + int (length R2)" using assms(2) unfolding accounted_def by blast
  show "\<exists>R'. (heal_step env)\<^sup>*\<^sup>* (system_of (ms_latches a) P R) (system_of (ms_latches c) P (R' @ R))
      \<and> ms_restarts c = ms_restarts a + int (length R')"
    using rtranclp_trans [OF 1(1) 2(1)] 1(2) 2(2) by (intro exI [of _ "R2 @ R1"]) simp
qed

lemma accounted_refl: "ms_latches s' = ms_latches s \<Longrightarrow> ms_restarts s' = ms_restarts s \<Longrightarrow> accounted env s s'"
  by (rule accountedI) simp_all

lemma accounted_alert: "accounted env s (s\<lparr>ms_latches := snd (claim_overdue_alert t f n (ms_latches s))\<rparr>)"
  by (rule accountedI) (use alert_steps in \<open>auto\<close>)

lemma accounted_recovery: "accounted env s (s\<lparr>ms_latches := snd (release_overdue_alert (ms_latches s))\<rparr>)"
  by (rule accountedI) (use recovery_steps in \<open>auto\<close>)

lemma accounted_self_heal:
  assumes "maybe_self_heal (scheduler_self_heal_after env) (scheduler_self_heal_max_attempts env) w now s = (st, s')"
  shows "accounted env s s'"
proof -
  obtain st0 ls where claim: "claim_self_heal now (scheduler_self_heal_after env) (scheduler_self_heal_max_attempts env)
      (ms_latches s) = (st0, ls)" by (rule prod.exhaust)
  show ?thesis
  proof (cases "\<exists>a f. sh_attempt st0 = Some a \<and> sh_freeze_started_at st0 = Some f")
    case False
    then have "s' = s\<lparr>ms_latches := ls\<rparr>" and "ls = ms_latches s"
      using assms claim claim_outcome [OF claim] by (auto simp: maybe_self_heal_def split: option.splits)
    then show ?thesis by (intro accounted_refl) simp_all
  next
    case True
    then obtain a f where af: "sh_attempt st0 = Some a" "sh_freeze_started_at st0 = Some f" by blast
    note grant = granted_steps [OF claim af]
    consider (refund) "s' = s\<lparr>ms_latches := release_self_heal_claim now f a ls\<rparr>" | (failed) "s' = s\<lparr>ms_latches := ls\<rparr>"
      | (queued) "ms_latches s' = ls" "ms_restarts s' = ms_restarts s + 1"
      using assms by (auto simp: maybe_self_heal_def claim af Let_def deliver_alert_only split: option.splits if_splits bool.splits)
    then show ?thesis
    proof cases
      case refund
      then show ?thesis
        by (intro accountedI) (auto intro: converse_rtranclp_into_rtranclp [where r = "heal_step env", OF grant] settled_steps)
    next
      case failed
      then show ?thesis
        by (intro accountedI) (auto intro: converse_rtranclp_into_rtranclp [where r = "heal_step env", OF grant] settled_steps)
    next
      case queued
      have "(heal_step env)\<^sup>*\<^sup>* (system_of (ms_latches s) P R) (system_of ls P (f # R))" for P R
        by (rule converse_rtranclp_into_rtranclp [where r = "heal_step env", OF grant]) (auto intro: settled_steps)
      with queued show ?thesis unfolding accounted_def by (intro allI exI [of _ "[f]"]) simp
    qed
  qed
qed

lemma accounted_deliver: "accounted env s (snd (deliver_alert w a s))"
  by (rule accounted_refl) (simp_all add: deliver_alert_only)

lemma accounted_deliver_recovery: "accounted env s (snd (deliver_recovery m w r t s))"
  using accounted_deliver [of env s w "recovery_alert m r t"] accounted_alert
  by (auto simp: deliver_recovery_def Let_def split: prod.split intro: accounted_trans)

lemma restart_only_confirmed:
  assumes "maybe_self_heal after m w now s = (st, s')" and "ms_restarts s' \<noteq> ms_restarts s"
  shows "\<exists>d. mw_confirm w = Some d \<and> candidates_past_threshold now (overdue_candidates now d) \<noteq> []"
  using assms by (auto simp: maybe_self_heal_def Let_def deliver_alert_only freeze_is_current_def
      split: prod.splits option.splits if_splits bool.splits)

lemma evaluate_overdue_cases:
  assumes "candidates_past_threshold now observed \<noteq> []"
  obtains st s1 where "maybe_self_heal after m w now (s\<lparr>ms_latches := snd (claim_overdue_alert now
        (freeze_started_at (candidates_past_threshold now observed))
        (next_escalation_at (freeze_started_at (candidates_past_threshold now observed)) now) (ms_latches s))\<rparr>) = (st, s1)"
    and "snd (evaluate_overdue after m w observed last_tick now s) = s1
      \<or> snd (evaluate_overdue after m w observed last_tick now s)
          = snd (deliver_alert w (overdue_alert now last_tick st (candidates_past_threshold now observed)) s1)
      \<or> snd (evaluate_overdue after m w observed last_tick now s)
          = (let s2 = snd (deliver_alert w (overdue_alert now last_tick st (candidates_past_threshold now observed)) s1)
             in s2\<lparr>ms_latches := snd (release_overdue_alert (ms_latches s2))\<rparr>)"
proof -
  obtain st s1 where heal: "maybe_self_heal after m w now (s\<lparr>ms_latches := snd (claim_overdue_alert now
        (freeze_started_at (candidates_past_threshold now observed))
        (next_escalation_at (freeze_started_at (candidates_past_threshold now observed)) now) (ms_latches s))\<rparr>) = (st, s1)"
    by (rule prod.exhaust)
  show thesis
    by (rule that [OF heal]) (use assms heal in \<open>auto simp: evaluate_overdue_def Let_def split: prod.split\<close>)
qed

text \<open>
  C27: A check does to the shared state what the replicas may do. Whatever is observed, confirmed and delivered, the latches
  and the restarts after one check of the monitor are reached by some claims, refunds, alerts, recoveries and restarts of the
  step relation, as many restarts as the check queued; and the check queues one only where the second look at the database
  finds jobs past the threshold.
\<close>

theorem check_refines_budget:
  assumes "evaluate_overdue (scheduler_self_heal_after env) (scheduler_self_heal_max_attempts env) w observed last_tick now s = (r, s')"
  shows "(\<exists>R'. (heal_step env)\<^sup>*\<^sup>* (system_of (ms_latches s) P R) (system_of (ms_latches s') P (R' @ R))
      \<and> ms_restarts s' = ms_restarts s + int (length R'))
    \<and> (ms_restarts s' \<noteq> ms_restarts s
        \<longrightarrow> (\<exists>d. mw_confirm w = Some d \<and> candidates_past_threshold now (overdue_candidates now d) \<noteq> []))"
proof -
  let ?e = "evaluate_overdue (scheduler_self_heal_after env) (scheduler_self_heal_max_attempts env) w observed last_tick now s"
  have s': "s' = snd ?e" using assms by simp
  have "accounted env s (snd ?e) \<and> (ms_restarts (snd ?e) \<noteq> ms_restarts s
      \<longrightarrow> (\<exists>d. mw_confirm w = Some d \<and> candidates_past_threshold now (overdue_candidates now d) \<noteq> []))"
  proof (cases "candidates_past_threshold now observed = []")
    case True
    let ?r = "s\<lparr>ms_latches := snd (release_overdue_alert (ms_latches s))\<rparr>"
    have "snd ?e = s \<or> snd ?e = ?r \<or> (\<exists>r0 t. snd ?e = snd (deliver_recovery (scheduler_self_heal_max_attempts env) w r0 t ?r))"
      using True by (auto simp: evaluate_overdue_def Let_def case_prod_beta split: option.split)
    moreover have "ms_restarts (snd (deliver_recovery m w r0 t ?r)) = ms_restarts s" for m r0 t
      using deliver_alert_only by (auto simp: deliver_recovery_def deliver_alert_def Let_def split: prod.split)
    ultimately show ?thesis
      using accounted_recovery [of env s] accounted_trans [OF accounted_recovery accounted_deliver_recovery]
      by (auto intro: accounted_refl)
  next
    case False
    let ?c = "s\<lparr>ms_latches := snd (claim_overdue_alert now (freeze_started_at (candidates_past_threshold now observed))
        (next_escalation_at (freeze_started_at (candidates_past_threshold now observed)) now) (ms_latches s))\<rparr>"
    obtain st s1 where heal: "maybe_self_heal (scheduler_self_heal_after env) (scheduler_self_heal_max_attempts env) w now ?c = (st, s1)"
      and out: "snd ?e = s1 \<or> (\<exists>a. snd ?e = snd (deliver_alert w a s1))
        \<or> (\<exists>a. snd ?e = (snd (deliver_alert w a s1))\<lparr>ms_latches := snd (release_overdue_alert (ms_latches (snd (deliver_alert w a s1))))\<rparr>)"
      using evaluate_overdue_cases [OF False, of "scheduler_self_heal_after env" "scheduler_self_heal_max_attempts env" w s last_tick]
      unfolding Let_def by metis
    have "accounted env s s1" using accounted_trans [OF accounted_alert accounted_self_heal [OF heal]] .
    moreover have "accounted env s1 (snd ?e)" and same: "ms_restarts (snd ?e) = ms_restarts s1"
      using out accounted_deliver accounted_trans [OF accounted_deliver accounted_recovery]
      by (auto intro: accounted_refl simp: deliver_alert_only)
    ultimately have "accounted env s (snd ?e)" using accounted_trans by blast
    moreover have "ms_restarts s1 \<noteq> ms_restarts s \<longrightarrow>
        (\<exists>d. mw_confirm w = Some d \<and> candidates_past_threshold now (overdue_candidates now d) \<noteq> [])"
      using restart_only_confirmed [OF heal] by auto
    ultimately show ?thesis using same by simp
  qed
  then show ?thesis unfolding s' accounted_def by blast
qed

section \<open>Escalations\<close>

text \<open>How many escalation points of a freeze lie at or before an instant.\<close>

definition escalation_level :: "instant \<Rightarrow> instant \<Rightarrow> int" where
  "escalation_level f t =
     (let elapsed = t - f in
      if elapsed < seconds 3600 then 0 else if elapsed < seconds (4 * 3600) then 1
      else if elapsed < seconds (12 * 3600) then 2 else 2 + elapsed div seconds (12 * 3600))"

lemma le_div_iff: "(0::int) < h \<Longrightarrow> k * h \<le> e \<longleftrightarrow> k \<le> e div h"
proof
  assume h: "0 < h" and "k \<le> e div h"
  then have "k * h \<le> (e div h) * h" by (simp add: mult_right_mono)
  also have "\<dots> \<le> e" using h by (simp add: minus_mod_eq_div_mult [symmetric])
  finally show "k * h \<le> e" .
qed (use zdiv_mono1 [of "k * h" e h] in simp)

lemma first_threshold_cases:
  "first_threshold escalation_thresholds e = (if e < seconds 3600 then Some 3600 else if e < seconds (4 * 3600) then Some (4 * 3600)
     else if e < seconds (12 * 3600) then Some (12 * 3600) else None)"
  by (simp add: escalation_thresholds_def)

lemma next_escalation_level: "next_escalation_at f t \<le> t' \<longleftrightarrow> escalation_level f t < escalation_level f t'"
proof -
  define e e' h where "e = t - f" and "e' = t' - f" and "h = seconds (12 * 3600)"
  have ts: "t = f + e" "t' = f + e'" by (simp_all add: e_def e'_def)
  have h: "0 < h" "h = 43200000000" "seconds 3600 = 3600000000" "seconds (4 * 3600) = 14400000000"
    by (simp_all add: h_def seconds_def)
  have q: "(e div h + 1) * h \<le> e' \<longleftrightarrow> e div h + 1 \<le> e' div h" "h \<le> e \<longleftrightarrow> 1 \<le> e div h" "h \<le> e' \<longleftrightarrow> 1 \<le> e' div h"
    using le_div_iff [OF h(1)] le_div_iff [OF h(1), of 1] by simp_all
  define q0 q1 where "q0 = e div h" and "q1 = e' div h"
  have level: "escalation_level f t = (if e < seconds 3600 then 0 else if e < seconds (4 * 3600) then 1 else if e < h then 2 else 2 + q0)"
    "escalation_level f t' = (if e' < seconds 3600 then 0 else if e' < seconds (4 * 3600) then 1 else if e' < h then 2 else 2 + q1)"
    by (simp_all add: escalation_level_def Let_def e_def e'_def h_def q0_def q1_def)
  have "next_escalation_at f t = f + (if e < seconds 3600 then seconds 3600 else if e < seconds (4 * 3600) then seconds (4 * 3600)
      else if e < h then h else (q0 + 1) * h)"
    by (simp add: next_escalation_at_def first_threshold_cases Let_def e_def h_def q0_def repeat_escalation_interval_def)
  then show ?thesis unfolding level using q h unfolding q0_def [symmetric] q1_def [symmetric] ts(2)
    by (auto simp: not_less not_le split: if_splits)
qed

lemma next_escalation_later: "t < next_escalation_at f t"
  using next_escalation_level [of f t t] by simp

lemma escalation_level_mono: "t \<le> t' \<Longrightarrow> escalation_level f t \<le> escalation_level f t'"
  using next_escalation_level [of f t' t] next_escalation_later [of t' f] by linarith

text \<open>The checks of one freeze, by any replica, between an alert and the recovery; the checks that win the alert.\<close>

fun alert_run :: "instant \<Rightarrow> instant list \<Rightarrow> alert_latch list \<Rightarrow> instant list" where
  "alert_run f [] ls = []"
| "alert_run f (t # ts) ls = (case claim_overdue_alert t f (next_escalation_at f t) ls of
     (won, ls') \<Rightarrow> (if won then t # alert_run f ts ls' else alert_run f ts ls'))"

definition alerted_last :: "instant \<Rightarrow> instant \<Rightarrow> alert_latch list \<Rightarrow> bool" where
  "alerted_last f t ls = (\<exists>l. latch_row ls SCHEDULER_OVERDUE_FREEZE_ALERT_KEY = Some l
     \<and> al_freeze_started_at l = Some f \<and> al_next_alert_at l = Some (next_escalation_at f t))"

lemma claim_after:
  assumes "alerted_last f t0 ls"
  shows "fst (claim_overdue_alert t f (next_escalation_at f t) ls) \<longleftrightarrow> escalation_level f t0 < escalation_level f t"
    and "alerted_last f (if escalation_level f t0 < escalation_level f t then t else t0)
      (snd (claim_overdue_alert t f (next_escalation_at f t) ls))"
  using assms by (auto simp: alerted_last_def claim_overdue_alert_def Let_def next_escalation_level split: if_splits)

lemma claim_first:
  assumes "latch_row ls SCHEDULER_OVERDUE_FREEZE_ALERT_KEY = None"
  shows "fst (claim_overdue_alert t f (next_escalation_at f t) ls)"
    and "alerted_last f t (snd (claim_overdue_alert t f (next_escalation_at f t) ls))"
  using assms by (simp_all add: alerted_last_def claim_overdue_alert_def Let_def)

lemma alert_run_after:
  "alerted_last f t0 ls \<Longrightarrow> sorted_wrt (<) (escalation_level f t0 # map (escalation_level f) (alert_run f ts ls))"
proof (induction ts arbitrary: t0 ls)
  case (Cons t ts)
  obtain won ls' where claim: "claim_overdue_alert t f (next_escalation_at f t) ls = (won, ls')" by (rule prod.exhaust)
  have won: "won \<longleftrightarrow> escalation_level f t0 < escalation_level f t"
    and after: "alerted_last f (if escalation_level f t0 < escalation_level f t then t else t0) ls'"
    using claim_after [OF Cons.prems, of t] claim by simp_all
  show ?case using Cons.IH [OF after] won by (auto simp: claim split: if_splits intro: less_trans)
qed simp

lemma remdups_adj_Cons2: "remdups_adj (x # y # zs) = (if x = y then remdups_adj (y # zs) else x # remdups_adj (y # zs))"
  by simp

lemma alert_run_levels:
  "alerted_last f t0 ls \<Longrightarrow> sorted (t0 # ts) \<Longrightarrow>
   escalation_level f t0 # map (escalation_level f) (alert_run f ts ls) = remdups_adj (map (escalation_level f) (t0 # ts))"
proof (induction ts arbitrary: t0 ls)
  case (Cons t ts)
  obtain won ls' where claim: "claim_overdue_alert t f (next_escalation_at f t) ls = (won, ls')" by (rule prod.exhaust)
  have won: "won \<longleftrightarrow> escalation_level f t0 < escalation_level f t"
    and after: "alerted_last f (if escalation_level f t0 < escalation_level f t then t else t0) ls'"
    using claim_after [OF Cons.prems(1), of t] claim by simp_all
  have "escalation_level f t0 \<le> escalation_level f t" using Cons.prems(2) by (intro escalation_level_mono) simp
  then consider (new) won "escalation_level f t0 \<noteq> escalation_level f t" | (same) "\<not> won" "escalation_level f t0 = escalation_level f t"
    using won by fastforce
  then show ?case
  proof cases
    case new
    have "escalation_level f t # map (escalation_level f) (alert_run f ts ls') = remdups_adj (map (escalation_level f) (t # ts))"
      by (rule Cons.IH) (use after won new Cons.prems(2) in auto)
    then show ?thesis using new by (simp add: claim)
  next
    case same
    have "escalation_level f t0 # map (escalation_level f) (alert_run f ts ls') = remdups_adj (map (escalation_level f) (t0 # ts))"
      by (rule Cons.IH) (use after won same Cons.prems(2) in auto)
    then show ?thesis using same by (simp add: claim)
  qed
qed simp

text \<open>
  C28: One alert per escalation window. For a freeze that has no alert yet, whichever replicas check at whatever instants, the
  alerts granted reach strictly increasing escalation levels (before one hour, four hours, twelve hours, then every twelve
  hours); and when the instants do not go backwards there is exactly one alert for every level a check reaches, however many
  checks fall into it.
\<close>

theorem one_alert_per_level:
  assumes "latch_row ls SCHEDULER_OVERDUE_FREEZE_ALERT_KEY = None"
  shows "sorted_wrt (<) (map (escalation_level f) (alert_run f ts ls))
    \<and> (sorted ts \<longrightarrow> map (escalation_level f) (alert_run f ts ls) = remdups_adj (map (escalation_level f) ts))"
proof (cases ts)
  case (Cons t ts')
  obtain won ls' where claim: "claim_overdue_alert t f (next_escalation_at f t) ls = (won, ls')" by (rule prod.exhaust)
  have first: won "alerted_last f t ls'" using claim_first [OF assms, where t = t and f = f] claim by simp_all
  then show ?thesis
    using alert_run_after [OF first(2), of ts'] alert_run_levels [OF first(2), of ts'] by (simp add: Cons claim)
qed simp

section \<open>Recoveries\<close>

text \<open>
  A recovery is reported once or not at all. When no job is past the threshold, a second look agrees and the freeze was
  alerted, a delivered recovery removes the latch and sends the one recovery message, while a recovery that cannot be
  delivered raises and leaves every latch as it was, so that the next check reports it.
\<close>

theorem recovery_reported_or_kept:
  assumes "latch_row (ms_latches s) SCHEDULER_OVERDUE_FREEZE_ALERT_KEY = Some l"
    and "al_freeze_started_at l = Some f" and "al_next_alert_at l = Some n" and "al_attempt_count l = 0"
    and "candidates_past_threshold now observed = []" and "mw_confirm w = Some d"
    and "candidates_past_threshold now (overdue_candidates now d) = []"
    and "evaluate_overdue after m w observed last_tick now s = (r, s')"
  shows "\<exists>a. sa_title a = ''Scheduler jobs recovered'' \<and>
    (if mw_delivers w a
     then r \<noteq> None \<and> ms_sent s' = ms_sent s @ [a] \<and> latch_row (ms_latches s') SCHEDULER_OVERDUE_FREEZE_ALERT_KEY = None
     else r = None \<and> ms_sent s' = ms_sent s \<and> latch_row (ms_latches s') = latch_row (ms_latches s))"
proof -
  define released where "released = \<lparr>oa_alerted_at = al_alerted_at l, oa_freeze_started_at = Some f, oa_next_alert_at = Some n,
    oa_self_heal_attempts = heal_attempts (ms_latches s) (Some f)\<rparr>"
  define a where "a = recovery_alert m released (case last_tick of None \<Rightarrow> now | Some t \<Rightarrow> t)"
  have title: "sa_title a = ''Scheduler jobs recovered''" by (simp add: a_def recovery_alert_def Let_def)
  have gone: "latch_row (release_scheduler_alert SCHEDULER_OVERDUE_FREEZE_ALERT_KEY (ms_latches s)) SCHEDULER_OVERDUE_FREEZE_ALERT_KEY = None"
    by simp
  have rel: "release_overdue_alert (ms_latches s) = (Some released, release_scheduler_alert SCHEDULER_OVERDUE_FREEZE_ALERT_KEY (ms_latches s))"
    using assms(1,2,3) by (simp add: release_overdue_alert_def released_def)
  have key: "al_alert_key l = SCHEDULER_OVERDUE_FREEZE_ALERT_KEY" by (rule latch_row_key [OF assms(1)])
  have row: "\<lparr>al_alert_key = SCHEDULER_OVERDUE_FREEZE_ALERT_KEY, al_alerted_at = al_alerted_at l, al_freeze_started_at = Some f,
      al_next_alert_at = Some n, al_attempt_count = 0\<rparr> = l"
    using key assms(2,3,4) by (cases l) simp
  have back_again: "latch_row (snd (claim_overdue_alert (al_alerted_at l) f n
      (release_scheduler_alert SCHEDULER_OVERDUE_FREEZE_ALERT_KEY (ms_latches s)))) = latch_row (ms_latches s)"
    using assms(1) gone by (auto simp: row key claim_overdue_alert_def Let_def fun_eq_iff split: option.split)
  have quiet: "\<not> freeze_is_current now None d (ms_latches s)" using assms(7) by (simp add: freeze_is_current_def)
  show ?thesis
  proof (rule exI [of _ a], cases "mw_delivers w a")
    case True
    then show "sa_title a = ''Scheduler jobs recovered'' \<and> (if mw_delivers w a
     then r \<noteq> None \<and> ms_sent s' = ms_sent s @ [a] \<and> latch_row (ms_latches s') SCHEDULER_OVERDUE_FREEZE_ALERT_KEY = None
     else r = None \<and> ms_sent s' = ms_sent s \<and> latch_row (ms_latches s') = latch_row (ms_latches s))"
      using assms(5,6,8) quiet rel title gone
      by (auto simp: evaluate_overdue_def deliver_recovery_def deliver_alert_def Let_def a_def)
  next
    case False
    then show "sa_title a = ''Scheduler jobs recovered'' \<and> (if mw_delivers w a
     then r \<noteq> None \<and> ms_sent s' = ms_sent s @ [a] \<and> latch_row (ms_latches s') SCHEDULER_OVERDUE_FREEZE_ALERT_KEY = None
     else r = None \<and> ms_sent s' = ms_sent s \<and> latch_row (ms_latches s') = latch_row (ms_latches s))"
      using assms(5,6,8) quiet rel title back_again
      by (auto simp: evaluate_overdue_def deliver_recovery_def deliver_alert_def Let_def a_def released_def)
  qed
qed

section \<open>A freeze whose earliest job leaves\<close>

text \<open>The checks of the replicas in order, each with the world it meets.\<close>

record monitor_input =
  mi_world :: monitor_world
  mi_observed :: "overdue_candidate list"
  mi_last_tick :: "instant option"
  mi_now :: instant

fun monitor_run :: "int \<Rightarrow> int \<Rightarrow> monitor_input list \<Rightarrow> monitor_state \<Rightarrow> monitor_state" where
  "monitor_run after m [] s = s"
| "monitor_run after m (i # inputs) s =
     monitor_run after m inputs (snd (evaluate_overdue after m (mi_world i) (mi_observed i) (mi_last_tick i) (mi_now i) s))"

definition overdue_alerts :: "monitor_state \<Rightarrow> scheduler_alert list" where
  "overdue_alerts s = filter (\<lambda>a. sa_title a = ''Scheduler jobs overdue'') (ms_sent s)"

text \<open>Some job is past the threshold, but the freeze it began is not the instant \<open>f\<close>.\<close>

definition drifted_from :: "instant \<Rightarrow> monitor_input \<Rightarrow> bool" where
  "drifted_from f i = (let overdue = candidates_past_threshold (mi_now i) (mi_observed i) in
     overdue \<noteq> [] \<and> freeze_started_at overdue \<noteq> f)"

definition latched_at :: "instant \<Rightarrow> monitor_state \<Rightarrow> bool" where
  "latched_at f s = (Option.bind (latch_row (ms_latches s) SCHEDULER_OVERDUE_FREEZE_ALERT_KEY) al_freeze_started_at = Some f)"

lemma self_heal_keeps_overdue_row:
  assumes "maybe_self_heal after m w now s = (st, s')"
  shows "latch_row (ms_latches s') SCHEDULER_OVERDUE_FREEZE_ALERT_KEY = latch_row (ms_latches s) SCHEDULER_OVERDUE_FREEZE_ALERT_KEY"
    and "overdue_alerts s' = overdue_alerts s"
proof -
  have claim: "latch_row (snd (claim_self_heal t after m ls)) SCHEDULER_OVERDUE_FREEZE_ALERT_KEY
      = latch_row ls SCHEDULER_OVERDUE_FREEZE_ALERT_KEY" for t ls
    by (auto simp: claim_self_heal_def try_claim_self_heal_def Let_def split: option.split)
  have refund: "latch_row (release_self_heal_claim t f a ls) SCHEDULER_OVERDUE_FREEZE_ALERT_KEY
      = latch_row ls SCHEDULER_OVERDUE_FREEZE_ALERT_KEY" for t f a ls
    by (cases "latch_row ls SCHEDULER_OVERDUE_FREEZE_ALERT_KEY") (auto dest: latch_row_key)
  obtain st0 ls where c: "claim_self_heal now after m (ms_latches s) = (st0, ls)" by (rule prod.exhaust)
  note row = claim [of now "ms_latches s", unfolded c, simplified]
  show "latch_row (ms_latches s') SCHEDULER_OVERDUE_FREEZE_ALERT_KEY = latch_row (ms_latches s) SCHEDULER_OVERDUE_FREEZE_ALERT_KEY"
    using assms by (auto simp: maybe_self_heal_def c Let_def row refund deliver_alert_only simp del: latch_row_refund
        split: option.splits if_splits bool.splits)
  show "overdue_alerts s' = overdue_alerts s"
    using assms by (auto simp: maybe_self_heal_def c Let_def overdue_alerts_def deliver_alert_def self_heal_alert_def
        split: option.splits if_splits bool.splits)
qed

lemma drifted_check:
  assumes "latched_at f s" and "drifted_from f i"
  shows "latched_at f (snd (evaluate_overdue after m (mi_world i) (mi_observed i) (mi_last_tick i) (mi_now i) s))"
    and "overdue_alerts (snd (evaluate_overdue after m (mi_world i) (mi_observed i) (mi_last_tick i) (mi_now i) s)) = overdue_alerts s"
proof -
  let ?o = "candidates_past_threshold (mi_now i) (mi_observed i)"
  have refused: "claim_overdue_alert t (freeze_started_at ?o) n (ms_latches s) = (False, ms_latches s)" for t n
    using assms by (auto simp: claim_overdue_alert_def latched_at_def drifted_from_def Let_def split: option.splits bind_splits)
  obtain st s1 where heal: "maybe_self_heal after m (mi_world i) (mi_now i) s = (st, s1)" by (rule prod.exhaust)
  have out: "snd (evaluate_overdue after m (mi_world i) (mi_observed i) (mi_last_tick i) (mi_now i) s) = s1"
    using assms(2) by (simp add: evaluate_overdue_def Let_def refused heal drifted_from_def)
  show "latched_at f (snd (evaluate_overdue after m (mi_world i) (mi_observed i) (mi_last_tick i) (mi_now i) s))"
    using assms(1) unfolding out latched_at_def self_heal_keeps_overdue_row(1) [OF heal] .
  show "overdue_alerts (snd (evaluate_overdue after m (mi_world i) (mi_observed i) (mi_last_tick i) (mi_now i) s)) = overdue_alerts s"
    unfolding out by (rule self_heal_keeps_overdue_row(2) [OF heal])
qed

text \<open>
  C29: A freeze that loses its earliest job is never escalated. Once the latch holds the instant the earliest overdue job
  passed the threshold, as long as every check finds overdue jobs but another earliest one (the first was paused, or was
  picked up), no check of any replica sends another alert of overdue jobs, however long the others stay overdue.
\<close>

theorem drifted_freeze_not_escalated:
  assumes "latched_at f s" and "list_all (drifted_from f) inputs"
  shows "overdue_alerts (monitor_run after m inputs s) = overdue_alerts s"
  using assms
proof (induction inputs arbitrary: s)
  case (Cons i inputs)
  then show ?case using drifted_check [of f s i after m] by simp
qed simp

section \<open>Examples\<close>

definition ex_candidate :: overdue_candidate where
  "ex_candidate = \<lparr>oc_job_key = ''sweep'', oc_next_run_at = 0\<rparr>"

definition ex_later :: overdue_candidate where
  "ex_later = \<lparr>oc_job_key = ''digest'', oc_next_run_at = seconds 300\<rparr>"

definition ex_world :: monitor_world where
  "ex_world = \<lparr>mw_confirm = Some ex_planner_db, mw_restart = Some True, mw_delivers = (\<lambda>_. True)\<rparr>"

definition ex_monitor :: monitor_state where
  "ex_monitor = \<lparr>ms_latches = [], ms_sent = [], ms_restarts = 0\<rparr>"

definition ex_overdue_latch :: alert_latch where
  "ex_overdue_latch = \<lparr>al_alert_key = SCHEDULER_OVERDUE_FREEZE_ALERT_KEY, al_alerted_at = seconds 901,
     al_freeze_started_at = Some (seconds 900), al_next_alert_at = Some (seconds 4500), al_attempt_count = 0\<rparr>"

lemma ex_budget: "scheduler_self_heal_after Map.empty = 600" "scheduler_self_heal_max_attempts Map.empty = 2"
  by (simp_all add: scheduler_self_heal_after_def scheduler_self_heal_max_attempts_def getenv_int_def)

lemma ex_past: "candidates_past_threshold (seconds 1800) [ex_candidate] = [ex_candidate]"
  "candidates_past_threshold (seconds 1800) (overdue_candidates (seconds 1800) ex_planner_db) = [ex_candidate]"
  by (simp_all add: candidates_past_threshold_def lag_seconds_at_def ex_candidate_def seconds_def overdue_after_def
      overdue_candidates_def ex_planner_db_def ex_job_def map_filter_def job_overdue_def actively_running_def)

definition ex_system :: heal_system where
  "ex_system = system_of [ex_overdue_latch] [] []"

lemma ex_claim: obtains st ls where
  "claim_self_heal (seconds 1800) 600 2 [ex_overdue_latch] = (st, ls)" "sh_attempt st = Some 1"
  "sh_freeze_started_at st = Some (seconds 900)" "heal_episode ls = Some (Some (seconds 900))"
  using that by (simp add: claim_self_heal_def try_claim_self_heal_def latch_row_def ex_overdue_latch_def seconds_def
      granted_state_def heal_episode_def)

lemma restart_budget_shared_witness:
  "\<exists>s'. (episode_step Map.empty (seconds 900))\<^sup>*\<^sup>* ex_system s' \<and> restarts_of (seconds 900) s' = 1
    \<and> restarts_of (seconds 900) s' + pending_of (seconds 900) s' \<le> 2"
proof -
  obtain st ls where claim: "claim_self_heal (seconds 1800) 600 2 [ex_overdue_latch] = (st, ls)" "sh_attempt st = Some 1"
    "sh_freeze_started_at st = Some (seconds 900)" "heal_episode ls = Some (Some (seconds 900))" by (rule ex_claim)
  let ?s1 = "system_of ls [(seconds 1800, seconds 900, 1)] []" and ?s2 = "system_of ls [] [seconds 900]"
  have "episode_step Map.empty (seconds 900) ex_system ?s1"
    using granted_steps [of "seconds 1800" Map.empty "[ex_overdue_latch]" st ls 1 "seconds 900" "[]" "[]"] claim
    by (simp add: episode_step_def ex_system_def ex_budget) (simp add: system_of_def)
  moreover have "episode_step Map.empty (seconds 900) ?s1 ?s2"
    using settled_steps(3) [of Map.empty ls "seconds 1800" "seconds 900" 1 "[]" "[]"] claim(4)
    by (simp add: episode_step_def) (simp add: system_of_def)
  ultimately have run: "(episode_step Map.empty (seconds 900))\<^sup>*\<^sup>* ex_system ?s2" by simp
  have "restarts_of (seconds 900) ?s2 + pending_of (seconds 900) ?s2
      \<le> restarts_of (seconds 900) ex_system + scheduler_self_heal_max_attempts Map.empty"
    by (rule restart_budget_shared [OF run])
      (simp_all add: ex_system_def system_of_def heal_attempts_def latch_row_def ex_overdue_latch_def pending_of_def)
  moreover have "restarts_of (seconds 900) ex_system = 0" "restarts_of (seconds 900) ?s2 = 1"
    by (simp_all add: restarts_of_def ex_system_def system_of_def)
  ultimately show ?thesis using run ex_budget by auto
qed

lemma one_alert_per_level_witness:
  "map (escalation_level 0) (alert_run 0 [seconds 60, seconds 120, seconds 3600, seconds 3660, seconds 86400] []) = [0, 1, 4]"
proof -
  let ?ts = "[seconds 60, seconds 120, seconds 3600, seconds 3660, seconds 86400]"
  have "sorted ?ts" by (simp add: seconds_def)
  then have "map (escalation_level 0) (alert_run 0 ?ts []) = remdups_adj (map (escalation_level 0) ?ts)"
    using one_alert_per_level [of "[]" 0 ?ts] by (simp add: latch_row_def)
  also have "\<dots> = [0, 1, 4]" by (simp add: escalation_level_def seconds_def)
  finally show ?thesis .
qed

definition ex_check :: "overdue_check option \<times> monitor_state" where
  "ex_check = evaluate_overdue 600 2 ex_world [ex_candidate] None (seconds 1800) ex_monitor"

lemma ex_check_restarts: "ms_restarts (snd ex_check) = 1"
proof -
  have freeze: "oc_next_run_at ex_candidate + seconds overdue_after = seconds 900"
    by (simp add: ex_candidate_def overdue_after_def)
  have alerted: "claim_overdue_alert (seconds 1800) (seconds 900) n [] = (True, [\<lparr>al_alert_key = SCHEDULER_OVERDUE_FREEZE_ALERT_KEY,
      al_alerted_at = seconds 1800, al_freeze_started_at = Some (seconds 900), al_next_alert_at = Some n, al_attempt_count = 0\<rparr>])" for n
    by (simp add: claim_overdue_alert_def latch_row_def)
  have heal: "ms_restarts (snd (maybe_self_heal 600 2 ex_world (seconds 1800) (ex_monitor\<lparr>ms_latches := [\<lparr>
      al_alert_key = SCHEDULER_OVERDUE_FREEZE_ALERT_KEY, al_alerted_at = seconds 1800, al_freeze_started_at = Some (seconds 900),
      al_next_alert_at = Some n, al_attempt_count = 0\<rparr>]\<rparr>))) = 1" for n
    by (simp add: maybe_self_heal_def claim_self_heal_def try_claim_self_heal_def latch_row_def granted_state_def ex_world_def
        freeze_is_current_def ex_past seconds_def [of 600] seconds_def [of 900] deliver_alert_only ex_monitor_def)
      (simp add: seconds_def ex_past [unfolded seconds_def] deliver_alert_only)
  show ?thesis
    using heal by (simp add: ex_check_def evaluate_overdue_def Let_def ex_past freeze alerted case_prod_beta deliver_alert_only
        ex_monitor_def)
qed

lemma check_refines_budget_witness:
  "\<exists>R'. (heal_step Map.empty)\<^sup>*\<^sup>* (system_of [] [] []) (system_of (ms_latches (snd ex_check)) [] (R' @ [])) \<and> length R' = 1"
  using check_refines_budget [of Map.empty ex_world "[ex_candidate]" None "seconds 1800" ex_monitor "fst ex_check" "snd ex_check" "[]" "[]"]
    ex_check_restarts by (simp add: ex_budget ex_check_def [symmetric]) (auto simp: ex_monitor_def)

definition ex_recovered_db :: scheduler_db where
  "ex_recovered_db = ex_planner_db\<lparr>sd_jobs := []\<rparr>"

definition ex_alerted :: monitor_state where
  "ex_alerted = ex_monitor\<lparr>ms_latches := [ex_overdue_latch]\<rparr>"

definition ex_offline :: monitor_world where
  "ex_offline = ex_world\<lparr>mw_confirm := Some ex_recovered_db, mw_delivers := \<lambda>_. False\<rparr>"

lemma recovery_reported_or_kept_witness:
  "fst (evaluate_overdue 600 2 ex_offline [] None (seconds 7200) ex_alerted) = None
    \<and> latch_row (ms_latches (snd (evaluate_overdue 600 2 ex_offline [] None (seconds 7200) ex_alerted)))
        SCHEDULER_OVERDUE_FREEZE_ALERT_KEY = Some ex_overdue_latch"
proof -
  have row: "latch_row (ms_latches ex_alerted) SCHEDULER_OVERDUE_FREEZE_ALERT_KEY = Some ex_overdue_latch"
    by (simp add: ex_alerted_def latch_row_def ex_overdue_latch_def)
  have none: "candidates_past_threshold t [] = []" "candidates_past_threshold t (overdue_candidates t ex_recovered_db) = []" for t
    by (simp_all add: candidates_past_threshold_def overdue_candidates_def ex_recovered_db_def map_filter_def)
  have cols: "al_freeze_started_at ex_overdue_latch = Some (seconds 900)" "al_next_alert_at ex_overdue_latch = Some (seconds 4500)"
    "al_attempt_count ex_overdue_latch = 0" by (simp_all add: ex_overdue_latch_def)
  have world: "mw_confirm ex_offline = Some ex_recovered_db" "mw_delivers ex_offline a \<longleftrightarrow> False" for a
    by (simp_all add: ex_offline_def)
  show ?thesis
    using recovery_reported_or_kept [where s = ex_alerted and l = ex_overdue_latch and f = "seconds 900" and n = "seconds 4500"
        and observed = "[]" and w = ex_offline and now = "seconds 7200" and d = ex_recovered_db and after = 600 and m = 2
        and last_tick = None, OF row cols none(1) world(1) none(2) prod.collapse [symmetric]]
    by (simp add: world row)
qed

lemma drifted_freeze_not_escalated_witness:
  "overdue_alerts (monitor_run 600 2 [\<lparr>mi_world = ex_world, mi_observed = [ex_later], mi_last_tick = None, mi_now = seconds 90000\<rparr>]
     ex_alerted) = []"
proof -
  have "latched_at (seconds 900) ex_alerted"
    by (simp add: latched_at_def ex_alerted_def latch_row_def ex_overdue_latch_def)
  moreover have "drifted_from (seconds 900)
      \<lparr>mi_world = ex_world, mi_observed = [ex_later], mi_last_tick = None, mi_now = seconds 90000\<rparr>"
    by (simp add: drifted_from_def candidates_past_threshold_def lag_seconds_at_def ex_later_def overdue_after_def seconds_def)
  ultimately show ?thesis
    using drifted_freeze_not_escalated [of "seconds 900" ex_alerted
        "[\<lparr>mi_world = ex_world, mi_observed = [ex_later], mi_last_tick = None, mi_now = seconds 90000\<rparr>]" 600 2]
    by (simp add: overdue_alerts_def ex_alerted_def ex_monitor_def)
qed

end
