(* ===== verification/Project_Files.thy ===== *)
theory Project_Files
  imports Py_Time "HOL-Library.Sublist"
begin

text \<open>
  Directory trees as the Project draft code sees them (\<open>systems/cortex/project_context/drafts.py\<close>,
  \<open>versioning.py\<close>, \<open>publish.py\<close>): the files and directories below a root by their relative path, the
  file operations of \<open>pathlib\<close> and \<open>shutil\<close> the code uses, and the manifests it builds. A single-file root is
  the tree with that file. Symbolic links, permissions and times are not part of a tree.
\<close>

section \<open>Trees\<close>

type_synonym path = "string list"

datatype node = FileNode string | DirNode

type_synonym tree = "(path \<times> node) list"

definition node_at :: "tree \<Rightarrow> path \<Rightarrow> node option" where
  "node_at t p = (if p = [] then Some DirNode else map_of t p)"

definition file_at :: "tree \<Rightarrow> path \<Rightarrow> string option" where
  "file_at t p = (case node_at t p of Some (FileNode c) \<Rightarrow> Some c | _ \<Rightarrow> None)"

definition is_dir_at :: "tree \<Rightarrow> path \<Rightarrow> bool" where
  "is_dir_at t p = (node_at t p = Some DirNode)"

text \<open>\<open>shutil.rmtree\<close> and \<open>unlink\<close>: the node and everything below it.\<close>

definition tree_remove :: "path \<Rightarrow> tree \<Rightarrow> tree" where
  "tree_remove p t = filter (\<lambda>(q, _). \<not> prefix p q) t"

definition tree_put :: "path \<Rightarrow> node \<Rightarrow> tree \<Rightarrow> tree" where
  "tree_put p n t = AList.update p n t"

text \<open>\<open>mkdir(parents=True, exist_ok=True)\<close> of \<open>pre @ cs\<close>, below the directory \<open>pre\<close>.\<close>

fun make_dirs :: "path \<Rightarrow> path \<Rightarrow> tree \<Rightarrow> tree result" where
  "make_dirs pre [] t = Inr t"
| "make_dirs pre (c # cs) t = (case node_at t (pre @ [c]) of
       Some (FileNode _) \<Rightarrow> Inl (OSError (if cs = [] then ''FileExistsError'' else ''NotADirectoryError''))
     | Some DirNode \<Rightarrow> make_dirs (pre @ [c]) cs t
     | None \<Rightarrow> make_dirs (pre @ [c]) cs (tree_put (pre @ [c]) DirNode t))"

text \<open>Make the parents, remove what is there and copy a file.\<close>

definition copy_file :: "path \<Rightarrow> string \<Rightarrow> tree \<Rightarrow> tree result" where
  "copy_file p c t = rbind (make_dirs [] (butlast p) t) (\<lambda>t'. Inr (tree_put p (FileNode c) (tree_remove p t')))"

definition is_empty_dir :: "tree \<Rightarrow> path \<Rightarrow> bool" where
  "is_empty_dir t p = (is_dir_at t p \<and> \<not> list_ex (\<lambda>(q, _). strict_prefix p q) t)"

text \<open>\<open>rmdir\<close> from the parent upwards, as long as the directories are empty.\<close>

fun prune_up :: "path \<Rightarrow> tree \<Rightarrow> tree" where
  "prune_up [] t = t"
| "prune_up (c # up) t =
     (let p = rev (c # up) in if is_empty_dir t p then prune_up up (tree_remove p t) else t)"

definition prune_empty_parents :: "path \<Rightarrow> tree \<Rightarrow> tree" where
  "prune_empty_parents p t = prune_up (rev (butlast p)) t"

text \<open>A tree: one node per path, and every node in a directory.\<close>

definition tree_ok :: "tree \<Rightarrow> bool" where
  "tree_ok t = (distinct (map fst t) \<and> [] \<notin> fst ` set t \<and> (\<forall>(p, n) \<in> set t. is_dir_at t (butlast p)))"

section \<open>Lookups after the operations\<close>

lemma node_at_Nil [simp]: "node_at t [] = Some DirNode" "file_at t [] = None"
  by (simp_all add: node_at_def file_at_def)

lemma node_at_put [simp]: "p \<noteq> [] \<Longrightarrow> node_at (tree_put p n t) q = (if q = p then Some n else node_at t q)"
  by (auto simp: node_at_def tree_put_def)

lemma map_of_filter_key: "map_of (filter (\<lambda>(k, _). P k) t) q = (if P q then map_of t q else None)"
  by (induction t) auto

lemma node_at_remove [simp]:
  "p \<noteq> [] \<Longrightarrow> node_at (tree_remove p t) q = (if prefix p q then None else node_at t q)"
  by (auto simp: node_at_def tree_remove_def map_of_filter_key)

lemma file_at_put [simp]:
  "p \<noteq> [] \<Longrightarrow> file_at (tree_put p n t) q
    = (if q = p then (case n of FileNode c \<Rightarrow> Some c | DirNode \<Rightarrow> None) else file_at t q)"
  by (simp add: file_at_def split: node.splits)

lemma file_at_remove [simp]:
  "p \<noteq> [] \<Longrightarrow> file_at (tree_remove p t) q = (if prefix p q then None else file_at t q)"
  by (simp add: file_at_def)

lemma file_at_Some: "file_at t p = Some c \<longleftrightarrow> node_at t p = Some (FileNode c)"
  by (auto simp: file_at_def split: option.splits node.splits)

lemma node_in: "tree_ok t \<Longrightarrow> p \<noteq> [] \<Longrightarrow> node_at t p = Some n \<longleftrightarrow> (p, n) \<in> set t"
  by (simp add: node_at_def tree_ok_def)

lemma parent_dir:
  assumes "tree_ok t" and "node_at t p \<noteq> None" and "p \<noteq> []"
  shows "is_dir_at t (butlast p)"
  using assms node_in [of t p] unfolding tree_ok_def by fastforce

text \<open>Every proper prefix of a node is a directory, so two files are never one below the other.\<close>

lemma ancestor_dir:
  assumes "tree_ok t" and "node_at t (p @ q) \<noteq> None" and "q \<noteq> []"
  shows "is_dir_at t p"
  using assms(2,3)
proof (induction q rule: rev_induct)
  case (snoc c q)
  have "is_dir_at t (p @ q)"
    using parent_dir [OF assms(1), of "p @ q @ [c]"] snoc.prems by (simp add: butlast_append)
  then show ?case using snoc.IH by (cases "q = []") (auto simp: is_dir_at_def)
qed simp

lemma files_incomparable:
  assumes "tree_ok t" and "file_at t p = Some c" and "file_at t q = Some d" and "prefix p q"
  shows "p = q"
proof (rule ccontr)
  assume "p \<noteq> q"
  with assms(4) obtain r where r: "q = p @ r" "r \<noteq> []" by (auto simp: prefix_def)
  have "node_at t (p @ r) \<noteq> None" using assms(3) r(1) by (simp add: file_at_Some)
  then have "is_dir_at t p" by (rule ancestor_dir [OF assms(1) _ r(2)])
  then show False using assms(2) by (simp add: file_at_Some is_dir_at_def)
qed

lemma tree_okI:
  assumes "distinct (map fst t)" and "[] \<notin> fst ` set t"
    and "\<And>p. node_at t p \<noteq> None \<Longrightarrow> p \<noteq> [] \<Longrightarrow> is_dir_at t (butlast p)"
  shows "tree_ok t"
  unfolding tree_ok_def
proof (intro conjI ballI, goal_cases)
  case (3 x)
  obtain p n where x: "x = (p, n)" by (cases x)
  with 3 have "p \<noteq> []" "map_of t p = Some n" using assms(1,2) by force+
  then show ?case using assms(3) [of p] by (simp add: x node_at_def)
qed (use assms in auto)

lemma tree_ok_Nil [simp]: "tree_ok []"
  by (simp add: tree_ok_def)

lemma tree_ok_put:
  assumes "tree_ok t" and "p \<noteq> []" and "is_dir_at t (butlast p)" and "n = DirNode \<or> node_at t p \<noteq> Some DirNode"
  shows "tree_ok (tree_put p n t)"
proof (rule tree_okI)
  show "distinct (map fst (tree_put p n t))"
    using assms(1) by (simp add: tree_ok_def tree_put_def distinct_update)
  show "[] \<notin> fst ` set (tree_put p n t)"
  proof -
    have "fst ` set (AList.update p n t) = {p} \<union> fst ` set t" by (rule dom_update)
    then show ?thesis using assms(1,2) by (auto simp: tree_ok_def tree_put_def)
  qed
next
  fix q assume q: "node_at (tree_put p n t) q \<noteq> None" "q \<noteq> []"
  have "butlast p \<noteq> p" using assms(2) by (metis append_butlast_last_id append_self_conv list.distinct(1))
  show "is_dir_at (tree_put p n t) (butlast q)"
  proof (cases "q = p")
    case True
    then show ?thesis using assms(2,3) \<open>butlast p \<noteq> p\<close> by (simp add: is_dir_at_def)
  next
    case False
    then have "is_dir_at t (butlast q)" using parent_dir [OF assms(1)] q assms(2) by simp
    then show ?thesis using assms(2,4) by (auto simp: is_dir_at_def)
  qed
qed

lemma tree_ok_remove:
  assumes "tree_ok t" and "p \<noteq> []"
  shows "tree_ok (tree_remove p t)"
proof (rule tree_okI)
  show "distinct (map fst (tree_remove p t))"
    using assms(1) by (simp add: tree_ok_def tree_remove_def distinct_map_filter)
  show "[] \<notin> fst ` set (tree_remove p t)"
    using assms(1) by (auto simp: tree_ok_def tree_remove_def)
next
  fix q assume q: "node_at (tree_remove p t) q \<noteq> None" "q \<noteq> []"
  then have "is_dir_at t (butlast q)" "\<not> prefix p q"
    using parent_dir [OF assms(1)] assms(2) by (auto split: if_splits)
  moreover have "\<not> prefix p (butlast q)"
    using q(2) \<open>\<not> prefix p q\<close> by (metis append_butlast_last_id prefix_prefix)
  ultimately show "is_dir_at (tree_remove p t) (butlast q)" using assms(2) by (simp add: is_dir_at_def)
qed

lemma file_at_new_dir:
  "p \<noteq> [] \<Longrightarrow> node_at t p = None \<Longrightarrow> file_at (tree_put p DirNode t) = file_at t"
  by (auto simp: fun_eq_iff file_at_def)

lemma make_dirs_file:
  "make_dirs pre cs t = Inr t' \<Longrightarrow> file_at t' = file_at t"
proof (induction pre cs t rule: make_dirs.induct)
  case (2 pre c cs t)
  then show ?case
    by (cases "node_at t (pre @ [c])") (auto simp: file_at_new_dir split: node.splits)
qed simp

lemma make_dirs_dir:
  "make_dirs pre cs t = Inr t' \<Longrightarrow> is_dir_at t q \<Longrightarrow> is_dir_at t' q"
  by (induction pre cs t rule: make_dirs.induct) (auto split: option.splits node.splits simp: is_dir_at_def)

lemma make_dirs_ok:
  "make_dirs pre cs t = Inr t' \<Longrightarrow> tree_ok t \<Longrightarrow> is_dir_at t pre \<Longrightarrow> tree_ok t' \<and> is_dir_at t' (pre @ cs)"
proof (induction pre cs t rule: make_dirs.induct)
  case (2 pre c cs t)
  show ?case
  proof (cases "node_at t (pre @ [c])")
    case None
    have "tree_ok (tree_put (pre @ [c]) DirNode t)"
      using 2(4,5) None by (intro tree_ok_put) simp_all
    then show ?thesis using 2(1) [OF None] 2(3) None 2(5) by (simp add: is_dir_at_def)
  next
    case (Some n)
    then have n: "n = DirNode" using 2(3) by (cases n) simp_all
    show ?thesis using 2(2) [OF Some n] 2(3,4) Some n by (simp add: is_dir_at_def)
  qed
qed simp

lemma make_dirs_succeeds:
  "(\<And>i. i < length cs \<Longrightarrow> file_at t (pre @ take (Suc i) cs) = None) \<Longrightarrow> \<exists>t'. make_dirs pre cs t = Inr t'"
proof (induction pre cs t rule: make_dirs.induct)
  case (2 pre c cs t)
  have rest: "file_at t ((pre @ [c]) @ take (Suc i) cs) = None" if "i < length cs" for i
    using 2(3) [of "Suc i"] that by simp
  have "file_at t (pre @ [c]) = None" using 2(3) [of 0] by simp
  then consider "node_at t (pre @ [c]) = None" | "node_at t (pre @ [c]) = Some DirNode"
    by (auto simp: file_at_def split: option.splits node.splits)
  then show ?case
  proof cases
    case 1
    have "file_at (tree_put (pre @ [c]) DirNode t) ((pre @ [c]) @ take (Suc i) cs) = None" if "i < length cs" for i
      using rest [OF that] by simp
    then show ?thesis using "2.IH"(1) [OF 1] 1 by simp
  next
    case 2: 2
    then show ?thesis using "2.IH"(2) [OF 2 refl] rest by simp
  qed
qed simp

lemma copy_file_file:
  assumes "copy_file p c t = Inr t'" and "p \<noteq> []"
  shows "file_at t' q = (if q = p then Some c else if prefix p q then None else file_at t q)"
  using assms by (auto simp: copy_file_def rbind_Inr_iff dest: make_dirs_file)

lemma copy_file_ok:
  assumes "copy_file p c t = Inr t'" and "p \<noteq> []" and "tree_ok t"
  shows "tree_ok t'"
proof -
  from assms(1) obtain t1 where t1: "make_dirs [] (butlast p) t = Inr t1" "t' = tree_put p (FileNode c) (tree_remove p t1)"
    by (auto simp: copy_file_def rbind_Inr_iff)
  from make_dirs_ok [OF t1(1) assms(3)] have ok: "tree_ok t1" "is_dir_at t1 (butlast p)" by (simp_all add: is_dir_at_def)
  have "\<not> prefix p (butlast p)" using assms(2) by (metis append_butlast_last_id prefixI prefix_order.antisym not_Cons_self2 append_self_conv)
  with ok show ?thesis
    unfolding t1(2) using assms(2) by (intro tree_ok_put tree_ok_remove) (simp_all add: is_dir_at_def)
qed

text \<open>A copy fails only when a file stands where a parent directory is needed.\<close>

lemma copy_file_succeeds:
  assumes "\<And>q. strict_prefix q p \<Longrightarrow> file_at t q = None"
  shows "\<exists>t'. copy_file p c t = Inr t'"
proof -
  have "file_at t ([] @ take (Suc i) (butlast p)) = None" if "i < length (butlast p)" for i
  proof -
    have "strict_prefix (take (Suc i) (butlast p)) p"
      using that by (auto simp: take_butlast strict_prefix_def take_is_prefix dest: arg_cong [where f = length])
    then show ?thesis using assms by simp
  qed
  then have "\<exists>t'. make_dirs [] (butlast p) t = Inr t'" by (rule make_dirs_succeeds)
  then show ?thesis by (auto simp: copy_file_def)
qed

lemma prune_up_file: "file_at (prune_up up t) = file_at t"
proof (induction up t rule: prune_up.induct)
  case (2 c up t)
  let ?p = "rev (c # up)"
  show ?case
  proof (cases "is_empty_dir t ?p")
    case True
    have "file_at (tree_remove ?p t) q = file_at t q" for q
    proof (cases "prefix ?p q")
      case pre: True
      have "node_at t q = Some n \<Longrightarrow> q = ?p" for n
        using True pre map_of_SomeD [of t q n] unfolding is_empty_dir_def node_at_def list_ex_iff
        by (auto simp: strict_prefix_def split: if_splits)
      then have "file_at t q = None"
        using True by (cases "node_at t q") (auto simp: file_at_def is_empty_dir_def is_dir_at_def)
      then show ?thesis using pre by (simp add: file_at_remove)
    qed (simp add: file_at_remove)
    then show ?thesis using 2 True by (simp add: fun_eq_iff)
  qed simp
qed simp

lemma prune_up_ok: "tree_ok t \<Longrightarrow> tree_ok (prune_up up t)"
  by (induction up t rule: prune_up.induct) (simp_all add: Let_def tree_ok_remove)

lemma prune_file [simp]: "file_at (prune_empty_parents p t) = file_at t"
  by (simp add: prune_empty_parents_def prune_up_file)

lemma prune_ok: "tree_ok t \<Longrightarrow> tree_ok (prune_empty_parents p t)"
  by (simp add: prune_empty_parents_def prune_up_ok)

section \<open>Manifests\<close>

text \<open>
  A manifest entry is the digest and the size of a file; its kind is always \<open>file\<close>. \<open>sha\<close> is SHA-256 in
  hexadecimal. A manifest is a dictionary sorted by the text of its paths.
\<close>

record file_entry =
  fe_sha256 :: string
  fe_size :: int

type_synonym manifest = "(path \<times> file_entry) list"

definition manifest_entry :: "(string \<Rightarrow> string) \<Rightarrow> string \<Rightarrow> file_entry" where
  "manifest_entry sha c = \<lparr>fe_sha256 = sha c, fe_size = int (length c)\<rparr>"

definition path_text :: "path \<Rightarrow> string" where
  "path_text p = py_join ''/'' p"

definition slashes :: "string \<Rightarrow> string" where
  "slashes s = map (\<lambda>c. if c = CHR 0x5C then CHR ''/'' else c) s"

text \<open>The regular files that are not \<open>hidden\<close>, sorted.\<close>

definition file_manifest :: "(path \<Rightarrow> bool) \<Rightarrow> (string \<Rightarrow> string) \<Rightarrow> tree \<Rightarrow> manifest" where
  "file_manifest hidden sha t =
     sort_key (path_text \<circ> fst) (List.map_filter (\<lambda>(p, n). case n of
         FileNode c \<Rightarrow> if hidden p then None else Some (p, manifest_entry sha c)
       | DirNode \<Rightarrow> None) t)"

definition sorted_paths :: "path list \<Rightarrow> path list" where
  "sorted_paths ps = sort_key path_text (remdups ps)"

lemma set_sorted_paths [simp]: "set (sorted_paths ps) = set ps"
  by (simp add: sorted_paths_def)

lemma distinct_sorted_paths [simp]: "distinct (sorted_paths ps)"
  by (simp add: sorted_paths_def distinct_sort)

lemma map_of_sort_key: "distinct (map fst xs) \<Longrightarrow> map_of (sort_key f xs) = map_of xs"
  by (subst map_of_inject_set) (simp_all add: distinct_map distinct_sort)

lemma distinct_map_filter_keys:
  assumes "distinct (map fst t)" and "\<And>p n k v. f (p, n) = Some (k, v) \<Longrightarrow> k = p"
  shows "distinct (map fst (List.map_filter f t)) \<and> fst ` set (List.map_filter f t) \<subseteq> fst ` set t"
  using assms(1)
proof (induction t)
  case (Cons x t)
  obtain q n where x: "x = (q, n)" by (cases x)
  show ?case
  proof (cases "f (q, n)")
    case (Some kv)
    then have "fst kv = q" using assms(2) [of q n] by (cases kv) simp
    moreover have "q \<notin> fst ` set (List.map_filter f t)" using Cons by (auto simp: x)
    ultimately show ?thesis using Cons Some by (auto simp: x List.map_filter_simps)
  qed (use Cons in \<open>auto simp: x List.map_filter_simps\<close>)
qed (simp add: List.map_filter_simps)

lemma map_of_map_filter:
  assumes "distinct (map fst t)" and "\<And>p n k v. f (p, n) = Some (k, v) \<Longrightarrow> k = p"
  shows "map_of (List.map_filter f t) p = (case map_of t p of None \<Rightarrow> None | Some n \<Rightarrow> map_option snd (f (p, n)))"
  using assms(1)
proof (induction t)
  case (Cons x t)
  obtain q n where x: "x = (q, n)" by (cases x)
  have fresh: "map_of (List.map_filter f t) q = None" "map_of t q = None"
    using Cons.prems distinct_map_filter_keys [of t f] assms(2) by (auto simp: x map_of_eq_None_iff)
  show ?case
  proof (cases "f (q, n)")
    case (Some kv)
    then have "fst kv = q" using assms(2) [of q n] by (cases kv) simp
    then show ?thesis using Cons Some fresh by (cases kv) (auto simp: x List.map_filter_simps)
  qed (use Cons fresh in \<open>auto simp: x List.map_filter_simps\<close>)
qed (simp add: List.map_filter_simps)

lemma map_of_file_manifest:
  assumes "tree_ok t"
  shows "map_of (file_manifest hidden sha t) p = (if hidden p then None else map_option (manifest_entry sha) (file_at t p))"
proof -
  let ?f = "\<lambda>(p, n). case n of FileNode c \<Rightarrow> if hidden p then None else Some (p, manifest_entry sha c) | DirNode \<Rightarrow> None"
  have f: "?f (p, n) = Some (k, v) \<Longrightarrow> k = p" for p n k v by (auto split: node.splits if_splits)
  have d: "distinct (map fst t)" and nil: "map_of t [] = None" using assms by (auto simp: tree_ok_def map_of_eq_None_iff)
  have "map_of (file_manifest hidden sha t) p = map_of (List.map_filter ?f t) p"
    using distinct_map_filter_keys [of t ?f] d f unfolding file_manifest_def by (subst map_of_sort_key) auto
  also have "\<dots> = (case map_of t p of None \<Rightarrow> None | Some n \<Rightarrow> map_option snd (?f (p, n)))"
    using d f by (rule map_of_map_filter)
  finally show ?thesis
    using nil by (cases "p = []") (auto simp: file_at_def node_at_def split: option.splits node.splits)
qed

lemma file_manifest_keys:
  assumes "tree_ok t" and "p \<in> fst ` set (file_manifest hidden sha t)"
  shows "\<exists>c. file_at t p = Some c \<and> \<not> hidden p"
proof -
  have "map_of (file_manifest hidden sha t) p \<noteq> None" using assms(2) by (simp add: map_of_eq_None_iff)
  then show ?thesis using assms(1) by (auto simp: map_of_file_manifest split: if_splits)
qed

end
