(* ===== verification/Project_Drafts.thy ===== *)
theory Project_Drafts
  imports Project_Files
begin

text \<open>
  Thread drafts of a Project root (\<open>systems/cortex/project_context/drafts.py\<close>, \<open>draft_conflicts.py\<close>): the
  three-way synchronization of a draft with its root, the publish plan and the conflict checkpoints. The
  metadata file and the base snapshots, which the code keeps under \<open>.illo-project-draft\<close> in the draft, are
  fields of the draft. An operation returns its result or exception and the draft it leaves.
\<close>

section \<open>Drafts\<close>

record conflict_checkpoint =
  ck_created_at :: string
  ck_root :: "file_entry option"
  ck_draft :: "file_entry option"
  ck_base :: "file_entry option"

record draft =
  dr_tree :: tree
  dr_base :: manifest
  dr_base_files :: tree
  dr_checkpoints :: "(path \<times> conflict_checkpoint) list"

definition IGNORED_DRAFT_DIRS :: "string list" where
  "IGNORED_DRAFT_DIRS = [''.illo-project-draft'', ''.illo-project-history'']"

definition draft_hidden :: "path \<Rightarrow> bool" where
  "draft_hidden p = (p \<noteq> [] \<and> hd p \<in> set IGNORED_DRAFT_DIRS)"

definition build_file_manifest :: "(string \<Rightarrow> string) \<Rightarrow> tree \<Rightarrow> manifest" where
  "build_file_manifest sha t = file_manifest draft_hidden sha t"

definition manifest_paths :: "manifest list \<Rightarrow> path list" where
  "manifest_paths ms = sorted_paths (concat (map (map fst) ms))"

definition copy_from :: "tree \<Rightarrow> path \<Rightarrow> tree \<Rightarrow> tree result" where
  "copy_from root p t = (case file_at root p of
       None \<Rightarrow> Inl (OSError ''FileNotFoundError'')
     | Some c \<Rightarrow> copy_file p c t)"

section \<open>Synchronization\<close>

record sync_log =
  sl_copied :: "path list"
  sl_removed :: "path list"
  sl_preserved :: "path list"
  sl_conflicts :: "path list"

record sync_result =
  sr_log :: sync_log
  sr_base :: manifest
  sr_root :: manifest
  sr_draft :: manifest
  sr_updated_base :: manifest

definition sync_path ::
  "tree \<Rightarrow> manifest \<Rightarrow> manifest \<Rightarrow> manifest \<Rightarrow> path \<Rightarrow> tree \<Rightarrow> sync_log \<Rightarrow> (tree \<times> sync_log) result" where
  "sync_path root base rootm before p t log =
     (let b = map_of base p; r = map_of rootm p; d = map_of before p in
      if d = b then
        (if r = None then
           (if d \<noteq> None
            then Inr (prune_empty_parents p (tree_remove p t), log\<lparr>sl_removed := sl_removed log @ [p]\<rparr>)
            else Inr (t, log))
         else if d \<noteq> r
         then rbind (copy_from root p t) (\<lambda>t'. Inr (t', log\<lparr>sl_copied := sl_copied log @ [p]\<rparr>))
         else Inr (t, log))
      else if d = r then Inr (t, log)
      else Inr (t, log\<lparr>sl_preserved := sl_preserved log @ [p],
                       sl_conflicts := sl_conflicts log @ (if r \<noteq> b then [p] else [])\<rparr>))"

fun sync_loop ::
  "tree \<Rightarrow> manifest \<Rightarrow> manifest \<Rightarrow> manifest \<Rightarrow> path list \<Rightarrow> tree \<Rightarrow> sync_log \<Rightarrow> py_error option \<times> tree \<times> sync_log" where
  "sync_loop root base rootm before [] t log = (None, t, log)"
| "sync_loop root base rootm before (p # ps) t log = (case sync_path root base rootm before p t log of
       Inl e \<Rightarrow> (Some e, t, log)
     | Inr (t', log') \<Rightarrow> sync_loop root base rootm before ps t' log')"

definition updated_base_manifest :: "path list \<Rightarrow> manifest \<Rightarrow> manifest \<Rightarrow> path list \<Rightarrow> manifest" where
  "updated_base_manifest ps base rootm conflicts =
     List.map_filter (\<lambda>p. map_option (Pair p) (if p \<in> set conflicts then map_of base p else map_of rootm p)) ps"

fun sync_base_snapshots ::
  "tree \<Rightarrow> manifest \<Rightarrow> path list \<Rightarrow> path list \<Rightarrow> tree \<Rightarrow> py_error option \<times> tree" where
  "sync_base_snapshots root rootm conflicts [] t = (None, t)"
| "sync_base_snapshots root rootm conflicts (p # ps) t =
     (if p \<in> set conflicts then sync_base_snapshots root rootm conflicts ps t
      else if map_of rootm p = None
      then sync_base_snapshots root rootm conflicts ps (prune_empty_parents p (tree_remove p t))
      else (case copy_from root p t of
          Inl e \<Rightarrow> (Some e, t)
        | Inr t' \<Rightarrow> sync_base_snapshots root rootm conflicts ps t'))"

definition without_checkpoints :: "path list \<Rightarrow> (path \<times> conflict_checkpoint) list \<Rightarrow> (path \<times> conflict_checkpoint) list" where
  "without_checkpoints ps cs = filter (\<lambda>(p, _). p \<notin> set ps) cs"

definition sync_draft_from_root ::
  "(string \<Rightarrow> string) \<Rightarrow> tree \<Rightarrow> manifest option \<Rightarrow> draft \<Rightarrow> sync_result result \<times> draft" where
  "sync_draft_from_root sha root base_manifest d =
     (let base = (case base_manifest of None \<Rightarrow> dr_base d | Some b \<Rightarrow> b);
          rootm = build_file_manifest sha root;
          before = build_file_manifest sha (dr_tree d);
          (failed, t, log) = sync_loop root base rootm before (manifest_paths [base, rootm, before]) (dr_tree d)
             \<lparr>sl_copied = [], sl_removed = [], sl_preserved = [], sl_conflicts = []\<rparr> in
      case failed of
        Some e \<Rightarrow> (Inl e, d\<lparr>dr_tree := t\<rparr>)
      | None \<Rightarrow>
         (let after = build_file_manifest sha t;
              ps = manifest_paths [base, rootm, after];
              updated = updated_base_manifest ps base rootm (sl_conflicts log);
              (failed', snapshots) = sync_base_snapshots root rootm (sl_conflicts log) ps (dr_base_files d) in
          case failed' of
            Some e \<Rightarrow> (Inl e, d\<lparr>dr_tree := t, dr_base_files := snapshots\<rparr>)
          | None \<Rightarrow>
             (Inr \<lparr>sr_log = log, sr_base = base, sr_root = rootm, sr_draft = after, sr_updated_base = updated\<rparr>,
              d\<lparr>dr_tree := t, dr_base := updated, dr_base_files := snapshots,
                dr_checkpoints := without_checkpoints (filter (\<lambda>p. p \<notin> set (sl_conflicts log)) ps) (dr_checkpoints d)\<rparr>)))"

section \<open>The publish plan\<close>

record publish_plan =
  pp_created :: "path list"
  pp_modified :: "path list"
  pp_deleted :: "path list"
  pp_conflicted :: "path list"
  pp_out_of_date :: "path list"

definition entries_conflict :: "file_entry option \<Rightarrow> file_entry option \<Rightarrow> file_entry option \<Rightarrow> bool" where
  "entries_conflict b r d = (if d = b \<or> r = b then False else d \<noteq> r)"

definition conflict_checkpoint_resolves ::
  "conflict_checkpoint option \<Rightarrow> file_entry option \<Rightarrow> file_entry option \<Rightarrow> bool \<Rightarrow> bool" where
  "conflict_checkpoint_resolves ck r d allow_unmodified = (case ck of
       None \<Rightarrow> False
     | Some k \<Rightarrow> if ck_root k \<noteq> r then False else if allow_unmodified then True else ck_draft k \<noteq> d)"

datatype draft_change = Unchanged | OutOfDate | Conflicted | Created | Modified | Deleted

definition classify_change ::
  "bool \<Rightarrow> conflict_checkpoint option \<Rightarrow> file_entry option \<Rightarrow> file_entry option \<Rightarrow> file_entry option \<Rightarrow> draft_change" where
  "classify_change allow ck b r d =
     (if d = b then (if r \<noteq> b then OutOfDate else Unchanged)
      else if entries_conflict b r d \<and> \<not> conflict_checkpoint_resolves ck r d allow then Conflicted
      else if d = r then Unchanged
      else if d \<noteq> None \<and> r = None \<and> b = None then Created
      else if b \<noteq> None \<and> d = None then Deleted
      else if b = None \<and> d = None then Unchanged
      else Modified)"

definition plan_draft_publish ::
  "(string \<Rightarrow> string) \<Rightarrow> tree \<Rightarrow> draft \<Rightarrow> manifest option \<Rightarrow> bool \<Rightarrow> publish_plan" where
  "plan_draft_publish sha root d base_manifest allow =
     (let rootm = build_file_manifest sha root;
          base = (case base_manifest of Some b \<Rightarrow> b | None \<Rightarrow> if dr_base d = [] then rootm else dr_base d);
          draftm = build_file_manifest sha (dr_tree d);
          ps = manifest_paths [base, rootm, draftm];
          change = (\<lambda>p. classify_change allow (map_of (dr_checkpoints d) p) (map_of base p) (map_of rootm p) (map_of draftm p)) in
      \<lparr>pp_created = filter (\<lambda>p. change p = Created) ps, pp_modified = filter (\<lambda>p. change p = Modified) ps,
       pp_deleted = filter (\<lambda>p. change p = Deleted) ps, pp_conflicted = filter (\<lambda>p. change p = Conflicted) ps,
       pp_out_of_date = filter (\<lambda>p. change p = OutOfDate \<or> change p = Conflicted) ps\<rparr>)"

section \<open>Checkpoints\<close>

definition record_conflict_checkpoints ::
  "(string \<Rightarrow> string) \<Rightarrow> string \<Rightarrow> tree \<Rightarrow> path list \<Rightarrow> draft \<Rightarrow> draft" where
  "record_conflict_checkpoints sha created_at root ps d =
     (let rootm = build_file_manifest sha root; draftm = build_file_manifest sha (dr_tree d) in
      d\<lparr>dr_checkpoints := fold (\<lambda>p cs. AList.update p
          \<lparr>ck_created_at = created_at, ck_root = map_of rootm p, ck_draft = map_of draftm p, ck_base = map_of (dr_base d) p\<rparr> cs)
        (sorted_paths (filter (\<lambda>p. p \<noteq> []) ps)) (dr_checkpoints d)\<rparr>)"

definition clear_conflict_checkpoints :: "path list option \<Rightarrow> draft \<Rightarrow> draft" where
  "clear_conflict_checkpoints ps d =
     d\<lparr>dr_checkpoints := (case ps of None \<Rightarrow> [] | Some qs \<Rightarrow> without_checkpoints qs (dr_checkpoints d))\<rparr>"

definition refresh_base_snapshots_for_paths ::
  "(string \<Rightarrow> string) \<Rightarrow> tree \<Rightarrow> path list \<Rightarrow> draft \<Rightarrow> py_error option \<times> draft" where
  "refresh_base_snapshots_for_paths sha root ps d =
     (let (failed, t) = sync_base_snapshots root (build_file_manifest sha root) [] (sorted_paths (filter (\<lambda>p. p \<noteq> []) ps)) (dr_base_files d) in
      (failed, d\<lparr>dr_base_files := t\<rparr>))"

section \<open>Manifests of drafts and roots\<close>

lemma map_of_build [simp]:
  "tree_ok t \<Longrightarrow> map_of (build_file_manifest sha t) p
     = (if draft_hidden p then None else map_option (manifest_entry sha) (file_at t p))"
  by (simp add: build_file_manifest_def map_of_file_manifest)

lemma not_hidden_Nil: "\<not> draft_hidden []"
  by (simp add: draft_hidden_def)

lemma set_manifest_paths: "p \<in> set (manifest_paths ms) \<longleftrightarrow> (\<exists>m \<in> set ms. map_of m p \<noteq> None)"
  by (force simp: manifest_paths_def map_of_eq_None_iff)

lemma distinct_manifest_paths [simp]: "distinct (manifest_paths ms)"
  by (simp add: manifest_paths_def)

text \<open>A path comes before the paths below it.\<close>

lemma path_text_less:
  assumes "strict_prefix q p" and "q \<noteq> []"
  shows "path_text q < path_text p"
proof -
  from assms(1) obtain r where r: "p = q @ r" "r \<noteq> []" by (auto simp: strict_prefix_def prefix_def)
  have "path_text p = path_text q @ (''/'' @ py_join ''/'' r)"
    using py_join_append [OF assms(2) r(2), of "''/''"] by (simp add: path_text_def r(1))
  moreover have "u < u @ (c # v)" for u v :: string and c by (induction u) simp_all
  ultimately show ?thesis by simp
qed

lemma sorted_paths_before:
  assumes "sorted_paths ps = xs @ p # ys" and "strict_prefix q p" and "q \<noteq> []"
  shows "q \<notin> set ys"
proof
  assume "q \<in> set ys"
  have "sorted (map path_text (sorted_paths ps))" by (simp add: sorted_paths_def)
  then have "path_text p \<le> path_text q" using assms(1) \<open>q \<in> set ys\<close> by (auto simp: sorted_append)
  then show False using path_text_less [OF assms(2,3)] by simp
qed

section \<open>Three-way merge\<close>

text \<open>No file of one tree stands where the other has a directory with files.\<close>

definition clash_free :: "tree \<Rightarrow> tree \<Rightarrow> bool" where
  "clash_free a b =
     (\<forall>(p, n) \<in> set a. \<forall>(q, m) \<in> set b. n \<noteq> DirNode \<and> m \<noteq> DirNode \<and> (prefix p q \<or> prefix q p) \<longrightarrow> p = q)"

lemma clash_freeD:
  assumes "clash_free a b" and "tree_ok a" and "tree_ok b" and "file_at a p \<noteq> None" and "file_at b q \<noteq> None"
    and "prefix p q \<or> prefix q p"
  shows "p = q"
proof -
  obtain c d where "node_at a p = Some (FileNode c)" "node_at b q = Some (FileNode d)"
    using assms(4,5) by (auto simp: file_at_Some)
  moreover then have "p \<noteq> []" "q \<noteq> []" by (auto simp: node_at_def)
  ultimately have "(p, FileNode c) \<in> set a" "(q, FileNode d) \<in> set b" using node_in assms(2,3) by blast+
  then show ?thesis using assms(1,6) unfolding clash_free_def by fastforce
qed

definition merged :: "'a option \<Rightarrow> 'a option \<Rightarrow> 'a option \<Rightarrow> 'a option" where
  "merged b r d = (if d = b then r else d)"

definition takes_root :: "manifest \<Rightarrow> manifest \<Rightarrow> manifest \<Rightarrow> path \<Rightarrow> bool" where
  "takes_root base rootm before p = (map_of before p = map_of base p \<and> map_of rootm p \<noteq> map_of before p)"

lemma copy_from_step:
  assumes root: "tree_ok root" "file_at root p = Some c" and t: "tree_ok t"
    and clear: "\<And>q. file_at t q \<noteq> None \<Longrightarrow> prefix p q \<or> prefix q p \<Longrightarrow> q = p"
  shows "\<exists>t'. copy_from root p t = Inr t' \<and> tree_ok t' \<and> (\<forall>q. file_at t' q = (if q = p then Some c else file_at t q))"
proof -
  have p: "p \<noteq> []" using root(2) by auto
  have "\<exists>t'. copy_file p c t = Inr t'" using clear by (intro copy_file_succeeds) (metis strict_prefix_def)
  then obtain t' where t': "copy_file p c t = Inr t'" by blast
  have "file_at t' q = (if q = p then Some c else file_at t q)" for q
    using copy_file_file [OF t' p] clear [of q] by (cases "file_at t q") auto
  then show ?thesis using t' copy_file_ok [OF t' p t] root(2) by (auto simp: copy_from_def)
qed

lemma remove_step:
  assumes "tree_ok t" and "p \<noteq> []" and "\<And>q. file_at t q \<noteq> None \<Longrightarrow> prefix p q \<Longrightarrow> q = p"
  shows "tree_ok (prune_empty_parents p (tree_remove p t))
    \<and> (\<forall>q. file_at (prune_empty_parents p (tree_remove p t)) q = (if q = p then None else file_at t q))"
proof -
  have "file_at t q = None" if "prefix p q" "q \<noteq> p" for q using assms(3) that by blast
  then show ?thesis using assms(1,2) by (simp add: prune_ok tree_ok_remove)
qed

text \<open>
  The loop over the paths, when root and draft do not clash: it ends without an exception, and every path it
  passed has the file of the merge.
\<close>

lemma sync_loop_files:
  fixes root t0 :: tree and sha :: "string \<Rightarrow> string" and base :: manifest
  defines "rootm \<equiv> build_file_manifest sha root" and "before \<equiv> build_file_manifest sha t0"
  defines "target \<equiv> \<lambda>p. if takes_root base rootm before p then file_at root p else file_at t0 p"
  assumes ok: "tree_ok root" "tree_ok t0" "clash_free root t0"
  assumes "distinct ps" and "set ps \<inter> S = {}" and "tree_ok t"
    and "\<And>q. file_at t q = (if q \<in> S then target q else file_at t0 q)"
  shows "\<exists>t' log'. sync_loop root base rootm before ps t log = (None, t', log') \<and> tree_ok t'
    \<and> (\<forall>q. file_at t' q = (if q \<in> S \<union> set ps then target q else file_at t0 q))"
  using assms(7-10)
proof (induction ps arbitrary: S t log)
  case (Cons p ps)
  have files: "file_at t q \<noteq> None \<Longrightarrow> file_at root q \<noteq> None \<or> file_at t0 q \<noteq> None" for q
    using Cons.prems(4) [of q] by (auto simp: target_def split: if_splits)
  have apart: "q = p" if "file_at root p \<noteq> None \<or> file_at t0 p \<noteq> None" "file_at t q \<noteq> None" "prefix p q \<or> prefix q p" for q
    using that files [OF that(2)] files_incomparable [OF ok(1)] files_incomparable [OF ok(2)] clash_freeD [OF ok(3,1,2)]
    by (metis option.exhaust)
  have rest: "\<exists>t' log'. sync_loop root base rootm before ps u log1 = (None, t', log') \<and> tree_ok t'
      \<and> (\<forall>q. file_at t' q = (if q \<in> S \<union> set (p # ps) then target q else file_at t0 q))"
    if u: "tree_ok u" "\<And>q. file_at u q = (if q = p then target p else file_at t q)" for u log1
    using Cons.IH [of "insert p S" u log1] Cons.prems u by (simp add: Un_insert_left)
  let ?b = "map_of base p" and ?r = "map_of rootm p" and ?d = "map_of before p"
  have here: "file_at t p = file_at t0 p" using Cons.prems(2,4) by auto
  have r: "?r = (if draft_hidden p then None else map_option (manifest_entry sha) (file_at root p))"
    and d: "?d = (if draft_hidden p then None else map_option (manifest_entry sha) (file_at t0 p))"
    using ok by (simp_all add: rootm_def before_def)
  show ?case
  proof (cases "takes_root base rootm before p")
    case False
    then have "target p = file_at t0 p" by (simp add: target_def)
    then have "\<exists>t' log'. sync_loop root base rootm before ps t log1 = (None, t', log') \<and> tree_ok t'
      \<and> (\<forall>q. file_at t' q = (if q \<in> S \<union> set (p # ps) then target q else file_at t0 q))" for log1
      using here Cons.prems(3) by (intro rest) simp_all
    moreover have "\<exists>log1. sync_path root base rootm before p t log = Inr (t, log1)"
      using False by (auto simp: sync_path_def takes_root_def Let_def)
    ultimately show ?thesis by fastforce
  next
    case True
    then have tr: "?d = ?b" "?r \<noteq> ?d" unfolding takes_root_def by blast+
    show ?thesis
    proof (cases ?r)
      case None
      have some: "?d \<noteq> None" using tr None by metis
      then have vis: "\<not> draft_hidden p" "file_at t0 p \<noteq> None" using d by (metis option.map_disc_iff)+
      then have "target p = None" "p \<noteq> []" using None True r by (auto simp: target_def)
      with some have s: "sync_path root base rootm before p t log
          = Inr (prune_empty_parents p (tree_remove p t), log\<lparr>sl_removed := sl_removed log @ [p]\<rparr>)"
        using tr None by (simp add: sync_path_def Let_def)
      have "tree_ok (prune_empty_parents p (tree_remove p t))
        \<and> (\<forall>q. file_at (prune_empty_parents p (tree_remove p t)) q = (if q = p then None else file_at t q))"
        using vis apart by (intro remove_step Cons.prems(3) \<open>p \<noteq> []\<close>) blast
      then show ?thesis using rest \<open>target p = None\<close> by (simp add: s)
    next
      case (Some e)
      then obtain c where c: "file_at root p = Some c" using r by (auto split: if_splits)
      then have "target p = Some c" using True by (simp add: target_def)
      moreover have "\<exists>t'. copy_from root p t = Inr t' \<and> tree_ok t' \<and> (\<forall>q. file_at t' q = (if q = p then Some c else file_at t q))"
        using c apart by (intro copy_from_step ok(1) Cons.prems(3)) auto
      ultimately obtain t' where t': "copy_from root p t = Inr t'" "tree_ok t'" "\<And>q. file_at t' q = (if q = p then target p else file_at t q)"
        by metis
      then show ?thesis using rest [OF t'(2,3)] tr Some by (simp add: sync_path_def Let_def)
    qed
  qed
qed (use assms in auto)

text \<open>The log depends on the manifests only.\<close>

lemma sync_path_log:
  assumes "sync_path root base rootm before p t log = Inr (t', log')"
  shows "sl_conflicts log' = sl_conflicts log
      @ (if entries_conflict (map_of base p) (map_of rootm p) (map_of before p) then [p] else [])"
    and "sl_preserved log' = sl_preserved log
      @ (if map_of before p \<noteq> map_of base p \<and> map_of before p \<noteq> map_of rootm p then [p] else [])"
    and "sl_copied log' = sl_copied log @ (if takes_root base rootm before p \<and> map_of rootm p \<noteq> None then [p] else [])"
    and "sl_removed log' = sl_removed log @ (if takes_root base rootm before p \<and> map_of rootm p = None then [p] else [])"
  using assms unfolding sync_path_def Let_def entries_conflict_def takes_root_def
  by (auto simp: rbind_Inr_iff split: if_split_asm)

lemma sync_loop_log:
  assumes "sync_loop root base rootm before ps t log = (None, t', log')"
  shows "sl_conflicts log' = sl_conflicts log @ filter (\<lambda>p. entries_conflict (map_of base p) (map_of rootm p) (map_of before p)) ps
    \<and> sl_preserved log' = sl_preserved log @ filter (\<lambda>p. map_of before p \<noteq> map_of base p \<and> map_of before p \<noteq> map_of rootm p) ps
    \<and> sl_copied log' = sl_copied log @ filter (\<lambda>p. takes_root base rootm before p \<and> map_of rootm p \<noteq> None) ps
    \<and> sl_removed log' = sl_removed log @ filter (\<lambda>p. takes_root base rootm before p \<and> map_of rootm p = None) ps"
  using assms
proof (induction ps arbitrary: t log)
  case (Cons p ps)
  then obtain t1 log1 where s: "sync_path root base rootm before p t log = Inr (t1, log1)"
    "sync_loop root base rootm before ps t1 log1 = (None, t', log')" by (auto split: sum.splits)
  show ?case using Cons.IH [OF s(2)] sync_path_log [OF s(1)] by simp
qed simp

section \<open>Base snapshots\<close>

lemma manifest_paths_order:
  assumes "manifest_paths ms = xs @ p # ys" and "strict_prefix q p" and "q \<noteq> []"
  shows "q \<notin> set (p # ys)"
  using sorted_paths_before [OF assms(1) [unfolded manifest_paths_def] assms(2,3)] assms(2) by auto

text \<open>
  The loop over the base snapshots. \<open>s0\<close> are the snapshots before it; every path it visits is a file of the
  root, the draft or a snapshot, and a conflict is a file of the root or the draft.
\<close>

lemma base_snapshots_loop:
  fixes root t0 s0 :: tree and sha :: "string \<Rightarrow> string" and ms :: "manifest list" and conflicts :: "path list"
  defines "rootm \<equiv> build_file_manifest sha root" and "paths \<equiv> manifest_paths ms"
  assumes ok: "tree_ok root" "tree_ok t0" "clash_free root t0" "tree_ok s0"
    and visited: "\<And>p. p \<in> set paths \<Longrightarrow> file_at root p \<noteq> None \<or> file_at t0 p \<noteq> None \<or> file_at s0 p \<noteq> None"
    and snaps: "\<And>p. file_at s0 p \<noteq> None \<Longrightarrow> p \<in> set paths"
    and conf: "\<And>p. p \<in> set conflicts \<Longrightarrow> file_at root p \<noteq> None \<or> file_at t0 p \<noteq> None"
  assumes "paths = xs @ ps" and "tree_ok t"
    and "\<And>q. q \<in> set conflicts \<Longrightarrow> file_at t q = file_at s0 q"
    and "\<And>q. q \<in> set xs \<Longrightarrow> q \<notin> set conflicts \<Longrightarrow> file_at t q = (if draft_hidden q then None else file_at root q)"
    and "\<And>q. q \<notin> set xs \<Longrightarrow> file_at t q \<noteq> None \<Longrightarrow> file_at s0 q \<noteq> None"
  shows "\<exists>t'. sync_base_snapshots root rootm conflicts ps t = (None, t') \<and> tree_ok t'
    \<and> (\<forall>q \<in> set conflicts. file_at t' q = file_at s0 q)
    \<and> (\<forall>q \<in> set paths - set conflicts. file_at t' q = (if draft_hidden q then None else file_at root q))
    \<and> (\<forall>q. q \<notin> set paths \<longrightarrow> file_at t' q = None)"
  using assms(10-14)
proof (induction ps arbitrary: xs t)
  case Nil
  have "file_at t q = None" if "q \<notin> set paths" for q
    using Nil.prems(1,5) snaps that by (metis append_Nil2)
  then show ?case using Nil by auto
next
  case (Cons p ps)
  note paths = Cons.prems(1) and inv = Cons.prems(2-5)
  have split: "paths = (xs @ [p]) @ ps" using paths by simp
  have p: "p \<noteq> []" using visited [of p] paths by auto
  have p_new: "p \<notin> set xs" using paths distinct_manifest_paths [of ms] by (simp add: paths_def)
  have after: "q \<notin> set (p # ps)" if "strict_prefix q p" "q \<noteq> []" for q
    using manifest_paths_order [OF paths [unfolded paths_def] that] .
  have before: "q \<notin> set xs" if "strict_prefix p q" for q
  proof
    assume "q \<in> set xs"
    then obtain us vs where "xs = us @ q # vs" by (auto simp: in_set_conv_decomp)
    then have "p \<notin> set (q # vs @ p # ps)"
      using manifest_paths_order [of ms us q "vs @ p # ps" p] that p paths by (auto simp: paths_def)
    then show False by simp
  qed
  show ?case
  proof (cases "p \<in> set conflicts")
    case True
    then have run: "sync_base_snapshots root rootm conflicts (p # ps) t = sync_base_snapshots root rootm conflicts ps t" by simp
    show ?thesis unfolding run by (rule Cons.IH [OF split inv(1,2)]) (use True inv(3,4) in auto)
  next
    case free: False
    have conf_apart: "file_at t q = None" if "q \<in> set conflicts" "strict_prefix p q" for q
    proof (rule ccontr)
      assume "file_at t q \<noteq> None"
      then have s: "file_at s0 q \<noteq> None" using inv(2) that(1) by simp
      have "p \<in> set paths" using paths by simp
      from visited [OF this] conf [OF that(1)] s that(2)
      show False
        using files_incomparable [OF ok(1)] files_incomparable [OF ok(2)] files_incomparable [OF ok(4)] clash_freeD [OF ok(3,1,2)]
        by (metis option.exhaust strict_prefix_def)
    qed
    have IH: "?thesis" if u: "tree_ok u" "\<And>q. file_at u q = (if q = p then (if draft_hidden p then None else file_at root p)
        else if prefix p q then None else file_at t q)"
      and run: "sync_base_snapshots root rootm conflicts (p # ps) t = sync_base_snapshots root rootm conflicts ps u" for u
      unfolding run
    proof (rule Cons.IH [OF split u(1)])
      fix q
      show "q \<in> set conflicts \<Longrightarrow> file_at u q = file_at s0 q"
        using u(2) conf_apart [of q] free inv(2) by (auto simp: strict_prefix_def)
      show "q \<in> set (xs @ [p]) \<Longrightarrow> q \<notin> set conflicts \<Longrightarrow> file_at u q = (if draft_hidden q then None else file_at root q)"
        using u(2) before [of q] inv(3) by (auto simp: strict_prefix_def)
      show "q \<notin> set (xs @ [p]) \<Longrightarrow> file_at u q \<noteq> None \<Longrightarrow> file_at s0 q \<noteq> None"
        using u(2) inv(4) by (auto split: if_splits)
    qed
    have r: "map_of rootm p = (if draft_hidden p then None else map_option (manifest_entry sha) (file_at root p))"
      using ok(1) by (simp add: rootm_def)
    show ?thesis
    proof (cases "map_of rootm p")
      case None
      then have gone: "(if draft_hidden p then None else file_at root p) = None" using r by (auto split: if_splits)
      show ?thesis
        using None free gone p inv(1) by (intro IH [of "prune_empty_parents p (tree_remove p t)"]) (auto simp: prune_ok tree_ok_remove)
    next
      case (Some e)
      then obtain c where c: "file_at root p = Some c" "\<not> draft_hidden p" using r by (auto split: if_splits)
      have clear: "file_at t q = None" if "strict_prefix q p" for q
      proof (rule ccontr)
        assume q: "file_at t q \<noteq> None"
        then have "q \<noteq> []" by auto
        show False
        proof (cases "q \<in> set conflicts")
          case True
          then show False using conf [OF True] c(1) that
            files_incomparable [OF ok(1)] clash_freeD [OF ok(3,1,2)] by (metis option.distinct(1) option.exhaust strict_prefix_def)
        next
          case False
          show False
          proof (cases "q \<in> set xs")
            case True
            then have "file_at root q \<noteq> None" using inv(3) False q by (auto split: if_splits)
            then show False using c(1) that files_incomparable [OF ok(1)] by (metis option.exhaust strict_prefix_def)
          next
            case False
            then have "q \<in> set paths" using inv(4) q snaps by blast
            then show False using after [OF that \<open>q \<noteq> []\<close>] False paths by simp
          qed
        qed
      qed
      obtain u where u: "copy_file p c t = Inr u" using copy_file_succeeds clear by blast
      show ?thesis
        using Some free c u p by (intro IH [of u]) (simp_all add: copy_from_def copy_file_ok [OF u p inv(1)] copy_file_file [OF u p])
    qed
  qed
qed

section \<open>Synchronization is a three-way merge\<close>

lemma map_of_updated_base:
  assumes "distinct ps"
  shows "map_of (updated_base_manifest ps base rootm conflicts) p
    = (if p \<in> set ps then if p \<in> set conflicts then map_of base p else map_of rootm p else None)
    \<and> fst ` set (updated_base_manifest ps base rootm conflicts) \<subseteq> set ps
    \<and> distinct (map fst (updated_base_manifest ps base rootm conflicts))"
  using assms
proof (induction ps)
  case (Cons q ps)
  let ?e = "if q \<in> set conflicts then map_of base q else map_of rootm q"
  have "map_of (updated_base_manifest ps base rootm conflicts) q = None" using Cons by (auto simp: map_of_eq_None_iff)
  then show ?case using Cons by (cases ?e) (auto simp: updated_base_manifest_def List.map_filter_simps)
qed (simp add: updated_base_manifest_def List.map_filter_simps)

text \<open>
  The snapshots of a draft are the files its base manifest lists.
\<close>

definition draft_ok :: "(string \<Rightarrow> string) \<Rightarrow> draft \<Rightarrow> bool" where
  "draft_ok sha d =
     (tree_ok (dr_tree d) \<and> tree_ok (dr_base_files d) \<and> distinct (map fst (dr_base d))
      \<and> (\<forall>p. map_of (dr_base d) p = map_option (manifest_entry sha) (file_at (dr_base_files d) p))
      \<and> (\<forall>p. draft_hidden p \<longrightarrow> map_of (dr_base d) p = None))"

lemma sync_merges:
  fixes sha :: "string \<Rightarrow> string"
  defines "entry \<equiv> \<lambda>t. map_of (build_file_manifest sha t)"
  assumes root: "tree_ok root" and d: "draft_ok sha d" and apart: "clash_free root (dr_tree d)"
  shows "\<exists>res d'. sync_draft_from_root sha root None d = (Inr res, d') \<and> draft_ok sha d'
    \<and> (\<forall>p. file_at (dr_tree d') p = (if takes_root (dr_base d) (build_file_manifest sha root) (build_file_manifest sha (dr_tree d)) p
          then file_at root p else file_at (dr_tree d) p))
    \<and> (\<forall>p. map_of (dr_base d') p = (if entries_conflict (map_of (dr_base d) p) (entry root p) (entry (dr_tree d) p)
          then map_of (dr_base d) p else entry root p))
    \<and> set (sl_conflicts (sr_log res)) = {p. entries_conflict (map_of (dr_base d) p) (entry root p) (entry (dr_tree d) p)}
    \<and> dr_checkpoints d' = filter (\<lambda>(p, _). entries_conflict (map_of (dr_base d) p) (entry root p) (entry (dr_tree d) p)
          \<or> map_of (dr_base d) p = None \<and> entry root p = None \<and> entry (dr_tree d') p = None) (dr_checkpoints d)"
proof -
  define rootm where "rootm = build_file_manifest sha root"
  define before where "before = build_file_manifest sha (dr_tree d)"
  define base where "base = dr_base d"
  define paths0 where "paths0 = manifest_paths [base, rootm, before]"
  define log0 :: sync_log where "log0 = \<lparr>sl_copied = [], sl_removed = [], sl_preserved = [], sl_conflicts = []\<rparr>"
  have t0: "tree_ok (dr_tree d)" and s0: "tree_ok (dr_base_files d)"
    and base: "\<And>p. map_of base p = map_option (manifest_entry sha) (file_at (dr_base_files d) p)"
    and hid: "\<And>p. draft_hidden p \<Longrightarrow> map_of base p = None"
    using d unfolding draft_ok_def base_def by blast+
  have r: "map_of rootm p = (if draft_hidden p then None else map_option (manifest_entry sha) (file_at root p))" for p
    using root by (simp add: rootm_def)
  have b: "map_of before p = (if draft_hidden p then None else map_option (manifest_entry sha) (file_at (dr_tree d) p))" for p
    using t0 by (simp add: before_def)
  have paths0: "p \<in> set paths0 \<longleftrightarrow> map_of base p \<noteq> None \<or> map_of rootm p \<noteq> None \<or> map_of before p \<noteq> None" for p
    by (simp add: paths0_def set_manifest_paths)
  obtain t log where loop: "sync_loop root base rootm before paths0 (dr_tree d) log0 = (None, t, log)" and t: "tree_ok t"
    and files: "\<And>q. file_at t q = (if q \<in> {} \<union> set paths0 then if takes_root base rootm before q then file_at root q else file_at (dr_tree d) q
        else file_at (dr_tree d) q)"
    using sync_loop_files [OF root t0 apart, of paths0 "{}" "dr_tree d" base sha log0] t0
    by (auto simp: paths0_def rootm_def before_def)
  have files': "file_at t q = (if takes_root base rootm before q then file_at root q else file_at (dr_tree d) q)" for q
    using files [of q] paths0 [of q] by (auto simp: takes_root_def)
  define after where "after = build_file_manifest sha t"
  define paths where "paths = manifest_paths [base, rootm, after]"
  define conflicts where "conflicts = sl_conflicts log"
  have conf: "p \<in> set conflicts \<longleftrightarrow> entries_conflict (map_of base p) (map_of rootm p) (map_of before p)" for p
    using sync_loop_log [OF loop] paths0 [of p] by (auto simp: conflicts_def log0_def entries_conflict_def)
  have a: "map_of after p = (if draft_hidden p then None else map_option (manifest_entry sha) (file_at t p))" for p
    using t by (simp add: after_def)
  have paths: "p \<in> set paths \<longleftrightarrow> map_of base p \<noteq> None \<or> map_of rootm p \<noteq> None \<or> map_of after p \<noteq> None" for p
    by (simp add: paths_def set_manifest_paths)
  have loop2: "\<exists>s. sync_base_snapshots root rootm conflicts paths (dr_base_files d) = (None, s) \<and> tree_ok s
    \<and> (\<forall>q \<in> set conflicts. file_at s q = file_at (dr_base_files d) q)
    \<and> (\<forall>q \<in> set paths - set conflicts. file_at s q = (if draft_hidden q then None else file_at root q))
    \<and> (\<forall>q. q \<notin> set paths \<longrightarrow> file_at s q = None)"
    unfolding rootm_def paths_def
  proof (rule base_snapshots_loop [OF root t0 apart s0])
    fix p
    assume "p \<in> set (manifest_paths [base, build_file_manifest sha root, after])"
    then show "file_at root p \<noteq> None \<or> file_at (dr_tree d) p \<noteq> None \<or> file_at (dr_base_files d) p \<noteq> None"
      using paths [of p] base [of p] r [of p] a [of p] files' [of p] by (auto simp: paths_def rootm_def split: if_splits)
  next
    fix p
    assume "file_at (dr_base_files d) p \<noteq> None"
    then show "p \<in> set (manifest_paths [base, build_file_manifest sha root, after])"
      using paths [of p] base [of p] by (auto simp: paths_def rootm_def)
  next
    fix p
    assume "p \<in> set conflicts"
    then have "map_of rootm p \<noteq> None \<or> map_of before p \<noteq> None"
      unfolding conf entries_conflict_def by (metis (full_types))
    then show "file_at root p \<noteq> None \<or> file_at (dr_tree d) p \<noteq> None" using r [of p] b [of p] by (auto split: if_splits)
  qed (use s0 in auto)
  then obtain s where s: "sync_base_snapshots root rootm conflicts paths (dr_base_files d) = (None, s)" "tree_ok s"
    "\<And>q. q \<in> set conflicts \<Longrightarrow> file_at s q = file_at (dr_base_files d) q"
    "\<And>q. q \<in> set paths \<Longrightarrow> q \<notin> set conflicts \<Longrightarrow> file_at s q = (if draft_hidden q then None else file_at root q)"
    "\<And>q. q \<notin> set paths \<Longrightarrow> file_at s q = None" by blast
  define updated where "updated = updated_base_manifest paths base rootm conflicts"
  define d' where "d' = d\<lparr>dr_tree := t, dr_base := updated, dr_base_files := s,
     dr_checkpoints := without_checkpoints (filter (\<lambda>p. p \<notin> set conflicts) paths) (dr_checkpoints d)\<rparr>"
  have run: "sync_draft_from_root sha root None d
    = (Inr \<lparr>sr_log = log, sr_base = base, sr_root = rootm, sr_draft = after, sr_updated_base = updated\<rparr>, d')"
    using loop s(1) unfolding sync_draft_from_root_def
    by (simp add: Let_def rootm_def [symmetric] before_def [symmetric] base_def [symmetric] paths0_def [symmetric]
        log0_def [symmetric] after_def [symmetric] paths_def [symmetric] conflicts_def [symmetric] updated_def [symmetric] d'_def)
  have "map_of updated p = (if p \<in> set paths then if p \<in> set conflicts then map_of base p else map_of rootm p else None)"
    and upd_distinct: "distinct (map fst updated)" for p
    using map_of_updated_base [of paths base rootm conflicts p] by (simp_all add: updated_def paths_def)
  then have upd: "map_of updated p = (if p \<in> set conflicts then map_of base p else map_of rootm p)" for p
    using paths [of p] by auto
  have snap: "map_of updated p = map_option (manifest_entry sha) (file_at s p)" for p
  proof (cases "p \<in> set paths")
    case True
    then show ?thesis
      using upd [of p] s(3,4) [of p] base [of p] r [of p] by (cases "p \<in> set conflicts") (simp_all del: not_None_eq)
  next
    case False
    then have "map_of base p = None" "map_of rootm p = None" "file_at s p = None" using paths [of p] s(5) by auto
    then show ?thesis using upd [of p] by simp
  qed
  have "map_of updated p = None" if "draft_hidden p" for p using that hid r upd [of p] by simp
  then have "draft_ok sha d'"
    using t s(2) upd_distinct snap unfolding draft_ok_def d'_def by simp
  moreover have "dr_checkpoints d' = filter (\<lambda>(p, _). p \<in> set conflicts \<or> map_of base p = None \<and> map_of rootm p = None \<and> map_of after p = None) (dr_checkpoints d)"
    unfolding d'_def without_checkpoints_def by (simp add: paths) (rule filter_cong, auto)
  ultimately show ?thesis
    using run files' upd conf
    by (auto simp: d'_def entry_def rootm_def base_def before_def after_def conflicts_def)
qed

section \<open>Clashes of files and directories\<close>

lemma sync_loop_append:
  "sync_loop root base rootm before (xs @ ys) t log = (case sync_loop root base rootm before xs t log of
     (Some e, r) \<Rightarrow> (Some e, r) | (None, t', log') \<Rightarrow> sync_loop root base rootm before ys t' log')"
  by (induction xs arbitrary: t log) (auto split: sum.splits)

lemma sync_path_keeps_absent:
  assumes "sync_path root base rootm before p t log = Inr (t', log')" and "file_at t q = None" and "file_at root q = None"
  shows "file_at t' q = None"
proof -
  have p: "p \<noteq> []" if "copy_from root p t = Inr u" for u using that by (auto simp: copy_from_def)
  have "file_at u q = None" if "copy_from root p t = Inr u" for u
    using that assms(2,3) copy_file_file [OF _ p [OF that]] by (auto simp: copy_from_def split: option.splits)
  moreover have "file_at (tree_remove p t) q = None"
    using assms(2) by (cases "p = []") (auto simp: tree_remove_def file_at_def node_at_def map_of_filter_key split: option.splits)
  ultimately show ?thesis
    using assms(1,2) by (auto simp: sync_path_def Let_def rbind_Inr_iff split: if_split_asm)
qed

lemma sync_loop_keeps_absent:
  "sync_loop root base rootm before ps t log = (None, t', log') \<Longrightarrow>
   file_at t q = None \<Longrightarrow> file_at root q = None \<Longrightarrow> file_at t' q = None"
proof (induction ps arbitrary: t log)
  case (Cons p ps)
  then obtain t1 log1 where s: "sync_path root base rootm before p t log = Inr (t1, log1)"
    "sync_loop root base rootm before ps t1 log1 = (None, t', log')" by (auto split: sum.splits)
  have "file_at t1 q = None" by (rule sync_path_keeps_absent [OF s(1) Cons.prems(2,3)])
  then show ?case using Cons.IH [OF s(2)] Cons.prems(3) by blast
qed simp

section \<open>The lists of a plan\<close>

definition plan_base :: "(string \<Rightarrow> string) \<Rightarrow> tree \<Rightarrow> draft \<Rightarrow> manifest" where
  "plan_base sha root d = (if dr_base d = [] then build_file_manifest sha root else dr_base d)"

definition planned_change :: "(string \<Rightarrow> string) \<Rightarrow> tree \<Rightarrow> draft \<Rightarrow> bool \<Rightarrow> path \<Rightarrow> draft_change" where
  "planned_change sha root d allow p =
     classify_change allow (map_of (dr_checkpoints d) p) (map_of (plan_base sha root d) p)
       (map_of (build_file_manifest sha root) p) (map_of (build_file_manifest sha (dr_tree d)) p)"

lemma plan_lists:
  shows "p \<in> set (pp_created (plan_draft_publish sha root d None allow)) \<longleftrightarrow> planned_change sha root d allow p = Created"
    and "p \<in> set (pp_modified (plan_draft_publish sha root d None allow)) \<longleftrightarrow> planned_change sha root d allow p = Modified"
    and "p \<in> set (pp_deleted (plan_draft_publish sha root d None allow)) \<longleftrightarrow> planned_change sha root d allow p = Deleted"
    and "p \<in> set (pp_conflicted (plan_draft_publish sha root d None allow)) \<longleftrightarrow> planned_change sha root d allow p = Conflicted"
    and "p \<in> set (pp_out_of_date (plan_draft_publish sha root d None allow))
      \<longleftrightarrow> planned_change sha root d allow p = OutOfDate \<or> planned_change sha root d allow p = Conflicted"
proof -
  define ps where "ps = manifest_paths [plan_base sha root d, build_file_manifest sha root, build_file_manifest sha (dr_tree d)]"
  define change where "change = planned_change sha root d allow"
  have none: "change p = Unchanged" if "p \<notin> set ps"
  proof -
    have "map_of (plan_base sha root d) p = None" "map_of (build_file_manifest sha root) p = None"
      "map_of (build_file_manifest sha (dr_tree d)) p = None"
      using that unfolding ps_def set_manifest_paths by auto
    then show ?thesis unfolding change_def planned_change_def by (simp add: classify_change_def)
  qed
  have plan: "plan_draft_publish sha root d None allow =
      \<lparr>pp_created = filter (\<lambda>p. change p = Created) ps, pp_modified = filter (\<lambda>p. change p = Modified) ps,
       pp_deleted = filter (\<lambda>p. change p = Deleted) ps, pp_conflicted = filter (\<lambda>p. change p = Conflicted) ps,
       pp_out_of_date = filter (\<lambda>p. change p = OutOfDate \<or> change p = Conflicted) ps\<rparr>"
    unfolding plan_draft_publish_def Let_def option.case plan_base_def [symmetric] planned_change_def [symmetric]
      change_def ps_def ..
  show "p \<in> set (pp_created (plan_draft_publish sha root d None allow)) \<longleftrightarrow> planned_change sha root d allow p = Created"
    and "p \<in> set (pp_modified (plan_draft_publish sha root d None allow)) \<longleftrightarrow> planned_change sha root d allow p = Modified"
    and "p \<in> set (pp_deleted (plan_draft_publish sha root d None allow)) \<longleftrightarrow> planned_change sha root d allow p = Deleted"
    and "p \<in> set (pp_conflicted (plan_draft_publish sha root d None allow)) \<longleftrightarrow> planned_change sha root d allow p = Conflicted"
    and "p \<in> set (pp_out_of_date (plan_draft_publish sha root d None allow))
      \<longleftrightarrow> planned_change sha root d allow p = OutOfDate \<or> planned_change sha root d allow p = Conflicted"
    unfolding plan change_def [symmetric] using none by (cases "p \<in> set ps"; simp)+
qed

lemma classify_cases:
  assumes "classify_change allow k b r d \<noteq> Conflicted"
  shows "classify_change allow k b r d \<in> {Created, Modified} \<longleftrightarrow> d \<noteq> b \<and> d \<noteq> r \<and> d \<noteq> None"
    and "classify_change allow k b r d = Deleted \<longleftrightarrow> d \<noteq> b \<and> d \<noteq> r \<and> d = None"
proof -
  define clash where "clash = (entries_conflict b r d \<and> \<not> conflict_checkpoint_resolves k r d allow)"
  have c: "classify_change allow k b r d = (if d = b then (if r \<noteq> b then OutOfDate else Unchanged)
      else if d = r then Unchanged
      else if d \<noteq> None \<and> r = None \<and> b = None then Created
      else if b \<noteq> None \<and> d = None then Deleted
      else if b = None \<and> d = None then Unchanged
      else Modified)"
    using assms unfolding classify_change_def clash_def [symmetric] by (cases "d = b"; cases clash) simp_all
  show "classify_change allow k b r d \<in> {Created, Modified} \<longleftrightarrow> d \<noteq> b \<and> d \<noteq> r \<and> d \<noteq> None"
    and "classify_change allow k b r d = Deleted \<longleftrightarrow> d \<noteq> b \<and> d \<noteq> r \<and> d = None"
    unfolding c by (cases "d = b"; cases "d = r"; cases d; cases b; simp)+
qed

text \<open>Without a conflict, the plan changes exactly the paths where the draft differs from base and root.\<close>

lemma planned_change_cases:
  fixes sha :: "string \<Rightarrow> string"
  defines "entry \<equiv> \<lambda>t. map_of (build_file_manifest sha t)"
  assumes "planned_change sha root d allow p \<noteq> Conflicted"
  shows "planned_change sha root d allow p \<in> {Created, Modified} \<longleftrightarrow>
      entry (dr_tree d) p \<notin> {map_of (plan_base sha root d) p, entry root p} \<and> entry (dr_tree d) p \<noteq> None"
    and "planned_change sha root d allow p = Deleted \<longleftrightarrow>
      entry (dr_tree d) p \<notin> {map_of (plan_base sha root d) p, entry root p} \<and> entry (dr_tree d) p = None"
  using classify_cases [OF assms(2) [unfolded planned_change_def]] unfolding planned_change_def entry_def by simp_all

section \<open>Examples\<close>

definition ex_sha :: "string \<Rightarrow> string" where "ex_sha c = c"

definition ex_root :: tree where "ex_root = [([''d''], FileNode ''root'')]"

definition ex_edit :: draft where
  "ex_edit = \<lparr>dr_tree = [([''e''], FileNode ''edit'')], dr_base = [], dr_base_files = [], dr_checkpoints = []\<rparr>"

definition ex_clash :: draft where
  "ex_clash = \<lparr>dr_tree = [([''d''], DirNode), ([''d'', ''new''], FileNode ''edit'')], dr_base = [], dr_base_files = [],
     dr_checkpoints = []\<rparr>"

definition ex_based :: draft where
  "ex_based = \<lparr>dr_tree = [([''d''], FileNode ''edit'')], dr_base = [([''d''], manifest_entry ex_sha ''root'')],
     dr_base_files = [([''d''], FileNode ''root'')], dr_checkpoints = []\<rparr>"

lemma ex_ok: "tree_ok ex_root" "tree_ok (dr_tree ex_clash)" "clash_free ex_root (dr_tree ex_edit)"
  by code_simp+

lemma ex_edit_ok: "draft_ok ex_sha ex_edit"
proof -
  have "file_at [] p = None" for p by (simp add: file_at_def node_at_def)
  moreover have "tree_ok (dr_tree ex_edit)" by code_simp
  ultimately show ?thesis by (simp add: draft_ok_def ex_edit_def)
qed

section \<open>Properties\<close>

text \<open>
  C30: when no file of the root stands where the draft has a directory with files or the other way round,
  synchronization returns and is the three-way merge: a path the draft did not change takes the root's file, a
  path it changed keeps the draft's, the base follows the root except for conflicts, which are reported, and the
  snapshots stay the files of the base.
\<close>
theorem sync_merges_three_ways:
  fixes sha :: "string \<Rightarrow> string"
  defines "entry \<equiv> \<lambda>t. map_of (build_file_manifest sha t)"
  assumes "tree_ok root" and "draft_ok sha d" and "clash_free root (dr_tree d)"
  shows "\<exists>res d'. sync_draft_from_root sha root None d = (Inr res, d') \<and> draft_ok sha d'
    \<and> entry (dr_tree d') = (\<lambda>p. merged (map_of (dr_base d) p) (entry root p) (entry (dr_tree d) p))
    \<and> (\<forall>p. entry (dr_tree d) p \<noteq> map_of (dr_base d) p \<longrightarrow> file_at (dr_tree d') p = file_at (dr_tree d) p)
    \<and> set (sl_conflicts (sr_log res)) = {p. entries_conflict (map_of (dr_base d) p) (entry root p) (entry (dr_tree d) p)}
    \<and> map_of (dr_base d') = (\<lambda>p. if p \<in> set (sl_conflicts (sr_log res)) then map_of (dr_base d) p else entry root p)"
proof -
  from sync_merges [OF assms(2-4)] obtain res d' where s: "sync_draft_from_root sha root None d = (Inr res, d')" "draft_ok sha d'"
    "\<And>p. file_at (dr_tree d') p = (if takes_root (dr_base d) (build_file_manifest sha root) (build_file_manifest sha (dr_tree d)) p
        then file_at root p else file_at (dr_tree d) p)"
    "\<And>p. map_of (dr_base d') p = (if entries_conflict (map_of (dr_base d) p) (entry root p) (entry (dr_tree d) p)
        then map_of (dr_base d) p else entry root p)"
    "set (sl_conflicts (sr_log res)) = {p. entries_conflict (map_of (dr_base d) p) (entry root p) (entry (dr_tree d) p)}"
    unfolding entry_def by blast
  have ok: "tree_ok (dr_tree d)" "tree_ok (dr_tree d')" using assms(3) s(2) by (simp_all add: draft_ok_def)
  have e: "entry (dr_tree d') p = (if takes_root (dr_base d) (build_file_manifest sha root) (build_file_manifest sha (dr_tree d)) p
        then entry root p else entry (dr_tree d) p)" for p
    using s(3) [of p] ok assms(2) by (simp add: entry_def)
  have "entry (dr_tree d') p = merged (map_of (dr_base d) p) (entry root p) (entry (dr_tree d) p)" for p
    unfolding e by (auto simp: merged_def takes_root_def entry_def)
  moreover have "file_at (dr_tree d') p = file_at (dr_tree d) p" if "entry (dr_tree d) p \<noteq> map_of (dr_base d) p" for p
    using s(3) [of p] that by (simp add: takes_root_def entry_def)
  ultimately show ?thesis using s by (auto simp: fun_eq_iff)
qed

lemma sync_merges_three_ways_witness:
  "\<exists>res d'. sync_draft_from_root ex_sha ex_root None ex_edit = (Inr res, d') \<and> draft_ok ex_sha d'"
  using sync_merges_three_ways [OF ex_ok(1) ex_edit_ok ex_ok(3)] by blast



text \<open>
  C32: a file the root puts where the draft has a directory destroys the edits below it: the path is reported as
  preserved and no conflict, and its file is gone.
\<close>
theorem clash_drops_preserved_edit:
  fixes sha :: "string \<Rightarrow> string"
  defines "entry \<equiv> \<lambda>t. map_of (build_file_manifest sha t)"
  assumes "sync_draft_from_root sha root None d = (Inr res, d')" and "tree_ok root" and "tree_ok (dr_tree d)"
    and "entry root p \<noteq> None" and "map_of (dr_base d) p = None" and "entry (dr_tree d) p = None"
    and "strict_prefix p q" and "entry (dr_tree d) q \<noteq> None" and "map_of (dr_base d) q = None"
  shows "q \<in> set (sl_preserved (sr_log res)) \<and> q \<notin> set (sl_conflicts (sr_log res)) \<and> file_at (dr_tree d') q = None"
proof -
  define rootm before where "rootm = build_file_manifest sha root" and "before = build_file_manifest sha (dr_tree d)"
  define ps where "ps = manifest_paths [dr_base d, rootm, before]"
  define log0 :: sync_log where "log0 = \<lparr>sl_copied = [], sl_removed = [], sl_preserved = [], sl_conflicts = []\<rparr>"
  from assms(2) obtain t log where loop: "sync_loop root (dr_base d) rootm before ps (dr_tree d) log0 = (None, t, log)"
    and res: "sr_log res = log" "dr_tree d' = t"
    by (auto simp: sync_draft_from_root_def Let_def rootm_def before_def ps_def log0_def split: option.splits prod.splits)
  obtain c where c: "file_at root p = Some c" "\<not> draft_hidden p"
    using assms(3,5) by (auto simp: entry_def split: if_splits)
  have absent: "file_at root q = None"
    using files_incomparable [OF assms(3) c(1)] assms(8) by (cases "file_at root q") (auto simp: strict_prefix_def)
  have "map_of rootm p \<noteq> None" using assms(5) by (simp add: rootm_def entry_def)
  then have "p \<in> set ps" by (simp add: ps_def set_manifest_paths)
  then obtain xs ys where ps: "ps = xs @ p # ys" by (auto simp: in_set_conv_decomp)
  from loop obtain t1 log1 t2 log2 where split: "sync_path root (dr_base d) rootm before p t1 log1 = Inr (t2, log2)"
    "sync_loop root (dr_base d) rootm before ys t2 log2 = (None, t, log)"
    unfolding ps sync_loop_append by (auto split: sum.splits prod.splits option.splits)
  have "p \<noteq> []" using c(1) by auto
  have "copy_from root p t1 = Inr t2"
    using split(1) assms(5-7) by (auto simp: sync_path_def Let_def rootm_def before_def entry_def rbind_Inr_iff split: if_splits)
  then have "file_at t2 q = None"
    using copy_file_file [OF _ \<open>p \<noteq> []\<close>] c(1) assms(8) by (auto simp: copy_from_def strict_prefix_def)
  then have "file_at t q = None" using sync_loop_keeps_absent [OF split(2)] absent by blast
  moreover have "map_of rootm q = None" using absent assms(3) by (simp add: rootm_def)
  moreover have "q \<in> set ps" using assms(9) by (simp add: ps_def set_manifest_paths before_def entry_def)
  ultimately show ?thesis
    using sync_loop_log [OF loop] assms(9,10) by (auto simp: res log0_def entries_conflict_def before_def entry_def)
qed

lemma clash_drops_preserved_edit_witness:
  "\<exists>res d'. sync_draft_from_root ex_sha ex_root None ex_clash = (Inr res, d')
    \<and> [''d'', ''new''] \<in> set (sl_preserved (sr_log res)) \<and> file_at (dr_tree d') [''d'', ''new''] = None"
proof -
  have "\<not> isl (fst (sync_draft_from_root ex_sha ex_root None ex_clash))" by code_simp
  then obtain res d' where s: "sync_draft_from_root ex_sha ex_root None ex_clash = (Inr res, d')"
    by (cases "sync_draft_from_root ex_sha ex_root None ex_clash"; cases "fst (sync_draft_from_root ex_sha ex_root None ex_clash)") auto
  have "map_of (build_file_manifest ex_sha ex_root) [''d''] \<noteq> None" "map_of (dr_base ex_clash) [''d''] = None"
    "map_of (build_file_manifest ex_sha (dr_tree ex_clash)) [''d''] = None" "strict_prefix [''d''] [''d'', ''new'']"
    "map_of (build_file_manifest ex_sha (dr_tree ex_clash)) [''d'', ''new''] \<noteq> None"
    "map_of (dr_base ex_clash) [''d'', ''new''] = None"
    by code_simp+
  from clash_drops_preserved_edit [OF s ex_ok(1,2) this] show ?thesis using s by blast
qed

end
