(* ===== verification/Project_Versions.thy ===== *)
theory Project_Versions
  imports Project_Files
begin

text \<open>
  The version history of a local Project root (\<open>systems/cortex/project_context/versioning.py\<close>), for roots that
  are directories: capturing a version, finding it again, comparing and restoring. The history directory inside
  the root is a field of the root, an archive maps the paths of its manifest to file contents, and the metadata
  of a version is not part of it. Python iterates over the set of paths to restore in an order of its own; that
  order is an argument.
\<close>

section \<open>Versions\<close>

record root_version =
  rv_id :: string
  rv_label :: string
  rv_created_at :: string
  rv_manifest :: manifest
  rv_files :: "(path \<times> string) list"

record project_root =
  pr_tree :: tree
  pr_history :: "root_version list"

definition IGNORED_MANIFEST_DIRS :: "string list" where
  "IGNORED_MANIFEST_DIRS = [''.illo-project-history'', ''.illo-project-draft'']"

definition version_hidden :: "path \<Rightarrow> bool" where
  "version_hidden p = list_ex (\<lambda>c. c \<in> set IGNORED_MANIFEST_DIRS) p"

definition build_project_root_manifest :: "(string \<Rightarrow> string) \<Rightarrow> tree \<Rightarrow> manifest" where
  "build_project_root_manifest sha t = file_manifest version_hidden sha t"

section \<open>Identifiers\<close>

definition utc_timestamp :: "instant \<Rightarrow> string" where
  "utc_timestamp t =
     (let c = civil_of t in
      zpad 4 (c_year c) @ ''-'' @ zpad 2 (c_month c) @ ''-'' @ zpad 2 (c_day c) @ ''T''
      @ zpad 2 (c_hour c) @ '':'' @ zpad 2 (c_minute c) @ '':'' @ zpad 2 (c_second c) @ ''.'' @ zpad 6 (c_us c) @ ''Z'')"

definition label_char :: "char \<Rightarrow> bool" where
  "label_char c = (let n = (of_char c :: nat) in
     (65 \<le> n \<and> n \<le> 90) \<or> (97 \<le> n \<and> n \<le> 122) \<or> (48 \<le> n \<and> n \<le> 57) \<or> c = CHR ''.'' \<or> c = CHR ''_'' \<or> c = CHR ''-'')"

fun dash_runs :: "bool \<Rightarrow> string \<Rightarrow> string" where
  "dash_runs gap [] = []"
| "dash_runs gap (c # cs) =
     (if label_char c then c # dash_runs False cs
      else if gap then dash_runs True cs else CHR ''-'' # dash_runs True cs)"

definition label_slug :: "string \<Rightarrow> string" where
  "label_slug label =
     (let edge = (\<lambda>c. c = CHR ''.'' \<or> c = CHR ''-'');
          s = take 48 (rev (dropWhile edge (rev (dropWhile edge (dash_runs False (py_lower label)))))) in
      if s = [] then ''version'' else s)"

definition entry_json :: "file_entry \<Rightarrow> pyval" where
  "entry_json e = PyDict [(''kind'', PyStr ''file''), (''sha256'', PyStr (fe_sha256 e)), (''size'', PyInt (fe_size e))]"

definition manifest_digest :: "(string \<Rightarrow> string) \<Rightarrow> manifest \<Rightarrow> string" where
  "manifest_digest sha m =
     take 12 (sha (json_dumps True '','' '':'' (PyDict (map (\<lambda>(p, e). (path_text p, entry_json e)) m))))"

text \<open>The loop that numbers candidates until one is free; \<open>fuel\<close> bounds the candidates tried.\<close>

fun free_candidate :: "nat \<Rightarrow> string list \<Rightarrow> string \<Rightarrow> int \<Rightarrow> string \<Rightarrow> string option" where
  "free_candidate 0 taken base counter candidate = None"
| "free_candidate (Suc n) taken base counter candidate =
     (if candidate \<in> set taken
      then free_candidate n taken base (counter + 1) (base @ ''-'' @ show_int counter)
      else Some candidate)"

definition unique_version_id ::
  "nat \<Rightarrow> (string \<Rightarrow> string) \<Rightarrow> string list \<Rightarrow> string \<Rightarrow> string \<Rightarrow> manifest \<Rightarrow> string option" where
  "unique_version_id fuel sha taken created_at label m =
     (let digits = filter (\<lambda>c. c \<noteq> CHR ''-'' \<and> c \<noteq> CHR '':'' \<and> c \<noteq> CHR ''.'') created_at;
          timestamp = (if digits \<noteq> [] \<and> last digits = CHR ''Z'' then butlast digits else digits) @ ''Z'';
          base = timestamp @ ''-'' @ label_slug label @ ''-'' @ manifest_digest sha m in
      free_candidate fuel taken base 2 base)"

section \<open>Capture\<close>

definition safe_relative_path :: "path \<Rightarrow> path result" where
  "safe_relative_path p =
     (if p = [] \<or> list_ex (\<lambda>c. c \<in> {[], ''.'', ''..''}) p
      then Inl (ValueError (''Unsafe Project version path: '' @ path_text p))
      else if version_hidden p
      then Inl (ValueError (''Project version path targets hidden Illo metadata: '' @ path_text p))
      else Inr p)"

fun archive_files :: "tree \<Rightarrow> path list \<Rightarrow> (path \<times> string) list result" where
  "archive_files t [] = Inr []"
| "archive_files t (p # ps) = rbind (safe_relative_path p) (\<lambda>q. case file_at t q of
       None \<Rightarrow> Inl (OSError ''FileNotFoundError'')
     | Some c \<Rightarrow> rbind (archive_files t ps) (\<lambda>rest. Inr ((q, c) # rest)))"

definition capture_project_root_version ::
  "(string \<Rightarrow> string) \<Rightarrow> instant \<Rightarrow> string \<Rightarrow> project_root \<Rightarrow> (root_version \<times> project_root) result" where
  "capture_project_root_version sha now label r =
     (let m = build_project_root_manifest sha (pr_tree r); created_at = utc_timestamp now in
      case unique_version_id (Suc (length (pr_history r))) sha (map rv_id (pr_history r)) created_at label m of
        None \<Rightarrow> Inl (RuntimeError ''fuel'')
      | Some i \<Rightarrow> rbind (archive_files (pr_tree r) (map fst m)) (\<lambda>files.
          let v = \<lparr>rv_id = i, rv_label = label, rv_created_at = created_at, rv_manifest = m, rv_files = files\<rparr> in
          Inr (v, r\<lparr>pr_history := pr_history r @ [v]\<rparr>)))"

definition list_project_root_versions :: "project_root \<Rightarrow> root_version list" where
  "list_project_root_versions r = sort_key rv_created_at (sort_key rv_id (pr_history r))"

definition find_project_root_version :: "project_root \<Rightarrow> string \<Rightarrow> root_version result" where
  "find_project_root_version r i = (case find (\<lambda>v. rv_id v = i) (list_project_root_versions r) of
       None \<Rightarrow> Inl (OSError (''Project root version not found: '' @ i))
     | Some v \<Rightarrow> Inr v)"

section \<open>Restore\<close>

text \<open>The directory with the reversed path: a file in its place is replaced, missing parents are made.\<close>

fun ensure_directory :: "path \<Rightarrow> tree \<Rightarrow> tree result" where
  "ensure_directory [] t = Inr t"
| "ensure_directory (c # up) t =
     (let p = rev (c # up) in
      if is_dir_at t p then Inr t
      else (let t1 = (if node_at t p \<noteq> None then tree_remove p t else t) in
        rbind (if node_at t1 (rev up) = None then ensure_directory up t1 else Inr t1) (\<lambda>t2.
          if is_dir_at t2 (rev up) then Inr (tree_put p DirNode t2) else Inl (OSError ''NotADirectoryError''))))"

definition copy_restore_file :: "path \<Rightarrow> string \<Rightarrow> tree \<Rightarrow> tree result" where
  "copy_restore_file p c t =
     rbind (ensure_directory (rev (butlast p)) t) (\<lambda>t'. Inr (tree_put p (FileNode c) (tree_remove p t')))"

fun restore_files :: "(path \<times> string) list \<Rightarrow> path list \<Rightarrow> tree \<Rightarrow> py_error option \<times> tree" where
  "restore_files archive [] t = (None, t)"
| "restore_files archive (p # ps) t =
     (case rbind (safe_relative_path p) (\<lambda>q. case map_of archive q of
          None \<Rightarrow> Inl (OSError (''Project root version file is missing: '' @ path_text p))
        | Some c \<Rightarrow> copy_restore_file q c t) of
        Inl e \<Rightarrow> (Some e, t)
      | Inr t' \<Rightarrow> restore_files archive ps t')"

text \<open>Empty directories go, the deepest first.\<close>

definition prune_empty_dirs :: "tree \<Rightarrow> tree" where
  "prune_empty_dirs t =
     fold (\<lambda>p t. if version_hidden p then t else if is_empty_dir t p then tree_remove p t else t)
       (rev (sort_key length (map fst (filter (\<lambda>(p, n). n = DirNode) t)))) t"

definition restore_folder_root :: "(string \<Rightarrow> string) \<Rightarrow> path list \<Rightarrow> root_version \<Rightarrow> tree \<Rightarrow> py_error option \<times> tree" where
  "restore_folder_root sha order v t =
     (let extra = filter (\<lambda>p. p \<notin> fst ` set (rv_manifest v)) (map fst (build_project_root_manifest sha t));
          (failed, t') = restore_files (rv_files v) order (fold tree_remove extra t) in
      case failed of Some e \<Rightarrow> (Some e, t') | None \<Rightarrow> (None, prune_empty_dirs t'))"

definition restore_project_root_version ::
  "(string \<Rightarrow> string) \<Rightarrow> (manifest \<Rightarrow> path list) \<Rightarrow> string \<Rightarrow> project_root \<Rightarrow> root_version result \<times> project_root" where
  "restore_project_root_version sha order i r = (case find_project_root_version r i of
       Inl e \<Rightarrow> (Inl e, r)
     | Inr v \<Rightarrow> (case restore_folder_root sha (order (rv_manifest v)) v (pr_tree r) of
          (Some e, t) \<Rightarrow> (Inl e, r\<lparr>pr_tree := t\<rparr>)
        | (None, t) \<Rightarrow> (Inr v, r\<lparr>pr_tree := t\<rparr>)))"

section \<open>Comparison\<close>

record version_comparison =
  vc_created :: "path list"
  vc_modified :: "path list"
  vc_deleted :: "path list"
  vc_unchanged :: "path list"

definition compare_project_root_to_version ::
  "(string \<Rightarrow> string) \<Rightarrow> string \<Rightarrow> project_root \<Rightarrow> version_comparison result" where
  "compare_project_root_to_version sha i r =
     rbind (find_project_root_version r i) (\<lambda>v.
       let current = build_project_root_manifest sha (pr_tree r); version = rv_manifest v;
           common = filter (\<lambda>p. p \<in> fst ` set version) (map fst current) in
       Inr \<lparr>vc_created = sorted_paths (filter (\<lambda>p. p \<notin> fst ` set current) (map fst version)),
            vc_modified = sorted_paths (filter (\<lambda>p. map_of current p \<noteq> map_of version p) common),
            vc_deleted = sorted_paths (filter (\<lambda>p. p \<notin> fst ` set version) (map fst current)),
            vc_unchanged = sorted_paths (filter (\<lambda>p. map_of current p = map_of version p) common)\<rparr>)"

definition has_changes :: "version_comparison \<Rightarrow> bool" where
  "has_changes c = (vc_created c \<noteq> [] \<or> vc_modified c \<noteq> [] \<or> vc_deleted c \<noteq> [])"

section \<open>Fresh identifiers\<close>

lemma show_int_inj: "show_int i = show_int j \<Longrightarrow> i = j"
  by (metis option.inject py_int_of_str_show_int)

lemma free_candidate_None:
  "free_candidate (Suc n) taken base k cand = None \<Longrightarrow>
   cand \<in> set taken \<and> (\<forall>i < n. base @ ''-'' @ show_int (k + int i) \<in> set taken)"
proof (induction n arbitrary: k cand)
  case (Suc n)
  then have "cand \<in> set taken" and rest: "free_candidate (Suc n) taken base (k + 1) (base @ ''-'' @ show_int k) = None"
    by (auto split: if_splits)
  moreover have "base @ ''-'' @ show_int (k + int i) \<in> set taken" if "i < Suc n" for i
    using Suc.IH [OF rest] that by (cases i) (auto simp: algebra_simps)
  ultimately show ?case by blast
qed (simp split: if_splits)

lemma free_candidate_fresh: "free_candidate n taken base k cand = Some c \<Longrightarrow> c \<notin> set taken"
  by (induction n taken base k cand rule: free_candidate.induct) (auto split: if_splits)

lemma free_candidate_found: "\<exists>c. free_candidate (Suc (length taken)) taken base k base = Some c \<and> c \<notin> set taken"
proof (cases "free_candidate (Suc (length taken)) taken base k base")
  case None
  let ?c = "\<lambda>i. base @ ''-'' @ show_int (k + int i)"
  have sub: "insert base (?c ` {..<length taken}) \<subseteq> set taken" using free_candidate_None [OF None] by auto
  have "inj_on ?c {..<length taken}" by (auto simp: inj_on_def dest: show_int_inj)
  then have "card (insert base (?c ` {..<length taken})) = Suc (length taken)"
    by (subst card_insert_disjoint) (auto simp: card_image)
  moreover have "card (insert base (?c ` {..<length taken})) \<le> length taken"
    using sub by (meson card_length card_mono finite_set le_trans)
  ultimately show ?thesis by simp
qed (use free_candidate_fresh in blast)

section \<open>Restoring\<close>

lemma ensure_directory_step:
  "tree_ok t \<Longrightarrow> (\<And>q. prefix q (rev up) \<Longrightarrow> file_at t q = None) \<Longrightarrow>
   \<exists>t'. ensure_directory up t = Inr t' \<and> tree_ok t' \<and> file_at t' = file_at t \<and> is_dir_at t' (rev up)"
proof (induction up t rule: ensure_directory.induct)
  case (2 c up t)
  let ?p = "rev (c # up)"
  show ?case
  proof (cases "is_dir_at t ?p")
    case False
    have "file_at t ?p = None" and parent: "file_at t (rev up) = None" using 2(3) by (auto simp: prefix_def)
    then have none: "node_at t ?p = None"
      using False by (auto simp: file_at_def is_dir_at_def split: option.splits node.splits)
    have above: "file_at t q = None" if "prefix q (rev up)" for q
      using 2(3) [of q] that by (simp add: prefix_prefix)
    have t2: "\<exists>t2. (if node_at t (rev up) = None then ensure_directory up t else Inr t) = Inr t2
      \<and> tree_ok t2 \<and> file_at t2 = file_at t \<and> is_dir_at t2 (rev up)"
    proof (cases "node_at t (rev up)")
      case None
      then show ?thesis using 2(1) [OF refl False refl] 2(2) above none by simp
    next
      case (Some n)
      then have "is_dir_at t (rev up)" using parent by (cases n) (auto simp: file_at_def is_dir_at_def)
      then show ?thesis using Some 2(2) by simp
    qed
    then obtain t2 where t2: "(if node_at t (rev up) = None then ensure_directory up t else Inr t) = Inr t2"
      "tree_ok t2" "file_at t2 = file_at t" "is_dir_at t2 (rev up)" by blast
    have f2: "file_at t2 ?p = None" unfolding t2(3) by fact
    have run: "ensure_directory (c # up) t = Inr (tree_put ?p DirNode t2)"
      using False none t2(1,4) by (simp add: Let_def)
    have "tree_ok (tree_put ?p DirNode t2)" using t2(2,4) by (intro tree_ok_put) simp_all
    moreover have "file_at (tree_put ?p DirNode t2) = file_at t"
    proof
      fix q
      show "file_at (tree_put ?p DirNode t2) q = file_at t q"
        using f2 by (cases "q = ?p") (simp_all add: t2(3))
    qed
    ultimately show ?thesis unfolding run by (simp add: is_dir_at_def)
  qed (use 2(2) in auto)
qed (simp add: is_dir_at_def)

lemma copy_restore_step:
  assumes "tree_ok t" and "p \<noteq> []" and "\<And>q. strict_prefix q p \<Longrightarrow> file_at t q = None"
  shows "\<exists>t'. copy_restore_file p c t = Inr t' \<and> tree_ok t'
    \<and> (\<forall>q. file_at t' q = (if q = p then Some c else if prefix p q then None else file_at t q))"
proof -
  have sp: "strict_prefix (butlast p) p" by (rule strict_prefixI' [of _ _ "last p" "[]"]) (use assms(2) in simp)
  have "file_at t q = None" if "prefix q (butlast p)" for q
    using prefix_order.le_less_trans [OF that sp] by (rule assms(3))
  then obtain t1 where t1: "ensure_directory (rev (butlast p)) t = Inr t1" "tree_ok t1" "file_at t1 = file_at t" "is_dir_at t1 (butlast p)"
    using ensure_directory_step [OF assms(1), of "rev (butlast p)"] by auto
  have "\<not> prefix p (butlast p)" using prefix_order.le_less_trans [OF _ sp] by blast
  then have "tree_ok (tree_put p (FileNode c) (tree_remove p t1))"
    using t1 assms(2) by (intro tree_ok_put tree_ok_remove) (simp_all add: is_dir_at_def)
  then show ?thesis using t1 assms(2) by (simp add: copy_restore_file_def)
qed

lemma remove_all:
  "tree_ok t \<Longrightarrow> [] \<notin> set ps \<Longrightarrow> tree_ok (fold tree_remove ps t)
    \<and> (\<forall>q. file_at (fold tree_remove ps t) q = (if \<exists>p \<in> set ps. prefix p q then None else file_at t q))"
proof (induction ps arbitrary: t)
  case (Cons p ps)
  then have "tree_ok (tree_remove p t)" "p \<noteq> []" by (auto intro: tree_ok_remove)
  then show ?case using Cons.IH [of "tree_remove p t"] Cons.prems by auto
qed simp

lemma prune_empty_dirs_ok:
  assumes "tree_ok t"
  shows "tree_ok (prune_empty_dirs t) \<and> file_at (prune_empty_dirs t) = file_at t"
proof -
  have one: "file_at (tree_remove p t) = file_at t" if "is_empty_dir t p" "p \<noteq> []" for p and t :: tree
  proof -
    have "prune_up (rev p) t = prune_up (tl (rev p)) (tree_remove p t)"
      using that by (cases "rev p") (auto simp: Let_def rev_swap)
    then show ?thesis using prune_up_file [of "rev p" t] prune_up_file [of "tl (rev p)" "tree_remove p t"] by simp
  qed
  have "tree_ok t \<Longrightarrow> [] \<notin> set ps \<Longrightarrow>
      tree_ok (fold (\<lambda>p t. if version_hidden p then t else if is_empty_dir t p then tree_remove p t else t) ps t)
    \<and> file_at (fold (\<lambda>p t. if version_hidden p then t else if is_empty_dir t p then tree_remove p t else t) ps t) = file_at t"
    for ps and t :: tree
  proof (induction ps arbitrary: t)
    case (Cons p ps)
    show ?case
      using Cons.IH [of t] Cons.IH [of "tree_remove p t"] Cons.prems one [of t p] tree_ok_remove [of t p] by auto
  qed simp
  moreover have "[] \<notin> set (rev (sort_key length (map fst (filter (\<lambda>(p, n). n = DirNode) t))))"
    using assms by (auto simp: tree_ok_def)
  ultimately show ?thesis unfolding prune_empty_dirs_def using assms by blast
qed

text \<open>The names a file system allows.\<close>

definition clean_name :: "string \<Rightarrow> bool" where
  "clean_name c = (c \<notin> {[], ''.'', ''..''} \<and> CHR ''/'' \<notin> set c)"

definition names_ok :: "tree \<Rightarrow> bool" where
  "names_ok t = list_all (\<lambda>(p, n). list_all clean_name p) t"

lemma safe_path:
  assumes "tree_ok t" and "names_ok t" and "file_at t p = Some c" and "\<not> version_hidden p"
  shows "safe_relative_path p = Inr p"
proof -
  have "p \<noteq> []" using assms(3) by auto
  then have "(p, FileNode c) \<in> set t" using assms(3) node_in [OF assms(1)] by (simp add: file_at_Some)
  then have "list_all clean_name p" using assms(2) by (auto simp: names_ok_def list_all_iff)
  then show ?thesis using assms(4) \<open>p \<noteq> []\<close> by (auto simp: safe_relative_path_def list_ex_iff list_all_iff clean_name_def)
qed

lemma archive_all:
  assumes "tree_ok t" and "names_ok t"
  shows "(\<And>p. p \<in> set ps \<Longrightarrow> file_at t p \<noteq> None \<and> \<not> version_hidden p) \<Longrightarrow>
    \<exists>files. archive_files t ps = Inr files \<and> (\<forall>p. map_of files p = (if p \<in> set ps then file_at t p else None))"
proof (induction ps)
  case (Cons p ps)
  obtain c where c: "file_at t p = Some c" "\<not> version_hidden p" using Cons.prems [of p] by auto
  obtain files where "archive_files t ps = Inr files" "\<forall>p. map_of files p = (if p \<in> set ps then file_at t p else None)"
    using Cons.IH Cons.prems by auto
  then show ?case using c safe_path [OF assms c] by simp
qed simp

definition archived :: "(string \<Rightarrow> string) \<Rightarrow> tree \<Rightarrow> root_version \<Rightarrow> bool" where
  "archived sha t v =
     (rv_manifest v = build_project_root_manifest sha t
      \<and> (\<forall>p. map_of (rv_files v) p = (if version_hidden p then None else file_at t p)))"

lemma manifest_keys:
  assumes "tree_ok t"
  shows "p \<in> fst ` set (build_project_root_manifest sha t) \<longleftrightarrow> file_at t p \<noteq> None \<and> \<not> version_hidden p"
proof -
  have "p \<in> fst ` set (build_project_root_manifest sha t) \<longleftrightarrow> map_of (build_project_root_manifest sha t) p \<noteq> None"
    by (simp add: map_of_eq_None_iff)
  then show ?thesis using assms by (simp add: build_project_root_manifest_def map_of_file_manifest)
qed

lemma capture_archives:
  assumes "tree_ok (pr_tree r)" and "names_ok (pr_tree r)"
  shows "\<exists>v. capture_project_root_version sha now label r = Inr (v, r\<lparr>pr_history := pr_history r @ [v]\<rparr>)
    \<and> rv_id v \<notin> rv_id ` set (pr_history r) \<and> archived sha (pr_tree r) v"
proof -
  define m where "m = build_project_root_manifest sha (pr_tree r)"
  obtain i where i: "unique_version_id (Suc (length (pr_history r))) sha (map rv_id (pr_history r)) (utc_timestamp now) label m = Some i"
    "i \<notin> rv_id ` set (pr_history r)"
    using free_candidate_found [of "map rv_id (pr_history r)"] unfolding unique_version_id_def Let_def length_map set_map by blast
  have keys: "p \<in> set (map fst m) \<longleftrightarrow> file_at (pr_tree r) p \<noteq> None \<and> \<not> version_hidden p" for p
    using manifest_keys [OF assms(1)] by (simp add: m_def)
  obtain files where "archive_files (pr_tree r) (map fst m) = Inr files"
    "\<forall>p. map_of files p = (if p \<in> set (map fst m) then file_at (pr_tree r) p else None)"
    using archive_all [OF assms, of "map fst m"] keys by blast
  then show ?thesis
    using i keys unfolding capture_project_root_version_def Let_def m_def [symmetric]
    by (auto simp: archived_def m_def)
qed

lemma restore_loop:
  assumes t0: "tree_ok t0" "names_ok t0" and v: "archived sha t0 v"
  shows "tree_ok t \<Longrightarrow> (\<And>p. p \<in> set order \<Longrightarrow> file_at t0 p \<noteq> None \<and> \<not> version_hidden p) \<Longrightarrow>
    (\<And>q. \<not> version_hidden q \<Longrightarrow> file_at t q \<noteq> None \<Longrightarrow> file_at t0 q \<noteq> None) \<Longrightarrow>
    \<exists>t'. restore_files (rv_files v) order t = (None, t') \<and> tree_ok t'
      \<and> (\<forall>q. \<not> version_hidden q \<longrightarrow> file_at t' q = (if q \<in> set order then file_at t0 q else file_at t q))"
proof (induction order arbitrary: t)
  case (Cons p ps)
  obtain c where c: "file_at t0 p = Some c" "\<not> version_hidden p" using Cons.prems(2) [of p] by auto
  have up: "\<not> version_hidden q" if "prefix q p" for q using that c(2) by (auto simp: version_hidden_def list_ex_iff dest: set_mono_prefix)
  have only: "q = p" if "\<not> version_hidden q" "file_at t q \<noteq> None" "prefix p q \<or> prefix q p" for q
    using Cons.prems(3) [OF that(1,2)] that(3) c(1) files_incomparable [OF t0(1)] by (metis option.exhaust)
  have "p \<noteq> []" using c(1) by auto
  have "\<exists>t'. copy_restore_file p c t = Inr t' \<and> tree_ok t'
    \<and> (\<forall>q. file_at t' q = (if q = p then Some c else if prefix p q then None else file_at t q))"
    using only up by (intro copy_restore_step Cons.prems(1) \<open>p \<noteq> []\<close>) (metis strict_prefix_def)
  then obtain t1 where t1: "copy_restore_file p c t = Inr t1" "tree_ok t1"
    "\<And>q. file_at t1 q = (if q = p then Some c else if prefix p q then None else file_at t q)" by blast
  have f1: "file_at t1 q = (if q = p then Some c else file_at t q)" if "\<not> version_hidden q" for q
    using t1(3) [of q] only [of q] that by (cases "file_at t q") auto
  have run: "restore_files (rv_files v) (p # ps) t = restore_files (rv_files v) ps t1"
    using safe_path [OF t0 c] v c t1(1) by (simp add: archived_def)
  have "file_at t0 q \<noteq> None" if "\<not> version_hidden q" "file_at t1 q \<noteq> None" for q
    using that f1 [of q] Cons.prems(3) [of q] c(1) by (cases "q = p") auto
  then obtain t' where "restore_files (rv_files v) ps t1 = (None, t')" "tree_ok t'"
    "\<And>q. \<not> version_hidden q \<Longrightarrow> file_at t' q = (if q \<in> set ps then file_at t0 q else file_at t1 q)"
    using Cons.IH [OF t1(2)] Cons.prems(2) by (metis list.set_intros(2))
  then show ?case unfolding run using f1 c(1) by auto
qed simp

lemma restore_folder:
  assumes t0: "tree_ok t0" "names_ok t0" and v: "archived sha t0 v" and t: "tree_ok t"
    and order: "set order = fst ` set (rv_manifest v)"
  shows "\<exists>t'. restore_folder_root sha order v t = (None, t') \<and> tree_ok t'
    \<and> (\<forall>q. \<not> version_hidden q \<longrightarrow> file_at t' q = file_at t0 q)"
proof -
  define extra where "extra = filter (\<lambda>p. p \<notin> fst ` set (rv_manifest v)) (map fst (build_project_root_manifest sha t))"
  have target: "p \<in> set order \<longleftrightarrow> file_at t0 p \<noteq> None \<and> \<not> version_hidden p" for p
    using order v manifest_keys [OF t0(1)] by (simp add: archived_def)
  have extra: "p \<in> set extra \<longleftrightarrow> file_at t p \<noteq> None \<and> \<not> version_hidden p \<and> p \<notin> set order" for p
    using manifest_keys [OF t, of p sha] order by (auto simp: extra_def)
  then have "[] \<notin> set extra" by auto
  from remove_all [OF t this] have ok: "tree_ok (fold tree_remove extra t)"
    and gone: "\<And>q. file_at (fold tree_remove extra t) q = (if \<exists>p \<in> set extra. prefix p q then None else file_at t q)" by auto
  have "file_at t0 q \<noteq> None" if "\<not> version_hidden q" "file_at (fold tree_remove extra t) q \<noteq> None" for q
    using that gone [of q] extra [of q] target [of q] by (auto split: if_splits)
  then obtain t' where t': "restore_files (rv_files v) order (fold tree_remove extra t) = (None, t')" "tree_ok t'"
    "\<And>q. \<not> version_hidden q \<Longrightarrow> file_at t' q = (if q \<in> set order then file_at t0 q else file_at (fold tree_remove extra t) q)"
    using restore_loop [OF t0 v ok, of order] target by blast
  have "file_at t' q = file_at t0 q" if "\<not> version_hidden q" for q
    using t'(3) [OF that] target [of q] that gone [of q] extra [of q] by auto
  then show ?thesis
    using t' prune_empty_dirs_ok [OF t'(2)] by (simp add: restore_folder_root_def Let_def extra_def [symmetric])
qed

lemma find_unique:
  assumes "v \<in> set (pr_history r)" and "distinct (map rv_id (pr_history r))"
  shows "find_project_root_version r (rv_id v) = Inr v"
proof -
  let ?vs = "list_project_root_versions r"
  have vs: "set ?vs = set (pr_history r)" by (simp add: list_project_root_versions_def)
  have "find (\<lambda>w. rv_id w = rv_id v) ?vs = Some v"
  proof (cases "find (\<lambda>w. rv_id w = rv_id v) ?vs")
    case None
    then show ?thesis using assms(1) vs by (auto simp: find_None_iff)
  next
    case (Some w)
    then have "w \<in> set (pr_history r)" "rv_id w = rv_id v" using vs by (auto simp: find_Some_iff)
    then show ?thesis using assms Some by (auto simp: distinct_map inj_on_def)
  qed
  then show ?thesis by (simp add: find_project_root_version_def)
qed

lemma restore_archived:
  assumes "tree_ok t0" and "names_ok t0" and "archived sha t0 v"
    and "v \<in> set (pr_history r)" and "distinct (map rv_id (pr_history r))" and "tree_ok (pr_tree r)"
    and "\<forall>m. set (order m) = fst ` set m"
  shows "\<exists>t'. restore_project_root_version sha order (rv_id v) r = (Inr v, r\<lparr>pr_tree := t'\<rparr>) \<and> tree_ok t'
    \<and> (\<forall>p. \<not> version_hidden p \<longrightarrow> file_at t' p = file_at t0 p)"
proof -
  obtain t' where t': "restore_folder_root sha (order (rv_manifest v)) v (pr_tree r) = (None, t')" "tree_ok t'"
    "\<forall>p. \<not> version_hidden p \<longrightarrow> file_at t' p = file_at t0 p"
    using restore_folder [OF assms(1-3,6), of "order (rv_manifest v)"] assms(7) by blast
  then show ?thesis
    using find_unique [OF assms(4,5)] by (intro exI [of _ t']) (simp add: restore_project_root_version_def)
qed

lemma same_files_same_manifest:
  assumes "tree_ok a" and "tree_ok b" and "\<And>p. \<not> version_hidden p \<Longrightarrow> file_at a p = file_at b p"
  shows "map_of (build_project_root_manifest sha a) = map_of (build_project_root_manifest sha b)"
  using assms by (auto simp: fun_eq_iff build_project_root_manifest_def map_of_file_manifest)

lemma compare_unchanged:
  assumes "find_project_root_version r i = Inr v" and "tree_ok t0" and "archived sha t0 v" and "tree_ok (pr_tree r)"
    and "\<And>p. \<not> version_hidden p \<Longrightarrow> file_at (pr_tree r) p = file_at t0 p"
  shows "\<exists>c. compare_project_root_to_version sha i r = Inr c \<and> \<not> has_changes c"
proof -
  have same: "map_of (build_project_root_manifest sha (pr_tree r)) = map_of (rv_manifest v)"
    using same_files_same_manifest [OF assms(4,2,5)] assms(3) by (simp add: archived_def)
  then have dom: "fst ` set (build_project_root_manifest sha (pr_tree r)) = fst ` set (rv_manifest v)"
    by (metis dom_map_of_conv_image_fst)
  have empty: "filter (\<lambda>p. p \<notin> A) xs = []" if "set xs = A" for A and xs :: "path list"
    using that by (auto simp: filter_empty_conv)
  show ?thesis
    by (simp add: compare_project_root_to_version_def assms(1) Let_def has_changes_def same dom empty sorted_paths_def)
qed

section \<open>Properties\<close>

text \<open>
  C33: capturing a version always returns, with an identifier no earlier version has; and whatever happens to the
  root afterwards, restoring the version by its identifier returns every visible file to its captured content,
  after which the comparison with the version shows no change.
\<close>
theorem restore_returns_captured:
  assumes "tree_ok (pr_tree r)" and "names_ok (pr_tree r)" and "distinct (map rv_id (pr_history r))"
    and "tree_ok t" and "\<forall>m. set (order m) = fst ` set m"
  shows "\<exists>v r1 r2 c. capture_project_root_version sha now label r = Inr (v, r1)
    \<and> rv_id v \<notin> rv_id ` set (pr_history r) \<and> pr_tree r1 = pr_tree r
    \<and> restore_project_root_version sha order (rv_id v) (r1\<lparr>pr_tree := t\<rparr>) = (Inr v, r2)
    \<and> (\<forall>p. \<not> version_hidden p \<longrightarrow> file_at (pr_tree r2) p = file_at (pr_tree r) p)
    \<and> compare_project_root_to_version sha (rv_id v) r2 = Inr c \<and> \<not> has_changes c"
proof -
  from capture_archives [OF assms(1,2)] obtain v where v: "capture_project_root_version sha now label r
      = Inr (v, r\<lparr>pr_history := pr_history r @ [v]\<rparr>)" "rv_id v \<notin> rv_id ` set (pr_history r)" "archived sha (pr_tree r) v"
    by blast
  define r1 where "r1 = r\<lparr>pr_history := pr_history r @ [v]\<rparr>"
  have h: "v \<in> set (pr_history (r1\<lparr>pr_tree := t\<rparr>))" "distinct (map rv_id (pr_history (r1\<lparr>pr_tree := t\<rparr>)))"
    "tree_ok (pr_tree (r1\<lparr>pr_tree := t\<rparr>))"
    using v(2) assms(3,4) by (auto simp: r1_def)
  obtain t' where t': "restore_project_root_version sha order (rv_id v) (r1\<lparr>pr_tree := t\<rparr>)
      = (Inr v, r1\<lparr>pr_tree := t, pr_tree := t'\<rparr>)" "tree_ok t'"
    "\<And>p. \<not> version_hidden p \<Longrightarrow> file_at t' p = file_at (pr_tree r) p"
    using restore_archived [OF assms(1,2) v(3) h assms(5)] by blast
  define r2 where "r2 = r1\<lparr>pr_tree := t, pr_tree := t'\<rparr>"
  note restored = t'(1) [folded r2_def]
  have "pr_history r2 = pr_history r1" and t2: "pr_tree r2 = t'" by (simp_all add: r2_def)
  then have "find_project_root_version r2 (rv_id v) = Inr v" using h by (intro find_unique) simp_all
  from compare_unchanged [OF this assms(1) v(3)] obtain c
    where "compare_project_root_to_version sha (rv_id v) r2 = Inr c" "\<not> has_changes c"
    using t'(2,3) unfolding t2 by blast
  moreover have "pr_tree r1 = pr_tree r" by (simp add: r1_def)
  ultimately show ?thesis
    using v(1,2) restored t'(3) unfolding r1_def [symmetric] t2 [symmetric] by blast
qed

definition ex_project :: project_root where
  "ex_project = \<lparr>pr_tree = [([''docs''], DirNode), ([''docs'', ''a.md''], FileNode ''one'')], pr_history = []\<rparr>"

lemma ex_project_ok: "tree_ok (pr_tree ex_project)" "names_ok (pr_tree ex_project)"
  by code_simp+

lemma restore_returns_captured_witness:
  "\<exists>v r1 r2. capture_project_root_version (\<lambda>c. c) 0 ''first'' ex_project = Inr (v, r1)
    \<and> restore_project_root_version (\<lambda>c. c) (map fst) (rv_id v) (r1\<lparr>pr_tree := [([''docs''], FileNode ''clash'')]\<rparr>) = (Inr v, r2)
    \<and> file_at (pr_tree r2) [''docs'', ''a.md''] = Some ''one''"
proof -
  have t: "tree_ok [([''docs''], FileNode ''clash'')]" by code_simp
  have d: "distinct (map rv_id (pr_history ex_project))" by (simp add: ex_project_def)
  have o: "\<forall>m :: manifest. set (map fst m) = fst ` set m" by simp
  have "\<not> version_hidden [''docs'', ''a.md'']" "file_at (pr_tree ex_project) [''docs'', ''a.md''] = Some ''one''" by code_simp+
  with restore_returns_captured [OF ex_project_ok d t o, of "\<lambda>c. c" 0 "''first''"] show ?thesis by metis
qed

end
