(* ===== verification/Project_Publish.thy ===== *)
theory Project_Publish
  imports Project_Drafts Project_Versions
begin

text \<open>
  Publishing Project drafts (\<open>systems/cortex/project_context/publish.py\<close> with the change sets of
  \<open>draft_state.py\<close>), for resources whose root is a local directory: the plan, its blockers and filters, applying
  the operations to the root between two captured versions, the rollback, and the retry protocol of conflicts.
  The directory paths of root and draft are strings in the form \<open>pathlib\<close> prints; the actor and run identifiers
  and the diff previews are not modelled.
\<close>

section \<open>Change sets\<close>

definition PROJECT_DRAFT_CHANGE_LIMIT :: nat where
  "PROJECT_DRAFT_CHANGE_LIMIT = 500"

record change_set =
  cs_changed :: "path list"
  cs_new :: "path list"
  cs_deleted :: "path list"
  cs_conflicted :: "path list"
  cs_out_of_date :: "path list"

definition limited_unique_paths :: "path list \<Rightarrow> path list" where
  "limited_unique_paths ps = take PROJECT_DRAFT_CHANGE_LIMIT (sorted_paths (filter (\<lambda>p. p \<noteq> []) ps))"

definition draft_publish_change_set :: "(string \<Rightarrow> string) \<Rightarrow> tree \<Rightarrow> draft \<Rightarrow> bool \<Rightarrow> change_set" where
  "draft_publish_change_set sha root d allow =
     (let plan = plan_draft_publish sha root d None allow in
      \<lparr>cs_changed = limited_unique_paths (pp_modified plan), cs_new = limited_unique_paths (pp_created plan),
       cs_deleted = limited_unique_paths (pp_deleted plan), cs_conflicted = limited_unique_paths (pp_conflicted plan),
       cs_out_of_date = limited_unique_paths (pp_out_of_date plan)\<rparr>)"

datatype draft_status = DraftConflicted | DraftOutOfDate | DraftModified | DraftClean

definition resource_status :: "change_set \<Rightarrow> draft_status" where
  "resource_status cs =
     (let actionable = length (cs_changed cs) + length (cs_new cs) + length (cs_deleted cs) + length (cs_conflicted cs) in
      if cs_conflicted cs \<noteq> [] then DraftConflicted
      else if cs_out_of_date cs \<noteq> [] \<and> actionable = 0 then DraftOutOfDate
      else if actionable \<noteq> 0 then DraftModified
      else DraftClean)"

section \<open>Operations of a plan\<close>

datatype op_kind = UpdateOp | CreateOp | DeleteOp | ResolveConflict

text \<open>A draft or target path is kept relative to the draft or the root, which are different directories.\<close>

record publish_op =
  po_kind :: op_kind
  po_path :: path
  po_draft :: "path option"
  po_target :: "path option"

definition path_parts :: "string \<Rightarrow> path" where
  "path_parts s = filter (\<lambda>c. c \<noteq> [] \<and> c \<noteq> ''.'') (py_split_on (CHR ''/'') s)"

definition plan_path :: "path \<Rightarrow> path option" where
  "plan_path p =
     (let s = slashes (path_text p) in
      if (s \<noteq> [] \<and> hd s = CHR ''/'') \<or> ''..'' \<in> set (path_parts s) then None else Some (path_parts s))"

definition publish_operations :: "change_set \<Rightarrow> publish_op list" where
  "publish_operations cs =
     concat (map (\<lambda>(kind, ps). map (\<lambda>p. \<lparr>po_kind = kind, po_path = p, po_draft = plan_path p, po_target = plan_path p\<rparr>) ps)
       [(UpdateOp, cs_changed cs), (CreateOp, cs_new cs), (DeleteOp, cs_deleted cs), (ResolveConflict, cs_conflicted cs)])"

datatype blocked_reason =
    ConflictedPathsRequireResolution
  | PublishOperationPathUnavailable
  | PublishFailedRolledBack
  | PublishFailedRollbackFailed

definition publish_blocked_reasons :: "publish_op list \<Rightarrow> blocked_reason list" where
  "publish_blocked_reasons ops =
     (if list_ex (\<lambda>op. po_kind op = ResolveConflict) ops then [ConflictedPathsRequireResolution] else [])
     @ (if list_ex (\<lambda>op. po_kind op \<in> {CreateOp, UpdateOp, DeleteOp} \<and> po_target op = None) ops
        then [PublishOperationPathUnavailable] else [])"

datatype group_status = GroupBlocked | GroupReady | GroupOutOfDate | GroupClean

definition publish_group_status :: "blocked_reason list \<Rightarrow> publish_op list \<Rightarrow> draft_status \<Rightarrow> group_status" where
  "publish_group_status reasons ops s =
     (if reasons \<noteq> [] then GroupBlocked else if ops \<noteq> [] then GroupReady
      else if s = DraftOutOfDate then GroupOutOfDate else GroupClean)"

section \<open>Applying operations\<close>

text \<open>
  The paths of an operation are stripped as texts before they are used, so the last component of a planned path
  may lose its blanks and become \<open>..\<close>; elsewhere a planned path never has that component
  (\<open>stripped_planned\<close>), and its draft and target paths are the same below the draft and the root. The parent of
  the root counts only by what it holds of the root, and the draft does not lie in it.
\<close>

definition stripped_parts :: "path \<Rightarrow> path" where
  "stripped_parts p = path_parts (py_rstrip (path_text p))"

definition climbs :: "path \<Rightarrow> bool" where
  "climbs p = (p \<noteq> [] \<and> last p = ''..'')"

definition is_dir_path :: "tree \<Rightarrow> path \<Rightarrow> bool" where
  "is_dir_path t p = is_dir_at t (if climbs p then butlast p else p)"

text \<open>
  \<open>shutil.rmtree\<close> of \<open>d/..\<close> removes everything in the directory above \<open>d\<close> and only then fails, as \<open>d\<close> is gone when
  it comes to remove \<open>d/..\<close> itself. In the root that takes the history with it.
\<close>

definition rmtree_climbing :: "path \<Rightarrow> project_root \<Rightarrow> py_error option \<times> project_root" where
  "rmtree_climbing p r =
     (let emptied = butlast (butlast p) in
      (Some (OSError ''FileNotFoundError''),
       r\<lparr>pr_tree := filter (\<lambda>(q, _). \<not> strict_prefix emptied q) (pr_tree r),
         pr_history := (if emptied = [] then [] else pr_history r)\<rparr>))"

text \<open>\<open>shutil.copytree\<close> of the directory \<open>src\<close> to \<open>dst\<close>, and \<open>shutil.copy2\<close>, which copies into a directory.\<close>

definition tree_graft :: "path \<Rightarrow> tree \<Rightarrow> path \<Rightarrow> tree \<Rightarrow> tree" where
  "tree_graft src from dst t =
     (if dst = [] then [] else tree_put dst DirNode (tree_remove dst t))
     @ map (\<lambda>(p, n). (dst @ drop (length src) p, n)) (filter (\<lambda>(p, _). strict_prefix src p) from)"

definition copy2 :: "path \<Rightarrow> string \<Rightarrow> path \<Rightarrow> tree \<Rightarrow> tree result" where
  "copy2 src c dst t =
     (let target = (if is_dir_at t dst then dst @ [last src] else dst) in
      if is_dir_at t target then Inl (OSError ''IsADirectoryError'') else Inr (tree_put target (FileNode c) t))"

definition copy_publish_path :: "tree \<Rightarrow> path \<Rightarrow> path \<Rightarrow> project_root \<Rightarrow> py_error option \<times> project_root" where
  "copy_publish_path draft src dst r = (case make_dirs [] (butlast dst) (pr_tree r) of
       Inl e \<Rightarrow> (Some e, r)
     | Inr t \<Rightarrow>
         if is_dir_path draft src
         then if climbs dst then rmtree_climbing dst (r\<lparr>pr_tree := t\<rparr>)
              else (None, r\<lparr>pr_tree := tree_graft src draft dst t, pr_history := (if dst = [] then [] else pr_history r)\<rparr>)
         else (case file_at draft src of
             None \<Rightarrow> (Some (OSError ''FileNotFoundError''), r\<lparr>pr_tree := t\<rparr>)
           | Some c \<Rightarrow> (case copy2 src c dst t of
                 Inl e \<Rightarrow> (Some e, r\<lparr>pr_tree := t\<rparr>)
               | Inr t' \<Rightarrow> (None, r\<lparr>pr_tree := t'\<rparr>))))"

text \<open>
  The history directory is no part of the tree: removing it removes the history. Operations on single files in
  it, which no plan has unless their names end in blanks, are not modelled.
\<close>

definition HISTORY_DIR :: string where
  "HISTORY_DIR = ''.illo-project-history''"

definition delete_publish_path :: "path \<Rightarrow> project_root \<Rightarrow> py_error option \<times> project_root" where
  "delete_publish_path p r =
     (if climbs p then if is_dir_path (pr_tree r) p then rmtree_climbing p r else (None, r)
      else (None, r\<lparr>pr_tree := (if node_at (pr_tree r) p \<noteq> None then tree_remove p (pr_tree r) else pr_tree r),
                    pr_history := (if p = [] \<or> p = [HISTORY_DIR] then [] else pr_history r)\<rparr>))"

definition apply_op :: "tree \<Rightarrow> publish_op \<Rightarrow> project_root \<Rightarrow> py_error option \<times> project_root" where
  "apply_op draft op r = (case po_kind op of
       ResolveConflict \<Rightarrow> (Some (ValueError ''conflicted paths require resolution before publish''), r)
     | DeleteOp \<Rightarrow> (case po_target op of
         None \<Rightarrow> (Some (ValueError ''publish delete operation is missing target_path''), r)
       | Some t \<Rightarrow> delete_publish_path (stripped_parts t) r)
     | _ \<Rightarrow> (case (po_draft op, po_target op) of
         (Some s, Some t) \<Rightarrow> copy_publish_path draft (stripped_parts s) (stripped_parts t) r
       | _ \<Rightarrow> (Some (ValueError ''publish operation is missing draft_path or target_path''), r)))"

fun apply_ops ::
  "tree \<Rightarrow> publish_op list \<Rightarrow> project_root \<Rightarrow> publish_op list \<Rightarrow> py_error option \<times> project_root \<times> publish_op list" where
  "apply_ops draft [] r applied = (None, r, applied)"
| "apply_ops draft (op # ops) r applied = (case apply_op draft op r of
       (Some e, r') \<Rightarrow> (Some e, r', applied)
     | (None, r') \<Rightarrow> apply_ops draft ops r' (applied @ [op]))"

text \<open>
  A root that operations removed altogether and no later copy made again: an empty tree cannot tell it from an
  empty directory, and capturing it fails.
\<close>

definition removes_root :: "publish_op list \<Rightarrow> bool" where
  "removes_root ops = fold (\<lambda>op gone. po_kind op = DeleteOp \<and> (gone \<or> map_option stripped_parts (po_target op) = Some [])) ops False"

section \<open>Publishing a resource\<close>

definition clean_path :: "path \<Rightarrow> path option" where
  "clean_path p = (let s = py_strip (path_text p) in if s = [] then None else Some (py_split_on (CHR ''/'') s))"

definition refresh_published_draft_paths ::
  "(string \<Rightarrow> string) \<Rightarrow> tree \<Rightarrow> publish_op list \<Rightarrow> draft \<Rightarrow> py_error option \<times> draft" where
  "refresh_published_draft_paths sha root ops d =
     (let rootm = build_file_manifest sha root;
          ps = List.map_filter (clean_path \<circ> po_path) ops;
          base = fold (\<lambda>p b. case map_of rootm p of None \<Rightarrow> AList.delete p b | Some e \<Rightarrow> AList.update p e b) ps
            (if dr_base d = [] then rootm else dr_base d) in
      case refresh_base_snapshots_for_paths sha root ps d of
        (Some e, d') \<Rightarrow> (Some e, d')
      | (None, d') \<Rightarrow> (None, (clear_conflict_checkpoints (Some ps) d')\<lparr>dr_base := sort_key (path_text \<circ> fst) base\<rparr>))"

definition settle_draft ::
  "(string \<Rightarrow> string) \<Rightarrow> bool \<Rightarrow> tree \<Rightarrow> publish_op list \<Rightarrow> draft \<Rightarrow> py_error option \<times> draft" where
  "settle_draft sha sync_after root applied d =
     (if sync_after then (case sync_draft_from_root sha root None d of (Inl e, d') \<Rightarrow> (Some e, d') | (Inr _, d') \<Rightarrow> (None, d'))
      else refresh_published_draft_paths sha root applied d)"

datatype publish_status = Published | PublishBlocked

record publish_result =
  pu_status :: publish_status
  pu_reasons :: "blocked_reason list"
  pu_operations :: "publish_op list"
  pu_error :: "py_error option"
  pu_before :: "root_version option"
  pu_after :: "root_version option"

definition publish_local_group ::
  "(string \<Rightarrow> string) \<Rightarrow> (manifest \<Rightarrow> path list) \<Rightarrow> instant \<Rightarrow> instant \<Rightarrow> bool \<Rightarrow> publish_op list
   \<Rightarrow> project_root \<Rightarrow> draft \<Rightarrow> publish_result result \<times> project_root \<times> draft" where
  "publish_local_group sha order now later sync_after ops r d =
     (case capture_project_root_version sha now ''before-draft-publish'' r of
       Inl e \<Rightarrow> (Inl e, r, d)
     | Inr (before, r1) \<Rightarrow> (case apply_ops (dr_tree d) ops r1 [] of
         (Some e, r2, applied) \<Rightarrow>
           (let (restored, r3) = restore_project_root_version sha order (rv_id before) r2;
                (failed, d') = (case restored of
                    Inl e' \<Rightarrow> (Some e', d) | Inr _ \<Rightarrow> settle_draft sha sync_after (pr_tree r3) applied d) in
            (Inr \<lparr>pu_status = PublishBlocked,
                  pu_reasons = [if failed = None then PublishFailedRolledBack else PublishFailedRollbackFailed],
                  pu_operations = applied, pu_error = Some e, pu_before = Some before, pu_after = None\<rparr>, r3, d'))
       | (None, r2, applied) \<Rightarrow> (case (if removes_root applied then Inl (OSError ''FileNotFoundError'')
             else capture_project_root_version sha later ''after-draft-publish'' r2) of
           Inl e \<Rightarrow> (Inl e, r2, d)
         | Inr (after, r3) \<Rightarrow> (case settle_draft sha sync_after (pr_tree r3) applied d of
             (Some e, d') \<Rightarrow> (Inl e, r3, d')
           | (None, d') \<Rightarrow> (Inr \<lparr>pu_status = Published, pu_reasons = [], pu_operations = applied, pu_error = None,
                 pu_before = Some before, pu_after = Some after\<rparr>, r3, d')))))"

section \<open>Filters and the whole request\<close>

text \<open>A resource: the identity it is selected by, the directories as texts, and their contents.\<close>

record project_resource =
  rs_id :: string
  rs_mount :: string
  rs_label :: string
  rs_workspace :: string
  rs_source :: string
  rs_root :: project_root
  rs_draft :: draft

record publish_group =
  pg_resource :: project_resource
  pg_draft_status :: draft_status
  pg_operations :: "publish_op list"
  pg_reasons :: "blocked_reason list"
  pg_status :: group_status

definition with_operations :: "project_resource \<Rightarrow> draft_status \<Rightarrow> publish_op list \<Rightarrow> publish_group" where
  "with_operations r s ops =
     (let reasons = publish_blocked_reasons ops in
      \<lparr>pg_resource = r, pg_draft_status = s, pg_operations = ops, pg_reasons = reasons,
       pg_status = publish_group_status reasons ops s\<rparr>)"

definition plan_group :: "(string \<Rightarrow> string) \<Rightarrow> bool \<Rightarrow> project_resource \<Rightarrow> publish_group" where
  "plan_group sha allow r =
     (let cs = draft_publish_change_set sha (pr_tree (rs_root r)) (rs_draft r) allow in
      with_operations r (resource_status cs) (publish_operations cs))"

definition strip_slashes :: "string \<Rightarrow> string" where
  "strip_slashes s = (let slash = (\<lambda>c. c = CHR ''/'') in rev (dropWhile slash (rev (dropWhile slash s))))"

definition normalise_publish_path :: "string \<Rightarrow> string option" where
  "normalise_publish_path s =
     (if py_strip s = [] then None
      else (let t = slashes (py_strip s); u = (if py_startswith t ''./'' then drop 2 t else t) in
        Some (rev (dropWhile (\<lambda>c. c = CHR ''/'') (rev u)))))"

definition below :: "string \<Rightarrow> path \<Rightarrow> string" where
  "below base p = (if p = [] then base else base @ ''/'' @ path_text p)"

definition operation_path_candidates :: "publish_op \<Rightarrow> project_resource \<Rightarrow> string list" where
  "operation_path_candidates op r =
     (let own = normalise_publish_path (path_text (po_path op));
          placed = [own, Option.bind (po_draft op) (\<lambda>p. normalise_publish_path (below (rs_workspace r) p)),
                    Option.bind (po_target op) (\<lambda>p. normalise_publish_path (below (rs_source r) p))];
          mounted = (case (normalise_publish_path (rs_mount r), own) of
              (Some m, Some p) \<Rightarrow> if m \<noteq> [] \<and> p \<noteq> [] then [strip_slashes m @ ''/'' @ p, ''/'' @ strip_slashes m @ ''/'' @ p] else []
            | _ \<Rightarrow> []) in
      filter (\<lambda>s. s \<noteq> []) (List.map_filter id placed @ mounted))"

definition lstrip_slashes :: "string \<Rightarrow> string" where
  "lstrip_slashes s = dropWhile (\<lambda>c. c = CHR ''/'') s"

definition operation_matches_publish_paths :: "publish_op \<Rightarrow> project_resource \<Rightarrow> string list \<Rightarrow> bool" where
  "operation_matches_publish_paths op r paths =
     (let candidates = operation_path_candidates op r in
      list_ex (\<lambda>p. p \<in> set candidates \<or> lstrip_slashes p \<in> set (map lstrip_slashes candidates)) paths)"

definition publish_resource_matches :: "project_resource \<Rightarrow> string \<Rightarrow> bool" where
  "publish_resource_matches r i = (i \<in> {rs_id r, rs_mount r, rs_label r, rs_workspace r, rs_source r})"

definition filter_publish_groups :: "string list \<Rightarrow> string list \<Rightarrow> publish_group list \<Rightarrow> publish_group list" where
  "filter_publish_groups ids paths groups =
     (let ids' = filter (\<lambda>i. i \<noteq> []) ids;
          paths' = filter (\<lambda>p. p \<noteq> []) (List.map_filter normalise_publish_path paths) in
      map (\<lambda>g. if paths' = [] then with_operations (pg_resource g) (pg_draft_status g) (pg_operations g)
               else with_operations (pg_resource g) (pg_draft_status g)
                 (filter (\<lambda>op. operation_matches_publish_paths op (pg_resource g) paths') (pg_operations g)))
        (filter (\<lambda>g. ids' = [] \<or> list_ex (publish_resource_matches (pg_resource g)) ids') groups))"

definition conflict_paths :: "publish_op list \<Rightarrow> path list" where
  "conflict_paths ops = List.map_filter (clean_path \<circ> po_path) (filter (\<lambda>op. po_kind op = ResolveConflict) ops)"

text \<open>\<open>_conflict_resolution_guidance\<close>: a blocked group with conflicts gets checkpoints.\<close>

definition checkpoint_conflicts :: "(string \<Rightarrow> string) \<Rightarrow> string \<Rightarrow> publish_group \<Rightarrow> project_resource" where
  "checkpoint_conflicts sha created_at g =
     (let r = pg_resource g; ps = conflict_paths (pg_operations g) in
      if pg_status g = GroupBlocked \<and> ps \<noteq> []
      then r\<lparr>rs_draft := record_conflict_checkpoints sha created_at (pr_tree (rs_root r)) ps (rs_draft r)\<rparr> else r)"

fun publish_groups ::
  "(string \<Rightarrow> string) \<Rightarrow> (manifest \<Rightarrow> path list) \<Rightarrow> instant \<Rightarrow> instant \<Rightarrow> bool \<Rightarrow> publish_group list
   \<Rightarrow> py_error option \<times> publish_result list \<times> project_resource list" where
  "publish_groups sha order now later sync_after [] = (None, [], [])"
| "publish_groups sha order now later sync_after (g # gs) =
     (let r = pg_resource g in
      if pg_operations g = []
      then (let (failed, results, rs) = publish_groups sha order now later sync_after gs in (failed, results, r # rs))
      else (case publish_local_group sha order now later sync_after (pg_operations g) (rs_root r) (rs_draft r) of
          (Inl e, root, d) \<Rightarrow> (Some e, [], r\<lparr>rs_root := root, rs_draft := d\<rparr> # map pg_resource gs)
        | (Inr res, root, d) \<Rightarrow>
            (let (failed, results, rs) = publish_groups sha order now later sync_after gs in
             (failed, res # results, r\<lparr>rs_root := root, rs_draft := d\<rparr> # rs))))"

datatype publish_outcome =
    ConflictsRequireResolution
  | DraftPublishBlocked "publish_result list"
  | PublishSelectionEmpty
  | DraftPublished "publish_result list"

text \<open>\<open>project_publish_draft_payload\<close>; the resources of the result are the selected ones.\<close>

definition project_publish_draft ::
  "(string \<Rightarrow> string) \<Rightarrow> (manifest \<Rightarrow> path list) \<Rightarrow> string \<Rightarrow> instant \<Rightarrow> instant \<Rightarrow> string list \<Rightarrow> string list
   \<Rightarrow> project_resource list \<Rightarrow> publish_outcome result \<times> project_resource list" where
  "project_publish_draft sha order created_at now later ids paths resources =
     (let planned = map (plan_group sha True) resources;
          groups = (if ids \<noteq> [] \<or> paths \<noteq> [] then filter_publish_groups ids paths planned else planned);
          blocked = filter (\<lambda>g. pg_status g = GroupBlocked) groups in
      if blocked \<noteq> [] then
        (if list_ex (\<lambda>g. ConflictedPathsRequireResolution \<in> set (pg_reasons g)) blocked
         then (Inr ConflictsRequireResolution, map (checkpoint_conflicts sha created_at) groups)
         else (Inr (DraftPublishBlocked []), map pg_resource groups))
      else if (ids \<noteq> [] \<or> paths \<noteq> []) \<and> list_all (\<lambda>g. pg_operations g = []) groups
      then (Inr PublishSelectionEmpty, map pg_resource groups)
      else (let (failed, results, rs) = publish_groups sha order now later (paths = []) groups in
        (case failed of
           Some e \<Rightarrow> Inl e
         | None \<Rightarrow> if list_ex (\<lambda>r. pu_status r = PublishBlocked) results then Inr (DraftPublishBlocked results)
                   else Inr (DraftPublished results), rs)))"

section \<open>Trees under the operations\<close>

lemma map_of_graft:
  "map_of (map (\<lambda>(p, n). (dst @ drop (length src) p, n)) (filter (\<lambda>(p, _). strict_prefix src p) from)) q
   = (if strict_prefix dst q then map_of from (src @ drop (length dst) q) else None)"
proof (induction "from")
  case (Cons x "from")
  obtain p n where x: "x = (p, n)" by (cases x)
  have "strict_prefix dst q \<Longrightarrow> strict_prefix src p \<Longrightarrow> (dst @ drop (length src) p = q) = (p = src @ drop (length dst) q)"
    by (auto simp: strict_prefix_def prefix_def)
  moreover have "strict_prefix src p \<Longrightarrow> strict_prefix dst (dst @ drop (length src) p)"
    by (auto simp: strict_prefix_def prefix_def)
  moreover have "strict_prefix dst q \<Longrightarrow> strict_prefix src (src @ drop (length dst) q)"
    by (auto simp: strict_prefix_def prefix_def)
  ultimately show ?case using Cons by (auto simp: x)
qed simp

lemma map_of_node: "q \<noteq> [] \<Longrightarrow> map_of t q = node_at t q"
  by (simp add: node_at_def)

lemma node_at_graft:
  assumes "dst \<noteq> []" and "q \<noteq> []"
  shows "node_at (tree_graft src from dst t) q
    = (if strict_prefix dst q then map_of from (src @ drop (length dst) q)
       else if q = dst then Some DirNode else node_at t q)"
proof -
  let ?g = "tree_put dst DirNode (tree_remove dst t)"
  have pre: "prefix dst q \<longleftrightarrow> strict_prefix dst q \<or> q = dst" by (auto simp: strict_prefix_def)
  have "node_at (tree_graft src from dst t) q
    = (case node_at ?g q of None \<Rightarrow> if strict_prefix dst q then map_of from (src @ drop (length dst) q) else None | Some n \<Rightarrow> Some n)"
    unfolding map_of_node [OF assms(2), symmetric] tree_graft_def if_not_P [OF assms(1)] map_of_append map_add_def map_of_graft ..
  then show ?thesis using pre assms by (auto split: option.splits)
qed

lemma tree_ok_graft:
  assumes "tree_ok t" and "tree_ok from" and "is_dir_at from src" and "dst \<noteq> []" and "is_dir_at t (butlast dst)"
  shows "tree_ok (tree_graft src from dst t)"
proof (rule tree_okI)
  let ?g = "tree_put dst DirNode (tree_remove dst t)"
  let ?below = "map (\<lambda>(p, n). (dst @ drop (length src) p, n)) (filter (\<lambda>(p, _). strict_prefix src p) from)"
  have g: "tree_graft src from dst t = ?g @ ?below" using assms(4) by (simp add: tree_graft_def)
  have "\<not> prefix dst (butlast dst)" using assms(4) by (metis append_butlast_last_id prefixI prefix_order.antisym not_Cons_self2 append_self_conv)
  then have ok: "tree_ok ?g" using assms by (intro tree_ok_put tree_ok_remove) (simp_all add: is_dir_at_def)
  have below: "strict_prefix dst q" if "q \<in> fst ` set ?below" for q
  proof (rule ccontr)
    assume "\<not> strict_prefix dst q"
    then have "map_of ?below q = None" unfolding map_of_graft by (rule if_not_P)
    then show False using that unfolding map_of_eq_None_iff by contradiction
  qed
  have apart: "q \<notin> fst ` set ?g" if "strict_prefix dst q" for q
  proof -
    have "q \<noteq> []" using that by auto
    then have "map_of ?g q = None" using that assms(4) by (auto simp: map_of_node strict_prefix_def)
    then show ?thesis unfolding map_of_eq_None_iff .
  qed
  have "distinct (map fst ?below)"
  proof -
    have "inj_on (\<lambda>p. dst @ drop (length src) p) {p. strict_prefix src p}"
      by (auto simp: inj_on_def strict_prefix_def prefix_def)
    moreover have "map fst ?below = map (\<lambda>p. dst @ drop (length src) p) (map fst (filter (\<lambda>(p, _). strict_prefix src p) from))"
      by (simp add: case_prod_beta comp_def)
    moreover have "distinct (map fst (filter (\<lambda>(p, _). strict_prefix src p) from))"
      using assms(2) by (simp add: tree_ok_def distinct_map_filter)
    moreover have "set (map fst (filter (\<lambda>(p, _). strict_prefix src p) from)) \<subseteq> {p. strict_prefix src p}" by auto
    ultimately show ?thesis by (metis distinct_map inj_on_subset)
  qed
  then show "distinct (map fst (tree_graft src from dst t))"
    using ok below apart unfolding g map_append distinct_append tree_ok_def set_map by blast
  have "\<not> strict_prefix dst []" by simp
  then show "[] \<notin> fst ` set (tree_graft src from dst t)"
    using ok below unfolding g tree_ok_def set_append image_Un by blast
  fix q assume q: "node_at (tree_graft src from dst t) q \<noteq> None" "q \<noteq> []"
  show "is_dir_at (tree_graft src from dst t) (butlast q)"
  proof (cases "strict_prefix dst q")
    case True
    then obtain c cs where cs: "q = dst @ c # cs" by (metis list.exhaust append_Nil2 strict_prefix_def prefixE)
    have "map_of from (src @ c # cs) \<noteq> None" using q(1) True unfolding node_at_graft [OF assms(4) q(2)] by (simp add: cs)
    then have n: "node_at from (src @ c # cs) \<noteq> None" by (simp add: node_at_def)
    have p: "is_dir_at from (src @ butlast (c # cs))"
      using parent_dir [OF assms(2) n] by (simp add: butlast_append)
    show ?thesis
    proof (cases "cs = []")
      case True
      then show ?thesis using assms(4) by (simp add: cs butlast_append is_dir_at_def node_at_graft)
    next
      case False
      have "strict_prefix dst (dst @ c # butlast cs)" by (auto simp: strict_prefix_def)
      then show ?thesis using p assms(4) False
        by (simp add: cs butlast_append is_dir_at_def node_at_graft) (simp add: node_at_def)
    qed
  next
    case False
    have up: "\<not> prefix dst (butlast q)"
      using False by (metis prefix_order.le_less_trans strict_prefixI' append_butlast_last_id q(2))
    have "is_dir_at t (butlast q)"
    proof (cases "q = dst")
      case False
      then show ?thesis using q \<open>\<not> strict_prefix dst q\<close> parent_dir [OF assms(1)] by (simp add: node_at_graft [OF assms(4)])
    qed (use assms(5) in simp)
    then show ?thesis using up
      by (cases "butlast q = []") (auto simp: is_dir_at_def node_at_graft [OF assms(4)] strict_prefix_def)
  qed
qed

lemma tree_ok_copy2:
  assumes "copy2 src c dst t = Inr t'" and "tree_ok t" and "dst \<noteq> []" and "is_dir_at t (butlast dst)"
  shows "tree_ok t'"
  using assms by (cases "is_dir_at t dst") (auto simp: copy2_def Let_def is_dir_at_def split: if_splits intro!: tree_ok_put)

text \<open>
  An operation whose stripped target is a path strictly inside the root and not in the history, and whose draft
  path does not climb, keeps the root a tree and keeps the history, also when it fails.
\<close>

definition op_inside :: "publish_op \<Rightarrow> bool" where
  "op_inside op \<longleftrightarrow> (case po_target op of
       None \<Rightarrow> True
     | Some t \<Rightarrow> stripped_parts t \<noteq> [] \<and> ''..'' \<notin> set (stripped_parts t) \<and> hd (stripped_parts t) \<noteq> HISTORY_DIR)
     \<and> (case po_draft op of None \<Rightarrow> True | Some s \<Rightarrow> ''..'' \<notin> set (stripped_parts s))"

lemma not_climbing: "''..'' \<notin> set p \<Longrightarrow> \<not> climbs p"
  unfolding climbs_def by (metis last_in_set)

lemma is_dir_path_plain: "\<not> climbs p \<Longrightarrow> is_dir_path t p = is_dir_at t p"
  by (simp add: is_dir_path_def)

lemma copy_publish_ok:
  assumes "copy_publish_path draft s p r = (failed, r')" and "tree_ok (pr_tree r)" and "tree_ok draft"
    and "p \<noteq> []" and "''..'' \<notin> set p" and "\<not> climbs s"
  shows "tree_ok (pr_tree r') \<and> pr_history r' = pr_history r"
proof (cases "make_dirs [] (butlast p) (pr_tree r)")
  case (Inr t)
  from make_dirs_ok [OF Inr assms(2)] have ok: "tree_ok t" "is_dir_at t (butlast p)" by (simp_all add: is_dir_at_def)
  note plain = not_climbing [OF assms(5)] is_dir_path_plain [OF assms(6)]
  show ?thesis
  proof (cases "is_dir_at draft s")
    case True
    then show ?thesis
      using assms(1,4) Inr plain tree_ok_graft [OF ok(1) assms(3) True assms(4) ok(2)] by (auto simp: copy_publish_path_def)
  next
    case False
    then show ?thesis
      using assms(1) Inr plain ok tree_ok_copy2 [OF _ ok(1) assms(4) ok(2)]
      by (auto simp: copy_publish_path_def split: option.splits sum.splits)
  qed
qed (use assms in \<open>simp add: copy_publish_path_def\<close>)

lemma delete_publish_inside:
  assumes "p \<noteq> []" and "''..'' \<notin> set p" and "hd p \<noteq> HISTORY_DIR"
  shows "delete_publish_path p r
    = (None, r\<lparr>pr_tree := (if node_at (pr_tree r) p \<noteq> None then tree_remove p (pr_tree r) else pr_tree r)\<rparr>)"
  using assms by (cases r) (auto simp: delete_publish_path_def not_climbing)

lemma apply_op_ok:
  assumes "apply_op draft op r = (failed, r')" and "tree_ok (pr_tree r)" and "tree_ok draft" and "op_inside op"
  shows "tree_ok (pr_tree r') \<and> pr_history r' = pr_history r"
  using assms unfolding apply_op_def op_inside_def
  by (auto simp: tree_ok_remove delete_publish_inside not_climbing split: op_kind.splits option.splits dest!: copy_publish_ok)

lemma apply_ops_ok:
  "apply_ops draft ops r applied = (failed, r', applied') \<Longrightarrow> tree_ok (pr_tree r) \<Longrightarrow> tree_ok draft \<Longrightarrow> list_all op_inside ops \<Longrightarrow>
   tree_ok (pr_tree r') \<and> pr_history r' = pr_history r"
proof (induction ops arbitrary: r applied)
  case (Cons op ops)
  obtain f r1 where r1: "apply_op draft op r = (f, r1)" by fastforce
  from apply_op_ok [OF this Cons.prems(2,3)] Cons.prems(4) have "tree_ok (pr_tree r1)" "pr_history r1 = pr_history r" by simp_all
  then show ?case using Cons.IH [of r1] Cons.prems r1 by (cases f) auto
qed simp

section \<open>Tidy paths\<close>

text \<open>Paths whose text the plan and the operations read back as they are.\<close>

definition tidy_path :: "path \<Rightarrow> bool" where
  "tidy_path p =
     (p \<noteq> [] \<and> list_all (\<lambda>w. clean_name w \<and> CHR 0x5C \<notin> set w) p \<and> \<not> py_space (hd (hd p)) \<and> \<not> py_space (last (last p)))"

lemma path_text_ends:
  assumes "p \<noteq> []" and "[] \<notin> set p"
  shows "path_text p \<noteq> [] \<and> hd (path_text p) = hd (hd p) \<and> last (path_text p) = last (last p)"
  using py_join_ends [OF assms, of "''/''"] by (simp add: path_text_def)

lemma tidy_text:
  assumes "tidy_path p"
  shows "path_parts (path_text p) = p" and "slashes (path_text p) = path_text p" and "py_rstrip (path_text p) = path_text p"
    and "py_strip (path_text p) = path_text p" and "path_text p \<noteq> []" and "hd (path_text p) \<noteq> CHR ''/''"
    and "py_split_on (CHR ''/'') (path_text p) = p" and "''..'' \<notin> set p"
proof -
  have p: "p \<noteq> []" "\<And>w. w \<in> set p \<Longrightarrow> clean_name w \<and> CHR 0x5C \<notin> set w"
    and ends: "\<not> py_space (hd (hd p))" "\<not> py_space (last (last p))"
    using assms by (auto simp: tidy_path_def list_all_iff)
  have "[] \<notin> set p" using p(2) by (auto simp: clean_name_def)
  note e = path_text_ends [OF p(1) this]
  show "path_text p \<noteq> []" using e by simp
  show split: "py_split_on (CHR ''/'') (path_text p) = p"
    unfolding path_text_def using p by (intro split_join) (auto simp: clean_name_def)
  have "filter (\<lambda>c. c \<noteq> [] \<and> c \<noteq> ''.'') p = p" using p(2) by (intro filter_True) (auto simp: clean_name_def)
  then show "path_parts (path_text p) = p" by (simp add: path_parts_def split)
  have "hd p \<in> set p" "hd p \<noteq> []" using p(1) \<open>[] \<notin> set p\<close> by (metis list.set_sel(1))+
  then show "hd (path_text p) \<noteq> CHR ''/''" 
    using p(2) [of "hd p"] hd_in_set [of "hd p"] e by (metis clean_name_def)
  show "''..'' \<notin> set p" using p(2) by (auto simp: clean_name_def)
  have "CHR 0x5C \<notin> set (py_join s p)" if "CHR 0x5C \<notin> set s" for s
    using p(2) that by (induction s p rule: py_join.induct) auto
  then have "CHR 0x5C \<notin> set (path_text p)" by (simp add: path_text_def)
  then show "slashes (path_text p) = path_text p" unfolding slashes_def by (induction "path_text p") (auto intro!: map_idI)
  show "py_rstrip (path_text p) = path_text p"
    unfolding py_rstrip_def using e ends by (subst dropWhile_fixed) (simp_all add: hd_rev)
  show "py_strip (path_text p) = path_text p"
  proof -
    have "dropWhile py_space (path_text p) = path_text p" "dropWhile py_space (rev (path_text p)) = rev (path_text p)"
      using e ends by (intro dropWhile_fixed; simp add: hd_rev)+
    then show ?thesis by (simp add: py_strip_def)
  qed
qed

lemma tidy_simps [simp]:
  assumes "tidy_path p"
  shows "plan_path p = Some p" and "stripped_parts p = p" and "''..'' \<notin> set p" and "clean_path p = Some p" and "p \<noteq> []"
  using tidy_text [OF assms] assms
  by (simp_all add: plan_path_def stripped_parts_def clean_path_def Let_def) (simp add: tidy_path_def)

lemma tidy_not_climbing [simp]: "tidy_path p \<Longrightarrow> \<not> climbs p"
  by (simp add: not_climbing)

section \<open>Rollback\<close>

lemma apply_op_history:
  assumes "op_inside op"
  shows "apply_op draft op (r\<lparr>pr_history := h\<rparr>) = map_prod id (\<lambda>r. r\<lparr>pr_history := h\<rparr>) (apply_op draft op r)"
proof -
  have "copy_publish_path draft s p (r\<lparr>pr_history := h\<rparr>) = map_prod id (\<lambda>r. r\<lparr>pr_history := h\<rparr>) (copy_publish_path draft s p r)"
    if "p \<noteq> []" "''..'' \<notin> set p" for s p
    using that unfolding copy_publish_path_def by (auto simp: not_climbing split: sum.splits option.splits)
  then show ?thesis
    using assms unfolding apply_op_def op_inside_def
    by (auto simp: delete_publish_inside split: op_kind.splits option.splits)
qed

lemma apply_ops_history:
  assumes "list_all op_inside ops"
  shows "apply_ops draft ops (r\<lparr>pr_history := h\<rparr>) applied
    = (let (failed, r', applied') = apply_ops draft ops r applied in (failed, r'\<lparr>pr_history := h\<rparr>, applied'))"
  using assms
proof (induction ops arbitrary: r applied)
  case (Cons op ops)
  obtain f r1 where "apply_op draft op r = (f, r1)" by fastforce
  then show ?case using Cons by (cases f) (simp_all add: apply_op_history)
qed simp

text \<open>
  C35: when applying the operations fails at any point, whichever they are as long as every target, stripped as
  the operations strip it, is a path strictly inside the root without parent components and outside the history
  directory (and no draft path has a parent component), publishing returns a blocked result with the error and the
  operations applied before it, every visible file of the root is as before, and the captured version stays in the
  history. The result says that it was rolled back, unless bringing the draft up to date fails on the restored root.
\<close>
theorem failed_publish_restores_root:
  assumes "tree_ok (pr_tree r)" and "names_ok (pr_tree r)" and "distinct (map rv_id (pr_history r))" and "tree_ok (dr_tree d)"
    and "list_all op_inside ops" and "\<forall>m. set (order m) = fst ` set m"
    and "fst (apply_ops (dr_tree d) ops r []) = Some e"
  shows "\<exists>res v r' d'. publish_local_group sha order now later sync_after ops r d = (Inr res, r', d')
    \<and> pu_status res = PublishBlocked \<and> pu_error res = Some e \<and> pu_operations res = snd (snd (apply_ops (dr_tree d) ops r []))
    \<and> pu_reasons res = [if fst (settle_draft sha sync_after (pr_tree r') (pu_operations res) d) = None
         then PublishFailedRolledBack else PublishFailedRollbackFailed]
    \<and> (\<forall>p. \<not> version_hidden p \<longrightarrow> file_at (pr_tree r') p = file_at (pr_tree r) p)
    \<and> pr_history r' = pr_history r @ [v] \<and> archived sha (pr_tree r) v"
proof -
  from capture_archives [OF assms(1,2)] obtain v
    where v: "capture_project_root_version sha now ''before-draft-publish'' r = Inr (v, r\<lparr>pr_history := pr_history r @ [v]\<rparr>)"
      "rv_id v \<notin> rv_id ` set (pr_history r)" "archived sha (pr_tree r) v" by blast
  obtain r2 applied where ops: "apply_ops (dr_tree d) ops r [] = (Some e, r2, applied)" using assms(7) by (metis prod.exhaust fst_conv)
  define r3 where "r3 = r2\<lparr>pr_history := pr_history r @ [v]\<rparr>"
  have run: "apply_ops (dr_tree d) ops (r\<lparr>pr_history := pr_history r @ [v]\<rparr>) [] = (Some e, r3, applied)"
    by (simp add: apply_ops_history [OF assms(5)] ops r3_def)
  have "tree_ok (pr_tree r2)" using apply_ops_ok [OF ops assms(1,4,5)] by simp
  then have "v \<in> set (pr_history r3)" "distinct (map rv_id (pr_history r3))" "tree_ok (pr_tree r3)"
    using v(2) assms(3) by (simp_all add: r3_def)
  from restore_archived [OF assms(1,2) v(3) this assms(6)] obtain t'
    where t': "restore_project_root_version sha order (rv_id v) r3 = (Inr v, r3\<lparr>pr_tree := t'\<rparr>)"
      "\<forall>p. \<not> version_hidden p \<longrightarrow> file_at t' p = file_at (pr_tree r) p" by blast
  obtain failed d' where s: "settle_draft sha sync_after (pr_tree (r3\<lparr>pr_tree := t'\<rparr>)) applied d = (failed, d')" by fastforce
  have "pr_history (r3\<lparr>pr_tree := t'\<rparr>) = pr_history r @ [v]" by (simp add: r3_def)
  note s' = s [simplified]
  with \<open>pr_history (r3\<lparr>pr_tree := t'\<rparr>) = pr_history r @ [v]\<close> t'(2) v(3) show ?thesis
    unfolding publish_local_group_def v(1) sum.case prod.case run option.case t'(1) Let_def s by (simp add: ops s')
qed

definition ex_publish_root :: project_root where
  "ex_publish_root = \<lparr>pr_tree = [([''a''], FileNode ''one''), ([''b''], FileNode ''two'')], pr_history = []\<rparr>"

definition ex_publish_draft :: draft where
  "ex_publish_draft = \<lparr>dr_tree = [([''a''], FileNode ''edit''), ([''n''], DirNode), ([''n'', ''c''], FileNode ''new'')],
     dr_base = [], dr_base_files = [], dr_checkpoints = []\<rparr>"

lemma ex_publish_ok:
  "tree_ok (pr_tree ex_publish_root)" "names_ok (pr_tree ex_publish_root)" "tree_ok (dr_tree ex_publish_draft)"
  by code_simp+

lemma ex_publish_draft_ok: "draft_ok ex_sha ex_publish_draft"
proof -
  have "file_at [] p = None" for p by (simp add: file_at_def node_at_def)
  moreover have "tree_ok (dr_tree ex_publish_draft)" by code_simp
  ultimately show ?thesis by (simp add: draft_ok_def ex_publish_draft_def)
qed

lemma failed_publish_restores_root_witness:
  "\<exists>res r' d'. publish_local_group ex_sha (map fst) 0 1 True
      [\<lparr>po_kind = DeleteOp, po_path = [''a''], po_draft = Some [''a''], po_target = Some [''a'']\<rparr>,
       \<lparr>po_kind = CreateOp, po_path = [''z''], po_draft = Some [''z''], po_target = Some [''z'']\<rparr>]
      ex_publish_root ex_publish_draft = (Inr res, r', d')
    \<and> pu_status res = PublishBlocked \<and> file_at (pr_tree r') [''a''] = Some ''one''"
proof -
  let ?ops = "[\<lparr>po_kind = DeleteOp, po_path = [''a''], po_draft = Some [''a''], po_target = Some [''a'']\<rparr>,
       \<lparr>po_kind = CreateOp, po_path = [''z''], po_draft = Some [''z''], po_target = Some [''z'']\<rparr>]"
  have d: "distinct (map rv_id (pr_history ex_publish_root))" by (simp add: ex_publish_root_def)
  have o: "\<forall>m :: manifest. set (map fst m) = fst ` set m" by simp
  have ops: "list_all op_inside ?ops"
    "fst (apply_ops (dr_tree ex_publish_draft) ?ops ex_publish_root []) = Some (OSError ''FileNotFoundError'')" by code_simp+
  have "\<not> version_hidden [''a'']" "file_at (pr_tree ex_publish_root) [''a''] = Some ''one''" by code_simp+
  with failed_publish_restores_root [OF ex_publish_ok(1,2) d ex_publish_ok(3) ops(1) o ops(2), of ex_sha 0 1 True]
  show ?thesis by metis
qed

section \<open>Publishing\<close>

lemma clash_freeI:
  assumes "tree_ok a" and "tree_ok b"
    and "\<And>p q. file_at a p \<noteq> None \<Longrightarrow> file_at b q \<noteq> None \<Longrightarrow> prefix p q \<or> prefix q p \<Longrightarrow> p = q"
  shows "clash_free a b"
proof -
  have "file_at t p \<noteq> None" if "tree_ok t" "(p, n) \<in> set t" "n \<noteq> DirNode" for t :: tree and p n
  proof -
    have "p \<noteq> []" using that(1,2) by (force simp: tree_ok_def)
    then have "node_at t p = Some n" using node_in [OF that(1)] that(2) by blast
    then show ?thesis using that(3) by (cases n) (simp_all add: file_at_def)
  qed
  then show ?thesis using assms unfolding clash_free_def by blast
qed

lemma make_dirs_new:
  "make_dirs pre cs t = Inr t' \<Longrightarrow> is_dir_at t' q \<Longrightarrow> is_dir_at t q \<or> prefix q (pre @ cs)"
proof (induction pre cs t rule: make_dirs.induct)
  case (2 pre c cs t)
  show ?case
  proof (cases "node_at t (pre @ [c])")
    case None
    then have "is_dir_at (tree_put (pre @ [c]) DirNode t) q \<or> prefix q ((pre @ [c]) @ cs)"
      using 2(1) [OF None] 2(3,4) by simp
    then show ?thesis by (auto simp: is_dir_at_def split: if_splits)
  next
    case (Some n)
    then have n: "n = DirNode" using 2(3) by (cases n) simp_all
    show ?thesis using 2(2) [OF Some n] 2(3,4) Some n by simp
  qed
qed simp

lemma publish_copy_step:
  assumes "tree_ok (pr_tree r)" and "p \<noteq> []" and "\<not> climbs p" and "file_at draft p = Some c" and "\<not> is_dir_at (pr_tree r) p"
    and "\<And>q. strict_prefix q p \<Longrightarrow> file_at (pr_tree r) q = None"
  shows "\<exists>t'. copy_publish_path draft p p r = (None, r\<lparr>pr_tree := t'\<rparr>) \<and> tree_ok t'
    \<and> (\<forall>q. file_at t' q = (if q = p then Some c else file_at (pr_tree r) q))
    \<and> (\<forall>q. is_dir_at t' q \<longrightarrow> is_dir_at (pr_tree r) q \<or> strict_prefix q p)"
proof -
  obtain t where t: "make_dirs [] (butlast p) (pr_tree r) = Inr t"
    using copy_file_succeeds [of p "pr_tree r" c] assms(6) by (auto simp: copy_file_def rbind_Inr_iff)
  note ok = make_dirs_ok [OF t assms(1)] and files = make_dirs_file [OF t]
  have sp: "strict_prefix (butlast p) p" by (rule strict_prefixI' [of _ _ "last p" "[]"]) (use assms(2) in simp)
  have new: "is_dir_at t q \<Longrightarrow> is_dir_at (pr_tree r) q \<or> strict_prefix q p" for q
    using make_dirs_new [OF t, of q] sp by (auto intro: prefix_order.le_less_trans)
  have nd: "\<not> is_dir_at t p" using new [of p] assms(5) by auto
  have s: "\<not> is_dir_at draft p" using assms(4) by (auto simp: is_dir_at_def file_at_def)
  have "tree_ok (tree_put p (FileNode c) t)" using ok assms(2) nd by (intro tree_ok_put) (simp_all add: is_dir_at_def)
  moreover have "copy_publish_path draft p p r = (None, r\<lparr>pr_tree := tree_put p (FileNode c) t\<rparr>)"
    using t s nd assms(3,4) by (simp add: copy_publish_path_def copy2_def Let_def is_dir_path_plain)
  moreover have "file_at (tree_put p (FileNode c) t) q = (if q = p then Some c else file_at (pr_tree r) q)" for q
    using assms(2) files by simp
  moreover have "is_dir_at (tree_put p (FileNode c) t) q \<Longrightarrow> is_dir_at (pr_tree r) q \<or> strict_prefix q p" for q
    using new [of q] assms(2) by (auto simp: is_dir_at_def split: if_splits)
  ultimately show ?thesis by blast
qed

lemma publish_delete_step:
  assumes "tree_ok (pr_tree r)" and "p \<noteq> []" and "\<not> climbs p" and "p \<noteq> [HISTORY_DIR]" and "\<not> is_dir_at (pr_tree r) p"
  shows "\<exists>t'. delete_publish_path p r = (None, r\<lparr>pr_tree := t'\<rparr>) \<and> tree_ok t'
    \<and> (\<forall>q. file_at t' q = (if q = p then None else file_at (pr_tree r) q))
    \<and> (\<forall>q. is_dir_at t' q \<longrightarrow> is_dir_at (pr_tree r) q)"
proof -
  define t' where "t' = (if node_at (pr_tree r) p \<noteq> None then tree_remove p (pr_tree r) else pr_tree r)"
  have "node_at (pr_tree r) q = None" if "prefix p q" "q \<noteq> p" for q
    using that assms(5) ancestor_dir [OF assms(1), of p] by (auto simp: prefix_def)
  then have "file_at t' q = (if q = p then None else file_at (pr_tree r) q)" for q
    using assms(2) by (auto simp: t'_def file_at_def split: option.splits)
  moreover have "is_dir_at t' q \<Longrightarrow> is_dir_at (pr_tree r) q" for q
    using assms(2) by (auto simp: t'_def is_dir_at_def split: if_splits)
  moreover have "tree_ok t'" using assms(1,2) by (simp add: t'_def tree_ok_remove)
  moreover have "delete_publish_path p r = (None, r\<lparr>pr_tree := t'\<rparr>)" using assms(2-4) by (cases r) (simp add: delete_publish_path_def t'_def)
  ultimately show ?thesis by blast
qed

text \<open>The trees the operations of a plan lead through.\<close>

definition between :: "tree \<Rightarrow> tree \<Rightarrow> tree \<Rightarrow> bool" where
  "between root draft t =
     (tree_ok t \<and> (\<forall>q. is_dir_at t q \<longrightarrow> is_dir_at root q \<or> (\<exists>s. file_at draft s \<noteq> None \<and> strict_prefix q s))
      \<and> (\<forall>q. file_at t q \<noteq> None \<longrightarrow> file_at root q \<noteq> None \<or> file_at draft q \<noteq> None))"

definition op_fits :: "tree \<Rightarrow> tree \<Rightarrow> publish_op \<Rightarrow> bool" where
  "op_fits root draft op =
     (tidy_path (po_path op) \<and> \<not> draft_hidden (po_path op) \<and> po_draft op = Some (po_path op) \<and> po_target op = Some (po_path op)
      \<and> (case po_kind op of
           ResolveConflict \<Rightarrow> False
         | DeleteOp \<Rightarrow> file_at draft (po_path op) = None \<and> file_at root (po_path op) \<noteq> None
         | _ \<Rightarrow> file_at draft (po_path op) \<noteq> None \<and> \<not> is_dir_at root (po_path op)))"

lemma apply_op_fits:
  assumes ok: "tree_ok root" "tree_ok draft" "clash_free root draft" and b: "between root draft (pr_tree r)" and op: "op_fits root draft op"
  shows "\<exists>t'. apply_op draft op r = (None, r\<lparr>pr_tree := t'\<rparr>) \<and> between root draft t'
    \<and> (\<forall>q. file_at t' q = (if q = po_path op then file_at draft q else file_at (pr_tree r) q))"
proof -
  let ?p = "po_path op"
  have p: "tidy_path ?p" "po_draft op = Some ?p" "po_target op = Some ?p" using op by (simp_all add: op_fits_def)
  have outside: "?p \<noteq> [HISTORY_DIR]"
    using op by (auto simp: op_fits_def draft_hidden_def IGNORED_DRAFT_DIRS_def HISTORY_DIR_def)
  have t: "tree_ok (pr_tree r)"
    and dirs: "\<And>q. is_dir_at (pr_tree r) q \<Longrightarrow> is_dir_at root q \<or> (\<exists>s. file_at draft s \<noteq> None \<and> strict_prefix q s)"
    and files: "\<And>q. file_at (pr_tree r) q \<noteq> None \<Longrightarrow> file_at root q \<noteq> None \<or> file_at draft q \<noteq> None"
    using b unfolding between_def by blast+
  have not_root_dir: "\<not> is_dir_at root ?p" and here: "file_at draft ?p \<noteq> None \<or> file_at root ?p \<noteq> None"
    using op by (cases "po_kind op"; auto simp: op_fits_def is_dir_at_def file_at_def)+
  have apart: "q = ?p" if "file_at root q \<noteq> None \<or> file_at draft q \<noteq> None" "prefix ?p q \<or> prefix q ?p" for q
    using here that files_incomparable [OF ok(1)] files_incomparable [OF ok(2)] clash_freeD [OF ok(3,1,2)]
    by (metis option.exhaust)
  have nd: "\<not> is_dir_at (pr_tree r) ?p" using dirs [of ?p] not_root_dir apart by (metis strict_prefix_def)
  show ?thesis
  proof (cases "file_at draft ?p")
    case None
    then have kind: "po_kind op = DeleteOp" using op by (cases "po_kind op") (simp_all add: op_fits_def)
    from publish_delete_step [OF t tidy_simps(5) [OF p(1)] tidy_not_climbing [OF p(1)] outside nd] obtain t' where t': "delete_publish_path ?p r = (None, r\<lparr>pr_tree := t'\<rparr>)"
      "tree_ok t'" "\<And>q. file_at t' q = (if q = ?p then None else file_at (pr_tree r) q)" "\<And>q. is_dir_at t' q \<Longrightarrow> is_dir_at (pr_tree r) q"
      by blast
    have "between root draft t'" unfolding between_def using t'(2-4) dirs files by (auto split: if_splits)
    then show ?thesis using t'(1,3) kind p None by (intro exI [of _ t']) (simp add: apply_op_def)
  next
    case (Some c)
    then have kind: "po_kind op = UpdateOp \<or> po_kind op = CreateOp" using op by (cases "po_kind op") (simp_all add: op_fits_def)
    have "file_at (pr_tree r) q = None" if "strict_prefix q ?p" for q
    proof (rule ccontr)
      assume "file_at (pr_tree r) q \<noteq> None"
      then have "q = ?p" using files apart that by (auto simp: strict_prefix_def)
      then show False using that by simp
    qed
    from publish_copy_step [OF t tidy_simps(5) [OF p(1)] tidy_not_climbing [OF p(1)] Some nd this] obtain t'
      where t': "copy_publish_path draft ?p ?p r = (None, r\<lparr>pr_tree := t'\<rparr>)" "tree_ok t'"
      "\<And>q. file_at t' q = (if q = ?p then Some c else file_at (pr_tree r) q)"
      "\<And>q. is_dir_at t' q \<Longrightarrow> is_dir_at (pr_tree r) q \<or> strict_prefix q ?p" by blast
    have "is_dir_at root q \<or> (\<exists>s. file_at draft s \<noteq> None \<and> strict_prefix q s)" if "is_dir_at t' q" for q
      using t'(4) [OF that] dirs Some by blast
    moreover have "file_at t' q \<noteq> None \<Longrightarrow> file_at root q \<noteq> None \<or> file_at draft q \<noteq> None" for q
      using t'(3) [of q] files [of q] Some by (cases "q = ?p") simp_all
    ultimately have "between root draft t'" using t'(2) unfolding between_def by blast
    moreover have "apply_op draft op r = (None, r\<lparr>pr_tree := t'\<rparr>)" using kind t'(1) p by (auto simp: apply_op_def)
    ultimately show ?thesis using t'(3) Some by (intro exI [of _ t']) simp
  qed
qed

lemma apply_ops_fit:
  assumes ok: "tree_ok root" "tree_ok draft" "clash_free root draft"
  shows "between root draft (pr_tree r) \<Longrightarrow> list_all (op_fits root draft) ops \<Longrightarrow>
    \<exists>t'. apply_ops draft ops r applied = (None, r\<lparr>pr_tree := t'\<rparr>, applied @ ops) \<and> between root draft t'
    \<and> (\<forall>q. file_at t' q = (if q \<in> po_path ` set ops then file_at draft q else file_at (pr_tree r) q))"
proof (induction ops arbitrary: r applied)
  case Nil
  then show ?case by (intro exI [of _ "pr_tree r"]) simp
next
  case (Cons op ops)
  obtain t1 where t1: "apply_op draft op r = (None, r\<lparr>pr_tree := t1\<rparr>)" "between root draft t1"
    "\<And>q. file_at t1 q = (if q = po_path op then file_at draft q else file_at (pr_tree r) q)"
    using apply_op_fits [OF ok Cons.prems(1), of op] Cons.prems(2) by auto
  obtain t' where t': "apply_ops draft ops (r\<lparr>pr_tree := t1\<rparr>) (applied @ [op]) = (None, r\<lparr>pr_tree := t1, pr_tree := t'\<rparr>, (applied @ [op]) @ ops)"
    "between root draft t'" "\<And>q. file_at t' q = (if q \<in> po_path ` set ops then file_at draft q else file_at t1 q)"
    using Cons.IH [of "r\<lparr>pr_tree := t1\<rparr>" "applied @ [op]"] t1(2) Cons.prems(2) by auto
  then show ?case using t1 by (intro exI [of _ t']) simp
qed

text \<open>Root and draft trees a plan without conflicts can be published on.\<close>

definition tidy_tree :: "tree \<Rightarrow> bool" where
  "tidy_tree t = list_all (\<lambda>(p, n). list_all clean_name p \<and> (n \<noteq> DirNode \<longrightarrow> tidy_path p)) t"

definition publishable :: "tree \<Rightarrow> tree \<Rightarrow> bool" where
  "publishable root draft =
     (tree_ok root \<and> tree_ok draft \<and> tidy_tree root \<and> tidy_tree draft \<and> clash_free root draft
      \<and> list_all (\<lambda>(p, n). n \<noteq> DirNode \<longrightarrow> \<not> is_dir_at root p) draft)"

lemma tidy_file:
  assumes "tree_ok t" and "tidy_tree t" and "file_at t p \<noteq> None"
  shows "tidy_path p"
proof -
  obtain c where "node_at t p = Some (FileNode c)" using assms(3) by (auto simp: file_at_Some)
  moreover then have "p \<noteq> []" by auto
  ultimately have "(p, FileNode c) \<in> set t" using node_in [OF assms(1)] by blast
  then show ?thesis using assms(2) by (auto simp: tidy_tree_def list_all_iff)
qed

lemma tidy_clean: "tidy_path p \<Longrightarrow> list_all clean_name p"
  by (auto simp: tidy_path_def list_all_iff)

lemma names_ok_between:
  assumes "publishable root draft" and "between root draft t"
  shows "names_ok t"
  unfolding names_ok_def list_all_iff
proof (intro ballI, clarify)
  fix p n w assume n: "(p, n) \<in> set t" and w: "w \<in> set p"
  have ok: "tree_ok root" "tree_ok draft" "tidy_tree root" "tidy_tree draft" "tree_ok t"
    using assms by (auto simp: publishable_def between_def)
  have "p \<noteq> []" using n ok(5) by (force simp: tree_ok_def)
  then have at: "node_at t p = Some n" using n node_in [OF ok(5)] by blast
  have dir: "list_all clean_name p" if "is_dir_at root p"
  proof -
    have "(p, DirNode) \<in> set root" using that \<open>p \<noteq> []\<close> node_in [OF ok(1)] by (simp add: is_dir_at_def)
    then show ?thesis using ok(3) by (auto simp: tidy_tree_def list_all_iff)
  qed
  have "list_all clean_name p"
  proof (cases n)
    case DirNode
    then consider "is_dir_at root p" | s where "file_at draft s \<noteq> None" "strict_prefix p s"
      using at assms(2) DirNode unfolding between_def is_dir_at_def by blast
    then show ?thesis
    proof cases
      case 2
      then have "list_all clean_name s" using tidy_file [OF ok(2,4)] tidy_clean by blast
      then show ?thesis using 2(2) by (auto simp: strict_prefix_def prefix_def)
    qed (use dir in blast)
  next
    case (FileNode c)
    then have "file_at root p \<noteq> None \<or> file_at draft p \<noteq> None" using at assms(2) by (auto simp: between_def file_at_Some)
    then show ?thesis using tidy_file ok tidy_clean by blast
  qed
  then show "clean_name w" using w by (simp add: list_all_iff)
qed

lemma set_limited:
  assumes "length ps \<le> PROJECT_DRAFT_CHANGE_LIMIT"
  shows "set (limited_unique_paths ps) = set ps - {[]}"
proof -
  have "length (sorted_paths (filter (\<lambda>p. p \<noteq> []) ps)) \<le> length ps"
    using length_remdups_leq [of "filter (\<lambda>p. p \<noteq> []) ps"] length_filter_le [of "\<lambda>p. p \<noteq> []" ps]
    unfolding sorted_paths_def length_sort by (rule le_trans)
  then have "limited_unique_paths ps = sorted_paths (filter (\<lambda>p. p \<noteq> []) ps)"
    using assms by (simp add: limited_unique_paths_def)
  then show ?thesis by auto
qed

definition within_limit :: "publish_plan \<Rightarrow> bool" where
  "within_limit plan =
     (length (pp_created plan) \<le> PROJECT_DRAFT_CHANGE_LIMIT \<and> length (pp_modified plan) \<le> PROJECT_DRAFT_CHANGE_LIMIT
      \<and> length (pp_deleted plan) \<le> PROJECT_DRAFT_CHANGE_LIMIT \<and> length (pp_conflicted plan) \<le> PROJECT_DRAFT_CHANGE_LIMIT)"

lemma planned_op_fits:
  fixes sha :: "string \<Rightarrow> string"
  defines "entry \<equiv> \<lambda>t. map_of (build_file_manifest sha t)"
  assumes pub: "publishable root (dr_tree d)" and d: "draft_ok sha d"
    and quiet: "pp_conflicted (plan_draft_publish sha root d None True) = []"
    and op: "op \<in> set (publish_operations (draft_publish_change_set sha root d True))"
  shows "op_fits root (dr_tree d) op"
    and "entry (dr_tree d) (po_path op) \<notin> {map_of (plan_base sha root d) (po_path op), entry root (po_path op)}"
proof -
  define plan where "plan = plan_draft_publish sha root d None True"
  define p where "p = po_path op"
  have ok: "tree_ok root" "tree_ok (dr_tree d)" "tidy_tree root" "tidy_tree (dr_tree d)" using pub by (simp_all add: publishable_def)
  have noc: "planned_change sha root d True q \<noteq> Conflicted" for q using plan_lists(4) [of q sha root d True] quiet by simp
  note cases = planned_change_cases [OF noc]
  have R: "entry root q = (if draft_hidden q then None else map_option (manifest_entry sha) (file_at root q))"
    and D: "entry (dr_tree d) q = (if draft_hidden q then None else map_option (manifest_entry sha) (file_at (dr_tree d) q))" for q
    using ok by (simp_all add: entry_def)
  have listed: "q \<in> set qs" if "q \<in> set (limited_unique_paths qs)" for q qs
    using in_set_takeD [OF that [unfolded limited_unique_paths_def]] by simp
  have none: "limited_unique_paths [] = []" by (simp add: limited_unique_paths_def sorted_paths_def)
  have kinds: "po_draft op = plan_path p \<and> po_target op = plan_path p
      \<and> (po_kind op = DeleteOp \<and> p \<in> set (pp_deleted plan)
         \<or> po_kind op \<in> {UpdateOp, CreateOp} \<and> p \<in> set (pp_created plan) \<union> set (pp_modified plan))"
    using op quiet unfolding p_def plan_def publish_operations_def draft_publish_change_set_def Let_def
    by (auto simp: none dest: listed)
  have change: "entry (dr_tree d) p \<notin> {map_of (plan_base sha root d) p, entry root p}
      \<and> (entry (dr_tree d) p = None \<longleftrightarrow> po_kind op = DeleteOp) \<and> po_kind op \<noteq> ResolveConflict"
    using kinds cases [of p] unfolding plan_def plan_lists entry_def Un_iff by auto
  then show "entry (dr_tree d) (po_path op) \<notin> {map_of (plan_base sha root d) (po_path op), entry root (po_path op)}"
    unfolding p_def by blast
  have visible: "\<not> draft_hidden p" using change R D by auto
  have not_dir: "\<not> is_dir_at root p" if here: "file_at (dr_tree d) p \<noteq> None"
  proof -
    obtain c where c: "node_at (dr_tree d) p = Some (FileNode c)" using here by (auto simp: file_at_Some)
    then have "p \<noteq> []" by auto
    then have "(p, FileNode c) \<in> set (dr_tree d)" using c node_in [OF ok(2)] by blast
    then show ?thesis using pub by (auto simp: publishable_def list_all_iff)
  qed
  have there: "file_at (dr_tree d) p \<noteq> None \<longleftrightarrow> po_kind op \<noteq> DeleteOp"
    using change D [of p] visible by (cases "file_at (dr_tree d) p") auto
  have gone: "po_kind op = DeleteOp \<Longrightarrow> file_at root p \<noteq> None"
    using change R [of p] visible by (cases "file_at root p") auto
  have "tidy_path p" using tidy_file ok there gone by blast
  then show "op_fits root (dr_tree d) op"
    using kinds visible there gone not_dir change unfolding op_fits_def p_def [symmetric] by (cases "po_kind op") auto
qed

text \<open>Publishing selected paths brings base and snapshots up to date for these only.\<close>

lemma refresh_snapshots:
  assumes "tree_ok root"
  shows "tree_ok t \<Longrightarrow> (\<And>q. file_at t q \<noteq> None \<Longrightarrow> file_at s0 q \<noteq> None \<or> file_at root q \<noteq> None)
    \<Longrightarrow> (\<And>p q. p \<in> set ps \<Longrightarrow> file_at root p \<noteq> None \<Longrightarrow> file_at s0 q \<noteq> None \<Longrightarrow> \<not> strict_prefix q p)
    \<Longrightarrow> [] \<notin> set ps \<Longrightarrow> \<exists>t'. sync_base_snapshots root (build_file_manifest sha root) [] ps t = (None, t')"
proof (induction ps arbitrary: t)
  case (Cons p ps)
  have p: "p \<noteq> []" using Cons.prems(4) by auto
  have IH: "\<exists>t'. sync_base_snapshots root (build_file_manifest sha root) [] ps u = (None, t')"
    if "tree_ok u" "\<And>q. file_at u q \<noteq> None \<Longrightarrow> file_at t q \<noteq> None \<or> file_at root q \<noteq> None" for u
    using that Cons.prems(2-4) by (intro Cons.IH) auto
  show ?case
  proof (cases "map_of (build_file_manifest sha root) p")
    case None
    have "\<exists>t'. sync_base_snapshots root (build_file_manifest sha root) [] ps (prune_empty_parents p (tree_remove p t)) = (None, t')"
      using Cons.prems(1) p by (intro IH) (auto simp: prune_ok tree_ok_remove split: if_splits)
    then show ?thesis using None by simp
  next
    case (Some e)
    then obtain c where c: "file_at root p = Some c" using assms by (auto split: if_splits)
    have "file_at t q = None" if "strict_prefix q p" for q
    proof (rule ccontr)
      assume "file_at t q \<noteq> None"
      then consider "file_at s0 q \<noteq> None" | "file_at root q \<noteq> None" using Cons.prems(2) by blast
      then show False
      proof cases
        case 2
        then show False using files_incomparable [OF assms _ c, of q] that by (auto simp: strict_prefix_def)
      qed (use Cons.prems(3) [of p q] c that in simp)
    qed
    then obtain u where u: "copy_file p c t = Inr u" using copy_file_succeeds by blast
    have "\<exists>t'. sync_base_snapshots root (build_file_manifest sha root) [] ps u = (None, t')"
      using c by (intro IH) (auto simp: copy_file_ok [OF u p Cons.prems(1)] copy_file_file [OF u p] split: if_splits)
    then show ?thesis using Some c u by (simp add: copy_from_def)
  qed
qed simp

lemma distinct_manifest: "tree_ok t \<Longrightarrow> distinct (map fst (build_file_manifest sha t))"
  unfolding build_file_manifest_def file_manifest_def distinct_map distinct_sort set_sort
  unfolding distinct_map [symmetric] tree_ok_def
  by (rule conjunct1 [OF distinct_map_filter_keys]) (auto split: node.splits if_splits)

lemma map_of_refreshed_base:
  "map_of (fold (\<lambda>p b. case m p of None \<Rightarrow> AList.delete p b | Some e \<Rightarrow> AList.update p e b) ps b) q
    = (if q \<in> set ps then m q else map_of b q)
   \<and> (distinct (map fst b) \<longrightarrow> distinct (map fst (fold (\<lambda>p b. case m p of None \<Rightarrow> AList.delete p b | Some e \<Rightarrow> AList.update p e b) ps b)))"
proof (induction ps arbitrary: b)
  case (Cons p ps)
  show ?case
    using Cons [of "case m p of None \<Rightarrow> AList.delete p b | Some e \<Rightarrow> AList.update p e b"]
    by (auto simp: delete_conv' update_conv' distinct_delete distinct_update split: option.splits)
qed simp

lemma fitting_keeps_root: "list_all (op_fits root draft) ops \<Longrightarrow> \<not> removes_root ops"
proof -
  assume "list_all (op_fits root draft) ops"
  then have "\<not> fold (\<lambda>op gone. po_kind op = DeleteOp \<and> (gone \<or> map_option stripped_parts (po_target op) = Some [])) ops False"
    by (induction ops) (auto simp: op_fits_def)
  then show ?thesis by (simp add: removes_root_def)
qed

text \<open>Applying operations of the plan, up to where the draft is brought up to date.\<close>

lemma publish_until_settling:
  fixes sha :: "string \<Rightarrow> string"
  assumes pub: "publishable (pr_tree r) (dr_tree d)" and d: "draft_ok sha d"
    and quiet: "pp_conflicted (plan_draft_publish sha (pr_tree r) d None True) = []"
    and ops: "set ops \<subseteq> set (publish_operations (draft_publish_change_set sha (pr_tree r) d True))"
  shows "\<exists>res r' t'. pu_status res = Published \<and> pu_operations res = ops \<and> pr_tree r' = t' \<and> between (pr_tree r) (dr_tree d) t'
    \<and> (\<forall>p. file_at t' p = file_at (if p \<in> po_path ` set ops then dr_tree d else pr_tree r) p)
    \<and> publish_local_group sha order now later sync_after ops r d = (case settle_draft sha sync_after t' ops d of
        (Some e, d') \<Rightarrow> (Inl e, r', d') | (None, d') \<Rightarrow> (Inr res, r', d'))"
proof -
  have ok: "tree_ok (pr_tree r)" "tree_ok (dr_tree d)" "clash_free (pr_tree r) (dr_tree d)" using pub by (simp_all add: publishable_def)
  have start: "between (pr_tree r) (dr_tree d) (pr_tree r)" using ok by (simp add: between_def)
  have fit: "list_all (op_fits (pr_tree r) (dr_tree d)) ops"
    using planned_op_fits(1) [OF pub d quiet] ops by (auto simp: list_all_iff)
  from capture_archives [OF ok(1) names_ok_between [OF pub start]] obtain v
    where v: "capture_project_root_version sha now ''before-draft-publish'' r = Inr (v, r\<lparr>pr_history := pr_history r @ [v]\<rparr>)"
    by blast
  define r1 where "r1 = r\<lparr>pr_history := pr_history r @ [v]\<rparr>"
  have "pr_tree r1 = pr_tree r" by (simp add: r1_def)
  with start have "between (pr_tree r) (dr_tree d) (pr_tree r1)" by simp
  from apply_ops_fit [OF ok this fit, of "[]"] obtain t' where run: "apply_ops (dr_tree d) ops r1 [] = (None, r1\<lparr>pr_tree := t'\<rparr>, ops)"
    and t': "between (pr_tree r) (dr_tree d) t'"
    and files: "\<And>q. file_at t' q = (if q \<in> po_path ` set ops then file_at (dr_tree d) q else file_at (pr_tree r) q)"
    by (auto simp: r1_def)
  define r2 where "r2 = r1\<lparr>pr_tree := t'\<rparr>"
  have r2: "pr_tree r2 = t'" by (simp add: r2_def)
  have "tree_ok t'" using t' by (simp add: between_def)
  with capture_archives [of r2] names_ok_between [OF pub t'] obtain w
    where w: "capture_project_root_version sha later ''after-draft-publish'' r2 = Inr (w, r2\<lparr>pr_history := pr_history r2 @ [w]\<rparr>)"
    unfolding r2 by blast
  define r3 where "r3 = r2\<lparr>pr_history := pr_history r2 @ [w]\<rparr>"
  have r3: "pr_tree r3 = t'" by (simp add: r3_def r2)
  define res where "res = \<lparr>pu_status = Published, pu_reasons = [], pu_operations = ops, pu_error = None,
               pu_before = Some v, pu_after = Some w\<rparr>"
  have "publish_local_group sha order now later sync_after ops r d = (case settle_draft sha sync_after t' ops d of
        (Some e, d') \<Rightarrow> (Inl e, r3, d') | (None, d') \<Rightarrow> (Inr res, r3, d'))"
    unfolding publish_local_group_def v sum.case prod.case r1_def [symmetric] run option.case r2_def [symmetric]
      if_not_P [OF fitting_keeps_root [OF fit]] w r3_def [symmetric] r3 res_def ..
  then show ?thesis using t' files r3 by (intro exI [of _ res] exI [of _ r3] exI [of _ t']) (simp add: res_def)
qed

text \<open>The paths the draft changed: neither as in the base nor as in the root.\<close>

definition draft_changed :: "(string \<Rightarrow> string) \<Rightarrow> tree \<Rightarrow> draft \<Rightarrow> path \<Rightarrow> bool" where
  "draft_changed sha root d p \<longleftrightarrow> map_of (build_file_manifest sha (dr_tree d)) p
     \<notin> {map_of (plan_base sha root d) p, map_of (build_file_manifest sha root) p}"

text \<open>The root \<open>t'\<close> took the files of some changed paths from the draft.\<close>

definition took_paths :: "(string \<Rightarrow> string) \<Rightarrow> tree \<Rightarrow> draft \<Rightarrow> path set \<Rightarrow> tree \<Rightarrow> bool" where
  "took_paths sha root d ps t' \<longleftrightarrow> tree_ok root \<and> tree_ok t' \<and> draft_ok sha d
     \<and> (\<forall>p. file_at t' p = file_at (if p \<in> ps then dr_tree d else root) p) \<and> (\<forall>p \<in> ps. draft_changed sha root d p)"

lemma took_entries:
  assumes "took_paths sha root d ps t'"
  shows "map_of (build_file_manifest sha t') p = map_of (build_file_manifest sha (if p \<in> ps then dr_tree d else root)) p"
  using assms by (simp add: took_paths_def draft_ok_def)

lemma map_of_kept: "map_of (filter (\<lambda>(p, _). P p) xs) p = (if P p then map_of xs p else None)"
  by (induction xs) auto

lemma settled_change:
  assumes "d = r" and "b = d"
  shows "classify_change allow ck b r d = Unchanged"
  using assms by (simp add: classify_change_def)

text \<open>A change that is no conflict is classified alike when the base follows the root, or is lost.\<close>

lemma classify_left:
  assumes "d \<noteq> b" and "d \<noteq> r" and "classify_change True ck b r d \<noteq> Conflicted"
    and "r = b \<Longrightarrow> b' = b" and "r \<noteq> b \<Longrightarrow> b' = b \<and> ck' = ck \<or> b = None \<and> b' = r"
  shows "classify_change True ck' b' r d = classify_change True ck b r d"
proof (cases "r = b")
  case True
  then show ?thesis using assms(1,4) by (simp add: classify_change_def entries_conflict_def)
next
  case False
  have "conflict_checkpoint_resolves ck r d True"
    using assms(1-3) False by (auto simp: classify_change_def entries_conflict_def split: if_splits)
  then show ?thesis using assms(1,2) assms(5) [OF False] False by (cases b) (auto simp: classify_change_def entries_conflict_def)
qed

text \<open>What synchronizing leaves of a plan: the changes that were not published.\<close>

lemma after_sync:
  fixes sha :: "string \<Rightarrow> string"
  defines "entry \<equiv> \<lambda>t. map_of (build_file_manifest sha t)"
  assumes took: "took_paths sha root d ps t'" and apart: "clash_free t' (dr_tree d)"
    and quiet: "\<And>p. planned_change sha root d True p \<noteq> Conflicted"
    and base: "dr_base d \<noteq> [] \<or> (\<forall>p. draft_changed sha root d p \<longrightarrow> p \<in> ps)"
  shows "\<exists>d'. settle_draft sha True t' ops d = (None, d')
    \<and> (\<forall>p. entry (dr_tree d') p = entry (if draft_changed sha root d p \<and> p \<notin> ps then dr_tree d else t') p)
    \<and> (\<forall>p. planned_change sha t' d' True p
         = (if draft_changed sha root d p \<and> p \<notin> ps then planned_change sha root d True p else Unchanged))"
proof -
  have ok: "tree_ok t'" "draft_ok sha d" "tree_ok (dr_tree d)" using took by (auto simp: took_paths_def draft_ok_def)
  from sync_merges [OF ok(1,2) apart] obtain res d' where s: "sync_draft_from_root sha t' None d = (Inr res, d')" "draft_ok sha d'"
    "\<And>p. file_at (dr_tree d') p = (if takes_root (dr_base d) (build_file_manifest sha t') (build_file_manifest sha (dr_tree d)) p
        then file_at t' p else file_at (dr_tree d) p)"
    "\<And>p. map_of (dr_base d') p = (if entries_conflict (map_of (dr_base d) p) (entry t' p) (entry (dr_tree d) p)
        then map_of (dr_base d) p else entry t' p)"
    "dr_checkpoints d' = filter (\<lambda>(p, _). entries_conflict (map_of (dr_base d) p) (entry t' p) (entry (dr_tree d) p)
          \<or> map_of (dr_base d) p = None \<and> entry t' p = None \<and> entry (dr_tree d') p = None) (dr_checkpoints d)"
    unfolding entry_def by blast
  have ok': "tree_ok (dr_tree d')" using s(2) by (simp add: draft_ok_def)
  have D': "entry (dr_tree d') p = (if entry (dr_tree d) p = map_of (dr_base d) p \<and> entry t' p \<noteq> entry (dr_tree d) p
      then entry t' p else entry (dr_tree d) p)" for p
    using s(3) [of p] ok' ok by (simp add: entry_def takes_root_def)
  define left where "left p \<longleftrightarrow> draft_changed sha root d p \<and> p \<notin> ps" for p
  have base_left: "dr_base d \<noteq> [] \<and> plan_base sha root d = dr_base d" if "left p" for p
    using base that by (auto simp: left_def plan_base_def)
  have R': "entry t' p = entry (if p \<in> ps then dr_tree d else root) p" for p
    using took_entries [OF took] by (simp add: entry_def)
  have in_root: "\<not> left p \<Longrightarrow> entry (dr_tree d) p = entry t' p \<or> entry (dr_tree d) p = map_of (dr_base d) p" for p
    using R' [of p] by (auto simp: left_def draft_changed_def plan_base_def entry_def split: if_splits)
  have keep: "entry (dr_tree d') p = entry (if left p then dr_tree d else t') p" for p
  proof (cases "left p")
    case True
    then have "entry (dr_tree d) p \<noteq> map_of (dr_base d) p" using base_left [OF True] by (simp add: left_def draft_changed_def entry_def)
    then show ?thesis using True D' by simp
  next
    case False
    then show ?thesis using in_root [OF False] D' by auto
  qed
  have "planned_change sha t' d' True p = (if left p then planned_change sha root d True p else Unchanged)" for p
  proof (cases "left p")
    case False
    have "map_of (dr_base d') p = entry t' p"
      using s(4) [of p] in_root [OF False] by (auto simp: entries_conflict_def)
    then have "map_of (plan_base sha t' d') p = entry t' p" by (simp add: plan_base_def entry_def)
    then show ?thesis using keep [of p] False by (simp add: planned_change_def settled_change entry_def)
  next
    case True
    let ?b = "map_of (dr_base d) p" and ?r = "entry root p" and ?d = "entry (dr_tree d) p" and ?ck = "map_of (dr_checkpoints d) p"
    note b = base_left [OF True]
    have r: "entry t' p = ?r" using R' [of p] True by (simp add: left_def)
    have change: "?d \<noteq> ?b" "?d \<noteq> ?r" using True b by (auto simp: left_def draft_changed_def entry_def)
    have old: "planned_change sha root d True p = classify_change True ?ck ?b ?r ?d"
      using b by (simp add: planned_change_def entry_def)
    have new: "planned_change sha t' d' True p = classify_change True (map_of (dr_checkpoints d') p) (map_of (plan_base sha t' d') p) ?r ?d"
      using keep [of p] True r by (simp add: planned_change_def entry_def)
    have noc: "classify_change True ?ck ?b ?r ?d \<noteq> Conflicted" using quiet [of p] old by simp
    have "map_of (plan_base sha t' d') p = ?b" if "?r = ?b"
      using that s(4) [of p] r change by (simp add: plan_base_def entries_conflict_def entry_def)
    moreover have "map_of (plan_base sha t' d') p = ?b \<and> map_of (dr_checkpoints d') p = ?ck
        \<or> ?b = None \<and> map_of (plan_base sha t' d') p = ?r" if "?r \<noteq> ?b"
    proof -
      have "entries_conflict ?b ?r ?d" using change that by (simp add: entries_conflict_def)
      then have "map_of (dr_base d') p = ?b" "map_of (dr_checkpoints d') p = ?ck" using s(4) [of p] r by (simp_all add: s(5) map_of_kept)
      then show ?thesis using r by (auto simp: plan_base_def entry_def)
    qed
    ultimately have "classify_change True (map_of (dr_checkpoints d') p) (map_of (plan_base sha t' d') p) ?r ?d
        = classify_change True ?ck ?b ?r ?d"
      by (rule classify_left [OF change noc])
    then show ?thesis using old new True by simp
  qed
  then show ?thesis using keep s(1) unfolding left_def by (simp add: settle_draft_def)
qed

lemma after_refresh:
  fixes sha :: "string \<Rightarrow> string"
  assumes took: "took_paths sha root d (po_path ` set ops) t'" and snaps: "clash_free (dr_base_files d) (dr_tree d)"
    and tidy: "\<And>op. op \<in> set ops \<Longrightarrow> tidy_path (po_path op)"
  shows "\<exists>d'. settle_draft sha False t' ops d = (None, d') \<and> dr_tree d' = dr_tree d
    \<and> (dr_base d' \<noteq> [] \<longrightarrow> (\<forall>p. planned_change sha t' d' True p
         = (if p \<in> po_path ` set ops then Unchanged else planned_change sha root d True p)))"
proof -
  define ps where "ps = map po_path ops"
  define rootm where "rootm = build_file_manifest sha t'"
  define start where "start = (if dr_base d = [] then rootm else dr_base d)"
  have ok: "tree_ok t'" "tree_ok (dr_base_files d)" "tree_ok (dr_tree d)" "distinct (map fst (dr_base d))"
    using took by (auto simp: took_paths_def draft_ok_def)
  have ps: "List.map_filter (clean_path \<circ> po_path) ops = ps"
    using tidy unfolding ps_def by (induction ops) (simp_all add: List.map_filter_simps)
  have nil: "[] \<notin> set (sorted_paths (filter (\<lambda>p. p \<noteq> []) ps))" by simp
  have "\<exists>s. sync_base_snapshots t' (build_file_manifest sha t') [] (sorted_paths (filter (\<lambda>p. p \<noteq> []) ps)) (dr_base_files d) = (None, s)"
  proof (rule refresh_snapshots [OF ok(1,2) _ _ nil, of "dr_base_files d"])
    fix p q assume "p \<in> set (sorted_paths (filter (\<lambda>p. p \<noteq> []) ps))" "file_at t' p \<noteq> None" "file_at (dr_base_files d) q \<noteq> None"
    then have "file_at (dr_tree d) p \<noteq> None" using took by (auto simp: took_paths_def ps_def)
    then show "\<not> strict_prefix q p"
      using clash_freeD [OF snaps ok(2,3)] \<open>file_at (dr_base_files d) q \<noteq> None\<close> by (metis strict_prefix_def)
  qed simp
  then obtain s where s: "refresh_base_snapshots_for_paths sha t' ps d = (None, d\<lparr>dr_base_files := s\<rparr>)"
    by (auto simp: refresh_base_snapshots_for_paths_def)
  define b' where "b' = fold (\<lambda>p b. case map_of rootm p of None \<Rightarrow> AList.delete p b | Some e \<Rightarrow> AList.update p e b) ps start"
  define d' where "d' = (clear_conflict_checkpoints (Some ps) (d\<lparr>dr_base_files := s\<rparr>))\<lparr>dr_base := sort_key (path_text \<circ> fst) b'\<rparr>"
  have run: "settle_draft sha False t' ops d = (None, d')"
    by (simp add: settle_draft_def refresh_published_draft_paths_def ps s Let_def d'_def b'_def start_def rootm_def)
  have "distinct (map fst start)" using ok(1,4) by (simp add: start_def rootm_def distinct_manifest)
  then have base: "map_of (dr_base d') p = (if p \<in> set ps then map_of rootm p else map_of start p)" for p
    using map_of_refreshed_base [of "map_of rootm" ps start] by (simp add: d'_def b'_def map_of_sort_key)
  have same: "dr_tree d' = dr_tree d" "map_of (dr_checkpoints d') p = (if p \<in> set ps then None else map_of (dr_checkpoints d) p)" for p
    by (simp_all add: d'_def clear_conflict_checkpoints_def without_checkpoints_def map_of_kept)
  have set_ps: "set ps = po_path ` set ops" by (simp add: ps_def)
  note entries = took_entries [OF took, folded set_ps]
  have "planned_change sha t' d' True p = (if p \<in> set ps then Unchanged else planned_change sha root d True p)"
    if new: "dr_base d' \<noteq> []" for p
  proof (cases "p \<in> set ps")
    case True
    then show ?thesis
      using new base [of p] entries [of p] by (simp add: planned_change_def plan_base_def settled_change rootm_def same(1))
  next
    case False
    then have "map_of (dr_base d') p = map_of (plan_base sha root d) p"
      using base [of p] entries [of p] by (simp add: plan_base_def start_def rootm_def)
    then show ?thesis
      using False new entries [of p] by (simp add: planned_change_def plan_base_def [of sha t' d'] same)
  qed
  then show ?thesis using run same(1) by (simp add: set_ps)
qed

lemma draft_changed_iff:
  assumes "planned_change sha root d True p \<noteq> Conflicted"
  shows "draft_changed sha root d p \<longleftrightarrow> planned_change sha root d True p \<in> {Created, Modified, Deleted}"
  using planned_change_cases [OF assms] unfolding draft_changed_def insert_iff empty_iff by argo

lemma plan_left:
  fixes sha :: "string \<Rightarrow> string"
  defines "plan \<equiv> \<lambda>root d. plan_draft_publish sha root d None True"
  assumes quiet: "\<And>p. planned_change sha root d True p \<noteq> Conflicted" and ps: "\<And>p. p \<in> ps \<Longrightarrow> draft_changed sha root d p"
    and next_plan: "\<And>p. planned_change sha t' d' True p
      = (if p \<in> ps \<or> sync_after \<and> \<not> draft_changed sha root d p then Unchanged else planned_change sha root d True p)"
  shows "let plan' = plan t' d' in
         set (pp_created plan') = set (pp_created (plan root d)) - ps \<and> set (pp_modified plan') = set (pp_modified (plan root d)) - ps
         \<and> set (pp_deleted plan') = set (pp_deleted (plan root d)) - ps \<and> pp_conflicted plan' = []
         \<and> set (pp_out_of_date plan') = (if sync_after then {} else set (pp_out_of_date (plan root d)))"
proof -
  note iff = draft_changed_iff [OF quiet]
  have "p \<notin> set (pp_conflicted (plan t' d'))" for p using quiet [of p] by (simp add: plan_def plan_lists next_plan)
  then have "pp_conflicted (plan t' d') = []" by (cases "pp_conflicted (plan t' d')") auto
  moreover have "planned_change sha root d True p \<noteq> OutOfDate" if "p \<in> ps" for p using ps [OF that] iff by auto
  ultimately show ?thesis
    using quiet unfolding plan_def Let_def set_eq_iff Diff_iff by (auto simp: plan_lists next_plan iff)
qed

text \<open>
  C34: publishing operations of a plan without conflicts, all of it or the selected ones, on trees whose files have
  tidy names and do not stand in each other's way. The request captures both versions and applies every operation: the
  root then has the draft's file at every published path and its own everywhere else. With synchronizing (a request
  without paths) root and draft then agree but for the changes left out, which the draft keeps; without it the draft's
  files stay as they are. The next plan holds exactly the changes that were not published (a plan has at most 500
  paths of each kind, the rest stays for the next one), so it is empty after publishing all of them. A draft
  without a recorded base has to be published whole when it is synchronized; without synchronizing, the snapshots of
  the base must not stand in the draft's way, and the base must not become empty (\<open>emptied_base_deletes\<close>).
\<close>
theorem publish_makes_root_and_draft_agree:
  fixes sha :: "string \<Rightarrow> string" and ops :: "publish_op list" and r :: project_root and d :: draft
  defines "entry \<equiv> \<lambda>t. map_of (build_file_manifest sha t)"
    and "plan \<equiv> plan_draft_publish sha (pr_tree r) d None True"
    and "published \<equiv> po_path ` set ops"
  defines "left \<equiv> set (pp_created plan) \<union> set (pp_modified plan) \<union> set (pp_deleted plan) - published"
  assumes "publishable (pr_tree r) (dr_tree d)" and "draft_ok sha d" and "pp_conflicted plan = []"
    and "set ops \<subseteq> set (publish_operations (draft_publish_change_set sha (pr_tree r) d True))"
    and "if sync_after then dr_base d \<noteq> [] \<or> left = {} else clash_free (dr_base_files d) (dr_tree d)"
  shows "\<exists>res r' d'. publish_local_group sha order now later sync_after ops r d = (Inr res, r', d')
    \<and> pu_status res = Published \<and> pu_operations res = ops
    \<and> (\<forall>p. file_at (pr_tree r') p = file_at (if p \<in> published then dr_tree d else pr_tree r) p)
    \<and> (if sync_after then \<forall>p. entry (dr_tree d') p = entry (if p \<in> left then dr_tree d else pr_tree r') p
       else dr_tree d' = dr_tree d)
    \<and> (sync_after \<or> dr_base d' \<noteq> [] \<longrightarrow>
        (let plan' = plan_draft_publish sha (pr_tree r') d' None True in
         set (pp_created plan') = set (pp_created plan) - published \<and> set (pp_modified plan') = set (pp_modified plan) - published
         \<and> set (pp_deleted plan') = set (pp_deleted plan) - published \<and> pp_conflicted plan' = []
         \<and> set (pp_out_of_date plan') = (if sync_after then {} else set (pp_out_of_date plan))))"
proof -
  have plan: "pp_conflicted (plan_draft_publish sha (pr_tree r) d None True) = []" using assms(7) by (simp add: plan_def)
  note fits = planned_op_fits [OF assms(5,6) plan subsetD [OF assms(8)]]
  from publish_until_settling [OF assms(5,6) plan assms(8)] obtain res r' t' where p: "pu_status res = Published" "pu_operations res = ops"
      "pr_tree r' = t'" "between (pr_tree r) (dr_tree d) t'" and files: "\<forall>p. file_at t' p = file_at (if p \<in> published then dr_tree d else pr_tree r) p"
      and run: "publish_local_group sha order now later sync_after ops r d = (case settle_draft sha sync_after t' ops d of
        (Some e, d') \<Rightarrow> (Inl e, r', d') | (None, d') \<Rightarrow> (Inr res, r', d'))"
    unfolding published_def by blast
  have quiet: "planned_change sha (pr_tree r) d True q \<noteq> Conflicted" for q
    using plan_lists(4) [of q sha "pr_tree r" d True] plan by simp
  note chg = draft_changed_iff [OF quiet]
  have left: "q \<in> left \<longleftrightarrow> draft_changed sha (pr_tree r) d q \<and> q \<notin> published" for q
    unfolding left_def plan_def chg by (auto simp: plan_lists)
  have ok: "tree_ok (pr_tree r)" "tree_ok (dr_tree d)" "clash_free (pr_tree r) (dr_tree d)" "tree_ok t'"
    using assms(5) p(4) by (simp_all add: publishable_def between_def)
  have took: "took_paths sha (pr_tree r) d published t'"
    unfolding took_paths_def using ok files assms(6) fits(2) by (auto simp: published_def draft_changed_def)
  have apart: "clash_free t' (dr_tree d)"
  proof (rule clash_freeI [OF ok(4,2)])
    fix p q assume "file_at t' p \<noteq> None" "file_at (dr_tree d) q \<noteq> None" "prefix p q \<or> prefix q p"
    moreover then have "file_at (pr_tree r) p \<noteq> None \<or> file_at (dr_tree d) p \<noteq> None" using p(4) unfolding between_def by blast
    ultimately show "p = q" using clash_freeD [OF ok(3,1,2)] files_incomparable [OF ok(2)] by (metis option.exhaust)
  qed
  obtain d' where s: "settle_draft sha sync_after t' ops d = (None, d')"
    and files': "if sync_after then \<forall>p. entry (dr_tree d') p = entry (if p \<in> left then dr_tree d else t') p else dr_tree d' = dr_tree d"
    and next_plan: "sync_after \<or> dr_base d' \<noteq> [] \<Longrightarrow> planned_change sha t' d' True q
      = (if q \<in> published \<or> sync_after \<and> \<not> draft_changed sha (pr_tree r) d q then Unchanged else planned_change sha (pr_tree r) d True q)" for q
  proof (cases sync_after)
    case True
    have "dr_base d \<noteq> [] \<or> (\<forall>p. draft_changed sha (pr_tree r) d p \<longrightarrow> p \<in> published)"
      using assms(9) True left by auto
    from after_sync [OF took apart quiet this, of ops] show thesis
      using that True unfolding left entry_def by (auto simp: if_distrib cong: if_cong)
  next
    case False
    have "tidy_path (po_path op)" if "op \<in> set ops" for op using fits(1) [OF that] by (simp add: op_fits_def)
    with after_refresh [OF took [unfolded published_def]] assms(9) False obtain d' where "settle_draft sha False t' ops d = (None, d')"
      "dr_tree d' = dr_tree d" "dr_base d' \<noteq> [] \<Longrightarrow> planned_change sha t' d' True q
         = (if q \<in> published then Unchanged else planned_change sha (pr_tree r) d True q)" for q
      unfolding published_def by auto
    then show thesis using that False by simp
  qed
  have "let plan' = plan_draft_publish sha t' d' None True in
         set (pp_created plan') = set (pp_created plan) - published \<and> set (pp_modified plan') = set (pp_modified plan) - published
         \<and> set (pp_deleted plan') = set (pp_deleted plan) - published \<and> pp_conflicted plan' = []
         \<and> set (pp_out_of_date plan') = (if sync_after then {} else set (pp_out_of_date plan))"
    if "sync_after \<or> dr_base d' \<noteq> []"
    unfolding plan_def using took by (intro plan_left quiet next_plan that) (simp add: took_paths_def)
  then show ?thesis using run s p files files' by (intro exI [of _ res] exI [of _ r'] exI [of _ d']) (simp add: plan_def)
qed

lemma publish_makes_root_and_draft_agree_witness:
  "(\<exists>res r' d'. publish_local_group ex_sha (map fst) 0 1 True
      (publish_operations (draft_publish_change_set ex_sha (pr_tree ex_publish_root) ex_publish_draft True))
      ex_publish_root ex_publish_draft = (Inr res, r', d')
    \<and> pu_status res = Published \<and> length (pu_operations res) = 3
    \<and> pp_created (plan_draft_publish ex_sha (pr_tree r') d' None True) = [])
  \<and> (\<exists>res r' d'. publish_local_group ex_sha (map fst) 0 1 False
      [\<lparr>po_kind = UpdateOp, po_path = [''a''], po_draft = Some [''a''], po_target = Some [''a'']\<rparr>]
      ex_publish_root ex_publish_draft = (Inr res, r', d')
    \<and> pu_status res = Published \<and> file_at (pr_tree r') [''a''] = Some ''edit'' \<and> file_at (pr_tree r') [''b''] = Some ''two'')"
proof
  let ?plan = "plan_draft_publish ex_sha (pr_tree ex_publish_root) ex_publish_draft None True"
  let ?all = "publish_operations (draft_publish_change_set ex_sha (pr_tree ex_publish_root) ex_publish_draft True)"
  let ?one = "[\<lparr>po_kind = UpdateOp, po_path = [''a''], po_draft = Some [''a''], po_target = Some [''a'']\<rparr>]"
  note agree = publish_makes_root_and_draft_agree [where sha = ex_sha and r = ex_publish_root and d = ex_publish_draft
      and order = "map fst" and now = 0 and later = 1, OF _ ex_publish_draft_ok]
  have pub: "publishable (pr_tree ex_publish_root) (dr_tree ex_publish_draft)" "pp_conflicted ?plan = []" by code_simp+
  have whole: "set (pp_created ?plan) \<union> set (pp_modified ?plan) \<union> set (pp_deleted ?plan) - po_path ` set ?all = {}"
    "set (pp_created ?plan) - po_path ` set ?all = {}" "length ?all = 3" by code_simp+
  have "if True then dr_base ex_publish_draft \<noteq> []
      \<or> set (pp_created ?plan) \<union> set (pp_modified ?plan) \<union> set (pp_deleted ?plan) - po_path ` set ?all = {}
    else clash_free (dr_base_files ex_publish_draft) (dr_tree ex_publish_draft)" unfolding if_True by (rule disjI2 [OF whole(1)])
  from agree [OF pub subset_refl this]
  show "\<exists>res r' d'. publish_local_group ex_sha (map fst) 0 1 True ?all ex_publish_root ex_publish_draft = (Inr res, r', d')
    \<and> pu_status res = Published \<and> length (pu_operations res) = 3
    \<and> pp_created (plan_draft_publish ex_sha (pr_tree r') d' None True) = []"
    apply (elim exE conjE)
    apply (intro exI conjI)
    apply assumption
    apply assumption
    apply (simp only: whole)
    apply (drule mp)
    apply (rule disjI1 [OF TrueI])
    apply (simp only: Let_def whole set_empty)
    done
  have sub: "set ?one \<subseteq> set ?all" by code_simp
  have "clash_free (dr_base_files ex_publish_draft) (dr_tree ex_publish_draft)" by code_simp
  then have "if False then dr_base ex_publish_draft \<noteq> []
      \<or> set (pp_created ?plan) \<union> set (pp_modified ?plan) \<union> set (pp_deleted ?plan) - po_path ` set ?one = {}
    else clash_free (dr_base_files ex_publish_draft) (dr_tree ex_publish_draft)" by (simp only: if_False)
  from agree [OF pub sub this] obtain res r' d'
    where run: "publish_local_group ex_sha (map fst) 0 1 False ?one ex_publish_root ex_publish_draft = (Inr res, r', d')" "pu_status res = Published"
      and files: "\<forall>p. file_at (pr_tree r') p = file_at (if p \<in> po_path ` set ?one then dr_tree ex_publish_draft else pr_tree ex_publish_root) p"
    by (-, elim exE conjE) (rule that; assumption)
  have "file_at (dr_tree ex_publish_draft) [''a''] = Some ''edit''" "file_at (pr_tree ex_publish_root) [''b''] = Some ''two''" by code_simp+
  then have "file_at (pr_tree r') [''a''] = Some ''edit'' \<and> file_at (pr_tree r') [''b''] = Some ''two''"
    using files [rule_format, of "[''a'']"] files [rule_format, of "[''b'']"] by simp
  with run show "\<exists>res r' d'. publish_local_group ex_sha (map fst) 0 1 False ?one ex_publish_root ex_publish_draft = (Inr res, r', d')
    \<and> pu_status res = Published \<and> file_at (pr_tree r') [''a''] = Some ''edit'' \<and> file_at (pr_tree r') [''b''] = Some ''two''"
    by blast
qed

text \<open>
  An empty base counts as a missing one, for which the root's manifest stands: once publishing selected deletions
  has emptied the base, the next plan deletes every file the root has got meanwhile and the draft has not.
\<close>

lemma emptied_base_deletes:
  assumes "dr_base d = []" and "map_of (build_file_manifest sha root) p \<noteq> None" and "map_of (build_file_manifest sha (dr_tree d)) p = None"
  shows "p \<in> set (pp_deleted (plan_draft_publish sha root d None allow))"
  using assms unfolding plan_lists planned_change_def plan_base_def by (auto simp: classify_change_def entries_conflict_def)

definition ex_last_base :: draft where
  "ex_last_base = \<lparr>dr_tree = [], dr_base = [([''a''], manifest_entry ex_sha ''one'')], dr_base_files = [([''a''], FileNode ''one'')],
     dr_checkpoints = []\<rparr>"

lemma emptied_base_example:
  "pp_deleted (plan_draft_publish ex_sha (pr_tree ex_publish_root) ex_last_base None True) = [[''a'']]
   \<and> (let (res, r', d') = publish_local_group ex_sha (map fst) 0 1 False
        [\<lparr>po_kind = DeleteOp, po_path = [''a''], po_draft = Some [''a''], po_target = Some [''a'']\<rparr>] ex_publish_root ex_last_base in
      dr_base d' = [] \<and> pp_deleted (plan_draft_publish ex_sha (pr_tree r') d' None True) = [[''b'']])"
  by code_simp

section \<open>Conflicts and retries\<close>

lemma map_of_fold_update:
  "map_of (fold (\<lambda>p cs. AList.update p (f p) cs) ps cs) q = (if q \<in> set ps then Some (f q) else map_of cs q)"
  by (induction ps arbitrary: cs) auto

lemma recorded_checkpoint:
  assumes "p \<in> set ps" and "p \<noteq> []"
  shows "map_of (dr_checkpoints (record_conflict_checkpoints sha now root ps d)) p
    = Some \<lparr>ck_created_at = now, ck_root = map_of (build_file_manifest sha root) p,
            ck_draft = map_of (build_file_manifest sha (dr_tree d)) p, ck_base = map_of (dr_base d) p\<rparr>"
  using assms unfolding record_conflict_checkpoints_def Let_def by (simp add: map_of_fold_update)

lemma blocked_reasons_conflict:
  "ConflictedPathsRequireResolution \<in> set (publish_blocked_reasons ops) \<longleftrightarrow> (\<exists>op \<in> set ops. po_kind op = ResolveConflict)"
  by (auto simp: publish_blocked_reasons_def list_ex_iff)

text \<open>
  A request whose plan has a conflict changes no root; it records a checkpoint for every conflicted path, and
  on the next request, whatever the draft has become, such a path is conflicted again exactly when draft, base and
  root all differ and the root's file is not the one recorded.
\<close>
theorem conflict_retry:
  assumes "draft_ok sha (rs_draft r)" and "tree_ok (pr_tree (rs_root r))" and "tidy_path p"
    and "within_limit (plan_draft_publish sha (pr_tree (rs_root r)) (rs_draft r) None True)"
    and "p \<in> set (pp_conflicted (plan_draft_publish sha (pr_tree (rs_root r)) (rs_draft r) None True))"
  shows "\<exists>r'. project_publish_draft sha order created_at now later [] [] [r] = (Inr ConflictsRequireResolution, [r'])
    \<and> rs_root r' = rs_root r \<and> dr_tree (rs_draft r') = dr_tree (rs_draft r)
    \<and> (\<forall>root t. p \<in> set (pp_conflicted (plan_draft_publish sha root ((rs_draft r')\<lparr>dr_tree := t\<rparr>) None True)) \<longleftrightarrow>
         entries_conflict (map_of (plan_base sha root (rs_draft r)) p) (map_of (build_file_manifest sha root) p)
           (map_of (build_file_manifest sha t) p)
         \<and> map_of (build_file_manifest sha root) p \<noteq> map_of (build_file_manifest sha (pr_tree (rs_root r))) p)"
proof -
  define root0 where "root0 = pr_tree (rs_root r)"
  define d where "d = rs_draft r"
  define cs where "cs = draft_publish_change_set sha root0 d True"
  define ops where "ops = publish_operations cs"
  define r' where "r' = checkpoint_conflicts sha created_at (plan_group sha True r)"
  have g: "plan_group sha True r = with_operations r (resource_status cs) ops"
    by (simp add: plan_group_def cs_def ops_def root0_def d_def Let_def)
  have p: "p \<noteq> []" using assms(3) by simp
  have "p \<in> set (cs_conflicted cs)"
    using assms(4,5) p unfolding cs_def draft_publish_change_set_def Let_def root0_def d_def
    by (simp add: set_limited within_limit_def)
  then have "\<lparr>po_kind = ResolveConflict, po_path = p, po_draft = plan_path p, po_target = plan_path p\<rparr> \<in> set ops"
    by (auto simp: ops_def publish_operations_def)
  then have op: "\<exists>op \<in> set ops. po_kind op = ResolveConflict \<and> po_path op = p"
    by (rule bexI [rotated]) simp
  then have reasons: "ConflictedPathsRequireResolution \<in> set (publish_blocked_reasons ops)"
    unfolding blocked_reasons_conflict by blast
  then have status: "publish_group_status (publish_blocked_reasons ops) ops s = GroupBlocked" for s
    by (auto simp: publish_group_status_def)
  have cp: "p \<in> set (conflict_paths ops)"
    using op assms(3) unfolding conflict_paths_def by (force simp: List.map_filter_def)
  then have r': "r' = r\<lparr>rs_draft := record_conflict_checkpoints sha created_at root0 (conflict_paths ops) d\<rparr>"
    unfolding r'_def g by (auto simp: checkpoint_conflicts_def with_operations_def status root0_def d_def Let_def)
  have "project_publish_draft sha order created_at now later [] [] [r] = (Inr ConflictsRequireResolution, [r'])"
    using reasons unfolding project_publish_draft_def Let_def
    by (simp add: g r'_def) (simp add: with_operations_def status)
  moreover have "rs_root r' = rs_root r" "dr_tree (rs_draft r') = dr_tree (rs_draft r)"
    by (simp_all add: r' d_def record_conflict_checkpoints_def Let_def)
  moreover have "p \<in> set (pp_conflicted (plan_draft_publish sha root ((rs_draft r')\<lparr>dr_tree := t\<rparr>) None True)) \<longleftrightarrow>
         entries_conflict (map_of (plan_base sha root (rs_draft r)) p) (map_of (build_file_manifest sha root) p)
           (map_of (build_file_manifest sha t) p)
         \<and> map_of (build_file_manifest sha root) p \<noteq> map_of (build_file_manifest sha (pr_tree (rs_root r))) p" for root t
  proof -
    let ?d = "(rs_draft r')\<lparr>dr_tree := t\<rparr>"
    have "map_of (dr_checkpoints ?d) p = Some \<lparr>ck_created_at = created_at, ck_root = map_of (build_file_manifest sha root0) p,
        ck_draft = map_of (build_file_manifest sha (dr_tree d)) p, ck_base = map_of (dr_base d) p\<rparr>"
      using recorded_checkpoint [OF cp p, of sha created_at root0 d] by (simp add: r')
    moreover have "plan_base sha root ?d = plan_base sha root (rs_draft r)"
      by (simp add: plan_base_def r' d_def record_conflict_checkpoints_def Let_def)
    ultimately show ?thesis
      unfolding plan_lists planned_change_def classify_change_def conflict_checkpoint_resolves_def
      by (auto simp: entries_conflict_def root0_def)
  qed
  ultimately show ?thesis by blast
qed

definition ex_conflict :: project_resource where
  "ex_conflict = \<lparr>rs_id = ''r'', rs_mount = ''docs'', rs_label = ''docs'', rs_workspace = ''/w'', rs_source = ''/s'',
     rs_root = \<lparr>pr_tree = [([''d''], FileNode ''other'')], pr_history = []\<rparr>, rs_draft = ex_based\<rparr>"

lemma conflict_retry_witness:
  "\<exists>r'. project_publish_draft ex_sha (map fst) ''now'' 0 1 [] [] [ex_conflict] = (Inr ConflictsRequireResolution, [r'])
    \<and> [''d''] \<notin> set (pp_conflicted (plan_draft_publish ex_sha (pr_tree (rs_root ex_conflict))
         ((rs_draft r')\<lparr>dr_tree := [([''d''], FileNode ''both'')]\<rparr>) None True))"
proof -
  have "draft_ok ex_sha (rs_draft ex_conflict)"
  proof -
    have "tree_ok (dr_tree ex_based)" "tree_ok (dr_base_files ex_based)" by code_simp+
    then show ?thesis
      by (simp add: draft_ok_def ex_conflict_def ex_based_def file_at_def node_at_def draft_hidden_def IGNORED_DRAFT_DIRS_def)
  qed
  moreover have "tree_ok (pr_tree (rs_root ex_conflict))" "tidy_path [''d'']"
    "within_limit (plan_draft_publish ex_sha (pr_tree (rs_root ex_conflict)) (rs_draft ex_conflict) None True)"
    "[''d''] \<in> set (pp_conflicted (plan_draft_publish ex_sha (pr_tree (rs_root ex_conflict)) (rs_draft ex_conflict) None True))"
    by code_simp+
  ultimately show ?thesis using conflict_retry [of ex_sha ex_conflict "[''d'']" "map fst" "''now''" 0 1] by metis
qed

section \<open>Paths that are read differently\<close>

lemma rstrip_append: "py_rstrip s \<noteq> [] \<Longrightarrow> py_rstrip (a @ s) = a @ py_rstrip s"
  by (auto simp: py_rstrip_def dropWhile_append dropWhile_eq_Nil_conv)

lemma rstrip_blank: "py_rstrip s = [] \<Longrightarrow> py_rstrip (a @ s) = py_rstrip a"
  by (auto simp: py_rstrip_def dropWhile_append dropWhile_eq_Nil_conv)

lemma set_rstrip: "set (py_rstrip s) \<subseteq> set s"
  by (auto simp: py_rstrip_def dest: set_dropWhileD)

lemma path_text_snoc: "p \<noteq> [] \<Longrightarrow> path_text (p @ [c]) = path_text p @ ''/'' @ c"
  using py_join_append [of p "[c]" "''/''"] by (simp add: path_text_def)

text \<open>The text of a planned path loses its trailing blanks, so at most its last component changes.\<close>

lemma stripped_planned:
  assumes "p \<noteq> []" and "list_all clean_name p" and "CHR 0x5C \<notin> set (path_text p)"
  shows "plan_path p = Some p
    \<and> stripped_parts p = butlast p @ (if py_rstrip (last p) = [] \<or> py_rstrip (last p) = ''.'' then [] else [py_rstrip (last p)])"
proof -
  have part: "w \<noteq> [] \<and> w \<noteq> ''.'' \<and> w \<noteq> ''..'' \<and> CHR ''/'' \<notin> set w" if "w \<in> set p" for w
    using that assms(2) by (auto simp: list_all_iff clean_name_def)
  have parse: "path_parts (path_text q @ ''/'' @ w) = q @ (if w = [] \<or> w = ''.'' then [] else [w])"
    if "set q \<subseteq> set p" "q \<noteq> []" "CHR ''/'' \<notin> set w" for q w
  proof -
    have "py_split_on (CHR ''/'') (path_text q @ CHR ''/'' # w) = q @ [w]"
      using split_join [of "q @ [w]" "CHR ''/''"] path_text_snoc [OF that(2), of w] part that by (auto simp: path_text_def)
    moreover have "filter (\<lambda>c. c \<noteq> [] \<and> c \<noteq> ''.'') q = q" using part that(1) by (intro filter_True) auto
    ultimately show ?thesis by (simp add: path_parts_def)
  qed
  have single: "path_parts w = (if w = [] \<or> w = ''.'' then [] else [w])" if "CHR ''/'' \<notin> set w" for w
    using that by (simp add: path_parts_def split_single)
  have last_in: "last p \<in> set p" using assms(1) by simp
  have ptext: "path_text p = (if butlast p = [] then last p else path_text (butlast p) @ ''/'' @ last p)"
    using path_text_snoc [of "butlast p" "last p"] assms(1) by (cases p rule: rev_cases) (auto simp: path_text_def)
  have sub_p: "set (butlast p) \<subseteq> set p" by (auto dest: in_set_butlastD)
  have p: "p = butlast p @ [last p]" using assms(1) by simp
  have "path_parts (path_text p) = p"
    using parse [OF sub_p, of "last p"] single [of "last p"] part [OF last_in] p unfolding ptext by (auto split: if_splits)
  moreover have "slashes (path_text p) = path_text p" unfolding slashes_def by (rule map_idI) (use assms(3) in auto)
  moreover have "hd (path_text p) \<noteq> CHR ''/''"
  proof -
    have "hd p \<in> set p" "[] \<notin> set p" using assms(1) part by auto
    then show ?thesis using path_text_ends [OF assms(1)] part [of "hd p"] hd_in_set [of "hd p"] by metis
  qed
  moreover have "''..'' \<notin> set p" using part by auto
  ultimately have plan: "plan_path p = Some p" by (simp add: plan_path_def)
  have sep: "\<not> py_space CHR ''/''" by (simp add: py_space_def)
  have no_sep: "CHR ''/'' \<notin> set (py_rstrip (last p))" using part [OF last_in] set_rstrip by blast
  have "stripped_parts p = butlast p @ (if py_rstrip (last p) = [] \<or> py_rstrip (last p) = ''.'' then [] else [py_rstrip (last p)])"
  proof (cases "butlast p = []")
    case True
    then show ?thesis using single [OF no_sep] by (simp add: stripped_parts_def ptext)
  next
    case False
    have "py_rstrip (path_text p) = path_text (butlast p) @ ''/'' @ py_rstrip (last p)"
    proof (cases "py_rstrip (last p) = []")
      case True
      have "py_rstrip (path_text (butlast p) @ ''/'') = path_text (butlast p) @ ''/''"
        using sep rstrip_append [of "''/''"] by (simp add: py_rstrip_def)
      then show ?thesis using False rstrip_blank [OF True, of "path_text (butlast p) @ ''/''"] True by (simp add: ptext)
    next
      case s: False
      show ?thesis using False rstrip_append [OF s, of "path_text (butlast p) @ ''/''"] by (simp add: ptext)
    qed
    then show ?thesis using parse [OF sub_p False no_sep] by (simp add: stripped_parts_def)
  qed
  then show ?thesis using plan by simp
qed

lemma tree_under_root:
  assumes "tree_ok t"
  shows "filter (\<lambda>(q, _). \<not> strict_prefix [] q) t = []" and "tree_remove [] t = []"
  using assms by (force simp: tree_remove_def filter_empty_conv tree_ok_def strict_prefix_def)+

lemma file_at_below:
  assumes "tree_ok t" and "is_dir_at t emptied"
  shows "file_at (filter (\<lambda>(q, _). \<not> strict_prefix emptied q) t) q = (if prefix emptied q then None else file_at t q)"
proof -
  have "map_of (filter (\<lambda>(q, _). \<not> strict_prefix emptied q) t) q = (if strict_prefix emptied q then None else map_of t q)"
    by (simp add: map_of_kept)
  then show ?thesis
    using assms(2) unfolding file_at_def node_at_def is_dir_at_def
    by (cases "q = emptied") (auto simp: strict_prefix_def)
qed

text \<open>Deleting a file with such a name, whatever the history.\<close>

definition stripped_delete :: "path \<Rightarrow> publish_op list" where
  "stripped_delete p = publish_operations \<lparr>cs_changed = [], cs_new = [], cs_deleted = [p], cs_conflicted = [], cs_out_of_date = []\<rparr>"

lemma delete_stripped:
  fixes p :: path and r :: project_root
  defines "blank \<equiv> py_rstrip (last p) = []"
  defines "emptied \<equiv> if blank then butlast p else butlast (butlast p)"
  assumes "tree_ok (pr_tree r)" and "names_ok (pr_tree r)" and "file_at (pr_tree r) p \<noteq> None" and "CHR 0x5C \<notin> set (path_text p)"
    and "py_rstrip (last p) \<in> {[], ''..''}"
  shows "\<exists>t' h. (\<forall>h0. apply_ops draft (stripped_delete p) (r\<lparr>pr_history := h0\<rparr>) []
      = (if blank then (None, \<lparr>pr_tree = t', pr_history = h h0\<rparr>, stripped_delete p)
         else (Some (OSError ''FileNotFoundError''), \<lparr>pr_tree = t', pr_history = h h0\<rparr>, [])))
    \<and> (\<forall>q. file_at t' q = (if prefix emptied q then None else file_at (pr_tree r) q))
    \<and> (emptied = [] \<longrightarrow> t' = [] \<and> h = (\<lambda>h0. []) \<and> (blank \<longrightarrow> removes_root (stripped_delete p)))
    \<and> publish_blocked_reasons (stripped_delete p) = []"
proof -
  have p: "p \<noteq> []" using assms(5) by auto
  obtain c where c: "node_at (pr_tree r) p = Some (FileNode c)" using assms(5) by (auto simp: file_at_Some)
  then have "(p, FileNode c) \<in> set (pr_tree r)" using node_in [OF assms(3) p] by simp
  then have clean: "list_all clean_name p" using assms(4) by (auto simp: names_ok_def list_all_iff)
  note strip = stripped_planned [OF p clean assms(6)]
  have ops: "stripped_delete p = [\<lparr>po_kind = DeleteOp, po_path = p, po_draft = Some p, po_target = Some p\<rparr>]"
    using strip by (simp add: stripped_delete_def publish_operations_def)
  have up: "''..'' \<notin> set (butlast p)" using clean by (auto simp: list_all_iff clean_name_def dest: in_set_butlastD)
  have dir: "is_dir_at (pr_tree r) (butlast p)" using parent_dir [OF assms(3) _ p] c by simp
  have emptied: "is_dir_at (pr_tree r) emptied"
  proof (cases "butlast p = []")
    case False
    then show ?thesis using dir parent_dir [OF assms(3) _ False] by (simp add: emptied_def is_dir_at_def)
  qed (simp add: emptied_def is_dir_at_def)
  define h where "h h0 = (if emptied = [] \<or> blank \<and> emptied = [HISTORY_DIR] then [] else h0)" for h0 :: "root_version list"
  define t' where "t' = (if blank then tree_remove emptied (pr_tree r) else filter (\<lambda>(q, _). \<not> strict_prefix emptied q) (pr_tree r))"
  have step: "apply_ops draft (stripped_delete p) (r\<lparr>pr_history := h0\<rparr>) []
      = (if blank then (None, \<lparr>pr_tree = t', pr_history = h h0\<rparr>, stripped_delete p)
         else (Some (OSError ''FileNotFoundError''), \<lparr>pr_tree = t', pr_history = h h0\<rparr>, []))" for h0
  proof (cases blank)
    case True
    then have "stripped_parts p = emptied" using strip by (simp add: blank_def emptied_def)
    then show ?thesis using True emptied not_climbing [OF up]
      by (cases r) (simp add: ops apply_op_def delete_publish_path_def t'_def h_def is_dir_at_def emptied_def)
  next
    case False
    then have "stripped_parts p = butlast p @ [''..'']" using strip assms(7) by (simp add: blank_def)
    then show ?thesis using False dir
      by (cases r) (simp add: ops apply_op_def delete_publish_path_def rmtree_climbing_def t'_def h_def is_dir_path_def climbs_def emptied_def)
  qed
  have gone: "file_at t' q = (if prefix emptied q then None else file_at (pr_tree r) q)" for q
  proof (cases "blank \<and> emptied \<noteq> []")
    case True
    then show ?thesis by (auto simp: t'_def file_at_def)
  next
    case False
    then have "t' = filter (\<lambda>(q, _). \<not> strict_prefix emptied q) (pr_tree r)"
      using tree_under_root [OF assms(3)] by (auto simp: t'_def)
    then show ?thesis using file_at_below [OF assms(3) emptied] by simp
  qed
  have "t' = [] \<and> h = (\<lambda>h0. []) \<and> (blank \<longrightarrow> removes_root (stripped_delete p))" if "emptied = []"
    using that tree_under_root [OF assms(3)] strip by (auto simp: t'_def h_def ops removes_root_def blank_def emptied_def)
  moreover have "publish_blocked_reasons (stripped_delete p) = []" by (simp add: ops publish_blocked_reasons_def)
  ultimately show ?thesis using step gone by (intro exI [of _ t'] exI [of _ h]) blast
qed

lemma restore_without_history:
  "restore_project_root_version sha order i \<lparr>pr_tree = t, pr_history = []\<rparr>
    = (Inl (OSError (''Project root version not found: '' @ i)), \<lparr>pr_tree = t, pr_history = []\<rparr>)"
  by (simp add: restore_project_root_version_def find_project_root_version_def list_project_root_versions_def)

text \<open>
  C36: the name of a draft file may be blank or two dots and blanks, and the plan accepts it, but the operation strips
  the path. Deleting such a file then deletes everything in its directory, when the name is blank, or in the
  directory above, when it has the dots; the second fails afterwards. If that directory is the root, the whole root goes
  with its history, so that publishing raises as there is no root to capture, or reports that the rollback failed.
\<close>
theorem stripped_path_escapes:
  fixes p :: path and r :: project_root and d :: draft
  defines "ops \<equiv> stripped_delete p"
    and "blank \<equiv> py_rstrip (last p) = []"
  defines "emptied \<equiv> if blank then butlast p else butlast (butlast p)"
  assumes "tree_ok (pr_tree r)" and "names_ok (pr_tree r)" and "file_at (pr_tree r) p \<noteq> None" and "CHR 0x5C \<notin> set (path_text p)"
    and "py_rstrip (last p) \<in> {[], ''..''}"
  shows "publish_blocked_reasons ops = []
    \<and> (\<exists>r'. apply_ops (dr_tree d) ops r [] = (if blank then (None, r', ops) else (Some (OSError ''FileNotFoundError''), r', []))
        \<and> (\<forall>q. file_at (pr_tree r') q = (if prefix emptied q then None else file_at (pr_tree r) q)))
    \<and> (emptied = [] \<longrightarrow> (\<exists>res r'. publish_local_group sha order now later sync_after ops r d = (res, r', d)
        \<and> pr_tree r' = [] \<and> pr_history r' = []
        \<and> (if blank then res = Inl (OSError ''FileNotFoundError'')
           else \<exists>x. res = Inr x \<and> pu_status x = PublishBlocked \<and> pu_reasons x = [PublishFailedRollbackFailed])))"
proof -
  from delete_stripped [OF assms(4-8), of "dr_tree d", folded ops_def blank_def, folded emptied_def]
  obtain t' h where step: "\<forall>h0. apply_ops (dr_tree d) ops (r\<lparr>pr_history := h0\<rparr>) []
      = (if blank then (None, \<lparr>pr_tree = t', pr_history = h h0\<rparr>, ops)
         else (Some (OSError ''FileNotFoundError''), \<lparr>pr_tree = t', pr_history = h h0\<rparr>, []))"
    and gone: "\<forall>q. file_at t' q = (if prefix emptied q then None else file_at (pr_tree r) q)"
    and root: "emptied = [] \<longrightarrow> t' = [] \<and> h = (\<lambda>h0. []) \<and> (blank \<longrightarrow> removes_root ops)"
    and planned: "publish_blocked_reasons ops = []"
    by (elim exE conjE) (rule that; assumption)
  from capture_archives [OF assms(4,5)] obtain v
    where v: "capture_project_root_version sha now ''before-draft-publish'' r = Inr (v, r\<lparr>pr_history := pr_history r @ [v]\<rparr>)" by blast
  have "\<exists>res r'. publish_local_group sha order now later sync_after ops r d = (res, r', d) \<and> pr_tree r' = [] \<and> pr_history r' = []
        \<and> (if blank then res = Inl (OSError ''FileNotFoundError'')
           else \<exists>x. res = Inr x \<and> pu_status x = PublishBlocked \<and> pu_reasons x = [PublishFailedRollbackFailed])"
    if "emptied = []"
    using root that by (cases blank) (simp_all add: publish_local_group_def v step restore_without_history)
  moreover have "r\<lparr>pr_history := pr_history r\<rparr> = r" by simp
  ultimately show ?thesis using step [rule_format, of "pr_history r"] gone planned by (cases blank) auto
qed

definition ex_dots_root :: project_root where
  "ex_dots_root = \<lparr>pr_tree = [([''a''], FileNode ''one''), ([''docs''], DirNode), ([''docs'', ''.. ''], FileNode ''odd'')], pr_history = []\<rparr>"

lemma stripped_path_escapes_witness:
  "\<exists>x r'. publish_local_group ex_sha (map fst) 0 1 True
      (stripped_delete [''docs'', ''.. ''])
      ex_dots_root ex_last_base = (Inr x, r', ex_last_base)
    \<and> pu_reasons x = [PublishFailedRollbackFailed] \<and> pr_tree r' = [] \<and> pr_history r' = []"
proof -
  have "tree_ok (pr_tree ex_dots_root)" "names_ok (pr_tree ex_dots_root)" "file_at (pr_tree ex_dots_root) [''docs'', ''.. ''] \<noteq> None"
    "CHR 0x5C \<notin> set (path_text [''docs'', ''.. ''])" "py_rstrip (last [''docs'', ''.. '']) \<in> {[], ''..''}" by code_simp+
  note escapes = stripped_path_escapes [OF this, of ex_last_base ex_sha "map fst" 0 1 True]
  have "py_rstrip (last [''docs'', ''.. '']) = ''..''" by code_simp
  then show ?thesis using conjunct2 [OF conjunct2 [OF escapes]] by simp metis
qed

section \<open>A file in the place of a directory\<close>

definition ex_dir_root :: project_root where
  "ex_dir_root = \<lparr>pr_tree = [([''d''], DirNode), ([''d'', ''x''], FileNode ''one'')], pr_history = []\<rparr>"

definition ex_file_draft :: draft where
  "ex_file_draft = \<lparr>dr_tree = [([''d''], FileNode ''two'')], dr_base = [([''d'', ''x''], manifest_entry ex_sha ''one'')],
     dr_base_files = [([''d''], DirNode), ([''d'', ''x''], FileNode ''one'')], dr_checkpoints = []\<rparr>"

text \<open>
  Publishing a draft file over a directory of the root does not replace the directory: the file is copied
  into it under its own name, and the operation counts as applied.
\<close>
theorem file_over_directory_misplaced:
  assumes "tree_ok (pr_tree r)" and "tidy_path p" and "file_at draft p = Some c" and "is_dir_at (pr_tree r) p"
    and "\<not> is_dir_at (pr_tree r) (p @ [last p])"
  shows "\<exists>r'. apply_op draft \<lparr>po_kind = CreateOp, po_path = p, po_draft = plan_path p, po_target = plan_path p\<rparr> r = (None, r')
    \<and> is_dir_at (pr_tree r') p \<and> file_at (pr_tree r') p = None \<and> file_at (pr_tree r') (p @ [last p]) = Some c"
proof -
  have p: "p \<noteq> []" using assms(2) by simp
  have "file_at (pr_tree r) q = None" if q: "strict_prefix q p" for q
  proof -
    obtain z where z: "p = q @ z" "z \<noteq> []" using q by (auto simp: strict_prefix_def prefix_def)
    have "node_at (pr_tree r) (q @ z) \<noteq> None" using assms(4) by (simp add: z is_dir_at_def)
    then have "is_dir_at (pr_tree r) q" by (rule ancestor_dir [OF assms(1) _ z(2)])
    then show ?thesis by (simp add: is_dir_at_def file_at_def)
  qed
  then obtain t where t: "make_dirs [] (butlast p) (pr_tree r) = Inr t"
    using copy_file_succeeds [of p "pr_tree r" c] by (auto simp: copy_file_def rbind_Inr_iff)
  have dir: "is_dir_at t p" by (rule make_dirs_dir [OF t assms(4)])
  have "\<not> prefix (p @ [last p]) (butlast p)" by (auto dest: prefix_length_le)
  then have free: "\<not> is_dir_at t (p @ [last p])" using make_dirs_new [OF t] assms(5) by auto
  have "\<not> is_dir_at draft p" using assms(3) by (simp add: is_dir_at_def file_at_def split: option.splits node.splits)
  then have "apply_op draft \<lparr>po_kind = CreateOp, po_path = p, po_draft = plan_path p, po_target = plan_path p\<rparr> r
      = (None, r\<lparr>pr_tree := tree_put (p @ [last p]) (FileNode c) t\<rparr>)"
    using assms(2,3) t dir free by (simp add: apply_op_def copy_publish_path_def copy2_def is_dir_path_plain)
  then show ?thesis using dir by (simp add: is_dir_at_def file_at_def)
qed

text \<open>Here the request raises after the root was changed; the root keeps the misplaced file.\<close>

lemma file_over_directory_misplaced_witness:
  "(\<exists>r'. apply_op (dr_tree ex_file_draft) \<lparr>po_kind = CreateOp, po_path = [''d''], po_draft = plan_path [''d''], po_target = plan_path [''d'']\<rparr>
      ex_dir_root = (None, r') \<and> file_at (pr_tree r') [''d'', ''d''] = Some ''two'')
   \<and> (let (x, r', d') = publish_local_group ex_sha (map fst) 0 1 True
        (publish_operations (draft_publish_change_set ex_sha (pr_tree ex_dir_root) ex_file_draft True)) ex_dir_root ex_file_draft in
      x = Inl (OSError ''FileExistsError'') \<and> file_at (pr_tree r') [''d''] = None \<and> file_at (pr_tree r') [''d'', ''d''] = Some ''two'')"
proof -
  have "tree_ok (pr_tree ex_dir_root)" "tidy_path [''d'']" "file_at (dr_tree ex_file_draft) [''d''] = Some ''two''"
    "is_dir_at (pr_tree ex_dir_root) [''d'']" "\<not> is_dir_at (pr_tree ex_dir_root) ([''d''] @ [last [''d'']])"
    by code_simp+
  from file_over_directory_misplaced [OF this] have "\<exists>r'. apply_op (dr_tree ex_file_draft)
      \<lparr>po_kind = CreateOp, po_path = [''d''], po_draft = plan_path [''d''], po_target = plan_path [''d'']\<rparr>
      ex_dir_root = (None, r') \<and> file_at (pr_tree r') [''d'', ''d''] = Some ''two''" by auto
  moreover have "let (x, r', d') = publish_local_group ex_sha (map fst) 0 1 True
        (publish_operations (draft_publish_change_set ex_sha (pr_tree ex_dir_root) ex_file_draft True)) ex_dir_root ex_file_draft in
      x = Inl (OSError ''FileExistsError'') \<and> file_at (pr_tree r') [''d''] = None \<and> file_at (pr_tree r') [''d'', ''d''] = Some ''two''"
    by code_simp
  ultimately show ?thesis by blast
qed

end
