(* ===== verification/Project_Permissions.thy ===== *)
theory Project_Permissions
  imports Project_Files
begin

text \<open>
  Path permissions of a Project Context (\<open>systems/cortex/project_context/permissions.py\<close>) and the snapshot
  validation they rely on (\<open>snapshot.py\<close>, without the checks of local paths): lexical normalisation, the scope a
  snapshot derives, and the verdict on a path.
\<close>

section \<open>Paths\<close>

definition clean_opt :: "pyval \<Rightarrow> string option" where
  "clean_opt v = (case v of PyStr s \<Rightarrow> if py_strip s = [] then None else Some (py_strip s) | _ \<Rightarrow> None)"

definition as_value_list :: "pyval \<Rightarrow> pyval list" where
  "as_value_list v = (case v of PyNone \<Rightarrow> [] | PyList xs \<Rightarrow> xs | _ \<Rightarrow> if v = PyStr [] then [] else [v])"

text \<open>The loop over the parts; the second argument is the reversed stack.\<close>

fun collapse :: "string list \<Rightarrow> string list \<Rightarrow> string list option" where
  "collapse [] acc = Some (rev acc)"
| "collapse (part # parts) acc =
     (if part = [] \<or> part = ''.'' then collapse parts acc
      else if part = ''..'' then (case acc of [] \<Rightarrow> None | _ # up \<Rightarrow> collapse parts up)
      else collapse parts (part # acc))"

definition is_absolute :: "string \<Rightarrow> bool" where
  "is_absolute s = py_startswith (slashes (py_strip s)) ''/''"

definition components :: "string \<Rightarrow> string list option" where
  "components s = (if py_strip s = [] then None else collapse (py_split_on (CHR ''/'') (slashes (py_strip s))) [])"

definition normalize_project_path :: "string \<Rightarrow> string option" where
  "normalize_project_path s = (case components s of
       None \<Rightarrow> None
     | Some parts \<Rightarrow> Some
         (let joined = py_join ''/'' parts; normalized = (if is_absolute s then ''/'' @ joined else joined) in
          if normalized \<noteq> [] then normalized else if is_absolute s then ''/'' else ''.''))"

definition rstrip_slashes :: "string \<Rightarrow> string" where
  "rstrip_slashes s = rev (dropWhile (\<lambda>c. c = CHR ''/'') (rev s))"

definition path_is_within :: "string \<Rightarrow> string \<Rightarrow> bool" where
  "path_is_within path root = (case (normalize_project_path path, normalize_project_path root) of
       (Some p, Some r) \<Rightarrow> r \<in> {[], ''.'', ''/''} \<or> p = r \<or> py_startswith p (rstrip_slashes r @ ''/'')
     | _ \<Rightarrow> False)"

section \<open>The scope of a snapshot\<close>

definition scope_items :: "string list \<Rightarrow> pydict \<Rightarrow> string list" where
  "scope_items keys d = concat (map (\<lambda>k. List.map_filter clean_opt (as_value_list (dget d k))) keys)"

definition resource_scope_roots :: "pydict \<Rightarrow> string list \<times> string list" where
  "resource_scope_roots r =
     (let permissions = as_mapping (dget r ''permissions''); scope = as_mapping (dget r ''scope'') in
      (scope_items [''allowed_paths'', ''files'', ''folders''] r
       @ scope_items [''allowed_paths'', ''read'', ''write'', ''read_write''] permissions
       @ scope_items [''allowed_paths'', ''files'', ''folders''] scope,
       scope_items [''forbidden_paths'', ''deny'', ''denied_paths''] permissions
       @ scope_items [''forbidden_paths'', ''deny'', ''denied_paths''] scope
       @ scope_items [''forbidden_paths'', ''denied_paths''] r))"

definition rooted :: "string \<Rightarrow> string \<Rightarrow> string" where
  "rooted root item = (if py_startswith item ''/'' then item else rstrip_slashes root @ ''/'' @ item)"

definition resource_allowed :: "pydict \<Rightarrow> string list" where
  "resource_allowed r = (let allowed = fst (resource_scope_roots r) in case clean_opt (dget r ''path'') of
       None \<Rightarrow> allowed
     | Some root \<Rightarrow> (if allowed = [] then [root] else map (rooted root) allowed))"

definition resource_forbidden :: "pydict \<Rightarrow> string list" where
  "resource_forbidden r = (let denied = snd (resource_scope_roots r) in case clean_opt (dget r ''path'') of
       None \<Rightarrow> denied
     | Some root \<Rightarrow> map (rooted root) denied)"

definition resource_mode :: "pydict \<Rightarrow> string option" where
  "resource_mode r = (case clean_opt (dget r ''mode'') of
       Some m \<Rightarrow> Some (py_lower m)
     | None \<Rightarrow> (case clean_opt (dget r ''permission'') of
         Some m \<Rightarrow> Some (py_lower m)
       | None \<Rightarrow> map_option py_lower (clean_opt (dget (as_mapping (dget r ''permissions'')) ''mode''))))"

fun dedupe :: "string list \<Rightarrow> string list \<Rightarrow> string list" where
  "dedupe seen [] = []"
| "dedupe seen (v # vs) = (case normalize_project_path v of
       None \<Rightarrow> dedupe seen vs
     | Some n \<Rightarrow> if n = [] \<or> n \<in> set seen then dedupe seen vs else n # dedupe (n # seen) vs)"

definition PERMISSION_MODES :: "string list" where
  "PERMISSION_MODES = [''read'', ''write'', ''admin'', ''read_write'']"

record permission_scope =
  sc_permission_mode :: string
  sc_resource_ids :: "string list"
  sc_allowed_paths :: "string list"
  sc_forbidden_paths :: "string list"

definition snapshot_resources :: "pyval \<Rightarrow> pydict list" where
  "snapshot_resources snapshot = (case dget (as_mapping snapshot) ''resources'' of
       PyList rs \<Rightarrow> map as_mapping (filter is_dict rs) | _ \<Rightarrow> [])"

definition derive_project_permission_scope :: "pyval \<Rightarrow> permission_scope" where
  "derive_project_permission_scope snapshot =
     (let rs = snapshot_resources snapshot;
          modes = sort (remdups (filter (\<lambda>m. m \<in> set PERMISSION_MODES) (List.map_filter resource_mode rs))) in
      \<lparr>sc_permission_mode = (case modes of [] \<Rightarrow> ''read_write'' | [m] \<Rightarrow> m | _ \<Rightarrow> ''mixed''),
       sc_resource_ids = take 100 (List.map_filter (\<lambda>r. clean_opt (dget r ''id'')) rs),
       sc_allowed_paths = dedupe [] (concat (map resource_allowed rs)),
       sc_forbidden_paths = dedupe [] (concat (map resource_forbidden rs))\<rparr>)"

section \<open>The verdict on a path\<close>

datatype refusal =
    EscapesRoot
  | InvalidSnapshot
  | InsideForbidden string
  | OutsideAllowed
  | ReadOnly

text \<open>The reason of a refusal, or \<open>None\<close> when the path is allowed.\<close>

definition validate_path_permission :: "string \<Rightarrow> pyval \<Rightarrow> string \<Rightarrow> refusal option" where
  "validate_path_permission path snapshot operation =
     (let scope = derive_project_permission_scope snapshot in case normalize_project_path path of
        None \<Rightarrow> Some EscapesRoot
      | Some p \<Rightarrow>
          (if dget (as_mapping snapshot) ''status'' = PyStr ''invalid'' then Some InvalidSnapshot
           else case find (path_is_within p) (sc_forbidden_paths scope) of
             Some denied \<Rightarrow> Some (InsideForbidden denied)
           | None \<Rightarrow>
               (if sc_allowed_paths scope \<noteq> [] \<and> \<not> list_ex (path_is_within p) (sc_allowed_paths scope) then Some OutsideAllowed
                else if operation \<in> {''write'', ''edit'', ''delete''} \<and> sc_permission_mode scope = ''read'' then Some ReadOnly
                else None)))"

section \<open>Validation of a snapshot\<close>

datatype snapshot_error =
    NoSnapshot
  | ResourcesNotList
  | ResourceNotObject nat
  | DuplicateId nat string
  | KindMissing nat
  | LocatorMissing nat
  | PathEscapes nat string
  | BrowserOnlyUri nat
  | ScopeNotStrings nat string
  | ScopeEscapes nat string string
  | BadMode nat

text \<open>\<open>urlsplit(uri).scheme\<close> of a stripped text.\<close>

definition scheme_char :: "char \<Rightarrow> bool" where
  "scheme_char c = (let n = (of_char c :: nat) in
     (65 \<le> n \<and> n \<le> 90) \<or> (97 \<le> n \<and> n \<le> 122) \<or> (48 \<le> n \<and> n \<le> 57) \<or> c = CHR ''+'' \<or> c = CHR ''-'' \<or> c = CHR ''.'')"

definition url_scheme :: "string \<Rightarrow> string" where
  "url_scheme uri =
     (let u = filter (\<lambda>c. c \<noteq> CHR 0x09 \<and> c \<noteq> CHR 0x0A \<and> c \<noteq> CHR 0x0D) (dropWhile (\<lambda>c. (of_char c :: nat) \<le> 32) uri);
          s = takeWhile (\<lambda>c. c \<noteq> CHR '':'') u in
      if length s < length u \<and> s \<noteq> [] \<and> list_all scheme_char s
         \<and> (let n = (of_char (hd s) :: nat) in (65 \<le> n \<and> n \<le> 90) \<or> (97 \<le> n \<and> n \<le> 122))
      then py_lower s else [])"

definition scope_list_errors :: "nat \<Rightarrow> pydict \<Rightarrow> string \<Rightarrow> snapshot_error list" where
  "scope_list_errors i r key = (case dget r key of
       PyNone \<Rightarrow> []
     | PyList xs \<Rightarrow>
         (if list_all (\<lambda>x. clean_opt x \<noteq> None) xs then [] else [ScopeNotStrings i key])
         @ List.map_filter (\<lambda>x. case clean_opt x of
               None \<Rightarrow> Some (ScopeEscapes i key (py_str x))
             | Some s \<Rightarrow> if normalize_project_path s = None then Some (ScopeEscapes i key (py_str x)) else None) xs
     | _ \<Rightarrow> [ScopeNotStrings i key])"

definition resource_errors :: "nat \<Rightarrow> string list \<Rightarrow> pydict \<Rightarrow> snapshot_error list" where
  "resource_errors i seen r =
     (case clean_opt (dget r ''id'') of Some rid \<Rightarrow> if rid \<in> set seen then [DuplicateId i rid] else [] | None \<Rightarrow> [])
     @ (if clean_opt (dget r ''kind'') = None then [KindMissing i] else [])
     @ (if list_all (\<lambda>k. clean_opt (dget r k) = None) [''path'', ''uri'', ''name''] then [LocatorMissing i] else [])
     @ (case clean_opt (dget r ''path'') of
          Some p \<Rightarrow> if normalize_project_path p = None then [PathEscapes i p] else [] | None \<Rightarrow> [])
     @ (case clean_opt (dget r ''uri'') of
          Some u \<Rightarrow> if url_scheme u \<in> {''browser'', ''browser-file'', ''browser-folder''}
              \<and> \<not> (clean_opt (dget r ''path'') \<noteq> None \<or> py_truthy (dget r ''uploaded_files'') \<or> py_truthy (dget r ''allowed_paths''))
            then [BrowserOnlyUri i] else []
        | None \<Rightarrow> [])
     @ concat (map (scope_list_errors i r) [''allowed_paths'', ''forbidden_paths'', ''denied_paths''])
     @ (let mode = (if is_dict (dget r ''permissions'') \<and> dget r ''mode'' = PyNone
                    then dget (as_mapping (dget r ''permissions'')) ''mode'' else dget r ''mode'') in
        if mode \<noteq> PyNone \<and> py_lower (py_strip (py_str mode)) \<notin> set PERMISSION_MODES then [BadMode i] else [])"

fun resources_errors :: "nat \<Rightarrow> string list \<Rightarrow> pyval list \<Rightarrow> snapshot_error list" where
  "resources_errors i seen [] = []"
| "resources_errors i seen (v # vs) = (case v of
       PyDict r \<Rightarrow> resource_errors i seen r
         @ resources_errors (Suc i) (case clean_opt (dget r ''id'') of Some rid \<Rightarrow> rid # seen | None \<Rightarrow> seen) vs
     | _ \<Rightarrow> ResourceNotObject i # resources_errors (Suc i) seen vs)"

datatype snapshot_status = SnapshotMissing | SnapshotInvalid | SnapshotValidated

definition validate_project_context_snapshot :: "pyval \<Rightarrow> snapshot_status \<times> snapshot_error list" where
  "validate_project_context_snapshot snapshot = (case snapshot of
       PyDict d \<Rightarrow> (case dget d ''resources'' of
           PyList rs \<Rightarrow> (let errors = resources_errors 0 [] rs in
             (if errors \<noteq> [] then SnapshotInvalid else SnapshotValidated, errors))
         | _ \<Rightarrow> (SnapshotInvalid, [ResourcesNotList]))
     | _ \<Rightarrow> (SnapshotMissing, [NoSnapshot]))"

section \<open>Normal paths\<close>

definition part_ok :: "string \<Rightarrow> bool" where
  "part_ok c = (c \<notin> {[], ''.'', ''..''} \<and> CHR ''/'' \<notin> set c)"

definition rendered :: "bool \<Rightarrow> string list \<Rightarrow> string" where
  "rendered a ps = (if a then ''/'' else []) @ py_join ''/'' ps"

lemma collapse_ok:
  "collapse parts acc = Some cs \<Longrightarrow> (\<And>c. c \<in> set acc \<union> set parts \<Longrightarrow> CHR ''/'' \<notin> set c) \<Longrightarrow> list_all part_ok acc \<Longrightarrow> list_all part_ok cs"
proof (induction parts acc rule: collapse.induct)
  case (2 part parts acc)
  then show ?case by (auto simp: part_ok_def split: if_splits list.splits)
qed (auto simp: list_all_iff)

lemma collapse_fixed: "list_all part_ok ps \<Longrightarrow> collapse (ps @ rest) acc = collapse rest (rev ps @ acc)"
  by (induction ps arbitrary: acc) (auto simp: part_ok_def)

lemma components_ok:
  assumes "components s = Some ps"
  shows "list_all part_ok ps"
  using assms collapse_ok [of _ "[]" ps] split_no_separator by (auto simp: components_def split: if_splits)

lemma normalize_Some:
  "normalize_project_path s = Some n \<longleftrightarrow>
   (\<exists>ps. components s = Some ps \<and> n = (if ps = [] then (if is_absolute s then ''/'' else ''.'') else rendered (is_absolute s) ps))"
proof (cases "components s")
  case (Some ps)
  have "py_join ''/'' ps \<noteq> []" if "ps \<noteq> []"
    using that components_ok [OF Some] py_join_ends [of ps "''/''"] by (auto simp: list_all_iff part_ok_def)
  then show ?thesis
    by (cases "ps = []"; cases "is_absolute s") (auto simp: normalize_project_path_def Some rendered_def Let_def)
qed (simp add: normalize_project_path_def)

text \<open>The text of a normal path determines its kind and its parts.\<close>

lemma split_rendered:
  assumes "list_all part_ok ps" and "ps \<noteq> []"
  shows "py_split_on (CHR ''/'') (rendered a ps) = (if a then [[]] else []) @ ps"
proof -
  have "py_split_on (CHR ''/'') (py_join ''/'' ps) = ps"
    using assms by (intro split_join) (auto simp: list_all_iff part_ok_def)
  then show ?thesis by (simp add: rendered_def)
qed

lemma rendered_within:
  assumes ps: "list_all part_ok ps" "ps \<noteq> []" and rs: "list_all part_ok rs" "rs \<noteq> []"
  shows "rendered a ps = rendered b rs \<or> py_startswith (rendered a ps) (rendered b rs @ ''/'') \<longleftrightarrow> a = b \<and> prefix rs ps"
proof
  assume "rendered a ps = rendered b rs \<or> py_startswith (rendered a ps) (rendered b rs @ ''/'')"
  then obtain zs where "(if a then [[]] else []) @ ps = (if b then [[]] else []) @ rs @ zs"
  proof
    assume "rendered a ps = rendered b rs"
    then show ?thesis using that [of "[]"] split_rendered [OF ps, of a] split_rendered [OF rs, of b] by simp
  next
    assume "py_startswith (rendered a ps) (rendered b rs @ ''/'')"
    then obtain x where "rendered a ps = rendered b rs @ CHR ''/'' # x"
      unfolding py_startswith_def by (metis append.assoc append_Cons append_Nil append_take_drop_id)
    then have "py_split_on (CHR ''/'') (rendered a ps) = py_split_on (CHR ''/'') (rendered b rs) @ py_split_on (CHR ''/'') x"
      by (simp add: split_at)
    then show ?thesis using that split_rendered [OF ps, of a] split_rendered [OF rs, of b] by simp
  qed
  moreover have "[] \<notin> set ps" "[] \<notin> set rs" using ps rs by (auto simp: list_all_iff part_ok_def)
  ultimately show "a = b \<and> prefix rs ps" using ps(2) rs(2) by (cases ps; cases rs) (auto split: if_splits)
next
  assume "a = b \<and> prefix rs ps"
  then obtain zs where zs: "ps = rs @ zs" "a = b" by (auto simp: prefix_def)
  show "rendered a ps = rendered b rs \<or> py_startswith (rendered a ps) (rendered b rs @ ''/'')"
  proof (cases "zs = []")
    case False
    have "rendered a ps = (rendered b rs @ ''/'') @ py_join ''/'' zs"
      using py_join_append [OF rs(2) False, of "''/''"] zs by (simp add: rendered_def)
    then show ?thesis by (simp only: py_startswith_def) simp
  qed (use zs in simp)
qed

lemma rstrip_rendered:
  assumes "list_all part_ok rs" and "rs \<noteq> []"
  shows "rstrip_slashes (rendered b rs) = rendered b rs"
proof -
  have "[] \<notin> set rs" using assms by (auto simp: list_all_iff part_ok_def)
  note e = py_join_ends [OF assms(2) this, of "''/''"]
  have "last rs \<in> set rs" using assms(2) by simp
  then have "CHR ''/'' \<notin> set (last rs)" "last rs \<noteq> []" using assms(1) by (auto simp: list_all_iff part_ok_def)
  then have "last (py_join ''/'' rs) \<noteq> CHR ''/''" using e by (metis last_in_set)
  then show ?thesis using e unfolding rstrip_slashes_def rendered_def
    by (subst dropWhile_fixed) (simp_all add: hd_rev)
qed

text \<open>Being within a root is having the root's parts as a prefix.\<close>

lemma within_components:
  "path_is_within path root \<longleftrightarrow> (\<exists>ps rs. components path = Some ps \<and> components root = Some rs
     \<and> (rs = [] \<or> is_absolute path = is_absolute root \<and> prefix rs ps))"
proof (cases "components path = None \<or> components root = None")
  case True
  then show ?thesis by (auto simp: path_is_within_def normalize_project_path_def split: option.splits)
next
  case False
  then obtain ps rs where c: "components path = Some ps" "components root = Some rs" by auto
  define p where "p = (if ps = [] then (if is_absolute path then ''/'' else ''.'') else rendered (is_absolute path) ps)"
  define r where "r = (if rs = [] then (if is_absolute root then ''/'' else ''.'') else rendered (is_absolute root) rs)"
  have n: "normalize_project_path path = Some p" "normalize_project_path root = Some r"
    using c by (auto simp: normalize_Some p_def r_def)
  have w: "path_is_within path root \<longleftrightarrow> r \<in> {[], ''.'', ''/''} \<or> p = r \<or> py_startswith p (rstrip_slashes r @ ''/'')"
    by (simp add: path_is_within_def n)
  note ok = components_ok [OF c(1)] components_ok [OF c(2)]
  have "path_is_within path root \<longleftrightarrow> rs = [] \<or> is_absolute path = is_absolute root \<and> prefix rs ps"
  proof (cases "rs = []")
    case True
    then show ?thesis unfolding w by (simp add: r_def)
  next
    case rs: False
    then have r: "r = rendered (is_absolute root) rs" by (simp add: r_def)
    have split: "py_split_on (CHR ''/'') r = (if is_absolute root then [[]] else []) @ rs"
      unfolding r by (rule split_rendered [OF ok(2) rs])
    have "py_split_on (CHR ''/'') [] = [[]]" "py_split_on (CHR ''/'') ''.'' = [''.'']" "py_split_on (CHR ''/'') ''/'' = [[], []]"
      by simp_all
    then have top: "r \<notin> {[], ''.'', ''/''}" using split ok(2) rs by (cases rs) (auto simp: part_ok_def split: if_splits)
    have strip: "rstrip_slashes r = r" unfolding r by (rule rstrip_rendered [OF ok(2) rs])
    show ?thesis
    proof (cases "ps = []")
      case True
      then have p: "p = ''/'' \<or> p = ''.''" by (simp add: p_def)
      have "length r \<ge> 1" using top by (cases r) auto
      then have "\<not> py_startswith p (r @ ''/'')" using p top by (cases r) (auto simp: py_startswith_def)
      then show ?thesis unfolding w strip using top p rs True by auto
    next
      case False
      then have "p = rendered (is_absolute path) ps" by (simp add: p_def)
      then show ?thesis
        unfolding w strip using top rendered_within [OF ok(1) False ok(2) rs] rs by (simp add: r)
    qed
  qed
  then show ?thesis using c by simp
qed

section \<open>The verdict in terms of parts\<close>

definition covers :: "string \<Rightarrow> string \<Rightarrow> bool" where
  "covers root path = (case (components root, components path) of
       (Some rs, Some ps) \<Rightarrow> rs = [] \<or> is_absolute path = is_absolute root \<and> prefix rs ps
     | _ \<Rightarrow> False)"

lemma within_covers: "path_is_within path root = covers root path"
  by (auto simp: within_components covers_def split: option.splits)

text \<open>
  C40: a path is permitted exactly when it normalises without escaping, the snapshot is not invalid, no forbidden
  path has its parts as a prefix, some allowed path has unless none is given (an empty list of allowed paths restricts
  nothing), and a writing operation meets no read-only scope. An invalid snapshot refuses every path, where the
  documentation of the function promises to allow it; without a snapshot every path that does not escape is permitted.
\<close>
theorem permitted_exactly:
  "(validate_path_permission path snapshot operation = None \<longleftrightarrow>
    (\<exists>p. normalize_project_path path = Some p \<and> dget (as_mapping snapshot) ''status'' \<noteq> PyStr ''invalid''
      \<and> (\<forall>d \<in> set (sc_forbidden_paths (derive_project_permission_scope snapshot)). \<not> covers d p)
      \<and> (let allowed = sc_allowed_paths (derive_project_permission_scope snapshot) in
          allowed = [] \<or> (\<exists>a \<in> set allowed. covers a p))
      \<and> (operation \<in> {''write'', ''edit'', ''delete''} \<longrightarrow>
          sc_permission_mode (derive_project_permission_scope snapshot) \<noteq> ''read'')))
    \<and> (normalize_project_path path \<noteq> None \<and> dget (as_mapping snapshot) ''status'' = PyStr ''invalid''
        \<longrightarrow> validate_path_permission path snapshot operation = Some InvalidSnapshot)
    \<and> (validate_path_permission path PyNone operation = None \<longleftrightarrow> normalize_project_path path \<noteq> None)"
proof (intro conjI)
  show "validate_path_permission path snapshot operation = None \<longleftrightarrow>
    (\<exists>p. normalize_project_path path = Some p \<and> dget (as_mapping snapshot) ''status'' \<noteq> PyStr ''invalid''
      \<and> (\<forall>d \<in> set (sc_forbidden_paths (derive_project_permission_scope snapshot)). \<not> covers d p)
      \<and> (let allowed = sc_allowed_paths (derive_project_permission_scope snapshot) in
          allowed = [] \<or> (\<exists>a \<in> set allowed. covers a p))
      \<and> (operation \<in> {''write'', ''edit'', ''delete''} \<longrightarrow>
          sc_permission_mode (derive_project_permission_scope snapshot) \<noteq> ''read''))"
proof (cases "normalize_project_path path")
  case (Some p)
  define scope where "scope = derive_project_permission_scope snapshot"
  show ?thesis
  proof (cases "find (path_is_within p) (sc_forbidden_paths scope)")
    case None
    then have "\<forall>d \<in> set (sc_forbidden_paths scope). \<not> covers d p" by (auto simp: find_None_iff within_covers)
    then show ?thesis
      using None Some unfolding validate_path_permission_def Let_def scope_def [symmetric]
      by (auto simp: list_ex_iff within_covers)
  next
    case (Some d)
    then have "\<exists>d \<in> set (sc_forbidden_paths scope). covers d p" by (auto simp: find_Some_iff within_covers)
    then show ?thesis
      using Some \<open>normalize_project_path path = Some p\<close> unfolding validate_path_permission_def Let_def scope_def [symmetric] by auto
  qed
qed (simp add: validate_path_permission_def)
  show "normalize_project_path path \<noteq> None \<and> dget (as_mapping snapshot) ''status'' = PyStr ''invalid''
      \<longrightarrow> validate_path_permission path snapshot operation = Some InvalidSnapshot"
    by (auto simp: validate_path_permission_def Let_def)
  have "sc_allowed_paths (derive_project_permission_scope PyNone) = []" "sc_forbidden_paths (derive_project_permission_scope PyNone) = []"
    "sc_permission_mode (derive_project_permission_scope PyNone) \<noteq> ''read''" "dget (as_mapping PyNone) ''status'' = PyNone"
    by code_simp+
  then show "validate_path_permission path PyNone operation = None \<longleftrightarrow> normalize_project_path path \<noteq> None"
    by (auto simp: validate_path_permission_def Let_def split: option.split)
qed

lemma permitted_exactly_witness:
  "covers ''/p/a'' ''/p/a/x'' \<and> validate_path_permission ''/p/a/../a/x'' (PyDict [(''resources'', PyList [PyDict
     [(''path'', PyStr ''/p/a'')]])]) ''write'' = None"
proof -
  let ?s = "PyDict [(''resources'', PyList [PyDict [(''path'', PyStr ''/p/a'')]])]"
  have v: "validate_path_permission ''/p/a/../a/x'' ?s ''write'' = None"
    and n: "normalize_project_path ''/p/a/../a/x'' = Some ''/p/a/x''"
    and a: "sc_allowed_paths (derive_project_permission_scope ?s) = [''/p/a'']" by code_simp+
  from permitted_exactly [of "''/p/a/../a/x''" ?s "''write''"] show ?thesis using n a v by auto
qed

section \<open>Scoped items\<close>

lemma collapse_append:
  "collapse (xs @ ys) acc = (case collapse xs acc of None \<Rightarrow> None | Some cs \<Rightarrow> collapse ys (rev cs))"
  by (induction xs acc rule: collapse.induct) (auto split: list.splits)

lemma collapse_stack: "collapse parts a = Some cs \<Longrightarrow> collapse parts (a @ b) = Some (rev b @ cs)"
  by (induction parts a arbitrary: cs rule: collapse.induct) (auto split: if_splits list.splits)

lemma collapse_blanks: "collapse (replicate n []) acc = Some (rev acc)"
  by (induction n) simp_all

lemma rstrip_slashes_replicate: "\<exists>n. s = rstrip_slashes s @ replicate n (CHR ''/'')"
proof -
  let ?slash = "\<lambda>c. c = CHR ''/''"
  have "takeWhile ?slash (rev s) = replicate (length (takeWhile ?slash (rev s))) (CHR ''/'')"
    by (rule replicate_length_same [symmetric]) (auto dest: set_takeWhileD)
  then have "rev s = replicate (length (takeWhile ?slash (rev s))) (CHR ''/'') @ dropWhile ?slash (rev s)"
    by (metis takeWhile_dropWhile_id)
  then have "s = rstrip_slashes s @ replicate (length (takeWhile ?slash (rev s))) (CHR ''/'')"
    unfolding rstrip_slashes_def by (metis rev_append rev_replicate rev_rev_ident)
  then show ?thesis ..
qed

lemma split_slashes: "py_split_on c (s @ replicate n c) = py_split_on c s @ replicate n []"
proof (induction n)
  case (Suc n)
  have "py_split_on c (s @ replicate (Suc n) c) = py_split_on c ((s @ replicate n c) @ c # [])"
    by (simp add: replicate_append_same)
  then show ?case by (simp only: split_at Suc.IH) (simp add: replicate_append_same)
qed simp

lemma strip_fixed_ends:
  assumes "py_strip s = s" and "s \<noteq> []"
  shows "\<not> py_space (hd s) \<and> \<not> py_space (last s)"
  using py_strip_ends [of s] assms by simp

lemma strip_fixedI: "s \<noteq> [] \<Longrightarrow> \<not> py_space (hd s) \<Longrightarrow> \<not> py_space (last s) \<Longrightarrow> py_strip s = s"
  by (simp add: py_strip_def dropWhile_fixed hd_rev)

lemma is_absolute_hd: "is_absolute s \<longleftrightarrow> py_strip s \<noteq> [] \<and> hd (py_strip s) \<in> {CHR ''/'', CHR 0x5C}"
  by (cases "py_strip s") (auto simp: is_absolute_def slashes_def py_startswith_def)

lemma rooted_components:
  assumes root: "py_strip root = root" "root \<noteq> []" "components root = Some rs"
    and item: "py_strip item = item" "item \<noteq> []" "\<not> py_startswith item ''/''" "components item = Some cs"
  shows "components (rooted root item) = Some (rs @ cs) \<and> is_absolute (rooted root item) = is_absolute root"
proof -
  define R where "R = rstrip_slashes root"
  obtain n where n: "root = R @ replicate n (CHR ''/'')" using rstrip_slashes_replicate R_def by blast
  have r: "rooted root item = R @ CHR ''/'' # item" using item(3) by (simp add: rooted_def R_def)
  have sep: "\<not> py_space CHR ''/''" by (simp add: py_space_def)
  have hd_eq: "hd (R @ CHR ''/'' # item) = hd root" using n root(2) by (cases R; cases n) auto
  then have strip: "py_strip (rooted root item) = rooted root item"
    unfolding r using hd_eq strip_fixed_ends [OF root(1,2)] strip_fixed_ends [OF item(1,2)] item(2) by (intro strip_fixedI) auto
  have ts: "slashes (a @ b) = slashes a @ slashes b" "slashes (CHR ''/'' # b) = CHR ''/'' # slashes b"
    "slashes (replicate n CHR ''/'') = replicate n (CHR ''/'')" for a b
    by (simp_all add: slashes_def)
  have "collapse (py_split_on (CHR ''/'') (slashes R) @ replicate n []) [] = Some rs"
    using root(1,3) unfolding components_def by (simp add: split_slashes ts n split: if_splits)
  then have R: "collapse (py_split_on (CHR ''/'') (slashes R)) [] = Some rs"
    by (simp add: collapse_append collapse_blanks split: option.splits)
  have "collapse (py_split_on (CHR ''/'') (slashes item)) [] = Some cs"
    using item(1,4) by (simp add: components_def split: if_splits)
  from collapse_stack [OF this, of "rev rs"] have "components (rooted root item) = Some (rs @ cs)"
    using item(2) by (simp add: components_def strip [unfolded r] r ts split_at collapse_append R)
  moreover have "is_absolute (rooted root item) = is_absolute root"
    using hd_eq root(2) by (simp add: is_absolute_hd root(1) strip [unfolded r] r)
  ultimately show ?thesis ..
qed

text \<open>
  An item of a resource's scope that is relative and does not escape by itself names a path inside the
  resource's root.
\<close>
theorem scoped_items_stay_inside:
  assumes "py_strip root = root" and "root \<noteq> []" and "normalize_project_path root \<noteq> None"
    and "py_strip item = item" and "item \<noteq> []" and "\<not> py_startswith item ''/''" and "normalize_project_path item \<noteq> None"
  shows "path_is_within (rooted root item) root"
proof -
  obtain rs cs where "components root = Some rs" "components item = Some cs"
    using assms(3,7) by (auto simp: normalize_project_path_def split: option.splits)
  with rooted_components [OF assms(1,2) this(1) assms(4-6) this(2)] show ?thesis by (simp add: within_components)
qed

lemma scoped_items_stay_inside_witness: "path_is_within (rooted ''/p/a/'' ''x/../y'') ''/p/a/''"
proof -
  have "py_strip ''/p/a/'' = ''/p/a/''" "''/p/a/'' \<noteq> []" "normalize_project_path ''/p/a/'' \<noteq> None"
    "py_strip ''x/../y'' = ''x/../y''" "''x/../y'' \<noteq> []" "\<not> py_startswith ''x/../y'' ''/''" "normalize_project_path ''x/../y'' \<noteq> None"
    by code_simp+
  then show ?thesis by (rule scoped_items_stay_inside)
qed

lemma dedupe_none: "(\<And>v. v \<in> set vs \<Longrightarrow> normalize_project_path v = None) \<Longrightarrow> dedupe seen vs = []"
  by (induction vs) auto

definition ex_sibling :: pyval where
  "ex_sibling = PyDict [(''resources'', PyList [PyDict [(''id'', PyStr ''r''), (''kind'', PyStr ''folder''),
     (''path'', PyStr ''/p/a''), (''scope'', PyDict [(''allowed_paths'', PyList [PyStr ''../b''])])]])]"

definition ex_escape :: pyval where
  "ex_escape = PyDict [(''resources'', PyList [PyDict [(''id'', PyStr ''r''), (''kind'', PyStr ''folder''),
     (''path'', PyStr ''a''), (''permissions'', PyDict [(''read'', PyList [PyStr ''../../b''])])]])]"

text \<open>
  A scope whose allowed paths all escape permits everything: such paths are dropped, and no allowed path means
  no restriction. Validation does not look at the paths under \<open>permissions\<close> and \<open>scope\<close>.
\<close>
theorem escaping_scope_permits_everything:
  assumes "\<And>r v. r \<in> set (snapshot_resources snapshot) \<Longrightarrow> v \<in> set (resource_allowed r) \<Longrightarrow> normalize_project_path v = None"
    and "\<And>r. r \<in> set (snapshot_resources snapshot) \<Longrightarrow> resource_forbidden r = []"
    and "dget (as_mapping snapshot) ''status'' \<noteq> PyStr ''invalid''" and "normalize_project_path path \<noteq> None"
  shows "validate_path_permission path snapshot ''read'' = None"
proof -
  have "sc_allowed_paths (derive_project_permission_scope snapshot) = []"
    unfolding derive_project_permission_scope_def Let_def using assms(1) by (auto intro!: dedupe_none)
  moreover have "concat (map resource_forbidden (snapshot_resources snapshot)) = []" using assms(2) by simp
  then have "sc_forbidden_paths (derive_project_permission_scope snapshot) = []"
    unfolding derive_project_permission_scope_def Let_def by (simp del: concat_eq_Nil_conv)
  ultimately show ?thesis using assms(3,4) by (auto simp: validate_path_permission_def Let_def)
qed

lemma escaping_scope_permits_everything_witness:
  "validate_path_permission ''/etc/passwd'' ex_escape ''read'' = None
   \<and> validate_project_context_snapshot ex_escape = (SnapshotValidated, [])
   \<and> validate_project_context_snapshot ex_sibling = (SnapshotValidated, [])
   \<and> sc_allowed_paths (derive_project_permission_scope ex_sibling) = [''/p/b'']"
proof -
  have rs: "\<forall>r \<in> set (snapshot_resources ex_escape). resource_forbidden r = [] \<and> (\<forall>v \<in> set (resource_allowed r). normalize_project_path v = None)"
    "dget (as_mapping ex_escape) ''status'' \<noteq> PyStr ''invalid''" "normalize_project_path ''/etc/passwd'' \<noteq> None" by code_simp+
  then have "validate_path_permission ''/etc/passwd'' ex_escape ''read'' = None"
    by (intro escaping_scope_permits_everything) auto
  moreover have "validate_project_context_snapshot ex_escape = (SnapshotValidated, [])"
    "validate_project_context_snapshot ex_sibling = (SnapshotValidated, [])"
    "sc_allowed_paths (derive_project_permission_scope ex_sibling) = [''/p/b'']" by code_simp+
  ultimately show ?thesis by simp
qed

end
