(* ===== verification/Mapping_Expressions.thy ===== *)
theory Mapping_Expressions
  imports Py_Prelude
begin

text \<open>
  Mapping expressions (\<open>platform/mapping_expressions.py\<close>): the validator, the evaluator and the two template
  languages. The caller's path lookup and clock are functions that pass the caller's state \<open>'s\<close>; a looked up
  value is \<open>None\<close> when it is the caller's sentinel for a missing path. \<open>sentinel\<close> is the text \<open>str\<close> gives for it.
\<close>

section \<open>Templates\<close>

text \<open>\<open>[a-zA-Z_]\<close> and \<open>[\w.-]\<close>, for the characters of this model.\<close>

definition name_start :: "char \<Rightarrow> bool" where
  "name_start c = (let n = (of_char c :: nat) in (65 \<le> n \<and> n \<le> 90) \<or> (97 \<le> n \<and> n \<le> 122) \<or> c = CHR ''_'')"

definition name_char :: "char \<Rightarrow> bool" where
  "name_char c = (let n = (of_char c :: nat) in
     name_start c \<or> (48 \<le> n \<and> n \<le> 57) \<or> c = CHR ''.'' \<or> c = CHR ''-''
     \<or> n \<in> {170, 178, 179, 181, 185, 186, 188, 189, 190} \<or> (192 \<le> n \<and> n \<noteq> 215 \<and> n \<noteq> 247))"

type_synonym 's lookup = "string \<Rightarrow> 's \<Rightarrow> pyval option \<times> 's"

definition template_text :: "string \<Rightarrow> pyval option \<Rightarrow> string" where
  "template_text sentinel v = (case v of None \<Rightarrow> sentinel | Some w \<Rightarrow> if w = PyNone then [] else py_str w)"

function render_mapping_template :: "string \<Rightarrow> 's lookup \<Rightarrow> string \<Rightarrow> 's \<Rightarrow> string \<times> 's" where
  "render_mapping_template sentinel resolve [] s = ([], s)"
| "render_mapping_template sentinel resolve (c # cs) s =
     (let name = takeWhile name_char cs; rest = dropWhile name_char cs in
      if c = CHR ''{'' \<and> name \<noteq> [] \<and> name_start (hd name) \<and> rest \<noteq> [] \<and> hd rest = CHR ''}''
      then (let (v, s1) = resolve name s; (out, s2) = render_mapping_template sentinel resolve (tl rest) s1 in
        (template_text sentinel v @ out, s2))
      else (let (out, s1) = render_mapping_template sentinel resolve cs s in (c # out, s1)))"
  by pat_completeness auto

lemma length_tl_dropWhile: "length (dropWhile P xs) - Suc 0 < Suc (length xs)"
  using length_dropWhile_le [of P xs] by simp

termination render_mapping_template
  by (relation "measure (\<lambda>(_, _, t, _). length t)") (auto intro: length_tl_dropWhile)

text \<open>The scanner of path templates: the text so far, whether a placeholder was missing, and the state.\<close>

definition not_brace :: "char \<Rightarrow> bool" where
  "not_brace c = (c \<noteq> CHR ''{'' \<and> c \<noteq> CHR ''}'')"

definition unmatched_brace :: "'a result" where
  "unmatched_brace = Inl (MappingExpressionError [''path template contains an unmatched brace''])"

function render_parts :: "'s lookup \<Rightarrow> string \<Rightarrow> 's \<Rightarrow> (string \<times> bool \<times> 's) result" where
  "render_parts resolve [] s = Inr ([], False, s)"
| "render_parts resolve (c # cs) s =
     (if not_brace c then rbind (render_parts resolve cs s) (\<lambda>(out, gap, s1). Inr (c # out, gap, s1))
      else if cs \<noteq> [] \<and> hd cs = c then rbind (render_parts resolve (tl cs) s) (\<lambda>(out, gap, s1). Inr (c # out, gap, s1))
      else if c = CHR ''}'' then unmatched_brace
      else (let path = takeWhile not_brace cs; rest = dropWhile not_brace cs in
        if rest = [] \<or> hd rest \<noteq> CHR ''}'' then unmatched_brace
        else if py_strip path = []
        then Inl (MappingExpressionError [''path template placeholder requires a non-empty path''])
        else (let (v, s1) = resolve path s; gone = (v = None \<or> v = Some PyNone \<or> v = Some (PyStr [])) in
          rbind (render_parts resolve (tl rest) s1) (\<lambda>(out, gap, s2).
            Inr ((case v of Some w \<Rightarrow> if gone then [] else py_str w | None \<Rightarrow> []) @ out, gone \<or> gap, s2)))))"
  by pat_completeness auto

termination render_parts
  by (relation "measure (\<lambda>(_, t, _). length t)") (auto intro: length_tl_dropWhile)

definition render_path_template :: "'s lookup \<Rightarrow> string \<Rightarrow> 's \<Rightarrow> (pyval option \<times> 's) result" where
  "render_path_template resolve template s =
     (if CHR ''{'' \<notin> set template then Inr (resolve template s)
      else rbind (render_parts resolve template s) (\<lambda>(out, gap, s1). Inr (if gap then None else Some (PyStr out), s1)))"

section \<open>Evaluation\<close>

definition condition_path :: "pydict \<Rightarrow> pyval" where
  "condition_path c = (if map_of c ''path'' \<noteq> None then dget c ''path'' else dget c ''field'')"

definition condition_matches :: "'s lookup \<Rightarrow> pydict \<Rightarrow> 's \<Rightarrow> (bool \<times> 's) result" where
  "condition_matches resolve c s =
     (if condition_path c = PyNone then Inl (MappingExpressionError [''mapping condition requires field or path''])
      else (let (found, s1) = resolve (py_str (condition_path c)) s;
                v = (case found of None \<Rightarrow> PyNone | Some w \<Rightarrow> w) in
        if map_of c ''exists'' \<noteq> None then Inr ((v \<noteq> PyNone) = py_truthy (dget c ''exists''), s1)
        else if map_of c ''equals'' \<noteq> None then Inr (py_eq v (dget c ''equals''), s1)
        else if map_of c ''not_equals'' \<noteq> None then Inr (\<not> py_eq v (dget c ''not_equals''), s1)
        else if map_of c ''in'' \<noteq> None then (case dget c ''in'' of
            PyList options \<Rightarrow> Inr (list_ex (\<lambda>x. py_eq v x) options, s1)
          | _ \<Rightarrow> Inl (MappingExpressionError [''mapping condition.in must be a list'']))
        else Inr (py_truthy v, s1)))"

definition text_or_empty :: "pyval \<Rightarrow> string" where
  "text_or_empty v = py_str (py_or v (PyStr []))"

function evaluate_mapping_expression ::
  "string \<Rightarrow> 's lookup \<Rightarrow> ('s \<Rightarrow> string \<times> 's) \<Rightarrow> pyval \<Rightarrow> 's \<Rightarrow> (pyval option \<times> 's) result" where
  "evaluate_mapping_expression sentinel resolve clock expr s = (case expr of
       PyDict d \<Rightarrow>
         (if map_of d ''const'' \<noteq> None then Inr (Some (dget d ''const''), s)
          else if map_of d ''path'' \<noteq> None then Inr (resolve (text_or_empty (dget d ''path'')) s)
          else if map_of d ''template'' \<noteq> None then
            (let (out, s1) = render_mapping_template sentinel resolve (text_or_empty (dget d ''template'')) s in Inr (Some (PyStr out), s1))
          else if map_of d ''now'' \<noteq> None then
            (if dget d ''now'' = PyBool True then (let (t, s1) = clock s in Inr (Some (PyStr t), s1))
             else Inl (MappingExpressionError [''mapping expression.now must be true'']))
          else if map_of d ''if'' \<noteq> None then (case dget d ''if'' of
              PyDict c \<Rightarrow> rbind (condition_matches resolve c s) (\<lambda>(matches, s1).
                case map_of d (if matches then ''then'' else ''else'') of
                  None \<Rightarrow> Inr (Some PyNone, s1)
                | Some branch \<Rightarrow> if is_dict branch then evaluate_mapping_expression sentinel resolve clock branch s1
                    else Inr (Some branch, s1))
            | _ \<Rightarrow> Inl (MappingExpressionError [''mapping expression.if must be an object'']))
          else Inl (MappingExpressionError [''mapping expressions must use const, path, template, now, or if/then/else'']))
     | PyNone \<Rightarrow> Inr (Some PyNone, s)
     | v \<Rightarrow> Inr (resolve (py_str v) s))"
  by pat_completeness auto

termination evaluate_mapping_expression
  by (relation "measure (\<lambda>(_, _, _, e, _). size e)") (auto dest: size_map_of)

declare evaluate_mapping_expression.simps [simp del]

section \<open>Validation\<close>

definition MAPPING_KEYS :: "string list" where
  "MAPPING_KEYS = [''const'', ''path'', ''template'', ''if'', ''now'']"

fun is_str :: "pyval \<Rightarrow> bool" where
  "is_str (PyStr s) = True"
| "is_str _ = False"

fun is_list :: "pyval \<Rightarrow> bool" where
  "is_list (PyList xs) = True"
| "is_list _ = False"

fun is_bool :: "pyval \<Rightarrow> bool" where
  "is_bool (PyBool b) = True"
| "is_bool _ = False"

definition blank :: "pyval \<Rightarrow> bool" where
  "blank v = (case v of PyStr s \<Rightarrow> py_strip s = [] | _ \<Rightarrow> True)"

definition collect_condition_errors :: "string \<Rightarrow> pyval \<Rightarrow> string list" where
  "collect_condition_errors field condition = (case condition of
       PyDict c \<Rightarrow>
         (if blank (condition_path c) then [field @ '' requires field or path''] else [])
         @ (if map_of c ''in'' \<noteq> None \<and> \<not> is_list (dget c ''in'') then [field @ ''.in must be a list''] else [])
         @ (if map_of c ''exists'' \<noteq> None \<and> \<not> is_bool (dget c ''exists'') then [field @ ''.exists must be a boolean''] else [])
     | _ \<Rightarrow> [field @ '' must be an object''])"

function collect_expression_errors :: "string \<Rightarrow> pyval \<Rightarrow> bool \<Rightarrow> string list" where
  "collect_expression_errors field expr branch_literal = (case expr of
       PyDict d \<Rightarrow> (case filter (\<lambda>k. map_of d k \<noteq> None) MAPPING_KEYS of
           [] \<Rightarrow> [field @ '' mapping expressions must use const, path, template, now, or if/then/else'']
         | [key] \<Rightarrow>
             (if key = ''path'' \<and> \<not> is_str (dget d ''path'') then [field @ ''.path must be a string'']
              else if key = ''template'' \<and> \<not> is_str (dget d ''template'') then [field @ ''.template must be a string'']
              else if key = ''now'' \<and> dget d ''now'' \<noteq> PyBool True then [field @ ''.now must be true'']
              else if key = ''if'' then
                collect_condition_errors (field @ ''.if'') (dget d ''if'')
                @ (case map_of d ''then'' of
                     None \<Rightarrow> [field @ ''.then is required for conditional mapping expressions'']
                   | Some b \<Rightarrow> collect_expression_errors (field @ ''.then'') b True)
                @ (case map_of d ''else'' of
                     None \<Rightarrow> []
                   | Some b \<Rightarrow> collect_expression_errors (field @ ''.else'') b True)
              else [])
         | _ \<Rightarrow> [field @ '' mapping expression must use only one of const, path, template, now, or if''])
     | PyNone \<Rightarrow> []
     | PyStr s \<Rightarrow> if \<not> branch_literal \<and> py_strip s = [] then [field @ '' mapping path must not be empty''] else []
     | _ \<Rightarrow> if \<not> branch_literal then [field @ '' mapping expression must be a string path or object''] else [])"
  by pat_completeness auto

termination collect_expression_errors
  by (relation "measure (\<lambda>(_, e, _). size e)") (auto dest: size_map_of)

declare collect_expression_errors.simps [simp del]

definition validate_mapping_expression :: "string \<Rightarrow> pyval \<Rightarrow> bool \<Rightarrow> unit result" where
  "validate_mapping_expression field expr branch_literal =
     (let errors = collect_expression_errors field expr branch_literal in
      if errors \<noteq> [] then Inl (MappingExpressionError errors) else Inr ())"

section \<open>What a path template means\<close>

datatype segment = Literal string | Placeholder string

definition escape_braces :: "string \<Rightarrow> string" where
  "escape_braces l = concat (map (\<lambda>c. if not_brace c then [c] else [c, c]) l)"

fun print_segment :: "segment \<Rightarrow> string" where
  "print_segment (Literal l) = escape_braces l"
| "print_segment (Placeholder p) = ''{'' @ p @ ''}''"

fun segment_ok :: "segment \<Rightarrow> bool" where
  "segment_ok (Literal l) = True"
| "segment_ok (Placeholder p) = (list_all not_brace p \<and> py_strip p \<noteq> [])"

text \<open>The value of a placeholder; \<open>None\<close> when the path is missing, null or empty.\<close>

definition placeholder_value :: "pyval option \<Rightarrow> string option" where
  "placeholder_value v = (case v of None \<Rightarrow> None | Some w \<Rightarrow> if w = PyNone \<or> w = PyStr [] then None else Some (py_str w))"

fun fill :: "'s lookup \<Rightarrow> segment list \<Rightarrow> 's \<Rightarrow> string \<times> bool \<times> 's" where
  "fill resolve [] s = ([], False, s)"
| "fill resolve (Literal l # segs) s = (let (out, gap, s1) = fill resolve segs s in (l @ out, gap, s1))"
| "fill resolve (Placeholder p # segs) s =
     (let (v, s1) = resolve p s; (out, gap, s2) = fill resolve segs s1 in
      case placeholder_value v of None \<Rightarrow> (out, True, s2) | Some w \<Rightarrow> (w @ out, gap, s2))"

lemma brace_simps [simp]: "not_brace CHR ''{'' = False" "not_brace CHR ''}'' = False"
  by (simp_all add: not_brace_def)

lemma render_literal:
  "render_parts resolve (escape_braces l @ t) s = rbind (render_parts resolve t s) (\<lambda>(out, gap, s1). Inr (l @ out, gap, s1))"
proof (induction l)
  case Nil
  then show ?case by (cases "render_parts resolve t s") (auto simp: escape_braces_def)
next
  case (Cons c l)
  then show ?case
    by (cases "render_parts resolve t s"; cases "not_brace c") (auto simp: escape_braces_def)
qed

lemma render_placeholder:
  assumes "segment_ok (Placeholder p)"
  shows "render_parts resolve (''{'' @ p @ ''}'' @ t) s =
    (let (v, s1) = resolve p s in rbind (render_parts resolve t s1) (\<lambda>(out, gap, s2).
      Inr (case placeholder_value v of None \<Rightarrow> (out, True, s2) | Some w \<Rightarrow> (w @ out, gap, s2))))"
proof -
  obtain c p' where p: "p = c # p'" "not_brace c" using assms by (cases p) auto
  have all: "\<forall>x \<in> set p. not_brace x" using assms by (simp add: list_all_iff)
  have split: "takeWhile not_brace (p @ CHR ''}'' # t) = p" "dropWhile not_brace (p @ CHR ''}'' # t) = CHR ''}'' # t"
    using all by (simp_all add: takeWhile_append2 dropWhile_append2)
  have hd: "hd (p @ CHR ''}'' # t) \<noteq> CHR ''{''" using p by (auto simp: not_brace_def)
  have "render_parts resolve (CHR ''{'' # p @ CHR ''}'' # t) s =
    (let (v, s1) = resolve p s; gone = (v = None \<or> v = Some PyNone \<or> v = Some (PyStr [])) in
      rbind (render_parts resolve t s1) (\<lambda>(out, gap, s2).
        Inr ((case v of Some w \<Rightarrow> if gone then [] else py_str w | None \<Rightarrow> []) @ out, gone \<or> gap, s2)))"
    using assms hd by (simp add: split)
  then show ?thesis
    by (auto simp: placeholder_value_def rbind_def split: prod.splits sum.splits option.splits)
qed

lemma render_print:
  assumes "list_all segment_ok segs"
  shows "render_parts resolve (concat (map print_segment segs)) s = Inr (fill resolve segs s)"
  using assms
proof (induction segs arbitrary: s)
  case (Cons g segs)
  show ?case
  proof (cases g)
    case (Literal l)
    then show ?thesis using Cons by (simp add: render_literal split: prod.splits)
  next
    case (Placeholder p)
    then have "segment_ok (Placeholder p)" using Cons.prems by simp
    have "list_all segment_ok segs" using Cons.prems by simp
    note rest = Cons.IH [OF this]
    obtain v s1 where v: "resolve p s = (v, s1)" by fastforce
    obtain out gap s2 where f: "fill resolve segs s1 = (out, gap, s2)" by (metis prod.exhaust)
    have "concat (map print_segment (g # segs)) = ''{'' @ p @ ''}'' @ concat (map print_segment segs)"
      by (simp add: Placeholder)
    then have "render_parts resolve (concat (map print_segment (g # segs))) s =
      (let (v, s1) = resolve p s in rbind (render_parts resolve (concat (map print_segment segs)) s1) (\<lambda>(out, gap, s2).
        Inr (case placeholder_value v of None \<Rightarrow> (out, True, s2) | Some w \<Rightarrow> (w @ out, gap, s2))))"
      by (simp only: render_placeholder [OF \<open>segment_ok (Placeholder p)\<close>])
    also have "\<dots> = Inr (fill resolve (g # segs) s)"
      by (simp add: v rest f Placeholder split: option.splits)
    finally show ?thesis .
  qed
qed simp

lemma render_parses:
  "render_parts resolve t s = Inr res \<Longrightarrow> \<exists>segs. list_all segment_ok segs \<and> t = concat (map print_segment segs)"
proof (induction resolve t s arbitrary: res rule: render_parts.induct)
  case (1 resolve s)
  show ?case by (intro exI [of _ "[]"]) simp
next
  case (2 resolve c cs s)
  consider (plain) "not_brace c" | (double) "\<not> not_brace c" "cs \<noteq> []" "hd cs = c"
    | (hole) "\<not> not_brace c" "\<not> (cs \<noteq> [] \<and> hd cs = c)" by blast
  then show ?case
  proof cases
    case plain
    then obtain r where "render_parts resolve cs s = Inr r" using 2(4) by (auto simp: rbind_Inr_iff)
    from 2(1) [OF plain this] obtain segs where "list_all segment_ok segs" "cs = concat (map print_segment segs)" by blast
    then show ?thesis using plain by (intro exI [of _ "Literal [c] # segs"]) (simp add: escape_braces_def)
  next
    case double
    then obtain r where "render_parts resolve (tl cs) s = Inr r" using 2(4) by (auto simp: rbind_Inr_iff)
    from 2(2) [OF double(1) conjI [OF double(2,3)] this] obtain segs
      where "list_all segment_ok segs" "tl cs = concat (map print_segment segs)" by blast
    moreover have "cs = c # tl cs" using double(2,3) by (cases cs) auto
    ultimately show ?thesis using double
      by (intro exI [of _ "Literal [c] # segs"]) (simp add: escape_braces_def)
  next
    case hole
    let ?path = "takeWhile not_brace cs" and ?rest = "dropWhile not_brace cs"
    have c: "c = CHR ''{''" and rest: "?rest \<noteq> []" "hd ?rest = CHR ''}''" and path: "py_strip ?path \<noteq> []"
      using hole 2(4) by (auto simp: not_brace_def unmatched_brace_def Let_def split: if_splits)
    obtain v s1 where v: "resolve ?path s = (v, s1)" by fastforce
    have "\<exists>f. render_parts resolve (c # cs) s = rbind (render_parts resolve (tl ?rest) s1) f"
      unfolding render_parts.simps(2) if_not_P [OF hole(1)] if_not_P [OF hole(2)]
      using c rest path v by (auto simp: Let_def)
    then obtain r where "render_parts resolve (tl ?rest) s1 = Inr r"
      using 2(4) by (metis rbind_Inr_iff)
    then have "\<exists>segs. list_all segment_ok segs \<and> tl ?rest = concat (map print_segment segs)"
      using 2(3) [OF hole _ refl refl _ path v [symmetric] refl refl] c rest by blast
    then obtain segs where segs: "list_all segment_ok segs" "tl ?rest = concat (map print_segment segs)" by blast
    have eq: "c # cs = CHR ''{'' # ?path @ CHR ''}'' # tl ?rest"
      using rest c by (metis list.collapse takeWhile_dropWhile_id)
    have "list_all not_brace ?path" by (auto simp: list_all_iff dest: set_takeWhileD)
    then have "list_all segment_ok (Placeholder ?path # segs)" using segs(1) path by simp
    moreover have "c # cs = concat (map print_segment (Placeholder ?path # segs))"
      unfolding eq segs(2) by simp
    ultimately show ?thesis by blast
  qed
qed

text \<open>
  C37: a path template with a brace renders exactly when it is the text of a list of segments, literals with
  doubled braces and placeholders with a path; the result is then the literals and the placeholders' values in
  order, and missing as soon as one value is missing, null or empty.
\<close>
theorem path_template_meaning:
  assumes "CHR ''{'' \<in> set template"
  shows "render_path_template resolve template s = Inr (v, s') \<longleftrightarrow>
    (\<exists>segs. list_all segment_ok segs \<and> template = concat (map print_segment segs)
      \<and> (let (out, gap, s1) = fill resolve segs s in v = (if gap then None else Some (PyStr out)) \<and> s' = s1))"
proof -
  have render: "render_path_template resolve template s = Inr (v, s') \<longleftrightarrow>
      (\<exists>out gap. render_parts resolve template s = Inr (out, gap, s') \<and> v = (if gap then None else Some (PyStr out)))"
    using assms by (auto simp: render_path_template_def rbind_Inr_iff)
  show ?thesis
  proof
    assume "render_path_template resolve template s = Inr (v, s')"
    then obtain out gap where r: "render_parts resolve template s = Inr (out, gap, s')" "v = (if gap then None else Some (PyStr out))"
      unfolding render by blast
    from render_parses [OF r(1)] obtain segs where segs: "list_all segment_ok segs" "template = concat (map print_segment segs)" by blast
    have "fill resolve segs s = (out, gap, s')" using render_print [OF segs(1), of resolve s] r(1) segs(2) by simp
    then show "\<exists>segs. list_all segment_ok segs \<and> template = concat (map print_segment segs)
      \<and> (let (out, gap, s1) = fill resolve segs s in v = (if gap then None else Some (PyStr out)) \<and> s' = s1)"
      using segs r(2) by (intro exI [of _ segs]) simp
  next
    assume "\<exists>segs. list_all segment_ok segs \<and> template = concat (map print_segment segs)
      \<and> (let (out, gap, s1) = fill resolve segs s in v = (if gap then None else Some (PyStr out)) \<and> s' = s1)"
    then obtain segs where segs: "list_all segment_ok segs" "template = concat (map print_segment segs)"
      "let (out, gap, s1) = fill resolve segs s in v = (if gap then None else Some (PyStr out)) \<and> s' = s1" by blast
    obtain out gap s1 where f: "fill resolve segs s = (out, gap, s1)" by (metis prod.exhaust)
    then have "render_parts resolve template s = Inr (out, gap, s')" "v = (if gap then None else Some (PyStr out))"
      using render_print [OF segs(1), of resolve s] segs(2,3) by simp_all
    then show "render_path_template resolve template s = Inr (v, s')" unfolding render by blast
  qed
qed

lemma path_template_meaning_witness:
  "render_path_template (\<lambda>p s. (Some (PyStr p), s @ [p])) ''n{{{id}'' [] = Inr (Some (PyStr ''n{id''), [''id''])"
proof -
  have "CHR ''{'' \<in> set ''n{{{id}''" by simp
  note meaning = path_template_meaning [OF this, of "\<lambda>p s. (Some (PyStr p), s @ [p])" "[]" "Some (PyStr ''n{id'')" "[''id'']"]
  have "list_all segment_ok [Literal ''n{'', Placeholder ''id'']"
    "''n{{{id}'' = concat (map print_segment [Literal ''n{'', Placeholder ''id''])"
    "let (out, gap, s1) = fill (\<lambda>p s. (Some (PyStr p), s @ [p])) [Literal ''n{'', Placeholder ''id''] [] in
       Some (PyStr ''n{id'') = (if gap then None else Some (PyStr out)) \<and> [''id''] = s1"
    by code_simp+
  then show ?thesis using meaning by blast
qed

section \<open>Validated expressions\<close>

lemma conditions_match:
  assumes "collect_condition_errors field (PyDict c) = []"
  shows "\<exists>b s'. condition_matches resolve c s = Inr (b, s')"
proof -
  have "condition_path c \<noteq> PyNone" "map_of c ''in'' \<noteq> None \<Longrightarrow> is_list (dget c ''in'')"
    using assms by (auto simp: collect_condition_errors_def blank_def split: if_splits pyval.splits)
  then show ?thesis
    by (cases "dget c ''in''") (auto simp: condition_matches_def Let_def split: prod.splits)
qed

lemma validated_evaluates:
  "collect_expression_errors field expr lit = [] \<Longrightarrow> \<exists>v s'. evaluate_mapping_expression sentinel resolve clock expr s = Inr (v, s')"
proof (induction expr arbitrary: field lit s rule: measure_induct_rule [of size])
  case (less expr)
  show ?case
  proof (cases expr)
    case (PyDict d)
    note errors = less.prems [unfolded PyDict collect_expression_errors.simps [of _ "PyDict d"]]
    consider "map_of d ''const'' \<noteq> None" | "map_of d ''const'' = None" "map_of d ''path'' \<noteq> None"
      | "map_of d ''const'' = None" "map_of d ''path'' = None" "map_of d ''template'' \<noteq> None"
      | (now) "map_of d ''const'' = None" "map_of d ''path'' = None" "map_of d ''template'' = None" "map_of d ''now'' \<noteq> None"
      | (cond) "map_of d ''const'' = None" "map_of d ''path'' = None" "map_of d ''template'' = None" "map_of d ''now'' = None" "map_of d ''if'' \<noteq> None"
      | (none) "map_of d ''const'' = None" "map_of d ''path'' = None" "map_of d ''template'' = None" "map_of d ''now'' = None" "map_of d ''if'' = None"
      by blast
    then show ?thesis
    proof cases
      case now
      then have "dget d ''now'' = PyBool True"
        using errors by (cases "map_of d ''if'' = None") (auto simp: MAPPING_KEYS_def split: if_splits)
      then show ?thesis using now by (simp add: PyDict evaluate_mapping_expression.simps [of _ _ _ "PyDict d"] split: prod.splits)
    next
      case cond
      then have e: "collect_condition_errors (field @ ''.if'') (dget d ''if'') = []"
        and branch: "\<And>k b. k \<in> {''then'', ''else''} \<Longrightarrow> map_of d k = Some b \<Longrightarrow> \<exists>f. collect_expression_errors f b True = []"
        using errors by (auto simp: MAPPING_KEYS_def split: option.splits)
      then obtain c where c: "dget d ''if'' = PyDict c" by (cases "dget d ''if''") (auto simp: collect_condition_errors_def)
      from conditions_match [OF e [unfolded c], of resolve s] obtain m s1 where m: "condition_matches resolve c s = Inr (m, s1)" by blast
      show ?thesis
      proof (cases "map_of d (if m then ''then'' else ''else'')")
        case (Some b)
        have "(if m then ''then'' else ''else'') \<in> {''then'', ''else''}" by simp
        from branch [OF this Some] obtain f where f: "collect_expression_errors f b True = []" by blast
        have "size b < size expr" unfolding PyDict using Some by (rule size_map_of)
        from less.IH [OF this f, of s1] show ?thesis
          using cond c m Some by (auto simp: PyDict evaluate_mapping_expression.simps [of _ _ _ "PyDict d"])
      qed (use cond c m in \<open>auto simp: PyDict evaluate_mapping_expression.simps [of _ _ _ "PyDict d"]\<close>)
    next
      case none
      then show ?thesis using errors by (simp add: MAPPING_KEYS_def)
    qed (auto simp: PyDict evaluate_mapping_expression.simps [of _ _ _ "PyDict d"] split: prod.splits)
  qed (subst evaluate_mapping_expression.simps, simp add: surj_pair)+
qed

text \<open>
  C38: an expression the validator accepts evaluates without an error, whatever the source, the path lookup and
  the clock are; the validator's errors are never empty when it rejects.
\<close>
theorem validated_expressions_evaluate:
  "(validate_mapping_expression field expr lit = Inr () \<longrightarrow>
     (\<exists>v s'. evaluate_mapping_expression sentinel resolve clock expr s = Inr (v, s')))
   \<and> (\<forall>es. validate_mapping_expression field expr lit = Inl (MappingExpressionError es) \<longrightarrow> es \<noteq> [])"
  using validated_evaluates [of field expr lit sentinel resolve clock s]
  by (simp add: validate_mapping_expression_def Let_def)

lemma validated_expressions_evaluate_witness:
  "\<exists>v s'. evaluate_mapping_expression [] (\<lambda>p s. (None, s)) (\<lambda>s. (''t'', s)) (PyDict [(''if'', PyDict [(''field'', PyStr ''a'')]),
     (''then'', PyDict [(''now'', PyBool True)]), (''else'', PyInt 0)]) () = Inr (v, s')"
proof -
  let ?e = "PyDict [(''if'', PyDict [(''field'', PyStr ''a'')]), (''then'', PyDict [(''now'', PyBool True)]), (''else'', PyInt 0)]"
  have "validate_mapping_expression ''f'' ?e False = Inr ()" by code_simp
  then show ?thesis using validated_expressions_evaluate [of "''f''" ?e False "[]" "\<lambda>p s. (None, s)" "\<lambda>s. (''t'', s)" "()"] by blast
qed

end
