(* ===== verification/Inbound_Projections.thy ===== *)
theory Inbound_Projections
  imports Mapping_Expressions
begin

text \<open>
  Domain projections of inbound envelopes (\<open>systems/inbound/service.py\<close>): validating a field mapping and a
  projection condition, and rendering the identity, the values and the title of one projection. A missing path is
  \<open>None\<close>. \<open>InboundValidationError\<close> is a \<open>ValueError\<close>; the clock passes a state of its own. A path segment that
  Python's \<open>isdigit\<close> accepts and \<open>int\<close> refuses (a superscript) is no index here.
\<close>

section \<open>Paths\<close>

fun extract_parts :: "string list \<Rightarrow> pyval \<Rightarrow> pyval option" where
  "extract_parts [] current = Some current"
| "extract_parts (part # parts) current = (case current of
       PyDict d \<Rightarrow> (case map_of d part of Some v \<Rightarrow> extract_parts parts v | None \<Rightarrow> None)
     | PyList xs \<Rightarrow> (if part \<noteq> [] \<and> list_all is_digit part
         then (case parse_nat part of
             Some i \<Rightarrow> if i < length xs then extract_parts parts (xs ! i) else None
           | None \<Rightarrow> None)
         else None)
     | _ \<Rightarrow> None)"

definition extract_path :: "pydict \<Rightarrow> string \<Rightarrow> pyval option" where
  "extract_path root path = extract_parts (filter (\<lambda>s. s \<noteq> []) (py_split_on (CHR ''.'') path)) (PyDict root)"

definition path_root :: "pydict \<Rightarrow> pydict result" where
  "path_root envelope =
     rbind (dict_or_error (dget envelope ''payload'')) (\<lambda>payload.
     rbind (dict_or_error (dget envelope ''hints'')) (\<lambda>hints.
     Inr [(''envelope'', PyDict envelope), (''payload'', PyDict payload), (''hints'', PyDict hints),
          (''summary'', dget envelope ''summary''), (''desired_outcome'', dget envelope ''desired_outcome''),
          (''origin'', dget envelope ''origin'')]))"

section \<open>Validation\<close>

function validate_projection_expression_vocabulary :: "string \<Rightarrow> pydict \<Rightarrow> unit result" where
  "validate_projection_expression_vocabulary field d =
     (if map_of d ''if'' \<noteq> None then
        (if \<not> fst ` set d \<subseteq> {''if'', ''then'', ''else''}
         then Inl (ValueError (field @ '' conditional mapping must use if, then, and else''))
         else rbind (case map_of d ''then'' of
             Some (PyDict b) \<Rightarrow> validate_projection_expression_vocabulary (field @ ''.then'') b | _ \<Rightarrow> Inr ()) (\<lambda>_.
           (case map_of d ''else'' of
             Some (PyDict b) \<Rightarrow> validate_projection_expression_vocabulary (field @ ''.else'') b | _ \<Rightarrow> Inr ())))
      else if length d \<noteq> 1 \<or> \<not> fst ` set d \<subseteq> {''const'', ''path'', ''now''}
      then Inl (ValueError (field @ '' mapping expression must use exactly one of const, path, or now''))
      else Inr ())"
  by pat_completeness auto

lemma size_branch: "map_of (d :: pydict) k = Some (PyDict b) \<Longrightarrow> size_list (size_prod (\<lambda>x. 0) size) b < size_list (size_prod (\<lambda>x. 0) size) d"
  using size_map_of [of d k "PyDict b"] by simp

termination validate_projection_expression_vocabulary
  by (relation "measure (\<lambda>(_, d). size_list (size_prod (\<lambda>x. 0) size) d)") (auto dest: size_branch)

declare validate_projection_expression_vocabulary.simps [simp del]

definition inbound_error :: "'a result \<Rightarrow> 'a result" where
  "inbound_error m = (case m of Inl (MappingExpressionError es) \<Rightarrow> Inl (ValueError (py_join ''; '' es)) | _ \<Rightarrow> m)"

fun validate_projection_field_mapping :: "pydict \<Rightarrow> pydict result" where
  "validate_projection_field_mapping [] = Inr []"
| "validate_projection_field_mapping ((k, e) # fm) =
     (let field = ''field_mapping.'' @ k in
      rbind (case e of
          PyDict d \<Rightarrow> rbind (validate_projection_expression_vocabulary field d) (\<lambda>_.
            inbound_error (validate_mapping_expression field e False))
        | PyStr s \<Rightarrow> Inr ()
        | _ \<Rightarrow> Inl (ValueError (field @ '' must be a string path or mapping expression''))) (\<lambda>_.
      rbind (validate_projection_field_mapping fm) (\<lambda>rest. Inr ((k, e) # rest))))"

definition condition_expression :: "pyval \<Rightarrow> pyval" where
  "condition_expression condition = PyDict [(''if'', condition), (''then'', PyBool True), (''else'', PyBool False)]"

definition validate_projection_metadata :: "pydict \<Rightarrow> pydict result" where
  "validate_projection_metadata metadata =
     (if dget metadata ''when'' = PyNone then Inr metadata
      else rbind (inbound_error (validate_mapping_expression ''projection.metadata.when''
          (condition_expression (dget metadata ''when'')) False)) (\<lambda>_. Inr metadata))"

section \<open>Rendering\<close>

record projection =
  pj_external_id_path :: string
  pj_external_id_field :: string
  pj_field_mapping :: pydict
  pj_title_path :: "string option"
  pj_metadata :: pydict

definition FRESHNESS_PATHS :: "string list" where
  "FRESHNESS_PATHS = [''hints.source_updated_at'', ''payload.issue.updated_at'', ''payload.pull_request.updated_at'']"

definition freshness_path :: "string \<Rightarrow> bool" where
  "freshness_path p = ((if py_startswith p ''envelope.'' then drop (length ''envelope.'') p else p) \<in> set FRESHNESS_PATHS)"

text \<open>The state of one field: whether a source time was observed, and the clock.\<close>

definition observing_lookup :: "pydict \<Rightarrow> (bool \<times> 'c) lookup" where
  "observing_lookup root = (\<lambda>p (seen, c). (extract_path root p, (seen \<or> freshness_path p, c)))"

definition observation_clock :: "('c \<Rightarrow> string \<times> 'c) \<Rightarrow> bool \<times> 'c \<Rightarrow> string \<times> bool \<times> 'c" where
  "observation_clock clock = (\<lambda>(seen, c). let (t, c') = clock c in (t, (True, c')))"

definition plain_lookup :: "pydict \<Rightarrow> 'c lookup" where
  "plain_lookup root = (\<lambda>p c. (extract_path root p, c))"

definition string_value :: "pyval option \<Rightarrow> string option" where
  "string_value v = (case v of None \<Rightarrow> None
     | Some w \<Rightarrow> if w = PyNone \<or> py_strip (py_str w) = [] then None else Some (py_strip (py_str w)))"

definition projection_applies :: "('c \<Rightarrow> string \<times> 'c) \<Rightarrow> pydict \<Rightarrow> projection \<Rightarrow> 'c \<Rightarrow> (pyval option \<times> 'c) result" where
  "projection_applies clock envelope p c =
     rbind (validate_projection_metadata (pj_metadata p)) (\<lambda>m.
       if dget m ''when'' = PyNone then Inr (Some (PyBool True), c)
       else rbind (path_root envelope) (\<lambda>root.
         evaluate_mapping_expression [] (plain_lookup root) clock (condition_expression (dget m ''when'')) c))"

definition field_value :: "('c \<Rightarrow> string \<times> 'c) \<Rightarrow> pydict \<Rightarrow> pyval \<Rightarrow> 'c \<Rightarrow> (pyval option \<times> bool \<times> 'c) result" where
  "field_value clock root e c =
     (if is_dict e then inbound_error (evaluate_mapping_expression [] (observing_lookup root) (observation_clock clock) e (False, c))
      else Inr (observing_lookup root (py_str e) (False, c)))"

fun field_values ::
  "('c \<Rightarrow> string \<times> 'c) \<Rightarrow> pydict \<Rightarrow> pydict \<Rightarrow> pydict \<Rightarrow> string list \<Rightarrow> 'c \<Rightarrow> (pydict \<times> string list \<times> 'c) result" where
  "field_values clock root [] data fresh c = Inr (data, fresh, c)"
| "field_values clock root ((k, e) # fm) data fresh c =
     rbind (field_value clock root e c) (\<lambda>(v, seen, c'). case v of
         None \<Rightarrow> field_values clock root fm data fresh c'
       | Some w \<Rightarrow> field_values clock root fm (AList.update k w data) (if seen then k # fresh else fresh) c')"

record projection_values =
  pv_external_id :: string
  pv_data :: pydict
  pv_title :: "string option"
  pv_fresh :: "string list"

definition domain_projection_values ::
  "('c \<Rightarrow> string \<times> 'c) \<Rightarrow> pydict \<Rightarrow> projection \<Rightarrow> 'c \<Rightarrow> (projection_values \<times> 'c) result" where
  "domain_projection_values clock envelope p c =
     rbind (path_root envelope) (\<lambda>root.
     rbind (inbound_error (render_path_template (plain_lookup root) (pj_external_id_path p) c)) (\<lambda>(v, c1).
       case string_value v of
         None \<Rightarrow> Inl (ValueError (''Missing projection external id at '' @ [CHR 0x27] @ pj_external_id_path p @ [CHR 0x27]))
       | Some external_id \<Rightarrow>
           rbind (field_values clock root (pj_field_mapping p) [(pj_external_id_field p, PyStr external_id)] [] c1) (\<lambda>(data, fresh, c2).
             Inr (\<lparr>pv_external_id = external_id, pv_data = data,
                    pv_title = Option.bind (pj_title_path p) (\<lambda>t. if t = [] then None else string_value (extract_path root t)),
                    pv_fresh = fresh\<rparr>, c2))))"

section \<open>What an expression reads\<close>

text \<open>Whether evaluating an expression can observe a source time or the clock.\<close>

function reads_time :: "pyval \<Rightarrow> bool" where
  "reads_time e = (case e of
       PyDict d \<Rightarrow>
         (if map_of d ''const'' \<noteq> None then False
          else if map_of d ''path'' \<noteq> None then freshness_path (text_or_empty (dget d ''path''))
          else if map_of d ''template'' \<noteq> None then True
          else if map_of d ''now'' \<noteq> None then True
          else (freshness_path (py_str (condition_path (as_mapping (dget d ''if''))))
            \<or> (case map_of d ''then'' of Some b \<Rightarrow> is_dict b \<and> reads_time b | None \<Rightarrow> False)
            \<or> (case map_of d ''else'' of Some b \<Rightarrow> is_dict b \<and> reads_time b | None \<Rightarrow> False)))
     | PyNone \<Rightarrow> freshness_path (py_str PyNone)
     | v \<Rightarrow> freshness_path (py_str v))"
  by pat_completeness auto

termination reads_time
  by (relation "measure size") (auto dest: size_map_of)

declare reads_time.simps [simp del]

lemma reads_time_value: "\<not> is_dict e \<Longrightarrow> reads_time e \<longleftrightarrow> freshness_path (py_str e)"
  by (cases e) (simp_all add: reads_time.simps)

lemma evaluate_observes:
  "evaluate_mapping_expression [] (observing_lookup root) (observation_clock clock) e (seen, c) = Inr (v, seen', c') \<Longrightarrow>
   seen' \<Longrightarrow> seen \<or> reads_time e"
proof (induction e arbitrary: seen c rule: measure_induct_rule [of size])
  case (less e)
  note run = less.prems(1) [unfolded evaluate_mapping_expression.simps [of _ _ _ e]]
  show ?case
  proof (cases e)
    case (PyDict d)
    consider "map_of d ''const'' \<noteq> None" | "map_of d ''const'' = None" "map_of d ''path'' \<noteq> None \<or> map_of d ''template'' \<noteq> None \<or> map_of d ''now'' \<noteq> None"
      | (cond) "map_of d ''const'' = None" "map_of d ''path'' = None" "map_of d ''template'' = None" "map_of d ''now'' = None"
      by blast
    then show ?thesis
    proof cases
      case cond
      then obtain cnd where cnd: "map_of d ''if'' \<noteq> None" "dget d ''if'' = PyDict cnd"
        using run by (auto simp: PyDict split: if_splits pyval.splits)
      obtain m s1 where m: "condition_matches (observing_lookup root) cnd (seen, c) = Inr (m, s1)"
        using run cond cnd by (auto simp: PyDict rbind_Inr_iff)
      have s1: "fst s1 \<longrightarrow> seen \<or> freshness_path (py_str (condition_path cnd))"
        using m by (auto simp: condition_matches_def observing_lookup_def Let_def split: if_splits pyval.splits)
      show ?thesis
      proof (cases "map_of d (if m then ''then'' else ''else'')")
        case None
        then have "s1 = (seen', c')" using run cond cnd m by (auto simp: PyDict)
        then show ?thesis using s1 less.prems(2) cond cnd by (auto simp: PyDict reads_time.simps [of "PyDict d"])
      next
        case (Some b)
        show ?thesis
        proof (cases "is_dict b")
          case True
          have "size b < size e" unfolding PyDict using Some by (rule size_map_of)
          moreover have "evaluate_mapping_expression [] (observing_lookup root) (observation_clock clock) b (fst s1, snd s1) = Inr (v, seen', c')"
            using run cond cnd m Some True by (simp add: PyDict)
          ultimately have "fst s1 \<or> reads_time b" using less.IH less.prems(2) by blast
          then show ?thesis using s1 cond cnd Some True
            by (cases m) (auto simp: PyDict reads_time.simps [of "PyDict d"])
        next
          case False
          then have "s1 = (seen', c')" using run cond cnd m Some by (auto simp: PyDict)
          then show ?thesis using s1 less.prems(2) cond cnd by (auto simp: PyDict reads_time.simps [of "PyDict d"])
        qed
      qed
    qed (use run less.prems(2) in \<open>auto simp: PyDict reads_time.simps [of "PyDict d"] observing_lookup_def split: if_splits\<close>)
  qed (use run less.prems(2) in \<open>auto simp: observing_lookup_def reads_time_value\<close>)
qed

section \<open>Validated projections\<close>

lemma validated_fields:
  "validate_projection_field_mapping fm = Inr fm' \<Longrightarrow>
   fm' = fm \<and> (\<forall>(k, e) \<in> set fm. is_str e \<or> is_dict e \<and> collect_expression_errors (''field_mapping.'' @ k) e False = [])"
proof (induction fm arbitrary: fm')
  case (Cons x fm)
  obtain k e where x: "x = (k, e)" by (cases x)
  obtain rest where rest: "validate_projection_field_mapping fm = Inr rest" "fm' = (k, e) # rest"
    and here: "is_str e \<or> is_dict e \<and> inbound_error (validate_mapping_expression (''field_mapping.'' @ k) e False) = Inr ()"
    using Cons.prems by (cases e) (auto simp: x Let_def rbind_Inr_iff)
  from here have "is_str e \<or> is_dict e \<and> collect_expression_errors (''field_mapping.'' @ k) e False = []"
    by (auto simp: inbound_error_def validate_mapping_expression_def Let_def split: if_splits)
  then show ?case using Cons.IH [OF rest(1)] rest(2) by (simp add: x)
qed simp

text \<open>
  What an expression means, without the bookkeeping of freshness: a string is a path, an object is evaluated. The fields
  of a mapping are evaluated in its order, each with the clock the one before left.
\<close>

definition expression_value :: "('c \<Rightarrow> string \<times> 'c) \<Rightarrow> pydict \<Rightarrow> pyval \<Rightarrow> 'c \<Rightarrow> (pyval option \<times> 'c) result" where
  "expression_value clock root e c =
     (if is_dict e then evaluate_mapping_expression [] (plain_lookup root) clock e c else Inr (extract_path root (py_str e), c))"

fun field_results :: "('c \<Rightarrow> string \<times> 'c) \<Rightarrow> pydict \<Rightarrow> pydict \<Rightarrow> 'c \<Rightarrow> ((string \<times> pyval option) list \<times> 'c) result" where
  "field_results clock root [] c = Inr ([], c)"
| "field_results clock root ((k, e) # fm) c =
     rbind (expression_value clock root e c) (\<lambda>(w, c1).
     rbind (field_results clock root fm c1) (\<lambda>(rest, c2). Inr ((k, w) # rest, c2)))"

text \<open>Evaluation does not look at what a state carries beside the state of the lookup and the clock.\<close>

lemma template_projects:
  assumes "\<And>p s. resolve' p (h s) = map_prod id h (resolve p s)"
  shows "render_mapping_template sentinel resolve' t (h s) = map_prod id h (render_mapping_template sentinel resolve t s)"
  using assms by (induction sentinel resolve t s rule: render_mapping_template.induct)
    (auto simp: Let_def map_prod_def split: prod.splits)

lemma condition_projects:
  assumes "\<And>p s. resolve' p (h s) = map_prod id h (resolve p s)"
  shows "condition_matches resolve' c (h s) = map_sum id (map_prod id h) (condition_matches resolve c s)"
  by (auto simp: condition_matches_def Let_def assms split: prod.splits pyval.splits)

lemma evaluate_projects:
  assumes "\<And>p s. resolve' p (h s) = map_prod id h (resolve p s)" and "\<And>s. clock' (h s) = map_prod id h (clock s)"
  shows "evaluate_mapping_expression sentinel resolve' clock' e (h s)
    = map_sum id (map_prod id h) (evaluate_mapping_expression sentinel resolve clock e s)"
proof (induction e arbitrary: s rule: measure_induct_rule [of size])
  case (less e)
  have branch: "evaluate_mapping_expression sentinel resolve' clock' b (h s1)
      = map_sum id (map_prod id h) (evaluate_mapping_expression sentinel resolve clock b s1)"
    if "e = PyDict d" "map_of d k = Some b" for d k b s1
    by (rule less.IH) (unfold that(1), rule size_map_of [OF that(2)])
  show ?case
  proof (cases e)
    case (PyDict d)
    show ?thesis
    proof (cases "map_of d ''const'' = None \<and> map_of d ''path'' = None \<and> map_of d ''template'' = None \<and> map_of d ''now'' = None
        \<and> (\<exists>c. map_of d ''if'' = Some (PyDict c))")
      case True
      then obtain c where c: "map_of d ''if'' = Some (PyDict c)" by blast
      show ?thesis
      proof (cases "condition_matches resolve c s")
        case (Inr r)
        obtain m s1 where r: "r = (m, s1)" by (cases r)
        show ?thesis
          using True c Inr r branch [OF PyDict, of "if m then ''then'' else ''else''"]
          by (cases "map_of d (if m then ''then'' else ''else'')")
            (simp_all add: PyDict evaluate_mapping_expression.simps [of _ _ _ "PyDict d"] condition_projects [where resolve' = resolve' and resolve = resolve and h = h, OF assms(1)] dget_def id_def)
      qed (use True c in \<open>simp add: PyDict evaluate_mapping_expression.simps [of _ _ _ "PyDict d"] condition_projects [where resolve' = resolve' and resolve = resolve and h = h, OF assms(1)] dget_def\<close>)
    next
      case False
      then show ?thesis
        by (auto simp: PyDict evaluate_mapping_expression.simps [of _ _ _ "PyDict d"] assms template_projects [where resolve' = resolve' and resolve = resolve and h = h, OF assms(1)] dget_def Let_def
            map_prod_def split: prod.splits pyval.splits option.splits)
    qed
  qed (simp_all add: evaluate_mapping_expression.simps [of _ _ _ e] evaluate_mapping_expression.simps assms id_def)
qed

lemma field_value_meaning:
  "expression_value clock root e c = (case field_value clock root e c of
     Inl x \<Rightarrow> Inl x | Inr (v, seen, c') \<Rightarrow> Inr (v, c')) \<or> (\<exists>x. field_value clock root e c = Inl x)"
proof (cases "is_dict e")
  case True
  have "evaluate_mapping_expression [] (plain_lookup root) clock e (snd (False, c))
      = map_sum id (map_prod id snd) (evaluate_mapping_expression [] (observing_lookup root) (observation_clock clock) e (False, c))"
    by (rule evaluate_projects) (auto simp: plain_lookup_def observing_lookup_def observation_clock_def split: prod.split)
  then show ?thesis using True
    by (auto simp: expression_value_def field_value_def inbound_error_def split: sum.splits py_error.splits)
qed (simp add: expression_value_def field_value_def observing_lookup_def)

lemma field_value_total:
  assumes "is_str e \<or> is_dict e \<and> collect_expression_errors field e False = []"
  shows "\<exists>v seen c'. field_value clock root e c = Inr (v, seen, c') \<and> (seen \<longrightarrow> reads_time e)
    \<and> expression_value clock root e c = Inr (v, c')"
proof -
  have "\<exists>v seen c'. field_value clock root e c = Inr (v, seen, c') \<and> (seen \<longrightarrow> reads_time e)"
proof (cases "is_dict e")
  case True
  then have "collect_expression_errors field e False = []" using assms by (cases e) auto
  from validated_evaluates [OF this, of "[]" "observing_lookup root" "observation_clock clock" "(False, c)"]
  obtain v s where v: "evaluate_mapping_expression [] (observing_lookup root) (observation_clock clock) e (False, c) = Inr (v, s)" by blast
  obtain seen c' where s: "s = (seen, c')" by (cases s)
  from evaluate_observes [OF v [unfolded s]] have "seen \<longrightarrow> reads_time e" by blast
  then show ?thesis using True v s by (simp add: field_value_def inbound_error_def)
next
  case False
  then show ?thesis using assms
    by (cases e) (auto simp: field_value_def observing_lookup_def reads_time.simps)
qed
  then show ?thesis using field_value_meaning [of clock root e c] by auto
qed

lemma field_values_total:
  "(\<And>k e. (k, e) \<in> set fm \<Longrightarrow> is_str e \<or> is_dict e \<and> collect_expression_errors (''field_mapping.'' @ k) e False = []) \<Longrightarrow>
   distinct (map fst fm) \<Longrightarrow>
   \<exists>data' fresh' results c'. field_values clock root fm data fresh c = Inr (data', fresh', c')
     \<and> field_results clock root fm c = Inr (results, c') \<and> map fst results = map fst fm
     \<and> (\<forall>k. map_of data' k = (case map_of results k of Some (Some w) \<Rightarrow> Some w | _ \<Rightarrow> map_of data k))
     \<and> (\<forall>k \<in> set fresh'. k \<in> set fresh \<or> (\<exists>w. map_of results k = Some (Some w)) \<and> (\<exists>e. (k, e) \<in> set fm \<and> reads_time e))"
proof (induction fm arbitrary: data fresh c)
  case (Cons x fm)
  obtain k e where x: "x = (k, e)" by (cases x)
  have "(k, e) \<in> set (x # fm)" by (simp add: x)
  from field_value_total [OF Cons.prems(1) [OF this], of clock root c] obtain v seen c1
    where v: "field_value clock root e c = Inr (v, seen, c1)" "seen \<longrightarrow> reads_time e" "expression_value clock root e c = Inr (v, c1)"
    by blast
  define data1 where "data1 = (case v of None \<Rightarrow> data | Some w \<Rightarrow> AList.update k w data)"
  define fresh1 where "fresh1 = (if v \<noteq> None \<and> seen then k # fresh else fresh)"
  have run: "field_values clock root (x # fm) data fresh c = field_values clock root fm data1 fresh1 c1"
    by (simp add: x v(1) data1_def fresh1_def split: option.splits)
  have data1: "map_of data1 j = (if j = k \<and> v \<noteq> None then v else map_of data j)" for j
    by (simp add: data1_def update_conv split: option.split)
  have "distinct (map fst fm)" using Cons.prems(2) by simp
  from Cons.IH [OF Cons.prems(1) this, of data1 fresh1 c1] obtain data' fresh' results c' where
    r: "field_values clock root fm data1 fresh1 c1 = Inr (data', fresh', c')"
    "field_results clock root fm c1 = Inr (results, c')" "map fst results = map fst fm"
    "\<And>j. map_of data' j = (case map_of results j of Some (Some w) \<Rightarrow> Some w | _ \<Rightarrow> map_of data1 j)"
    "\<And>j. j \<in> set fresh' \<Longrightarrow> j \<in> set fresh1 \<or> (\<exists>w. map_of results j = Some (Some w)) \<and> (\<exists>e. (j, e) \<in> set fm \<and> reads_time e)"
    by auto
  have k: "map_of results k = None" using Cons.prems(2) unfolding map_of_eq_None_iff set_map [symmetric] r(3) by (simp add: x)
  have held: "map_of data' j = (case map_of ((k, v) # results) j of Some (Some w) \<Rightarrow> Some w | _ \<Rightarrow> map_of data j)" for j
    using r(4) [of j] data1 [of j] k by (auto split: option.splits)
  have "j \<in> set fresh \<or> (\<exists>w. map_of ((k, v) # results) j = Some (Some w)) \<and> (\<exists>e. (j, e) \<in> set (x # fm) \<and> reads_time e)"
    if "j \<in> set fresh'" for j
    using r(5) [OF that] v(2) k x by (auto simp: fresh1_def split: if_splits)
  then show ?case unfolding run using r(1-3) held v(3) x
    by (intro exI [of _ data'] exI [of _ fresh'] exI [of _ "(k, v) # results"] exI [of _ c']) simp
qed simp

lemma validated_condition:
  assumes "validate_projection_metadata md = Inr md'" and "path_root envelope = Inr root" and "pj_metadata p = md"
  shows "\<exists>b c'. projection_applies clock envelope p c = Inr (Some (PyBool b), c')"
proof (cases "dget md ''when'' = PyNone")
  case True
  then have "projection_applies clock envelope p c = Inr (Some (PyBool True), c)"
    by (simp add: projection_applies_def validate_projection_metadata_def assms(3))
  then show ?thesis by blast
next
  case False
  let ?e = "condition_expression (dget md ''when'')"
  have ok: "collect_expression_errors ''projection.metadata.when'' ?e False = []"
    using assms(1) False by (auto simp: validate_projection_metadata_def rbind_Inr_iff inbound_error_def validate_mapping_expression_def
        Let_def split: if_splits)
  obtain v c' where v: "evaluate_mapping_expression [] (plain_lookup root) clock ?e c = Inr (v, c')"
    using validated_evaluates [OF ok, of "[]" "plain_lookup root" clock c] by blast
  have "\<exists>b. v = Some (PyBool b)"
    using v by (auto simp: condition_expression_def evaluate_mapping_expression.simps [of _ _ _ "PyDict _"] dget_def rbind_Inr_iff
        split: pyval.splits if_splits)
  moreover have "validate_projection_metadata md = Inr md"
    using assms(1) False by (auto simp: validate_projection_metadata_def rbind_Inr_iff)
  ultimately show ?thesis using False v by (auto simp: projection_applies_def assms(2,3))
qed

text \<open>
  C39: a projection whose field mapping and metadata the validators accept renders every envelope. Its condition is
  decided without an error. If the template of the identity raises or renders to nothing, the values raise a validation
  error; otherwise they are returned with that identity, and every field holds exactly what its expression means: the
  fields are evaluated in their order (a string as a path, an object by the plain evaluator), a missing value leaves the
  field out, any other is stored, and beside them there is only the field of the identity. A field counts as a fresh
  observation only when it has a value and its expression reads a source time or the clock.
\<close>

theorem validated_projection_renders:
  assumes "validate_projection_field_mapping (pj_field_mapping p) = Inr fm" and "distinct (map fst (pj_field_mapping p))"
    and "validate_projection_metadata (pj_metadata p) = Inr md" and "path_root envelope = Inr root"
  shows "(\<exists>b c'. projection_applies clock envelope p c = Inr (Some (PyBool b), c'))
    \<and> (case render_path_template (plain_lookup root) (pj_external_id_path p) c of
        Inl x \<Rightarrow> domain_projection_values clock envelope p c = inbound_error (Inl x)
      | Inr (v, c1) \<Rightarrow> (case string_value v of
          None \<Rightarrow> (\<exists>t. domain_projection_values clock envelope p c = Inl (ValueError t))
        | Some i \<Rightarrow> (\<exists>values results c2. domain_projection_values clock envelope p c = Inr (values, c2)
            \<and> pv_external_id values = i
            \<and> field_results clock root (pj_field_mapping p) c1 = Inr (results, c2)
            \<and> map fst results = map fst (pj_field_mapping p)
            \<and> (\<forall>k. map_of (pv_data values) k = (case map_of results k of Some (Some w) \<Rightarrow> Some w
                 | _ \<Rightarrow> if k = pj_external_id_field p then Some (PyStr i) else None))
            \<and> (\<forall>k \<in> set (pv_fresh values). (\<exists>w. map_of results k = Some (Some w))
                 \<and> (\<exists>e. (k, e) \<in> set (pj_field_mapping p) \<and> reads_time e)))))"
proof (intro conjI validated_condition [OF assms(3,4) refl])
  have ok: "is_str e \<or> is_dict e \<and> collect_expression_errors (''field_mapping.'' @ k) e False = []" if "(k, e) \<in> set (pj_field_mapping p)" for k e
    using validated_fields [OF assms(1)] that by blast
  note total = field_values_total [OF ok assms(2), where clock = clock and root = root and fresh = "[]"]
  show "case render_path_template (plain_lookup root) (pj_external_id_path p) c of
        Inl x \<Rightarrow> domain_projection_values clock envelope p c = inbound_error (Inl x)
      | Inr (v, c1) \<Rightarrow> (case string_value v of
          None \<Rightarrow> (\<exists>t. domain_projection_values clock envelope p c = Inl (ValueError t))
        | Some i \<Rightarrow> (\<exists>values results c2. domain_projection_values clock envelope p c = Inr (values, c2)
            \<and> pv_external_id values = i
            \<and> field_results clock root (pj_field_mapping p) c1 = Inr (results, c2)
            \<and> map fst results = map fst (pj_field_mapping p)
            \<and> (\<forall>k. map_of (pv_data values) k = (case map_of results k of Some (Some w) \<Rightarrow> Some w
                 | _ \<Rightarrow> if k = pj_external_id_field p then Some (PyStr i) else None))
            \<and> (\<forall>k \<in> set (pv_fresh values). (\<exists>w. map_of results k = Some (Some w))
                 \<and> (\<exists>e. (k, e) \<in> set (pj_field_mapping p) \<and> reads_time e))))"
  proof (cases "render_path_template (plain_lookup root) (pj_external_id_path p) c")
    case (Inl x)
    then show ?thesis by (cases x) (simp_all add: domain_projection_values_def assms(4) inbound_error_def)
  next
    case (Inr r)
    obtain v c1 where r: "r = (v, c1)" by (cases r)
    show ?thesis
    proof (cases "string_value v")
      case None
      then show ?thesis by (simp add: Inr r domain_projection_values_def assms(4) inbound_error_def)
    next
      case (Some i)
      from total [of "[(pj_external_id_field p, PyStr i)]" c1] obtain data fresh results c2 where
        "field_values clock root (pj_field_mapping p) [(pj_external_id_field p, PyStr i)] [] c1 = Inr (data, fresh, c2)"
        "field_results clock root (pj_field_mapping p) c1 = Inr (results, c2)" "map fst results = map fst (pj_field_mapping p)"
        "\<forall>k. map_of data k = (case map_of results k of Some (Some w) \<Rightarrow> Some w | _ \<Rightarrow> map_of [(pj_external_id_field p, PyStr i)] k)"
        "\<forall>k \<in> set fresh. (\<exists>w. map_of results k = Some (Some w)) \<and> (\<exists>e. (k, e) \<in> set (pj_field_mapping p) \<and> reads_time e)"
        by auto
      then show ?thesis using Some
        by (auto simp: Inr r domain_projection_values_def assms(4) inbound_error_def cong: option.case_cong)
    qed
  qed
qed

definition ex_projection :: projection where
  "ex_projection = \<lparr>pj_external_id_path = ''payload.{payload.kind}'', pj_external_id_field = ''key'',
     pj_field_mapping = [(''title'', PyStr ''payload.title''), (''seen'', PyDict [(''now'', PyBool True)]),
       (''gone'', PyDict [(''path'', PyStr ''payload.none'')])],
     pj_title_path = Some ''payload.title'', pj_metadata = []\<rparr>"

definition ex_envelope :: pydict where
  "ex_envelope = [(''payload'', PyDict [(''title'', PyStr ''T''), (''kind'', PyStr ''issue'')])]"

lemma validated_projection_renders_witness:
  "\<exists>values c2. domain_projection_values (\<lambda>n. (''t'', Suc n)) ex_envelope ex_projection 0 = Inr (values, c2)
    \<and> pv_external_id values = ''payload.issue'' \<and> map_of (pv_data values) ''title'' = Some (PyStr ''T'')
    \<and> map_of (pv_data values) ''seen'' = Some (PyStr ''t'') \<and> map_of (pv_data values) ''gone'' = None"
proof -
  define root where "root = (case path_root ex_envelope of Inr r \<Rightarrow> r | Inl _ \<Rightarrow> [])"
  have *: "validate_projection_field_mapping (pj_field_mapping ex_projection) = Inr (pj_field_mapping ex_projection)"
    "distinct (map fst (pj_field_mapping ex_projection))"
    "validate_projection_metadata (pj_metadata ex_projection) = Inr (pj_metadata ex_projection)"
    "path_root ex_envelope = Inr root"
    unfolding root_def by code_simp+
  have id: "render_path_template (plain_lookup root) (pj_external_id_path ex_projection) (0 :: nat) = Inr (Some (PyStr ''payload.issue''), 0)"
    "string_value (Some (PyStr ''payload.issue'')) = Some ''payload.issue''"
    unfolding root_def by code_simp+
  have results: "field_results (\<lambda>n. (''t'', Suc n)) root (pj_field_mapping ex_projection) 0
      = Inr ([(''title'', Some (PyStr ''T'')), (''seen'', Some (PyStr ''t'')), (''gone'', None)], Suc 0)"
    unfolding root_def by code_simp
  have key: "pj_external_id_field ex_projection = ''key''" by (simp add: ex_projection_def)
  show ?thesis
    using validated_projection_renders [OF *, of "\<lambda>n. (''t'', Suc n)" 0] by (auto simp: id results key)
qed

end
