(* ===== verification/Worker_Swap.thy ===== *)
theory Worker_Swap
  imports Statuses
begin

text \<open>
  The worker-swap policy (\<open>contracts/worker_swap.py\<close>): the snapshot of the runs that block replacing a worker, the
  decision it implies, and the payload every replacement path reads back. JSON text itself is the library's; a
  payload is the value it denotes.
\<close>

section \<open>Snapshots\<close>

datatype swap_decision = SwapUnknown | SwapReplace | SwapDrain

fun decision_value :: "swap_decision \<Rightarrow> string" where
  "decision_value SwapUnknown = ''unknown''"
| "decision_value SwapReplace = ''replace''"
| "decision_value SwapDrain = ''drain''"

record swap_run =
  sw_id :: int
  sw_status :: string

record swap_snapshot =
  ws_known :: bool
  ws_runs :: "swap_run list"

text \<open>The constructors with their checks: \<open>WorkerSwapRun\<close> and \<open>WorkerSwapSnapshot\<close>.\<close>

definition worker_swap_run :: "pyval \<Rightarrow> pyval \<Rightarrow> swap_run result" where
  "worker_swap_run i s = rbind (int_or_error i) (\<lambda>n.
     if py_str s \<in> set OPEN_RUN_STATUS_VALUES then Inr \<lparr>sw_id = n, sw_status = py_str s\<rparr>
     else Inl (ValueError (repr_str (py_str s) @ '' is not a worker-swap blocking status'')))"

definition make_snapshot :: "bool \<Rightarrow> swap_run list \<Rightarrow> swap_snapshot result" where
  "make_snapshot known runs =
     (let ordered = sort_key sw_id runs in
      if \<not> known \<and> ordered \<noteq> [] then Inl (ValueError ''an unknown worker-swap snapshot cannot contain runs'')
      else if length (remdups (map sw_id ordered)) \<noteq> length ordered
      then Inl (ValueError ''worker-swap snapshot contains duplicate run ids'')
      else Inr \<lparr>ws_known = known, ws_runs = ordered\<rparr>)"

definition ws_decision :: "swap_snapshot \<Rightarrow> swap_decision" where
  "ws_decision s = (if \<not> ws_known s then SwapUnknown else if ws_runs s \<noteq> [] then SwapDrain else SwapReplace)"

definition ws_count :: "swap_snapshot \<Rightarrow> int option" where
  "ws_count s = (if ws_known s then Some (int (length (ws_runs s))) else None)"

definition ws_run_ids :: "swap_snapshot \<Rightarrow> int list" where
  "ws_run_ids s = map sw_id (ws_runs s)"

definition ws_run_ids_csv :: "swap_snapshot \<Rightarrow> string" where
  "ws_run_ids_csv s = py_join '','' (map show_int (ws_run_ids s))"

definition ws_details :: "swap_snapshot \<Rightarrow> string" where
  "ws_details s = (if \<not> ws_known s then ''unknown''
     else py_join '','' (map (\<lambda>r. show_int (sw_id r) @ '':'' @ sw_status r) (ws_runs s)))"

definition ws_count_text :: "swap_snapshot \<Rightarrow> string" where
  "ws_count_text s = (case ws_count s of None \<Rightarrow> ''None'' | Some n \<Rightarrow> show_int n)"

definition ws_report :: "swap_snapshot \<Rightarrow> string" where
  "ws_report s = ''Worker pre-swap check: '' @ ws_count_text s @ '' interactive run(s) in flight (run ids: ''
     @ ws_run_ids_csv s @ ''; id/status: '' @ ws_details s @ '')''"

section \<open>Payloads\<close>

definition run_as_dict :: "swap_run \<Rightarrow> pyval" where
  "run_as_dict r = PyDict [(''id'', PyInt (sw_id r)), (''status'', PyStr (sw_status r))]"

definition as_dict :: "swap_snapshot \<Rightarrow> pydict" where
  "as_dict s =
     [(''known'', PyBool (ws_known s)), (''decision'', PyStr (decision_value (ws_decision s))),
      (''count'', opt_int (ws_count s)), (''run_ids'', PyList (map PyInt (ws_run_ids s))),
      (''runs'', PyList (map run_as_dict (ws_runs s))), (''policy_statuses'', PyList (map PyStr OPEN_RUN_STATUS_VALUES))]"

text \<open>A row is a dictionary, or a sequence of two values.\<close>

definition row_run :: "pyval \<Rightarrow> swap_run result" where
  "row_run row = (case row of
       PyDict d \<Rightarrow> worker_swap_run (dget d ''id'') (dget d ''status'')
     | PyList [i, s] \<Rightarrow> worker_swap_run i s
     | PyList _ \<Rightarrow> Inl (ValueError ''unpack'')
     | PyStr [c, d] \<Rightarrow> worker_swap_run (PyStr [c]) (PyStr [d])
     | PyStr _ \<Rightarrow> Inl (ValueError ''unpack'')
     | _ \<Rightarrow> Inl TypeError)"

definition worker_swap_snapshot :: "pyval list \<Rightarrow> swap_snapshot result" where
  "worker_swap_snapshot rows = rbind (rmap row_run rows) (make_snapshot True)"

definition unknown_worker_swap_snapshot :: "swap_snapshot result" where
  "unknown_worker_swap_snapshot = make_snapshot False []"

definition parse_worker_swap_snapshot :: "pyval \<Rightarrow> swap_snapshot result" where
  "parse_worker_swap_snapshot payload = (case payload of
       PyDict d \<Rightarrow>
         (if \<not> py_eq (dget d ''policy_statuses'') (PyList (map PyStr OPEN_RUN_STATUS_VALUES))
          then Inl (ValueError ''worker-swap snapshot was not derived from the canonical policy'')
          else (case dget d ''known'' of
            PyBool known \<Rightarrow> (case dget d ''runs'' of
                PyList rows \<Rightarrow> rbind (if known then worker_swap_snapshot rows else unknown_worker_swap_snapshot) (\<lambda>s.
                  if \<not> py_eq (dget d ''decision'') (PyStr (decision_value (ws_decision s)))
                  then Inl (ValueError ''worker-swap snapshot decision does not match its runs'')
                  else if \<not> py_eq (dget d ''count'') (opt_int (ws_count s))
                  then Inl (ValueError ''worker-swap snapshot count does not match its runs'')
                  else if \<not> py_eq (dget d ''run_ids'') (PyList (map PyInt (ws_run_ids s)))
                  then Inl (ValueError ''worker-swap snapshot run ids do not match its runs'')
                  else Inr s)
              | _ \<Rightarrow> Inl (ValueError ''worker-swap snapshot runs must be a list''))
          | _ \<Rightarrow> Inl (ValueError ''worker-swap snapshot known flag must be boolean'')))
     | _ \<Rightarrow> Inl (ValueError ''worker-swap snapshot must be a JSON object''))"

definition field_text :: "swap_snapshot \<Rightarrow> string \<Rightarrow> string result" where
  "field_text s f =
     (if f = ''decision'' then Inr (decision_value (ws_decision s))
      else if f = ''count'' then Inr (case ws_count s of None \<Rightarrow> ''unknown'' | Some n \<Rightarrow> show_int n)
      else if f = ''ids'' then Inr (ws_run_ids_csv s)
      else if f = ''details'' then Inr (ws_details s)
      else if f = ''known'' then Inr (if ws_known s then ''true'' else ''false'')
      else if f = ''report'' then Inr (ws_report s)
      else Inl (ValueError (''unknown worker-swap snapshot field: '' @ f)))"

section \<open>Valid snapshots\<close>

definition snapshot_ok :: "swap_snapshot \<Rightarrow> bool" where
  "snapshot_ok s =
     ((ws_known s \<or> ws_runs s = []) \<and> sorted (map sw_id (ws_runs s)) \<and> distinct (map sw_id (ws_runs s))
      \<and> (\<forall>r \<in> set (ws_runs s). sw_status r \<in> set OPEN_RUN_STATUS_VALUES))"

lemma py_eq_strs: "py_eq (PyList (map PyStr xs)) (PyList (map PyStr xs))"
  by (induction xs) (simp_all add: py_eq.simps)

lemma py_eq_ints: "py_eq (PyList (map PyInt xs)) (PyList (map PyInt xs))"
  by (induction xs) (simp_all add: py_eq.simps)

lemma row_run_dict:
  "sw_status r \<in> set OPEN_RUN_STATUS_VALUES \<Longrightarrow> row_run (run_as_dict r) = Inr r"
  by (simp add: row_run_def run_as_dict_def worker_swap_run_def int_or_error_def)

lemma rows_read_back:
  "(\<And>r. r \<in> set runs \<Longrightarrow> sw_status r \<in> set OPEN_RUN_STATUS_VALUES) \<Longrightarrow> rmap row_run (map run_as_dict runs) = Inr runs"
  by (induction runs) (simp_all add: row_run_dict)

lemma rmap_Inr_mem: "list_all2 (\<lambda>x y. f x = Inr y) xs ys \<Longrightarrow> y \<in> set ys \<Longrightarrow> \<exists>x. f x = Inr y"
  by (induction rule: list_all2_induct) auto

lemma make_snapshot_ok:
  assumes "make_snapshot known runs = Inr s" and "\<And>r. r \<in> set runs \<Longrightarrow> sw_status r \<in> set OPEN_RUN_STATUS_VALUES"
  shows "snapshot_ok s \<and> ws_known s = known \<and> set (ws_runs s) = set runs"
proof -
  have "length (remdups (map sw_id (sort_key sw_id runs))) = length (map sw_id (sort_key sw_id runs))"
    and s: "s = \<lparr>ws_known = known, ws_runs = sort_key sw_id runs\<rparr>" "known \<or> runs = []"
    using assms(1) by (auto simp: make_snapshot_def Let_def split: if_splits)
  then have "distinct (map sw_id (sort_key sw_id runs))" by (metis length_remdups_eq remdups_id_iff_distinct)
  then show ?thesis using s assms(2) by (auto simp: snapshot_ok_def)
qed

lemma row_run_open: "row_run row = Inr r \<Longrightarrow> sw_status r \<in> set OPEN_RUN_STATUS_VALUES"
  by (auto simp: row_run_def worker_swap_run_def rbind_Inr_iff split: pyval.splits list.splits if_splits)

section \<open>Properties\<close>

text \<open>
  Every valid snapshot is read back from its own payload; whatever payload is accepted denotes a valid
  snapshot, whose runs are sorted, unique and open; and it says \<open>replace\<close> only when it is known that no run is open.
\<close>
theorem swap_snapshot_round_trip:
  "(snapshot_ok s \<longrightarrow> parse_worker_swap_snapshot (PyDict (as_dict s)) = Inr s)
   \<and> (parse_worker_swap_snapshot payload = Inr s' \<longrightarrow>
        snapshot_ok s' \<and> (ws_decision s' = SwapReplace \<longleftrightarrow> ws_known s' \<and> ws_runs s' = []))"
proof (intro conjI impI)
  assume ok: "snapshot_ok s"
  then have "length (remdups (map sw_id (ws_runs s))) = length (ws_runs s)"
    by (simp add: snapshot_ok_def distinct_remdups_id)
  moreover have "sort_key sw_id (ws_runs s) = ws_runs s" using ok by (simp add: snapshot_ok_def sort_key_id_if_sorted)
  moreover have "rmap row_run (map run_as_dict (ws_runs s)) = Inr (ws_runs s)"
    using ok by (intro rows_read_back) (simp add: snapshot_ok_def)
  ultimately have "(if ws_known s then worker_swap_snapshot (map run_as_dict (ws_runs s)) else unknown_worker_swap_snapshot) = Inr s"
    using ok by (cases s) (auto simp: worker_swap_snapshot_def unknown_worker_swap_snapshot_def make_snapshot_def snapshot_ok_def)
  moreover have "py_eq (opt_int n) (opt_int n)" for n by (cases n) (simp_all add: py_eq.simps)
  ultimately show "parse_worker_swap_snapshot (PyDict (as_dict s)) = Inr s"
    by (simp add: parse_worker_swap_snapshot_def as_dict_def py_eq_strs py_eq_ints py_eq.simps [of "PyStr _" "PyStr _"])
next
  assume "parse_worker_swap_snapshot payload = Inr s'"
  then have "(\<exists>rows. worker_swap_snapshot rows = Inr s') \<or> unknown_worker_swap_snapshot = Inr s'"
    by (auto simp: parse_worker_swap_snapshot_def rbind_Inr_iff split: pyval.splits if_split_asm)
  then show "snapshot_ok s'"
  proof
    assume "\<exists>rows. worker_swap_snapshot rows = Inr s'"
    then obtain rows runs where runs: "rmap row_run rows = Inr runs" "make_snapshot True runs = Inr s'"
      by (auto simp: worker_swap_snapshot_def rbind_Inr_iff)
    have "sw_status r \<in> set OPEN_RUN_STATUS_VALUES" if "r \<in> set runs" for r
      using rmap_Inr_mem [OF runs(1) [unfolded rmap_Inr_iff] that] row_run_open by blast
    then show ?thesis using make_snapshot_ok [OF runs(2)] by blast
  next
    assume "unknown_worker_swap_snapshot = Inr s'"
    then show ?thesis using make_snapshot_ok [of False "[]"] by (simp add: unknown_worker_swap_snapshot_def)
  qed
  show "ws_decision s' = SwapReplace \<longleftrightarrow> ws_known s' \<and> ws_runs s' = []"
    by (simp add: ws_decision_def)
qed

lemma swap_snapshot_round_trip_witness:
  "parse_worker_swap_snapshot (PyDict (as_dict \<lparr>ws_known = True, ws_runs = [\<lparr>sw_id = 7, sw_status = ''running''\<rparr>]\<rparr>))
     = Inr \<lparr>ws_known = True, ws_runs = [\<lparr>sw_id = 7, sw_status = ''running''\<rparr>]\<rparr>"
proof -
  have "snapshot_ok \<lparr>ws_known = True, ws_runs = [\<lparr>sw_id = 7, sw_status = ''running''\<rparr>]\<rparr>" by code_simp
  then show ?thesis using swap_snapshot_round_trip by blast
qed

end
