(* ===== verification/Spec2Isabelle.thy ===== *)
theory Spec2Isabelle
  imports Run_Steps Loop_Control Window_Policy Cycle_Guard Cycle_Reviews Scheduler_Guard Scheduler_Overdue
    Project_Publish Project_Permissions Inbound_Projections Worker_Swap
begin

text \<open>
  A model of the core of Illospace, the Python package \<open>src/brain\<close>, with the properties that make it correct.

  \<^bold>\<open>The program.\<close> Illospace runs agents for an organisation. A request becomes an agent run, a row that
  workers claim, execute under a fencing token, interrupt, requeue and settle. A run talks to a model in a loop
  whose transcript is sanitized, compacted and held under a token budget, and which is stopped when it repeats
  itself. Recurring work comes from a scheduler with cron slots and leases and from cycles; both count their
  failures in a guard that raises one alert per streak. The files of a Project live in a root with a version
  history; each thread edits a draft of it that is synchronized with the root and published back. Events from
  outside are projected onto the fields of user-defined records by a small expression language.

  \<^bold>\<open>Agent runs\<close> (\<open>systems/runs\<close>, \<open>contracts/statuses.py\<close>).
  \<^item> \<open>Statuses\<close>: the status values, the transition table of \<open>status.py\<close>, the projection and coercion of
    stored text. \<open>Worker_Swap\<close>: the snapshot of open runs that decides whether a worker may be replaced
    (\<open>contracts/worker_swap.py\<close>), which reads its own payload back.
  \<^item> \<open>Provider_Errors\<close>, \<open>Run_Domain\<close>: the error classification of \<open>provider_error_sentinel.py\<close>, requests, rows,
    events, artifacts and failure categories.
  \<^item> \<open>Run_Db\<close>: the tables, their constraints, and store programs: a session holds a working copy and the committed
    database, a program returns or raises, and the \<open>safe\<close> calculus shows that a program keeps the invariant.
    \<open>Run_Store\<close> and \<open>Run_Transitions\<close> are the write side of \<open>store.py\<close>: \<open>set_status_on_locked_run\<close> and what is
    built on it (fail, settle, interrupt and requeue); \<open>apply_transition\<close> is the closed form of an applied one, and
    every outcome refines a step of the audit log or none. \<open>Run_Creation\<close>: admission under two idempotency keys. \<open>Run_Claims\<close>:
    execution claims with deadlock retries and the queue scan. \<open>Run_Steering\<close>: the inbox of a run.
    \<open>Run_Watchdog\<close>: heartbeats, and the sweep of \<open>deadlines.py\<close> that asks overdue runs to close out and expires them,
    against a selection (\<open>first_due\<close>) and a close-out (\<open>closeout_asked\<close>) stated without the code.
  \<^item> \<open>Run_Steps\<close>: any number of workers, one operation at a time on the committed database; invariant, finality
    of settled runs and fencing of superseded claims over all reachable databases.

  \<^bold>\<open>The agent loop and its context\<close> (\<open>runs/direct_loop\<close>, \<open>systems/sessions\<close>, \<open>systems/context\<close>).
  \<^item> \<open>Loop_Control\<close>: progress, three stuck-loop detectors, failure windows per tool, precedence and latching.
  \<^item> \<open>Transcripts\<close>: tool-pair sanitizing, digests, cache marks and field stripping. \<open>Compaction\<close> and
    \<open>Checkpoints\<close>: slices, summaries, checkpoints, plans and thread handoffs. \<open>Context_Budget\<close>: the model catalog
    and the token budget. \<open>Window_Policy\<close>: admission, relaxation and progress of a run's context window.

  \<^bold>\<open>Failure guards and scheduling\<close> (\<open>systems/failure_guard\<close>, \<open>systems/cycles\<close>, \<open>app/scheduler\<close>).
  \<^item> \<open>Failure_Guard\<close>: registrations, evaluation, latches and the search for an alert channel; \<open>Cycle_Guard\<close> and
    \<open>Scheduler_Guard\<close>: its two users, up to the terminal step of a run.
  \<^item> \<open>Scheduler_Contracts\<close>, \<open>Scheduler_Planner\<close>, \<open>Scheduler_Leases\<close>: job identification and task contracts, cron
    fields and the next fire time, materialization of due runs, and claims, heartbeats, reclaim and retry.

  \<^item> \<open>Scheduler_Overdue\<close>: the watch over the scheduler (\<open>overdue_monitor.py\<close>, \<open>overdue_alert_state.py\<close>): the latches
    API replicas share, paced alerts, bounded restarts, recovery; the replicas are a step relation their checks refine.
  \<^item> \<open>Cycle_Values\<close>, \<open>Cycle_Policy\<close>, \<open>Cycle_Reviews\<close>: the policy of a Cycle (\<open>behavior_policy.py\<close> and its contract):
    validated snapshots, schedules, previews with digests, reviewed changes and reverts in a savepoint, guidance and
    the audit history.

  \<^bold>\<open>Projects\<close> (\<open>systems/cortex/project_context\<close>).
  \<^item> \<open>Project_Files\<close>: directory trees as maps from paths to files and directories, with the file operations the
    code uses and manifests. \<open>Project_Drafts\<close>: synchronization, the publish plan and conflict checkpoints.
    \<open>Project_Versions\<close>: capture, list, restore and compare. \<open>Project_Publish\<close>: operations, filters, blockers,
    rollback and the request over several resources. Its operations strip their paths as the code does: a path that
    becomes \<open>..\<close> empties the directory above, the root with its history if that is it, and then fails.
  \<^item> \<open>Project_Permissions\<close>: normalisation of paths, the scope of a snapshot and the verdict on a path.

  \<^bold>\<open>Inbound projections.\<close> \<open>Mapping_Expressions\<close> (\<open>platform/mapping_expressions.py\<close>) and
  \<open>Inbound_Projections\<close> (\<open>inbound/service.py\<close>): validator, evaluator, template languages, path lookup and the
  rendering of a projection, compared with a reference meaning of its expressions.

  \<^bold>\<open>Shared.\<close> \<open>Py_Prelude\<close> is the fragment of Python the code relies on (JSON values with the equality of
  Python, dictionaries in insertion order, string methods, integers, exceptions as \<open>result\<close>), \<open>Py_Time\<close> the calendar
  of \<open>datetime\<close>, \<open>Run_Examples\<close> a small database for the witnesses. Definitions keep the names of the code; \<open>ex_\<close>
  definitions are concrete inputs of witnesses.

  \<^bold>\<open>Interfaces.\<close> \<open>ledger\<close> (\<open>Py_Prelude\<close>) states that every step keeps an invariant and relates the states by
  a preorder; it is interpreted on the store (\<open>Run_Steps\<close>), the window policy, the scheduler tables, the policy tables
  (\<open>Cycle_Reviews\<close>) and the restart budget (\<open>Scheduler_Overdue\<close>).
  \<open>latch_store\<close> (\<open>Failure_Guard\<close>) is what the guard needs of a table of latches, interpreted on the latches of cycles and
  of scheduler jobs. \<open>limit_search\<close> (\<open>Checkpoints\<close>) is the search for a message limit, interpreted on compaction
  plans.

  \<^bold>\<open>The properties, by kind.\<close> Safety and invariants: settled runs stay settled, superseded claims never
  return, stale workers are refused, reachable databases and scheduler tables are consistent, one run per
  idempotency key, transcripts with intact tool pairs, publish plans with exactly the draft's changes, roots restored
  after a failed publish, no policy applied on a stale review, a gapless policy history, one budget of scheduler restarts
  for all replicas. Refinement: transitions against an append-only log, the cycle guard against a machine of three
  variables, synchronization of a draft against a three-way merge, checks of the monitor against the steps of replicas.
  Equivalence: the queue scan with the first claimable run, path templates with a grammar of text and placeholders,
  permission verdicts with containment of component lists, granted alerts with the escalation levels reached. Functional:
  policy changes that read back, exact deadline sweeps, the next fire time. Round trips: versions of a root, reverts of
  a policy. Termination and liveness: compaction without progress ends, overdue runs are expired. Errors: the refusals
  of admission, and behaviours of the code that its users would not expect (file names of blanks or dots, a root file in the place
  of a draft directory, a freeze that is no longer escalated). Theorems that are not in this list, such as the loop
  detectors, worker-swap snapshots and undelivered recoveries, support it or stand beside it.

  \<^bold>\<open>Bounds.\<close> Loops are structural or have a measure; no claim is conditional on termination. The search for the
  next fire time tries \<open>cron_horizon\<close> = 527040 candidates as the code does (366 days of minutes); the search for a free
  version identifier has one more candidate than the history has versions, so one is free; the channel search of the
  alert delivery takes fuel, and any fuel above the number of cursors Slack can answer makes it return (\<open>Cycle_Guard\<close>). Integers are unbounded, as in Python.

  \<^bold>\<open>Parameters.\<close> SHA-256, time zones, the ISO parser and \<open>croniter\<close> behind schedules, the event bus, the tool registry, the semantic compactor, texts of
  foreign exceptions, the directory order, the hooks a settled run triggers, and the clock are
  arguments; where a property needs something of them (a hook that keeps the store's invariant, a zone whose
  offset is constant) it is a hypothesis, and the witness discharges it on a concrete function.

  \<^bold>\<open>Not modelled.\<close> Sessions lock rows, so an operation is atomic up to its commits and lock waits are not steps;
  the lease waiting loop of the store is left out. Of sessions the
  SQL upsert; of budgets the settings of an organisation; of schedules the steps of multi-step runs; of Cycles their
  admission, execution and silence monitoring, which are SQL over several subsystems; of drafts and
  roots symbolic links, file modes, single-file roots, git repositories, what publishing does to single files of the
  history directory or beside the root; of the inbound service its ingestion and
  policies; of the scheduler its processes, the reaper of stale processes and cold-start reconciliation. Code points
  are below 256. The rest of the package is orchestration of SQL, HTTP and subprocesses, or models and tools reached
  over the network, where a model would be of the parameters and not of the code.
\<close>

end
